(* ===== verification/Prelude.thy ===== *)
theory Prelude
  imports Main "HOL-Library.AList" "HOL-Library.Word"
begin

text \<open>
  Shared vocabulary of the development: hash maps as association lists with distinct keys
  (interface \<open>dict\<close>), the machine arithmetic of Rust's \<open>u64\<close> and \<open>i64\<close> that the engine
  uses (saturating addition, casts), and the text helpers the file stores rely on: decimal
  printing (\<open>format!\<close> of a number), \<open>str::parse::<u64>\<close>, \<open>strip_prefix\<close>/\<open>strip_suffix\<close>.
  Text is ASCII: a Rust \<open>String\<close> is a HOL \<^typ>\<open>string\<close>.
\<close>

named_theorems hm_simps \<open>hash-map rewrite rules\<close>
named_theorems inv_intros \<open>introduction rules: an operation preserves an invariant\<close>

section \<open>Option and list helpers\<close>

lemma sorted_take_le_drop:
  assumes "sorted xs" and "x \<in> set (take n xs)" and "y \<in> set (drop n xs)"
  shows "x \<le> y"
proof -
  have "sorted (take n xs @ drop n xs)" using assms(1) by simp
  with assms(2,3) show ?thesis by (simp only: sorted_append)
qed

lemma in_set_drop_conv: "x \<in> set (drop n xs) \<longleftrightarrow> (\<exists>q < length xs. n \<le> q \<and> x = xs ! q)"
proof
  assume "x \<in> set (drop n xs)"
  then obtain i where "i < length xs - n" "x = xs ! (n + i)"
    by (auto simp: in_set_conv_nth)
  then show "\<exists>q < length xs. n \<le> q \<and> x = xs ! q" by (intro exI [of _ "n + i"]) auto
next
  assume "\<exists>q < length xs. n \<le> q \<and> x = xs ! q"
  then obtain q where "q < length xs" "n \<le> q" "x = xs ! q" by blast
  then show "x \<in> set (drop n xs)"
    by (auto simp: in_set_conv_nth intro!: exI [of _ "q - n"])
qed

lemma last_in_drop: "n < length xs \<Longrightarrow> last xs \<in> set (drop n xs)"
  by (metis drop_eq_Nil last_drop last_in_set leD)

lemma list_all2_map_eq: "list_all2 (\<lambda>x y. f y = g x) xs ys \<Longrightarrow> map f ys = map g xs"
  by (induction rule: list_all2_induct) simp_all

lemma sorted_le_last: "sorted xs \<Longrightarrow> x \<in> set xs \<Longrightarrow> x \<le> last xs"
  by (induction xs) auto

section \<open>Machine integers\<close>

definition u64_max :: nat where
  "u64_max = 2 ^ 64 - 1"

text \<open>\<open>u64::saturating_add\<close>.\<close>

definition sat_add_u64 :: "nat \<Rightarrow> nat \<Rightarrow> nat" where
  "sat_add_u64 a b = min (a + b) u64_max"

text \<open>\<open>x as i64\<close> for a \<open>u64\<close> value: two's complement reinterpretation.\<close>

definition u64_as_i64 :: "nat \<Rightarrow> int" where
  "u64_as_i64 n = (if n < 2 ^ 63 then int n else int n - 2 ^ 64)"

definition i64_min :: int where
  "i64_min = - (2 ^ 63)"

definition i64_max :: int where
  "i64_max = 2 ^ 63 - 1"

text \<open>\<open>i64::saturating_sub\<close>.\<close>

definition sat_sub_i64 :: "int \<Rightarrow> int \<Rightarrow> int" where
  "sat_sub_i64 a b = max i64_min (min i64_max (a - b))"

lemma sat_add_u64_le [simp]: "sat_add_u64 a b \<le> u64_max"
  by (simp add: sat_add_u64_def)

lemma sat_add_u64_exact: "a + b \<le> u64_max \<Longrightarrow> sat_add_u64 a b = a + b"
  by (simp add: sat_add_u64_def)

lemma sat_add_u64_mono: "a \<le> u64_max \<Longrightarrow> a \<le> sat_add_u64 a b"
  by (simp add: sat_add_u64_def)

lemma sat_add_u64_greater: "a < u64_max \<Longrightarrow> a < sat_add_u64 a 1"
  by (simp add: sat_add_u64_def)

section \<open>Hash maps\<close>

text \<open>
  \<open>HashMap<K, V>\<close> is an association list whose keys are distinct. Rust leaves the iteration
  order unspecified; the model iterates in list order, which is one of the permitted orders.
  The operations follow the Rust API: \<open>get\<close>, \<open>insert\<close> (replacing the value of a present key),
  \<open>remove\<close>, \<open>contains_key\<close>, \<open>values\<close>, \<open>retain\<close>.
\<close>

type_synonym ('k, 'v) hashmap = "('k \<times> 'v) list"

definition hm_empty :: "('k, 'v) hashmap" where
  "hm_empty = []"

definition hm_get :: "('k, 'v) hashmap \<Rightarrow> 'k \<Rightarrow> 'v option" where
  "hm_get m k = map_of m k"

definition hm_insert :: "'k \<Rightarrow> 'v \<Rightarrow> ('k, 'v) hashmap \<Rightarrow> ('k, 'v) hashmap" where
  "hm_insert k v m = AList.update k v m"

definition hm_remove :: "'k \<Rightarrow> ('k, 'v) hashmap \<Rightarrow> ('k, 'v) hashmap" where
  "hm_remove k m = AList.delete k m"

definition hm_contains :: "('k, 'v) hashmap \<Rightarrow> 'k \<Rightarrow> bool" where
  "hm_contains m k = (case hm_get m k of None \<Rightarrow> False | Some _ \<Rightarrow> True)"

definition hm_values :: "('k, 'v) hashmap \<Rightarrow> 'v list" where
  "hm_values m = map snd m"

definition hm_keys :: "('k, 'v) hashmap \<Rightarrow> 'k list" where
  "hm_keys m = map fst m"

definition hm_wf :: "('k, 'v) hashmap \<Rightarrow> bool" where
  "hm_wf m = distinct (map fst m)"

text \<open>\<open>retain\<close> keeps the entries whose key and value satisfy a predicate; \<open>get_mut\<close> followed by
  an assignment is \<open>hm_modify\<close>; \<open>iter_mut\<close> over the values is \<open>hm_map_values\<close>.\<close>

definition hm_retain :: "('k \<Rightarrow> 'v \<Rightarrow> bool) \<Rightarrow> ('k, 'v) hashmap \<Rightarrow> ('k, 'v) hashmap" where
  "hm_retain p m = filter (\<lambda>(k, v). p k v) m"

definition hm_modify :: "'k \<Rightarrow> ('v \<Rightarrow> 'v) \<Rightarrow> ('k, 'v) hashmap \<Rightarrow> ('k, 'v) hashmap" where
  "hm_modify k f m = map (\<lambda>(k', v). (k', if k' = k then f v else v)) m"

definition hm_map_values :: "('v \<Rightarrow> 'v) \<Rightarrow> ('k, 'v) hashmap \<Rightarrow> ('k, 'v) hashmap" where
  "hm_map_values f m = map (\<lambda>(k, v). (k, f v)) m"

lemma hm_get_empty [simp, hm_simps]: "hm_get hm_empty k = None"
  by (simp add: hm_get_def hm_empty_def)

lemma hm_get_Nil [simp]: "hm_get [] k = None"
  by (simp add: hm_get_def)

lemma hm_get_insert [hm_simps]:
  "hm_get (hm_insert k v m) k' = (if k' = k then Some v else hm_get m k')"
  by (simp add: hm_get_def hm_insert_def update_conv)

lemma hm_get_remove [hm_simps]:
  "hm_get (hm_remove k m) k' = (if k' = k then None else hm_get m k')"
  by (simp add: hm_get_def hm_remove_def delete_conv)

lemma hm_get_modify [hm_simps]:
  "hm_get (hm_modify k f m) k' = (if k' = k then map_option f (hm_get m k) else hm_get m k')"
  by (induction m) (auto simp: hm_get_def hm_modify_def)

lemma hm_get_map_values [hm_simps]: "hm_get (hm_map_values f m) k = map_option f (hm_get m k)"
  by (induction m) (auto simp: hm_get_def hm_map_values_def)

lemma hm_get_retain [hm_simps]:
  "hm_wf m \<Longrightarrow>
     hm_get (hm_retain p m) k =
       (case hm_get m k of None \<Rightarrow> None | Some v \<Rightarrow> if p k v then Some v else None)"
proof (induction m)
  case Nil
  then show ?case by (simp add: hm_get_def hm_retain_def)
next
  case (Cons e m)
  have none: "map_of (filter q m) (fst e) = None" for q
    using Cons.prems by (force simp: hm_wf_def map_of_eq_None_iff)
  from Cons.prems have "hm_wf m" by (simp add: hm_wf_def)
  with Cons.IH none show ?case
    by (cases e) (auto simp: hm_get_def hm_retain_def)
qed

lemma hm_wf_empty [simp, inv_intros]: "hm_wf hm_empty"
  by (simp add: hm_wf_def hm_empty_def)

lemma hm_wf_insert [inv_intros]: "hm_wf m \<Longrightarrow> hm_wf (hm_insert k v m)"
  by (simp add: hm_wf_def hm_insert_def distinct_update)

lemma hm_wf_remove [inv_intros]: "hm_wf m \<Longrightarrow> hm_wf (hm_remove k m)"
  by (simp add: hm_wf_def hm_remove_def distinct_delete)

lemma hm_wf_modify [simp]: "hm_wf (hm_modify k f m) = hm_wf m"
  by (simp add: hm_wf_def hm_modify_def split_def comp_def)

lemma hm_wf_map_values [simp]: "hm_wf (hm_map_values f m) = hm_wf m"
  by (simp add: hm_wf_def hm_map_values_def split_def comp_def)

lemma hm_wf_retain [inv_intros]: "hm_wf m \<Longrightarrow> hm_wf (hm_retain p m)"
  by (auto simp: hm_wf_def hm_retain_def distinct_map intro: inj_on_subset)

lemma hm_get_in_set: "hm_wf m \<Longrightarrow> hm_get m k = Some v \<longleftrightarrow> (k, v) \<in> set m"
  by (auto simp: hm_wf_def hm_get_def)

lemma hm_insert_fresh: "k \<notin> fst ` set m \<Longrightarrow> hm_insert k v m = m @ [(k, v)]"
  unfolding hm_insert_def by (induction m) auto

lemma hm_keys_insert: "set (hm_keys (hm_insert k v m)) = insert k (set (hm_keys m))"
  by (simp add: hm_keys_def hm_insert_def dom_update)

text \<open>
  The dictionary interface the components program against: what a lookup returns after an
  insertion or a removal, and that both keep the representation invariant. A batch of insertions
  (a job plan, a replayed log) is then described once, for every implementation.
\<close>

locale dict =
  fixes empty :: "'m"
    and get :: "'m \<Rightarrow> 'k \<Rightarrow> 'v option"
    and insert :: "'k \<Rightarrow> 'v \<Rightarrow> 'm \<Rightarrow> 'm"
    and remove :: "'k \<Rightarrow> 'm \<Rightarrow> 'm"
    and wf :: "'m \<Rightarrow> bool"
  assumes get_empty: "get empty k = None"
    and get_insert: "wf m \<Longrightarrow> get (insert k v m) k' = (if k' = k then Some v else get m k')"
    and get_remove: "wf m \<Longrightarrow> get (remove k m) k' = (if k' = k then None else get m k')"
    and wf_empty: "wf empty"
    and wf_insert: "wf m \<Longrightarrow> wf (insert k v m)"
    and wf_remove: "wf m \<Longrightarrow> wf (remove k m)"
begin

lemma wf_fold_insert: "wf m \<Longrightarrow> wf (fold (\<lambda>x. insert (key x) (val x)) xs m)"
  by (induction xs arbitrary: m) (auto intro: wf_insert)

lemma get_fold_insert:
  "wf m \<Longrightarrow>
     get (fold (\<lambda>x. insert (key x) (val x)) xs m) k =
       (case map_of (rev (map (\<lambda>x. (key x, val x)) xs)) k of
          None \<Rightarrow> get m k | Some v \<Rightarrow> Some v)"
proof (induction xs arbitrary: m)
  case Nil
  then show ?case by simp
next
  case (Cons x xs)
  then show ?case
    by (auto simp: wf_insert get_insert map_add_def split: option.splits)
qed

lemma get_fold_insert_other:
  "wf m \<Longrightarrow> k \<notin> key ` set xs \<Longrightarrow> get (fold (\<lambda>x. insert (key x) (val x)) xs m) k = get m k"
  by (induction xs arbitrary: m) (auto simp: wf_insert get_insert)

end

interpretation hm: dict hm_empty hm_get hm_insert hm_remove hm_wf
  by unfold_locales (auto simp: hm_simps intro: inv_intros)

section \<open>Text\<close>

definition digit_char :: "nat \<Rightarrow> char" where
  "digit_char d = char_of (48 + d)"

definition is_digit :: "char \<Rightarrow> bool" where
  "is_digit c = (48 \<le> (of_char c :: nat) \<and> (of_char c :: nat) \<le> 57)"

definition digit_val :: "char \<Rightarrow> nat" where
  "digit_val c = of_char c - 48"

text \<open>\<open>format!("{}", n)\<close> for an unsigned number.\<close>

fun show_nat :: "nat \<Rightarrow> string" where
  "show_nat n = (if n < 10 then [digit_char n] else show_nat (n div 10) @ [digit_char (n mod 10)])"

declare show_nat.simps [simp del]

text \<open>\<open>str::parse::<u64>\<close>: an optional leading plus sign, at least one digit, no overflow.\<close>

fun digits_val :: "nat \<Rightarrow> string \<Rightarrow> nat option" where
  "digits_val acc [] = Some acc"
| "digits_val acc (c # cs) =
     (if is_digit c
      then let acc' = acc * 10 + digit_val c in if u64_max < acc' then None else digits_val acc' cs
      else None)"

definition parse_u64 :: "string \<Rightarrow> nat option" where
  "parse_u64 s =
     (if s = [] \<or> s = ''+'' then None
      else digits_val 0 (if hd s = CHR ''+'' then tl s else s))"

definition strip_prefix :: "string \<Rightarrow> string \<Rightarrow> string option" where
  "strip_prefix p s = (if take (length p) s = p then Some (drop (length p) s) else None)"

definition strip_suffix :: "string \<Rightarrow> string \<Rightarrow> string option" where
  "strip_suffix p s =
     (if length p \<le> length s \<and> drop (length s - length p) s = p
      then Some (take (length s - length p) s) else None)"

lemma of_char_digit_char [simp]: "d < 10 \<Longrightarrow> (of_char (digit_char d) :: nat) = 48 + d"
  by (simp add: digit_char_def)

lemma is_digit_digit_char [simp]: "d < 10 \<Longrightarrow> is_digit (digit_char d)"
  by (simp add: is_digit_def)

lemma digit_val_digit_char [simp]: "d < 10 \<Longrightarrow> digit_val (digit_char d) = d"
  by (simp add: digit_val_def)

lemma digit_char_inj [simp]: "a < 10 \<Longrightarrow> b < 10 \<Longrightarrow> digit_char a = digit_char b \<longleftrightarrow> a = b"
  by (metis digit_val_digit_char)

lemma show_nat_digits: "c \<in> set (show_nat n) \<Longrightarrow> is_digit c"
proof (induction n rule: show_nat.induct)
  case (1 n)
  then show ?case by (cases "n < 10") (auto simp: show_nat.simps [of n])
qed

lemma show_nat_nonempty [simp]: "show_nat n \<noteq> []"
  by (subst show_nat.simps) simp

lemma digits_val_show_nat: "n \<le> u64_max \<Longrightarrow> digits_val 0 (show_nat n @ cs) = digits_val n cs"
proof (induction n arbitrary: cs rule: show_nat.induct)
  case (1 n)
  show ?case
  proof (cases "n < 10")
    case True
    with 1(2) show ?thesis by (simp add: show_nat.simps [of n] u64_max_def)
  next
    case False
    have "n div 10 \<le> u64_max" using 1(2) by (meson div_le_dividend le_trans)
    with 1(1) False
    have "digits_val 0 (show_nat (n div 10) @ digit_char (n mod 10) # cs) =
        digits_val (n div 10) (digit_char (n mod 10) # cs)" by simp
    with False 1(2) show ?thesis
      by (simp add: show_nat.simps [of n] Let_def mult.commute)
  qed
qed

lemma hd_show_nat_digit: "is_digit (hd (show_nat n))"
  by (rule show_nat_digits [of _ n]) simp

lemma plus_not_digit [simp]: "\<not> is_digit (CHR ''+'')"
  by (simp add: is_digit_def)

lemma parse_show_nat [simp]: "n \<le> u64_max \<Longrightarrow> parse_u64 (show_nat n) = Some n"
proof -
  assume n: "n \<le> u64_max"
  have hd: "hd (show_nat n) \<noteq> CHR ''+''"
    using hd_show_nat_digit [of n] by (metis plus_not_digit)
  then have "show_nat n \<noteq> ''+''" by auto
  with hd n show ?thesis using digits_val_show_nat [of n "[]"] by (simp add: parse_u64_def)
qed

lemma show_nat_inj_bounded:
  "m \<le> u64_max \<Longrightarrow> n \<le> u64_max \<Longrightarrow> show_nat m = show_nat n \<longleftrightarrow> m = n"
  by (metis option.inject parse_show_nat)

lemma digit_char_val: "d < 10 \<Longrightarrow> (of_char (digit_char d) :: nat) = 48 + d"
  by (simp add: digit_char_def of_char_of)

lemma show_nat_val: "foldl (\<lambda>a c. a * 10 + ((of_char c :: nat) - 48)) 0 (show_nat n) = n"
proof (induction n rule: show_nat.induct)
  case (1 n)
  then show ?case
    by (cases "n < 10") (simp_all add: show_nat.simps [of n] digit_char_val)
qed

lemma show_nat_inj [simp]: "show_nat m = show_nat n \<longleftrightarrow> m = n"
  using show_nat_val by metis

lemma strip_prefix_append [simp]: "strip_prefix p (p @ s) = Some s"
  by (simp add: strip_prefix_def)

lemma strip_suffix_append [simp]: "strip_suffix p (s @ p) = Some s"
  by (simp add: strip_suffix_def)

lemma strip_prefix_Some: "strip_prefix p s = Some r \<longleftrightarrow> s = p @ r"
  by (auto simp: strip_prefix_def) (metis append_take_drop_id)

lemma strip_suffix_Some: "strip_suffix p s = Some r \<longleftrightarrow> s = r @ p"
  by (auto simp: strip_suffix_def) (metis append_take_drop_id)

text \<open>\<open>to_lowercase\<close> on ASCII letters, and signed numbers: printing, and \<open>str::parse\<close> for a signed type of \<open>w\<close> bits.\<close>

definition to_lower :: "char \<Rightarrow> char" where
  "to_lower ch =
     (let n = (of_char ch :: nat) in if 65 \<le> n \<and> n \<le> 90 then char_of (n + 32) else ch)"

definition is_alphanumeric :: "char \<Rightarrow> bool" where
  "is_alphanumeric c =
     (let n = (of_char c :: nat) in
      (48 \<le> n \<and> n \<le> 57) \<or> (65 \<le> n \<and> n \<le> 90) \<or> (97 \<le> n \<and> n \<le> 122))"

definition show_int :: "int \<Rightarrow> string" where
  "show_int n = (if n < 0 then CHR ''-'' # show_nat (nat (- n)) else show_nat (nat n))"

definition parse_int :: "nat \<Rightarrow> string \<Rightarrow> int option" where
  "parse_int w s =
     (let digits = (\<lambda>cs. if cs = [] then None else map_option int (digits_val 0 cs));
          n = (case s of [] \<Rightarrow> None
               | c # cs \<Rightarrow> if c = CHR ''-'' then map_option uminus (digits cs)
                           else if c = CHR ''+'' then digits cs else digits s)
      in case n of None \<Rightarrow> None | Some v \<Rightarrow> if - (2 ^ (w - 1)) \<le> v \<and> v < 2 ^ (w - 1) then Some v else None)"

lemma minus_not_digit [simp]: "\<not> is_digit (CHR ''-'')"
  by (simp add: is_digit_def)

lemma parse_show_int:
  assumes "- (2 ^ (w - 1)) \<le> n" and "n < 2 ^ (w - 1)" and "w \<le> 64"
  shows "parse_int w (show_int n) = Some n"
proof -
  have w: "(2::int) ^ (w - 1) \<le> 2 ^ 63" using assms(3) by (intro power_increasing) simp_all
  have m: "nat \<bar>n\<bar> \<le> u64_max" using assms(1,2) w by (simp add: u64_max_def nat_le_iff)
  have d: "digits_val 0 (show_nat (nat \<bar>n\<bar>)) = Some (nat \<bar>n\<bar>)"
    using digits_val_show_nat [OF m, of "[]"] by simp
  have h: "hd (show_nat k) \<noteq> CHR ''-''" "hd (show_nat k) \<noteq> CHR ''+''" for k
    using hd_show_nat_digit [of k] by (metis minus_not_digit, metis plus_not_digit)
  show ?thesis
  proof (cases "n < 0")
    case True
    then have "show_int n = CHR ''-'' # show_nat (nat \<bar>n\<bar>)" by (simp add: show_int_def)
    with True d assms show ?thesis by (simp add: parse_int_def Let_def)
  next
    case False
    then have s: "show_int n = show_nat (nat \<bar>n\<bar>)" by (simp add: show_int_def)
    obtain c cs where c: "show_nat (nat \<bar>n\<bar>) = c # cs" by (cases "show_nat (nat \<bar>n\<bar>)") auto
    with h [of "nat \<bar>n\<bar>"] False d assms s show ?thesis by (simp add: parse_int_def Let_def)
  qed
qed

section \<open>Splitting and joining text\<close>

fun join_with :: "string \<Rightarrow> string list \<Rightarrow> string" where
  "join_with sep [] = []"
| "join_with sep [s] = s"
| "join_with sep (s # ss) = s @ sep @ join_with sep ss"

fun split_on :: "char \<Rightarrow> string \<Rightarrow> string list" where
  "split_on d [] = [[]]"
| "split_on d (c # cs) =
     (if c = d then [] # split_on d cs else (case split_on d cs of [] \<Rightarrow> [[c]] | p # ps \<Rightarrow> (c # p) # ps))"

text \<open>\<open>char::is_whitespace\<close> on ASCII, \<open>trim\<close>, \<open>split_whitespace\<close>.\<close>

definition is_space :: "char \<Rightarrow> bool" where
  "is_space ch = (let n = (of_char ch :: nat) in n = 32 \<or> (9 \<le> n \<and> n \<le> 13))"

definition trim :: "string \<Rightarrow> string" where
  "trim s = rev (dropWhile is_space (rev (dropWhile is_space s)))"

fun split_by :: "(char \<Rightarrow> bool) \<Rightarrow> string \<Rightarrow> string list" where
  "split_by P [] = [[]]"
| "split_by P (c # cs) =
     (if P c then [] # split_by P cs else (case split_by P cs of [] \<Rightarrow> [[c]] | p # ps \<Rightarrow> (c # p) # ps))"

definition split_whitespace :: "string \<Rightarrow> string list" where
  "split_whitespace s = filter (\<lambda>p. p \<noteq> []) (split_by is_space s)"

lemma split_on_safe: "list_all (\<lambda>c. c \<noteq> d) s \<Longrightarrow> split_on d s = [s]"
  by (induction s) simp_all

lemma split_on_cons: "list_all (\<lambda>c. c \<noteq> d) s \<Longrightarrow> split_on d (s @ d # rest) = s # split_on d rest"
  by (induction s) simp_all

lemma split_join:
  "parts \<noteq> [] \<Longrightarrow> list_all (list_all (\<lambda>c. c \<noteq> d)) parts \<Longrightarrow> split_on d (join_with [d] parts) = parts"
proof (induction parts)
  case (Cons p parts)
  then show ?case by (cases parts) (simp_all add: split_on_safe split_on_cons)
qed simp

lemma set_join: "set (join_with sep parts) \<subseteq> set sep \<union> \<Union> (set ` set parts)"
  by (induction sep parts rule: join_with.induct) auto

text \<open>\<open>split_once\<close> and \<open>rsplit_once\<close>: around the first and the last occurrence of a separator.\<close>

fun split_once :: "string \<Rightarrow> string \<Rightarrow> (string \<times> string) option" where
  "split_once sep [] = (if sep = [] then Some ([], []) else None)"
| "split_once sep (c # cs) =
     (case strip_prefix sep (c # cs) of
        Some rest \<Rightarrow> Some ([], rest)
      | None \<Rightarrow> map_option (\<lambda>(a, b). (c # a, b)) (split_once sep cs))"

fun rsplit_once :: "string \<Rightarrow> string \<Rightarrow> (string \<times> string) option" where
  "rsplit_once sep [] = (if sep = [] then Some ([], []) else None)"
| "rsplit_once sep (c # cs) =
     (case rsplit_once sep cs of
        Some (a, b) \<Rightarrow> Some (c # a, b)
      | None \<Rightarrow> map_option (Pair []) (strip_prefix sep (c # cs)))"

end
