(* ===== verification/Job_State.thy ===== *)
theory Job_State
  imports Prelude
begin

text \<open>
  The lifecycle state of jobs and tasks (\<open>JobState\<close> in \<open>job_coordinator.rs\<close>), its wire and proto
  forms, and the serializable records of the command log and the snapshot (\<open>TaskInfoDto\<close>, \<open>JobDto\<close>).
\<close>

datatype job_state =
    Created
  | Scheduled
  | Deploying
  | Running
  | Completed
  | Failed string
  | Cancelled

definition job_state_from :: "string \<Rightarrow> job_state" where
  "job_state_from s =
     (if s = ''RUNNING'' then Running
      else if s = ''COMPLETED'' then Completed
      else if s = ''FAILED'' then Failed ''unknown''
      else if s = ''CANCELLED'' then Cancelled
      else if s = ''SCHEDULED'' then Scheduled
      else if s = ''DEPLOYING'' then Deploying
      else Created)"

fun to_proto_state :: "job_state \<Rightarrow> int" where
  "to_proto_state Created = 1"
| "to_proto_state Scheduled = 2"
| "to_proto_state Deploying = 7"
| "to_proto_state Running = 3"
| "to_proto_state Completed = 4"
| "to_proto_state (Failed reason) = 5"
| "to_proto_state Cancelled = 6"

fun to_wire :: "job_state \<Rightarrow> string" where
  "to_wire Created = ''CREATED''"
| "to_wire Scheduled = ''SCHEDULED''"
| "to_wire Deploying = ''DEPLOYING''"
| "to_wire Running = ''RUNNING''"
| "to_wire Completed = ''COMPLETED''"
| "to_wire (Failed reason) = ''FAILED''"
| "to_wire Cancelled = ''CANCELLED''"

fun is_terminal :: "job_state \<Rightarrow> bool" where
  "is_terminal Completed = True"
| "is_terminal (Failed reason) = True"
| "is_terminal Cancelled = True"
| "is_terminal s = False"

record task_info_dto =
  tid_task_id :: string
  tid_stage_id :: string
  tid_worker_id :: string
  tid_state :: string
  tid_records :: nat
  tid_error :: "string option"

record job_dto =
  jd_job_id :: string
  jd_job_name :: string
  jd_state :: string
  jd_parallelism :: nat
  jd_start_time :: int
  jd_end_time :: "int option"
  jd_error_message :: "string option"
  jd_checkpoint_interval_ms :: nat
  jd_checkpoints_completed :: nat
  jd_next_checkpoint_id :: nat
  jd_raw_config :: string
  jd_tasks :: "task_info_dto list"

text \<open>The state a state becomes when it goes over the wire: a failure loses its reason.\<close>

definition wire_state :: "job_state \<Rightarrow> job_state" where
  "wire_state s = (case s of Failed _ \<Rightarrow> Failed ''unknown'' | _ \<Rightarrow> s)"

lemma from_to_wire [simp]: "job_state_from (to_wire s) = wire_state s"
  by (cases s) (simp_all add: job_state_from_def wire_state_def)

lemma wire_state_terminal [simp]: "is_terminal (wire_state s) = is_terminal s"
  by (cases s) (simp_all add: wire_state_def)

lemma wire_state_idem [simp]: "wire_state (wire_state s) = wire_state s"
  by (cases s) (simp_all add: wire_state_def)

lemma wire_state_eq [simp]:
  "wire_state s = Running \<longleftrightarrow> s = Running" "wire_state s = Deploying \<longleftrightarrow> s = Deploying"
  "wire_state s = Scheduled \<longleftrightarrow> s = Scheduled" "wire_state s = Created \<longleftrightarrow> s = Created"
  "wire_state s = Completed \<longleftrightarrow> s = Completed" "wire_state s = Cancelled \<longleftrightarrow> s = Cancelled"
  by (cases s; simp add: wire_state_def)+

lemma terminal_cases: "is_terminal s \<longleftrightarrow> s = Completed \<or> (\<exists>r. s = Failed r) \<or> s = Cancelled"
  by (cases s) simp_all

text \<open>
  Job states on the wire: reading back the wire form of a state gives that state, except that
  a failure comes back with the reason \<open>unknown\<close>; the wire form and the proto number tell apart
  exactly the states that differ in more than a failure's reason.
\<close>

theorem wire_roundtrip:
  "job_state_from (to_wire s) = wire_state s \<and>
   (to_wire s = to_wire t \<longleftrightarrow> wire_state s = wire_state t) \<and>
   (to_proto_state s = to_proto_state t \<longleftrightarrow> wire_state s = wire_state t)"
proof (intro conjI)
  show "job_state_from (to_wire s) = wire_state s" by simp
qed (cases s; cases t; simp add: wire_state_def)+

end
