(* ===== verification/Job_Planner.thy ===== *)
theory Job_Planner
  imports Json Job_State "HOL-Library.Product_Lexorder"
begin

text \<open>
  The planner half of \<open>job_coordinator.rs\<close>: reading the pipelines, transforms and environment of a
  job configuration, and compiling them into one task descriptor per pipeline and subtask, placed
  on the worker with the least pressure. The wall clock and the JSON printer
  (\<open>serde_json::to_string\<close>, \<open>None\<close> for its error) are arguments. Errors are values.
\<close>

datatype plan_error =
    No_Worker string
  | Pipelines_Empty
  | No_Source string
  | Source_Empty string
  | No_Sinks string
  | Sink_Shape
  | Sink_Entry_Shape
  | No_Sink_Configured
  | Serialize string

type_synonym 'a plan_result = "plan_error + 'a"

definition ok_or :: "plan_error \<Rightarrow> 'a option \<Rightarrow> 'a plan_result" where
  "ok_or e a = (case a of None \<Rightarrow> Inl e | Some x \<Rightarrow> Inr x)"

definition bindr :: "'a plan_result \<Rightarrow> ('a \<Rightarrow> 'b plan_result) \<Rightarrow> 'b plan_result" where
  "bindr r f = (case r of Inl e \<Rightarrow> Inl e | Inr x \<Rightarrow> f x)"

lemma bindr_simps [simp]: "bindr (Inl e) f = Inl e" "bindr (Inr x) f = f x"
  by (simp_all add: bindr_def)

lemma bindr_Inr_iff: "bindr r f = Inr y \<longleftrightarrow> (\<exists>x. r = Inr x \<and> f x = Inr y)"
  by (cases r) simp_all

fun traverse :: "('a \<Rightarrow> 'b plan_result) \<Rightarrow> 'a list \<Rightarrow> 'b list plan_result" where
  "traverse f [] = Inr []"
| "traverse f (x # xs) = bindr (f x) (\<lambda>y. bindr (traverse f xs) (\<lambda>ys. Inr (y # ys)))"

lemma traverse_Inr: "traverse f xs = Inr ys \<longleftrightarrow> list_all2 (\<lambda>x y. f x = Inr y) xs ys"
  by (induction xs arbitrary: ys) (auto simp: bindr_Inr_iff list_all2_Cons1)

section \<open>Reading the configuration\<close>

definition DEFAULT_CHECKPOINT_INTERVAL_MS :: nat where
  "DEFAULT_CHECKPOINT_INTERVAL_MS = 30000"

record sink_declaration =
  sd_plugin :: string
  sd_config :: json

definition sink_block :: "json \<Rightarrow> sink_declaration list plan_result" where
  "sink_block block =
     bindr (ok_or Sink_Entry_Shape (as_object block))
       (\<lambda>m. Inr (map (\<lambda>(plugin, config). \<lparr>sd_plugin = plugin, sd_config = config\<rparr>) m))"

definition parse_sink_declarations :: "json \<Rightarrow> sink_declaration list plan_result" where
  "parse_sink_declarations section =
     bindr (case section of
              JArray items \<Rightarrow> Inr items
            | JObject m \<Rightarrow> Inr [section]
            | JNull \<Rightarrow> Inr []
            | _ \<Rightarrow> Inl Sink_Shape)
       (\<lambda>blocks. bindr (traverse sink_block blocks)
         (\<lambda>sinks. if concat sinks = [] then Inl No_Sink_Configured else Inr (concat sinks)))"

record pipeline_spec =
  ps_name :: string
  ps_parallelism :: nat
  ps_source_plugin :: string
  ps_source_config :: json
  ps_sinks :: "sink_declaration list"
  ps_on_sink_failure :: string

definition first_block :: "json \<Rightarrow> (string \<times> json) option" where
  "first_block section =
     (case section of
        JObject m \<Rightarrow> (case m of [] \<Rightarrow> None | e # _ \<Rightarrow> Some e)
      | JArray items \<Rightarrow>
          (case items of
             [] \<Rightarrow> None
           | item # _ \<Rightarrow>
               (case as_object item of
                  None \<Rightarrow> None | Some m \<Rightarrow> (case m of [] \<Rightarrow> None | e # _ \<Rightarrow> Some e)))
      | _ \<Rightarrow> None)"

definition pipeline_entry :: "string \<Rightarrow> nat \<Rightarrow> nat \<times> json \<Rightarrow> pipeline_spec plan_result" where
  "pipeline_entry default_policy default_parallelism = (\<lambda>(idx, entry).
     let name = unwrap_or (''p'' @ show_nat idx) (Option.bind (j_get ''name'' entry) as_str);
         parallelism =
           (case Option.bind (j_get ''parallelism'' entry) as_u64 of
              None \<Rightarrow> default_parallelism | Some v \<Rightarrow> max v 1)
     in bindr (ok_or (No_Source name) (j_get ''source'' entry)) (\<lambda>source_section.
        bindr (ok_or (Source_Empty name) (first_block source_section)) (\<lambda>(plugin, config).
        bindr (ok_or (No_Sinks name) (or_else (j_get ''sinks'' entry) (j_get ''sink'' entry))) (\<lambda>sink_section.
        bindr (parse_sink_declarations sink_section) (\<lambda>sinks.
          Inr \<lparr>ps_name = name, ps_parallelism = parallelism, ps_source_plugin = plugin,
               ps_source_config = config, ps_sinks = sinks,
               ps_on_sink_failure =
                 unwrap_or default_policy (Option.bind (j_get ''on-sink-failure'' entry) as_str)\<rparr>)))))"

definition extract_pipelines :: "json \<Rightarrow> nat \<Rightarrow> pipeline_spec list plan_result" where
  "extract_pipelines config default_parallelism =
     (let default_policy =
            unwrap_or ''fail''
              (Option.bind (Option.bind (j_get ''env'' config) (j_get ''on-sink-failure'')) as_str)
      in case Option.bind (j_get ''pipelines'' config) as_array of
           Some list \<Rightarrow>
             if list = [] then Inl Pipelines_Empty
             else traverse (pipeline_entry default_policy default_parallelism) (enumerate 0 list)
         | None \<Rightarrow>
             bindr (ok_or (No_Source []) (j_get ''source'' config)) (\<lambda>source_section.
             bindr (ok_or (Source_Empty []) (first_block source_section)) (\<lambda>(plugin, source_config).
             bindr (ok_or (No_Sinks []) (j_get ''sink'' config)) (\<lambda>sink_section.
             bindr (parse_sink_declarations sink_section) (\<lambda>sinks.
               Inr [\<lparr>ps_name = ''pipeline'', ps_parallelism = default_parallelism,
                     ps_source_plugin = plugin, ps_source_config = source_config, ps_sinks = sinks,
                     ps_on_sink_failure = default_policy\<rparr>])))))"

definition transform_entry :: "string \<times> json \<Rightarrow> json" where
  "transform_entry = (\<lambda>(name, cfg).
     case cfg of
       JObject inner \<Rightarrow> JObject (AList.update ''plugin_name'' (JString name) inner)
     | other \<Rightarrow> JObject [(''config'', other), (''plugin_name'', JString name)])"

definition extract_transform_list :: "json \<Rightarrow> json list" where
  "extract_transform_list config =
     (case j_get ''transform'' config of
        None \<Rightarrow> []
      | Some (JArray items) \<Rightarrow> items
      | Some (JObject m) \<Rightarrow> map transform_entry m
      | Some _ \<Rightarrow> [])"

definition env_parallelism :: "json \<Rightarrow> nat" where
  "env_parallelism config =
     unwrap_or 1
       (Option.bind (j_get ''env'' config) (\<lambda>env.
        Option.bind (j_get ''parallelism'' env) (\<lambda>p.
          case p of
            JInt n \<Rightarrow> as_u64 p
          | JObject m \<Rightarrow> Option.bind (map_of m ''default'') as_u64
          | _ \<Rightarrow> None)))"

definition env_checkpoint_interval :: "json \<Rightarrow> nat" where
  "env_checkpoint_interval config =
     unwrap_or DEFAULT_CHECKPOINT_INTERVAL_MS
       (Option.bind (j_get ''env'' config) (\<lambda>env.
          or_else
            (Option.bind (j_get ''checkpoint'' env) (\<lambda>c.
               case c of
                 JInt n \<Rightarrow> as_u64 c
               | JObject m \<Rightarrow> Option.bind (map_of m ''interval'') as_u64
               | _ \<Rightarrow> None))
            (Option.bind (j_get ''checkpoint.interval'' env) as_u64)))"

section \<open>Placement\<close>

text \<open>A candidate worker: id, address, load score and whether it accepts new tasks.\<close>

type_synonym candidate = "string \<times> string \<times> nat \<times> bool"

abbreviation cand_id :: "candidate \<Rightarrow> string" where "cand_id w \<equiv> fst w"

abbreviation cand_score :: "candidate \<Rightarrow> nat" where "cand_score w \<equiv> fst (snd (snd w))"

abbreviation cand_accepts :: "candidate \<Rightarrow> bool" where "cand_accepts w \<equiv> snd (snd (snd w))"

text \<open>\<open>Iterator::min_by_key\<close>: the first element with the least key.\<close>

fun min_by_key :: "('a \<Rightarrow> 'k :: linorder) \<Rightarrow> 'a list \<Rightarrow> 'a option" where
  "min_by_key f [] = None"
| "min_by_key f (x # xs) =
     (case min_by_key f xs of None \<Rightarrow> Some x | Some y \<Rightarrow> if f x \<le> f y then Some x else Some y)"

type_synonym load = "(string, nat) hashmap"

definition load_of :: "load \<Rightarrow> string \<Rightarrow> nat" where
  "load_of load w = unwrap_or 0 (hm_get load w)"

definition place_key :: "load \<Rightarrow> candidate \<Rightarrow> nat \<times> nat" where
  "place_key load w = (cand_score w, load_of load (cand_id w))"

definition pick_worker :: "load \<Rightarrow> candidate list \<Rightarrow> candidate option" where
  "pick_worker load workers =
     or_else (min_by_key (place_key load) (filter cand_accepts workers))
       (min_by_key (place_key load) workers)"

definition bump_load :: "string \<Rightarrow> load \<Rightarrow> load" where
  "bump_load w load = hm_insert w (load_of load w + 1) load"

record task_descriptor =
  td_task_id :: string
  td_job_id :: string
  td_stage_id :: string
  td_task_name :: string
  td_task_index :: int
  td_parallelism :: int
  td_config :: "(string, string) hashmap"

definition as_i32 :: "nat \<Rightarrow> int" where
  "as_i32 n = (let m = int n mod 2 ^ 32 in if m < 2 ^ 31 then m else m - 2 ^ 32)"

definition stage_id :: "string \<Rightarrow> nat \<Rightarrow> string" where
  "stage_id job pipe_idx = job @ ''-p'' @ show_nat pipe_idx"

definition task_id :: "string \<Rightarrow> nat \<Rightarrow> nat \<Rightarrow> string" where
  "task_id job pipe_idx i = job @ ''-p'' @ show_nat pipe_idx @ ''-'' @ show_nat i"

definition sinks_json :: "pipeline_spec \<Rightarrow> json" where
  "sinks_json pipe =
     JArray (map (\<lambda>s. JObject [(''config'', sd_config s), (''plugin'', JString (sd_plugin s))]) (ps_sinks pipe))"

definition descriptor_of ::
    "(json \<Rightarrow> string option) \<Rightarrow> string \<Rightarrow> string \<Rightarrow> nat \<Rightarrow> json list \<Rightarrow> nat \<Rightarrow> pipeline_spec \<Rightarrow> nat \<Rightarrow> candidate \<Rightarrow>
     task_descriptor plan_result" where
  "descriptor_of ser job job_name interval transforms pipe_idx pipe i w =
     bindr (ok_or (Serialize ''source config'') (ser (ps_source_config pipe))) (\<lambda>src.
     bindr (ok_or (Serialize ''sinks'') (ser (sinks_json pipe))) (\<lambda>sinks.
     bindr (ok_or (Serialize ''transforms'') (ser (JArray transforms))) (\<lambda>trs.
       Inr \<lparr>td_task_id = task_id job pipe_idx i, td_job_id = job, td_stage_id = stage_id job pipe_idx,
            td_task_name = job_name @ ''-'' @ ps_name pipe @ ''-'' @ show_nat i,
            td_task_index = as_i32 i, td_parallelism = as_i32 (ps_parallelism pipe),
            td_config =
              [(''worker_id'', cand_id w), (''worker_address'', fst (snd w)), (''job.name'', job_name),
               (''pipeline.index'', show_nat pipe_idx), (''pipeline.name'', ps_name pipe),
               (''pipeline.source.plugin'', ps_source_plugin pipe), (''pipeline.source.config'', src),
               (''pipeline.sinks'', sinks), (''pipeline.on-sink-failure'', ps_on_sink_failure pipe),
               (''transform.config'', trs), (''checkpoint.interval'', show_nat interval)]\<rparr>)))"

text \<open>
  The two nested loops run over the list of (pipeline index, pipeline, subtask) slots; each turn
  picks a worker, counts the task against it and builds the descriptor.
\<close>

definition plan_slots :: "pipeline_spec list \<Rightarrow> (nat \<times> pipeline_spec \<times> nat) list" where
  "plan_slots pipes =
     concat (map (\<lambda>(idx, pipe). map (\<lambda>i. (idx, pipe, i)) [0..<ps_parallelism pipe]) (enumerate 0 pipes))"

definition choose_worker :: "load \<Rightarrow> candidate list \<Rightarrow> candidate" where
  "choose_worker load workers = unwrap_or (hd workers) (pick_worker load workers)"

fun build_tasks ::
    "(json \<Rightarrow> string option) \<Rightarrow> string \<Rightarrow> string \<Rightarrow> nat \<Rightarrow> json list \<Rightarrow> candidate list \<Rightarrow>
     (nat \<times> pipeline_spec \<times> nat) list \<Rightarrow> load \<Rightarrow> task_descriptor list plan_result" where
  "build_tasks ser job job_name interval transforms workers [] load = Inr []"
| "build_tasks ser job job_name interval transforms workers ((idx, pipe, i) # slots) load =
     (let w = choose_worker load workers;
          load' = bump_load (cand_id w) load
      in bindr (descriptor_of ser job job_name interval transforms idx pipe i w) (\<lambda>t.
         bindr (build_tasks ser job job_name interval transforms workers slots load') (\<lambda>ts.
           Inr (t # ts))))"

section \<open>Compiling a plan\<close>

definition planned_info :: "task_descriptor \<Rightarrow> task_info_dto" where
  "planned_info t =
     \<lparr>tid_task_id = td_task_id t, tid_stage_id = td_stage_id t,
      tid_worker_id = unwrap_or [] (hm_get (td_config t) ''worker_id''),
      tid_state = to_wire Scheduled, tid_records = 0, tid_error = None\<rparr>"

definition plan_infos :: "task_descriptor list \<Rightarrow> (string, task_info_dto) hashmap" where
  "plan_infos ts = fold (\<lambda>t. hm_insert (td_task_id t) (planned_info t)) ts hm_empty"

definition compile_plan_inner ::
    "(json \<Rightarrow> string option) \<Rightarrow> int \<Rightarrow> load \<Rightarrow> string \<Rightarrow> string \<Rightarrow> json \<Rightarrow> nat option \<Rightarrow> candidate list \<Rightarrow>
     (job_dto \<times> task_descriptor list) plan_result" where
  "compile_plan_inner ser now running_counts job job_name config override workers =
     (let parallelism = max (unwrap_or (env_parallelism config) override) 1 in
      if workers = [] then Inl (No_Worker job_name)
      else
        let interval = env_checkpoint_interval config in
        bindr (extract_pipelines config parallelism) (\<lambda>pipelines.
        let transforms = extract_transform_list config in
        bindr (build_tasks ser job job_name interval transforms workers (plan_slots pipelines) running_counts)
          (\<lambda>tasks.
           Inr (\<lparr>jd_job_id = job, jd_job_name = job_name, jd_state = to_wire Scheduled,
                 jd_parallelism = parallelism, jd_start_time = now, jd_end_time = None,
                 jd_error_message = None, jd_checkpoint_interval_ms = interval,
                 jd_checkpoints_completed = 0, jd_next_checkpoint_id = 1,
                 jd_raw_config = unwrap_or [] (ser config),
                 jd_tasks = hm_values (plan_infos tasks)\<rparr>, tasks))))"

section \<open>Properties of placement\<close>

lemma min_by_key_None [simp]: "min_by_key f xs = None \<longleftrightarrow> xs = []"
  by (cases xs) (simp_all split: option.splits)

lemma min_by_key_Some:
  "min_by_key f xs = Some x \<Longrightarrow> x \<in> set xs \<and> (\<forall>y \<in> set xs. f x \<le> f y)"
  by (induction xs arbitrary: x) (fastforce split: option.splits if_splits)+

lemma pick_worker_Some:
  assumes "workers \<noteq> []"
  obtains w where "pick_worker load workers = Some w" and "w \<in> set workers"
    and "cand_accepts w \<or> (\<forall>v \<in> set workers. \<not> cand_accepts v)"
    and "\<forall>v \<in> set workers. cand_accepts v = cand_accepts w \<longrightarrow> place_key load w \<le> place_key load v"
proof (cases "min_by_key (place_key load) (filter cand_accepts workers)")
  case None
  then have na: "\<forall>v \<in> set workers. \<not> cand_accepts v" by (simp add: filter_empty_conv)
  obtain w where w: "min_by_key (place_key load) workers = Some w"
    using assms min_by_key_None by (metis not_None_eq)
  with na None that [of w] min_by_key_Some [OF w] show ?thesis by (auto simp: pick_worker_def)
next
  case (Some w)
  have "w \<in> set workers" "cand_accepts w"
    "\<forall>v \<in> set workers. cand_accepts v \<longrightarrow> place_key load w \<le> place_key load v"
    using min_by_key_Some [OF Some] by (simp_all only: set_filter mem_Collect_eq) blast+
  with Some show ?thesis by (intro that [of w]) (simp_all add: pick_worker_def)
qed

lemma choose_worker_facts:
  assumes "workers \<noteq> []" and "w = choose_worker load workers"
  shows "w \<in> set workers" and "cand_accepts w \<or> (\<forall>v \<in> set workers. \<not> cand_accepts v)"
    and "\<forall>v \<in> set workers. cand_accepts v = cand_accepts w \<longrightarrow> place_key load w \<le> place_key load v"
  using pick_worker_Some [OF assms(1), of load] assms(2) by (metis choose_worker_def unwrap_or_simps(2))+

text \<open>Task ids\<close>

lemma show_nat_no_sep: "CHR ''-'' \<notin> set (show_nat n)" "CHR ''p'' \<notin> set (show_nat n)"
  using show_nat_digits [of "CHR ''-''" n] show_nat_digits [of "CHR ''p''" n]
  by (auto simp: is_digit_def)

lemma split_at_last:
  assumes "xs @ c # ys = xs' @ c # ys'" and "c \<notin> set ys" and "c \<notin> set ys'"
  shows "xs = xs' \<and> ys = ys'"
proof -
  have "takeWhile (\<lambda>x. x \<noteq> c) (rev (xs @ c # ys)) = rev ys"
    "takeWhile (\<lambda>x. x \<noteq> c) (rev (xs' @ c # ys')) = rev ys'"
    using assms(2,3) by (auto simp: takeWhile_append2 takeWhile_tail)
  with assms(1) have "ys = ys'" by (metis rev_rev_ident)
  with assms(1) show ?thesis by simp
qed

lemma task_id_inj:
  assumes "task_id job p i = task_id job' p' i'"
  shows "job = job' \<and> p = p' \<and> i = i'"
proof -
  note d = show_nat_no_sep
  have 1: "(job @ ''-p'' @ show_nat p) = (job' @ ''-p'' @ show_nat p') \<and> show_nat i = show_nat i'"
    by (rule split_at_last [of _ "CHR ''-''"]) (use assms d in \<open>simp_all add: task_id_def\<close>)
  have "job @ ''-'' = job' @ ''-'' \<and> show_nat p = show_nat p'"
    by (rule split_at_last [of _ "CHR ''p''"]) (use 1 d in simp_all)
  with 1 show ?thesis by simp
qed

definition worker_of :: "task_descriptor \<Rightarrow> string" where
  "worker_of t = unwrap_or [] (hm_get (td_config t) ''worker_id'')"

lemma descriptor_fields:
  assumes "descriptor_of ser job job_name interval transforms idx pipe i w = Inr t"
  shows "td_task_id t = task_id job idx i" "td_stage_id t = stage_id job idx" "td_job_id t = job"
    "worker_of t = cand_id w" "td_task_index t = as_i32 i"
  using assms by (auto simp: descriptor_of_def bindr_Inr_iff worker_of_def hm_get_def)

lemma build_tasks_facts:
  assumes "build_tasks ser job job_name interval transforms workers slots load = Inr ts"
    and "workers \<noteq> []"
  shows "list_all2 (\<lambda>(idx, pipe, i) t. td_task_id t = task_id job idx i \<and> td_stage_id t = stage_id job idx \<and>
      td_job_id t = job \<and> (\<exists>w \<in> set workers. worker_of t = cand_id w \<and>
        (cand_accepts w \<or> (\<forall>v \<in> set workers. \<not> cand_accepts v)))) slots ts"
  using assms(1)
proof (induction slots arbitrary: load ts)
  case Nil
  then show ?case by simp
next
  case (Cons x slots)
  obtain idx pipe i where x: "x = (idx, pipe, i)" by (metis prod_cases3)
  let ?w = "choose_worker load workers"
  from Cons.prems x obtain t ts' where
    t: "descriptor_of ser job job_name interval transforms idx pipe i ?w = Inr t" and
    r: "build_tasks ser job job_name interval transforms workers slots (bump_load (cand_id ?w) load) = Inr ts'"
    and ts: "ts = t # ts'"
    by (auto simp: Let_def bindr_Inr_iff)
  note w = choose_worker_facts [OF assms(2) refl, of load]
  from Cons.IH [OF r] descriptor_fields [OF t] w(1,2) show ?case
    unfolding x ts by (simp only: list.rel_inject prod.case) blast
qed

definition slot_keys :: "nat \<Rightarrow> pipeline_spec list \<Rightarrow> (nat \<times> nat) list" where
  "slot_keys n pipes = concat (map (\<lambda>(idx, p). map (Pair idx) [0..<ps_parallelism p]) (enumerate n pipes))"

lemma slot_keys_Cons: "slot_keys n (p # ps) = map (Pair n) [0..<ps_parallelism p] @ slot_keys (Suc n) ps"
  by (simp add: slot_keys_def)

lemma slot_keys_ge: "k \<in> set (slot_keys n ps) \<Longrightarrow> n \<le> fst k"
proof (induction ps arbitrary: n)
  case Nil
  then show ?case by (simp add: slot_keys_def)
next
  case (Cons p ps)
  from Cons.IH [of "Suc n"] Cons.prems show ?case by (auto simp: slot_keys_Cons)
qed

lemma slot_keys_distinct: "distinct (slot_keys n ps)"
proof (induction ps arbitrary: n)
  case Nil
  then show ?case by (simp add: slot_keys_def)
next
  case (Cons p ps)
  have "k \<notin> set (slot_keys (Suc n) ps)" if "fst k = n" for k
    using slot_keys_ge [of k "Suc n" ps] that by auto
  with Cons.IH [of "Suc n"] show ?case
    by (auto simp: slot_keys_Cons distinct_map inj_on_def)
qed

lemma plan_slots_keys: "map (\<lambda>(idx, pipe, i). (idx, i)) (plan_slots pipes) = slot_keys 0 pipes"
  by (simp add: plan_slots_def slot_keys_def map_concat comp_def split_def)

lemma length_slot_keys: "length (slot_keys n ps) = sum_list (map ps_parallelism ps)"
  by (induction ps arbitrary: n) (simp_all add: slot_keys_Cons, simp add: slot_keys_def)

lemma plan_infos_append:
  assumes "distinct (map td_task_id ts)" and "set (map td_task_id ts) \<inter> fst ` set m = {}"
  shows "fold (\<lambda>t. hm_insert (td_task_id t) (planned_info t)) ts m =
    m @ map (\<lambda>t. (td_task_id t, planned_info t)) ts"
  using assms
proof (induction ts arbitrary: m)
  case Nil
  then show ?case by simp
next
  case (Cons t ts)
  have "hm_insert (td_task_id t) (planned_info t) m = m @ [(td_task_id t, planned_info t)]"
    using Cons.prems(2) by (intro hm_insert_fresh) auto
  with Cons show ?case by (auto simp: image_iff)
qed

lemma compile_plan_tasks:
  assumes "compile_plan_inner ser now counts job job_name config override workers = Inr (dto, ts)"
  shows "jd_job_id dto = job" and "jd_tasks dto = hm_values (plan_infos ts)"
    and "\<exists>pipes. extract_pipelines config (jd_parallelism dto) = Inr pipes \<and>
      map td_task_id ts = map (\<lambda>(p, i). task_id job p i) (slot_keys 0 pipes)"
    and "\<forall>t \<in> set ts. \<exists>w \<in> set workers. worker_of t = cand_id w \<and>
      (cand_accepts w \<or> (\<forall>v \<in> set workers. \<not> cand_accepts v))"
proof -
  from assms obtain pipes where w: "workers \<noteq> []"
    and p: "extract_pipelines config (jd_parallelism dto) = Inr pipes"
    and b: "build_tasks ser job job_name (env_checkpoint_interval config) (extract_transform_list config)
        workers (plan_slots pipes) counts = Inr ts"
    and "jd_tasks dto = hm_values (plan_infos ts)" and "jd_job_id dto = job"
    by (auto simp: compile_plan_inner_def Let_def bindr_Inr_iff split: if_splits)
  then show "jd_job_id dto = job" and "jd_tasks dto = hm_values (plan_infos ts)" by simp_all
  note f = build_tasks_facts [OF b w]
  have "list_all2 (\<lambda>x t. td_task_id t = (\<lambda>(idx, pipe, i). task_id job idx i) x) (plan_slots pipes) ts"
    by (rule list_all2_mono [OF f]) auto
  then have "map td_task_id ts = map (\<lambda>(p, i). task_id job p i) (slot_keys 0 pipes)"
    unfolding plan_slots_keys [symmetric] map_map
    by (drule_tac list_all2_map_eq) (simp add: comp_def split_def)
  with p show "\<exists>pipes. extract_pipelines config (jd_parallelism dto) = Inr pipes \<and>
      map td_task_id ts = map (\<lambda>(p, i). task_id job p i) (slot_keys 0 pipes)" by blast
  show "\<forall>t \<in> set ts. \<exists>w \<in> set workers. worker_of t = cand_id w \<and>
      (cand_accepts w \<or> (\<forall>v \<in> set workers. \<not> cand_accepts v))"
  proof
    fix t assume "t \<in> set ts"
    then obtain n where "n < length ts" "t = ts ! n" by (metis in_set_conv_nth)
    with list_all2_nthD2 [OF f] show "\<exists>w \<in> set workers. worker_of t = cand_id w \<and>
        (cand_accepts w \<or> (\<forall>v \<in> set workers. \<not> cand_accepts v))"
      by (auto simp: case_prod_beta)
  qed
qed

lemma plan_infos_mem:
  assumes "t \<in> set (hm_values (plan_infos ts))"
  shows "\<exists>d \<in> set ts. t = planned_info d"
proof -
  have "set (hm_values (hm_insert k v m)) \<subseteq> insert v (set (hm_values m))" for k v and m :: "(string, task_info_dto) hashmap"
    by (induction m) (auto simp: hm_values_def hm_insert_def)
  then have "set (hm_values (fold (\<lambda>t. hm_insert (td_task_id t) (planned_info t)) ts m)) \<subseteq>
      planned_info ` set ts \<union> set (hm_values m)" for m
    by (induction ts arbitrary: m) (fastforce+)
  from this [of hm_empty] assms show ?thesis by (auto simp: plan_infos_def hm_values_def hm_empty_def)
qed

text \<open>
  Task ids name a job, a pipeline and a subtask without ambiguity, also across jobs whatever
  characters the job ids have.
\<close>

theorem task_ids_unambiguous:
  "task_id job p i = task_id job' p' i' \<longleftrightarrow> job = job' \<and> p = p' \<and> i = i'"
  using task_id_inj by blast

text \<open>
  C28. A compiled plan is complete and well placed: it has one task per pipeline and subtask with
  distinct ids, the job record lists exactly these tasks, all scheduled and with the same owner as
  the descriptor, and every task is on a registered worker, an accepting one whenever one exists.
\<close>

theorem compile_plan_sound:
  assumes "compile_plan_inner ser now counts job job_name config override workers = Inr (dto, ts)"
  shows "\<exists>pipes. extract_pipelines config (jd_parallelism dto) = Inr pipes \<and>
      map (\<lambda>t. td_task_id t) ts = map (\<lambda>(p, i). task_id job p i) (slot_keys 0 pipes) \<and>
      length ts = sum_list (map ps_parallelism pipes) \<and> distinct (map td_task_id ts) \<and>
      jd_tasks dto = map planned_info ts \<and>
      (\<forall>t \<in> set ts. \<exists>w \<in> set workers. worker_of t = cand_id w \<and>
         (cand_accepts w \<or> (\<forall>v \<in> set workers. \<not> cand_accepts v)))"
proof -
  note f = compile_plan_tasks [OF assms]
  then obtain pipes where p: "extract_pipelines config (jd_parallelism dto) = Inr pipes"
    and ids: "map td_task_id ts = map (\<lambda>(p, i). task_id job p i) (slot_keys 0 pipes)" by blast
  then have "distinct (map td_task_id ts)"
    using slot_keys_distinct [of 0 pipes] task_id_inj by (auto simp: distinct_map inj_on_def)
  moreover have "length ts = sum_list (map ps_parallelism pipes)"
    using ids length_slot_keys [of 0 pipes] by (metis length_map)
  moreover from \<open>distinct (map td_task_id ts)\<close> have "jd_tasks dto = map planned_info ts"
    using f plan_infos_append [of ts "[]"]
    by (simp add: plan_infos_def hm_empty_def hm_values_def comp_def)
  ultimately show ?thesis using p ids f by (intro exI [of _ pipes]) simp
qed

definition demo_config :: json where
  "demo_config =
     JObject [(''env'', JObject [(''parallelism'', JInt 3)]),
       (''sink'', JObject [(''Console'', JObject [])]), (''source'', JObject [(''Fake'', JObject [])])]"

definition demo_workers :: "candidate list" where
  "demo_workers = [(''w1'', ''h1'', 5, True), (''w2'', ''h2'', 5, True)]"

definition demo_plan :: "(job_dto \<times> task_descriptor list) plan_result" where
  "demo_plan = compile_plan_inner (\<lambda>_. Some ''{}'') 17 hm_empty ''j'' ''demo'' demo_config None demo_workers"

text \<open>With a printer that does not fail, only an unusable configuration or no worker stops a plan.\<close>

lemma build_tasks_total:
  assumes "\<forall>v. ser v \<noteq> None"
  shows "\<exists>ts. build_tasks ser job job_name interval transforms workers slots load = Inr ts"
proof (induction slots arbitrary: load)
  case Nil
  then show ?case by simp
next
  case (Cons x slots)
  obtain idx pipe i where x: "x = (idx, pipe, i)" by (metis prod_cases3)
  have "\<exists>t. descriptor_of ser job job_name interval transforms idx pipe i w = Inr t" for w
  proof -
    have "\<exists>s. ok_or e (ser v) = Inr s" for e v
      using spec [OF assms, of v] by (auto simp: ok_or_def)
    then obtain s where "ok_or e (ser v) = Inr (s e v)" for e v by metis
    then show ?thesis by (simp add: descriptor_of_def)
  qed
  with Cons.IH show ?case unfolding x by (simp add: Let_def bindr_Inr_iff) blast
qed

lemma compile_plan_total:
  assumes "\<forall>v. ser v \<noteq> None" and "workers \<noteq> []"
    and "extract_pipelines config (max (unwrap_or (env_parallelism config) override) 1) = Inr pipes"
  shows "\<exists>dto ts. compile_plan_inner ser now counts job job_name config override workers = Inr (dto, ts)"
  using assms build_tasks_total [OF assms(1)] by (fastforce simp: compile_plan_inner_def Let_def bindr_Inr_iff)

lemma demo_plan_ok: "\<exists>dto ts. demo_plan = Inr (dto, ts)"
  unfolding demo_plan_def
proof (rule compile_plan_total)
  show "extract_pipelines demo_config (max (unwrap_or (env_parallelism demo_config) None) 1) =
      Inr [\<lparr>ps_name = ''pipeline'', ps_parallelism = 3, ps_source_plugin = ''Fake'',
        ps_source_config = JObject [], ps_sinks = [\<lparr>sd_plugin = ''Console'', sd_config = JObject []\<rparr>],
        ps_on_sink_failure = ''fail''\<rparr>]"
    by (simp add: extract_pipelines_def env_parallelism_def demo_config_def j_get_def as_u64_def u64_max_def
        ok_or_def first_block_def parse_sink_declarations_def sink_block_def as_object_def)
qed (simp_all add: demo_workers_def)

theorem compile_plan_sound_witness:
  "\<exists>dto ts. demo_plan = Inr (dto, ts) \<and> distinct (map td_task_id ts) \<and>
     list_all (\<lambda>t. list_ex (\<lambda>w. worker_of t = cand_id w) demo_workers) ts"
proof -
  obtain dto ts where r: "demo_plan = Inr (dto, ts)"
    using demo_plan_ok by blast
  with compile_plan_sound [of "\<lambda>_. Some ''{}''" 17 hm_empty "''j''" "''demo''" demo_config None
      demo_workers dto ts]
  show ?thesis unfolding demo_plan_def list_all_iff list_ex_iff by blast
qed

text \<open>Balance\<close>

definition assigned :: "string \<Rightarrow> task_descriptor list \<Rightarrow> nat" where
  "assigned w ts = length (filter (\<lambda>t. worker_of t = w) ts)"

lemma load_of_bump: "load_of (bump_load w load) v = (if v = w then load_of load w + 1 else load_of load v)"
  by (simp add: load_of_def bump_load_def hm_simps)

definition even_load :: "load \<Rightarrow> candidate list \<Rightarrow> bool" where
  "even_load load workers =
     (\<forall>u \<in> set workers. \<forall>v \<in> set workers. load_of load (cand_id u) \<le> load_of load (cand_id v) + 1)"

lemma even_load_step:
  assumes "workers \<noteq> []" and "\<forall>w \<in> set workers. cand_accepts w \<and> cand_score w = s"
    and "even_load load workers"
  shows "even_load (bump_load (cand_id (choose_worker load workers)) load) workers"
proof -
  let ?w = "choose_worker load workers"
  note w = choose_worker_facts [OF assms(1) refl, of load]
  have least: "load_of load (cand_id ?w) \<le> load_of load (cand_id v)" if "v \<in> set workers" for v
  proof -
    have "cand_accepts v = cand_accepts ?w" "cand_score v = cand_score ?w"
      using assms(2) w(1) that by metis+
    with w(3) that have "place_key load ?w \<le> place_key load v" by blast
    with \<open>cand_score v = cand_score ?w\<close> show ?thesis by (simp add: place_key_def)
  qed
  show ?thesis
    unfolding even_load_def load_of_bump
  proof (intro ballI)
    fix u v
    assume u: "u \<in> set workers" and v: "v \<in> set workers"
    have "load_of load (cand_id u) \<le> load_of load (cand_id v) + 1"
      using assms(3) u v by (simp only: even_load_def)
    with least [OF u] least [OF v]
    show "(if cand_id u = cand_id ?w then load_of load (cand_id ?w) + 1 else load_of load (cand_id u))
        \<le> (if cand_id v = cand_id ?w then load_of load (cand_id ?w) + 1 else load_of load (cand_id v)) + 1"
      by auto
  qed
qed

lemma build_tasks_even:
  assumes "build_tasks ser job job_name interval transforms workers slots load = Inr ts"
    and "workers \<noteq> []" and "\<forall>w \<in> set workers. cand_accepts w \<and> cand_score w = s"
    and "even_load load workers"
  shows "\<forall>u \<in> set workers. \<forall>v \<in> set workers.
    load_of load (cand_id u) + assigned (cand_id u) ts \<le> load_of load (cand_id v) + assigned (cand_id v) ts + 1"
  using assms(1,4)
proof (induction slots arbitrary: load ts)
  case Nil
  then show ?case by (simp add: assigned_def even_load_def)
next
  case (Cons x slots)
  obtain idx pipe i where x: "x = (idx, pipe, i)" by (metis prod_cases3)
  let ?w = "choose_worker load workers"
  from Cons.prems(1) x obtain t ts' where
    t: "descriptor_of ser job job_name interval transforms idx pipe i ?w = Inr t" and
    r: "build_tasks ser job job_name interval transforms workers slots (bump_load (cand_id ?w) load) = Inr ts'"
    and ts: "ts = t # ts'"
    by (auto simp: Let_def bindr_Inr_iff)
  have "load_of (bump_load (cand_id ?w) load) u + assigned u ts' = load_of load u + assigned u ts" for u
    using descriptor_fields(4) [OF t] by (simp add: load_of_bump assigned_def ts)
  with Cons.IH [OF r even_load_step [OF assms(2,3) Cons.prems(2)]] show ?case by simp
qed

text \<open>
  C29. Balanced placement: among equally loaded accepting workers with no task yet, a plan gives any
  two workers numbers of tasks that differ by at most one.
\<close>

theorem placement_balanced:
  assumes "compile_plan_inner ser now hm_empty job job_name config override workers = Inr (dto, ts)"
    and "\<forall>w \<in> set workers. cand_accepts w \<and> cand_score w = s"
    and "u \<in> set workers" and "v \<in> set workers"
  shows "assigned (cand_id u) ts \<le> assigned (cand_id v) ts + 1"
proof -
  from assms(1) obtain slots interval transforms where w: "workers \<noteq> []"
    and b: "build_tasks ser job job_name interval transforms workers slots hm_empty = Inr ts"
    by (auto simp: compile_plan_inner_def Let_def bindr_Inr_iff split: if_splits)
  have "even_load hm_empty workers" by (simp add: even_load_def load_of_def)
  from build_tasks_even [OF b w assms(2) this] assms(3,4)
  have "load_of hm_empty (cand_id u) + assigned (cand_id u) ts
      \<le> load_of hm_empty (cand_id v) + assigned (cand_id v) ts + 1" by blast
  then show ?thesis by (simp add: load_of_def)
qed

theorem placement_balanced_witness:
  "\<exists>dto ts. demo_plan = Inr (dto, ts) \<and> assigned ''w1'' ts \<le> assigned ''w2'' ts + 1"
proof -
  obtain dto ts where r: "demo_plan = Inr (dto, ts)"
    using demo_plan_ok by blast
  with placement_balanced [of "\<lambda>_. Some ''{}''" 17 "''j''" "''demo''" demo_config None demo_workers dto ts 5
      "(''w1'', ''h1'', 5, True)" "(''w2'', ''h2'', 5, True)"]
  show ?thesis by (simp add: demo_plan_def demo_workers_def)
qed

end
