(* ===== verification/Retention.thy ===== *)
theory Retention
  imports Prelude
begin

text \<open>
  The contract every checkpoint store of the engine implements. Abstractly a store is a finite
  map from checkpoint ids to snapshots; saving inserts a snapshot and then keeps only the newest
  ids (\<open>keep_newest\<close>, the retention rule), and loading returns the snapshot with the greatest
  id. The locale \<open>snapshot_store\<close> states these laws and derives what the engine relies on; the
  three stores of the sources (the local-mode envelope store, the worker's state store and the
  master's in-memory store) interpret it.
\<close>

section \<open>The retention rule\<close>

definition keep_newest :: "nat \<Rightarrow> (nat \<rightharpoonup> 'v) \<Rightarrow> (nat \<rightharpoonup> 'v)" where
  "keep_newest k m = m |` {i. card {j \<in> dom m. i < j} < k}"

definition newest :: "(nat \<rightharpoonup> 'v) \<Rightarrow> (nat \<times> 'v) option \<Rightarrow> bool" where
  "newest m r =
     (case r of None \<Rightarrow> m = Map.empty
      | Some (i, v) \<Rightarrow> m i = Some v \<and> (\<forall>j \<in> dom m. j \<le> i))"

lemma keep_newest_Some:
  "keep_newest k m i = Some v \<longleftrightarrow> m i = Some v \<and> card {j \<in> dom m. i < j} < k"
  by (auto simp: keep_newest_def restrict_map_def)

lemma dom_keep_newest: "dom (keep_newest k m) = {i \<in> dom m. card {j \<in> dom m. i < j} < k}"
  by (auto simp: dom_def keep_newest_Some)

lemma keep_newest_max:
  assumes "0 < k" and "m i = Some v" and "\<And>j. j \<in> dom m \<Longrightarrow> j \<le> i"
  shows "keep_newest k m i = Some v"
proof -
  have "{j \<in> dom m. i < j} = {}" using assms(3) by fastforce
  then have "card {j \<in> dom m. i < j} < k" using assms(1) by (metis card.empty)
  with assms(2) show ?thesis by (simp add: keep_newest_Some)
qed

text \<open>On a strictly sorted list of ids the rule keeps the last \<open>k\<close> of them.\<close>

lemma greater_in_sorted:
  assumes "sorted xs" and "distinct xs" and "p < length xs"
  shows "{j \<in> set xs. xs ! p < j} = set (drop (Suc p) xs)" (is "?L = ?R")
proof
  show "?L \<subseteq> ?R"
  proof
    fix j assume "j \<in> ?L"
    then obtain q where q: "q < length xs" "j = xs ! q" "xs ! p < xs ! q"
      by (auto simp: in_set_conv_nth)
    then have "p < q" using assms(1,3) by (meson leD not_le_imp_less sorted_nth_mono)
    with q show "j \<in> ?R" by (auto simp: in_set_drop_conv)
  qed
  show "?R \<subseteq> ?L"
  proof
    fix j assume "j \<in> ?R"
    then obtain q where q: "q < length xs" "j = xs ! q" "Suc p \<le> q"
      by (auto simp: in_set_drop_conv)
    with assms have "xs ! p \<le> xs ! q" "xs ! p \<noteq> xs ! q"
      by (auto simp: nth_eq_iff_index_eq sorted_nth_mono)
    with q show "j \<in> ?L" by auto
  qed
qed

lemma newest_ids_sorted:
  assumes "sorted xs" and "distinct xs"
  shows "{i \<in> set xs. card {j \<in> set xs. i < j} < k} = set (drop (length xs - k) xs)" (is "?L = ?R")
proof -
  have card: "card {j \<in> set xs. xs ! p < j} = length xs - Suc p" if "p < length xs" for p
    using assms that by (simp add: greater_in_sorted distinct_card)
  show ?thesis
  proof
    show "?L \<subseteq> ?R"
    proof
      fix i assume "i \<in> ?L"
      then obtain p where p: "p < length xs" "i = xs ! p" "card {j \<in> set xs. i < j} < k"
        by (auto simp: in_set_conv_nth)
      then have "length xs - k \<le> p" using card [of p] by simp
      with p(1,2) show "i \<in> ?R" by (auto simp: in_set_drop_conv)
    qed
    show "?R \<subseteq> ?L"
    proof
      fix i assume "i \<in> ?R"
      then obtain p where p: "p < length xs" "i = xs ! p" "length xs - k \<le> p"
        by (auto simp: in_set_drop_conv)
      then show "i \<in> ?L" using card [of p] by auto
    qed
  qed
qed

lemma keep_newest_sorted:
  assumes "sorted xs" and "distinct xs" and "dom m = set xs"
  shows "keep_newest k m = m |` set (drop (length xs - k) xs)"
proof
  fix i
  show "keep_newest k m i = (m |` set (drop (length xs - k) xs)) i"
    using newest_ids_sorted [OF assms(1,2), of k] assms(3)
    by (cases "i \<in> dom m") (auto simp: keep_newest_def restrict_map_def)
qed

section \<open>The store interface\<close>

locale snapshot_store =
  fixes inv :: "'s \<Rightarrow> bool"
    and valid :: "nat \<Rightarrow> 'v \<Rightarrow> bool"
    and lookup :: "'s \<Rightarrow> nat \<rightharpoonup> 'v"
    and save :: "nat \<Rightarrow> 'v \<Rightarrow> 's \<Rightarrow> 's"
    and latest :: "'s \<Rightarrow> (nat \<times> 'v) option"
    and retained :: nat
  assumes finite_lookup: "inv s \<Longrightarrow> finite (dom (lookup s))"
    and save_inv: "inv s \<Longrightarrow> valid i v \<Longrightarrow> inv (save i v s)"
    and lookup_save:
      "inv s \<Longrightarrow> valid i v \<Longrightarrow> lookup (save i v s) = keep_newest retained ((lookup s)(i \<mapsto> v))"
    and latest_newest: "inv s \<Longrightarrow> newest (lookup s) (latest s)"
    and retained_pos: "0 < retained"
begin

lemma latest_unique: "inv s \<Longrightarrow> newest (lookup s) r \<Longrightarrow> latest s = r"
proof -
  assume i: "inv s" and r: "newest (lookup s) r"
  have l: "newest (lookup s) (latest s)" using i by (rule latest_newest)
  show "latest s = r"
  proof (cases r)
    case None
    with r l show ?thesis
      by (cases "latest s") (auto simp: newest_def)
  next
    case (Some x)
    obtain a b where x: "x = (a, b)" by (cases x)
    from Some x r have ab: "lookup s a = Some b" "\<forall>j \<in> dom (lookup s). j \<le> a"
      by (auto simp: newest_def)
    with l obtain c d where cd: "latest s = Some (c, d)" "lookup s c = Some d"
        "\<forall>j \<in> dom (lookup s). j \<le> c"
      by (cases "latest s") (auto simp: newest_def)
    from ab cd have "a = c" by (meson domI le_antisym)
    with ab cd Some x show ?thesis by simp
  qed
qed

text \<open>A snapshot with a fresh, greater id is what the next restore reads.\<close>

lemma latest_after_save:
  assumes "inv s" and "valid i v" and "\<And>j. j \<in> dom (lookup s) \<Longrightarrow> j < i"
  shows "latest (save i v s) = Some (i, v)"
proof (rule latest_unique [OF save_inv [OF assms(1,2)]])
  let ?m = "(lookup s)(i \<mapsto> v)"
  have le: "j \<le> i" if "j \<in> dom ?m" for j using assms(3) that by (auto dest: less_imp_le)
  have "keep_newest retained ?m i = Some v"
    by (rule keep_newest_max) (use retained_pos le in auto)
  then show "newest (lookup (save i v s)) (Some (i, v))"
    using le by (auto simp: newest_def lookup_save [OF assms(1,2)] dom_keep_newest
      simp del: fun_upd_apply)
qed

text \<open>Retention: never more than \<open>retained\<close> snapshots after a save.\<close>

lemma retention_bound:
  assumes "inv s" and "valid i v"
  shows "card (dom (lookup (save i v s))) \<le> retained"
proof -
  let ?m = "(lookup s)(i \<mapsto> v)" and ?xs = "sorted_list_of_set (dom ((lookup s)(i \<mapsto> v)))"
  have fin: "finite (dom ?m)" using finite_lookup [OF assms(1)] by simp
  have "dom (keep_newest retained ?m) = {j \<in> set ?xs. card {l \<in> set ?xs. j < l} < retained}"
    using fin by (simp only: dom_keep_newest sorted_list_of_set.set_sorted_key_list_of_set)
  also have "\<dots> = set (drop (length ?xs - retained) ?xs)"
    by (rule newest_ids_sorted) simp_all
  finally show ?thesis
    using card_length [of "drop (length ?xs - retained) ?xs"]
    by (simp add: lookup_save [OF assms])
qed

text \<open>The newest id never goes back.\<close>

lemma latest_monotone:
  assumes "inv s" and "valid i v" and "latest s = Some (n, w)"
  obtains n' w' where "latest (save i v s) = Some (n', w')" and "n \<le> n'" and "i \<le> n'"
proof -
  let ?m = "(lookup s)(i \<mapsto> v)"
  have fin: "finite (dom ?m)" using finite_lookup [OF assms(1)] by simp
  have s: "newest (lookup s) (Some (n, w))" using latest_newest [OF assms(1)] assms(3) by simp
  define M where "M = Max (dom ?m)"
  have M: "M \<in> dom ?m" "\<And>j. j \<in> dom ?m \<Longrightarrow> j \<le> M"
    unfolding M_def by (rule Max_in [OF fin]; force) (rule Max_ge [OF fin])
  then obtain u where u: "?m M = Some u" by blast
  have "keep_newest retained ?m M = Some u"
    by (rule keep_newest_max) (use retained_pos u M in auto)
  then have "newest (lookup (save i v s)) (Some (M, u))"
    using M by (auto simp: newest_def lookup_save [OF assms(1,2)] dom_keep_newest
      simp del: fun_upd_apply)
  then have "latest (save i v s) = Some (M, u)"
    by (rule latest_unique [OF save_inv [OF assms(1,2)]])
  moreover have "n \<le> M" using s by (auto intro!: M(2) simp: newest_def)
  moreover have "i \<le> M" by (rule M(2)) simp
  ultimately show ?thesis by (rule that)
qed

text \<open>A snapshot whose id is older than a full window is dropped by its own save.\<close>

lemma stale_save_dropped:
  assumes "inv s" and "valid i v" and "retained \<le> card (dom (lookup s))"
    and "\<And>j. j \<in> dom (lookup s) \<Longrightarrow> i < j"
  shows "lookup (save i v s) i = None"
proof -
  have fin: "finite (dom (lookup s))" using finite_lookup [OF assms(1)] .
  have "{j \<in> dom ((lookup s)(i \<mapsto> v)). i < j} = dom (lookup s)"
    using assms(4) by auto
  with assms(3) show ?thesis
    by (simp add: lookup_save [OF assms(1,2)] keep_newest_def restrict_map_def)
qed

lemma stale_save_latest:
  assumes "inv s" and "valid i v" and "retained \<le> card (dom (lookup s))"
    and "\<And>j. j \<in> dom (lookup s) \<Longrightarrow> i < j"
  shows "latest (save i v s) = latest s"
proof (rule latest_unique [OF save_inv [OF assms(1,2)]])
  have l: "newest (lookup s) (latest s)" using assms(1) by (rule latest_newest)
  have "dom (lookup s) \<noteq> {}" using assms(3) retained_pos by (metis card.empty leD)
  with l obtain n w where n: "latest s = Some (n, w)" "lookup s n = Some w" "\<forall>j \<in> dom (lookup s). j \<le> n"
    by (cases "latest s") (auto simp: newest_def)
  let ?m = "(lookup s)(i \<mapsto> v)"
  have "i < n" using assms(4) n(2) by blast
  then have le: "j \<le> n" if "j \<in> dom ?m" for j using n(3) that by (auto split: if_splits)
  have "?m n = Some w" using n(2) \<open>i < n\<close> by simp
  then have "keep_newest retained ?m n = Some w"
    by (rule keep_newest_max [OF retained_pos]) (rule le)
  then show "newest (lookup (save i v s)) (latest s)"
    using le by (auto simp: n(1) newest_def lookup_save [OF assms(1,2)] dom_keep_newest simp del: fun_upd_apply)
qed

end

end
