(* ===== verification/Master_Store.thy ===== *)
theory Master_Store
  imports Retention "HOL-Library.Word" "HOL-Library.List_Lexorder" "HOL-Library.Char_ord"
begin

text \<open>
  The in-memory checkpoint store of the master (\<open>MasterCheckpointStore\<close> in \<open>checkpoint_store.rs\<close>): per
  job and task a list of snapshots ordered by checkpoint id, cut to the retained count on every
  save. It is an instance of the snapshot store interface. The replication snapshot is the entry
  list; an import only fills gaps.
\<close>

type_synonym ckpt_entries = "(nat \<times> 8 word list) list"

type_synonym ckpt_key = "string \<times> string"

record master_store =
  ms_inner :: "(ckpt_key, ckpt_entries) hashmap"
  ms_retained :: nat

definition ms_new :: "nat \<Rightarrow> master_store" where
  "ms_new retained = \<lparr>ms_inner = hm_empty, ms_retained = max retained 1\<rparr>"

definition ms_entries :: "ckpt_key \<Rightarrow> master_store \<Rightarrow> ckpt_entries" where
  "ms_entries k s = (case hm_get (ms_inner s) k of None \<Rightarrow> [] | Some es \<Rightarrow> es)"

definition ms_update :: "nat \<Rightarrow> nat \<Rightarrow> 8 word list \<Rightarrow> ckpt_entries \<Rightarrow> ckpt_entries" where
  "ms_update retained i data es =
     (let es' = sort_key fst (filter (\<lambda>e. fst e \<noteq> i) es @ [(i, data)]);
          excess = length es' - retained
      in drop excess es')"

definition ms_save :: "string \<Rightarrow> string \<Rightarrow> nat \<Rightarrow> 8 word list \<Rightarrow> master_store \<Rightarrow> master_store" where
  "ms_save job task i data s =
     s\<lparr>ms_inner := hm_insert (job, task) (ms_update (ms_retained s) i data (ms_entries (job, task) s))
         (ms_inner s)\<rparr>"

definition ms_load_latest :: "string \<Rightarrow> string \<Rightarrow> master_store \<Rightarrow> (nat \<times> 8 word list) option" where
  "ms_load_latest job task s =
     (case hm_get (ms_inner s) (job, task) of
        None \<Rightarrow> None | Some es \<Rightarrow> if es = [] then None else Some (last es))"

record ckpt_meta =
  cm_task_id :: string
  cm_entries :: "(nat \<times> nat) list"

definition ms_list_job_meta :: "string \<Rightarrow> master_store \<Rightarrow> ckpt_meta list" where
  "ms_list_job_meta job s =
     sort_key cm_task_id
       (map (\<lambda>((_, task), es). \<lparr>cm_task_id = task, cm_entries = map (\<lambda>(i, data). (i, length data)) es\<rparr>)
         (filter (\<lambda>((j, _), _). j = job) (ms_inner s)))"

definition ms_drop_job :: "string \<Rightarrow> master_store \<Rightarrow> master_store" where
  "ms_drop_job job s = s\<lparr>ms_inner := hm_retain (\<lambda>(j, _) _. j \<noteq> job) (ms_inner s)\<rparr>"

definition ms_export :: "master_store \<Rightarrow> (ckpt_key \<times> ckpt_entries) list" where
  "ms_export s = ms_inner s"

definition ms_import_entry ::
    "ckpt_key \<times> ckpt_entries \<Rightarrow> (ckpt_key, ckpt_entries) hashmap \<Rightarrow> (ckpt_key, ckpt_entries) hashmap" where
  "ms_import_entry e m = (if hm_contains m (fst e) then m else hm_insert (fst e) (snd e) m)"

definition ms_import :: "(ckpt_key \<times> ckpt_entries) list \<Rightarrow> master_store \<Rightarrow> master_store" where
  "ms_import snapshot s = s\<lparr>ms_inner := fold ms_import_entry snapshot (ms_inner s)\<rparr>"

section \<open>The store keeps the newest snapshots\<close>

definition ms_inv :: "nat \<Rightarrow> master_store \<Rightarrow> bool" where
  "ms_inv retained s =
     (ms_retained s = retained \<and> hm_wf (ms_inner s) \<and>
      (\<forall>k es. hm_get (ms_inner s) k = Some es \<longrightarrow> sorted (map fst es) \<and> distinct (map fst es)))"

definition ms_lookup :: "ckpt_key \<Rightarrow> master_store \<Rightarrow> nat \<rightharpoonup> 8 word list" where
  "ms_lookup k s = map_of (ms_entries k s)"

lemma ms_entries_sorted:
  "ms_inv r s \<Longrightarrow> sorted (map fst (ms_entries k s)) \<and> distinct (map fst (ms_entries k s))"
  by (cases k) (auto simp: ms_inv_def ms_entries_def split: option.splits)

lemma distinct_filter_snoc:
  "distinct (map fst es) \<Longrightarrow> distinct (map fst (filter (\<lambda>e. fst e \<noteq> i) es @ [(i, d)]))"
  by (auto simp: distinct_map intro: inj_on_subset)

lemma sort_key_fst_facts:
  assumes "distinct (map fst (xs :: (nat \<times> 'a) list))"
  shows "sorted (map fst (sort_key fst xs))" and "distinct (map fst (sort_key fst xs))"
    and "map_of (sort_key fst xs) = map_of xs"
proof -
  show d: "distinct (map fst (sort_key fst xs))"
    using assms by (simp add: distinct_map)
  show "map_of (sort_key fst xs) = map_of xs"
    using d assms by (intro map_of_inject_set [THEN iffD2]) simp_all
qed simp

lemma map_of_filter_snoc:
  "map_of (filter (\<lambda>e. fst e \<noteq> i) es @ [(i, d)]) = (map_of es)(i \<mapsto> d)"
  by (induction es) (auto simp: fun_eq_iff)

lemma map_of_drop_restrict:
  assumes "distinct (map fst xs)"
  shows "map_of (drop n xs) = map_of xs |` set (drop n (map fst xs))"
proof
  fix k
  have d: "distinct (map fst (drop n xs))" using assms by (simp add: drop_map [symmetric])
  show "map_of (drop n xs) k = (map_of xs |` set (drop n (map fst xs))) k"
  proof (cases "k \<in> set (map fst (drop n xs))")
    case True
    then obtain v where "(k, v) \<in> set (drop n xs)" by auto
    then have "map_of (drop n xs) k = Some v" "map_of xs k = Some v"
      using d assms in_set_dropD by (fastforce intro: map_of_is_SomeI)+
    with True show ?thesis by (simp add: drop_map restrict_map_def)
  next
    case False
    then have "map_of (drop n xs) k = None" by (simp add: map_of_eq_None_iff)
    with False show ?thesis by (simp add: drop_map restrict_map_def)
  qed
qed

lemma ms_update_facts:
  assumes "sorted (map fst es)" and "distinct (map fst es)"
  shows "sorted (map fst (ms_update r i d es))" and "distinct (map fst (ms_update r i d es))"
    and "map_of (ms_update r i d es) = keep_newest r ((map_of es)(i \<mapsto> d))"
proof -
  let ?ys = "filter (\<lambda>e. fst e \<noteq> i) es @ [(i, d)]"
  note dy = distinct_filter_snoc [OF assms(2), of i d]
  note s = sort_key_fst_facts [OF dy]
  show "sorted (map fst (ms_update r i d es))"
    using s(1) by (simp only: ms_update_def Let_def drop_map [symmetric] sorted_wrt_drop)
  show "distinct (map fst (ms_update r i d es))"
    using s(2) by (simp only: ms_update_def Let_def drop_map [symmetric] distinct_drop)
  have "dom ((map_of es)(i \<mapsto> d)) = set (map fst (sort_key fst ?ys))"
    by (auto simp: dom_map_of_conv_image_fst)
  from keep_newest_sorted [OF s(1,2) this, of r]
  show "map_of (ms_update r i d es) = keep_newest r ((map_of es)(i \<mapsto> d))"
    unfolding ms_update_def Let_def map_of_drop_restrict [OF s(2)]
    by (simp only: s(3) map_of_filter_snoc length_map)
qed

interpretation master_store:
  snapshot_store "ms_inv (max retained 1)" "\<lambda>_ _. True" "ms_lookup (job, task)" "ms_save job task"
    "ms_load_latest job task" "max retained 1"
  for job task retained
proof
  fix s i d
  assume inv: "ms_inv (max retained 1) s"
  show "finite (dom (ms_lookup (job, task) s))" by (simp add: ms_lookup_def finite_dom_map_of)
  show "newest (ms_lookup (job, task) s) (ms_load_latest job task s)"
  proof (cases "ms_entries (job, task) s")
    case Nil
    then show ?thesis
      by (auto simp: newest_def ms_lookup_def ms_load_latest_def ms_entries_def split: option.splits)
  next
    case (Cons e es)
    let ?es = "ms_entries (job, task) s"
    have sd: "sorted (map fst ?es)" "distinct (map fst ?es)" using ms_entries_sorted [OF inv] by auto
    have "ms_load_latest job task s = Some (last ?es)"
      using Cons by (auto simp: ms_load_latest_def ms_entries_def split: option.splits)
    moreover have "map_of ?es (fst (last ?es)) = Some (snd (last ?es))"
      using sd(2) Cons by (intro map_of_is_SomeI) (simp_all add: last_in_set)
    moreover have "j \<le> fst (last ?es)" if "j \<in> dom (map_of ?es)" for j
      using sorted_le_last [OF sd(1), of j] that Cons by (auto simp: dom_map_of_conv_image_fst last_map)
    ultimately show ?thesis
      by (cases "last ?es") (auto simp: newest_def ms_lookup_def)
  qed
  have e: "ms_entries k (ms_save job task i d s) =
      (if k = (job, task) then ms_update (max retained 1) i d (ms_entries k s) else ms_entries k s)" for k
    using inv by (auto simp: ms_save_def ms_entries_def ms_inv_def hm_simps)
  note u = ms_update_facts [of "ms_entries (job, task) s" "max retained 1" i d]
  show "ms_lookup (job, task) (ms_save job task i d s) =
      keep_newest (max retained 1) ((ms_lookup (job, task) s)(i \<mapsto> d))"
    using u(3) ms_entries_sorted [OF inv] by (simp add: ms_lookup_def e)
  show "ms_inv (max retained 1) (ms_save job task i d s)"
    using inv u(1,2) ms_entries_sorted [OF inv]
    by (auto simp: ms_inv_def ms_save_def hm_simps intro: hm_wf_insert split: if_splits)
qed simp

section \<open>Properties\<close>

lemma ms_inv_new: "ms_inv (max retained 1) (ms_new retained)"
  by (simp add: ms_inv_def ms_new_def)

definition ms_saves :: "(string \<times> string \<times> nat \<times> 8 word list) list \<Rightarrow> master_store \<Rightarrow> master_store" where
  "ms_saves ops s = fold (\<lambda>(job, task, i, d). ms_save job task i d) ops s"

lemma ms_inv_saves: "ms_inv (max r 1) s \<Longrightarrow> ms_inv (max r 1) (ms_saves ops s)"
proof (induction ops arbitrary: s)
  case Nil
  then show ?case by (simp add: ms_saves_def)
next
  case (Cons x ops)
  obtain job task i d where x: "x = (job, task, i, d)" by (metis prod_cases4)
  with Cons.IH [of "ms_save job task i d s"] master_store.save_inv [OF Cons.prems] show ?case
    by (simp add: ms_saves_def)
qed

text \<open>
  After any sequence of saves on a fresh master store, saving a snapshot with an id above the
  ids held for its task makes it what the next restore of the task reads, never leaves more than
  the retained number of snapshots, and leaves the snapshots of every other task alone.
\<close>

theorem master_save_restores_newest:
  assumes "s = ms_saves ops (ms_new retained)"
    and "\<forall>j \<in> dom (ms_lookup (job, task) s). j < i"
  shows "ms_load_latest job task (ms_save job task i d s) = Some (i, d) \<and>
    card (dom (ms_lookup (job, task) (ms_save job task i d s))) \<le> max retained 1 \<and>
    (\<forall>k. k \<noteq> (job, task) \<longrightarrow> ms_lookup k (ms_save job task i d s) = ms_lookup k s)"
proof -
  have inv: "ms_inv (max retained 1) s" unfolding assms(1) by (rule ms_inv_saves [OF ms_inv_new])
  show ?thesis
    using master_store.latest_after_save [OF inv TrueI, of job task i d]
      master_store.retention_bound [OF inv TrueI, of job task i d] assms(2)
    by (auto simp: ms_lookup_def ms_entries_def ms_save_def hm_simps)
qed

theorem master_save_restores_newest_witness:
  "ms_load_latest ''j'' ''t'' (ms_save ''j'' ''t'' 7 [1, 2] (ms_saves [(''j'', ''t'', 3, [9])] (ms_new 2))) =
     Some (7, [1, 2])"
  using master_save_restores_newest [OF refl, of "''j''" "''t''" "[(''j'', ''t'', 3, [9])]" 2 7 "[1, 2]"]
  by (auto simp: ms_saves_def ms_save_def ms_new_def ms_lookup_def ms_entries_def ms_update_def hm_simps
      split: if_splits)

lemma import_entry_get:
  "hm_get (ms_import_entry e m) k = (if k = fst e \<and> hm_get m k = None then Some (snd e) else hm_get m k)"
  by (auto simp: ms_import_entry_def hm_contains_def hm_simps split: option.splits)

lemma import_fold_get:
  "hm_get (fold ms_import_entry es m) k =
     (case hm_get m k of None \<Rightarrow> map_of es k | Some v \<Rightarrow> Some v)"
  by (induction es arbitrary: m) (auto simp: import_entry_get split: option.splits)

text \<open>
  Replication of the master store: importing the export of one store into another keeps every
  task history the importer already has and takes over every other one unchanged; into an empty
  store it reproduces the exporter's.
\<close>

theorem master_import_fills_gaps:
  "hm_get (ms_inner (ms_import (ms_export src) s)) k =
     (case hm_get (ms_inner s) k of None \<Rightarrow> hm_get (ms_inner src) k | Some v \<Rightarrow> Some v)"
  by (simp add: ms_import_def ms_export_def import_fold_get hm_get_def [of "ms_inner src" k] split: option.splits)

end
