(* ===== verification/Coordinator.thy ===== *)
theory Coordinator
  imports Job_Planner Master_Store
begin

text \<open>
  The job coordinator of the master (\<open>JobCoordinator\<close> in \<open>job_coordinator.rs\<close>): its state and its
  operations. Locks make every method atomic, so a method is a function on the state record.
  Hash maps are association lists; where the code iterates over one, the list order stands for the
  unspecified iteration order. Wall-clock reads are arguments and log lines are left out. The two
  descriptor fields the coordinator always leaves empty (\<open>source_config_json\<close>, \<open>sink_config_json\<close>)
  are not in the descriptor record, so a descriptor and its serializable form coincide.
\<close>

section \<open>State\<close>

text \<open>Latency averages are floating point numbers, kept as mantissa and exponent.\<close>

record sink_metrics =
  sm_window_secs :: nat
  sm_sent :: nat
  sm_delivered :: nat
  sm_failed :: nat
  sm_in_flight :: nat
  sm_latency_ema_ms :: "int \<times> int"
  sm_latency_max_ms :: nat
  sm_last_error :: "string option"
  sm_last_error_at :: int

record task_info =
  ti_task_id :: string
  ti_stage_id :: string
  ti_worker_id :: string
  ti_state :: job_state
  ti_records :: nat
  ti_error :: "string option"
  ti_last_record_at :: int
  ti_last_checkpoint_id :: nat
  ti_last_checkpoint_size :: nat
  ti_logs :: "string list"
  ti_sink_metrics :: "sink_metrics option"

definition TASK_LOG_RETAIN :: nat where
  "TASK_LOG_RETAIN = 500"

definition task_info_new :: "string \<Rightarrow> string \<Rightarrow> string \<Rightarrow> task_info" where
  "task_info_new tid stage worker =
     \<lparr>ti_task_id = tid, ti_stage_id = stage, ti_worker_id = worker, ti_state = Created, ti_records = 0,
      ti_error = None, ti_last_record_at = 0, ti_last_checkpoint_id = 0, ti_last_checkpoint_size = 0,
      ti_logs = [], ti_sink_metrics = None\<rparr>"

definition append_logs :: "string list \<Rightarrow> task_info \<Rightarrow> task_info" where
  "append_logs lines t =
     (let logs = ti_logs t @ lines; excess = length logs - TASK_LOG_RETAIN
      in t\<lparr>ti_logs := drop excess logs\<rparr>)"

record running_job =
  rj_job_id :: string
  rj_job_name :: string
  rj_state :: job_state
  rj_parallelism :: nat
  rj_tasks :: "(string, task_info) hashmap"
  rj_start_time :: int
  rj_end_time :: "int option"
  rj_error_message :: "string option"
  rj_checkpoint_interval_ms :: nat
  rj_checkpoints_completed :: nat
  rj_next_checkpoint_id :: nat
  rj_last_checkpoint_trigger_ms :: int
  rj_raw_config :: string

record stuck_task =
  st_job_id :: string
  st_task_id :: string
  st_worker_id :: string
  st_records :: nat

datatype worker_state = Healthy | Overloaded | Dead

record pending_checkpoint =
  pc_checkpoint_id :: nat
  pc_stage_id :: string
  pc_triggered_at_ms :: int
  pc_participants :: "(string, string) hashmap"
  pc_delivered :: "string list"
  pc_awaiting :: "string list"

record checkpoint_resolution =
  cr_task_id :: string
  cr_checkpoint_id :: nat
  cr_completed :: bool

record checkpoint_trigger =
  ct_task_id :: string
  ct_checkpoint_id :: nat

type_synonym stage_key = "string \<times> string"

record coordinator =
  jc_jobs :: "(string, running_job) hashmap"
  jc_all_tasks :: "(string, task_descriptor) hashmap"
  jc_checkpoint_store :: master_store
  jc_term :: nat
  jc_pending :: "(stage_key, pending_checkpoint) hashmap"
  jc_checkpoint_outbox :: "(string, checkpoint_resolution list) hashmap"
  jc_preempt_outbox :: "(string, string list) hashmap"

definition jc_new :: coordinator where
  "jc_new =
     \<lparr>jc_jobs = hm_empty, jc_all_tasks = hm_empty, jc_checkpoint_store = ms_new 3, jc_term = 1,
      jc_pending = hm_empty, jc_checkpoint_outbox = hm_empty, jc_preempt_outbox = hm_empty\<rparr>"

text \<open>\<open>entry(k).or_default().push(x)\<close>\<close>

definition push_entry :: "'k \<Rightarrow> 'v \<Rightarrow> ('k, 'v list) hashmap \<Rightarrow> ('k, 'v list) hashmap" where
  "push_entry k x m = hm_insert k (unwrap_or [] (hm_get m k) @ [x]) m"

section \<open>Fencing\<close>

definition drain_preemptions :: "string \<Rightarrow> coordinator \<Rightarrow> string list \<times> coordinator" where
  "drain_preemptions w c =
     (unwrap_or [] (hm_get (jc_preempt_outbox c) w),
      c\<lparr>jc_preempt_outbox := hm_remove w (jc_preempt_outbox c)\<rparr>)"

definition queue_preemption :: "string \<Rightarrow> string \<Rightarrow> coordinator \<Rightarrow> coordinator" where
  "queue_preemption w tid c = c\<lparr>jc_preempt_outbox := push_entry w tid (jc_preempt_outbox c)\<rparr>"

text \<open>
  The compare-and-exchange loop of \<open>observe_term\<close> against other writers: each failed exchange hands
  back the value another thread stored. The list gives those values; a loop whose exchange no
  longer fails stores the term it saw.
\<close>

fun observe_term_cas :: "nat \<Rightarrow> nat \<Rightarrow> nat list \<Rightarrow> nat" where
  "observe_term_cas seen current [] = (if seen > current then seen else current)"
| "observe_term_cas seen current (actual # rest) =
     (if seen > current then observe_term_cas seen actual rest else current)"

definition observe_term :: "nat \<Rightarrow> coordinator \<Rightarrow> nat \<times> coordinator" where
  "observe_term seen c =
     (let t = observe_term_cas seen (jc_term c) [] in (t, c\<lparr>jc_term := t\<rparr>))"

section \<open>Planning against the current load\<close>

definition running_counts :: "coordinator \<Rightarrow> load" where
  "running_counts c =
     fold (\<lambda>info counts.
             if ti_state info \<in> {Running, Deploying} \<and> ti_worker_id info \<noteq> []
             then bump_load (ti_worker_id info) counts else counts)
       (concat (map (\<lambda>job. hm_values (rj_tasks job)) (hm_values (jc_jobs c)))) hm_empty"

definition plan_job ::
    "(json \<Rightarrow> string option) \<Rightarrow> int \<Rightarrow> string \<Rightarrow> string \<Rightarrow> json \<Rightarrow> nat option \<Rightarrow> candidate list \<Rightarrow> coordinator \<Rightarrow>
     (job_dto \<times> task_descriptor list) plan_result" where
  "plan_job ser now job job_name config override workers c =
     compile_plan_inner ser now (running_counts c) job job_name config override workers"

section \<open>Installing jobs\<close>

definition info_of_dto :: "task_info_dto \<Rightarrow> task_info" where
  "info_of_dto t =
     (task_info_new (tid_task_id t) (tid_stage_id t) (tid_worker_id t))
       \<lparr>ti_state := job_state_from (tid_state t), ti_records := tid_records t, ti_error := tid_error t\<rparr>"

definition tasks_of_dto :: "task_info_dto list \<Rightarrow> (string, task_info) hashmap" where
  "tasks_of_dto ts = fold (\<lambda>t. hm_insert (tid_task_id t) (info_of_dto t)) ts hm_empty"

definition job_of_dto :: "job_dto \<Rightarrow> running_job" where
  "job_of_dto job =
     \<lparr>rj_job_id = jd_job_id job, rj_job_name = jd_job_name job, rj_state = job_state_from (jd_state job),
      rj_parallelism = jd_parallelism job, rj_tasks = tasks_of_dto (jd_tasks job),
      rj_start_time = jd_start_time job, rj_end_time = jd_end_time job,
      rj_error_message = jd_error_message job,
      rj_checkpoint_interval_ms = jd_checkpoint_interval_ms job,
      rj_checkpoints_completed = jd_checkpoints_completed job,
      rj_next_checkpoint_id = jd_next_checkpoint_id job, rj_last_checkpoint_trigger_ms = 0,
      rj_raw_config = jd_raw_config job\<rparr>"

definition install_job :: "job_dto \<Rightarrow> task_descriptor list \<Rightarrow> coordinator \<Rightarrow> coordinator" where
  "install_job job descriptors c =
     c\<lparr>jc_jobs := hm_insert (jd_job_id job) (job_of_dto job) (jc_jobs c),
       jc_all_tasks := fold (\<lambda>d. hm_insert (td_task_id d) d) descriptors (jc_all_tasks c)\<rparr>"

definition compile_and_install ::
    "(json \<Rightarrow> string option) \<Rightarrow> int \<Rightarrow> string \<Rightarrow> string \<Rightarrow> json \<Rightarrow> nat option \<Rightarrow> candidate list \<Rightarrow> coordinator \<Rightarrow>
     plan_error + (string \<times> task_descriptor list) \<times> coordinator" where
  "compile_and_install ser now job job_name config override workers c =
     (case plan_job ser now job job_name config override workers c of
        Inl e \<Rightarrow> Inl e
      | Inr (dto, ts) \<Rightarrow> Inr ((job, ts), install_job dto ts c))"

definition get_job :: "string \<Rightarrow> coordinator \<Rightarrow> running_job option" where
  "get_job job c = hm_get (jc_jobs c) job"

definition list_jobs :: "coordinator \<Rightarrow> running_job list" where
  "list_jobs c = hm_values (jc_jobs c)"

section \<open>Cancelled and lost tasks\<close>

definition on_worker :: "task_info \<Rightarrow> bool" where
  "on_worker t = (ti_state t = Running \<or> ti_state t = Deploying)"

definition cancelled_job_ids :: "coordinator \<Rightarrow> string list" where
  "cancelled_job_ids c =
     map rj_job_id
       (filter (\<lambda>j. \<exists>t \<in> set (hm_values (rj_tasks j)). on_worker t)
         (filter (\<lambda>j. rj_state j = Cancelled) (list_jobs c)))"

text \<open>The scan the three reconciliations share: the tasks of the jobs that pass both tests.\<close>

definition stuck_of :: "running_job \<Rightarrow> task_info \<Rightarrow> stuck_task" where
  "stuck_of j t =
     \<lparr>st_job_id = rj_job_id j, st_task_id = ti_task_id t, st_worker_id = ti_worker_id t,
      st_records = ti_records t\<rparr>"

definition scan_tasks ::
    "(running_job \<Rightarrow> bool) \<Rightarrow> (task_info \<Rightarrow> bool) \<Rightarrow> coordinator \<Rightarrow> (running_job \<times> task_info) list" where
  "scan_tasks pj pt c =
     concat (map (\<lambda>j. map (Pair j) (filter pt (hm_values (rj_tasks j)))) (filter pj (list_jobs c)))"

definition reconcile_lost_cancelled_tasks ::
    "string \<Rightarrow> string list \<Rightarrow> coordinator \<Rightarrow> stuck_task list" where
  "reconcile_lost_cancelled_tasks w running c =
     map (\<lambda>(j, t). stuck_of j t)
       (scan_tasks (\<lambda>j. rj_state j = Cancelled)
         (\<lambda>t. ti_state t = Running \<and> ti_worker_id t = w \<and> ti_task_id t \<notin> set running) c)"

definition reconcile_lost_active_tasks ::
    "string \<Rightarrow> string list \<Rightarrow> coordinator \<Rightarrow> stuck_task list" where
  "reconcile_lost_active_tasks w running c =
     map (\<lambda>(j, t). stuck_of j t)
       (scan_tasks (\<lambda>j. \<not> is_terminal (rj_state j))
         (\<lambda>t. on_worker t \<and> ti_worker_id t = w \<and> ti_task_id t \<notin> set running) c)"

definition overdue_cancelled_tasks :: "int \<Rightarrow> nat \<Rightarrow> coordinator \<Rightarrow> stuck_task list" where
  "overdue_cancelled_tasks now_ms timeout_ms c =
     map (\<lambda>(j, t). stuck_of j t)
       (scan_tasks
         (\<lambda>j. rj_state j = Cancelled \<and>
              (case rj_end_time j of
                 None \<Rightarrow> False | Some e \<Rightarrow> \<not> sat_sub_i64 now_ms e \<le> u64_as_i64 timeout_ms))
         on_worker c)"

section \<open>Dispatch\<close>

definition desc_worker :: "task_descriptor \<Rightarrow> string option" where
  "desc_worker d = hm_get (td_config d) ''worker_id''"

definition get_pending_tasks_for_worker :: "string \<Rightarrow> coordinator \<Rightarrow> task_descriptor list" where
  "get_pending_tasks_for_worker w c =
     List.map_filter
       (\<lambda>(j, t).
          case hm_get (jc_all_tasks c) (ti_task_id t) of
            None \<Rightarrow> None
          | Some d \<Rightarrow> if desc_worker d = Some w then Some d else None)
       (scan_tasks (\<lambda>j. \<not> is_terminal (rj_state j)) (\<lambda>t. ti_state t \<in> {Scheduled, Created}) c)"

definition claim_eligible :: "string \<Rightarrow> (string \<Rightarrow> worker_state) \<Rightarrow> task_info \<Rightarrow> bool" where
  "claim_eligible w state t =
     (let owner_state = state (ti_worker_id t) in
      case ti_state t of
        Created \<Rightarrow> ti_worker_id t = w \<or> owner_state = Overloaded
      | Scheduled \<Rightarrow> ti_worker_id t = w \<or> owner_state = Overloaded
      | Deploying \<Rightarrow> owner_state = Dead
      | Running \<Rightarrow> owner_state = Dead
      | _ \<Rightarrow> False)"

definition descriptor_claimable :: "string \<Rightarrow> (string \<Rightarrow> worker_state) \<Rightarrow> task_descriptor \<Rightarrow> bool" where
  "descriptor_claimable w state d =
     (let owner = unwrap_or [] (desc_worker d)
      in owner = w \<or> state owner = Dead \<or> state owner = Overloaded)"

definition claim_tasks_for_worker ::
    "string \<Rightarrow> (string \<Rightarrow> worker_state) \<Rightarrow> coordinator \<Rightarrow> task_descriptor list" where
  "claim_tasks_for_worker w state c =
     (if state w \<noteq> Healthy then []
      else
        List.map_filter
          (\<lambda>(j, t).
             case hm_get (jc_all_tasks c) (ti_task_id t) of
               None \<Rightarrow> None
             | Some d \<Rightarrow> if descriptor_claimable w state d then Some d else None)
          (scan_tasks (\<lambda>j. \<not> is_terminal (rj_state j)) (claim_eligible w state) c))"

definition task_owning_workers :: "coordinator \<Rightarrow> string list" where
  "task_owning_workers c =
     sorted_list_of_set
       (set (map (\<lambda>(j, t). ti_worker_id t)
         (scan_tasks (\<lambda>j. \<not> is_terminal (rj_state j)) (\<lambda>t. ti_worker_id t \<noteq> [] \<and> on_worker t) c)))"

definition task_owned_by :: "string \<Rightarrow> string \<Rightarrow> coordinator \<Rightarrow> bool" where
  "task_owned_by tid w c =
     (\<exists>j \<in> set (list_jobs c).
        case hm_get (rj_tasks j) tid of None \<Rightarrow> False | Some t \<Rightarrow> ti_worker_id t = w \<and> on_worker t)"

definition evict_task :: "string \<Rightarrow> running_job \<Rightarrow> task_info \<Rightarrow> task_info" where
  "evict_task w j t =
     (if ti_worker_id t = w \<and> on_worker t
      then t\<lparr>ti_state := (if is_terminal (rj_state j) then Cancelled else Deploying)\<rparr>
      else t)"

definition evict_worker :: "string \<Rightarrow> coordinator \<Rightarrow> coordinator" where
  "evict_worker w c =
     c\<lparr>jc_jobs :=
         hm_map_values (\<lambda>j. j\<lparr>rj_tasks := hm_map_values (evict_task w j) (rj_tasks j)\<rparr>) (jc_jobs c)\<rparr>"

definition evicted_ids :: "string \<Rightarrow> coordinator \<Rightarrow> string list" where
  "evicted_ids w c =
     concat (map (\<lambda>j. map fst (filter (\<lambda>(_, t). ti_worker_id t = w \<and> on_worker t) (rj_tasks j)))
       (list_jobs c))"

text \<open>
  Several operations look a task up by scanning the jobs and stop at the first job that has it
  (\<open>find\<close>, or a loop with \<open>break\<close>); \<open>with_task\<close> updates that job.
\<close>

definition find_job :: "string \<Rightarrow> coordinator \<Rightarrow> (string \<times> running_job) option" where
  "find_job tid c = List.find (\<lambda>(_, j). hm_contains (rj_tasks j) tid) (jc_jobs c)"

definition with_task ::
    "string \<Rightarrow> (running_job \<Rightarrow> task_info \<Rightarrow> running_job) \<Rightarrow> coordinator \<Rightarrow> coordinator" where
  "with_task tid f c =
     (case find_job tid c of
        None \<Rightarrow> c
      | Some (k, j) \<Rightarrow>
          (case hm_get (rj_tasks j) tid of
             None \<Rightarrow> c
           | Some t \<Rightarrow> c\<lparr>jc_jobs := hm_modify k (\<lambda>_. f j t) (jc_jobs c)\<rparr>))"

definition set_task :: "running_job \<Rightarrow> string \<Rightarrow> task_info \<Rightarrow> running_job" where
  "set_task j tid t = j\<lparr>rj_tasks := hm_modify tid (\<lambda>_. t) (rj_tasks j)\<rparr>"

definition release_lost_task :: "string \<Rightarrow> string \<Rightarrow> coordinator \<Rightarrow> coordinator" where
  "release_lost_task w tid =
     with_task tid (\<lambda>j t.
       if ti_worker_id t = w \<and> on_worker t \<and> \<not> is_terminal (rj_state j)
       then set_task j tid (t\<lparr>ti_state := Scheduled\<rparr>) else j)"

definition release_lost_tasks :: "string \<Rightarrow> string list \<Rightarrow> coordinator \<Rightarrow> coordinator" where
  "release_lost_tasks w tids c = fold (release_lost_task w) tids c"

text \<open>\<open>classify_running_tasks\<close>: the tasks to adopt and the tasks to stop.\<close>

datatype reported = Unknown_Task | Adopt | Preempt

definition classify_task :: "string \<Rightarrow> string \<Rightarrow> coordinator \<Rightarrow> reported" where
  "classify_task w tid c =
     (case find_job tid c of
        None \<Rightarrow> Unknown_Task
      | Some (_, j) \<Rightarrow>
          (case hm_get (rj_tasks j) tid of
             None \<Rightarrow> Unknown_Task
           | Some t \<Rightarrow>
               if is_terminal (rj_state j) \<or> is_terminal (ti_state t) then Preempt
               else if ti_worker_id t = w then Adopt
               else
                 let current_owner = unwrap_or [] (Option.bind (hm_get (jc_all_tasks c) tid) desc_worker)
                 in if current_owner = w \<or> current_owner = [] then Adopt else Preempt))"

definition classify_running_tasks :: "string \<Rightarrow> string list \<Rightarrow> coordinator \<Rightarrow> string list \<times> string list" where
  "classify_running_tasks w running c =
     (filter (\<lambda>tid. classify_task w tid c = Adopt) running,
      filter (\<lambda>tid. classify_task w tid c = Preempt) running)"

definition adopt_task :: "string \<Rightarrow> string \<Rightarrow> coordinator \<Rightarrow> coordinator" where
  "adopt_task w tid =
     with_task tid (\<lambda>j t.
       if ti_state t \<in> {Created, Scheduled, Deploying}
       then set_task j tid (t\<lparr>ti_state := Running, ti_worker_id := w\<rparr>) else j)"

definition adopt_tasks :: "string \<Rightarrow> string list \<Rightarrow> coordinator \<Rightarrow> coordinator" where
  "adopt_tasks w tids c = fold (adopt_task w) tids c"

definition register_running_tasks :: "string \<Rightarrow> string list \<Rightarrow> coordinator \<Rightarrow> string list \<times> coordinator" where
  "register_running_tasks w running c =
     (let (adopt, preempted) = classify_running_tasks w running c
      in (preempted, adopt_tasks w adopt c))"

definition dispatch_blocked :: "string \<Rightarrow> task_info \<Rightarrow> bool" where
  "dispatch_blocked w t = (ti_state t = Running \<and> ti_worker_id t \<noteq> w)"

definition dispatched_job :: "string \<Rightarrow> string \<Rightarrow> running_job \<Rightarrow> task_info \<Rightarrow> running_job" where
  "dispatched_job w tid j t =
     (let j' = set_task j tid (t\<lparr>ti_state := Deploying, ti_worker_id := w\<rparr>)
      in if rj_state j = Scheduled \<or> rj_state j = Created then j'\<lparr>rj_state := Deploying\<rparr> else j')"

definition mark_task_dispatched :: "string \<Rightarrow> string \<Rightarrow> coordinator \<Rightarrow> coordinator" where
  "mark_task_dispatched w tid c =
     (case find_job tid c of
        None \<Rightarrow> c
      | Some (k, j) \<Rightarrow>
          (case hm_get (rj_tasks j) tid of
             None \<Rightarrow> c
           | Some t \<Rightarrow>
               if dispatch_blocked w t then c
               else
                 c\<lparr>jc_jobs := hm_modify k (\<lambda>_. dispatched_job w tid j t) (jc_jobs c),
                   jc_all_tasks :=
                     hm_modify tid (\<lambda>d. d\<lparr>td_config := hm_insert ''worker_id'' w (td_config d)\<rparr>)
                       (jc_all_tasks c)\<rparr>))"

definition mark_tasks_dispatched :: "string list \<Rightarrow> string \<Rightarrow> coordinator \<Rightarrow> coordinator" where
  "mark_tasks_dispatched tids w c = fold (mark_task_dispatched w) tids c"

section \<open>Status reports\<close>

text \<open>What the guards of \<open>report_task_status_from\<close> make of a report.\<close>

datatype verdict = Fence_Duplicate | Ignore_Report | Accept_Report

definition report_verdict :: "string \<Rightarrow> job_state \<Rightarrow> task_info \<Rightarrow> verdict" where
  "report_verdict w new_state t =
     (if new_state = Running \<and> ti_state t = Running \<and> w \<noteq> [] \<and> ti_worker_id t \<noteq> w then Fence_Duplicate
      else if is_terminal new_state \<and> ti_state t = Running \<and> w \<noteq> [] \<and> ti_worker_id t \<noteq> w then Ignore_Report
      else if is_terminal new_state \<and> ti_state t \<in> {Created, Scheduled} then Ignore_Report
      else Accept_Report)"

definition reported_task :: "string \<Rightarrow> job_state \<Rightarrow> nat \<Rightarrow> string option \<Rightarrow> task_info \<Rightarrow> task_info" where
  "reported_task w new_state records err t =
     t\<lparr>ti_state := new_state, ti_records := max records (ti_records t), ti_error := err,
       ti_worker_id := (if w \<noteq> [] then w else ti_worker_id t)\<rparr>"

fun is_failed :: "job_state \<Rightarrow> bool" where
  "is_failed (Failed r) = True"
| "is_failed s = False"

text \<open>The roll-up of the task states into the job state.\<close>

definition roll_up :: "int \<Rightarrow> running_job \<Rightarrow> running_job" where
  "roll_up now j =
     (if is_terminal (rj_state j) then j
      else
        let tasks = hm_values (rj_tasks j) in
        case List.find (\<lambda>t. is_failed (ti_state t)) tasks of
          Some f \<Rightarrow>
            let reason = unwrap_or ''task failed'' (ti_error f)
            in j\<lparr>rj_state := Failed reason, rj_end_time := Some now, rj_error_message := Some reason\<rparr>
        | None \<Rightarrow>
            if tasks \<noteq> [] \<and> (\<forall>t \<in> set tasks. ti_state t = Completed)
            then j\<lparr>rj_state := Completed, rj_end_time := Some now\<rparr>
            else if (\<exists>t \<in> set tasks. ti_state t \<in> {Running, Deploying, Completed}) \<and> rj_state j \<noteq> Running
            then j\<lparr>rj_state := Running\<rparr>
            else j)"

definition report_task_status_from ::
    "int \<Rightarrow> string \<Rightarrow> string \<Rightarrow> string \<Rightarrow> string \<Rightarrow> nat \<Rightarrow> string option \<Rightarrow> coordinator \<Rightarrow> coordinator" where
  "report_task_status_from now w job tid state records err c =
     (case hm_get (jc_jobs c) job of
        None \<Rightarrow> c
      | Some j \<Rightarrow>
          let new_state = job_state_from state in
          (case hm_get (rj_tasks j) tid of
             None \<Rightarrow> c
           | Some t \<Rightarrow>
               (case report_verdict w new_state t of
                  Fence_Duplicate \<Rightarrow> queue_preemption w tid c
                | Ignore_Report \<Rightarrow> c
                | Accept_Report \<Rightarrow>
                    c\<lparr>jc_jobs :=
                        hm_modify job (\<lambda>_. roll_up now (set_task j tid (reported_task w new_state records err t)))
                          (jc_jobs c)\<rparr>)))"

definition report_task_status ::
    "int \<Rightarrow> string \<Rightarrow> string \<Rightarrow> string \<Rightarrow> nat \<Rightarrow> string option \<Rightarrow> coordinator \<Rightarrow> coordinator" where
  "report_task_status now job tid state records err c =
     report_task_status_from now [] job tid state records err c"

record task_metrics =
  tm_records :: nat
  tm_last_record_at :: int
  tm_logs :: "string list"
  tm_worker_id :: string
  tm_last_checkpoint_id :: nat
  tm_last_checkpoint_size :: nat
  tm_sink_metrics :: "sink_metrics option"

definition apply_metrics :: "task_metrics \<Rightarrow> running_job \<Rightarrow> task_info \<Rightarrow> task_info" where
  "apply_metrics m j t =
     (let t1 = t\<lparr>ti_records := max (tm_records m) (ti_records t)\<rparr>;
          t2 = (if tm_worker_id m \<noteq> [] then t1\<lparr>ti_worker_id := tm_worker_id m\<rparr> else t1);
          t3 = (if tm_last_record_at m > 0 then t2\<lparr>ti_last_record_at := tm_last_record_at m\<rparr> else t2);
          t4 = (if tm_last_checkpoint_id m > ti_last_checkpoint_id t3
                then t3\<lparr>ti_last_checkpoint_id := tm_last_checkpoint_id m,
                        ti_last_checkpoint_size := tm_last_checkpoint_size m\<rparr>
                else t3);
          t5 = (if tm_sink_metrics m \<noteq> None then t4\<lparr>ti_sink_metrics := tm_sink_metrics m\<rparr> else t4)
      in if \<not> is_terminal (rj_state j) \<and> tm_logs m \<noteq> [] then append_logs (tm_logs m) t5 else t5)"

definition report_task_metrics :: "string \<Rightarrow> task_metrics \<Rightarrow> coordinator \<Rightarrow> coordinator" where
  "report_task_metrics tid m = with_task tid (\<lambda>j t. set_task j tid (apply_metrics m j t))"

definition report_checkpoint :: "string \<Rightarrow> bool \<Rightarrow> coordinator \<Rightarrow> coordinator" where
  "report_checkpoint job success c =
     c\<lparr>jc_jobs :=
         hm_modify job
           (\<lambda>j. if success then j\<lparr>rj_checkpoints_completed := rj_checkpoints_completed j + 1\<rparr> else j)
           (jc_jobs c)\<rparr>"

definition fetch_checkpoint :: "string \<Rightarrow> string \<Rightarrow> coordinator \<Rightarrow> (nat \<times> 8 word list) option" where
  "fetch_checkpoint job tid c = ms_load_latest job tid (jc_checkpoint_store c)"

section \<open>Coordinated checkpoints\<close>

definition due_checkpoint_stages :: "int \<Rightarrow> coordinator \<Rightarrow> stage_key list" where
  "due_checkpoint_stages now c =
     concat (map (\<lambda>j.
       if rj_state j \<noteq> Running then []
       else if rj_last_checkpoint_trigger_ms j > 0 \<and>
               now - rj_last_checkpoint_trigger_ms j < u64_as_i64 (rj_checkpoint_interval_ms j) then []
       else
         let stages = remdups (map ti_stage_id (filter (\<lambda>t. ti_state t = Running) (hm_values (rj_tasks j))))
         in map (Pair (rj_job_id j))
              (filter (\<lambda>s. \<not> hm_contains (jc_pending c) (rj_job_id j, s)) stages)) (list_jobs c))"

definition stage_participants :: "string \<Rightarrow> running_job \<Rightarrow> (string, string) hashmap" where
  "stage_participants stage j =
     fold (\<lambda>t. hm_insert (ti_task_id t) (ti_worker_id t))
       (filter (\<lambda>t. ti_state t = Running \<and> ti_stage_id t = stage) (hm_values (rj_tasks j))) hm_empty"

definition apply_checkpoint_triggered :: "string \<Rightarrow> string \<Rightarrow> int \<Rightarrow> coordinator \<Rightarrow> nat \<times> coordinator" where
  "apply_checkpoint_triggered job stage at_ms c =
     (case hm_get (jc_jobs c) job of
        None \<Rightarrow> (0, c)
      | Some j \<Rightarrow>
          if rj_state j \<noteq> Running then (0, c)
          else
            let i = rj_next_checkpoint_id j;
                participants = stage_participants stage j
            in (i, c\<lparr>jc_jobs :=
                       hm_modify job
                         (\<lambda>_. j\<lparr>rj_next_checkpoint_id := sat_add_u64 i 1, rj_last_checkpoint_trigger_ms := at_ms\<rparr>)
                         (jc_jobs c),
                     jc_pending :=
                       hm_insert (job, stage)
                         \<lparr>pc_checkpoint_id = i, pc_stage_id = stage, pc_triggered_at_ms = at_ms,
                          pc_participants = participants, pc_delivered = [],
                          pc_awaiting = hm_keys participants\<rparr>
                         (jc_pending c)\<rparr>))"

definition push_resolution ::
    "nat \<Rightarrow> bool \<Rightarrow> string \<times> string \<Rightarrow> (string, checkpoint_resolution list) hashmap \<Rightarrow>
     (string, checkpoint_resolution list) hashmap" where
  "push_resolution i completed = (\<lambda>(tid, w).
     push_entry w \<lparr>cr_task_id = tid, cr_checkpoint_id = i, cr_completed = completed\<rparr>)"

definition note_completed :: "nat \<Rightarrow> string \<Rightarrow> running_job \<Rightarrow> running_job" where
  "note_completed i tid j =
     j\<lparr>rj_tasks :=
         hm_modify tid
           (\<lambda>t. if i > ti_last_checkpoint_id t
                then t\<lparr>ti_last_checkpoint_id := i, ti_last_checkpoint_size := 0\<rparr> else t)
           (rj_tasks j)\<rparr>"

definition apply_checkpoint_resolved ::
    "string \<Rightarrow> string \<Rightarrow> nat \<Rightarrow> bool \<Rightarrow> (string \<times> string) list \<Rightarrow> coordinator \<Rightarrow> coordinator" where
  "apply_checkpoint_resolved job stage i completed participants c =
     c\<lparr>jc_pending := hm_remove (job, stage) (jc_pending c),
       jc_jobs :=
         (if completed
          then hm_modify job
                 (\<lambda>j. fold (\<lambda>(tid, _). note_completed i tid) participants
                        (j\<lparr>rj_checkpoints_completed := rj_checkpoints_completed j + 1\<rparr>))
                 (jc_jobs c)
          else jc_jobs c),
       jc_checkpoint_outbox := fold (push_resolution i completed) participants (jc_checkpoint_outbox c)\<rparr>"

definition deliver_one :: "string \<Rightarrow> pending_checkpoint \<Rightarrow> checkpoint_trigger list \<times> pending_checkpoint" where
  "deliver_one w cp =
     (let due = filter (\<lambda>tid. tid \<notin> set (pc_delivered cp))
                  (map fst (filter (\<lambda>(_, owner). owner = w) (pc_participants cp)))
      in (map (\<lambda>tid. \<lparr>ct_task_id = tid, ct_checkpoint_id = pc_checkpoint_id cp\<rparr>) due,
          cp\<lparr>pc_delivered := pc_delivered cp @ due\<rparr>))"

definition deliver_checkpoint_triggers :: "string \<Rightarrow> coordinator \<Rightarrow> checkpoint_trigger list \<times> coordinator" where
  "deliver_checkpoint_triggers w c =
     (concat (map (\<lambda>cp. fst (deliver_one w cp)) (hm_values (jc_pending c))),
      c\<lparr>jc_pending := hm_map_values (\<lambda>cp. snd (deliver_one w cp)) (jc_pending c)\<rparr>)"

text \<open>
  \<open>note_checkpoint_prepare\<close>: the decision (stage, completed, participants), if the prepare decides
  the checkpoint, and the state with the awaiting list updated.
\<close>

definition note_checkpoint_prepare ::
    "string \<Rightarrow> string \<Rightarrow> nat \<Rightarrow> bool \<Rightarrow> coordinator \<Rightarrow>
     (string \<times> bool \<times> (string \<times> string) list) option \<times> coordinator" where
  "note_checkpoint_prepare job tid i success c =
     (case Option.bind (hm_get (jc_jobs c) job) (\<lambda>j. hm_get (rj_tasks j) tid) of
        None \<Rightarrow> (None, c)
      | Some t \<Rightarrow>
          let stage = ti_stage_id t; key = (job, stage) in
          (case hm_get (jc_pending c) key of
             None \<Rightarrow> (None, c)
           | Some cp \<Rightarrow>
               if pc_checkpoint_id cp \<noteq> i then (None, c)
               else if \<not> success then (Some (stage, False, pc_participants cp), c)
               else
                 let cp' = cp\<lparr>pc_awaiting := filter (\<lambda>x. x \<noteq> tid) (pc_awaiting cp)\<rparr>;
                     c' = c\<lparr>jc_pending := hm_modify key (\<lambda>_. cp') (jc_pending c)\<rparr>
                 in (if pc_awaiting cp' = [] then Some (stage, True, pc_participants cp) else None, c')))"

definition resolve_pending :: "pending_checkpoint \<Rightarrow> bool \<Rightarrow> coordinator \<Rightarrow> coordinator" where
  "resolve_pending cp completed c =
     c\<lparr>jc_checkpoint_outbox :=
         fold (push_resolution (pc_checkpoint_id cp) completed) (pc_participants cp) (jc_checkpoint_outbox c)\<rparr>"

definition drain_checkpoint_resolutions :: "string \<Rightarrow> coordinator \<Rightarrow> checkpoint_resolution list \<times> coordinator" where
  "drain_checkpoint_resolutions w c =
     (unwrap_or [] (hm_get (jc_checkpoint_outbox c) w),
      c\<lparr>jc_checkpoint_outbox := hm_remove w (jc_checkpoint_outbox c)\<rparr>)"

definition abort_key :: "stage_key \<Rightarrow> coordinator \<Rightarrow> coordinator" where
  "abort_key key c =
     (case hm_get (jc_pending c) key of
        None \<Rightarrow> c
      | Some cp \<Rightarrow> resolve_pending cp False (c\<lparr>jc_pending := hm_remove key (jc_pending c)\<rparr>))"

definition abort_timed_out_checkpoints :: "int \<Rightarrow> nat \<Rightarrow> coordinator \<Rightarrow> nat \<times> coordinator" where
  "abort_timed_out_checkpoints now timeout_ms c =
     (let expired =
            map fst (filter (\<lambda>(_, cp). now - pc_triggered_at_ms cp > u64_as_i64 timeout_ms) (jc_pending c))
      in (length expired, fold abort_key expired c))"

definition drop_pending_checkpoints :: "string \<Rightarrow> coordinator \<Rightarrow> coordinator" where
  "drop_pending_checkpoints job c =
     fold abort_key (filter (\<lambda>(j, _). j = job) (hm_keys (jc_pending c))) c"

definition cancel_job :: "int \<Rightarrow> string \<Rightarrow> coordinator \<Rightarrow> bool \<times> coordinator" where
  "cancel_job now job c =
     (case hm_get (jc_jobs c) job of
        None \<Rightarrow> (False, c)
      | Some j \<Rightarrow>
          if is_terminal (rj_state j) then (False, c)
          else
            (True, drop_pending_checkpoints job
               (c\<lparr>jc_jobs := hm_modify job (\<lambda>_. j\<lparr>rj_state := Cancelled, rj_end_time := Some now\<rparr>)
                   (jc_jobs c)\<rparr>)))"

section \<open>Snapshots\<close>

text \<open>
  The JSON snapshot by its sections. \<open>None\<close> stands for a section or a field that is missing or does
  not decode; \<open>export_state\<close> writes them all.
\<close>

record task_json =
  tj_task_id :: "string option"
  tj_job_id :: "string option"
  tj_stage_id :: "string option"
  tj_task_name :: "string option"
  tj_task_index :: "int option"
  tj_parallelism :: "int option"
  tj_config :: "(string, string) hashmap option"

record snapshot =
  sn_term :: "nat option"
  sn_jobs :: "job_dto list option"
  sn_tasks :: "task_json list option"
  sn_checkpoints :: "(ckpt_key \<times> ckpt_entries) list option"

definition dto_of_info :: "task_info \<Rightarrow> task_info_dto" where
  "dto_of_info t =
     \<lparr>tid_task_id = ti_task_id t, tid_stage_id = ti_stage_id t, tid_worker_id = ti_worker_id t,
      tid_state = to_wire (ti_state t), tid_records = ti_records t, tid_error = ti_error t\<rparr>"

definition dto_of_job :: "running_job \<Rightarrow> job_dto" where
  "dto_of_job j =
     \<lparr>jd_job_id = rj_job_id j, jd_job_name = rj_job_name j, jd_state = to_wire (rj_state j),
      jd_parallelism = rj_parallelism j, jd_start_time = rj_start_time j, jd_end_time = rj_end_time j,
      jd_error_message = rj_error_message j, jd_checkpoint_interval_ms = rj_checkpoint_interval_ms j,
      jd_checkpoints_completed = rj_checkpoints_completed j,
      jd_next_checkpoint_id = rj_next_checkpoint_id j, jd_raw_config = rj_raw_config j,
      jd_tasks = map dto_of_info (hm_values (rj_tasks j))\<rparr>"

definition json_of_task :: "task_descriptor \<Rightarrow> task_json" where
  "json_of_task d =
     \<lparr>tj_task_id = Some (td_task_id d), tj_job_id = Some (td_job_id d), tj_stage_id = Some (td_stage_id d),
      tj_task_name = Some (td_task_name d), tj_task_index = Some (td_task_index d),
      tj_parallelism = Some (td_parallelism d), tj_config = Some (td_config d)\<rparr>"

definition export_state :: "coordinator \<Rightarrow> snapshot" where
  "export_state c =
     \<lparr>sn_term = Some (jc_term c), sn_jobs = Some (map dto_of_job (list_jobs c)),
      sn_tasks = Some (map json_of_task (hm_values (jc_all_tasks c))),
      sn_checkpoints = Some (ms_export (jc_checkpoint_store c))\<rparr>"

definition import_job :: "job_dto \<Rightarrow> (string, running_job) hashmap \<Rightarrow> (string, running_job) hashmap" where
  "import_job dto jobs =
     (case hm_get jobs (jd_job_id dto) of
        Some existing \<Rightarrow>
          hm_modify (jd_job_id dto)
            (\<lambda>j. j\<lparr>rj_next_checkpoint_id := max (rj_next_checkpoint_id j) (jd_next_checkpoint_id dto)\<rparr>) jobs
      | None \<Rightarrow> hm_insert (jd_job_id dto) (job_of_dto dto) jobs)"

definition i64_as_i32 :: "int \<Rightarrow> int" where
  "i64_as_i32 n = (let m = n mod 2 ^ 32 in if m < 2 ^ 31 then m else m - 2 ^ 32)"

definition import_task ::
    "task_json \<Rightarrow> (string, task_descriptor) hashmap \<Rightarrow> (string, task_descriptor) hashmap" where
  "import_task t all =
     (case tj_task_id t of
        None \<Rightarrow> all
      | Some tid \<Rightarrow>
          if hm_contains all tid then all
          else case tj_config t of
                 None \<Rightarrow> all
               | Some config \<Rightarrow>
                   hm_insert tid
                     \<lparr>td_task_id = tid, td_job_id = unwrap_or [] (tj_job_id t),
                      td_stage_id = unwrap_or [] (tj_stage_id t), td_task_name = unwrap_or [] (tj_task_name t),
                      td_task_index = i64_as_i32 (unwrap_or 0 (tj_task_index t)),
                      td_parallelism = i64_as_i32 (unwrap_or 1 (tj_parallelism t)), td_config = config\<rparr> all)"

definition observe_opt :: "nat option \<Rightarrow> coordinator \<Rightarrow> coordinator" where
  "observe_opt t c = (case t of None \<Rightarrow> c | Some seen \<Rightarrow> snd (observe_term seen c))"

definition import_state :: "snapshot \<Rightarrow> coordinator \<Rightarrow> coordinator" where
  "import_state s c =
     (let c1 = observe_opt (sn_term s) c in
      case sn_jobs s of
        None \<Rightarrow> c1
      | Some jobs \<Rightarrow>
          let c2 = c1\<lparr>jc_jobs := fold import_job jobs (jc_jobs c1)\<rparr>;
              c3 = (case sn_tasks s of
                      None \<Rightarrow> c2
                    | Some ts \<Rightarrow> c2\<lparr>jc_all_tasks := fold import_task ts (jc_all_tasks c2)\<rparr>)
          in case sn_checkpoints s of
               None \<Rightarrow> c3
             | Some es \<Rightarrow> c3\<lparr>jc_checkpoint_store := ms_import es (jc_checkpoint_store c3)\<rparr>)"

definition replace_state :: "snapshot \<Rightarrow> coordinator \<Rightarrow> coordinator" where
  "replace_state s c =
     import_state s
       (observe_opt (sn_term s)
         (c\<lparr>jc_jobs := hm_empty, jc_all_tasks := hm_empty, jc_pending := hm_empty,
            jc_checkpoint_outbox := hm_empty\<rparr>))"

section \<open>Commands\<close>

datatype command =
    SubmitJob job_dto "task_descriptor list"
  | CancelJob string int
  | DropJob string
  | TaskStatus string string string string nat "string option"
  | MarkDispatched "string list" string
  | EvictWorker string
  | AdoptTasks string "string list"
  | ReleaseLostTasks string "string list"
  | CheckpointTriggered string string int
  | CheckpointResolved string string nat bool "(string \<times> string) list"
  | ObserveTerm nat

datatype command_result = Cmd_Ok | Cmd_CheckpointId nat

definition apply_cancel :: "string \<Rightarrow> int \<Rightarrow> coordinator \<Rightarrow> coordinator" where
  "apply_cancel job at_ms c = snd (cancel_job at_ms job c)"

definition apply_drop :: "string \<Rightarrow> coordinator \<Rightarrow> coordinator" where
  "apply_drop job c =
     (case hm_get (jc_jobs c) job of
        None \<Rightarrow> c
      | Some j \<Rightarrow>
          if is_terminal (rj_state j)
          then drop_pending_checkpoints job (c\<lparr>jc_jobs := hm_remove job (jc_jobs c)\<rparr>)
          else c)"

text \<open>\<open>now\<close> is the clock the roll-up of a task status reads.\<close>

fun apply_command :: "int \<Rightarrow> command \<Rightarrow> coordinator \<Rightarrow> command_result \<times> coordinator" where
  "apply_command now (SubmitJob job descriptors) c = (Cmd_Ok, install_job job descriptors c)"
| "apply_command now (CancelJob job at_ms) c = (Cmd_Ok, apply_cancel job at_ms c)"
| "apply_command now (DropJob job) c = (Cmd_Ok, apply_drop job c)"
| "apply_command now (TaskStatus job tid w state records err) c =
     (Cmd_Ok, report_task_status_from now w job tid state records err c)"
| "apply_command now (MarkDispatched tids w) c = (Cmd_Ok, mark_tasks_dispatched tids w c)"
| "apply_command now (EvictWorker w) c = (Cmd_Ok, evict_worker w c)"
| "apply_command now (AdoptTasks w tids) c = (Cmd_Ok, adopt_tasks w tids c)"
| "apply_command now (ReleaseLostTasks w tids) c = (Cmd_Ok, release_lost_tasks w tids c)"
| "apply_command now (CheckpointTriggered job stage at_ms) c =
     (case apply_checkpoint_triggered job stage at_ms c of (i, c') \<Rightarrow> (Cmd_CheckpointId i, c'))"
| "apply_command now (CheckpointResolved job stage i completed participants) c =
     (Cmd_Ok, apply_checkpoint_resolved job stage i completed participants c)"
| "apply_command now (ObserveTerm t) c = (Cmd_Ok, snd (observe_term t c))"

text \<open>The direct-mode compositions of decision and command.\<close>

definition handle_checkpoint_prepare ::
    "int \<Rightarrow> string \<Rightarrow> string \<Rightarrow> nat \<Rightarrow> bool \<Rightarrow> coordinator \<Rightarrow> nat option \<times> coordinator" where
  "handle_checkpoint_prepare now job tid i success c =
     (case note_checkpoint_prepare job tid i success c of
        (None, c') \<Rightarrow> (None, c')
      | (Some (stage, completed, participants), c') \<Rightarrow>
          (Some i, snd (apply_command now (CheckpointResolved job stage i completed participants) c')))"

definition due_checkpoint_triggers :: "int \<Rightarrow> string \<Rightarrow> coordinator \<Rightarrow> checkpoint_trigger list \<times> coordinator" where
  "due_checkpoint_triggers now w c =
     deliver_checkpoint_triggers w
       (fold (\<lambda>(job, stage) s. snd (apply_command now (CheckpointTriggered job stage now) s))
         (due_checkpoint_stages now c) c)"

end
