(* ===== verification/Coordinator_Jobs.thy ===== *)
theory Coordinator_Jobs
  imports Coordinator
begin

text \<open>
  What commands may do to a job that stays registered: a relation between a job before and after,
  closed under every update the coordinator makes, gives at once that terminal states are final,
  that checkpoint ids and counters never go back and that the set of tasks is fixed. The rest of
  the theory is about ownership: dispatch, claims, fencing of reports and failover.
\<close>

section \<open>Evolution of jobs\<close>

definition task_evolves :: "task_info \<Rightarrow> task_info \<Rightarrow> bool" where
  "task_evolves t t' =
     (ti_task_id t' = ti_task_id t \<and> ti_stage_id t' = ti_stage_id t \<and> ti_records t \<le> ti_records t' \<and>
      ti_last_checkpoint_id t \<le> ti_last_checkpoint_id t')"

definition job_evolves :: "running_job \<Rightarrow> running_job \<Rightarrow> bool" where
  "job_evolves j j' =
     (rj_job_id j' = rj_job_id j \<and> (hm_wf (rj_tasks j) \<longrightarrow> hm_wf (rj_tasks j')) \<and>
      rj_checkpoints_completed j \<le> rj_checkpoints_completed j' \<and>
      (rj_next_checkpoint_id j \<le> u64_max \<longrightarrow>
         rj_next_checkpoint_id j \<le> rj_next_checkpoint_id j' \<and> rj_next_checkpoint_id j' \<le> u64_max) \<and>
      (is_terminal (rj_state j) \<longrightarrow>
         rj_state j' = rj_state j \<and> rj_end_time j' = rj_end_time j \<and>
         rj_error_message j' = rj_error_message j) \<and>
      (\<forall>tid. rel_option task_evolves (hm_get (rj_tasks j) tid) (hm_get (rj_tasks j') tid)))"

definition jobs_evolve :: "coordinator \<Rightarrow> coordinator \<Rightarrow> bool" where
  "jobs_evolve c c' =
     (hm_wf (jc_jobs c) \<longrightarrow>
        hm_wf (jc_jobs c') \<and> (\<forall>k. rel_option job_evolves (hm_get (jc_jobs c) k) (hm_get (jc_jobs c') k)))"

lemma task_evolves_refl [simp, inv_intros]: "task_evolves t t"
  by (simp add: task_evolves_def)

lemma task_evolves_trans: "task_evolves a b \<Longrightarrow> task_evolves b c \<Longrightarrow> task_evolves a c"
  by (simp add: task_evolves_def)

lemma job_evolves_refl [simp, inv_intros]: "job_evolves j j"
  by (simp add: job_evolves_def option.rel_refl)

lemma rel_option_trans:
  "(\<And>x y z. R x y \<Longrightarrow> R y z \<Longrightarrow> R x z) \<Longrightarrow> rel_option R a b \<Longrightarrow> rel_option R b c \<Longrightarrow> rel_option R a c"
  by (cases a; cases b; cases c) auto

lemma job_evolves_trans: "job_evolves a b \<Longrightarrow> job_evolves b c \<Longrightarrow> job_evolves a c"
  unfolding job_evolves_def
  by (auto intro: rel_option_trans [OF task_evolves_trans])

lemma jobs_evolve_refl [simp, inv_intros]: "jobs_evolve c c"
  by (simp add: jobs_evolve_def option.rel_refl)

lemma jobs_evolve_trans: "jobs_evolve a b \<Longrightarrow> jobs_evolve b c \<Longrightarrow> jobs_evolve a c"
  unfolding jobs_evolve_def by (blast intro: rel_option_trans [of job_evolves] job_evolves_trans)

lemma jobs_evolve_fold:
  "(\<And>x c. jobs_evolve c (f x c)) \<Longrightarrow> jobs_evolve c (fold f xs c)"
  by (induction xs arbitrary: c) (auto intro: jobs_evolve_trans)

lemma jobs_evolve_frame: "jc_jobs c' = jc_jobs c \<Longrightarrow> jobs_evolve c c'"
  by (simp add: jobs_evolve_def option.rel_refl)

lemma jobs_evolve_modify:
  assumes "jc_jobs c' = hm_modify k f (jc_jobs c)"
    and "\<And>j. hm_get (jc_jobs c) k = Some j \<Longrightarrow> job_evolves j (f j)"
  shows "jobs_evolve c c'"
proof -
  have "rel_option job_evolves (hm_get (jc_jobs c) k') (hm_get (jc_jobs c') k')" for k'
    using assms by (cases "hm_get (jc_jobs c) k") (auto simp: hm_simps option.rel_refl)
  then show ?thesis using assms(1) by (simp add: jobs_evolve_def)
qed

lemma rel_option_map_values:
  "(\<And>x. R x (f x)) \<Longrightarrow> rel_option R (hm_get m k) (hm_get (hm_map_values f m) k)"
  by (cases "hm_get m k") (simp_all add: hm_simps)

lemma jobs_evolve_map_values:
  assumes "jc_jobs c' = hm_map_values f (jc_jobs c)" and "\<And>j. job_evolves j (f j)"
  shows "jobs_evolve c c'"
  using assms by (auto simp: jobs_evolve_def intro: rel_option_map_values)

text \<open>Updates of one task or of all tasks of a job.\<close>

lemma job_evolves_set_task:
  assumes "hm_get (rj_tasks j) tid = Some t" and "task_evolves t t'"
  shows "job_evolves j (set_task j tid t')"
  using assms by (auto simp: job_evolves_def set_task_def hm_simps option.rel_refl)

lemma job_evolves_map_tasks:
  "(\<And>t. task_evolves t (f t)) \<Longrightarrow> job_evolves j (j\<lparr>rj_tasks := hm_map_values f (rj_tasks j)\<rparr>)"
  by (auto simp: job_evolves_def intro: rel_option_map_values)

lemma job_evolves_modify_task:
  assumes "\<And>t. task_evolves t (f t)"
  shows "job_evolves j (j\<lparr>rj_tasks := hm_modify tid f (rj_tasks j)\<rparr>)"
proof -
  have "rel_option task_evolves (hm_get (rj_tasks j) tid) (map_option f (hm_get (rj_tasks j) tid))"
    using assms by (cases "hm_get (rj_tasks j) tid") simp_all
  then show ?thesis by (auto simp: job_evolves_def hm_simps option.rel_refl)
qed

lemma find_job_get:
  assumes "find_job tid c = Some (k, j)" and "hm_wf (jc_jobs c)"
  shows "hm_get (jc_jobs c) k = Some j" and "hm_get (rj_tasks j) tid \<noteq> None"
proof -
  have "(k, j) \<in> set (jc_jobs c) \<and> hm_contains (rj_tasks j) tid"
    using assms(1) by (auto simp: find_job_def find_Some_iff in_set_conv_nth)
  then show "hm_get (jc_jobs c) k = Some j" "hm_get (rj_tasks j) tid \<noteq> None"
    using assms(2) by (auto simp: hm_get_def hm_wf_def hm_contains_def split: option.splits)
qed

lemma jobs_evolve_task_update:
  assumes "jc_jobs c' = hm_modify k (\<lambda>_. j') (jc_jobs c)"
    and "hm_wf (jc_jobs c) \<Longrightarrow> hm_get (jc_jobs c) k = Some j" and "job_evolves j j'"
  shows "jobs_evolve c c'"
  using assms jobs_evolve_modify [of c' k "\<lambda>_. j'" c] by (auto simp: jobs_evolve_def)

lemma jobs_evolve_with_task:
  assumes "\<And>j t. hm_get (rj_tasks j) tid = Some t \<Longrightarrow> job_evolves j (f j t)"
  shows "jobs_evolve c (with_task tid f c)"
  using assms
  by (auto simp: with_task_def split: option.splits
      intro!: jobs_evolve_task_update dest: find_job_get)

section \<open>Every command evolves the jobs\<close>

named_theorems evolves

lemma evict_evolves [evolves]: "jobs_evolve c (evict_worker w c)"
  by (rule jobs_evolve_map_values [of _ "\<lambda>j. j\<lparr>rj_tasks := hm_map_values (evict_task w j) (rj_tasks j)\<rparr>"])
    (auto simp: evict_worker_def evict_task_def task_evolves_def intro!: job_evolves_map_tasks)

lemma release_evolves [evolves]: "jobs_evolve c (release_lost_tasks w tids c)"
  unfolding release_lost_tasks_def release_lost_task_def
  by (intro jobs_evolve_fold jobs_evolve_with_task)
    (auto intro!: job_evolves_set_task simp: task_evolves_def)

lemma adopt_evolves [evolves]: "jobs_evolve c (adopt_tasks w tids c)"
  unfolding adopt_tasks_def adopt_task_def
  by (intro jobs_evolve_fold jobs_evolve_with_task)
    (auto intro!: job_evolves_set_task simp: task_evolves_def)

lemma metrics_evolve: "jobs_evolve c (report_task_metrics tid m c)"
  unfolding report_task_metrics_def
  by (intro jobs_evolve_with_task job_evolves_set_task)
    (auto simp: task_evolves_def apply_metrics_def Let_def append_logs_def)

lemma job_evolves_state:
  "\<not> is_terminal (rj_state j) \<Longrightarrow> job_evolves j (j\<lparr>rj_state := s\<rparr>)"
  "\<not> is_terminal (rj_state j) \<Longrightarrow> job_evolves j (j\<lparr>rj_state := s, rj_end_time := e\<rparr>)"
  "\<not> is_terminal (rj_state j) \<Longrightarrow> job_evolves j (j\<lparr>rj_state := s, rj_end_time := e, rj_error_message := m\<rparr>)"
  by (auto simp: job_evolves_def option.rel_refl)

lemma roll_up_evolves: "job_evolves j (roll_up now j)"
  by (auto simp: roll_up_def Let_def intro!: job_evolves_state split: option.splits)

lemma set_task_state [simp]: "rj_state (set_task j tid t) = rj_state j"
  by (simp add: set_task_def)

lemma report_evolves [evolves]: "jobs_evolve c (report_task_status_from now w job tid state records err c)"
proof -
  have "job_evolves j (roll_up now (set_task j tid (reported_task w s records err t)))"
    if "hm_get (rj_tasks j) tid = Some t" for j t s
    using that
    by (intro job_evolves_trans [OF job_evolves_set_task roll_up_evolves])
      (auto simp: reported_task_def task_evolves_def)
  moreover have "jobs_evolve c (queue_preemption w tid c)"
    by (rule jobs_evolve_frame) (simp add: queue_preemption_def)
  ultimately show ?thesis
    by (auto simp: report_task_status_from_def Let_def
        split: option.splits verdict.splits intro: jobs_evolve_task_update)
qed

lemma dispatched_evolves:
  assumes "hm_get (rj_tasks j) tid = Some t"
  shows "job_evolves j (dispatched_job w tid j t)"
proof -
  let ?j = "set_task j tid (t\<lparr>ti_state := Deploying, ti_worker_id := w\<rparr>)"
  have "job_evolves j ?j"
    using assms by (intro job_evolves_set_task) (auto simp: task_evolves_def)
  moreover have "job_evolves ?j (?j\<lparr>rj_state := Deploying\<rparr>)"
    if "rj_state j = Scheduled \<or> rj_state j = Created"
    using that by (intro job_evolves_state) auto
  ultimately show ?thesis by (auto simp: dispatched_job_def Let_def intro: job_evolves_trans)
qed

lemma mark_evolves [evolves]: "jobs_evolve c (mark_tasks_dispatched tids w c)"
proof -
  have "jobs_evolve c (mark_task_dispatched w tid c)" for tid c
    by (auto simp: mark_task_dispatched_def split: option.splits
        intro: jobs_evolve_task_update dispatched_evolves dest: find_job_get)
  then show ?thesis unfolding mark_tasks_dispatched_def by (rule jobs_evolve_fold)
qed

lemma triggered_evolves [evolves]:
  "jobs_evolve c (snd (apply_checkpoint_triggered job stage at_ms c))"
proof -
  have "job_evolves j (j\<lparr>rj_next_checkpoint_id := sat_add_u64 (rj_next_checkpoint_id j) 1,
      rj_last_checkpoint_trigger_ms := at_ms\<rparr>)" for j
    by (simp add: job_evolves_def option.rel_refl sat_add_u64_def)
  then show ?thesis
    by (auto simp: apply_checkpoint_triggered_def Let_def split: option.splits
        intro: jobs_evolve_task_update)
qed

lemma note_completed_evolves: "job_evolves j (fold (\<lambda>(tid, _). note_completed i tid) ps j)"
proof (induction ps arbitrary: j)
  case Nil
  then show ?case by simp
next
  case (Cons p ps)
  obtain tid w where p: "p = (tid, w)" by (cases p)
  have "job_evolves j (note_completed i tid j)"
    unfolding note_completed_def by (rule job_evolves_modify_task) (auto simp: task_evolves_def)
  with Cons [of "note_completed i tid j"] p show ?case by (auto intro: job_evolves_trans)
qed

lemma resolved_evolves [evolves]:
  "jobs_evolve c (apply_checkpoint_resolved job stage i completed ps c)"
proof (cases completed)
  case True
  have "job_evolves j (fold (\<lambda>(tid, _). note_completed i tid) ps
      (j\<lparr>rj_checkpoints_completed := rj_checkpoints_completed j + 1\<rparr>))" for j
    by (rule job_evolves_trans [OF _ note_completed_evolves]) (simp add: job_evolves_def option.rel_refl)
  with True show ?thesis
    by (intro jobs_evolve_modify [of _ job]) (simp_all add: apply_checkpoint_resolved_def)
next
  case False
  then show ?thesis by (intro jobs_evolve_frame) (simp add: apply_checkpoint_resolved_def)
qed

lemma abort_key_frame [simp]:
  "jc_jobs (abort_key k c) = jc_jobs c" "jc_term (abort_key k c) = jc_term c"
  "jc_all_tasks (abort_key k c) = jc_all_tasks c"
  "jc_checkpoint_store (abort_key k c) = jc_checkpoint_store c"
  by (auto simp: abort_key_def resolve_pending_def split: option.splits)

lemma drop_pending_frame [simp]:
  "jc_jobs (drop_pending_checkpoints job c) = jc_jobs c"
  "jc_term (drop_pending_checkpoints job c) = jc_term c"
  "jc_all_tasks (drop_pending_checkpoints job c) = jc_all_tasks c"
  "jc_checkpoint_store (drop_pending_checkpoints job c) = jc_checkpoint_store c"
proof -
  have "jc_jobs (fold abort_key ks c) = jc_jobs c \<and> jc_term (fold abort_key ks c) = jc_term c \<and>
      jc_all_tasks (fold abort_key ks c) = jc_all_tasks c \<and>
      jc_checkpoint_store (fold abort_key ks c) = jc_checkpoint_store c" for ks
    by (induction ks arbitrary: c) simp_all
  then show "jc_jobs (drop_pending_checkpoints job c) = jc_jobs c"
    "jc_term (drop_pending_checkpoints job c) = jc_term c"
    "jc_all_tasks (drop_pending_checkpoints job c) = jc_all_tasks c"
    "jc_checkpoint_store (drop_pending_checkpoints job c) = jc_checkpoint_store c"
    by (simp_all add: drop_pending_checkpoints_def)
qed

lemma cancel_evolves [evolves]: "jobs_evolve c (apply_cancel job at_ms c)"
  by (auto simp: apply_cancel_def cancel_job_def split: option.splits
      intro: jobs_evolve_task_update job_evolves_state(2))

lemma observe_evolves [evolves]: "jobs_evolve c (snd (observe_term t c))"
  by (rule jobs_evolve_frame) (simp add: observe_term_def Let_def)

section \<open>Replaying a command log\<close>

text \<open>A log entry with the clock of the node at the time it applies the command.\<close>

definition apply_log :: "(int \<times> command) list \<Rightarrow> coordinator \<Rightarrow> coordinator" where
  "apply_log log c = fold (\<lambda>(now, cmd) s. snd (apply_command now cmd s)) log c"

text \<open>The commands that replace or remove the record of a job.\<close>

fun replaces :: "string \<Rightarrow> command \<Rightarrow> bool" where
  "replaces job (SubmitJob dto ds) = (jd_job_id dto = job)"
| "replaces job (DropJob k) = (k = job)"
| "replaces job cmd = False"

definition job_kept :: "string \<Rightarrow> coordinator \<Rightarrow> coordinator \<Rightarrow> bool" where
  "job_kept job c c' =
     (hm_wf (jc_jobs c) \<longrightarrow>
        hm_wf (jc_jobs c') \<and> rel_option job_evolves (hm_get (jc_jobs c) job) (hm_get (jc_jobs c') job))"

lemma jobs_evolve_kept: "jobs_evolve c c' \<Longrightarrow> job_kept job c c'"
  by (simp add: jobs_evolve_def job_kept_def)

lemma apply_command_kept:
  assumes "\<not> replaces job cmd"
  shows "job_kept job c (snd (apply_command now cmd c))"
proof (cases cmd)
  case (SubmitJob dto ds)
  with assms show ?thesis
    by (auto simp: job_kept_def install_job_def hm_simps option.rel_refl intro: hm_wf_insert)
next
  case (DropJob k)
  with assms show ?thesis
    by (auto simp: job_kept_def apply_drop_def hm_simps option.rel_refl split: option.splits
        intro: hm_wf_remove)
qed (auto intro!: jobs_evolve_kept evolves simp: case_prod_beta)

lemma job_kept_trans: "job_kept job a b \<Longrightarrow> job_kept job b c \<Longrightarrow> job_kept job a c"
  unfolding job_kept_def by (blast intro: rel_option_trans [of job_evolves] job_evolves_trans)

lemma apply_log_kept:
  "\<forall>(now, cmd) \<in> set log. \<not> replaces job cmd \<Longrightarrow> job_kept job c (apply_log log c)"
proof (induction log arbitrary: c)
  case Nil
  then show ?case by (simp add: apply_log_def job_kept_def option.rel_refl)
next
  case (Cons e log)
  obtain now cmd where e: "e = (now, cmd)" by (cases e)
  with Cons apply_command_kept [of job cmd c now] show ?case
    by (auto simp: apply_log_def intro: job_kept_trans)
qed

text \<open>
  C22. Jobs only move forward. Along any command log that does not resubmit or drop a registered
  job, whatever is done to it and to other jobs: a completed, failed or cancelled job keeps its
  state, end time and error; its checkpoint id counter and completed count never go back; its tasks
  are the same tasks in the same stages, with record counts that never go back.
\<close>

theorem jobs_move_forward:
  assumes "hm_wf (jc_jobs c)" and "hm_get (jc_jobs c) job = Some j"
    and "\<forall>(now, cmd) \<in> set log. \<not> replaces job cmd"
  shows "\<exists>j'. hm_get (jc_jobs (apply_log log c)) job = Some j' \<and>
    (is_terminal (rj_state j) \<longrightarrow> rj_state j' = rj_state j \<and> rj_end_time j' = rj_end_time j \<and>
       rj_error_message j' = rj_error_message j) \<and>
    (rj_next_checkpoint_id j \<le> u64_max \<longrightarrow> rj_next_checkpoint_id j \<le> rj_next_checkpoint_id j') \<and>
    rj_checkpoints_completed j \<le> rj_checkpoints_completed j' \<and>
    (\<forall>tid. rel_option (\<lambda>t t'. ti_stage_id t' = ti_stage_id t \<and> ti_records t \<le> ti_records t')
       (hm_get (rj_tasks j) tid) (hm_get (rj_tasks j') tid))"
proof -
  have "rel_option job_evolves (hm_get (jc_jobs c) job) (hm_get (jc_jobs (apply_log log c)) job)"
    using apply_log_kept [OF assms(3), of c] assms(1) by (simp add: job_kept_def)
  then obtain j' where j': "hm_get (jc_jobs (apply_log log c)) job = Some j'" "job_evolves j j'"
    unfolding assms(2) by (auto simp: option_rel_Some1)
  have "rel_option (\<lambda>t t'. ti_stage_id t' = ti_stage_id t \<and> ti_records t \<le> ti_records t')
      (hm_get (rj_tasks j) tid) (hm_get (rj_tasks j') tid)" for tid
  proof -
    have "rel_option task_evolves (hm_get (rj_tasks j) tid) (hm_get (rj_tasks j') tid)"
      using j'(2) by (simp add: job_evolves_def)
    then show ?thesis by (rule option.rel_mono_strong) (simp add: task_evolves_def)
  qed
  with j' show ?thesis by (auto simp: job_evolves_def)
qed

definition demo_dto :: "string \<Rightarrow> job_dto" where
  "demo_dto state =
     \<lparr>jd_job_id = ''j'', jd_job_name = ''demo'', jd_state = state, jd_parallelism = 1, jd_start_time = 0,
      jd_end_time = None, jd_error_message = None, jd_checkpoint_interval_ms = 10,
      jd_checkpoints_completed = 0, jd_next_checkpoint_id = 4, jd_raw_config = [],
      jd_tasks = [\<lparr>tid_task_id = ''j-p0-0'', tid_stage_id = ''j-p0'', tid_worker_id = ''w1'',
        tid_state = state, tid_records = 5, tid_error = None\<rparr>]\<rparr>"

definition demo_desc :: task_descriptor where
  "demo_desc =
     \<lparr>td_task_id = ''j-p0-0'', td_job_id = ''j'', td_stage_id = ''j-p0'', td_task_name = ''demo'',
      td_task_index = 0, td_parallelism = 1, td_config = [(''worker_id'', ''w1'')]\<rparr>"

definition demo_jc :: "string \<Rightarrow> coordinator" where
  "demo_jc state = install_job (demo_dto state) [demo_desc] jc_new"

lemma demo_jc_jobs: "jc_jobs (demo_jc state) = [(''j'', job_of_dto (demo_dto state))]"
  by (simp add: demo_jc_def install_job_def jc_new_def demo_dto_def hm_insert_def hm_empty_def)

lemma demo_jc_wf: "hm_wf (jc_jobs (demo_jc state))"
  by (simp add: demo_jc_jobs hm_wf_def)

lemma demo_jc_job: "hm_get (jc_jobs (demo_jc state)) ''j'' = Some (job_of_dto (demo_dto state))"
  by (simp add: demo_jc_jobs hm_get_def)

theorem jobs_move_forward_witness:
  "\<exists>j'. hm_get (jc_jobs (apply_log [(9, TaskStatus ''j'' ''j-p0-0'' ''w1'' ''RUNNING'' 7 None)]
      (demo_jc ''CANCELLED''))) ''j'' = Some j' \<and> rj_state j' = Cancelled"
  using jobs_move_forward [OF demo_jc_wf demo_jc_job,
      of "[(9, TaskStatus ''j'' ''j-p0-0'' ''w1'' ''RUNNING'' 7 None)]" "''CANCELLED''"]
  by (auto simp: job_of_dto_def demo_dto_def job_state_from_def)

section \<open>The fencing term\<close>

lemma observe_term_ge: "jc_term c \<le> jc_term (snd (observe_term seen c))"
  "seen \<le> jc_term (snd (observe_term seen c))"
  by (simp_all add: observe_term_def Let_def)

lemma apply_command_term: "jc_term c \<le> jc_term (snd (apply_command now cmd c))"
proof -
  have w: "jc_term (with_task tid f s) = jc_term s" for tid f s
    by (auto simp: with_task_def split: option.splits)
  have m: "jc_term (mark_task_dispatched w' tid s) = jc_term s" for w' tid s
    by (auto simp: mark_task_dispatched_def split: option.splits)
  have fld: "jc_term (fold f xs s) = jc_term s" if "\<And>x s. jc_term (f x s) = jc_term s"
    for f :: "'a \<Rightarrow> coordinator \<Rightarrow> coordinator" and xs s
    using that by (induction xs arbitrary: s) simp_all
  show ?thesis
    by (cases cmd)
      (auto simp: install_job_def apply_cancel_def cancel_job_def apply_drop_def report_task_status_from_def
        Let_def queue_preemption_def mark_tasks_dispatched_def evict_worker_def adopt_tasks_def
        release_lost_tasks_def release_lost_task_def adopt_task_def apply_checkpoint_triggered_def
        apply_checkpoint_resolved_def w m fld observe_term_ge split: option.splits verdict.splits)
qed

lemma import_term: "jc_term c \<le> jc_term (import_state s c)"
  by (auto simp: import_state_def observe_opt_def Let_def observe_term_def split: option.splits)

datatype node_event = Apply_Cmd int command | Import_Snapshot snapshot | Install_Snapshot snapshot

fun node_step :: "node_event \<Rightarrow> coordinator \<Rightarrow> coordinator" where
  "node_step (Apply_Cmd now cmd) c = snd (apply_command now cmd c)"
| "node_step (Import_Snapshot s) c = import_state s c"
| "node_step (Install_Snapshot s) c = replace_state s c"

lemma replace_term:
  "jc_term c \<le> jc_term (replace_state s c)" "sn_term s = Some t \<Longrightarrow> t \<le> jc_term (replace_state s c)"
proof -
  let ?c = "observe_opt (sn_term s)
      (c\<lparr>jc_jobs := hm_empty, jc_all_tasks := hm_empty, jc_pending := hm_empty, jc_checkpoint_outbox := hm_empty\<rparr>)"
  have "jc_term c \<le> jc_term ?c" "sn_term s = Some t \<Longrightarrow> t \<le> jc_term ?c"
    by (auto simp: observe_opt_def observe_term_def Let_def split: option.splits)
  with import_term [of ?c s] show "jc_term c \<le> jc_term (replace_state s c)"
    "sn_term s = Some t \<Longrightarrow> t \<le> jc_term (replace_state s c)"
    by (auto simp: replace_state_def)
qed

text \<open>
  The fencing term never regresses: no sequence of commands, snapshot merges and snapshot
  installs lowers it; a compare-and-exchange race on it still ends at or above the observed term;
  and installing a snapshot raises it to the snapshot's term at least.
\<close>

theorem term_never_regresses:
  "jc_term c \<le> jc_term (fold node_step events c) \<and>
   seen \<le> observe_term_cas seen current actuals \<and>
   jc_term src \<le> jc_term (replace_state (export_state src) c)"
proof (intro conjI)
  show "jc_term c \<le> jc_term (fold node_step events c)"
  proof (induction events arbitrary: c)
    case Nil
    then show ?case by simp
  next
    case (Cons e events)
    have "jc_term c \<le> jc_term (node_step e c)"
      by (cases e) (simp_all add: apply_command_term import_term replace_term)
    with Cons [of "node_step e c"] show ?case by simp
  qed
  show "seen \<le> observe_term_cas seen current actuals"
    by (induction seen current actuals rule: observe_term_cas.induct) simp_all
  show "jc_term src \<le> jc_term (replace_state (export_state src) c)"
    by (rule replace_term(2)) (simp add: export_state_def)
qed

section \<open>The registry invariant\<close>

text \<open>
  Jobs are filed under their id, tasks under theirs, and every task id is one the planner makes for
  that job; so a task id belongs to one job only.
\<close>

definition job_wf :: "string \<Rightarrow> running_job \<Rightarrow> bool" where
  "job_wf k j =
     (rj_job_id j = k \<and> hm_wf (rj_tasks j) \<and>
      (\<forall>tid t. hm_get (rj_tasks j) tid = Some t \<longrightarrow> ti_task_id t = tid \<and> (\<exists>p i. tid = task_id k p i)))"

definition registry_wf :: "coordinator \<Rightarrow> bool" where
  "registry_wf c = (hm_wf (jc_jobs c) \<and> (\<forall>k j. hm_get (jc_jobs c) k = Some j \<longrightarrow> job_wf k j))"

text \<open>A plan as the planner makes it.\<close>

definition planned :: "job_dto \<Rightarrow> bool" where
  "planned dto = (\<forall>t \<in> set (jd_tasks dto). \<exists>p i. tid_task_id t = task_id (jd_job_id dto) p i)"

lemma job_wf_evolves: "job_evolves j j' \<Longrightarrow> job_wf k j \<Longrightarrow> job_wf k j'"
proof -
  assume e: "job_evolves j j'" and w: "job_wf k j"
  have "ti_task_id t' = tid \<and> (\<exists>p i. tid = task_id k p i)" if t': "hm_get (rj_tasks j') tid = Some t'" for tid t'
  proof -
    have "rel_option task_evolves (hm_get (rj_tasks j) tid) (Some t')"
      using e t' by (metis job_evolves_def)
    then obtain t where "hm_get (rj_tasks j) tid = Some t" "task_evolves t t'"
      by (auto simp: option_rel_Some2)
    with w show ?thesis by (auto simp: job_wf_def task_evolves_def)
  qed
  with e w show ?thesis by (simp add: job_wf_def job_evolves_def)
qed

lemma jobs_evolve_registry: "jobs_evolve c c' \<Longrightarrow> registry_wf c \<Longrightarrow> registry_wf c'"
  unfolding registry_wf_def jobs_evolve_def
  by (metis job_wf_evolves option_rel_Some2)

lemma tasks_of_dto_get:
  "hm_get (tasks_of_dto ts) tid = Some t \<Longrightarrow> \<exists>x \<in> set ts. tid_task_id x = tid \<and> t = info_of_dto x"
  "hm_wf (tasks_of_dto ts)"
proof -
  have "(hm_get (fold (\<lambda>t. hm_insert (tid_task_id t) (info_of_dto t)) ts m) tid = Some t \<longrightarrow>
      (\<exists>x \<in> set ts. tid_task_id x = tid \<and> t = info_of_dto x) \<or> hm_get m tid = Some t) \<and>
      (hm_wf m \<longrightarrow> hm_wf (fold (\<lambda>t. hm_insert (tid_task_id t) (info_of_dto t)) ts m))" for m
  proof (induction ts arbitrary: m)
    case Nil
    then show ?case by simp
  next
    case (Cons x ts)
    from Cons [of "hm_insert (tid_task_id x) (info_of_dto x) m"] show ?case
      by (auto simp: hm_simps intro: hm_wf_insert split: if_splits)
  qed
  from this [of hm_empty] show "hm_wf (tasks_of_dto ts)"
    "hm_get (tasks_of_dto ts) tid = Some t \<Longrightarrow> \<exists>x \<in> set ts. tid_task_id x = tid \<and> t = info_of_dto x"
    by (auto simp: tasks_of_dto_def)
qed

lemma job_of_dto_wf: "planned dto \<Longrightarrow> job_wf (jd_job_id dto) (job_of_dto dto)"
  using tasks_of_dto_get [of "jd_tasks dto"]
  by (fastforce simp: job_wf_def job_of_dto_def planned_def info_of_dto_def task_info_new_def)

lemma apply_command_registry:
  assumes "registry_wf c" and "\<And>dto ds. cmd = SubmitJob dto ds \<Longrightarrow> planned dto"
  shows "registry_wf (snd (apply_command now cmd c))"
proof (cases cmd)
  case (SubmitJob dto ds)
  with assms job_of_dto_wf [of dto] show ?thesis
    by (auto simp: registry_wf_def install_job_def hm_simps intro: hm_wf_insert split: if_splits)
next
  case (DropJob k)
  with assms show ?thesis
    by (auto simp: registry_wf_def apply_drop_def hm_simps intro: hm_wf_remove split: option.splits if_splits)
qed (use assms in \<open>auto intro!: jobs_evolve_registry [OF _ assms(1)] evolves simp: case_prod_beta\<close>)

lemma compile_plan_planned:
  assumes "compile_plan_inner ser now counts job job_name config override workers = Inr (dto, ts)"
  shows "planned dto"
proof -
  note f = compile_plan_tasks [OF assms]
  have "\<exists>p i. tid_task_id x = task_id job p i" if x: "x \<in> set (jd_tasks dto)" for x
  proof -
    obtain d where d: "d \<in> set ts" "x = planned_info d"
      using plan_infos_mem x f(2) by metis
    obtain pipes where "map td_task_id ts = map (\<lambda>(p, i). task_id job p i) (slot_keys 0 pipes)"
      using f(3) by blast
    then have "td_task_id d \<in> (\<lambda>(p, i). task_id job p i) ` set (slot_keys 0 pipes)"
      using d(1) by (metis image_eqI list.set_map)
    then have "\<exists>p i. td_task_id d = task_id job p i" by auto
    with d show ?thesis by (simp add: planned_info_def)
  qed
  with f(1) show ?thesis by (simp add: planned_def)
qed

end
