(* ===== verification/Coordinator_Ownership.thy ===== *)
theory Coordinator_Ownership
  imports Coordinator_Jobs
begin

text \<open>
  Who may run a task: dispatch never takes a running task from another worker, claims follow the
  admission rule, reports of a duplicate runner are fenced, and a task of a dead worker moves to
  another one through eviction and dispatch.
\<close>

section \<open>Looking up tasks\<close>

definition task_of :: "coordinator \<Rightarrow> string \<Rightarrow> string \<Rightarrow> task_info option" where
  "task_of c job tid = Option.bind (hm_get (jc_jobs c) job) (\<lambda>j. hm_get (rj_tasks j) tid)"

lemma task_of_Some:
  "task_of c job tid = Some t \<longleftrightarrow> (\<exists>j. hm_get (jc_jobs c) job = Some j \<and> hm_get (rj_tasks j) tid = Some t)"
  by (auto simp: task_of_def bind_eq_Some_conv)

lemma hm_get_set_task:
  "hm_get (rj_tasks (set_task j tid t)) tid' =
     (if tid' = tid then map_option (\<lambda>_. t) (hm_get (rj_tasks j) tid) else hm_get (rj_tasks j) tid')"
  by (simp add: set_task_def hm_simps)

lemma dispatched_job_tasks [simp]:
  "rj_tasks (dispatched_job w tid j t) = rj_tasks (set_task j tid (t\<lparr>ti_state := Deploying, ti_worker_id := w\<rparr>))"
  by (simp add: dispatched_job_def Let_def)

lemma mark_task_of:
  assumes "hm_wf (jc_jobs c)" and "task_of c job tid = Some t" and "dispatch_blocked w t"
  shows "task_of (mark_task_dispatched w tid' c) job tid = Some t"
proof (cases "find_job tid' c")
  case None
  with assms show ?thesis by (simp add: mark_task_dispatched_def)
next
  case (Some kj)
  obtain k j where kj: "kj = (k, j)" by (cases kj)
  note f = find_job_get [OF Some [unfolded kj] assms(1)]
  from assms(2) obtain j0 where j0: "hm_get (jc_jobs c) job = Some j0" "hm_get (rj_tasks j0) tid = Some t"
    by (auto simp: task_of_Some)
  show ?thesis
  proof (cases "k = job \<and> tid' = tid")
    case True
    with f j0 have "j = j0" by simp
    with True Some kj j0 assms show ?thesis by (simp add: mark_task_dispatched_def task_of_Some)
  next
    case False
    with Some kj f j0 show ?thesis
      by (auto simp: mark_task_dispatched_def task_of_Some hm_simps hm_get_set_task split: option.splits)
  qed
qed

lemma jobs_evolve_wf: "jobs_evolve c c' \<Longrightarrow> hm_wf (jc_jobs c) \<Longrightarrow> hm_wf (jc_jobs c')"
  by (simp add: jobs_evolve_def)

text \<open>
  C7. Dispatch never steals a running task: marking any list of tasks as handed to a worker leaves
  a task that runs on another worker exactly as it is.
\<close>

theorem running_never_stolen:
  assumes "hm_wf (jc_jobs c)" and "task_of c job tid = Some t" and "ti_state t = Running"
    and "ti_worker_id t \<noteq> w"
  shows "task_of (mark_tasks_dispatched tids w c) job tid = Some t"
  using assms(1,2)
proof (induction tids arbitrary: c)
  case Nil
  then show ?case by (simp add: mark_tasks_dispatched_def)
next
  case (Cons x tids)
  have b: "dispatch_blocked w t" using assms(3,4) by (simp add: dispatch_blocked_def)
  have "hm_wf (jc_jobs (mark_task_dispatched w x c))"
    using jobs_evolve_wf [OF mark_evolves [of c "[x]" w] Cons.prems(1)] by (simp add: mark_tasks_dispatched_def)
  with Cons.IH [OF _ mark_task_of [OF Cons.prems b]] show ?case by (simp add: mark_tasks_dispatched_def)
qed

lemma demo_task: "task_of (demo_jc ''RUNNING'') ''j'' ''j-p0-0'' =
    Some (info_of_dto (hd (jd_tasks (demo_dto ''RUNNING''))))"
  by (simp add: task_of_def demo_jc_job job_of_dto_def tasks_of_dto_def demo_dto_def hm_simps)

lemma demo_task_fields:
  "ti_state (info_of_dto (hd (jd_tasks (demo_dto ''RUNNING'')))) = Running"
  "ti_worker_id (info_of_dto (hd (jd_tasks (demo_dto ''RUNNING'')))) = ''w1''"
  by (simp_all add: demo_dto_def info_of_dto_def task_info_new_def job_state_from_def)

theorem running_never_stolen_witness:
  "task_of (mark_tasks_dispatched [''j-p0-0''] ''w2'' (demo_jc ''RUNNING'')) ''j'' ''j-p0-0'' =
     task_of (demo_jc ''RUNNING'') ''j'' ''j-p0-0''"
  using running_never_stolen [OF demo_jc_wf demo_task demo_task_fields(1), of "''w2''" "[''j-p0-0'']"]
    demo_task_fields(2) by (simp add: demo_task)

section \<open>Claims\<close>

lemma scan_tasks_mem:
  "(j, t) \<in> set (scan_tasks pj pt c) \<longleftrightarrow>
     j \<in> set (list_jobs c) \<and> pj j \<and> t \<in> set (hm_values (rj_tasks j)) \<and> pt t"
  by (auto simp: scan_tasks_def)

lemma map_filter_mem: "y \<in> set (List.map_filter f xs) \<longleftrightarrow> (\<exists>x \<in> set xs. f x = Some y)"
  by (auto simp: List.map_filter_def) (metis (mono_tags, lifting) mem_Collect_eq image_eqI option.sel option.simps(3))

text \<open>
  C23. The admission rule. Every task a worker's heartbeat may claim belongs to a job that is not
  over, the claimant is healthy, and the task is either not started yet and its own or an
  overloaded worker's, or it was started and its owner is dead; in particular a running task of a
  live worker is never claimable.
\<close>

theorem claims_follow_admission:
  assumes "d \<in> set (claim_tasks_for_worker w state c)"
  shows "state w = Healthy \<and>
    (\<exists>j t. j \<in> set (list_jobs c) \<and> \<not> is_terminal (rj_state j) \<and> t \<in> set (hm_values (rj_tasks j)) \<and>
       hm_get (jc_all_tasks c) (ti_task_id t) = Some d \<and>
       (ti_state t \<in> {Created, Scheduled} \<and> (ti_worker_id t = w \<or> state (ti_worker_id t) = Overloaded) \<or>
        ti_state t \<in> {Deploying, Running} \<and> state (ti_worker_id t) = Dead))"
proof -
  from assms have h: "state w = Healthy" by (auto simp: claim_tasks_for_worker_def split: if_splits)
  with assms obtain j t where jt: "(j, t) \<in> set (scan_tasks (\<lambda>j. \<not> is_terminal (rj_state j)) (claim_eligible w state) c)"
    and d: "hm_get (jc_all_tasks c) (ti_task_id t) = Some d"
    by (auto simp: claim_tasks_for_worker_def map_filter_mem split: option.splits if_splits)
  have "claim_eligible w state t" using jt by (simp add: scan_tasks_mem)
  then have "ti_state t \<in> {Created, Scheduled} \<and> (ti_worker_id t = w \<or> state (ti_worker_id t) = Overloaded) \<or>
      ti_state t \<in> {Deploying, Running} \<and> state (ti_worker_id t) = Dead"
    by (auto simp: claim_eligible_def Let_def split: job_state.splits)
  with h jt d show ?thesis by (auto simp: scan_tasks_mem)
qed

definition demo_fleet :: "string \<Rightarrow> worker_state" where
  "demo_fleet w = (if w = ''w1'' then Dead else Healthy)"

lemma demo_jc_tasks: "jc_all_tasks (demo_jc state) = [(''j-p0-0'', demo_desc)]"
  by (simp add: demo_jc_def install_job_def jc_new_def demo_desc_def hm_insert_def hm_empty_def)

lemma demo_claim: "claim_tasks_for_worker ''w2'' demo_fleet (demo_jc ''RUNNING'') = [demo_desc]"
  by (simp add: claim_tasks_for_worker_def demo_fleet_def scan_tasks_def list_jobs_def demo_jc_jobs
      hm_values_def job_of_dto_def demo_dto_def tasks_of_dto_def hm_insert_def hm_empty_def info_of_dto_def
      task_info_new_def job_state_from_def claim_eligible_def map_filter_simps demo_jc_tasks hm_get_def
      descriptor_claimable_def desc_worker_def demo_desc_def)

theorem claims_follow_admission_witness:
  "demo_fleet ''w2'' = Healthy \<and>
   (\<exists>j t. j \<in> set (list_jobs (demo_jc ''RUNNING'')) \<and> \<not> is_terminal (rj_state j) \<and>
      t \<in> set (hm_values (rj_tasks j)) \<and>
      hm_get (jc_all_tasks (demo_jc ''RUNNING'')) (ti_task_id t) = Some demo_desc)"
proof -
  have "demo_desc \<in> set (claim_tasks_for_worker ''w2'' demo_fleet (demo_jc ''RUNNING''))"
    by (simp add: demo_claim)
  from claims_follow_admission [OF this] show ?thesis by blast
qed

section \<open>Reports\<close>

lemma report_accepted:
  assumes "task_of c job tid = Some t" and "report_verdict w (job_state_from state) t = Accept_Report"
  shows "task_of (report_task_status_from now w job tid state records err c) job tid =
    Some (reported_task w (job_state_from state) records err t)"
proof -
  have tasks: "rj_tasks (roll_up now j) = rj_tasks j" for j
    by (auto simp: roll_up_def Let_def split: option.splits)
  from assms(1) obtain j where "hm_get (jc_jobs c) job = Some j" "hm_get (rj_tasks j) tid = Some t"
    by (auto simp: task_of_Some)
  with assms(2) show ?thesis
    by (simp add: report_task_status_from_def task_of_def hm_simps tasks hm_get_set_task)
qed

lemma queue_preemption_get:
  "hm_get (jc_preempt_outbox (queue_preemption w tid c)) w' =
     (if w' = w then Some (unwrap_or [] (hm_get (jc_preempt_outbox c) w) @ [tid])
      else hm_get (jc_preempt_outbox c) w')"
  by (simp add: queue_preemption_def push_entry_def hm_simps)



text \<open>
  The fencing has a hole while a task is being deployed: a RUNNING report from a worker that
  does not own a deploying task makes the reporter its owner, and the worker the task was really
  dispatched to is then fenced as the duplicate when it reports RUNNING itself.
\<close>

theorem running_report_steals_deploying:
  assumes "task_of c job tid = Some t" and "ti_state t = Deploying"
    and "w \<noteq> []" and "ti_worker_id t \<noteq> w" and "ti_worker_id t \<noteq> []"
    and "c' = report_task_status_from now w job tid ''RUNNING'' records err c"
  shows "\<exists>t'. task_of c' job tid = Some t' \<and> ti_state t' = Running \<and> ti_worker_id t' = w \<and>
    tid \<in> set (fst (drain_preemptions (ti_worker_id t)
      (report_task_status_from now' (ti_worker_id t) job tid ''RUNNING'' records' err' c')))"
proof -
  have r: "job_state_from ''RUNNING'' = Running" by (simp add: job_state_from_def)
  have "task_of c' job tid = Some (reported_task w Running records err t)"
    using report_accepted [OF assms(1), of w "''RUNNING''" now records err] assms(2,6) r
    by (simp add: report_verdict_def)
  moreover from this obtain j where "hm_get (jc_jobs c') job = Some j"
      "hm_get (rj_tasks j) tid = Some (reported_task w Running records err t)"
    by (auto simp: task_of_Some)
  ultimately show ?thesis
    using assms(3-5) r
    by (auto simp: report_task_status_from_def report_verdict_def reported_task_def
        drain_preemptions_def queue_preemption_get)
qed

theorem running_report_steals_deploying_witness:
  "\<exists>t'. task_of (report_task_status_from 9 ''w2'' ''j'' ''j-p0-0'' ''RUNNING'' 0 None (demo_jc ''DEPLOYING''))
      ''j'' ''j-p0-0'' = Some t' \<and> ti_worker_id t' = ''w2''"
proof -
  let ?t = "info_of_dto (hd (jd_tasks (demo_dto ''DEPLOYING'')))"
  have "task_of (demo_jc ''DEPLOYING'') ''j'' ''j-p0-0'' = Some ?t"
    by (simp add: task_of_def demo_jc_job job_of_dto_def tasks_of_dto_def demo_dto_def hm_simps)
  moreover have "ti_state ?t = Deploying" "ti_worker_id ?t = ''w1''"
    by (simp_all add: demo_dto_def info_of_dto_def task_info_new_def job_state_from_def)
  ultimately show ?thesis
    using running_report_steals_deploying [OF _ _ _ _ _ refl, of "demo_jc ''DEPLOYING''" "''j''" "''j-p0-0''" ?t
        "''w2''" 9 0 None 0 0 None] by auto
qed

section \<open>Unique ownership\<close>

lemma task_of_unique:
  assumes "registry_wf c" and "task_of c k tid = Some t" and "task_of c k' tid = Some t'"
  shows "k = k'"
proof -
  obtain j j' where "hm_get (jc_jobs c) k = Some j" "hm_get (rj_tasks j) tid = Some t"
      "hm_get (jc_jobs c) k' = Some j'" "hm_get (rj_tasks j') tid = Some t'"
    using assms(2,3) by (auto simp: task_of_Some)
  with assms(1) obtain p i p' i' where "tid = task_id k p i" "tid = task_id k' p' i'"
    unfolding registry_wf_def job_wf_def by metis
  with task_id_inj show ?thesis by blast
qed

lemma find_job_of:
  assumes "registry_wf c" and "task_of c job tid = Some t"
  obtains j where "find_job tid c = Some (job, j)" and "hm_get (jc_jobs c) job = Some j"
    and "hm_get (rj_tasks j) tid = Some t"
proof -
  obtain j0 where j0: "hm_get (jc_jobs c) job = Some j0" "hm_get (rj_tasks j0) tid = Some t"
    using assms(2) by (auto simp: task_of_Some)
  have wf: "hm_wf (jc_jobs c)" using assms(1) by (simp add: registry_wf_def)
  have "(job, j0) \<in> set (jc_jobs c)" using j0(1) by (simp add: hm_get_def map_of_SomeD)
  moreover have "hm_contains (rj_tasks j0) tid" using j0(2) by (simp add: hm_contains_def)
  ultimately have "find_job tid c \<noteq> None" by (auto simp: find_job_def find_None_iff)
  then obtain k j where f: "find_job tid c = Some (k, j)" by force
  note g = find_job_get [OF f wf]
  then obtain t' where "task_of c k tid = Some t'" by (auto simp: task_of_Some)
  with assms task_of_unique have "k = job" by blast
  with f g j0 that [of j] show ?thesis by simp
qed

text \<open>
  C25. The registry invariant: whatever commands a node applies, as long as the submitted plans have
  the planner's task ids, every job stays filed under its id with its own tasks under theirs, and
  no task id belongs to two jobs. The planner's own plans qualify.
\<close>

theorem registry_invariant:
  assumes "\<forall>(now, cmd) \<in> set log. \<forall>dto ds. cmd = SubmitJob dto ds \<longrightarrow>
    (planned dto \<or> (\<exists>ser t counts name config override workers.
       compile_plan_inner ser t counts (jd_job_id dto) name config override workers = Inr (dto, ds)))"
  shows "registry_wf (apply_log log jc_new) \<and>
    (\<forall>k k' tid t t'. task_of (apply_log log jc_new) k tid = Some t \<longrightarrow>
       task_of (apply_log log jc_new) k' tid = Some t' \<longrightarrow> k = k')"
proof -
  have "registry_wf (apply_log log c)" if "registry_wf c" for c
    using that assms
  proof (induction log arbitrary: c)
    case Nil
    then show ?case by (simp add: apply_log_def)
  next
    case (Cons e log)
    obtain now cmd where e: "e = (now, cmd)" by (cases e)
    have "registry_wf (snd (apply_command now cmd c))"
      by (rule apply_command_registry [OF Cons.prems(1)])
        (use Cons.prems(2) e compile_plan_planned in fastforce)
    with Cons.IH Cons.prems(2) e show ?case by (auto simp: apply_log_def)
  qed
  moreover have "registry_wf jc_new" by (simp add: registry_wf_def jc_new_def)
  ultimately have "registry_wf (apply_log log jc_new)" by blast
  with task_of_unique show ?thesis by blast
qed

lemma demo_planned: "planned (demo_dto state)"
proof -
  have "''j-p0-0'' = task_id ''j'' 0 0" by code_simp
  then show ?thesis by (auto simp: planned_def demo_dto_def)
qed

theorem registry_invariant_witness:
  "registry_wf (apply_log [(0, SubmitJob (demo_dto ''RUNNING'') [demo_desc]), (1, EvictWorker ''w1'')] jc_new)"
  using registry_invariant [of "[(0, SubmitJob (demo_dto ''RUNNING'') [demo_desc]), (1, EvictWorker ''w1'')]"]
    demo_planned by simp

section \<open>Failover\<close>

lemma evict_task_of:
  "task_of (evict_worker w c) job tid =
     Option.bind (hm_get (jc_jobs c) job) (\<lambda>j. map_option (evict_task w j) (hm_get (rj_tasks j) tid))"
  by (cases "hm_get (jc_jobs c) job") (simp_all add: task_of_def evict_worker_def hm_simps)

lemma hm_get_values: "hm_get m k = Some v \<Longrightarrow> v \<in> set (hm_values m)"
  by (force simp: hm_get_def hm_values_def dest: map_of_SomeD)

lemma claim_mem:
  assumes "hm_get (jc_jobs c) job = Some j" and "\<not> is_terminal (rj_state j)"
    and "hm_get (rj_tasks j) tid = Some t" and "ti_task_id t = tid" and "hm_get (jc_all_tasks c) tid = Some d"
    and "state w = Healthy" and "claim_eligible w state t" and "descriptor_claimable w state d"
  shows "d \<in> set (claim_tasks_for_worker w state c)"
proof -
  have "(j, t) \<in> set (scan_tasks (\<lambda>j. \<not> is_terminal (rj_state j)) (claim_eligible w state) c)"
    using assms by (auto simp: scan_tasks_mem list_jobs_def intro: hm_get_values)
  then show ?thesis
    using assms by (auto simp: claim_tasks_for_worker_def map_filter_mem intro!: bexI [of _ "(j, t)"])
qed

lemma mark_task_of_same:
  assumes "registry_wf c" and "task_of c job tid = Some t" and "\<not> dispatch_blocked w t"
  shows "task_of (mark_task_dispatched w tid c) job tid = Some (t\<lparr>ti_state := Deploying, ti_worker_id := w\<rparr>)"
    and "hm_get (jc_all_tasks (mark_task_dispatched w tid c)) tid =
      map_option (\<lambda>d. d\<lparr>td_config := hm_insert ''worker_id'' w (td_config d)\<rparr>) (hm_get (jc_all_tasks c) tid)"
proof -
  obtain j where "find_job tid c = Some (job, j)" "hm_get (jc_jobs c) job = Some j"
      "hm_get (rj_tasks j) tid = Some t"
    using find_job_of [OF assms(1,2)] .
  with assms(3) show "task_of (mark_task_dispatched w tid c) job tid =
      Some (t\<lparr>ti_state := Deploying, ti_worker_id := w\<rparr>)"
    and "hm_get (jc_all_tasks (mark_task_dispatched w tid c)) tid =
      map_option (\<lambda>d. d\<lparr>td_config := hm_insert ''worker_id'' w (td_config d)\<rparr>) (hm_get (jc_all_tasks c) tid)"
    by (auto simp: mark_task_dispatched_def task_of_Some hm_simps hm_get_set_task)
qed

text \<open>
  Failover. Take a task running on a worker that died, with its descriptor placed there. Once
  the worker is evicted, the task can be claimed by any healthy worker, and dispatching it there
  makes that worker the owner in the job and in the descriptor. Without the eviction the same
  dispatch changes nothing.
\<close>

theorem failover_reassigns:
  assumes "registry_wf c" and "hm_get (jc_jobs c) job = Some j" and "\<not> is_terminal (rj_state j)"
    and "hm_get (rj_tasks j) tid = Some t" and "ti_state t = Running" and "ti_worker_id t = w"
    and "hm_get (jc_all_tasks c) tid = Some d" and "desc_worker d = Some w"
    and "state w = Dead" and "state w' = Healthy"
  shows "d \<in> set (claim_tasks_for_worker w' state (evict_worker w c)) \<and>
    task_owned_by tid w' (mark_tasks_dispatched [tid] w' (evict_worker w c)) \<and>
    Option.bind (hm_get (jc_all_tasks (mark_tasks_dispatched [tid] w' (evict_worker w c))) tid) desc_worker =
      Some w' \<and>
    task_of (mark_tasks_dispatched [tid] w' c) job tid = Some t"
proof -
  let ?c = "evict_worker w c"
  have ne: "w \<noteq> w'" using assms(9,10) by auto
  have id: "ti_task_id t = tid" using assms(1,2,4) by (auto simp: registry_wf_def job_wf_def)
  have r: "registry_wf ?c" by (rule jobs_evolve_registry [OF evict_evolves assms(1)])
  have e: "hm_get (jc_jobs ?c) job = Some (j\<lparr>rj_tasks := hm_map_values (evict_task w j) (rj_tasks j)\<rparr>)"
    using assms(2) by (simp add: evict_worker_def hm_simps)
  have et: "evict_task w j t = t\<lparr>ti_state := Deploying\<rparr>"
    using assms(3,5,6) by (simp add: evict_task_def on_worker_def)
  have t: "task_of ?c job tid = Some (t\<lparr>ti_state := Deploying\<rparr>)"
    using assms(2,4) et by (simp add: evict_task_of)
  have all: "jc_all_tasks ?c = jc_all_tasks c" by (simp add: evict_worker_def)
  have "d \<in> set (claim_tasks_for_worker w' state ?c)"
    using assms e et id
    by (intro claim_mem [OF e, where tid = tid and t = "t\<lparr>ti_state := Deploying\<rparr>"])
      (simp_all add: hm_simps all claim_eligible_def descriptor_claimable_def)
  moreover have m: "mark_tasks_dispatched [tid] w' c' = mark_task_dispatched w' tid c'" for c'
    by (simp add: mark_tasks_dispatched_def)
  note mt = mark_task_of_same [OF r t, of w']
  have b: "\<not> dispatch_blocked w' (t\<lparr>ti_state := Deploying\<rparr>)" by (simp add: dispatch_blocked_def)
  have "task_owned_by tid w' (mark_task_dispatched w' tid ?c)"
    using mt(1) [OF b] unfolding task_of_Some task_owned_by_def list_jobs_def
    by (auto intro!: bexI [OF _ hm_get_values] simp: on_worker_def)
  moreover have "Option.bind (hm_get (jc_all_tasks (mark_task_dispatched w' tid ?c)) tid) desc_worker = Some w'"
    using mt(2) [OF b] assms(7) by (simp add: all desc_worker_def hm_simps)
  moreover have "task_of (mark_task_dispatched w' tid c) job tid = Some t"
    using assms ne by (intro mark_task_of) (auto simp: registry_wf_def task_of_Some dispatch_blocked_def)
  ultimately show ?thesis unfolding m by blast
qed

lemma demo_registry: "registry_wf (demo_jc state)"
  using job_of_dto_wf [OF demo_planned, of state]
  by (auto simp: registry_wf_def demo_jc_jobs hm_wf_def hm_get_def demo_dto_def split: if_splits)

lemma demo_job_task:
  "hm_get (rj_tasks (job_of_dto (demo_dto state))) ''j-p0-0'' = Some (info_of_dto (hd (jd_tasks (demo_dto state))))"
  by (simp add: job_of_dto_def tasks_of_dto_def demo_dto_def hm_simps)

theorem failover_reassigns_witness:
  "task_owned_by ''j-p0-0'' ''w2''
     (mark_tasks_dispatched [''j-p0-0''] ''w2'' (evict_worker ''w1'' (demo_jc ''RUNNING'')))"
  using failover_reassigns [OF demo_registry demo_jc_job _ demo_job_task demo_task_fields, of demo_desc demo_fleet "''w2''"]
  by (simp add: job_of_dto_def demo_dto_def job_state_from_def demo_jc_tasks hm_get_def desc_worker_def
      demo_desc_def demo_fleet_def)

lemma release_task_of:
  assumes "registry_wf c" and "task_of c job tid = Some t" and "hm_get (jc_jobs c) job = Some j"
  shows "task_of (release_lost_task w tid' c) job tid =
    Some (if tid' = tid \<and> ti_worker_id t = w \<and> on_worker t \<and> \<not> is_terminal (rj_state j)
          then t\<lparr>ti_state := Scheduled\<rparr> else t)"
proof (cases "tid' = tid")
  case True
  obtain j' where "find_job tid c = Some (job, j')" "hm_get (jc_jobs c) job = Some j'"
      "hm_get (rj_tasks j') tid = Some t"
    using find_job_of [OF assms(1,2)] .
  with True assms(3) show ?thesis
    by (auto simp: release_lost_task_def with_task_def task_of_Some hm_simps hm_get_set_task)
next
  case False
  show ?thesis
  proof (cases "find_job tid' c")
    case None
    with False assms show ?thesis by (simp add: release_lost_task_def with_task_def)
  next
    case (Some kj)
    obtain k j' where kj: "kj = (k, j')" by (cases kj)
    have "hm_get (jc_jobs c) k = Some j'"
      using find_job_get [OF Some [unfolded kj]] assms(1) by (simp add: registry_wf_def)
    with Some kj False assms show ?thesis
      by (auto simp: release_lost_task_def with_task_def task_of_Some hm_simps hm_get_set_task split: option.splits)
  qed
qed

lemma release_job_state:
  assumes "registry_wf c" and "hm_get (jc_jobs c) job = Some j"
  shows "\<exists>j'. hm_get (jc_jobs (release_lost_task w tid c)) job = Some j' \<and> rj_state j' = rj_state j"
    and "jc_all_tasks (release_lost_task w tid c) = jc_all_tasks c"
    and "registry_wf (release_lost_task w tid c)"
proof -
  show "registry_wf (release_lost_task w tid c)"
    using jobs_evolve_registry [OF release_evolves [of c w "[tid]"] assms(1)] by (simp add: release_lost_tasks_def)
  have wf: "hm_wf (jc_jobs c)" using assms(1) by (simp add: registry_wf_def)
  show "\<exists>j'. hm_get (jc_jobs (release_lost_task w tid c)) job = Some j' \<and> rj_state j' = rj_state j"
    using assms(2) find_job_get(1) [OF _ wf, of tid]
    by (fastforce simp: release_lost_task_def with_task_def hm_simps split: option.splits)
  show "jc_all_tasks (release_lost_task w tid c) = jc_all_tasks c"
    by (auto simp: release_lost_task_def with_task_def split: option.splits)
qed

lemma release_all:
  assumes "registry_wf c" and "hm_get (jc_jobs c) job = Some j" and "task_of c job tid = Some t"
  shows "task_of (release_lost_tasks w tids c) job tid =
      Some (if tid \<in> set tids \<and> ti_worker_id t = w \<and> on_worker t \<and> \<not> is_terminal (rj_state j)
            then t\<lparr>ti_state := Scheduled\<rparr> else t) \<and>
    (\<exists>j'. hm_get (jc_jobs (release_lost_tasks w tids c)) job = Some j' \<and> rj_state j' = rj_state j) \<and>
    jc_all_tasks (release_lost_tasks w tids c) = jc_all_tasks c"
  using assms
proof (induction tids arbitrary: c j t)
  case Nil
  then show ?case by (simp add: release_lost_tasks_def)
next
  case (Cons x tids)
  let ?c = "release_lost_task w x c"
  obtain j' where j': "hm_get (jc_jobs ?c) job = Some j'" "rj_state j' = rj_state j"
    using release_job_state(1) [OF Cons.prems(1,2)] by blast
  note ih = Cons.IH [OF release_job_state(3) [OF Cons.prems(1,2)] j'(1)
      release_task_of [OF Cons.prems(1,3,2), of w x]]
  have step: "release_lost_tasks w (x # tids) c = release_lost_tasks w tids ?c"
    by (simp add: release_lost_tasks_def)
  show ?case
    unfolding step using ih j'(2) release_job_state(2) [OF Cons.prems(1,2), of w x]
    by (auto simp: on_worker_def)
qed

text \<open>
  Restart recovery. When a worker registers again without some of the tasks the coordinator has
  on it, releasing the tasks that the reconciliation lists puts each of them back to SCHEDULED under
  the same owner, where that worker, once healthy, can claim it again; tasks of other workers and
  tasks it does report are left alone.
\<close>

theorem restart_releases_lost_tasks:
  assumes "registry_wf c" and "hm_get (jc_jobs c) job = Some j" and "hm_get (rj_tasks j) tid = Some t"
    and "hm_get (jc_all_tasks c) tid = Some d" and "desc_worker d = Some w" and "state w = Healthy"
    and "c' = release_lost_tasks w (map st_task_id (reconcile_lost_active_tasks w running c)) c"
  shows "(if ti_worker_id t = w \<and> on_worker t \<and> \<not> is_terminal (rj_state j) \<and> tid \<notin> set running
      then task_of c' job tid = Some (t\<lparr>ti_state := Scheduled\<rparr>) \<and> d \<in> set (claim_tasks_for_worker w state c')
      else task_of c' job tid = Some t)"
proof -
  let ?tids = "map st_task_id (reconcile_lost_active_tasks w running c)"
  have id: "ti_task_id t = tid" using assms(1-3) by (auto simp: registry_wf_def job_wf_def)
  have t: "task_of c job tid = Some t" using assms(2,3) by (simp add: task_of_Some)
  note r = release_all [OF assms(1,2) t, of w ?tids, folded assms(7)]
  have listed: "tid \<in> set ?tids"
    if "ti_worker_id t = w \<and> on_worker t \<and> \<not> is_terminal (rj_state j) \<and> tid \<notin> set running"
  proof -
    have "(j, t) \<in> set (scan_tasks (\<lambda>j. \<not> is_terminal (rj_state j))
        (\<lambda>t. on_worker t \<and> ti_worker_id t = w \<and> ti_task_id t \<notin> set running) c)"
      using that assms(2,3) id by (auto simp: scan_tasks_mem list_jobs_def intro: hm_get_values)
    then show ?thesis
      using id by (force simp: reconcile_lost_active_tasks_def stuck_of_def)
  qed
  have reported: "tid \<notin> set ?tids" if "tid \<in> set running"
    using that by (auto simp: reconcile_lost_active_tasks_def stuck_of_def scan_tasks_mem)
  obtain j' where j': "hm_get (jc_jobs c') job = Some j'" "rj_state j' = rj_state j" using r by blast
  show ?thesis
  proof (cases "ti_worker_id t = w \<and> on_worker t \<and> \<not> is_terminal (rj_state j) \<and> tid \<notin> set running")
    case True
    then have t': "task_of c' job tid = Some (t\<lparr>ti_state := Scheduled\<rparr>)" using r listed by auto
    then have "hm_get (rj_tasks j') tid = Some (t\<lparr>ti_state := Scheduled\<rparr>)" using j'(1) by (simp add: task_of_Some)
    then have "d \<in> set (claim_tasks_for_worker w state c')"
      using True j' id assms(4-6) r
      by (intro claim_mem [OF j'(1), where tid = tid and t = "t\<lparr>ti_state := Scheduled\<rparr>"])
        (simp_all add: claim_eligible_def descriptor_claimable_def)
    with True t' show ?thesis by simp
  next
    case False
    with r reported show ?thesis by auto
  qed
qed

theorem restart_releases_lost_tasks_witness:
  "demo_desc \<in> set (claim_tasks_for_worker ''w1'' (\<lambda>_. Healthy)
     (release_lost_tasks ''w1'' (map st_task_id (reconcile_lost_active_tasks ''w1'' [] (demo_jc ''RUNNING'')))
       (demo_jc ''RUNNING'')))"
  using restart_releases_lost_tasks [OF demo_registry demo_jc_job demo_job_task _ _ _ refl,
      of "''RUNNING''" demo_desc "''w1''" "\<lambda>_. Healthy" "[]"] demo_task_fields
  by (simp add: demo_jc_tasks hm_get_def desc_worker_def demo_desc_def on_worker_def job_of_dto_def demo_dto_def
      job_state_from_def)

end
