(* ===== verification/Coordinator_Checkpoints.thy ===== *)
theory Coordinator_Checkpoints
  imports Coordinator_Ownership
begin

text \<open>
  Coordinated checkpoints: when the coordinator decides a checkpoint, what the workers are told, and
  how ids move. A restart of a job under its id is the case where they go back.
\<close>

section \<open>Deciding a checkpoint\<close>

type_synonym prepare = "string \<times> nat \<times> bool"

definition note_prepares :: "string \<Rightarrow> prepare list \<Rightarrow> coordinator \<Rightarrow> coordinator" where
  "note_prepares job events c =
     fold (\<lambda>(tid, i, ok) s. snd (note_checkpoint_prepare job tid i ok s)) events c"

lemma note_prepare_frame [simp]: "jc_jobs (snd (note_checkpoint_prepare job tid i ok c)) = jc_jobs c"
  by (auto simp: note_checkpoint_prepare_def Let_def split: option.splits)

lemma note_prepare_pending:
  assumes "hm_get (jc_jobs c) job = Some j" and "hm_get (jc_pending c) (job, stage) = Some cp"
  shows "hm_get (jc_pending (snd (note_checkpoint_prepare job tid i ok c))) (job, stage) =
    Some (if ok \<and> i = pc_checkpoint_id cp \<and> (\<exists>t. hm_get (rj_tasks j) tid = Some t \<and> ti_stage_id t = stage)
          then cp\<lparr>pc_awaiting := filter (\<lambda>x. x \<noteq> tid) (pc_awaiting cp)\<rparr> else cp)"
proof (cases "hm_get (rj_tasks j) tid")
  case None
  with assms show ?thesis by (simp add: note_checkpoint_prepare_def)
next
  case (Some t)
  show ?thesis
  proof (cases "ti_stage_id t = stage")
    case True
    with Some assms show ?thesis by (simp add: note_checkpoint_prepare_def Let_def hm_simps)
  next
    case False
    with Some assms show ?thesis
      by (auto simp: note_checkpoint_prepare_def Let_def hm_simps split: option.splits)
  qed
qed

text \<open>The participants that have not prepared yet, after a list of prepares.\<close>

definition unprepared :: "running_job \<Rightarrow> string \<Rightarrow> nat \<Rightarrow> prepare list \<Rightarrow> string list \<Rightarrow> string list" where
  "unprepared j stage i events tids =
     filter (\<lambda>x. (x, i, True) \<notin> set events \<or>
       \<not> (\<exists>t. hm_get (rj_tasks j) x = Some t \<and> ti_stage_id t = stage)) tids"

lemma unprepared_step:
  "unprepared j stage i events
     (if ok \<and> i' = i \<and> (\<exists>t. hm_get (rj_tasks j) tid = Some t \<and> ti_stage_id t = stage)
      then filter (\<lambda>x. x \<noteq> tid) aw else aw) =
   unprepared j stage i ((tid, i', ok) # events) aw"
proof (cases "ok \<and> i' = i \<and> (\<exists>t. hm_get (rj_tasks j) tid = Some t \<and> ti_stage_id t = stage)")
  case True
  then have "filter P (filter (\<lambda>x. x \<noteq> tid) aw) = filter (\<lambda>x. x \<noteq> tid \<and> P x) aw" for P
    by (simp add: conj_commute)
  with True show ?thesis by (auto simp: unprepared_def intro!: filter_cong)
next
  case False
  show ?thesis
    unfolding unprepared_def if_not_P [OF False]
    by (rule filter_cong [OF refl]) (use False in auto)
qed

lemma note_prepares_pending:
  assumes "hm_get (jc_jobs c) job = Some j" and "hm_get (jc_pending c) (job, stage) = Some cp"
  shows "hm_get (jc_pending (note_prepares job events c)) (job, stage) =
      Some (cp\<lparr>pc_awaiting := unprepared j stage (pc_checkpoint_id cp) events (pc_awaiting cp)\<rparr>) \<and>
    jc_jobs (note_prepares job events c) = jc_jobs c"
  using assms
proof (induction events arbitrary: c cp)
  case Nil
  then show ?case by (simp add: note_prepares_def unprepared_def)
next
  case (Cons e events)
  obtain tid i ok where e: "e = (tid, i, ok)" by (cases e)
  let ?c = "snd (note_checkpoint_prepare job tid i ok c)"
  note p = note_prepare_pending [OF Cons.prems, of tid i ok]
  have "hm_get (jc_pending (note_prepares job events ?c)) (job, stage) =
      Some (cp\<lparr>pc_awaiting := unprepared j stage (pc_checkpoint_id cp) (e # events) (pc_awaiting cp)\<rparr>) \<and>
      jc_jobs (note_prepares job events ?c) = jc_jobs c"
    using Cons.IH [OF _ p] Cons.prems(1) unfolding e unprepared_step [symmetric]
    by (auto split: if_splits)
  then show ?case by (simp add: note_prepares_def e)
qed

lemma triggered_pending:
  assumes "hm_get (jc_jobs c) job = Some j" and "rj_state j = Running"
    and "apply_checkpoint_triggered job stage at_ms c = (i, c')"
  shows "i = rj_next_checkpoint_id j" and "\<exists>j'. hm_get (jc_jobs c') job = Some j' \<and> rj_tasks j' = rj_tasks j \<and>
      rj_next_checkpoint_id j' = sat_add_u64 i 1"
    and "hm_get (jc_pending c') (job, stage) =
      Some \<lparr>pc_checkpoint_id = i, pc_stage_id = stage, pc_triggered_at_ms = at_ms,
        pc_participants = stage_participants stage j, pc_delivered = [],
        pc_awaiting = hm_keys (stage_participants stage j)\<rparr>"
  using assms by (auto simp: apply_checkpoint_triggered_def Let_def hm_simps)

lemma stage_participants_keys:
  assumes "job_wf k j" and "x \<in> set (hm_keys (stage_participants stage j))"
  shows "\<exists>t. hm_get (rj_tasks j) x = Some t \<and> ti_stage_id t = stage \<and> ti_state t = Running"
proof -
  have "set (hm_keys (fold (\<lambda>t. hm_insert (ti_task_id t) (ti_worker_id t)) ts m)) =
      ti_task_id ` set ts \<union> set (hm_keys m)" for ts :: "task_info list" and m
    by (induction ts arbitrary: m) (auto simp: hm_keys_insert)
  with assms(2) obtain t where t: "t \<in> set (hm_values (rj_tasks j))" "ti_state t = Running"
      "ti_stage_id t = stage" "x = ti_task_id t"
    by (auto simp: stage_participants_def hm_keys_def hm_empty_def)
  from t(1) obtain tid where "(tid, t) \<in> set (rj_tasks j)" by (auto simp: hm_values_def)
  with assms(1) have "hm_get (rj_tasks j) tid = Some t" by (simp add: job_wf_def hm_get_in_set)
  with assms(1) t show ?thesis by (auto simp: job_wf_def)
qed

text \<open>
  C8. All-or-nothing decision. After a checkpoint of a stage is triggered and any prepares of the
  job's tasks were noted, one more prepare with its id decides the checkpoint as complete exactly
  when every participant (every task of the stage running at the trigger) has now prepared it
  successfully, and then for exactly those participants; a failed prepare decides it as aborted.
\<close>

theorem checkpoint_decision:
  assumes "registry_wf c" and "hm_get (jc_jobs c) job = Some j" and "rj_state j = Running"
    and "apply_checkpoint_triggered job stage at_ms c = (i, c')"
    and "hm_get (rj_tasks j) tid = Some t" and "ti_stage_id t = stage"
  shows "fst (note_checkpoint_prepare job tid i True (note_prepares job events c')) =
      (if \<forall>p \<in> set (hm_keys (stage_participants stage j)). p = tid \<or> (p, i, True) \<in> set events
       then Some (stage, True, stage_participants stage j) else None) \<and>
    fst (note_checkpoint_prepare job tid i False (note_prepares job events c')) =
      Some (stage, False, stage_participants stage j)"
proof -
  note tr = triggered_pending [OF assms(2-4)]
  obtain j' where j': "hm_get (jc_jobs c') job = Some j'" "rj_tasks j' = rj_tasks j" using tr(2) by blast
  let ?c = "note_prepares job events c'" and ?ps = "stage_participants stage j"
  note np = note_prepares_pending [OF j'(1) tr(3), of events]
  have jobs: "hm_get (jc_jobs ?c) job = Some j'" using np j'(1) by simp
  have wf: "job_wf job j" using assms(1,2) by (simp add: registry_wf_def)
  have "filter (\<lambda>x. x \<noteq> tid) (unprepared j' stage i events (hm_keys ?ps)) = [] \<longleftrightarrow>
      (\<forall>p \<in> set (hm_keys ?ps). p = tid \<or> (p, i, True) \<in> set events)"
    using stage_participants_keys [OF wf, of _ stage] j'(2)
    by (auto simp: filter_empty_conv unprepared_def)
  with np jobs assms(5,6) j'(2) show ?thesis
    by (simp add: note_checkpoint_prepare_def Let_def)
qed

lemma demo_running: "rj_state (job_of_dto (demo_dto ''RUNNING'')) = Running"
  by (simp add: job_of_dto_def demo_dto_def job_state_from_def)

lemma demo_participants:
  "stage_participants ''j-p0'' (job_of_dto (demo_dto ''RUNNING'')) = [(''j-p0-0'', ''w1'')]"
  by (simp add: stage_participants_def job_of_dto_def tasks_of_dto_def demo_dto_def info_of_dto_def
      task_info_new_def job_state_from_def hm_values_def hm_insert_def hm_empty_def)

theorem checkpoint_decision_witness:
  "fst (note_checkpoint_prepare ''j'' ''j-p0-0'' 4 True
     (snd (apply_checkpoint_triggered ''j'' ''j-p0'' 100 (demo_jc ''RUNNING'')))) =
     Some (''j-p0'', True, [(''j-p0-0'', ''w1'')])"
proof -
  have tr: "apply_checkpoint_triggered ''j'' ''j-p0'' 100 (demo_jc ''RUNNING'') =
      (4, snd (apply_checkpoint_triggered ''j'' ''j-p0'' 100 (demo_jc ''RUNNING'')))"
    using demo_running demo_jc_job [of "''RUNNING''"]
    by (simp add: apply_checkpoint_triggered_def Let_def) (simp add: job_of_dto_def demo_dto_def)
  have "ti_stage_id (info_of_dto (hd (jd_tasks (demo_dto ''RUNNING'')))) = ''j-p0''"
    by (simp add: demo_dto_def info_of_dto_def task_info_new_def)
  from checkpoint_decision [OF demo_registry demo_jc_job demo_running tr demo_job_task this, of "[]"]
  show ?thesis by (simp add: note_prepares_def demo_participants hm_keys_def)
qed

section \<open>Telling the workers\<close>

lemma push_entry_get:
  "hm_get (push_entry k x m) k' = (if k' = k then Some (unwrap_or [] (hm_get m k) @ [x]) else hm_get m k')"
  by (simp add: push_entry_def hm_simps)

lemma push_resolutions_get:
  "unwrap_or [] (hm_get (fold (push_resolution i completed) ps m) w) =
     unwrap_or [] (hm_get m w) @
       map (\<lambda>(tid, _). \<lparr>cr_task_id = tid, cr_checkpoint_id = i, cr_completed = completed\<rparr>)
         (filter (\<lambda>(_, v). v = w) ps)"
  by (induction ps arbitrary: m) (auto simp: push_resolution_def push_entry_get)

text \<open>
  Resolutions reach their workers. When a checkpoint is resolved, every worker finds at its
  next heartbeat one resolution per participant it owns, with the id and the outcome, after the ones
  already queued and in participant order; collecting them empties its queue and no other. The
  checkpoint is no longer in flight, and the completed count moves only on completion.
\<close>

theorem resolutions_delivered:
  "let c' = apply_checkpoint_resolved job stage i completed ps c in
   fst (drain_checkpoint_resolutions w c') =
     fst (drain_checkpoint_resolutions w c) @
       map (\<lambda>(tid, _). \<lparr>cr_task_id = tid, cr_checkpoint_id = i, cr_completed = completed\<rparr>)
         (filter (\<lambda>(_, v). v = w) ps) \<and>
   fst (drain_checkpoint_resolutions w (snd (drain_checkpoint_resolutions w c'))) = [] \<and>
   (v \<noteq> w \<longrightarrow> fst (drain_checkpoint_resolutions v (snd (drain_checkpoint_resolutions w c'))) =
     fst (drain_checkpoint_resolutions v c')) \<and>
   hm_get (jc_pending c') (job, stage) = None \<and>
   map_option rj_checkpoints_completed (hm_get (jc_jobs c') job) =
     map_option (\<lambda>j. rj_checkpoints_completed j + (if completed then 1 else 0)) (hm_get (jc_jobs c) job)"
proof -
  have "rj_checkpoints_completed (fold (\<lambda>(tid, _). note_completed i tid) ps j) = rj_checkpoints_completed j" for j
    by (induction ps arbitrary: j) (auto simp: note_completed_def)
  then show ?thesis
    by (cases "hm_get (jc_jobs c) job")
      (simp_all add: Let_def drain_checkpoint_resolutions_def apply_checkpoint_resolved_def
        push_resolutions_get hm_simps)
qed

theorem resolutions_delivered_witness:
  "fst (drain_checkpoint_resolutions ''w1''
     (apply_checkpoint_resolved ''j'' ''j-p0'' 4 True [(''j-p0-0'', ''w1'')] (demo_jc ''RUNNING''))) =
     fst (drain_checkpoint_resolutions ''w1'' (demo_jc ''RUNNING'')) @
       [\<lparr>cr_task_id = ''j-p0-0'', cr_checkpoint_id = 4, cr_completed = True\<rparr>]"
  using resolutions_delivered [of "''j''" "''j-p0''" 4 True "[(''j-p0-0'', ''w1'')]" "demo_jc ''RUNNING''" "''w1''" "''w2''"]
  by (simp add: Let_def)

section \<open>Checkpoint ids\<close>

text \<open>
  C26. Checkpoint ids increase. Two checkpoints triggered one after the other on a running job, for
  the same or for different stages, with any commands in between that do not resubmit or drop the
  job, carry strictly increasing ids.
\<close>

theorem trigger_ids_increase:
  assumes "hm_wf (jc_jobs c)" and "hm_get (jc_jobs c) job = Some j" and "rj_state j = Running"
    and "rj_next_checkpoint_id j < u64_max"
    and "apply_checkpoint_triggered job stage at_ms c = (i, c1)"
    and "\<forall>(now, cmd) \<in> set log. \<not> replaces job cmd"
    and "hm_get (jc_jobs (apply_log log c1)) job = Some j2" and "rj_state j2 = Running"
  shows "i < fst (apply_checkpoint_triggered job stage' at_ms' (apply_log log c1))"
proof -
  note tr = triggered_pending [OF assms(2,3,5)]
  then obtain j1 where j1: "hm_get (jc_jobs c1) job = Some j1" "rj_next_checkpoint_id j1 = i + 1"
    using assms(4) by (auto simp: sat_add_u64_def)
  have "hm_wf (jc_jobs c1)"
    using jobs_evolve_wf [OF triggered_evolves [of c job stage at_ms] assms(1)] assms(5) by simp
  with apply_log_kept [OF assms(6), of c1] j1(1) assms(7) have "job_evolves j1 j2"
    by (simp add: job_kept_def)
  with j1(2) tr(1) assms(4) have "i + 1 \<le> rj_next_checkpoint_id j2" by (auto simp: job_evolves_def)
  with assms(7,8) show ?thesis by (simp add: apply_checkpoint_triggered_def Let_def)
qed

theorem trigger_ids_increase_witness:
  "4 < fst (apply_checkpoint_triggered ''j'' ''j-p0'' 200 (apply_log []
     (snd (apply_checkpoint_triggered ''j'' ''j-p0'' 100 (demo_jc ''RUNNING'')))))"
proof -
  let ?j = "job_of_dto (demo_dto ''RUNNING'')"
  let ?j2 = "?j\<lparr>rj_next_checkpoint_id := 5, rj_last_checkpoint_trigger_ms := 100\<rparr>"
  have n: "rj_next_checkpoint_id ?j = 4" by (simp add: job_of_dto_def demo_dto_def)
  have tr: "apply_checkpoint_triggered ''j'' ''j-p0'' 100 (demo_jc ''RUNNING'') =
      (4, snd (apply_checkpoint_triggered ''j'' ''j-p0'' 100 (demo_jc ''RUNNING'')))"
    using demo_running n demo_jc_job [of "''RUNNING''"] by (simp add: apply_checkpoint_triggered_def Let_def)
  have "hm_get (jc_jobs (apply_log [] (snd (apply_checkpoint_triggered ''j'' ''j-p0'' 100 (demo_jc ''RUNNING''))))) ''j''
      = Some ?j2"
    using demo_running n demo_jc_job [of "''RUNNING''"]
    by (simp add: apply_checkpoint_triggered_def Let_def apply_log_def hm_simps sat_add_u64_def u64_max_def)
  from trigger_ids_increase [OF demo_jc_wf demo_jc_job demo_running _ tr _ this]
  show ?thesis using n demo_running by (simp add: u64_max_def)
qed

text \<open>
  Restarting a job under its id rewinds its checkpoint ids. The plan a restart submits starts
  the counter at 1 again, whatever ids the job had reached. While the checkpoint store still holds a
  full window of snapshots of the job's earlier run, the first snapshot of the new run is dropped by
  its own save and a restore still returns the newest snapshot of the earlier run.
\<close>

theorem restart_rewinds_checkpoint_ids:
  assumes "compile_plan_inner ser now counts job job_name config override workers = Inr (dto, ts)"
    and "ms_inv (max retained 1) s" and "max retained 1 \<le> card (dom (ms_lookup (job, tid) s))"
    and "\<forall>i \<in> dom (ms_lookup (job, tid) s). 1 < i"
  shows "(\<exists>j. hm_get (jc_jobs (install_job dto ts c)) job = Some j \<and> rj_next_checkpoint_id j = 1) \<and>
    ms_lookup (job, tid) (ms_save job tid 1 data s) 1 = None \<and>
    ms_load_latest job tid (ms_save job tid 1 data s) = ms_load_latest job tid s"
proof (intro conjI)
  have "jd_job_id dto = job" "jd_next_checkpoint_id dto = 1"
    using assms(1) by (auto simp: compile_plan_inner_def Let_def bindr_Inr_iff split: if_splits)
  then show "\<exists>j. hm_get (jc_jobs (install_job dto ts c)) job = Some j \<and> rj_next_checkpoint_id j = 1"
    by (simp add: install_job_def job_of_dto_def hm_simps)
  show "ms_lookup (job, tid) (ms_save job tid 1 data s) 1 = None"
    using master_store.stale_save_dropped [OF assms(2) TrueI assms(3)] assms(4) by blast
  show "ms_load_latest job tid (ms_save job tid 1 data s) = ms_load_latest job tid s"
    using master_store.stale_save_latest [OF assms(2) TrueI assms(3)] assms(4) by blast
qed

definition demo_store :: master_store where
  "demo_store = ms_saves [(''j'', ''j-p0-0'', 50, [5]), (''j'', ''j-p0-0'', 51, [6])] (ms_new 2)"

theorem restart_rewinds_checkpoint_ids_witness:
  "ms_load_latest ''j'' ''j-p0-0'' (ms_save ''j'' ''j-p0-0'' 1 [9] demo_store) = Some (51, [6])"
proof -
  obtain dto ts where p: "demo_plan = Inr (dto, ts)" using demo_plan_ok by blast
  have e: "ms_entries (''j'', ''j-p0-0'') demo_store = [(50, [5]), (51, [6])]"
    by (simp add: demo_store_def ms_saves_def ms_save_def ms_new_def ms_entries_def ms_update_def hm_simps)
  have l: "ms_lookup (''j'', ''j-p0-0'') demo_store = [50 \<mapsto> [5], 51 \<mapsto> [6]]"
    by (simp add: ms_lookup_def e fun_upd_twist)
  have inv: "ms_inv (max 2 1) demo_store" unfolding demo_store_def by (rule ms_inv_saves [OF ms_inv_new])
  have "ms_load_latest ''j'' ''j-p0-0'' demo_store = Some (51, [6])"
    using e by (auto simp: ms_load_latest_def ms_entries_def split: option.splits)
  with restart_rewinds_checkpoint_ids [OF p [unfolded demo_plan_def] inv, of "''j-p0-0''" jc_new "[9]"]
  show ?thesis by (simp add: l)
qed

end
