(* ===== verification/Coordinator_Replication.thy ===== *)
theory Coordinator_Replication
  imports Coordinator_Checkpoints
begin

text \<open>
  Replication of the coordinator: what a snapshot carries over to the node that installs it, and
  how far replaying the same commands gives the same state on every node.
\<close>

section \<open>Snapshots\<close>

text \<open>What a snapshot keeps of a task and of a job: everything but the volatile bookkeeping and the
  reason of a failure.\<close>

definition snap_task :: "task_info \<Rightarrow> task_info" where
  "snap_task t =
     (task_info_new (ti_task_id t) (ti_stage_id t) (ti_worker_id t))
       \<lparr>ti_state := wire_state (ti_state t), ti_records := ti_records t, ti_error := ti_error t\<rparr>"

definition snap_job :: "running_job \<Rightarrow> running_job" where
  "snap_job j =
     j\<lparr>rj_state := wire_state (rj_state j), rj_tasks := hm_map_values snap_task (rj_tasks j),
       rj_last_checkpoint_trigger_ms := 0\<rparr>"

lemma info_of_dto_of_info: "info_of_dto (dto_of_info t) = snap_task t"
  by (simp add: info_of_dto_def dto_of_info_def snap_task_def)

lemma fold_insert_distinct:
  assumes "distinct (map f xs)" and "f ` set xs \<inter> fst ` set m = {}"
  shows "fold (\<lambda>x. hm_insert (f x) (g x)) xs m = m @ map (\<lambda>x. (f x, g x)) xs"
  using assms
proof (induction xs arbitrary: m)
  case Nil
  then show ?case by simp
next
  case (Cons x xs)
  then have "hm_insert (f x) (g x) m = m @ [(f x, g x)]" by (intro hm_insert_fresh) auto
  with Cons show ?case by auto
qed

lemma values_keyed:
  assumes "hm_wf m" and "\<And>k v. hm_get m k = Some v \<Longrightarrow> f v = k"
  shows "map (\<lambda>v. (f v, v)) (hm_values m) = m" and "distinct (map f (hm_values m))"
proof -
  have "f v = k" if "(k, v) \<in> set m" for k v using that assms by (simp add: hm_get_in_set)
  then have "map f (map snd m) = map fst m" by (auto simp: comp_def intro: map_cong)
  with assms(1) show "distinct (map f (hm_values m))" by (simp only: hm_values_def hm_wf_def)
  show "map (\<lambda>v. (f v, v)) (hm_values m) = m"
    using \<open>\<And>v k. (k, v) \<in> set m \<Longrightarrow> f v = k\<close> by (auto simp: hm_values_def intro: map_idI)
qed

lemma job_of_dto_of_job:
  assumes "job_wf k j"
  shows "job_of_dto (dto_of_job j) = snap_job j"
proof -
  have v: "map (\<lambda>t. (ti_task_id t, t)) (hm_values (rj_tasks j)) = rj_tasks j"
    "distinct (map ti_task_id (hm_values (rj_tasks j)))"
    using values_keyed [of "rj_tasks j" ti_task_id] assms by (auto simp: job_wf_def)
  let ?ds = "map dto_of_info (hm_values (rj_tasks j))"
  have ids: "tid_task_id (dto_of_info t) = ti_task_id t" for t by (simp add: dto_of_info_def)
  have "tasks_of_dto ?ds = map (\<lambda>d. (tid_task_id d, info_of_dto d)) ?ds"
    using fold_insert_distinct [of tid_task_id ?ds "[]" info_of_dto] v(2)
    by (simp add: tasks_of_dto_def hm_empty_def comp_def ids)
  also have "\<dots> = map (\<lambda>(k, t). (k, snap_task t)) (map (\<lambda>t. (ti_task_id t, t)) (hm_values (rj_tasks j)))"
    by (simp add: comp_def info_of_dto_of_info ids)
  also have "\<dots> = hm_map_values snap_task (rj_tasks j)"
    unfolding v(1) by (simp add: hm_map_values_def)
  finally show ?thesis by (simp add: job_of_dto_def dto_of_job_def snap_job_def)
qed

lemma import_jobs_empty:
  assumes "distinct (map jd_job_id dtos)" and "jd_job_id ` set dtos \<inter> fst ` set m = {}"
  shows "fold import_job dtos m = m @ map (\<lambda>d. (jd_job_id d, job_of_dto d)) dtos"
  using assms
proof (induction dtos arbitrary: m)
  case Nil
  then show ?case by simp
next
  case (Cons d dtos)
  then have f: "jd_job_id d \<notin> fst ` set m" by auto
  then have "hm_get m (jd_job_id d) = None" by (simp add: hm_get_def map_of_eq_None_iff)
  with f have "import_job d m = m @ [(jd_job_id d, job_of_dto d)]"
    by (simp add: import_job_def hm_insert_fresh)
  with Cons show ?case by auto
qed

lemma imported_jobs:
  assumes "registry_wf src"
  shows "fold import_job (map dto_of_job (list_jobs src)) hm_empty = hm_map_values snap_job (jc_jobs src)"
proof -
  have v: "map (\<lambda>j. (rj_job_id j, j)) (list_jobs src) = jc_jobs src"
    "distinct (map rj_job_id (list_jobs src))"
    using values_keyed [of "jc_jobs src" rj_job_id] assms
    by (auto simp: registry_wf_def job_wf_def list_jobs_def)
  have wf: "job_wf (rj_job_id j) j" if "j \<in> set (list_jobs src)" for j
  proof -
    have "(rj_job_id j, j) \<in> set (map (\<lambda>j. (rj_job_id j, j)) (list_jobs src))" using that by auto
    then show ?thesis unfolding v(1) using assms by (auto simp: registry_wf_def hm_get_in_set)
  qed
  have ids: "jd_job_id (dto_of_job j) = rj_job_id j" for j by (simp add: dto_of_job_def)
  have "fold import_job (map dto_of_job (list_jobs src)) [] =
      map (\<lambda>d. (jd_job_id d, job_of_dto d)) (map dto_of_job (list_jobs src))"
    using import_jobs_empty [of "map dto_of_job (list_jobs src)" "[]"] v(2) by (simp add: comp_def ids)
  also have "\<dots> = map (\<lambda>j. (rj_job_id j, snap_job j)) (list_jobs src)"
    using job_of_dto_of_job [OF wf] by (simp add: ids)
  also have "\<dots> = map (\<lambda>(k, j). (k, snap_job j)) (map (\<lambda>j. (rj_job_id j, j)) (list_jobs src))"
    by simp
  also have "\<dots> = hm_map_values snap_job (jc_jobs src)"
    unfolding v(1) by (simp add: hm_map_values_def)
  finally show ?thesis by (simp add: hm_empty_def)
qed

text \<open>The dispatchable plans: filed under the task id, with 32-bit indices.\<close>

definition i32 :: "int \<Rightarrow> bool" where
  "i32 n = (- (2 ^ 31) \<le> n \<and> n < 2 ^ 31)"

definition tasks_wf :: "(string, task_descriptor) hashmap \<Rightarrow> bool" where
  "tasks_wf m =
     (hm_wf m \<and> (\<forall>k d. hm_get m k = Some d \<longrightarrow> td_task_id d = k \<and> i32 (td_task_index d) \<and> i32 (td_parallelism d)))"

lemma i64_as_i32_id: "i32 n \<Longrightarrow> i64_as_i32 n = n"
proof -
  assume n: "i32 n"
  show ?thesis
  proof (cases "0 \<le> n")
    case True
    then have "n mod 2 ^ 32 = n" using n by (simp add: i32_def)
    then show ?thesis using n by (simp add: i64_as_i32_def Let_def i32_def)
  next
    case False
    have "n mod 2 ^ 32 = (n + 2 ^ 32) mod 2 ^ 32" by simp
    also have "\<dots> = n + 2 ^ 32" using n False by (intro mod_pos_pos_trivial) (simp_all add: i32_def)
    finally show ?thesis using n by (simp add: i64_as_i32_def Let_def i32_def)
  qed
qed

lemma import_tasks_empty:
  assumes "distinct (map td_task_id ds)" and "td_task_id ` set ds \<inter> fst ` set m = {}"
    and "\<forall>d \<in> set ds. i32 (td_task_index d) \<and> i32 (td_parallelism d)"
  shows "fold import_task (map json_of_task ds) m = m @ map (\<lambda>d. (td_task_id d, d)) ds"
  using assms
proof (induction ds arbitrary: m)
  case Nil
  then show ?case by simp
next
  case (Cons d ds)
  then have f: "td_task_id d \<notin> fst ` set m" by auto
  then have "\<not> hm_contains m (td_task_id d)"
    by (auto simp: hm_contains_def hm_get_def map_of_eq_None_iff split: option.splits dest: map_of_SomeD)
  with f Cons.prems(3) have "import_task (json_of_task d) m = m @ [(td_task_id d, d)]"
    by (simp add: import_task_def json_of_task_def i64_as_i32_id hm_insert_fresh)
  with Cons show ?case by auto
qed

lemma imported_tasks:
  assumes "tasks_wf m"
  shows "fold import_task (map json_of_task (hm_values m)) hm_empty = m"
proof -
  have v: "map (\<lambda>d. (td_task_id d, d)) (hm_values m) = m" "distinct (map td_task_id (hm_values m))"
    using values_keyed [of m td_task_id] assms by (auto simp: tasks_wf_def)
  have "i32 (td_task_index d) \<and> i32 (td_parallelism d)" if "d \<in> set (hm_values m)" for d
    using that assms by (auto simp: tasks_wf_def hm_values_def hm_get_in_set)
  with import_tasks_empty [of "hm_values m" "[]"] v show ?thesis by (simp add: hm_empty_def)
qed

lemma installed_state:
  assumes "registry_wf src" and "tasks_wf (jc_all_tasks src)"
  shows "jc_jobs (replace_state (export_state src) c) = hm_map_values snap_job (jc_jobs src)"
    "jc_all_tasks (replace_state (export_state src) c) = jc_all_tasks src"
    "jc_pending (replace_state (export_state src) c) = hm_empty"
    "jc_checkpoint_outbox (replace_state (export_state src) c) = hm_empty"
  using imported_jobs [OF assms(1)] imported_tasks [OF assms(2)]
  by (simp_all add: replace_state_def import_state_def export_state_def observe_opt_def observe_term_def Let_def)

text \<open>
  C9. Installing a snapshot reproduces the exporting node: every job with its tasks, owners, states,
  counters and configuration, and every dispatchable plan, come back; only the volatile bookkeeping
  is reset and a failure's reason becomes \<open>unknown\<close> (the job's error message is kept). Nothing of the
  installing node's own jobs, plans and pending checkpoints is left.
\<close>

theorem snapshot_install_roundtrip:
  assumes "registry_wf src" and "tasks_wf (jc_all_tasks src)"
  shows "jc_jobs (replace_state (export_state src) c) = hm_map_values snap_job (jc_jobs src) \<and>
    jc_all_tasks (replace_state (export_state src) c) = jc_all_tasks src \<and>
    jc_pending (replace_state (export_state src) c) = hm_empty \<and>
    jc_checkpoint_outbox (replace_state (export_state src) c) = hm_empty"
  using installed_state [OF assms] by blast

theorem snapshot_install_roundtrip_witness:
  "jc_jobs (replace_state (export_state (demo_jc ''RUNNING'')) (demo_jc ''CANCELLED'')) =
     hm_map_values snap_job (jc_jobs (demo_jc ''RUNNING''))"
proof -
  have "tasks_wf (jc_all_tasks (demo_jc ''RUNNING''))"
    by (auto simp: tasks_wf_def demo_jc_tasks hm_wf_def hm_get_def demo_desc_def i32_def split: if_splits)
  with snapshot_install_roundtrip [OF demo_registry, of "''RUNNING''" "demo_jc ''CANCELLED''"]
  show ?thesis by simp
qed

text \<open>
  A snapshot install keeps the node's old checkpoint payloads. Unlike jobs and plans, the
  checkpoint store is not cleared first, and the import only fills gaps: for every task the
  installing node has any history of, that history wins over the snapshot's, so it goes on handing
  out its own old snapshot of the task.
\<close>

theorem install_keeps_stale_checkpoints:
  assumes "hm_get (ms_inner (jc_checkpoint_store c)) (job, tid) = Some es"
  shows "fetch_checkpoint job tid (replace_state (export_state src) c) = fetch_checkpoint job tid c"
proof -
  have "ms_inner (jc_checkpoint_store (replace_state (export_state src) c)) =
      fold ms_import_entry (ms_export (jc_checkpoint_store src)) (ms_inner (jc_checkpoint_store c))"
    by (simp add: replace_state_def import_state_def export_state_def observe_opt_def observe_term_def
        Let_def ms_import_def)
  with assms show ?thesis
    by (simp add: fetch_checkpoint_def ms_load_latest_def import_fold_get)
qed

definition demo_with_store :: "nat \<Rightarrow> coordinator" where
  "demo_with_store i =
     jc_new\<lparr>jc_checkpoint_store := ms_save ''j'' ''j-p0-0'' i [9] (ms_new 3)\<rparr>"

theorem install_keeps_stale_checkpoints_witness:
  "fetch_checkpoint ''j'' ''j-p0-0'' (replace_state (export_state (demo_with_store 70)) (demo_with_store 2)) =
     Some (2, [9])"
proof -
  have "hm_get (ms_inner (jc_checkpoint_store (demo_with_store 2))) (''j'', ''j-p0-0'') = Some [(2, [9])]"
    by (simp add: demo_with_store_def ms_save_def ms_new_def ms_entries_def ms_update_def hm_simps)
  from install_keeps_stale_checkpoints [OF this, of "demo_with_store 70"] this
  show ?thesis by (simp add: fetch_checkpoint_def ms_load_latest_def)
qed

section \<open>Replay\<close>

text \<open>The state of a node up to the end times of its jobs.\<close>

definition no_end :: "running_job \<Rightarrow> running_job" where
  "no_end j = j\<lparr>rj_end_time := None\<rparr>"

definition untimed :: "coordinator \<Rightarrow> coordinator" where
  "untimed c = c\<lparr>jc_jobs := hm_map_values no_end (jc_jobs c)\<rparr>"

lemma no_end_simps [simp]:
  "rj_tasks (no_end j) = rj_tasks j" "rj_state (no_end j) = rj_state j" "rj_job_id (no_end j) = rj_job_id j"
  "rj_next_checkpoint_id (no_end j) = rj_next_checkpoint_id j" "no_end (no_end j) = no_end j"
  "rj_checkpoints_completed (no_end j) = rj_checkpoints_completed j"
  by (simp_all add: no_end_def)

lemma no_end_comm [simp]:
  "no_end (j\<lparr>rj_tasks := ts\<rparr>) = (no_end j)\<lparr>rj_tasks := ts\<rparr>"
  "no_end (j\<lparr>rj_state := s\<rparr>) = (no_end j)\<lparr>rj_state := s\<rparr>"
  "no_end (j\<lparr>rj_end_time := e\<rparr>) = no_end j"
  "no_end (j\<lparr>rj_error_message := m\<rparr>) = (no_end j)\<lparr>rj_error_message := m\<rparr>"
  "no_end (j\<lparr>rj_next_checkpoint_id := n\<rparr>) = (no_end j)\<lparr>rj_next_checkpoint_id := n\<rparr>"
  "no_end (j\<lparr>rj_checkpoints_completed := n\<rparr>) = (no_end j)\<lparr>rj_checkpoints_completed := n\<rparr>"
  "no_end (j\<lparr>rj_last_checkpoint_trigger_ms := at_ms\<rparr>) = (no_end j)\<lparr>rj_last_checkpoint_trigger_ms := at_ms\<rparr>"
  "no_end (set_task j tid t) = set_task (no_end j) tid t"
  "no_end (dispatched_job w tid j t) = dispatched_job w tid (no_end j) t"
  by (simp_all add: no_end_def set_task_def dispatched_job_def Let_def)

lemma map_values_simps:
  "hm_map_values f (hm_insert k v m) = hm_insert k (f v) (hm_map_values f m)"
  "hm_map_values f (hm_modify k (\<lambda>_. v) m) = hm_modify k (\<lambda>_. f v) (hm_map_values f m)"
  "hm_map_values f (hm_remove k m) = hm_remove k (hm_map_values f m)"
  by (induction m)
    (auto simp: hm_map_values_def hm_insert_def hm_modify_def hm_remove_def AList.delete_eq)

lemma map_values_comm:
  assumes "\<And>v. f (g v) = g (f v)"
  shows "hm_map_values f (hm_map_values g m) = hm_map_values g (hm_map_values f m)"
    and "hm_map_values f (hm_modify k g m) = hm_modify k g (hm_map_values f m)"
  using assms by (auto simp: hm_map_values_def hm_modify_def)

lemma no_end_idem [simp]: "hm_map_values no_end (hm_map_values no_end m) = hm_map_values no_end m"
  by (simp add: hm_map_values_def comp_def case_prod_beta)

lemma untimed_fields [simp]:
  "jc_jobs (untimed c) = hm_map_values no_end (jc_jobs c)"
  "jc_all_tasks (untimed c) = jc_all_tasks c" "jc_pending (untimed c) = jc_pending c"
  "jc_term (untimed c) = jc_term c" "jc_preempt_outbox (untimed c) = jc_preempt_outbox c"
  "jc_checkpoint_outbox (untimed c) = jc_checkpoint_outbox c" "untimed (untimed c) = untimed c"
  by (simp_all add: untimed_def)

lemma untimed_updates [simp]:
  "untimed (c\<lparr>jc_jobs := m\<rparr>) = (untimed c)\<lparr>jc_jobs := hm_map_values no_end m\<rparr>"
  "untimed (c\<lparr>jc_all_tasks := ts\<rparr>) = (untimed c)\<lparr>jc_all_tasks := ts\<rparr>"
  "untimed (c\<lparr>jc_pending := ps\<rparr>) = (untimed c)\<lparr>jc_pending := ps\<rparr>"
  "untimed (c\<lparr>jc_term := n\<rparr>) = (untimed c)\<lparr>jc_term := n\<rparr>"
  "untimed (c\<lparr>jc_preempt_outbox := po\<rparr>) = (untimed c)\<lparr>jc_preempt_outbox := po\<rparr>"
  "untimed (c\<lparr>jc_checkpoint_outbox := co\<rparr>) = (untimed c)\<lparr>jc_checkpoint_outbox := co\<rparr>"
  by (simp_all add: untimed_def)

lemma find_job_untimed:
  "find_job tid (untimed c) = map_option (\<lambda>(k, j). (k, no_end j)) (find_job tid c)"
proof -
  have "List.find (\<lambda>(_, j). hm_contains (rj_tasks j) tid) (hm_map_values no_end m) =
      map_option (\<lambda>(k, j). (k, no_end j)) (List.find (\<lambda>(_, j). hm_contains (rj_tasks j) tid) m)" for m
    by (induction m) (auto simp: hm_map_values_def)
  then show ?thesis by (simp add: find_job_def)
qed

lemma untimed_with_task:
  assumes "\<And>j t. no_end (f j t) = f (no_end j) t"
  shows "untimed (with_task tid f c) = with_task tid f (untimed c)"
  using assms
  by (auto simp: with_task_def find_job_untimed map_values_simps split: option.splits)

lemma untimed_fold:
  "(\<And>x c. untimed (f x c) = f x (untimed c)) \<Longrightarrow> untimed (fold f xs c) = fold f xs (untimed c)"
  by (induction xs arbitrary: c) simp_all

lemma untimed_mark: "untimed (mark_tasks_dispatched tids w c) = mark_tasks_dispatched tids w (untimed c)"
  unfolding mark_tasks_dispatched_def
  by (rule untimed_fold)
    (auto simp: mark_task_dispatched_def find_job_untimed map_values_simps split: option.splits)

lemma untimed_abort_keys: "untimed (fold abort_key ks c) = fold abort_key ks (untimed c)"
  by (rule untimed_fold) (auto simp: abort_key_def resolve_pending_def split: option.splits)

lemma untimed_drop_pending: "untimed (drop_pending_checkpoints job c) = drop_pending_checkpoints job (untimed c)"
  by (simp add: drop_pending_checkpoints_def untimed_abort_keys)

lemma no_end_roll_up: "no_end (roll_up now j) = no_end (roll_up now' (no_end j))"
  by (auto simp: roll_up_def Let_def split: option.splits)

lemma no_end_note_completed:
  "no_end (fold (\<lambda>(tid, _). note_completed i tid) ps j) = fold (\<lambda>(tid, _). note_completed i tid) ps (no_end j)"
  by (induction ps arbitrary: j) (auto simp: note_completed_def)

text \<open>Every command on a node, against the same command on the untimed state with another clock.\<close>

lemma apply_command_untimed:
  "untimed (snd (apply_command now cmd c)) = untimed (snd (apply_command now' cmd (untimed c)))"
proof (cases cmd)
  case (SubmitJob dto ds)
  then show ?thesis by (simp add: install_job_def map_values_simps)
next
  case (CancelJob job at_ms)
  then show ?thesis
    by (auto simp: apply_cancel_def cancel_job_def untimed_drop_pending map_values_simps hm_simps
        split: option.splits)
next
  case (DropJob job)
  then show ?thesis
    by (auto simp: apply_drop_def untimed_drop_pending map_values_simps hm_simps split: option.splits)
next
  case (TaskStatus job tid w state records err)
  moreover have "no_end (roll_up now (set_task j tid t)) = no_end (roll_up now' (set_task (no_end j) tid t))" for j t
    using no_end_roll_up [of now "set_task j tid t" now'] by simp
  ultimately show ?thesis
    by (auto simp: report_task_status_from_def Let_def queue_preemption_def map_values_simps hm_simps
        split: option.splits verdict.splits)
next
  case (EvictWorker w)
  then show ?thesis
    by (simp add: evict_worker_def) (simp add: hm_map_values_def evict_task_def comp_def case_prod_beta)
next
  case (CheckpointTriggered job stage at_ms)
  then show ?thesis
    by (auto simp: apply_checkpoint_triggered_def Let_def stage_participants_def map_values_simps hm_simps
        split: option.splits)
next
  case (CheckpointResolved job stage i completed ps)
  let ?g = "\<lambda>j. fold (\<lambda>(tid, _). note_completed i tid) ps
      (j\<lparr>rj_checkpoints_completed := rj_checkpoints_completed j + 1\<rparr>)"
  have "no_end (?g v) = ?g (no_end v)" for v by (simp add: no_end_note_completed)
  note comm = map_values_comm(2) [of no_end ?g, OF this, of job]
  show ?thesis
    by (cases completed) (simp_all only: CheckpointResolved apply_command.simps apply_checkpoint_resolved_def
        untimed_updates untimed_fields comm snd_conv if_True if_False no_end_idem)
next
  case (MarkDispatched tids w)
  then show ?thesis by (simp add: untimed_mark)
next
  case (AdoptTasks w tids)
  then show ?thesis
    by (simp add: adopt_tasks_def adopt_task_def untimed_fold untimed_with_task)
next
  case (ReleaseLostTasks w tids)
  then show ?thesis
    by (simp add: release_lost_tasks_def release_lost_task_def untimed_fold untimed_with_task)
next
  case (ObserveTerm t)
  then show ?thesis by (simp add: observe_term_def Let_def)
qed



text \<open>
  End times are not replicated: a node that applies the report completing a job stamps the job
  with its own clock, so two nodes with different clocks end up with different states although they
  applied the same command to the same state.
\<close>

theorem end_time_not_deterministic:
  assumes "hm_get (jc_jobs c) job = Some j" and "\<not> is_terminal (rj_state j)"
    and "rj_tasks j = [(tid, t)]" and "ti_state t \<notin> {Created, Scheduled}" and "now \<noteq> now'"
    and "ti_state t = Running \<longrightarrow> ti_worker_id t = w"
  shows "apply_command now (TaskStatus job tid w ''COMPLETED'' n err) c \<noteq>
    apply_command now' (TaskStatus job tid w ''COMPLETED'' n err) c"
proof -
  have s: "job_state_from ''COMPLETED'' = Completed" by (simp add: job_state_from_def)
  let ?t = "reported_task w Completed n err t"
  let ?j = "set_task j tid ?t"
  have "hm_values (rj_tasks ?j) = [?t]"
    using assms(3) by (simp add: set_task_def hm_modify_def hm_values_def)
  moreover have "ti_state ?t = Completed" by (simp add: reported_task_def)
  ultimately have "rj_end_time (roll_up x ?j) = Some x" for x
    using assms(2) by (simp add: roll_up_def Let_def)
  moreover have "hm_get (rj_tasks j) tid = Some t" using assms(3) by (simp add: hm_get_def)
  moreover have "report_verdict w Completed t = Accept_Report"
    using assms(4,6) by (auto simp: report_verdict_def)
  ultimately have "map_option rj_end_time (hm_get (jc_jobs (snd (apply_command x
      (TaskStatus job tid w ''COMPLETED'' n err) c))) job) = Some (Some x)" for x
    using assms(1) s by (simp add: report_task_status_from_def hm_simps)
  with assms(5) show ?thesis by (metis option.inject)
qed

theorem end_time_not_deterministic_witness:
  "apply_command 1 (TaskStatus ''j'' ''j-p0-0'' ''w1'' ''COMPLETED'' 9 None) (demo_jc ''RUNNING'') \<noteq>
     apply_command 2 (TaskStatus ''j'' ''j-p0-0'' ''w1'' ''COMPLETED'' 9 None) (demo_jc ''RUNNING'')"
proof -
  have "rj_tasks (job_of_dto (demo_dto ''RUNNING'')) =
      [(''j-p0-0'', info_of_dto (hd (jd_tasks (demo_dto ''RUNNING''))))]"
    by (simp add: job_of_dto_def tasks_of_dto_def demo_dto_def hm_insert_def hm_empty_def)
  with end_time_not_deterministic [OF demo_jc_job, of "''RUNNING''" "''j-p0-0''" _ 1 2 "''w1''" 9 None]
    demo_task_fields demo_running show ?thesis by simp
qed

end
