(* ===== verification/File_System.thy ===== *)
theory File_System
  imports Prelude
begin

text \<open>
  The part of \<open>std::fs\<close> the file stores use. A file system maps a directory, named by its path
  components below the store root, to its files; a file is a list of bytes of an arbitrary type.
  A store operation is a sequence of system calls (\<open>fs_op\<close>). \<open>crash_states\<close> lists every file
  system a crash or an I/O error can leave behind before the sequence has finished, torn writes
  included, and \<open>attempt\<close> runs a sequence under a fault: \<open>None\<close> for no fault, \<open>Some k\<close> for the
  \<open>k\<close>-th of these states.
\<close>

type_synonym 'b dir = "(string, 'b list) hashmap"
type_synonym path = "string list"
type_synonym 'b fs = "(path, 'b dir) hashmap"

datatype 'b fs_op =
    Create_Dir_All path
  | Create_File path string
  | Write_All path string "'b list"
  | Open_Append path string
  | Append_All path string "'b list"
  | Sync_All path string
  | Rename path string string
  | Remove_File path string

definition read_dir :: "'b fs \<Rightarrow> path \<Rightarrow> 'b dir" where
  "read_dir fs p = (case hm_get fs p of None \<Rightarrow> [] | Some d \<Rightarrow> d)"

definition put_dir :: "path \<Rightarrow> 'b dir \<Rightarrow> 'b fs \<Rightarrow> 'b fs" where
  "put_dir p d fs = hm_insert p d fs"

definition file_bytes :: "'b fs \<Rightarrow> path \<Rightarrow> string \<Rightarrow> 'b list" where
  "file_bytes fs p n = (case hm_get (read_dir fs p) n of None \<Rightarrow> [] | Some bs \<Rightarrow> bs)"

fun exec_op :: "'b fs_op \<Rightarrow> 'b fs \<Rightarrow> 'b fs" where
  "exec_op (Create_Dir_All p) fs = (if hm_contains fs p then fs else put_dir p [] fs)"
| "exec_op (Create_File p n) fs = put_dir p (hm_insert n [] (read_dir fs p)) fs"
| "exec_op (Write_All p n bs) fs = put_dir p (hm_insert n bs (read_dir fs p)) fs"
| "exec_op (Open_Append p n) fs =
     (if hm_contains (read_dir fs p) n then fs else put_dir p (hm_insert n [] (read_dir fs p)) fs)"
| "exec_op (Append_All p n bs) fs = put_dir p (hm_insert n (file_bytes fs p n @ bs) (read_dir fs p)) fs"
| "exec_op (Sync_All p n) fs = fs"
| "exec_op (Rename p a b) fs =
     (case hm_get (read_dir fs p) a of
        None \<Rightarrow> fs
      | Some bs \<Rightarrow> put_dir p (hm_insert b bs (hm_remove a (read_dir fs p))) fs)"
| "exec_op (Remove_File p n) fs = put_dir p (hm_remove n (read_dir fs p)) fs"

text \<open>A write that stops half way leaves a proper prefix of the bytes.\<close>

fun torn :: "'b fs_op \<Rightarrow> 'b fs \<Rightarrow> 'b fs list" where
  "torn (Write_All p n bs) fs =
     map (\<lambda>k. put_dir p (hm_insert n (take k bs) (read_dir fs p)) fs) [0..<length bs]"
| "torn (Append_All p n bs) fs =
     map (\<lambda>k. put_dir p (hm_insert n (file_bytes fs p n @ take k bs) (read_dir fs p)) fs) [0..<length bs]"
| "torn _ fs = []"

definition exec_ops :: "'b fs_op list \<Rightarrow> 'b fs \<Rightarrow> 'b fs" where
  "exec_ops ops fs = fold exec_op ops fs"

fun crash_states :: "'b fs_op list \<Rightarrow> 'b fs \<Rightarrow> 'b fs list" where
  "crash_states [] fs = []"
| "crash_states (oper # ops) fs = (fs # torn oper fs) @ crash_states ops (exec_op oper fs)"

definition attempt :: "'b fs_op list \<Rightarrow> nat option \<Rightarrow> 'b fs \<Rightarrow> bool \<times> 'b fs" where
  "attempt ops fault fs =
     (case fault of
        None \<Rightarrow> (True, exec_ops ops fs)
      | Some k \<Rightarrow>
          if k < length (crash_states ops fs) then (False, crash_states ops fs ! k)
          else (True, exec_ops ops fs))"

definition remove_dir_all :: "path \<Rightarrow> 'b fs \<Rightarrow> 'b fs" where
  "remove_dir_all p fs = hm_retain (\<lambda>q _. take (length p) q \<noteq> p) fs"

section \<open>Reading after writing\<close>

definition fs_wf :: "'b fs \<Rightarrow> bool" where
  "fs_wf fs = (hm_wf fs \<and> (\<forall>p. hm_wf (read_dir fs p)))"

lemma read_put_dir [hm_simps]: "read_dir (put_dir p d fs) q = (if q = p then d else read_dir fs q)"
  by (simp add: read_dir_def put_dir_def hm_simps)

lemma hm_wf_Nil [simp]: "hm_wf []"
  by (simp add: hm_wf_def)

lemma fs_wf_put_dir: "fs_wf fs \<Longrightarrow> hm_wf d \<Longrightarrow> fs_wf (put_dir p d fs)"
  by (auto simp: fs_wf_def read_put_dir) (simp add: put_dir_def hm_wf_insert)

lemma fs_wf_read: "fs_wf fs \<Longrightarrow> hm_wf (read_dir fs p)"
  by (simp add: fs_wf_def)

lemma fs_wf_exec_op: "fs_wf fs \<Longrightarrow> fs_wf (exec_op oper fs)"
  by (cases oper)
    (auto intro!: fs_wf_put_dir hm_wf_insert hm_wf_remove fs_wf_read split: option.splits)

lemma fs_wf_exec_ops: "fs_wf fs \<Longrightarrow> fs_wf (exec_ops ops fs)"
  unfolding exec_ops_def by (induction ops arbitrary: fs) (auto intro: fs_wf_exec_op)

lemma fs_wf_crash: "fs_wf fs \<Longrightarrow> fs' \<in> set (crash_states ops fs) \<Longrightarrow> fs_wf fs'"
proof (induction ops arbitrary: fs)
  case Nil
  then show ?case by simp
next
  case (Cons oper ops)
  from Cons.prems have "fs_wf g" if "g \<in> set (torn oper fs)" for g
    using that by (cases oper) (auto intro!: fs_wf_put_dir hm_wf_insert fs_wf_read)
  with Cons show ?case by (auto intro: fs_wf_exec_op)
qed

lemma fs_wf_attempt: "fs_wf fs \<Longrightarrow> attempt ops fault fs = (ok, fs') \<Longrightarrow> fs_wf fs'"
  by (auto simp: attempt_def fs_wf_exec_ops split: option.splits if_splits
      intro: fs_wf_crash [OF _ nth_mem])

lemma read_remove_dir_all [hm_simps]:
  "fs_wf fs \<Longrightarrow>
     read_dir (remove_dir_all p fs) q = (if take (length p) q = p then [] else read_dir fs q)"
  by (simp add: read_dir_def remove_dir_all_def fs_wf_def hm_get_retain split: option.splits)

lemma fs_wf_remove_dir_all: "fs_wf fs \<Longrightarrow> fs_wf (remove_dir_all p fs)"
  by (simp add: fs_wf_def read_remove_dir_all [unfolded fs_wf_def])
    (simp add: remove_dir_all_def hm_wf_retain)

section \<open>The atomic write idiom\<close>

text \<open>
  Create the directory, write a temporary file, sync it and rename it over the final name: the
  idiom of every durable write of the engine. Until the rename the final name is untouched, and
  the rename publishes the whole contents at once.
\<close>

definition atomic_write :: "path \<Rightarrow> string \<Rightarrow> string \<Rightarrow> 'b list \<Rightarrow> 'b fs_op list" where
  "atomic_write p tmp final bs =
     [Create_Dir_All p, Create_File p tmp, Write_All p tmp bs, Sync_All p tmp, Rename p tmp final]"

lemma read_create_dir [simp]: "read_dir (exec_op (Create_Dir_All p) fs) q = read_dir fs q"
  by (auto simp: read_dir_def put_dir_def hm_simps hm_contains_def split: option.splits)

lemma atomic_write_result:
  assumes "tmp \<noteq> final"
  shows "hm_get (read_dir (exec_ops (atomic_write p tmp final bs) fs) q) n =
     (if q = p \<and> n = final then Some bs else if q = p \<and> n = tmp then None
      else hm_get (read_dir fs q) n)"
  using assms
  by (simp add: exec_ops_def atomic_write_def hm_simps del: exec_op.simps(1))

lemma atomic_write_crash:
  assumes "fs' \<in> set (crash_states (atomic_write p tmp final bs) fs)" and "n \<noteq> tmp"
  shows "hm_get (read_dir fs' q) n = hm_get (read_dir fs q) n"
  using assms by (auto simp: atomic_write_def hm_simps simp del: exec_op.simps(1) split: if_splits)

end
