(* ===== verification/Raft_Machine.thy ===== *)
theory Raft_Machine
  imports Coordinator_Replication File_System
begin

text \<open>
  The Raft state machine (\<open>raft/state_machine.rs\<close>): committed log entries are applied to the
  coordinator, snapshots are the coordinator's \<open>export_state\<close> in a document \<open>snapshot.json\<close> written
  with a temporary file and a rename. The document's JSON form is \<open>serde_json\<close>, a parameter
  (\<open>doc_codec\<close>). Log ids and membership come from the \<open>openraft\<close> library: a membership is a value of
  an arbitrary type \<open>'m\<close> that the machine only stores.
\<close>

section \<open>Types\<close>

record log_id =
  lid_term :: nat
  lid_node :: nat
  lid_index :: nat

datatype 'm payload = Blank | Normal command | Membership 'm

record 'm entry =
  en_log_id :: log_id
  en_payload :: "'m payload"

type_synonym 'm stored_membership = "log_id option \<times> 'm"

record 'm snapshot_meta =
  sm_last_log_id :: "log_id option"
  sm_last_membership :: "'m stored_membership"
  sm_snapshot_id :: string

text \<open>The document on disk. A membership or a metadata object that does not parse is \<open>None\<close>.\<close>

record 'm snapshot_doc =
  sd_state :: snapshot
  sd_membership :: "'m stored_membership option"
  sd_last_applied :: "log_id option"
  sd_meta :: "'m snapshot_meta option"

record ('m, 'b) doc_codec =
  doc_enc :: "'m snapshot_doc \<Rightarrow> 'b list"
  doc_dec :: "'b list \<Rightarrow> 'm snapshot_doc option"

definition doc_codec_ok :: "('m, 'b) doc_codec \<Rightarrow> bool" where
  "doc_codec_ok dc = (\<forall>d. doc_dec dc (doc_enc dc d) = Some d)"

record ('m, 'b) machine =
  mc_coordinator :: coordinator
  mc_dir :: path
  mc_last_applied :: "log_id option"
  mc_membership :: "'m stored_membership"
  mc_current_snapshot :: "('m snapshot_meta \<times> 'b list) option"
  mc_fs :: "'b fs"

section \<open>Operations\<close>

definition snapshot_file :: string where
  "snapshot_file = ''snapshot.json''"

definition snapshot_tmp :: string where
  "snapshot_tmp = ''snapshot.json.tmp''"

definition write_synced :: "path \<Rightarrow> string \<Rightarrow> string \<Rightarrow> 'b list \<Rightarrow> 'b fs_op list" where
  "write_synced p tmp final bs = [Create_File p tmp, Write_All p tmp bs, Sync_All p tmp, Rename p tmp final]"

text \<open>\<open>m0\<close> is the default membership.\<close>

definition load_snapshot_from_disk :: "('m, 'b) doc_codec \<Rightarrow> 'm \<Rightarrow> ('m, 'b) machine \<Rightarrow> ('m, 'b) machine" where
  "load_snapshot_from_disk dc m0 m =
     (case hm_get (read_dir (mc_fs m) (mc_dir m)) snapshot_file of
        None \<Rightarrow> m
      | Some bytes \<Rightarrow>
          (case doc_dec dc bytes of
             None \<Rightarrow> m
           | Some d \<Rightarrow>
               m\<lparr>mc_coordinator := replace_state (sd_state d) (mc_coordinator m),
                 mc_membership := (case sd_membership d of None \<Rightarrow> (None, m0) | Some mem \<Rightarrow> mem),
                 mc_last_applied := sd_last_applied d,
                 mc_current_snapshot := None\<rparr>))"

definition machine_new ::
    "('m, 'b) doc_codec \<Rightarrow> 'm \<Rightarrow> coordinator \<Rightarrow> path \<Rightarrow> 'b fs \<Rightarrow> ('m, 'b) machine" where
  "machine_new dc m0 c p fs =
     load_snapshot_from_disk dc m0
       \<lparr>mc_coordinator = c, mc_dir = p, mc_last_applied = None, mc_membership = (None, m0),
        mc_current_snapshot = None, mc_fs = fs\<rparr>"

definition applied_state :: "('m, 'b) machine \<Rightarrow> log_id option \<times> 'm stored_membership" where
  "applied_state m = (mc_last_applied m, mc_membership m)"

text \<open>One entry; \<open>now\<close> is the clock the coordinator may read while it applies a command.\<close>

definition apply_entry :: "int \<Rightarrow> 'm entry \<Rightarrow> ('m, 'b) machine \<Rightarrow> command_result \<times> ('m, 'b) machine" where
  "apply_entry now e m =
     (let (r, m1) =
        (case en_payload e of
           Blank \<Rightarrow> (Cmd_Ok, m)
         | Membership mem \<Rightarrow> (Cmd_Ok, m\<lparr>mc_membership := (Some (en_log_id e), mem)\<rparr>)
         | Normal cmd \<Rightarrow>
             (case apply_command now cmd (mc_coordinator m) of (r, c) \<Rightarrow> (r, m\<lparr>mc_coordinator := c\<rparr>)))
      in (r, m1\<lparr>mc_last_applied := Some (en_log_id e)\<rparr>))"

fun apply_entries :: "(int \<times> 'm entry) list \<Rightarrow> ('m, 'b) machine \<Rightarrow> command_result list \<times> ('m, 'b) machine" where
  "apply_entries [] m = ([], m)"
| "apply_entries ((now, e) # es) m =
     (case apply_entry now e m of (r, m1) \<Rightarrow>
      case apply_entries es m1 of (rs, m2) \<Rightarrow> (r # rs, m2))"

definition snapshot_meta_of :: "('m, 'b) machine \<Rightarrow> 'm snapshot_meta" where
  "snapshot_meta_of m =
     \<lparr>sm_last_log_id = mc_last_applied m, sm_last_membership = mc_membership m,
      sm_snapshot_id =
        ''snapshot-'' @ show_nat (case mc_last_applied m of None \<Rightarrow> 0 | Some l \<Rightarrow> lid_index l)\<rparr>"

text \<open>\<open>build_snapshot\<close> exports the coordinator before it takes the machine's lock, so entries can be
  applied in between: \<open>state\<close> is what was exported, \<open>m\<close> the machine when the lock is taken.\<close>

definition build_snapshot ::
    "('m, 'b) doc_codec \<Rightarrow> nat option \<Rightarrow> snapshot \<Rightarrow> ('m, 'b) machine \<Rightarrow>
     ('m snapshot_meta \<times> 'b list) option \<times> ('m, 'b) machine" where
  "build_snapshot dc fault state m =
     (let meta = snapshot_meta_of m;
          bytes = doc_enc dc
            \<lparr>sd_state = state, sd_membership = Some (mc_membership m),
             sd_last_applied = sm_last_log_id meta, sd_meta = Some meta\<rparr>
      in case attempt (write_synced (mc_dir m) snapshot_tmp snapshot_file bytes) fault (mc_fs m) of
           (False, fs) \<Rightarrow> (None, m\<lparr>mc_fs := fs\<rparr>)
         | (True, fs) \<Rightarrow> (Some (meta, bytes), m\<lparr>mc_fs := fs, mc_current_snapshot := None\<rparr>))"

definition install_snapshot ::
    "('m, 'b) doc_codec \<Rightarrow> nat option \<Rightarrow> 'm snapshot_meta \<Rightarrow> 'b list \<Rightarrow> ('m, 'b) machine \<Rightarrow>
     bool \<times> ('m, 'b) machine" where
  "install_snapshot dc fault meta bytes m =
     (case doc_dec dc bytes of
        None \<Rightarrow> (False, m)
      | Some d \<Rightarrow>
          let membership = (sm_last_log_id meta, snd (sm_last_membership meta));
              m1 = m\<lparr>mc_coordinator := replace_state (sd_state d) (mc_coordinator m),
                     mc_membership := membership, mc_last_applied := sm_last_log_id meta\<rparr>;
              out = doc_enc dc
                \<lparr>sd_state = sd_state d, sd_membership = Some membership,
                 sd_last_applied = sm_last_log_id meta, sd_meta = Some meta\<rparr>
          in case attempt (write_synced (mc_dir m) snapshot_tmp snapshot_file out) fault (mc_fs m) of
               (False, fs) \<Rightarrow> (False, m1\<lparr>mc_fs := fs\<rparr>)
             | (True, fs) \<Rightarrow> (True, m1\<lparr>mc_fs := fs, mc_current_snapshot := None\<rparr>))"

text \<open>\<open>Inl ()\<close> is a document on disk that does not decode, or whose metadata does not.\<close>

definition get_current_snapshot ::
    "('m, 'b) doc_codec \<Rightarrow> ('m, 'b) machine \<Rightarrow>
     (unit + ('m snapshot_meta \<times> 'b list) option) \<times> ('m, 'b) machine" where
  "get_current_snapshot dc m =
     (case mc_current_snapshot m of
        Some s \<Rightarrow> (Inr (Some s), m)
      | None \<Rightarrow>
          (case hm_get (read_dir (mc_fs m) (mc_dir m)) snapshot_file of
             None \<Rightarrow> (Inr None, m)
           | Some bytes \<Rightarrow>
               (case doc_dec dc bytes of
                  None \<Rightarrow> (Inl (), m)
                | Some d \<Rightarrow>
                    (case sd_meta d of
                       None \<Rightarrow> (Inl (), m)
                     | Some meta \<Rightarrow>
                         (Inr (Some (meta, bytes)), m\<lparr>mc_current_snapshot := Some (meta, bytes)\<rparr>)))))"

section \<open>What survives a restart\<close>

text \<open>
  The durable view of a coordinator: the jobs up to what a snapshot keeps and up to end times, the
  plans and the term. Pending checkpoints, outboxes and the payload store are left out.
\<close>

definition view_job :: "running_job \<Rightarrow> running_job" where
  "view_job j = no_end (snap_job j)"

definition durable_view :: "coordinator \<Rightarrow> coordinator" where
  "durable_view c =
     c\<lparr>jc_jobs := hm_map_values view_job (jc_jobs c), jc_checkpoint_store := ms_new 0,
       jc_pending := hm_empty, jc_checkpoint_outbox := hm_empty, jc_preempt_outbox := hm_empty\<rparr>"

lemma snap_task_sel [simp]:
  "ti_state (snap_task t) = wire_state (ti_state t)" "ti_worker_id (snap_task t) = ti_worker_id t"
  "ti_stage_id (snap_task t) = ti_stage_id t" "ti_task_id (snap_task t) = ti_task_id t"
  "ti_records (snap_task t) = ti_records t" "ti_error (snap_task t) = ti_error t"
  "snap_task (snap_task t) = snap_task t"
  by (simp_all add: snap_task_def task_info_new_def)

lemma snap_task_update [simp]:
  "snap_task (t\<lparr>ti_state := s\<rparr>) = (snap_task t)\<lparr>ti_state := wire_state s\<rparr>"
  "snap_task (t\<lparr>ti_worker_id := w\<rparr>) = (snap_task t)\<lparr>ti_worker_id := w\<rparr>"
  "snap_task (t\<lparr>ti_records := n\<rparr>) = (snap_task t)\<lparr>ti_records := n\<rparr>"
  "snap_task (t\<lparr>ti_error := e\<rparr>) = (snap_task t)\<lparr>ti_error := e\<rparr>"
  "snap_task (t\<lparr>ti_last_checkpoint_id := i\<rparr>) = snap_task t"
  "snap_task (t\<lparr>ti_last_checkpoint_size := n\<rparr>) = snap_task t"
  by (simp_all add: snap_task_def task_info_new_def)

lemma map_values_idem: "(\<And>v. f (f v) = f v) \<Longrightarrow> hm_map_values f (hm_map_values f m) = hm_map_values f m"
  by (simp add: hm_map_values_def comp_def case_prod_beta)

lemma view_job_sel [simp]:
  "rj_tasks (view_job j) = hm_map_values snap_task (rj_tasks j)"
  "rj_state (view_job j) = wire_state (rj_state j)" "rj_job_id (view_job j) = rj_job_id j"
  "rj_next_checkpoint_id (view_job j) = rj_next_checkpoint_id j"
  "rj_checkpoints_completed (view_job j) = rj_checkpoints_completed j"
  "view_job (view_job j) = view_job j"
  by (simp_all add: view_job_def snap_job_def no_end_def map_values_idem)

lemma view_job_update [simp]:
  "view_job (j\<lparr>rj_tasks := ts\<rparr>) = (view_job j)\<lparr>rj_tasks := hm_map_values snap_task ts\<rparr>"
  "view_job (j\<lparr>rj_state := s\<rparr>) = (view_job j)\<lparr>rj_state := wire_state s\<rparr>"
  "view_job (j\<lparr>rj_end_time := e\<rparr>) = view_job j"
  "view_job (j\<lparr>rj_error_message := m\<rparr>) = (view_job j)\<lparr>rj_error_message := m\<rparr>"
  "view_job (j\<lparr>rj_next_checkpoint_id := n\<rparr>) = (view_job j)\<lparr>rj_next_checkpoint_id := n\<rparr>"
  "view_job (j\<lparr>rj_checkpoints_completed := n\<rparr>) = (view_job j)\<lparr>rj_checkpoints_completed := n\<rparr>"
  "view_job (j\<lparr>rj_last_checkpoint_trigger_ms := at_ms\<rparr>) = view_job j"
  by (simp_all add: view_job_def snap_job_def no_end_def)

lemma view_set_task [simp]: "view_job (set_task j tid t) = set_task (view_job j) tid (snap_task t)"
  by (simp add: set_task_def map_values_simps)

lemma durable_view_sel [simp]:
  "jc_jobs (durable_view c) = hm_map_values view_job (jc_jobs c)"
  "jc_all_tasks (durable_view c) = jc_all_tasks c" "jc_pending (durable_view c) = hm_empty"
  "jc_term (durable_view c) = jc_term c" "jc_checkpoint_outbox (durable_view c) = hm_empty"
  "jc_preempt_outbox (durable_view c) = hm_empty" "durable_view (durable_view c) = durable_view c"
  by (simp_all add: durable_view_def map_values_idem)

lemma durable_view_update [simp]:
  "durable_view (c\<lparr>jc_jobs := m\<rparr>) = (durable_view c)\<lparr>jc_jobs := hm_map_values view_job m\<rparr>"
  "durable_view (c\<lparr>jc_all_tasks := ts\<rparr>) = (durable_view c)\<lparr>jc_all_tasks := ts\<rparr>"
  "durable_view (c\<lparr>jc_pending := ps\<rparr>) = durable_view c"
  "durable_view (c\<lparr>jc_term := n\<rparr>) = (durable_view c)\<lparr>jc_term := n\<rparr>"
  "durable_view (c\<lparr>jc_preempt_outbox := po\<rparr>) = durable_view c"
  "durable_view (c\<lparr>jc_checkpoint_outbox := co\<rparr>) = durable_view c"
  "durable_view (c\<lparr>jc_checkpoint_store := ms\<rparr>) = durable_view c"
  by (simp_all add: durable_view_def)

lemma view_idem [simp]: "hm_map_values view_job (hm_map_values view_job m) = hm_map_values view_job m"
  "hm_map_values snap_task (hm_map_values snap_task ts) = hm_map_values snap_task ts"
  by (simp_all add: map_values_idem)

lemma contains_map_values [simp]: "hm_contains (hm_map_values f m) k = hm_contains m k"
  by (simp add: hm_contains_def hm_simps split: option.split)

lemma find_job_durable:
  "find_job tid (durable_view c) = map_option (\<lambda>(k, j). (k, view_job j)) (find_job tid c)"
proof -
  have "List.find (\<lambda>(_, j). hm_contains (rj_tasks j) tid) (hm_map_values view_job m) =
      map_option (\<lambda>(k, j). (k, view_job j)) (List.find (\<lambda>(_, j). hm_contains (rj_tasks j) tid) m)" for m
    by (induction m) (auto simp: hm_map_values_def [of view_job])
  then show ?thesis by (simp add: find_job_def)
qed

lemma durable_fold:
  assumes "\<And>x c. durable_view (f x c) = durable_view (f x (durable_view c))"
  shows "durable_view (fold f xs c) = durable_view (fold f xs (durable_view c))"
proof (induction xs arbitrary: c)
  case (Cons x xs)
  have "durable_view (fold f xs (f x c)) = durable_view (fold f xs (durable_view (f x (durable_view c))))"
    by (subst Cons.IH) (simp only: assms [of x c])
  also have "\<dots> = durable_view (fold f xs (f x (durable_view c)))" by (rule Cons.IH [symmetric])
  finally show ?case by simp
qed simp

lemma durable_with_task:
  assumes "\<And>j t. view_job (f j t) = view_job (f (view_job j) (snap_task t))"
  shows "durable_view (with_task tid f c) = durable_view (with_task tid f (durable_view c))"
  by (auto simp: with_task_def find_job_durable map_values_simps hm_simps assms [symmetric]
      split: option.splits)

lemma on_worker_snap [simp]: "on_worker (snap_task t) = on_worker t"
  by (simp add: on_worker_def)

lemma durable_mark:
  "durable_view (mark_task_dispatched w tid c) = durable_view (mark_task_dispatched w tid (durable_view c))"
  by (auto simp: mark_task_dispatched_def find_job_durable map_values_simps hm_simps dispatch_blocked_def
      dispatched_job_def Let_def split: option.splits)

lemma durable_drop_pending: "durable_view (drop_pending_checkpoints job c) = durable_view c"
proof -
  have "durable_view (fold abort_key ks c) = durable_view c" for ks c
    by (induction ks arbitrary: c) (auto simp: abort_key_def resolve_pending_def split: option.splits)
  then show ?thesis by (simp add: drop_pending_checkpoints_def)
qed
lemma is_failed_wire [simp]: "is_failed (wire_state s) = is_failed s"
  by (cases s) (simp_all add: wire_state_def)

lemma find_snap:
  "List.find (\<lambda>t. is_failed (ti_state t)) (map snap_task ts) =
     map_option snap_task (List.find (\<lambda>t. is_failed (ti_state t)) ts)"
  by (induction ts) simp_all

lemma values_map_values: "hm_values (hm_map_values f m) = map f (hm_values m)"
  by (simp add: hm_values_def hm_map_values_def comp_def case_prod_beta)

lemma view_roll_up: "view_job (roll_up now j) = view_job (roll_up now' (view_job j))"
proof (cases "is_terminal (rj_state j)")
  case True
  then show ?thesis by (simp add: roll_up_def)
next
  case False
  then show ?thesis
    by (cases "List.find (\<lambda>t. is_failed (ti_state t)) (hm_values (rj_tasks j))")
      (simp_all add: roll_up_def Let_def find_snap values_map_values)
qed

lemma wire_state_from [simp]: "wire_state (job_state_from s) = job_state_from s"
  by (simp add: job_state_from_def wire_state_def)

lemma report_verdict_snap [simp]: "report_verdict w s (snap_task t) = report_verdict w s t"
  by (simp add: report_verdict_def)

lemma snap_reported [simp]:
  "snap_task (reported_task w (job_state_from s) n err t) = reported_task w (job_state_from s) n err (snap_task t)"
  by (simp add: reported_task_def)

lemma modify_const_idem:
  "(\<And>v. f (g v) = f v) \<Longrightarrow> hm_map_values f (hm_modify k g m) = hm_map_values f m"
  by (simp add: hm_map_values_def hm_modify_def comp_def case_prod_beta)

lemma view_note_completed [simp]: "view_job (note_completed i tid j) = view_job j"
proof -
  have "hm_map_values snap_task (hm_modify tid
      (\<lambda>t. if i > ti_last_checkpoint_id t
           then t\<lparr>ti_last_checkpoint_id := i, ti_last_checkpoint_size := 0\<rparr> else t) (rj_tasks j)) =
    hm_map_values snap_task (rj_tasks j)"
    by (rule modify_const_idem) simp
  then show ?thesis by (simp add: note_completed_def view_job_def snap_job_def no_end_def)
qed

lemma view_note_all: "view_job (fold (\<lambda>(tid, _). note_completed i tid) ps j) = view_job j"
  by (induction ps arbitrary: j) (auto simp: case_prod_beta)

lemma map_values_modify:
  assumes "\<And>v. f (g v) = f (h (f v))" and "\<And>v. f (f v) = f v"
  shows "hm_map_values f (hm_modify k g m) = hm_map_values f (hm_modify k h (hm_map_values f m))"
  using assms by (auto simp: hm_map_values_def hm_modify_def)

text \<open>Every command on a node, against the same command on the durable view with another clock: the
  durable views and the results agree.\<close>

lemma apply_command_durable:
  "durable_view (snd (apply_command now cmd c)) = durable_view (snd (apply_command now' cmd (durable_view c)))"
proof (cases cmd)
  case (SubmitJob dto ds)
  then show ?thesis by (simp add: install_job_def map_values_simps)
next
  case (CancelJob job at_ms)
  then show ?thesis
    by (auto simp: apply_cancel_def cancel_job_def durable_drop_pending map_values_simps hm_simps
        split: option.splits)
next
  case (DropJob job)
  then show ?thesis
    by (auto simp: apply_drop_def durable_drop_pending map_values_simps hm_simps split: option.splits)
next
  case (TaskStatus job tid w state records err)
  moreover have "view_job (roll_up now (set_task j tid (reported_task w (job_state_from state) records err t))) =
      view_job (roll_up now' (set_task (view_job j) tid (reported_task w (job_state_from state) records err (snap_task t))))"
    for j t
    using view_roll_up [of now "set_task j tid (reported_task w (job_state_from state) records err t)" now'] by simp
  ultimately show ?thesis
    by (auto simp: report_task_status_from_def Let_def queue_preemption_def map_values_simps hm_simps
        split: option.splits verdict.splits)
next
  case (EvictWorker w)
  have "snap_task (evict_task w j t) = snap_task (evict_task w (view_job j) (snap_task t))" for j t
    by (simp add: evict_task_def)
  with EvictWorker show ?thesis
    by (simp add: evict_worker_def) (simp add: hm_map_values_def comp_def case_prod_beta)
next
  case (CheckpointTriggered job stage at_ms)
  then show ?thesis
    by (auto simp: apply_checkpoint_triggered_def Let_def map_values_simps hm_simps split: option.splits)
next
  case (CheckpointResolved job stage i completed ps)
  let ?g = "\<lambda>j. fold (\<lambda>(tid, _). note_completed i tid) ps
      (j\<lparr>rj_checkpoints_completed := rj_checkpoints_completed j + 1\<rparr>)"
  have "view_job (?g v) = view_job (?g (view_job v))" for v by (simp add: view_note_all)
  then have "hm_map_values view_job (hm_modify job ?g (jc_jobs c)) =
      hm_map_values view_job (hm_modify job ?g (hm_map_values view_job (jc_jobs c)))"
    by (rule map_values_modify) simp
  then show ?thesis
    by (cases completed) (simp_all add: CheckpointResolved apply_checkpoint_resolved_def)
next
  case (MarkDispatched tids w)
  then show ?thesis by (simp add: mark_tasks_dispatched_def) (rule durable_fold, rule durable_mark)
next
  case (AdoptTasks w tids)
  show ?thesis unfolding AdoptTasks apply_command.simps snd_conv adopt_tasks_def
    by (rule durable_fold) (auto simp: adopt_task_def intro!: durable_with_task)
next
  case (ReleaseLostTasks w tids)
  show ?thesis unfolding ReleaseLostTasks apply_command.simps snd_conv release_lost_tasks_def
    by (rule durable_fold) (auto simp: release_lost_task_def intro!: durable_with_task)
next
  case (ObserveTerm t)
  then show ?thesis by (simp add: observe_term_def Let_def)
qed

lemma apply_command_result:
  "fst (apply_command now cmd c) = fst (apply_command now' cmd (durable_view c))"
  by (cases cmd) (auto simp: apply_checkpoint_triggered_def Let_def hm_simps split: option.splits)

section \<open>Applying entries\<close>

definition same_view :: "('m, 'b) machine \<Rightarrow> ('m, 'c) machine \<Rightarrow> bool" where
  "same_view m m' \<longleftrightarrow>
     durable_view (mc_coordinator m) = durable_view (mc_coordinator m') \<and> applied_state m = applied_state m'"

lemma apply_entry_fs [simp]:
  "mc_fs (snd (apply_entry now e m)) = mc_fs m" "mc_dir (snd (apply_entry now e m)) = mc_dir m"
  by (auto simp: apply_entry_def Let_def split: payload.split prod.split)

lemma apply_entries_frame:
  "mc_fs (snd (apply_entries es m)) = mc_fs m \<and> mc_dir (snd (apply_entries es m)) = mc_dir m"
proof (induction es arbitrary: m)
  case (Cons x es)
  then show ?case by (cases x) (simp add: case_prod_beta)
qed simp

lemmas apply_entries_fs [simp] = apply_entries_frame [THEN conjunct1] apply_entries_frame [THEN conjunct2]

lemma apply_entry_same_view:
  assumes "same_view m m'"
  shows "same_view (snd (apply_entry now e m)) (snd (apply_entry now' e m')) \<and>
    fst (apply_entry now e m) = fst (apply_entry now' e m')"
proof (cases "en_payload e")
  case (Normal cmd)
  have "durable_view (snd (apply_command now cmd (mc_coordinator m))) =
      durable_view (snd (apply_command now' cmd (mc_coordinator m')))"
    using apply_command_durable [of now cmd "mc_coordinator m" 0]
      apply_command_durable [of now' cmd "mc_coordinator m'" 0] assms by (simp add: same_view_def)
  moreover have "fst (apply_command now cmd (mc_coordinator m)) = fst (apply_command now' cmd (mc_coordinator m'))"
    using apply_command_result [of now cmd "mc_coordinator m" 0]
      apply_command_result [of now' cmd "mc_coordinator m'" 0] assms by (simp add: same_view_def)
  ultimately show ?thesis using Normal assms
    by (auto simp: apply_entry_def same_view_def applied_state_def split: prod.splits)
qed (use assms in \<open>auto simp: apply_entry_def same_view_def applied_state_def\<close>)

lemma apply_entries_same_view:
  assumes "same_view m m'" and "map snd es = map snd es'"
  shows "same_view (snd (apply_entries es m)) (snd (apply_entries es' m')) \<and>
    fst (apply_entries es m) = fst (apply_entries es' m')"
  using assms
proof (induction es arbitrary: es' m m')
  case (Cons x es)
  then obtain x' rest where l: "es' = x' # rest" "snd x = snd x'" "map snd es = map snd rest" by auto
  obtain now e now' where x: "x = (now, e)" "x' = (now', e)" using l(2) by (cases x; cases x') auto
  note s = apply_entry_same_view [OF Cons.prems(1), of now e now']
  with Cons.IH [OF _ l(3), of "snd (apply_entry now e m)" "snd (apply_entry now' e m')"] show ?case
    by (simp add: l(1) x case_prod_beta)
qed simp

lemma apply_entries_applied:
  "mc_last_applied (snd (apply_entries es m)) =
     (if es = [] then mc_last_applied m else Some (en_log_id (snd (last es))))"
proof (induction es arbitrary: m)
  case (Cons x es)
  have "mc_last_applied (snd (apply_entry now e m)) = Some (en_log_id e)" for now e
    by (auto simp: apply_entry_def Let_def split: prod.split)
  with Cons show ?case by (cases x) (simp add: case_prod_beta)
qed simp

section \<open>Snapshot files\<close>

lemma write_synced_result:
  assumes "tmp \<noteq> final" and "n \<noteq> tmp"
  shows "hm_get (read_dir (exec_ops (write_synced p tmp final bs) fs) q) n =
    (if q = p \<and> n = final then Some bs else hm_get (read_dir fs q) n)"
  using assms by (simp add: exec_ops_def write_synced_def hm_simps)

lemma write_synced_crash:
  assumes "fs' \<in> set (crash_states (write_synced p tmp final bs) fs)" and "n \<noteq> tmp"
  shows "hm_get (read_dir fs' q) n = hm_get (read_dir fs q) n"
  using assms by (auto simp: write_synced_def hm_simps split: if_splits)

lemma attempt_write_synced:
  assumes "attempt (write_synced p tmp final bs) fault fs = (ok, fs')" and "tmp \<noteq> final" and "n \<noteq> tmp"
  shows "hm_get (read_dir fs' q) n = (if ok \<and> q = p \<and> n = final then Some bs else hm_get (read_dir fs q) n)"
  using assms
  by (auto simp: attempt_def write_synced_result split: option.splits if_splits
      intro: write_synced_crash [OF nth_mem])

lemma snapshot_names [simp]: "snapshot_tmp \<noteq> snapshot_file"
  by (simp add: snapshot_tmp_def snapshot_file_def)

lemmas attempt_synced = attempt_write_synced [where tmp = snapshot_tmp and final = snapshot_file and n = snapshot_file, OF _ snapshot_names snapshot_names [symmetric]]

text \<open>The document a successful build leaves on disk.\<close>

definition built_doc :: "snapshot \<Rightarrow> ('m, 'b) machine \<Rightarrow> 'm snapshot_doc" where
  "built_doc state m =
     \<lparr>sd_state = state, sd_membership = Some (mc_membership m), sd_last_applied = mc_last_applied m,
      sd_meta = Some (snapshot_meta_of m)\<rparr>"

lemma build_snapshot_disk:
  assumes "build_snapshot dc fault state m = (r, m1)"
  shows "mc_coordinator m1 = mc_coordinator m" "applied_state m1 = applied_state m" "mc_dir m1 = mc_dir m"
    "r = None \<Longrightarrow> hm_get (read_dir (mc_fs m1) (mc_dir m)) snapshot_file = hm_get (read_dir (mc_fs m) (mc_dir m)) snapshot_file"
    "r \<noteq> None \<Longrightarrow> r = Some (snapshot_meta_of m, doc_enc dc (built_doc state m)) \<and>
       hm_get (read_dir (mc_fs m1) (mc_dir m)) snapshot_file = Some (doc_enc dc (built_doc state m))"
proof -
  let ?bs = "doc_enc dc (built_doc state m)"
  obtain ok fs where a: "attempt (write_synced (mc_dir m) snapshot_tmp snapshot_file ?bs) fault (mc_fs m) = (ok, fs)"
    by (cases "attempt (write_synced (mc_dir m) snapshot_tmp snapshot_file ?bs) fault (mc_fs m)")
  have meta: "sm_last_log_id (snapshot_meta_of m) = mc_last_applied m" by (simp add: snapshot_meta_of_def)
  have r: "(r, m1) = (if ok then (Some (snapshot_meta_of m, ?bs), m\<lparr>mc_fs := fs, mc_current_snapshot := None\<rparr>)
      else (None, m\<lparr>mc_fs := fs\<rparr>))"
    using assms a by (simp add: build_snapshot_def Let_def built_doc_def meta split: bool.splits)
  then show "mc_coordinator m1 = mc_coordinator m" "applied_state m1 = applied_state m" "mc_dir m1 = mc_dir m"
    by (auto simp: applied_state_def split: if_splits)
  show "r = None \<Longrightarrow> hm_get (read_dir (mc_fs m1) (mc_dir m)) snapshot_file = hm_get (read_dir (mc_fs m) (mc_dir m)) snapshot_file"
    "r \<noteq> None \<Longrightarrow> r = Some (snapshot_meta_of m, doc_enc dc (built_doc state m)) \<and>
       hm_get (read_dir (mc_fs m1) (mc_dir m)) snapshot_file = Some (doc_enc dc (built_doc state m))"
    using r attempt_synced [OF a] by (auto split: if_splits)
qed

lemma machine_new_doc:
  assumes "hm_get (read_dir fs p) snapshot_file = Some bytes" and "doc_dec dc bytes = Some d"
  shows "mc_coordinator (machine_new dc m0 c p fs) = replace_state (sd_state d) c"
    "applied_state (machine_new dc m0 c p fs) = (sd_last_applied d, case sd_membership d of None \<Rightarrow> (None, m0) | Some mem \<Rightarrow> mem)"
  using assms by (simp_all add: machine_new_def load_snapshot_from_disk_def applied_state_def)

section \<open>The view of an installed snapshot\<close>

lemma replace_state_term: "jc_term (replace_state (export_state src) c) = max (jc_term src) (jc_term c)"
  by (simp add: replace_state_def import_state_def export_state_def observe_opt_def observe_term_def Let_def
      max_def)

lemma durable_replace_state:
  assumes "registry_wf src" and "tasks_wf (jc_all_tasks src)" and "jc_term c \<le> jc_term src"
  shows "durable_view (replace_state (export_state src) c) = durable_view src"
proof -
  have "hm_map_values view_job (hm_map_values snap_job (jc_jobs src)) = hm_map_values view_job (jc_jobs src)"
    by (simp add: hm_map_values_def view_job_def snap_job_def no_end_def comp_def case_prod_beta)
  then show ?thesis
    using installed_state [OF assms(1,2), of c] replace_state_term [of src c] assms(3)
    by (simp add: durable_view_def)
qed

text \<open>The machine a node runs after a restart: a fresh coordinator over the files of \<open>m\<close>.\<close>

definition restarted :: "('m, 'b) doc_codec \<Rightarrow> 'm \<Rightarrow> ('m, 'b) machine \<Rightarrow> ('m, 'b) machine" where
  "restarted dc m0 m = machine_new dc m0 jc_new (mc_dir m) (mc_fs m)"

lemma restarted_built:
  assumes "doc_codec_ok dc" and "build_snapshot dc fault state m = (Some s, m1)" and "mc_fs m2 = mc_fs m1"
    and "mc_dir m2 = mc_dir m1"
  shows "mc_coordinator (restarted dc m0 m2) = replace_state state jc_new"
    "applied_state (restarted dc m0 m2) = applied_state m"
proof -
  have d: "hm_get (read_dir (mc_fs m2) (mc_dir m2)) snapshot_file = Some (doc_enc dc (built_doc state m))"
    "doc_dec dc (doc_enc dc (built_doc state m)) = Some (built_doc state m)"
    using build_snapshot_disk [OF assms(2)] assms(1,3,4) by (simp_all add: doc_codec_ok_def)
  note n = machine_new_doc [OF d, of m0 jc_new]
  then show "mc_coordinator (restarted dc m0 m2) = replace_state state jc_new"
    "applied_state (restarted dc m0 m2) = applied_state m"
    by (simp_all add: restarted_def built_doc_def applied_state_def)
qed

section \<open>Properties\<close>

definition demo_codec_doc :: "(unit, unit snapshot_doc) doc_codec" where
  "demo_codec_doc = \<lparr>doc_enc = (\<lambda>d. [d]), doc_dec = (\<lambda>bs. case bs of [d] \<Rightarrow> Some d | _ \<Rightarrow> None)\<rparr>"

lemma demo_codec_doc_ok: "doc_codec_ok demo_codec_doc"
  by (simp add: doc_codec_ok_def demo_codec_doc_def)

definition demo_machine :: "(unit, unit snapshot_doc) machine" where
  "demo_machine =
     \<lparr>mc_coordinator = demo_jc ''RUNNING'', mc_dir = [''raft''],
      mc_last_applied = Some \<lparr>lid_term = 1, lid_node = 1, lid_index = 4\<rparr>, mc_membership = (None, ()),
      mc_current_snapshot = None, mc_fs = hm_empty\<rparr>"

definition demo_entry :: "unit entry" where
  "demo_entry = \<lparr>en_log_id = \<lparr>lid_term = 1, lid_node = 1, lid_index = 5\<rparr>, en_payload = Normal (EvictWorker ''w1'')\<rparr>"

definition demo_follower :: "(unit, unit snapshot_doc) machine" where
  "demo_follower = machine_new demo_codec_doc () jc_new [''raft2''] hm_empty"

lemma demo_machine_wf:
  "registry_wf (mc_coordinator demo_machine)" "tasks_wf (jc_all_tasks (mc_coordinator demo_machine))"
  "1 \<le> jc_term (mc_coordinator demo_machine)" "jc_term (mc_coordinator demo_follower) \<le> jc_term (mc_coordinator demo_machine)"
proof -
  show "registry_wf (mc_coordinator demo_machine)" by (simp add: demo_machine_def demo_registry)
  show "tasks_wf (jc_all_tasks (mc_coordinator demo_machine))"
    by (auto simp: tasks_wf_def demo_machine_def demo_jc_tasks hm_wf_def hm_get_def demo_desc_def i32_def split: if_splits)
  show "1 \<le> jc_term (mc_coordinator demo_machine)"
    by (simp add: demo_machine_def demo_jc_def install_job_def jc_new_def)
  show "jc_term (mc_coordinator demo_follower) \<le> jc_term (mc_coordinator demo_machine)"
    by (simp add: demo_machine_def demo_jc_def install_job_def jc_new_def demo_follower_def machine_new_def
        load_snapshot_from_disk_def read_dir_def)
qed

text \<open>
  Restart is snapshot plus replay. A node builds a snapshot and applies further entries; when it
  restarts from its snapshot file and the same entries are applied again, on whatever clock, the
  results are the same and it ends in the same state: the same applied pointer and membership, and the
  same jobs, tasks, owners, counters, plans and term, up to what a snapshot leaves out (end times, the
  reason of a failure, the progress and log fields of tasks, pending checkpoints, outboxes, payloads).
\<close>

lemma restart_replay_view:
  assumes "doc_codec_ok dc" and "registry_wf (mc_coordinator m)"
    and "tasks_wf (jc_all_tasks (mc_coordinator m))" and "1 \<le> jc_term (mc_coordinator m)"
    and "build_snapshot dc fault (export_state (mc_coordinator m)) m = (Some s, m1)"
    and "map snd es = map snd es'"
  shows "same_view (snd (apply_entries es m1)) (snd (apply_entries es' (restarted dc m0 (snd (apply_entries es m1))))) \<and>
    fst (apply_entries es m1) = fst (apply_entries es' (restarted dc m0 (snd (apply_entries es m1))))"
proof (rule apply_entries_same_view [OF _ assms(6)])
  note b = build_snapshot_disk [OF assms(5)]
  note r = restarted_built [OF assms(1,5) apply_entries_fs, of m0 es]
  show "same_view m1 (restarted dc m0 (snd (apply_entries es m1)))"
    using durable_replace_state [OF assms(2,3), of jc_new] assms(4) b(1,2)
    by (simp add: same_view_def r) (simp add: jc_new_def)
qed



text \<open>
  A snapshot can claim an entry it does not contain. The builder exports the coordinator first and
  reads the applied pointer later, under another lock; when an entry is applied in between, the
  document records that entry as applied with the state from before it. A restart then resumes after
  the entry with a coordinator on which it never ran: its effect is lost on this node.
\<close>

theorem snapshot_race_loses_entry:
  assumes "doc_codec_ok dc" and "registry_wf (mc_coordinator m)"
    and "tasks_wf (jc_all_tasks (mc_coordinator m))" and "1 \<le> jc_term (mc_coordinator m)"
    and "apply_entry now e m = (r, m1)"
    and "build_snapshot dc fault (export_state (mc_coordinator m)) m1 = (Some s, m2)"
  shows "mc_last_applied (restarted dc m0 m2) = Some (en_log_id e) \<and>
    durable_view (mc_coordinator (restarted dc m0 m2)) = durable_view (mc_coordinator m)"
proof -
  note rb = restarted_built [OF assms(1,6) refl refl, of m0]
  have "mc_last_applied m1 = Some (en_log_id e)"
    using assms(5) by (auto simp: apply_entry_def Let_def split: prod.splits)
  then show ?thesis
    using rb durable_replace_state [OF assms(2,3), of jc_new] assms(4)
    by (simp add: applied_state_def) (simp add: jc_new_def)
qed

theorem snapshot_race_loses_entry_witness:
  "\<exists>r m1 s m2. apply_entry 5 demo_entry demo_machine = (r, m1) \<and>
     build_snapshot demo_codec_doc None (export_state (mc_coordinator demo_machine)) m1 = (Some s, m2) \<and>
     mc_last_applied (restarted demo_codec_doc () m2) = Some (en_log_id demo_entry) \<and>
     durable_view (mc_coordinator (restarted demo_codec_doc () m2)) \<noteq> durable_view (mc_coordinator m1)"
proof -
  obtain r m1 where a: "apply_entry 5 demo_entry demo_machine = (r, m1)" by (cases "apply_entry 5 demo_entry demo_machine")
  obtain s m2 where b: "build_snapshot demo_codec_doc None (export_state (mc_coordinator demo_machine)) m1 = (Some s, m2)"
    by (simp add: build_snapshot_def Let_def attempt_def)
  have m1: "mc_coordinator m1 = evict_worker ''w1'' (demo_jc ''RUNNING'')"
    using a by (auto simp: apply_entry_def demo_entry_def demo_machine_def)
  let ?states = "\<lambda>c. map (\<lambda>(_, j). map (\<lambda>(_, t). ti_state t) (rj_tasks j)) (jc_jobs (durable_view c))"
  have "?states (mc_coordinator m1) = [[Deploying]]"
    unfolding m1 by (simp add: evict_worker_def demo_jc_jobs hm_map_values_def job_of_dto_def demo_dto_def
        tasks_of_dto_def info_of_dto_def task_info_new_def evict_task_def on_worker_def job_state_from_def
        wire_state_def hm_insert_def hm_empty_def)
  moreover have "?states (mc_coordinator demo_machine) = [[Running]]"
    by (simp add: demo_machine_def demo_jc_jobs hm_map_values_def job_of_dto_def demo_dto_def
        tasks_of_dto_def info_of_dto_def task_info_new_def job_state_from_def wire_state_def
        hm_insert_def hm_empty_def)
  ultimately have "?states (mc_coordinator m1) \<noteq> ?states (mc_coordinator demo_machine)" by simp
  then have "durable_view (mc_coordinator m1) \<noteq> durable_view (mc_coordinator demo_machine)"
    by (rule contrapos_nn) (simp only:)
  with snapshot_race_loses_entry [OF demo_codec_doc_ok demo_machine_wf(1-3) a b, of "()"] a b show ?thesis by auto
qed

end
