(* ===== verification/Ordered_Map.thy ===== *)
theory Ordered_Map
  imports Prelude
begin

text \<open>
  A \<open>BTreeMap\<close> as the list of its entries in key order, a second implementation of the dictionary
  interface. Besides lookups, clients use the order: the entries of a range, the last entry, and that
  a map is rebuilt by inserting its own entries.
\<close>

type_synonym ('k, 'v) btree = "('k \<times> 'v) list"

definition bt_insert :: "'k::linorder \<Rightarrow> 'v \<Rightarrow> ('k, 'v) btree \<Rightarrow> ('k, 'v) btree" where
  "bt_insert k v m = filter (\<lambda>p. fst p < k) m @ (k, v) # filter (\<lambda>p. k < fst p) m"

definition bt_remove :: "'k::linorder \<Rightarrow> ('k, 'v) btree \<Rightarrow> ('k, 'v) btree" where
  "bt_remove k m = filter (\<lambda>p. fst p \<noteq> k) m"

definition bt_retain :: "('k \<Rightarrow> bool) \<Rightarrow> ('k, 'v) btree \<Rightarrow> ('k, 'v) btree" where
  "bt_retain P m = filter (\<lambda>p. P (fst p)) m"

definition bt_wf :: "('k::linorder, 'v) btree \<Rightarrow> bool" where
  "bt_wf m = sorted_wrt (<) (map fst m)"

lemma bt_wf_Cons: "bt_wf (p # m) \<longleftrightarrow> (\<forall>q\<in>set m. fst p < fst q) \<and> bt_wf m"
  by (auto simp: bt_wf_def)

lemma bt_wf_append: "bt_wf (m @ n) \<longleftrightarrow> bt_wf m \<and> bt_wf n \<and> (\<forall>p\<in>set m. \<forall>q\<in>set n. fst p < fst q)"
  by (auto simp: bt_wf_def sorted_wrt_append)

lemma bt_wf_filter: "bt_wf m \<Longrightarrow> bt_wf (filter P m)"
  by (induction m) (auto simp: bt_wf_Cons bt_wf_def)

lemma bt_wf_Nil [simp]: "bt_wf []"
  by (simp add: bt_wf_def)

lemma bt_wf_retain [inv_intros]: "bt_wf m \<Longrightarrow> bt_wf (bt_retain P m)"
  by (simp add: bt_retain_def bt_wf_filter)

lemma bt_wf_insert [inv_intros]: "bt_wf m \<Longrightarrow> bt_wf (bt_insert k v m)"
  by (fastforce simp: bt_insert_def bt_wf_append bt_wf_Cons bt_wf_filter)

lemma hm_get_filter_key: "hm_get (filter (\<lambda>p. P (fst p)) m) k = (if P k then hm_get m k else None)"
  by (induction m) (auto simp: hm_get_def)

lemma hm_get_append: "hm_get (m @ n) k = (case hm_get m k of None \<Rightarrow> hm_get n k | Some v \<Rightarrow> Some v)"
  by (cases "map_of m k") (simp_all add: hm_get_def map_add_def)

lemma hm_get_Cons: "hm_get (p # m) k = (if fst p = k then Some (snd p) else hm_get m k)"
  by (simp add: hm_get_def)

lemma bt_get_insert: "hm_get (bt_insert k v m) k' = (if k' = k then Some v else hm_get m k')"
  unfolding bt_insert_def hm_get_append hm_get_Cons
    hm_get_filter_key [of "\<lambda>x. x < k"] hm_get_filter_key [of "\<lambda>x. k < x"]
  by (auto split: option.split)

interpretation bt: dict "[]" hm_get bt_insert bt_remove bt_wf
proof unfold_locales
  show "hm_get (bt_remove k m) k' = (if k' = k then None else hm_get m k')" for k k' :: 'a and m :: "('a \<times> 'b) list"
    using hm_get_filter_key [of "\<lambda>x. x \<noteq> k" m k'] by (simp add: bt_remove_def)
qed (auto simp: bt_get_insert bt_remove_def bt_wf_filter intro: inv_intros)

text \<open>Inserting past the end appends, and inserting the entries of a map in order rebuilds it.\<close>

lemma bt_insert_last:
  assumes "\<forall>p\<in>set m. fst p < k"
  shows "bt_insert k v m = m @ [(k, v)]"
proof -
  have "filter (\<lambda>p. fst p < k) m = m" "filter (\<lambda>p. k < fst p) m = []"
    using assms by (auto simp: filter_id_conv filter_empty_conv)
  then show ?thesis by (simp add: bt_insert_def)
qed

lemma bt_rebuild: "bt_wf (n @ m) \<Longrightarrow> fold (\<lambda>p. bt_insert (fst p) (snd p)) m n = n @ m"
proof (induction m arbitrary: n)
  case (Cons p m)
  then have "bt_insert (fst p) (snd p) n = n @ [p]" by (simp add: bt_insert_last bt_wf_append)
  with Cons show ?case by simp
qed simp

end
