(* ===== verification/Raft_Log.thy ===== *)
theory Raft_Log
  imports Raft_Machine Ordered_Map
begin

text \<open>
  The file-backed Raft log (\<open>raft/log_store.rs\<close>): \<open>log.jsonl\<close> with one entry per line, \<open>vote.json\<close>
  and \<open>purged.json\<close>. The store reads nothing of an entry but its log id, so entries, like votes, are
  values of an arbitrary type. Their JSON forms (\<open>serde_json\<close>) are a parameter (\<open>log_codec\<close>) with the
  laws a line-oriented file relies on: decoding reads back what encoding wrote, and an encoded entry
  is a non-empty line.
\<close>

section \<open>Types\<close>

record ('e, 'v) log_codec =
  lc_log_id :: "'e \<Rightarrow> log_id"
  lc_enc :: "'e \<Rightarrow> string"
  lc_dec :: "string \<Rightarrow> 'e option"
  vote_enc :: "'v \<Rightarrow> string"
  vote_dec :: "string \<Rightarrow> 'v option"
  id_enc :: "log_id \<Rightarrow> string"
  id_dec :: "string \<Rightarrow> log_id option"

definition newline :: char where
  "newline = CHR 0x0A"

definition log_codec_ok :: "('e, 'v) log_codec \<Rightarrow> 'e set \<Rightarrow> bool" where
  "log_codec_ok c E \<longleftrightarrow>
     (\<forall>e\<in>E. lc_dec c (lc_enc c e) = Some e \<and> newline \<notin> set (lc_enc c e) \<and> lc_enc c e \<noteq> []) \<and>
     (\<forall>v. vote_dec c (vote_enc c v) = Some v) \<and> (\<forall>l. id_dec c (id_enc c l) = Some l)"

record ('e, 'v) log_inner =
  li_dir :: path
  li_entries :: "(nat, 'e) btree"
  li_vote :: "'v option"
  li_last_purged :: "log_id option"
  li_fs :: "char fs"

definition log_file :: string where
  "log_file = ''log.jsonl''"

definition vote_file :: string where
  "vote_file = ''vote.json''"

definition purged_file :: string where
  "purged_file = ''purged.json''"

definition entry_index :: "('e, 'v) log_codec \<Rightarrow> 'e \<Rightarrow> nat" where
  "entry_index c e = lid_index (lc_log_id c e)"

section \<open>Operations\<close>

text \<open>\<open>bytes.split(|b| *b == b'\n')\<close>: at least one piece, empty pieces included.\<close>

fun split_lines :: "string \<Rightarrow> string list" where
  "split_lines [] = [[]]"
| "split_lines (b # bs) =
     (if b = newline then [] # split_lines bs
      else (case split_lines bs of [] \<Rightarrow> [[b]] | l # ls \<Rightarrow> (b # l) # ls))"

fun load_lines :: "('e, 'v) log_codec \<Rightarrow> string list \<Rightarrow> (nat, 'e) btree \<Rightarrow> (nat, 'e) btree option" where
  "load_lines c [] m = Some m"
| "load_lines c (l # ls) m =
     (if l = [] then load_lines c ls m
      else case lc_dec c l of
             None \<Rightarrow> None
           | Some e \<Rightarrow> load_lines c ls (bt_insert (entry_index c e) e m))"

text \<open>A file that is not there is skipped (\<open>Some None\<close>), one that does not decode is an error (\<open>None\<close>).\<close>

definition read_json :: "(string \<Rightarrow> 'a option) \<Rightarrow> char fs \<Rightarrow> path \<Rightarrow> string \<Rightarrow> 'a option option" where
  "read_json dec fs p n =
     (case hm_get (read_dir fs p) n of
        None \<Rightarrow> Some None
      | Some bytes \<Rightarrow> (case dec bytes of None \<Rightarrow> None | Some x \<Rightarrow> Some (Some x)))"

definition load_from_disk :: "('e, 'v) log_codec \<Rightarrow> ('e, 'v) log_inner \<Rightarrow> ('e, 'v) log_inner option" where
  "load_from_disk c s =
     (case read_json (vote_dec c) (li_fs s) (li_dir s) vote_file of
        None \<Rightarrow> None
      | Some vote \<Rightarrow>
     (case read_json (id_dec c) (li_fs s) (li_dir s) purged_file of
        None \<Rightarrow> None
      | Some purged \<Rightarrow>
     (case hm_get (read_dir (li_fs s) (li_dir s)) log_file of
        None \<Rightarrow> Some (s\<lparr>li_vote := vote, li_last_purged := purged\<rparr>)
      | Some bytes \<Rightarrow>
     (case load_lines c (split_lines bytes) (li_entries s) of
        None \<Rightarrow> None
      | Some es \<Rightarrow> Some (s\<lparr>li_vote := vote, li_last_purged := purged, li_entries := es\<rparr>)))))"

definition empty_log :: "path \<Rightarrow> char fs \<Rightarrow> ('e, 'v) log_inner" where
  "empty_log p fs = \<lparr>li_dir = p, li_entries = [], li_vote = None, li_last_purged = None, li_fs = fs\<rparr>"

definition log_store_new :: "('e, 'v) log_codec \<Rightarrow> path \<Rightarrow> char fs \<Rightarrow> ('e, 'v) log_inner option" where
  "log_store_new c p fs = load_from_disk c (empty_log p fs)"

text \<open>\<open>path.with_extension(\<dots>)\<close> replaces the extension, so the temporary file of \<open>log.jsonl\<close> is
  \<open>log.tmp.<pid>\<close>. \<open>stem\<close> and \<open>ext\<close> are the two parts of the file name.\<close>

definition write_atomic :: "nat \<Rightarrow> path \<Rightarrow> string \<Rightarrow> string \<Rightarrow> string \<Rightarrow> char fs_op list" where
  "write_atomic pid p stem ext bs =
     write_synced p (stem @ ''.tmp.'' @ show_nat pid) (stem @ ''.'' @ ext) bs"

definition line_ops :: "('e, 'v) log_codec \<Rightarrow> path \<Rightarrow> 'e \<Rightarrow> char fs_op list" where
  "line_ops c p e = [Append_All p log_file (lc_enc c e), Append_All p log_file [newline]]"

text \<open>\<open>fault n\<close> is the fault of the \<open>n\<close>-th stage of an append: opening the file, each line, the sync.\<close>

type_synonym faults = "nat \<Rightarrow> nat option"

fun append_loop ::
    "('e, 'v) log_codec \<Rightarrow> faults \<Rightarrow> nat \<Rightarrow> 'e list \<Rightarrow> ('e, 'v) log_inner \<Rightarrow> bool \<times> ('e, 'v) log_inner" where
  "append_loop c fault n [] s = (True, s)"
| "append_loop c fault n (e # es) s =
     (case attempt (line_ops c (li_dir s) e) (fault n) (li_fs s) of
        (False, fs) \<Rightarrow> (False, s\<lparr>li_fs := fs\<rparr>)
      | (True, fs) \<Rightarrow>
          append_loop c fault (n + 1) es
            (s\<lparr>li_fs := fs, li_entries := bt_insert (entry_index c e) e (li_entries s)\<rparr>))"

definition append_lines ::
    "('e, 'v) log_codec \<Rightarrow> faults \<Rightarrow> 'e list \<Rightarrow> ('e, 'v) log_inner \<Rightarrow> bool \<times> ('e, 'v) log_inner" where
  "append_lines c fault es s =
     (case attempt [Open_Append (li_dir s) log_file] (fault 0) (li_fs s) of
        (False, fs) \<Rightarrow> (False, s\<lparr>li_fs := fs\<rparr>)
      | (True, fs) \<Rightarrow>
          (case append_loop c fault 1 es (s\<lparr>li_fs := fs\<rparr>) of
             (False, s1) \<Rightarrow> (False, s1)
           | (True, s1) \<Rightarrow>
               (case attempt [Sync_All (li_dir s1) log_file] (fault (length es + 1)) (li_fs s1) of
                  (ok, fs) \<Rightarrow> (ok, s1\<lparr>li_fs := fs\<rparr>))))"

definition log_bytes :: "('e, 'v) log_codec \<Rightarrow> 'e list \<Rightarrow> string" where
  "log_bytes c es = concat (map (\<lambda>e. lc_enc c e @ [newline]) es)"

definition rewrite_log ::
    "('e, 'v) log_codec \<Rightarrow> nat \<Rightarrow> nat option \<Rightarrow> ('e, 'v) log_inner \<Rightarrow> bool \<times> ('e, 'v) log_inner" where
  "rewrite_log c pid fault s =
     (case attempt (write_atomic pid (li_dir s) ''log'' ''jsonl'' (log_bytes c (hm_values (li_entries s))))
             fault (li_fs s) of
        (ok, fs) \<Rightarrow> (ok, s\<lparr>li_fs := fs\<rparr>))"

text \<open>The bounds of \<open>BTreeMap::range\<close>, which panics (\<open>None\<close>) on a range that ends before it starts.\<close>

datatype bound = Included nat | Excluded nat | Unbounded

fun above :: "bound \<Rightarrow> nat \<Rightarrow> bool" where
  "above (Included a) i = (a \<le> i)"
| "above (Excluded a) i = (a < i)"
| "above Unbounded i = True"

fun below :: "bound \<Rightarrow> nat \<Rightarrow> bool" where
  "below (Included b) i = (i \<le> b)"
| "below (Excluded b) i = (i < b)"
| "below Unbounded i = True"

fun bad_range :: "bound \<Rightarrow> bound \<Rightarrow> bool" where
  "bad_range (Included a) (Included b) = (b < a)"
| "bad_range (Included a) (Excluded b) = (b < a)"
| "bad_range (Excluded a) (Included b) = (b < a)"
| "bad_range (Excluded a) (Excluded b) = (b \<le> a)"
| "bad_range _ _ = False"

definition try_get_log_entries :: "bound \<Rightarrow> bound \<Rightarrow> ('e, 'v) log_inner \<Rightarrow> 'e list option" where
  "try_get_log_entries lo hi s =
     (if bad_range lo hi then None
      else Some (map snd (filter (\<lambda>(i, _). above lo i \<and> below hi i) (li_entries s))))"

text \<open>\<open>(last_purged_log_id, last_log_id)\<close>\<close>

definition get_log_state :: "('e, 'v) log_codec \<Rightarrow> ('e, 'v) log_inner \<Rightarrow> log_id option \<times> log_id option" where
  "get_log_state c s =
     (li_last_purged s,
      if li_entries s = [] then None else Some (lc_log_id c (snd (last (li_entries s)))))"

definition save_vote ::
    "('e, 'v) log_codec \<Rightarrow> nat \<Rightarrow> nat option \<Rightarrow> 'v \<Rightarrow> ('e, 'v) log_inner \<Rightarrow> bool \<times> ('e, 'v) log_inner" where
  "save_vote c pid fault v s =
     (case attempt (write_atomic pid (li_dir s) ''vote'' ''json'' (vote_enc c v)) fault (li_fs s) of
        (False, fs) \<Rightarrow> (False, s\<lparr>li_fs := fs\<rparr>)
      | (True, fs) \<Rightarrow> (True, s\<lparr>li_fs := fs, li_vote := Some v\<rparr>))"

definition read_vote :: "('e, 'v) log_inner \<Rightarrow> 'v option" where
  "read_vote s = li_vote s"

definition truncate_log ::
    "('e, 'v) log_codec \<Rightarrow> nat \<Rightarrow> nat option \<Rightarrow> log_id \<Rightarrow> ('e, 'v) log_inner \<Rightarrow> bool \<times> ('e, 'v) log_inner" where
  "truncate_log c pid fault l s =
     rewrite_log c pid fault (s\<lparr>li_entries := bt_retain (\<lambda>i. i < lid_index l) (li_entries s)\<rparr>)"

definition purge_log ::
    "('e, 'v) log_codec \<Rightarrow> nat \<Rightarrow> faults \<Rightarrow> log_id \<Rightarrow> ('e, 'v) log_inner \<Rightarrow> bool \<times> ('e, 'v) log_inner" where
  "purge_log c pid fault l s =
     (case rewrite_log c pid (fault 0)
             (s\<lparr>li_entries := bt_retain (\<lambda>i. lid_index l < i) (li_entries s), li_last_purged := Some l\<rparr>) of
        (False, s1) \<Rightarrow> (False, s1)
      | (True, s1) \<Rightarrow>
          (case attempt (write_atomic pid (li_dir s1) ''purged'' ''json'' (id_enc c l)) (fault 1) (li_fs s1) of
             (ok, fs) \<Rightarrow> (ok, s1\<lparr>li_fs := fs\<rparr>)))"

datatype ('e, 'v) log_op = Append "'e list" | Truncate log_id | Purge log_id | Save_Vote 'v

definition log_exec ::
    "('e, 'v) log_codec \<Rightarrow> nat \<Rightarrow> faults \<Rightarrow> ('e, 'v) log_op \<Rightarrow> ('e, 'v) log_inner \<Rightarrow> bool \<times> ('e, 'v) log_inner" where
  "log_exec c pid fault oper s =
     (case oper of
        Append es \<Rightarrow> append_lines c fault es s
      | Truncate l \<Rightarrow> truncate_log c pid (fault 0) l s
      | Purge l \<Rightarrow> purge_log c pid fault l s
      | Save_Vote v \<Rightarrow> save_vote c pid (fault 0) v s)"

text \<open>\<open>openraft\<close> stops a node on a storage error: a run is a sequence of operations that all succeed.\<close>

fun log_run ::
    "('e, 'v) log_codec \<Rightarrow> nat \<Rightarrow> (faults \<times> ('e, 'v) log_op) list \<Rightarrow> ('e, 'v) log_inner \<Rightarrow> ('e, 'v) log_inner option" where
  "log_run c pid [] s = Some s"
| "log_run c pid ((fault, oper) # ops) s =
     (case log_exec c pid fault oper s of
        (False, _) \<Rightarrow> None
      | (True, s1) \<Rightarrow> log_run c pid ops s1)"

section \<open>Reading lines back\<close>

lemma split_lines_line:
  "newline \<notin> set l \<Longrightarrow> split_lines (l @ newline # bs) = l # split_lines bs"
  by (induction l) auto

lemma split_lines_no_newline: "newline \<notin> set l \<Longrightarrow> split_lines l = [l]"
  by (induction l) auto

definition load_entries :: "('e, 'v) log_codec \<Rightarrow> 'e list \<Rightarrow> (nat, 'e) btree \<Rightarrow> (nat, 'e) btree" where
  "load_entries c es m = fold (\<lambda>e. bt_insert (entry_index c e) e) es m"

lemma load_entries_simps [simp]:
  "load_entries c [] m = m" "load_entries c (e # es) m = load_entries c es (bt_insert (entry_index c e) e m)"
  "load_entries c (es @ fs) m = load_entries c fs (load_entries c es m)"
  by (simp_all add: load_entries_def)

lemma load_log_bytes:
  assumes "log_codec_ok c E" and "set es \<subseteq> E"
  shows "load_lines c (split_lines (log_bytes c es @ rest)) m =
    load_lines c (split_lines rest) (load_entries c es m)"
  using assms(2)
proof (induction es arbitrary: m)
  case (Cons e es)
  with assms(1) have e: "lc_dec c (lc_enc c e) = Some e" "newline \<notin> set (lc_enc c e)" "lc_enc c e \<noteq> []"
    by (auto simp: log_codec_ok_def)
  have "split_lines (log_bytes c (e # es) @ rest) = lc_enc c e # split_lines (log_bytes c es @ rest)"
    using split_lines_line [OF e(2)] by (simp add: log_bytes_def)
  with e Cons show ?case by simp
qed (simp add: log_bytes_def)

lemma load_entries_wf [inv_intros]: "bt_wf m \<Longrightarrow> bt_wf (load_entries c es m)"
  unfolding load_entries_def by (rule bt.wf_fold_insert)

definition keyed :: "('e, 'v) log_codec \<Rightarrow> 'e set \<Rightarrow> (nat, 'e) btree \<Rightarrow> bool" where
  "keyed c E m \<longleftrightarrow> bt_wf m \<and> (\<forall>(i, e)\<in>set m. i = entry_index c e \<and> e \<in> E)"

lemma keyed_bt_insert: "keyed c E m \<Longrightarrow> e \<in> E \<Longrightarrow> keyed c E (bt_insert (entry_index c e) e m)"
  by (auto simp: keyed_def bt_wf_insert) (auto simp: bt_insert_def)

lemma keyed_bt_load: "keyed c E m \<Longrightarrow> set es \<subseteq> E \<Longrightarrow> keyed c E (load_entries c es m)"
  by (induction es arbitrary: m) (auto intro: keyed_bt_insert)

lemma keyed_bt_retain: "keyed c E m \<Longrightarrow> keyed c E (bt_retain P m)"
  by (auto simp: keyed_def bt_wf_retain) (auto simp: bt_retain_def)

lemma load_values:
  assumes "keyed c E m"
  shows "load_entries c (hm_values m) [] = m"
proof -
  have "load_entries c (hm_values m) n = fold (\<lambda>p. bt_insert (fst p) (snd p)) m n" for n
    using assms unfolding keyed_def hm_values_def
    by (simp add: load_entries_def fold_map comp_def case_prod_beta cong: fold_cong)
  then show ?thesis using bt_rebuild [of "[]" m] assms by (simp add: keyed_def)
qed

section \<open>Memory and disk agree\<close>

text \<open>
  What the store's comment calls \<open>always equal after each op\<close>: the lines of the log file, inserted in
  order, give the entries in memory, and the two small files hold the vote and the purge marker.
\<close>

definition log_synced :: "('e, 'v) log_codec \<Rightarrow> 'e set \<Rightarrow> ('e, 'v) log_inner \<Rightarrow> bool" where
  "log_synced c E s \<longleftrightarrow>
     (\<exists>es. set es \<subseteq> E \<and> file_bytes (li_fs s) (li_dir s) log_file = log_bytes c es \<and>
        li_entries s = load_entries c es []) \<and>
     hm_get (read_dir (li_fs s) (li_dir s)) vote_file = map_option (vote_enc c) (li_vote s) \<and>
     hm_get (read_dir (li_fs s) (li_dir s)) purged_file = map_option (id_enc c) (li_last_purged s)"

lemma log_syncedI:
  assumes "set es \<subseteq> E" and "file_bytes (li_fs s) (li_dir s) log_file = log_bytes c es"
    and "li_entries s = load_entries c es []"
    and "hm_get (read_dir (li_fs s) (li_dir s)) vote_file = map_option (vote_enc c) (li_vote s)"
    and "hm_get (read_dir (li_fs s) (li_dir s)) purged_file = map_option (id_enc c) (li_last_purged s)"
  shows "log_synced c E s"
  using assms unfolding log_synced_def by blast

lemma synced_keyed: "log_synced c E s \<Longrightarrow> keyed c E (li_entries s)"
  by (auto simp: log_synced_def intro!: keyed_bt_load) (simp add: keyed_def)

lemma synced_empty: "log_synced c E (empty_log p [])"
  by (rule log_syncedI [of "[]"])
    (simp_all add: empty_log_def read_dir_def file_bytes_def log_bytes_def)

lemma read_json_file:
  "(\<And>x. dec (enc x) = Some x) \<Longrightarrow> hm_get (read_dir fs p) n = map_option enc x \<Longrightarrow> read_json dec fs p n = Some x"
  by (cases x) (auto simp: read_json_def)

text \<open>Opening a store on files whose log part is \<open>bytes\<close>.\<close>

lemma log_store_new_files:
  assumes "log_codec_ok c E"
    and "hm_get (read_dir fs p) vote_file = map_option (vote_enc c) v"
    and "hm_get (read_dir fs p) purged_file = map_option (id_enc c) l"
  shows "log_store_new c p fs =
    map_option (\<lambda>es. \<lparr>li_dir = p, li_entries = es, li_vote = v, li_last_purged = l, li_fs = fs\<rparr>)
      (load_lines c (split_lines (file_bytes fs p log_file)) [])"
proof -
  have "read_json (vote_dec c) fs p vote_file = Some v" "read_json (id_dec c) fs p purged_file = Some l"
    using assms by (auto simp: log_codec_ok_def intro!: read_json_file)
  then show ?thesis
    by (auto simp: log_store_new_def load_from_disk_def empty_log_def file_bytes_def split: option.splits)
qed

lemma synced_reopens:
  assumes "log_codec_ok c E" and "log_synced c E s"
  shows "log_store_new c (li_dir s) (li_fs s) = Some s"
proof -
  from assms(2) obtain es where es: "set es \<subseteq> E" "file_bytes (li_fs s) (li_dir s) log_file = log_bytes c es"
    "li_entries s = load_entries c es []" by (auto simp: log_synced_def)
  show ?thesis
    using log_store_new_files [OF assms(1), of "li_fs s" "li_dir s" "li_vote s" "li_last_purged s"]
      load_log_bytes [OF assms(1) es(1), of "[]"] assms(2) es
    by (simp add: log_synced_def)
qed

section \<open>Every operation keeps them equal\<close>

lemma log_names [simp]:
  "log_file \<noteq> vote_file" "log_file \<noteq> purged_file" "vote_file \<noteq> purged_file"
  "vote_file \<noteq> log_file" "purged_file \<noteq> log_file" "purged_file \<noteq> vote_file"
  by (simp_all add: log_file_def vote_file_def purged_file_def)

lemma tmp_names:
  assumes "stem \<in> {''log'', ''vote'', ''purged''}" and "n \<in> {log_file, vote_file, purged_file}"
  shows "n \<noteq> stem @ ''.tmp.'' @ x"
  using assms by (auto simp: log_file_def vote_file_def purged_file_def)

lemma attempt_write_atomic:
  assumes "attempt (write_atomic pid p stem ext bs) fault fs = (ok, fs')"
    and "stem \<in> {''log'', ''vote'', ''purged''}" and "n \<in> {log_file, vote_file, purged_file}"
    and "stem @ ''.'' @ ext \<in> {log_file, vote_file, purged_file}"
  shows "hm_get (read_dir fs' q) n =
    (if ok \<and> q = p \<and> n = stem @ ''.'' @ ext then Some bs else hm_get (read_dir fs q) n)"
  using attempt_write_synced [OF assms(1) [unfolded write_atomic_def]]
    tmp_names [OF assms(2,3)] tmp_names [OF assms(2,4)] by metis

lemma rewrite_log_files:
  assumes "rewrite_log c pid fault s = (ok, s')" and "n \<in> {log_file, vote_file, purged_file}"
  shows "hm_get (read_dir (li_fs s') (li_dir s)) n =
       (if ok \<and> n = log_file then Some (log_bytes c (hm_values (li_entries s)))
        else hm_get (read_dir (li_fs s) (li_dir s)) n)"
  using assms attempt_write_atomic [of pid "li_dir s" "''log''" "''jsonl''" _ fault "li_fs s"]
  by (auto simp: rewrite_log_def log_file_def split: prod.splits)

lemma save_vote_files:
  assumes "save_vote c pid fault v s = (ok, s')" and "n \<in> {log_file, vote_file, purged_file}"
  shows "hm_get (read_dir (li_fs s') (li_dir s)) n =
       (if ok \<and> n = vote_file then Some (vote_enc c v) else hm_get (read_dir (li_fs s) (li_dir s)) n)"
  using assms attempt_write_atomic [of pid "li_dir s" "''vote''" "''json''" "vote_enc c v" fault "li_fs s"]
  by (auto simp: save_vote_def vote_file_def split: prod.splits bool.splits)

lemma synced_rewrite:
  assumes "rewrite_log c pid fault s = (True, s')" and "keyed c E (li_entries s)"
    and "hm_get (read_dir (li_fs s) (li_dir s)) vote_file = map_option (vote_enc c) (li_vote s)"
    and "hm_get (read_dir (li_fs s) (li_dir s)) purged_file = map_option (id_enc c) (li_last_purged s)"
  shows "log_synced c E s'"
proof -
  note r = rewrite_log_files [OF assms(1)]
  have s': "li_dir s' = li_dir s" "li_entries s' = li_entries s" "li_vote s' = li_vote s"
    "li_last_purged s' = li_last_purged s"
    using assms(1) by (auto simp: rewrite_log_def split: prod.splits)
  show ?thesis
  proof (rule log_syncedI [of "hm_values (li_entries s)"])
    show "set (hm_values (li_entries s)) \<subseteq> E" using assms(2) by (auto simp: keyed_def hm_values_def)
    show "file_bytes (li_fs s') (li_dir s') log_file = log_bytes c (hm_values (li_entries s))"
      using r [of log_file] by (simp add: file_bytes_def s')
  qed (use r [of vote_file] r [of purged_file] load_values [OF assms(2)] assms(3,4) in \<open>simp_all add: s'\<close>)
qed

lemma synced_frame:
  assumes "log_synced c E s" and "li_dir s' = li_dir s" and "li_entries s' = li_entries s"
    and "hm_get (read_dir (li_fs s') (li_dir s)) log_file = hm_get (read_dir (li_fs s) (li_dir s)) log_file"
    and "hm_get (read_dir (li_fs s') (li_dir s)) vote_file = map_option (vote_enc c) (li_vote s')"
    and "hm_get (read_dir (li_fs s') (li_dir s)) purged_file = map_option (id_enc c) (li_last_purged s')"
  shows "log_synced c E s'"
  using assms by (simp add: log_synced_def file_bytes_def)

lemma truncate_synced:
  assumes "log_synced c E s" and "truncate_log c pid fault l s = (True, s')"
  shows "log_synced c E s'"
  using assms synced_rewrite [of c pid fault _ s' E] keyed_bt_retain [OF synced_keyed [OF assms(1)]]
  by (simp add: truncate_log_def log_synced_def)

lemma save_vote_synced:
  assumes "log_synced c E s" and "save_vote c pid fault v s = (ok, s')"
  shows "log_synced c E s'"
proof -
  note r = save_vote_files [OF assms(2)]
  have d: "li_dir s' = li_dir s" "li_entries s' = li_entries s" "li_last_purged s' = li_last_purged s"
    "li_vote s' = (if ok then Some v else li_vote s)"
    using assms(2) by (auto simp: save_vote_def split: prod.splits bool.splits)
  show ?thesis
    by (rule synced_frame [OF assms(1)])
      (use assms(1) r [of log_file] r [of vote_file] r [of purged_file] in \<open>simp_all add: d log_synced_def\<close>)
qed

text \<open>The purge, up to its first half: the log file is rewritten before the marker is.\<close>

lemma rewrite_log_purged:
  "rewrite_log c pid fault (s\<lparr>li_last_purged := l\<rparr>) =
     (case rewrite_log c pid fault s of (ok, s1) \<Rightarrow> (ok, s1\<lparr>li_last_purged := l\<rparr>))"
  by (simp add: rewrite_log_def split: prod.split)

lemma purge_half:
  assumes "log_synced c E s"
    and "rewrite_log c pid fault (s\<lparr>li_entries := bt_retain P (li_entries s)\<rparr>) = (True, s1)"
  shows "log_synced c E s1" "li_dir s1 = li_dir s" "li_entries s1 = bt_retain P (li_entries s)"
    "li_vote s1 = li_vote s" "li_last_purged s1 = li_last_purged s"
proof -
  show "log_synced c E s1"
    by (rule synced_rewrite [OF assms(2)])
      (use assms(1) keyed_bt_retain [OF synced_keyed [OF assms(1)]] in \<open>simp_all add: log_synced_def\<close>)
  show "li_dir s1 = li_dir s" "li_entries s1 = bt_retain P (li_entries s)"
    "li_vote s1 = li_vote s" "li_last_purged s1 = li_last_purged s"
    using assms(2) by (auto simp: rewrite_log_def split: prod.splits)
qed

lemma purge_unfold:
  "purge_log c pid fault l s =
     (case rewrite_log c pid (fault 0) (s\<lparr>li_entries := bt_retain (\<lambda>i. lid_index l < i) (li_entries s)\<rparr>) of
        (ok1, s1) \<Rightarrow>
          if ok1 then (case attempt (write_atomic pid (li_dir s1) ''purged'' ''json'' (id_enc c l)) (fault 1) (li_fs s1) of
             (ok, fs) \<Rightarrow> (ok, s1\<lparr>li_last_purged := Some l, li_fs := fs\<rparr>))
          else (False, s1\<lparr>li_last_purged := Some l\<rparr>))"
proof -
  have "s\<lparr>li_entries := es, li_last_purged := Some l\<rparr> = s\<lparr>li_entries := es\<rparr>\<lparr>li_last_purged := Some l\<rparr>" for es
    by simp
  then show ?thesis
    unfolding purge_log_def rewrite_log_purged
    by (auto simp: Let_def split: prod.splits bool.splits)
qed

lemma purge_synced:
  assumes "log_synced c E s" and "purge_log c pid fault l s = (True, s')"
  shows "log_synced c E s'"
proof -
  obtain s1 fs where r: "rewrite_log c pid (fault 0) (s\<lparr>li_entries := bt_retain (\<lambda>i. lid_index l < i) (li_entries s)\<rparr>) = (True, s1)"
    and a: "attempt (write_atomic pid (li_dir s1) ''purged'' ''json'' (id_enc c l)) (fault 1) (li_fs s1) = (True, fs)"
    and s': "s' = s1\<lparr>li_last_purged := Some l, li_fs := fs\<rparr>"
    using assms(2) unfolding purge_unfold by (auto split: prod.splits if_splits)
  note h = purge_half [OF assms(1) r]
  have f: "hm_get (read_dir fs (li_dir s1)) n =
      (if n = purged_file then Some (id_enc c l) else hm_get (read_dir (li_fs s1) (li_dir s1)) n)"
    if "n \<in> {log_file, vote_file, purged_file}" for n
    using attempt_write_atomic [OF a] that by (simp add: purged_file_def)
  from h(1) show ?thesis
    by (rule synced_frame) (use h(1) f [of log_file] f [of vote_file] f [of purged_file] in \<open>simp_all add: s' log_synced_def\<close>)
qed

section \<open>Appending\<close>

lemma read_append [hm_simps]:
  "hm_get (read_dir (exec_op (Append_All p n bs) fs) q) k =
     (if q = p \<and> k = n then Some (file_bytes fs p n @ bs) else hm_get (read_dir fs q) k)"
  by (simp add: hm_simps)

lemma line_ops_done:
  "hm_get (read_dir (exec_ops (line_ops c p e) fs) q) k =
     (if q = p \<and> k = log_file then Some (file_bytes fs p log_file @ lc_enc c e @ [newline])
      else hm_get (read_dir fs q) k)"
  by (simp add: exec_ops_def line_ops_def read_append file_bytes_def del: exec_op.simps)

lemma file_bytes_put: "file_bytes (put_dir p (hm_insert n bs d) fs) p n = bs"
  by (simp add: file_bytes_def hm_simps)

lemma line_ops_crash:
  "set (crash_states (line_ops c p e) fs) =
     insert fs ((\<lambda>k. put_dir p (hm_insert log_file (file_bytes fs p log_file @ take k (lc_enc c e)) (read_dir fs p)) fs) `
       {..<length (lc_enc c e)}) \<union>
     (let fs1 = exec_op (Append_All p log_file (lc_enc c e)) fs
      in {fs1, put_dir p (hm_insert log_file (file_bytes fs1 p log_file) (read_dir fs1 p)) fs1})"
  by (auto simp: line_ops_def Let_def image_def)

lemma line_ops_torn:
  assumes "fs' \<in> set (crash_states (line_ops c p e) fs)"
  shows "(\<forall>k. k \<noteq> log_file \<longrightarrow> hm_get (read_dir fs' p) k = hm_get (read_dir fs p) k) \<and>
    (\<exists>n \<le> length (lc_enc c e). file_bytes fs' p log_file = file_bytes fs p log_file @ take n (lc_enc c e))"
proof -
  have "file_bytes fs' p log_file = file_bytes fs p log_file @ take 0 (lc_enc c e) \<or>
      (\<exists>n < length (lc_enc c e). file_bytes fs' p log_file = file_bytes fs p log_file @ take n (lc_enc c e)) \<or>
      file_bytes fs' p log_file = file_bytes fs p log_file @ take (length (lc_enc c e)) (lc_enc c e)"
    using assms by (auto simp: line_ops_crash Let_def file_bytes_put)
  moreover have "hm_get (read_dir fs' p) k = hm_get (read_dir fs p) k" if "k \<noteq> log_file" for k
    using assms that by (auto simp: line_ops_crash Let_def hm_simps)
  ultimately show ?thesis by (metis le_refl less_imp_le zero_le)
qed

text \<open>Where an append stops: after \<open>j\<close> complete lines and \<open>k\<close> bytes of the next one.\<close>

definition append_stop ::
    "('e, 'v) log_codec \<Rightarrow> 'e list \<Rightarrow> ('e, 'v) log_inner \<Rightarrow> ('e, 'v) log_inner \<Rightarrow> string \<Rightarrow> bool" where
  "append_stop c es s s' rest \<longleftrightarrow>
     li_dir s' = li_dir s \<and> li_vote s' = li_vote s \<and> li_last_purged s' = li_last_purged s \<and>
     li_entries s' = load_entries c es (li_entries s) \<and>
     file_bytes (li_fs s') (li_dir s) log_file = file_bytes (li_fs s) (li_dir s) log_file @ log_bytes c es @ rest \<and>
     (\<forall>n. n \<noteq> log_file \<longrightarrow> hm_get (read_dir (li_fs s') (li_dir s)) n = hm_get (read_dir (li_fs s) (li_dir s)) n)"

lemma append_stop_refl: "append_stop c [] s s []"
  by (simp add: append_stop_def log_bytes_def)

lemma append_stop_trans:
  "append_stop c es s s1 [] \<Longrightarrow> append_stop c es' s1 s2 rest \<Longrightarrow> append_stop c (es @ es') s s2 rest"
  by (simp add: append_stop_def log_bytes_def)

lemma line_stop:
  assumes "attempt (line_ops c (li_dir s) e) fault (li_fs s) = (ok, fs)"
  shows "if ok then append_stop c [e] s (s\<lparr>li_fs := fs, li_entries := bt_insert (entry_index c e) e (li_entries s)\<rparr>) []
    else \<exists>k \<le> length (lc_enc c e). append_stop c [] s (s\<lparr>li_fs := fs\<rparr>) (take k (lc_enc c e))"
proof (cases ok)
  case True
  with assms have "fs = exec_ops (line_ops c (li_dir s) e) (li_fs s)"
    by (auto simp: attempt_def split: option.splits if_splits)
  with True show ?thesis
    by (simp add: append_stop_def log_bytes_def file_bytes_def line_ops_done)
next
  case False
  with assms have "fs \<in> set (crash_states (line_ops c (li_dir s) e) (li_fs s))"
    by (auto simp: attempt_def split: option.splits if_splits)
  from line_ops_torn [OF this] False show ?thesis by (simp add: append_stop_def log_bytes_def)
qed

lemma append_loop_stop:
  assumes "append_loop c fault n es s = (ok, s')"
  shows "if ok then append_stop c es s s' []
    else \<exists>j < length es. \<exists>k \<le> length (lc_enc c (es ! j)). append_stop c (take j es) s s' (take k (lc_enc c (es ! j)))"
  using assms
proof (induction es arbitrary: n s)
  case Nil
  then show ?case by (auto simp: append_stop_refl)
next
  case (Cons e es)
  obtain ok1 fs where a: "attempt (line_ops c (li_dir s) e) (fault n) (li_fs s) = (ok1, fs)"
    by (cases "attempt (line_ops c (li_dir s) e) (fault n) (li_fs s)")
  note l = line_stop [OF a]
  show ?case
  proof (cases ok1)
    case False
    with Cons.prems a have "ok = False" "s' = s\<lparr>li_fs := fs\<rparr>" by simp_all
    with l False have "\<exists>k \<le> length (lc_enc c ((e # es) ! 0)).
        append_stop c (take 0 (e # es)) s s' (take k (lc_enc c ((e # es) ! 0)))" by simp
    with \<open>ok = False\<close> show ?thesis by (metis length_greater_0_conv list.distinct(1))
  next
    case True
    let ?s1 = "s\<lparr>li_fs := fs, li_entries := bt_insert (entry_index c e) e (li_entries s)\<rparr>"
    from True l have one: "append_stop c [e] s ?s1 []" by simp
    from Cons.prems a True have "append_loop c fault (n + 1) es ?s1 = (ok, s')" by simp
    note ih = Cons.IH [OF this]
    show ?thesis
    proof (cases ok)
      case True
      with append_stop_trans [OF one] ih show ?thesis by fastforce
    next
      case False
      with ih obtain j k where "j < length es" "k \<le> length (lc_enc c (es ! j))"
        "append_stop c (take j es) ?s1 s' (take k (lc_enc c (es ! j)))" by auto
      with append_stop_trans [OF one] have "Suc j < length (e # es) \<and>
          (\<exists>k \<le> length (lc_enc c ((e # es) ! Suc j)).
            append_stop c (take (Suc j) (e # es)) s s' (take k (lc_enc c ((e # es) ! Suc j))))" by fastforce
      with False show ?thesis by metis
    qed
  qed
qed

lemma open_append_stop:
  assumes "attempt [Open_Append (li_dir s) log_file] fault (li_fs s) = (ok, fs)"
  shows "append_stop c [] s (s\<lparr>li_fs := fs\<rparr>) []"
  using assms
  by (auto simp: append_stop_def attempt_def exec_ops_def log_bytes_def file_bytes_def hm_simps hm_contains_def
      split: option.splits if_splits)

lemma append_lines_stop:
  assumes "append_lines c fault es s = (ok, s')"
  shows "append_stop c es s s' [] \<or>
    \<not> ok \<and> (append_stop c [] s s' [] \<or>
      (\<exists>j < length es. \<exists>k \<le> length (lc_enc c (es ! j)). append_stop c (take j es) s s' (take k (lc_enc c (es ! j)))))"
proof -
  obtain ok0 fs where o: "attempt [Open_Append (li_dir s) log_file] (fault 0) (li_fs s) = (ok0, fs)"
    by (cases "attempt [Open_Append (li_dir s) log_file] (fault 0) (li_fs s)")
  note os = open_append_stop [OF o, of c]
  obtain ok1 s1 where l: "append_loop c fault 1 es (s\<lparr>li_fs := fs\<rparr>) = (ok1, s1)"
    by (cases "append_loop c fault 1 es (s\<lparr>li_fs := fs\<rparr>)")
  note ls = append_loop_stop [OF l]
  consider "\<not> ok0" | "ok0" "\<not> ok1" | "ok0" "ok1" by blast
  then show ?thesis
  proof cases
    case 1
    with assms o os show ?thesis by (auto simp: append_lines_def)
  next
    case 2
    with assms o l have "s' = s1" "\<not> ok" by (simp_all add: append_lines_def)
    moreover from ls 2 obtain j k where jk: "j < length es" "k \<le> length (lc_enc c (es ! j))"
      "append_stop c (take j es) (s\<lparr>li_fs := fs\<rparr>) s1 (take k (lc_enc c (es ! j)))" by auto
    ultimately show ?thesis using append_stop_trans [OF os jk(3)] by auto
  next
    case 3
    with ls have "append_stop c es s s1 []" using append_stop_trans [OF os, of es s1 "[]"] by simp
    moreover from assms o l 3 have "s' = s1\<lparr>li_fs := li_fs s1\<rparr>"
      by (auto simp: append_lines_def attempt_def exec_ops_def split: option.splits if_splits prod.splits)
    ultimately show ?thesis by auto
  qed
qed

lemma append_synced:
  assumes "log_synced c E s" and "set es \<subseteq> E" and "append_lines c fault es s = (True, s')"
  shows "log_synced c E s'" "append_stop c es s s' []"
proof -
  show a: "append_stop c es s s' []" using append_lines_stop [OF assms(3)] by auto
  from assms(1) obtain old where "set old \<subseteq> E" "file_bytes (li_fs s) (li_dir s) log_file = log_bytes c old"
    "li_entries s = load_entries c old []" by (auto simp: log_synced_def)
  with a assms(1,2) show "log_synced c E s'"
    by (intro log_syncedI [of "old @ es"]) (simp_all add: append_stop_def log_bytes_def log_synced_def)
qed

text \<open>The fault that stops an append after \<open>k\<close> bytes of line \<open>j\<close>.\<close>

lemma line_torn_at:
  assumes "k < length (lc_enc c e)"
  shows "\<exists>fs. attempt (line_ops c (li_dir s) e) (Some (Suc k)) (li_fs s) = (False, fs) \<and>
    append_stop c [] s (s\<lparr>li_fs := fs\<rparr>) (take k (lc_enc c e))"
  using assms
  by (auto simp: attempt_def line_ops_def nth_append append_stop_def log_bytes_def file_bytes_def hm_simps)

lemma append_loop_torn:
  assumes "j < length es" and "\<forall>i < j. fault (n + i) = None" and "fault (n + j) = Some (Suc k)"
    and "k < length (lc_enc c (es ! j))"
  shows "\<exists>s'. append_loop c fault n es s = (False, s') \<and> append_stop c (take j es) s s' (take k (lc_enc c (es ! j)))"
  using assms
proof (induction es arbitrary: j n s)
  case (Cons e es)
  show ?case
  proof (cases j)
    case 0
    with Cons.prems line_torn_at [of k c e s] show ?thesis by auto
  next
    case (Suc i)
    let ?fs = "exec_ops (line_ops c (li_dir s) e) (li_fs s)"
    let ?s1 = "s\<lparr>li_fs := ?fs, li_entries := bt_insert (entry_index c e) e (li_entries s)\<rparr>"
    have f: "fault n = None" "\<forall>i' < i. fault (Suc n + i') = None" "fault (Suc n + i) = Some (Suc k)"
      "i < length es" "k < length (lc_enc c (es ! i))"
      using Cons.prems Suc by (auto dest: spec [of _ 0])
    then have a: "attempt (line_ops c (li_dir s) e) (fault n) (li_fs s) = (True, ?fs)" by (simp add: attempt_def)
    from line_stop [OF a] have one: "append_stop c [e] s ?s1 []" by simp
    from Cons.IH [OF f(4,2,3,5), of ?s1] obtain s' where
      "append_loop c fault (Suc n) es ?s1 = (False, s')" "append_stop c (take i es) ?s1 s' (take k (lc_enc c (es ! i)))"
      by blast
    with append_stop_trans [OF one] a Suc show ?thesis by simp
  qed
qed simp

lemma append_lines_torn:
  assumes "j < length es" and "\<forall>i \<le> j. fault i = None" and "fault (Suc j) = Some (Suc k)"
    and "k < length (lc_enc c (es ! j))"
  shows "\<exists>s'. append_lines c fault es s = (False, s') \<and> append_stop c (take j es) s s' (take k (lc_enc c (es ! j)))"
proof -
  let ?fs = "exec_ops [Open_Append (li_dir s) log_file] (li_fs s)"
  have o: "attempt [Open_Append (li_dir s) log_file] (fault 0) (li_fs s) = (True, ?fs)"
    using assms(2) by (simp add: attempt_def)
  obtain s' where "append_loop c fault 1 es (s\<lparr>li_fs := ?fs\<rparr>) = (False, s')"
    "append_stop c (take j es) (s\<lparr>li_fs := ?fs\<rparr>) s' (take k (lc_enc c (es ! j)))"
    using append_loop_torn [of j es fault 1 k c "s\<lparr>li_fs := ?fs\<rparr>"] assms by auto
  with append_stop_trans [OF open_append_stop [OF o, of c]] o show ?thesis by (simp add: append_lines_def)
qed

section \<open>Properties\<close>

text \<open>The abstract log: a finite map from indices to entries.\<close>

fun spec_op :: "('e, 'v) log_codec \<Rightarrow> ('e, 'v) log_op \<Rightarrow> (nat \<rightharpoonup> 'e) \<Rightarrow> (nat \<rightharpoonup> 'e)" where
  "spec_op c (Append es) f = foldl (\<lambda>g e. g(entry_index c e \<mapsto> e)) f es"
| "spec_op c (Truncate l) f = f |` {..<lid_index l}"
| "spec_op c (Purge l) f = f |` {lid_index l<..}"
| "spec_op c (Save_Vote v) f = f"

fun spec_vote :: "('e, 'v) log_op \<Rightarrow> 'v option \<Rightarrow> 'v option" where
  "spec_vote (Save_Vote v) _ = Some v"
| "spec_vote _ v = v"

fun spec_purged :: "('e, 'v) log_op \<Rightarrow> log_id option \<Rightarrow> log_id option" where
  "spec_purged (Purge l) _ = Some l"
| "spec_purged _ l = l"

fun op_entries :: "('e, 'v) log_op \<Rightarrow> 'e set" where
  "op_entries (Append es) = set es"
| "op_entries _ = {}"

lemma get_load_entries:
  "hm_get (load_entries c es m) = foldl (\<lambda>g e. g(entry_index c e \<mapsto> e)) (hm_get m) es"
proof (induction es arbitrary: m)
  case (Cons e es)
  moreover have "hm_get (bt_insert (entry_index c e) e m) = (hm_get m)(entry_index c e \<mapsto> e)"
    by (rule ext) (simp add: bt_get_insert)
  ultimately show ?case by simp
qed simp

lemma hm_get_none: "hm_get [] = (\<lambda>_. None)"
  by (rule ext) simp

lemma get_retain: "hm_get (bt_retain P m) = hm_get m |` Collect P"
  by (rule ext) (simp add: bt_retain_def hm_get_filter_key restrict_map_def)

lemma log_exec_done:
  assumes "log_synced c E s" and "op_entries oper \<subseteq> E" and "log_exec c pid fault oper s = (True, s')"
  shows "log_synced c E s' \<and> li_dir s' = li_dir s \<and> hm_get (li_entries s') = spec_op c oper (hm_get (li_entries s)) \<and>
    li_vote s' = spec_vote oper (li_vote s) \<and> li_last_purged s' = spec_purged oper (li_last_purged s)"
proof (cases oper)
  case (Append es)
  with assms append_synced [OF assms(1), of es fault s'] show ?thesis
    by (simp add: log_exec_def append_stop_def get_load_entries)
next
  case (Truncate l)
  with assms truncate_synced [OF assms(1), of pid "fault 0" l s'] show ?thesis
    by (auto simp: log_exec_def truncate_log_def rewrite_log_def get_retain lessThan_def split: prod.splits)
next
  case (Purge l)
  with assms purge_synced [OF assms(1), of pid fault l s'] show ?thesis
    by (auto simp: log_exec_def purge_log_def rewrite_log_def get_retain greaterThan_def
        split: prod.splits bool.splits)
next
  case (Save_Vote v)
  with assms save_vote_synced [OF assms(1), of pid "fault 0" v True s'] show ?thesis
    by (auto simp: log_exec_def save_vote_def split: prod.splits bool.splits)
qed

lemma log_run_spec:
  assumes "\<forall>(fault, oper)\<in>set ops. op_entries oper \<subseteq> E" and "log_synced c E s0" and "log_run c pid ops s0 = Some s"
  shows "log_synced c E s \<and> li_dir s = li_dir s0 \<and>
    hm_get (li_entries s) = fold (\<lambda>(fault, oper). spec_op c oper) ops (hm_get (li_entries s0)) \<and>
    li_vote s = fold (\<lambda>(fault, oper). spec_vote oper) ops (li_vote s0) \<and>
    li_last_purged s = fold (\<lambda>(fault, oper). spec_purged oper) ops (li_last_purged s0)"
  using assms
proof (induction ops arbitrary: s0)
  case (Cons x ops)
  obtain fault oper where x: "x = (fault, oper)" by (cases x)
  with Cons.prems obtain s1 where "log_exec c pid fault oper s0 = (True, s1)" "log_run c pid ops s1 = Some s"
    by (auto split: prod.splits bool.splits)
  moreover from this Cons.prems(1,2) x log_exec_done [of c E s0 oper pid fault s1]
  have "log_synced c E s1 \<and> li_dir s1 = li_dir s0 \<and> hm_get (li_entries s1) = spec_op c oper (hm_get (li_entries s0)) \<and>
    li_vote s1 = spec_vote oper (li_vote s0) \<and> li_last_purged s1 = spec_purged oper (li_last_purged s0)" by simp
  ultimately show ?case using Cons.IH [of s1] Cons.prems(1) x by simp
qed simp

lemma append_loop_no_faults: "fst (append_loop c (\<lambda>_. None) n es s)"
  by (induction es arbitrary: n s) (simp_all add: attempt_def)

lemma log_exec_no_faults: "\<exists>s'. log_exec c pid (\<lambda>_. None) oper s = (True, s')"
proof (cases oper)
  case (Append es)
  let ?s = "s\<lparr>li_fs := exec_ops [Open_Append (li_dir s) log_file] (li_fs s)\<rparr>"
  obtain s1 where "append_loop c (\<lambda>_. None) 1 es ?s = (True, s1)"
    using append_loop_no_faults [of c 1 es ?s] by (cases "append_loop c (\<lambda>_. None) 1 es ?s") simp
  with Append show ?thesis by (simp add: log_exec_def append_lines_def attempt_def)
qed (simp_all add: log_exec_def truncate_log_def purge_log_def rewrite_log_def save_vote_def attempt_def)

lemma log_run_no_faults:
  "\<forall>(fault, oper)\<in>set ops. fault = (\<lambda>_. None) \<Longrightarrow> \<exists>s'. log_run c pid ops s = Some s'"
proof (induction ops arbitrary: s)
  case (Cons x ops)
  obtain oper s1 where "x = (\<lambda>_. None, oper)" "log_exec c pid (\<lambda>_. None) oper s = (True, s1)"
    using Cons.prems log_exec_no_faults [of c pid "snd x" s] by (cases x) auto
  with Cons show ?case by simp
qed simp

subsection \<open>A small store for the witnesses\<close>

definition demo_lid :: "nat \<Rightarrow> log_id" where
  "demo_lid i = \<lparr>lid_term = 1, lid_node = 1, lid_index = i\<rparr>"

definition demo_log_codec :: "(nat, bool) log_codec" where
  "demo_log_codec =
     \<lparr>lc_log_id = demo_lid,
      lc_enc = (\<lambda>i. CHR ''{'' # replicate i CHR ''1'' @ ''}''),
      lc_dec = (\<lambda>bs. if bs \<noteq> [] \<and> last bs = CHR ''}'' then Some (length bs - 2) else None),
      vote_enc = (\<lambda>v. if v then ''t'' else ''f''), vote_dec = (\<lambda>bs. Some (bs = ''t'')),
      id_enc = (\<lambda>l. replicate (lid_term l) CHR ''1'' @ CHR '','' # replicate (lid_node l) CHR ''1'' @
         CHR '','' # replicate (lid_index l) CHR ''1''),
      id_dec = (\<lambda>bs.
         let one = (\<lambda>ch. ch = CHR ''1''); r1 = tl (dropWhile one bs); r2 = tl (dropWhile one r1)
         in Some \<lparr>lid_term = length (takeWhile one bs), lid_node = length (takeWhile one r1),
                  lid_index = length (takeWhile one r2)\<rparr>)\<rparr>"

lemma replicate_while:
  "takeWhile (\<lambda>ch. ch = x) (replicate n x @ r) = replicate n x @ takeWhile (\<lambda>ch. ch = x) r"
  "dropWhile (\<lambda>ch. ch = x) (replicate n x @ r) = dropWhile (\<lambda>ch. ch = x) r"
  by (induction n) simp_all

lemma demo_log_codec_ok: "log_codec_ok demo_log_codec UNIV"
  by (simp add: log_codec_ok_def demo_log_codec_def newline_def replicate_while takeWhile_replicate)

definition demo_log_ops :: "(faults \<times> (nat, bool) log_op) list" where
  "demo_log_ops = map (Pair (\<lambda>_. None)) [Append [1, 2, 3], Truncate (demo_lid 3), Purge (demo_lid 1), Save_Vote True]"

lemma demo_log_state:
  "\<exists>s. log_run demo_log_codec 7 demo_log_ops (empty_log [''raft''] []) = Some s \<and>
     log_synced demo_log_codec UNIV s \<and> li_last_purged s = Some (demo_lid 1)"
  using log_run_no_faults [of demo_log_ops demo_log_codec 7 "empty_log [''raft''] []"]
    log_run_spec [OF _ synced_empty, of demo_log_ops UNIV demo_log_codec 7 "[''raft'']"]
  by (fastforce simp: demo_log_ops_def)

text \<open>
  C11. The log on disk is the log in memory. However a store was used, as long as its operations
  succeeded, opening the directory again gives exactly the store that was left: the same entries, vote
  and purge marker. And the entries are those of the abstract log: appends overwrite by index,
  truncation keeps what is before an index, purging what is after it.
\<close>

theorem log_reopens:
  assumes "log_codec_ok c E" and "\<forall>(fault, oper)\<in>set ops. op_entries oper \<subseteq> E"
    and "log_run c pid ops (empty_log p []) = Some s"
  shows "log_store_new c p (li_fs s) = Some s \<and>
    hm_get (li_entries s) = fold (\<lambda>(fault, oper). spec_op c oper) ops (\<lambda>_. None) \<and>
    li_vote s = fold (\<lambda>(fault, oper). spec_vote oper) ops None \<and>
    li_last_purged s = fold (\<lambda>(fault, oper). spec_purged oper) ops None"
proof -
  note r = log_run_spec [OF assms(2) synced_empty assms(3)]
  with synced_reopens [OF assms(1), of s] show ?thesis
    by (simp add: empty_log_def hm_get_none)
qed

theorem log_reopens_witness:
  "\<exists>s. log_run demo_log_codec 7 demo_log_ops (empty_log [''raft''] []) = Some s \<and>
     log_store_new demo_log_codec [''raft''] (li_fs s) = Some s \<and>
     hm_get (li_entries s) 2 = Some 2 \<and> hm_get (li_entries s) 1 = None \<and> li_vote s = Some True"
proof -
  obtain s where s: "log_run demo_log_codec 7 demo_log_ops (empty_log [''raft''] []) = Some s"
    using log_run_no_faults [of demo_log_ops demo_log_codec 7 "empty_log [''raft''] []"]
    by (auto simp: demo_log_ops_def)
  from log_reopens [OF demo_log_codec_ok _ s] s show ?thesis
    by (auto simp: demo_log_ops_def entry_index_def demo_log_codec_def demo_lid_def restrict_map_def)
qed



text \<open>
  A purge that dies between its two files leaves a hole. The log file is replaced first, the marker
  second; in between, the directory opens with the entries up to the purge point gone and the old
  marker, so nothing records that they were purged.
\<close>

theorem purge_crash_leaves_hole:
  assumes "log_codec_ok c E" and "log_synced c E s" and "fault 0 = None"
    and "purge_log c pid fault l s = (False, s')"
  shows "log_store_new c (li_dir s) (li_fs s') =
    Some (s\<lparr>li_entries := bt_retain (\<lambda>i. lid_index l < i) (li_entries s), li_fs := li_fs s'\<rparr>)"
proof -
  obtain s1 fs where r: "rewrite_log c pid (fault 0) (s\<lparr>li_entries := bt_retain (\<lambda>i. lid_index l < i) (li_entries s)\<rparr>) = (True, s1)"
    and a: "attempt (write_atomic pid (li_dir s1) ''purged'' ''json'' (id_enc c l)) (fault 1) (li_fs s1) = (False, fs)"
    and s': "li_fs s' = fs"
    using assms(3,4) unfolding purge_unfold
    by (auto simp: rewrite_log_def attempt_def split: prod.splits if_splits)
  note h = purge_half [OF assms(2) r]
  let ?s = "s1\<lparr>li_fs := fs\<rparr>"
  have "hm_get (read_dir fs (li_dir s1)) n = hm_get (read_dir (li_fs s1) (li_dir s1)) n"
    if "n \<in> {log_file, vote_file, purged_file}" for n
    using attempt_write_atomic [OF a] that by (simp add: purged_file_def)
  then have "log_synced c E ?s"
    using h(1) by (intro synced_frame [OF h(1)]) (simp_all add: log_synced_def)
  from synced_reopens [OF assms(1) this] h s' show ?thesis by (cases s; cases s1) simp
qed

theorem purge_crash_leaves_hole_witness:
  "\<exists>s s'. log_run demo_log_codec 7 demo_log_ops (empty_log [''raft''] []) = Some s \<and>
     li_last_purged s = Some (demo_lid 1) \<and>
     purge_log demo_log_codec 7 (\<lambda>n. if n = 0 then None else Some 0) (demo_lid 2) s = (False, s') \<and>
     (\<exists>s2. log_store_new demo_log_codec (li_dir s) (li_fs s') = Some s2 \<and> li_last_purged s2 = Some (demo_lid 1) \<and>
        hm_get (li_entries s2) 2 = None)"
proof -
  obtain s where s: "log_run demo_log_codec 7 demo_log_ops (empty_log [''raft''] []) = Some s"
    "log_synced demo_log_codec UNIV s" "li_last_purged s = Some (demo_lid 1)" using demo_log_state by blast
  obtain s' where f: "purge_log demo_log_codec 7 (\<lambda>n. if n = 0 then None else Some 0) (demo_lid 2) s = (False, s')"
    by (simp add: purge_log_def rewrite_log_def attempt_def write_atomic_def write_synced_def)
  from purge_crash_leaves_hole [OF demo_log_codec_ok s(2) _ f] s f show ?thesis
    by (auto simp: get_retain demo_lid_def)
qed

text \<open>
  A torn append makes the log unreadable. When the node dies while it writes a line, some bytes of
  it but not all being in the file, opening the directory fails: the loader stops with an error at a
  line that does not decode instead of dropping the incomplete tail, so the node cannot restart.
\<close>

theorem torn_append_blocks_restart:
  assumes "log_codec_ok c E" and "log_synced c E s" and "set es \<subseteq> E"
    and "j < length es" and "\<forall>i \<le> j. fault i = None" and "fault (Suc j) = Some (Suc k)"
    and "0 < k" and "k < length (lc_enc c (es ! j))" and "lc_dec c (take k (lc_enc c (es ! j))) = None"
  shows "\<exists>s'. append_lines c fault es s = (False, s') \<and> log_store_new c (li_dir s) (li_fs s') = None"
proof -
  let ?t = "take k (lc_enc c (es ! j))"
  obtain s' where a: "append_lines c fault es s = (False, s')" and st: "append_stop c (take j es) s s' ?t"
    using append_lines_torn [OF assms(4-6,8), of s] by blast
  from assms(2) obtain old where old: "set old \<subseteq> E" "file_bytes (li_fs s) (li_dir s) log_file = log_bytes c old"
    "li_entries s = load_entries c old []" by (auto simp: log_synced_def)
  have f: "file_bytes (li_fs s') (li_dir s) log_file = log_bytes c (old @ take j es) @ ?t"
    using st old by (simp add: append_stop_def log_bytes_def)
  have "set (old @ take j es) \<subseteq> E" using old(1) assms(3) set_take_subset [of j es] by auto
  note load = load_log_bytes [OF assms(1) this, of ?t "[]"]
  have "newline \<notin> set ?t"
    using assms(1,3,4) by (metis in_set_takeD log_codec_ok_def nth_mem subsetD)
  then have "split_lines ?t = [?t]" by (rule split_lines_no_newline)
  with load f assms(7-9) have "load_lines c (split_lines (file_bytes (li_fs s') (li_dir s) log_file)) [] = None"
    by auto
  then show ?thesis
    using log_store_new_files [OF assms(1), of "li_fs s'" "li_dir s" "li_vote s" "li_last_purged s"] assms(2) st a
    by (simp add: append_stop_def log_synced_def)
qed

theorem torn_append_blocks_restart_witness:
  "\<exists>s'. append_lines demo_log_codec (\<lambda>n. if n = 2 then Some 3 else None) [1, 2] (empty_log [''raft''] []) = (False, s') \<and>
     log_store_new demo_log_codec [''raft''] (li_fs s') = None"
  using torn_append_blocks_restart [OF demo_log_codec_ok synced_empty, of "[1, 2]" 1 "\<lambda>n. if n = 2 then Some 3 else None" 2 "[''raft'']"]
  by (simp add: demo_log_codec_def empty_log_def)

section \<open>Restart of a node\<close>

lemma load_increasing:
  assumes "sorted_wrt (<) (map (entry_index c) es)" and "\<forall>p\<in>set m. \<forall>e\<in>set es. fst p < entry_index c e"
  shows "load_entries c es m = m @ map (\<lambda>e. (entry_index c e, e)) es"
  using assms
proof (induction es arbitrary: m)
  case (Cons e es)
  then have "bt_insert (entry_index c e) e m = m @ [(entry_index c e, e)]" by (intro bt_insert_last) simp
  with Cons show ?case by simp
qed simp

lemma purge_effect:
  assumes "purge_log c pid fault l s = (True, s')"
  shows "li_dir s' = li_dir s" "li_entries s' = bt_retain (\<lambda>i. lid_index l < i) (li_entries s)"
  using assms unfolding purge_unfold by (auto simp: rewrite_log_def split: prod.splits if_splits)

definition demo_entry_codec :: "(unit entry, unit) log_codec" where
  "demo_entry_codec =
     \<lparr>lc_log_id = en_log_id, lc_enc = (\<lambda>_. ''{}''), lc_dec = (\<lambda>_. Some demo_entry),
      vote_enc = (\<lambda>_. []), vote_dec = (\<lambda>_. Some ()), id_enc = id_enc demo_log_codec, id_dec = id_dec demo_log_codec\<rparr>"

lemma demo_entry_codec_ok: "log_codec_ok demo_entry_codec {demo_entry}"
  using demo_log_codec_ok by (simp add: log_codec_ok_def demo_entry_codec_def newline_def)



end
