(* ===== verification/Local_Store.thy ===== *)
theory Local_Store
  imports Retention File_System
begin

text \<open>
  The durable store of the local-mode checkpoint coordinator
  (\<open>seatunnel-engine-core/src/local_checkpoint.rs\<close>): the task reports, the checkpoint envelope
  and \<open>LocalCheckpointStore\<close>. Files are \<open><root>/<job>/checkpoint-<id>.json\<close>. JSON encoding is
  \<open>serde_json\<close>, a parameter of the model (\<open>codec\<close>); the store relies on decoding what it
  encoded (\<open>codec_ok\<close>).
\<close>

section \<open>Messages and envelope\<close>

type_synonym bytes = "8 word list"

record task_report =
  rep_task_id :: string
  rep_checkpoint_id :: nat
  rep_pipeline :: string
  rep_subtask :: nat
  rep_parallelism :: nat
  rep_reader_state :: bytes
  rep_writer_state :: bytes
  rep_commit_infos :: "bytes list"

record envelope =
  env_job_id :: string
  env_checkpoint_id :: nat
  env_timestamp :: int
  env_is_final :: bool
  env_tasks :: "task_report list"

text \<open>\<open>CheckpointEnvelope::task_state\<close>: the first report of a pipeline's subtask.\<close>

definition task_state :: "envelope \<Rightarrow> string \<Rightarrow> nat \<Rightarrow> task_report option" where
  "task_state e pipeline subtask =
     List.find (\<lambda>t. rep_pipeline t = pipeline \<and> rep_subtask t = subtask) (env_tasks e)"

record 'b codec =
  enc :: "envelope \<Rightarrow> 'b list"
  dec :: "'b list \<Rightarrow> envelope option"

definition codec_ok :: "'b codec \<Rightarrow> bool" where
  "codec_ok c = (\<forall>e. dec c (enc c e) = Some e)"

section \<open>Names\<close>

definition safe_char :: "char \<Rightarrow> char" where
  "safe_char c =
     (if is_alphanumeric c \<or> c = CHR ''-'' \<or> c = CHR ''_'' \<or> c = CHR ''.'' then c else CHR ''_'')"

definition job_dir :: "string \<Rightarrow> path" where
  "job_dir job_id = [map safe_char job_id]"

definition checkpoint_file :: "nat \<Rightarrow> string" where
  "checkpoint_file i = ''checkpoint-'' @ show_nat i @ ''.json''"

definition checkpoint_tmp :: "nat \<Rightarrow> nat \<Rightarrow> string" where
  "checkpoint_tmp i pid = ''.checkpoint-'' @ show_nat i @ ''.'' @ show_nat pid @ ''.tmp''"

definition parse_checkpoint_file :: "string \<Rightarrow> nat option" where
  "parse_checkpoint_file name =
     Option.bind (strip_prefix ''checkpoint-'' name)
       (\<lambda>s. Option.bind (strip_suffix ''.json'' s) parse_u64)"

section \<open>Operations\<close>

definition save_ops :: "'b codec \<Rightarrow> nat \<Rightarrow> envelope \<Rightarrow> 'b fs_op list" where
  "save_ops c pid e =
     atomic_write (job_dir (env_job_id e)) (checkpoint_tmp (env_checkpoint_id e) pid)
       (checkpoint_file (env_checkpoint_id e)) (enc c e)"

text \<open>\<open>save\<close> returns whether it succeeded, and the file system it left behind.\<close>

definition save :: "'b codec \<Rightarrow> nat \<Rightarrow> nat option \<Rightarrow> envelope \<Rightarrow> 'b fs \<Rightarrow> bool \<times> 'b fs" where
  "save c pid fault e fs = attempt (save_ops c pid e) fault fs"

definition stored_ids :: "string \<Rightarrow> 'b fs \<Rightarrow> nat list" where
  "stored_ids job fs =
     sort (List.map_filter (\<lambda>(name, _). parse_checkpoint_file name) (read_dir fs (job_dir job)))"

definition load_all :: "'b codec \<Rightarrow> string \<Rightarrow> 'b fs \<Rightarrow> envelope list" where
  "load_all c job fs =
     List.map_filter
       (\<lambda>i. Option.bind (hm_get (read_dir fs (job_dir job)) (checkpoint_file i)) (dec c))
       (stored_ids job fs)"

definition newer :: "envelope \<Rightarrow> (nat \<times> envelope) option \<Rightarrow> (nat \<times> envelope) option" where
  "newer e latest =
     (if (case latest of None \<Rightarrow> True | Some (i, _) \<Rightarrow> i < env_checkpoint_id e)
      then Some (env_checkpoint_id e, e) else latest)"

definition load_latest :: "'b codec \<Rightarrow> string \<Rightarrow> 'b fs \<Rightarrow> envelope option" where
  "load_latest c job fs = map_option snd (fold newer (load_all c job fs) None)"

definition prune :: "'b codec \<Rightarrow> string \<Rightarrow> nat \<Rightarrow> 'b fs \<Rightarrow> 'b fs" where
  "prune c job keep fs =
     (let envelopes = load_all c job fs in
      if keep < length envelopes
      then fold (\<lambda>e. exec_op (Remove_File (job_dir job) (checkpoint_file (env_checkpoint_id e))))
             (take (length envelopes - keep) envelopes) fs
      else fs)"

definition drop_job :: "string \<Rightarrow> 'b fs \<Rightarrow> 'b fs" where
  "drop_job job fs = remove_dir_all (job_dir job) fs"

section \<open>The store invariant and the abstract store\<close>

text \<open>
  Every file with the name of a checkpoint carries the canonical name of its id and decodes to an
  envelope with that id. \<open>stored\<close> is the abstract contents: id to envelope.
\<close>

definition store_inv :: "'b codec \<Rightarrow> string \<Rightarrow> 'b fs \<Rightarrow> bool" where
  "store_inv c job fs =
     (codec_ok c \<and> fs_wf fs \<and>
      (\<forall>n bs i. hm_get (read_dir fs (job_dir job)) n = Some bs \<longrightarrow> parse_checkpoint_file n = Some i \<longrightarrow>
         n = checkpoint_file i \<and> i \<le> u64_max \<and> (\<exists>e. dec c bs = Some e \<and> env_checkpoint_id e = i)))"

definition stored :: "'b codec \<Rightarrow> string \<Rightarrow> 'b fs \<Rightarrow> nat \<rightharpoonup> envelope" where
  "stored c job fs i =
     (if i \<le> u64_max
      then Option.bind (hm_get (read_dir fs (job_dir job)) (checkpoint_file i)) (dec c) else None)"

definition valid_envelope :: "string \<Rightarrow> nat \<Rightarrow> envelope \<Rightarrow> bool" where
  "valid_envelope job i e = (env_checkpoint_id e = i \<and> env_job_id e = job \<and> i \<le> u64_max)"

lemma parse_checkpoint_file [simp]:
  "i \<le> u64_max \<Longrightarrow> parse_checkpoint_file (checkpoint_file i) = Some i"
  by (simp add: parse_checkpoint_file_def checkpoint_file_def del: append.simps)

lemma parse_checkpoint_tmp [simp]: "parse_checkpoint_file (checkpoint_tmp i pid) = None"
  by (simp add: parse_checkpoint_file_def checkpoint_tmp_def strip_prefix_def)

lemma tmp_neq_file [simp]: "checkpoint_tmp i pid \<noteq> checkpoint_file j"
  by (simp add: checkpoint_tmp_def checkpoint_file_def)

lemma checkpoint_file_inj:
  "i \<le> u64_max \<Longrightarrow> j \<le> u64_max \<Longrightarrow> checkpoint_file i = checkpoint_file j \<longleftrightarrow> i = j"
  by (simp add: checkpoint_file_def show_nat_inj_bounded)

lemma store_invD:
  assumes "store_inv c job fs"
  shows "codec_ok c" and "fs_wf fs"
    and "\<And>n bs i. hm_get (read_dir fs (job_dir job)) n = Some bs \<Longrightarrow> parse_checkpoint_file n = Some i \<Longrightarrow>
      n = checkpoint_file i \<and> i \<le> u64_max \<and> (\<exists>e. dec c bs = Some e \<and> env_checkpoint_id e = i)"
  using assms unfolding store_inv_def by blast+

lemma stored_id: "store_inv c job fs \<Longrightarrow> stored c job fs i = Some e \<Longrightarrow> env_checkpoint_id e = i"
  by (auto simp: stored_def dest!: store_invD(3) split: if_splits Option.bind_splits)

lemma set_stored_ids:
  assumes "store_inv c job fs"
  shows "set (stored_ids job fs) = dom (stored c job fs)"
proof -
  let ?d = "read_dir fs (job_dir job)"
  have wf: "hm_wf ?d" using store_invD(2) [OF assms] by (rule fs_wf_read)
  have "i \<in> set (stored_ids job fs) \<longleftrightarrow>
      (\<exists>n bs. hm_get ?d n = Some bs \<and> parse_checkpoint_file n = Some i)" for i
    by (force simp: stored_ids_def List.map_filter_def hm_get_in_set [OF wf] image_iff split_def)
  moreover have "(\<exists>n bs. hm_get ?d n = Some bs \<and> parse_checkpoint_file n = Some i) \<longleftrightarrow>
      i \<in> dom (stored c job fs)" for i
  proof
    assume "\<exists>n bs. hm_get ?d n = Some bs \<and> parse_checkpoint_file n = Some i"
    then obtain n bs where "hm_get ?d n = Some bs" "parse_checkpoint_file n = Some i" by blast
    with store_invD(3) [OF assms this] show "i \<in> dom (stored c job fs)"
      by (auto simp: stored_def)
  next
    assume "i \<in> dom (stored c job fs)"
    then have "i \<le> u64_max" "hm_get ?d (checkpoint_file i) \<noteq> None"
      by (auto simp: stored_def split: if_splits Option.bind_splits)
    then show "\<exists>n bs. hm_get ?d n = Some bs \<and> parse_checkpoint_file n = Some i"
      by (intro exI [of _ "checkpoint_file i"]) auto
  qed
  ultimately show ?thesis by blast
qed

lemma sorted_stored_ids [simp]: "sorted (stored_ids job fs)"
  by (simp add: stored_ids_def)

lemma distinct_stored_ids:
  assumes "store_inv c job fs"
  shows "distinct (stored_ids job fs)"
proof -
  let ?d = "read_dir fs (job_dir job)" and ?p = "\<lambda>(name, _). parse_checkpoint_file name"
  have wf: "hm_wf ?d" using store_invD(2) [OF assms] by (rule fs_wf_read)
  have inj: "inj_on (the \<circ> ?p) (set (filter (\<lambda>x. ?p x \<noteq> None) ?d))"
  proof (rule inj_onI)
    fix x y assume a: "x \<in> set (filter (\<lambda>x. ?p x \<noteq> None) ?d)" "y \<in> set (filter (\<lambda>x. ?p x \<noteq> None) ?d)"
      and eq: "(the \<circ> ?p) x = (the \<circ> ?p) y"
    obtain n bs where x: "x = (n, bs)" by (cases x)
    obtain n' bs' where y: "y = (n', bs')" by (cases y)
    from a x y eq obtain i where "hm_get ?d n = Some bs" "parse_checkpoint_file n = Some i"
        "hm_get ?d n' = Some bs'" "parse_checkpoint_file n' = Some i"
      by (auto simp: hm_get_in_set [OF wf])
    then show "x = y" using store_invD(3) [OF assms] x y by (metis option.inject)
  qed
  have "distinct ?d" using wf by (auto simp: hm_wf_def distinct_map)
  then have "distinct (map (the \<circ> ?p) (filter (\<lambda>x. ?p x \<noteq> None) ?d))"
    using inj by (simp only: distinct_map distinct_filter)
  then show ?thesis by (simp add: stored_ids_def List.map_filter_def)
qed

lemma load_all_stored:
  assumes "store_inv c job fs"
  shows "load_all c job fs = map (\<lambda>i. the (stored c job fs i)) (stored_ids job fs)"
proof -
  have "Option.bind (hm_get (read_dir fs (job_dir job)) (checkpoint_file i)) (dec c) =
      stored c job fs i \<and> stored c job fs i \<noteq> None" if "i \<in> set (stored_ids job fs)" for i
    using that set_stored_ids [OF assms] by (auto simp: stored_def split: if_splits)
  then have "load_all c job fs = List.map_filter (stored c job fs) (stored_ids job fs)"
      "filter (\<lambda>i. stored c job fs i \<noteq> None) (stored_ids job fs) = stored_ids job fs"
    by (auto simp: load_all_def List.map_filter_def intro!: filter_cong map_cong)
  then show ?thesis by (simp add: List.map_filter_def)
qed

lemma ids_load_all:
  assumes "store_inv c job fs"
  shows "map env_checkpoint_id (load_all c job fs) = stored_ids job fs"
  using set_stored_ids [OF assms] stored_id [OF assms]
  by (auto simp: load_all_stored [OF assms] intro!: map_idI)

lemma set_load_all:
  assumes "store_inv c job fs"
  shows "e \<in> set (load_all c job fs) \<longleftrightarrow> stored c job fs (env_checkpoint_id e) = Some e"
  using set_stored_ids [OF assms] stored_id [OF assms]
  by (force simp: load_all_stored [OF assms])

text \<open>The fold of \<open>load_latest\<close> over envelopes in increasing id order ends at the last one.\<close>

lemma fold_newer_sorted:
  "sorted (map env_checkpoint_id es) \<Longrightarrow> distinct (map env_checkpoint_id es) \<Longrightarrow>
   (\<And>i e. acc = Some (i, e) \<Longrightarrow> \<forall>x \<in> set es. i < env_checkpoint_id x) \<Longrightarrow>
     fold newer es acc =
       (if es = [] then acc else Some (env_checkpoint_id (last es), last es))"
proof (induction es arbitrary: acc)
  case Nil
  then show ?case by simp
next
  case (Cons e es)
  have "newer e acc = Some (env_checkpoint_id e, e)"
    using Cons.prems(3) by (auto simp: newer_def split: option.splits)
  moreover have "\<forall>x \<in> set es. env_checkpoint_id e < env_checkpoint_id x"
    using Cons.prems(1,2) by (force simp: order_less_le)
  ultimately show ?case using Cons.IH [of "Some (env_checkpoint_id e, e)"] Cons.prems by auto
qed

lemma load_latest_last:
  assumes "store_inv c job fs"
  shows "load_latest c job fs =
    (if load_all c job fs = [] then None else Some (last (load_all c job fs)))"
  using fold_newer_sorted [of "load_all c job fs" None] assms
  by (simp add: load_latest_def ids_load_all distinct_stored_ids)

definition latest_entry :: "'b codec \<Rightarrow> string \<Rightarrow> 'b fs \<Rightarrow> (nat \<times> envelope) option" where
  "latest_entry c job fs = map_option (\<lambda>e. (env_checkpoint_id e, e)) (load_latest c job fs)"

lemma latest_entry_newest:
  assumes "store_inv c job fs"
  shows "newest (stored c job fs) (latest_entry c job fs)"
proof (cases "load_all c job fs = []")
  case True
  then have "dom (stored c job fs) = {}"
    using set_stored_ids [OF assms] load_all_stored [OF assms] by simp
  with True show ?thesis
    by (simp add: latest_entry_def load_latest_last [OF assms] newest_def)
next
  case False
  let ?e = "last (load_all c job fs)"
  have last: "env_checkpoint_id ?e = last (stored_ids job fs)"
    using False ids_load_all [OF assms] by (metis last_map)
  have "stored c job fs (env_checkpoint_id ?e) = Some ?e"
    using set_load_all [OF assms] False by (metis last_in_set)
  moreover have "j \<le> env_checkpoint_id ?e" if "j \<in> dom (stored c job fs)" for j
    using that set_stored_ids [OF assms] last sorted_le_last [OF sorted_stored_ids] by metis
  ultimately show ?thesis
    using False by (auto simp: latest_entry_def load_latest_last [OF assms] newest_def)
qed

section \<open>Saving and pruning\<close>

lemma save_ok_read:
  assumes "save c pid None e fs = (ok, fs')"
  shows "ok" and "hm_get (read_dir fs' q) n =
     (if q = job_dir (env_job_id e) \<and> n = checkpoint_file (env_checkpoint_id e) then Some (enc c e)
      else if q = job_dir (env_job_id e) \<and> n = checkpoint_tmp (env_checkpoint_id e) pid then None
      else hm_get (read_dir fs q) n)"
  using assms by (auto simp: save_def save_ops_def attempt_def atomic_write_result)

lemma save_store_inv:
  assumes inv: "store_inv c job fs" and "valid_envelope job i e" and s: "save c pid None e fs = (ok, fs')"
  shows "store_inv c job fs'"
proof -
  have e: "env_checkpoint_id e = i" "env_job_id e = job" "i \<le> u64_max"
    using assms(2) by (auto simp: valid_envelope_def)
  have "fs_wf fs'" using s store_invD(2) [OF inv] by (auto simp: save_def intro: fs_wf_attempt)
  then show ?thesis
    using store_invD [OF inv] e
    by (auto simp: store_inv_def save_ok_read(2) [OF s] codec_ok_def split: if_splits)
qed

lemma stored_save:
  assumes inv: "store_inv c job fs" and "valid_envelope job i e" and s: "save c pid None e fs = (ok, fs')"
  shows "stored c job fs' = (stored c job fs)(i \<mapsto> e)"
proof -
  have e: "env_checkpoint_id e = i" "env_job_id e = job" "i \<le> u64_max"
    using assms(2) by (auto simp: valid_envelope_def)
  have "dec c (enc c e) = Some e" using store_invD(1) [OF inv] by (simp add: codec_ok_def)
  with e show ?thesis
    by (auto simp: stored_def fun_eq_iff save_ok_read(2) [OF s] checkpoint_file_inj
        tmp_neq_file [symmetric])
qed

lemma read_remove_files:
  "hm_get (read_dir (fold (\<lambda>e. exec_op (Remove_File p (f e))) es fs) q) n =
     (if q = p \<and> n \<in> f ` set es then None else hm_get (read_dir fs q) n)"
  by (induction es arbitrary: fs) (auto simp: hm_simps)

lemma fs_wf_remove_files: "fs_wf fs \<Longrightarrow> fs_wf (fold (\<lambda>e. exec_op (Remove_File p (f e))) es fs)"
  by (induction es arbitrary: fs) (auto intro: fs_wf_exec_op simp del: exec_op.simps)

lemma read_prune:
  "hm_get (read_dir (prune c job keep fs) q) n =
     (if q = job_dir job \<and>
         n \<in> (checkpoint_file \<circ> env_checkpoint_id) `
               set (take (length (load_all c job fs) - keep) (load_all c job fs))
      then None else hm_get (read_dir fs q) n)"
  using read_remove_files
    [of "job_dir job" "checkpoint_file \<circ> env_checkpoint_id"
        "take (length (load_all c job fs) - keep) (load_all c job fs)" fs q n]
  by (auto simp: prune_def Let_def simp del: exec_op.simps)

lemma prune_store_inv:
  assumes "store_inv c job fs"
  shows "store_inv c job (prune c job keep fs)"
proof -
  have "fs_wf (prune c job keep fs)"
    using store_invD(2) [OF assms] by (simp add: prune_def Let_def fs_wf_remove_files del: exec_op.simps)
  then show ?thesis
    using store_invD [OF assms] by (auto simp: store_inv_def read_prune split: if_splits)
qed

lemma stored_prune:
  assumes inv: "store_inv c job fs"
  shows "stored c job (prune c job keep fs) = keep_newest keep (stored c job fs)"
proof -
  let ?ids = "stored_ids job fs" and ?es = "load_all c job fs"
  have len: "length ?es = length ?ids" using ids_load_all [OF inv] by (metis length_map)
  have taken: "env_checkpoint_id ` set (take n ?es) = set (take n ?ids)" for n
    using ids_load_all [OF inv] by (metis list.set_map take_map)
  have small: "j \<le> u64_max" if "j \<in> set ?ids" for j
    using that set_stored_ids [OF inv] by (auto simp: stored_def split: if_splits)
  have split: "set ?ids = set (take n ?ids) \<union> set (drop n ?ids)"
    "set (take n ?ids) \<inter> set (drop n ?ids) = {}" for n
    using distinct_stored_ids [OF inv] set_append [of "take n ?ids" "drop n ?ids"]
    by (simp_all del: set_append add: set_take_disj_set_drop_if_distinct)
  have "stored c job (prune c job keep fs) i = (stored c job fs |` set (drop (length ?ids - keep) ?ids)) i" for i
  proof (cases "i \<in> set ?ids")
    case True
    have "(checkpoint_file \<circ> env_checkpoint_id) ` set (take (length ?es - keep) ?es) =
        checkpoint_file ` set (take (length ?ids - keep) ?ids)"
      by (simp only: image_comp [symmetric] taken len)
    moreover have "checkpoint_file i \<in> checkpoint_file ` set (take m ?ids) \<longleftrightarrow> i \<in> set (take m ?ids)" for m
    proof -
      have "i = x" if "checkpoint_file i = checkpoint_file x" "x \<in> set (take m ?ids)" for x
        using that small [OF True] small [OF in_set_takeD [OF that(2)]] checkpoint_file_inj [of i x]
        by simp
      then show ?thesis by auto
    qed
    ultimately have "checkpoint_file i \<in>
        (checkpoint_file \<circ> env_checkpoint_id) ` set (take (length ?es - keep) ?es) \<longleftrightarrow>
        i \<in> set (take (length ?ids - keep) ?ids)" by simp
    with split [of "length ?ids - keep"] True show ?thesis
      by (auto simp: stored_def read_prune restrict_map_def)
  next
    case False
    then have "stored c job fs i = None" using set_stored_ids [OF inv] by auto
    then show ?thesis
      by (auto simp: stored_def read_prune restrict_map_def split: if_splits Option.bind_splits)
  qed
  then show ?thesis
    using keep_newest_sorted [of ?ids "stored c job fs" keep] inv
    by (simp add: set_stored_ids distinct_stored_ids fun_eq_iff)
qed

definition save_prune :: "'b codec \<Rightarrow> string \<Rightarrow> nat \<Rightarrow> nat \<Rightarrow> nat \<Rightarrow> envelope \<Rightarrow> 'b fs \<Rightarrow> 'b fs" where
  "save_prune c job pid keep i e fs = prune c job keep (snd (save c pid None e fs))"

interpretation local_store:
  snapshot_store "store_inv c job" "valid_envelope job" "stored c job"
    "save_prune c job pid (max keep 1)" "latest_entry c job" "max keep 1"
  for c :: "'b codec" and job pid keep
proof
  show "finite (dom (stored c job fs))" if "store_inv c job fs" for fs :: "'b fs"
    using set_stored_ids [OF that] by (metis List.finite_set)
  show "store_inv c job (save_prune c job pid (max keep 1) i e fs)"
    if "store_inv c job fs" "valid_envelope job i e" for fs :: "'b fs" and i e
    using that save_store_inv [of c job fs i e pid]
    by (cases "save c pid None e fs") (auto simp: save_prune_def intro: prune_store_inv)
  show "stored c job (save_prune c job pid (max keep 1) i e fs) =
      keep_newest (max keep 1) ((stored c job fs)(i \<mapsto> e))"
    if "store_inv c job fs" "valid_envelope job i e" for fs :: "'b fs" and i e
    using that save_store_inv [of c job fs i e pid] stored_save [of c job fs i e pid]
    by (cases "save c pid None e fs") (simp add: save_prune_def stored_prune)
qed (auto intro: latest_entry_newest)

section \<open>Path resolution\<close>

text \<open>How the operating system resolves the components of a path below a root directory.\<close>

fun resolve :: "path \<Rightarrow> path \<Rightarrow> path" where
  "resolve root [] = root"
| "resolve root (c # cs) =
     resolve (if c = '''' \<or> c = ''.'' then root else if c = ''..'' then butlast root else root @ [c]) cs"

lemma safe_char_no_slash: "safe_char ch \<noteq> CHR ''/''"
  by (cases "ch = CHR ''/''") (simp_all add: safe_char_def is_alphanumeric_def Let_def)

section \<open>Properties\<close>

definition demo_codec :: "envelope codec" where
  "demo_codec = \<lparr>enc = \<lambda>e. [e], dec = \<lambda>bs. case bs of [e] \<Rightarrow> Some e | _ \<Rightarrow> None\<rparr>"

definition demo_env :: "nat \<Rightarrow> envelope" where
  "demo_env i = \<lparr>env_job_id = ''job'', env_checkpoint_id = i, env_timestamp = 0,
     env_is_final = False, env_tasks = []\<rparr>"

lemma demo_codec_ok: "codec_ok demo_codec"
  by (simp add: codec_ok_def demo_codec_def)

lemma store_inv_fresh: "codec_ok c \<Longrightarrow> store_inv c job hm_empty"
  by (simp add: store_inv_def fs_wf_def read_dir_def hm_simps)

lemma demo_env_valid: "i \<le> u64_max \<Longrightarrow> valid_envelope ''job'' i (demo_env i)"
  by (simp add: valid_envelope_def demo_env_def)

lemma stored_fresh: "stored c job hm_empty = Map.empty"
  by (simp add: stored_def fun_eq_iff read_dir_def hm_simps)

lemma crash_save_unchanged:
  assumes inv: "store_inv c job fs" and v: "valid_envelope job i e"
    and fs': "fs' \<in> set (crash_states (save_ops c pid e) fs)"
  shows "store_inv c job fs' \<and> stored c job fs' = stored c job fs"
proof -
  have same: "hm_get (read_dir fs' q) n = hm_get (read_dir fs q) n"
    if "n \<noteq> checkpoint_tmp (env_checkpoint_id e) pid" for q n
    using fs' that unfolding save_ops_def by (rule atomic_write_crash)
  have "fs_wf fs'" using store_invD(2) [OF inv] fs' by (rule fs_wf_crash)
  moreover have "hm_get (read_dir fs' (job_dir job)) n = hm_get (read_dir fs (job_dir job)) n"
    if "parse_checkpoint_file n = Some j" for n j
    using same that by (metis option.distinct(1) parse_checkpoint_tmp)
  ultimately have "store_inv c job fs'"
    using inv unfolding store_inv_def by metis
  moreover have "stored c job fs' = stored c job fs"
    using same by (auto simp: stored_def fun_eq_iff tmp_neq_file [symmetric])
  ultimately show ?thesis ..
qed

text \<open>
  C1. A crash or an I/O error at any point of \<open>LocalCheckpointStore::save\<close>, in the middle of the
  write included, leaves either exactly the checkpoints that were stored before, or those plus the
  complete new envelope: no torn checkpoint is ever visible, and the store invariant is kept.
\<close>

theorem save_crash_atomic:
  assumes "store_inv c job fs" and "valid_envelope job i e"
    and "fs' \<in> set (crash_states (save_ops c pid e) fs @ [exec_ops (save_ops c pid e) fs])"
  shows "store_inv c job fs' \<and>
    (stored c job fs' = stored c job fs \<or> stored c job fs' = (stored c job fs)(i \<mapsto> e))"
proof -
  have "save c pid None e fs = (True, exec_ops (save_ops c pid e) fs)"
    by (simp add: save_def attempt_def)
  with assms save_store_inv [OF assms(1,2)] stored_save [OF assms(1,2)] crash_save_unchanged [OF assms(1,2)]
  show ?thesis by auto
qed

theorem save_crash_atomic_witness:
  "store_inv demo_codec ''job'' (crash_states (save_ops demo_codec 7 (demo_env 1)) hm_empty ! 3) \<and>
   stored demo_codec ''job'' (crash_states (save_ops demo_codec 7 (demo_env 1)) hm_empty ! 3) 1 \<noteq>
     Some (demo_env 2)"
proof -
  let ?cs = "crash_states (save_ops demo_codec 7 (demo_env 1)) hm_empty"
  have "length ?cs = 6" by (simp add: save_ops_def atomic_write_def demo_codec_def)
  then have "?cs ! 3 \<in> set ?cs" by (intro nth_mem) simp
  then have "store_inv demo_codec ''job'' (?cs ! 3) \<and>
      (stored demo_codec ''job'' (?cs ! 3) = stored demo_codec ''job'' hm_empty \<or>
       stored demo_codec ''job'' (?cs ! 3) = (stored demo_codec ''job'' hm_empty)(1 \<mapsto> demo_env 1))"
    by (intro save_crash_atomic [where pid = 7] store_inv_fresh demo_codec_ok demo_env_valid)
      (simp_all add: u64_max_def)
  then show ?thesis by (auto simp: stored_fresh demo_env_def)
qed

text \<open>
  C14. Saving an envelope whose id is greater than every stored id and pruning to the retention
  count: a restart reads exactly this envelope back, and at most \<open>max keep 1\<close> checkpoints remain.
\<close>

theorem save_prune_restores_newest:
  assumes "store_inv c job fs" and "valid_envelope job i e"
    and "\<forall>j \<in> dom (stored c job fs). j < i"
  shows "load_latest c job (save_prune c job pid (max keep 1) i e fs) = Some e \<and>
    card (dom (stored c job (save_prune c job pid (max keep 1) i e fs))) \<le> max keep 1"
proof -
  have "latest_entry c job (save_prune c job pid (max keep 1) i e fs) = Some (i, e)"
    using assms by (intro local_store.latest_after_save) auto
  with local_store.retention_bound [OF assms(1,2)] show ?thesis
    by (auto simp: latest_entry_def)
qed

theorem save_prune_restores_newest_witness:
  "load_latest demo_codec ''job'' (save_prune demo_codec ''job'' 7 (max 3 1) 5 (demo_env 5) hm_empty)
     = Some (demo_env 5)"
  using save_prune_restores_newest
    [OF store_inv_fresh [OF demo_codec_ok] demo_env_valid, of 5 7 3]
  by (simp add: stored_fresh u64_max_def)

text \<open>
  \<open>prune\<close> refines the retention rule: the envelopes it leaves are exactly the \<open>keep\<close> newest
  ones, each unchanged, and the files of other jobs' directories are not touched.
\<close>

theorem prune_keeps_newest:
  assumes "store_inv c job fs"
  shows "stored c job (prune c job keep fs) = keep_newest keep (stored c job fs) \<and>
    store_inv c job (prune c job keep fs) \<and>
    (\<forall>q. q \<noteq> job_dir job \<longrightarrow> (\<forall>n. hm_get (read_dir (prune c job keep fs) q) n = hm_get (read_dir fs q) n))"
  using assms by (simp add: stored_prune prune_store_inv read_prune)

definition demo_fs :: "envelope fs" where
  "demo_fs = snd (save demo_codec 7 None (demo_env 2) (snd (save demo_codec 7 None (demo_env 1) hm_empty)))"

lemma demo_fs_facts:
  "store_inv demo_codec ''job'' demo_fs \<and> stored demo_codec ''job'' demo_fs = [1 \<mapsto> demo_env 1, 2 \<mapsto> demo_env 2]"
proof -
  have v: "valid_envelope ''job'' 1 (demo_env 1)" "valid_envelope ''job'' 2 (demo_env 2)"
    by (simp_all add: demo_env_valid u64_max_def)
  note i1 = save_store_inv [OF store_inv_fresh [OF demo_codec_ok] v(1) surjective_pairing]
  note s1 = stored_save [OF store_inv_fresh [OF demo_codec_ok] v(1) surjective_pairing]
  show ?thesis
    using save_store_inv [OF i1 v(2) surjective_pairing] stored_save [OF i1 v(2) surjective_pairing] s1
    by (simp add: demo_fs_def stored_fresh)
qed

theorem prune_keeps_newest_witness:
  "stored demo_codec ''job'' (prune demo_codec ''job'' 1 demo_fs) 1 = None \<and>
   stored demo_codec ''job'' (prune demo_codec ''job'' 1 demo_fs) 2 = Some (demo_env 2)"
proof -
  have "\<exists>j. (j = 2 \<or> j = Suc 0) \<and> Suc 0 < j" by (intro exI [of _ 2]) simp
  with prune_keeps_newest [of demo_codec "''job''" demo_fs 1] demo_fs_facts show ?thesis
    by (auto simp: keep_newest_def restrict_map_def)
qed

text \<open>
  The job directory is one component without a separator, so the state of a job stays below the
  store root unless the sanitised id is empty, a dot or a double dot. For the id \<open>..\<close> the
  sanitiser changes nothing and the directory resolves to the parent of the root, and two
  different ids can share one directory.
\<close>

theorem job_dir_confinement:
  "(\<forall>job. map safe_char job \<notin> {'''', ''.'', ''..''} \<longrightarrow>
      resolve root (job_dir job) = root @ [map safe_char job] \<and>
      CHR ''/'' \<notin> set (map safe_char job)) \<and>
   resolve root (job_dir ''..'') = butlast root \<and>
   job_dir ''a/b'' = job_dir ''a_b''"
proof (intro conjI allI impI)
  fix job assume a: "map safe_char job \<notin> {'''', ''.'', ''..''}"
  then show "resolve root (job_dir job) = root @ [map safe_char job]"
    by (simp add: job_dir_def del: map_eq_Cons_conv map_eq_conv)
  show "CHR ''/'' \<notin> set (map safe_char job)"
    by (auto simp: safe_char_no_slash [symmetric])
qed (simp_all add: job_dir_def safe_char_def is_alphanumeric_def)

theorem job_dir_confinement_witness:
  "resolve [''state''] (job_dir ''job-1'') = [''state'', ''job-1''] \<and>
   resolve [''state''] (job_dir ''..'') = []"
proof -
  have "map safe_char ''job-1'' = ''job-1''"
    by (simp add: safe_char_def is_alphanumeric_def)
  with job_dir_confinement [of "[''state'']"] show ?thesis by auto
qed

end
