(* ===== verification/Checkpoint_Gate.thy ===== *)
theory Checkpoint_Gate
  imports Local_Store
begin

text \<open>
  The coordinator-to-task signalling of \<open>local_checkpoint.rs\<close>: one gate per task holds the pending
  barrier trigger, the queue of resolution events and the closed flag (\<open>GateShared\<close>); the driver
  writes it through \<open>GateControl\<close>, the task reads it through \<open>CheckpointHandle\<close>. The mutexes make
  every operation atomic, so an operation is a function on the gate. \<open>Notify\<close> only wakes waiters.
\<close>

definition FINAL_CHECKPOINT_ID :: nat where
  "FINAL_CHECKPOINT_ID = u64_max - 1"

datatype checkpoint_event = EvCompleted nat | EvAborted nat

datatype task_to_driver =
    Checkpoint task_report
  | CommitDone string nat
  | CheckpointFailed string nat string
  | Done string

record gate =
  g_trigger :: "nat option"
  g_events :: "checkpoint_event list"
  g_closed :: bool

definition task_gate :: gate where
  "task_gate = \<lparr>g_trigger = None, g_events = [], g_closed = False\<rparr>"

definition take_trigger :: "gate \<Rightarrow> nat option \<times> gate" where
  "take_trigger g = (g_trigger g, g\<lparr>g_trigger := None\<rparr>)"

definition poll_event :: "gate \<Rightarrow> checkpoint_event option \<times> gate" where
  "poll_event g =
     (case g_events g of [] \<Rightarrow> (None, g) | ev # evs \<Rightarrow> (Some ev, g\<lparr>g_events := evs\<rparr>))"

definition coordinator_alive :: "gate \<Rightarrow> bool" where
  "coordinator_alive g = (\<not> g_closed g)"

definition trigger :: "nat \<Rightarrow> gate \<Rightarrow> gate" where
  "trigger i g = g\<lparr>g_trigger := Some i\<rparr>"

definition send_event :: "checkpoint_event \<Rightarrow> gate \<Rightarrow> gate" where
  "send_event ev g = g\<lparr>g_events := g_events g @ [ev]\<rparr>"

definition close :: "gate \<Rightarrow> gate" where
  "close g = g\<lparr>g_closed := True\<rparr>"

text \<open>Draining the queue: the task's \<open>while let Some(event) = handle.poll_event()\<close>.\<close>

function drain_events :: "gate \<Rightarrow> checkpoint_event list" where
  "drain_events g =
     (case poll_event g of (None, _) \<Rightarrow> [] | (Some ev, g') \<Rightarrow> ev # drain_events g')"
  by pat_completeness auto
termination
  by (relation "measure (\<lambda>g. length (g_events g))") (auto simp: poll_event_def split: list.splits)

declare drain_events.simps [simp del]

lemma drain_events_all: "drain_events g = g_events g"
proof (induction "g_events g" arbitrary: g)
  case Nil
  then show ?case by (simp add: drain_events.simps poll_event_def)
next
  case (Cons ev evs)
  from Cons(2) have p: "poll_event g = (Some ev, g\<lparr>g_events := evs\<rparr>)"
    by (simp add: poll_event_def Cons(2) [symmetric])
  have "drain_events (g\<lparr>g_events := evs\<rparr>) = evs" using Cons(1) [of "g\<lparr>g_events := evs\<rparr>"] by simp
  with p Cons(2) show ?case by (simp add: drain_events.simps [of g])
qed

lemma gate_fields [simp]:
  "g_events (trigger i g) = g_events g" "g_closed (trigger i g) = g_closed g"
  "g_trigger (trigger i g) = Some i"
  "g_events (send_event ev g) = g_events g @ [ev]" "g_trigger (send_event ev g) = g_trigger g"
  "g_events (close g) = g_events g" "g_trigger (close g) = g_trigger g"
  by (simp_all add: trigger_def send_event_def close_def)

text \<open>
  The gate delivers resolution events to the task in the order the driver sent them, each once,
  whatever barrier triggers are set in between.
\<close>

theorem gate_delivers_in_order:
  "drain_events (fold (\<lambda>x. case x of Inl i \<Rightarrow> trigger i | Inr ev \<Rightarrow> send_event ev) ops task_gate) =
     List.map_filter (\<lambda>x. case x of Inl _ \<Rightarrow> None | Inr ev \<Rightarrow> Some ev) ops"
proof -
  have "g_events (fold (\<lambda>x. case x of Inl i \<Rightarrow> trigger i | Inr ev \<Rightarrow> send_event ev) ops g) =
      g_events g @ List.map_filter (\<lambda>x. case x of Inl _ \<Rightarrow> None | Inr ev \<Rightarrow> Some ev) ops" for g
    by (induction ops arbitrary: g) (auto simp: map_filter_simps split: sum.splits)
  then show ?thesis by (simp add: drain_events_all task_gate_def)
qed

end
