(* ===== verification/Local_Driver.thy ===== *)
theory Local_Driver
  imports Checkpoint_Gate "HOL-Library.List_Lexorder" "HOL-Library.Char_ord" "HOL-Library.Product_Lexorder"
begin

text \<open>
  The local-mode checkpoint coordinator of \<open>local_checkpoint.rs\<close>: the plan (builder) and the driver
  with its message handlers, its final checkpoint and its select loop. The driver's state is a
  record; the file system below its store root is part of it. Every function that persists takes
  the JSON codec, the process id and the I/O fault its \<open>save\<close> meets (\<open>None\<close> for none). Log lines
  are left out. A run of the select loop is a list of inputs, one per iteration: which branch fired,
  at which wall-clock time and with which fault.
\<close>

section \<open>Plan\<close>

definition DEFAULT_CHECKPOINT_TIMEOUT_MS :: nat where
  "DEFAULT_CHECKPOINT_TIMEOUT_MS = 30000"

definition DEFAULT_KEEP_CHECKPOINT_COUNT :: nat where
  "DEFAULT_KEEP_CHECKPOINT_COUNT = 3"

record registration =
  reg_task_id :: string
  reg_pipeline :: string
  reg_subtask :: nat
  reg_parallelism :: nat

record task_entry =
  te_meta :: registration
  te_gate :: gate
  te_alive :: bool

record plan =
  pl_job_id :: string
  pl_interval :: nat
  pl_timeout :: nat
  pl_keep :: nat
  pl_restore_from :: "envelope option"
  pl_entries :: "task_entry list"

definition plan_new :: "string \<Rightarrow> nat \<Rightarrow> plan" where
  "plan_new job interval =
     \<lparr>pl_job_id = job, pl_interval = interval, pl_timeout = DEFAULT_CHECKPOINT_TIMEOUT_MS,
      pl_keep = DEFAULT_KEEP_CHECKPOINT_COUNT, pl_restore_from = None, pl_entries = []\<rparr>"

definition with_timeout :: "nat \<Rightarrow> plan \<Rightarrow> plan" where
  "with_timeout t pl = pl\<lparr>pl_timeout := t\<rparr>"

definition with_keep_count :: "nat \<Rightarrow> plan \<Rightarrow> plan" where
  "with_keep_count k pl = pl\<lparr>pl_keep := max k 1\<rparr>"

definition restore_from_latest :: "'b codec \<Rightarrow> 'b fs \<Rightarrow> plan \<Rightarrow> plan" where
  "restore_from_latest c fs pl = pl\<lparr>pl_restore_from := load_latest c (pl_job_id pl) fs\<rparr>"

definition register :: "registration \<Rightarrow> plan \<Rightarrow> plan" where
  "register meta pl =
     pl\<lparr>pl_entries := pl_entries pl @ [\<lparr>te_meta = meta, te_gate = task_gate, te_alive = True\<rparr>]\<rparr>"

record 'b driver =
  drv_job_id :: string
  drv_interval :: nat
  drv_timeout :: nat
  drv_keep :: nat
  drv_fs :: "'b fs"
  drv_next_id :: nat
  drv_completed :: nat
  drv_entries :: "task_entry list"
  drv_last_envelope :: "envelope option"
  drv_final_states :: "(string, task_report) hashmap"

definition build :: "'b fs \<Rightarrow> plan \<Rightarrow> 'b driver" where
  "build fs pl =
     \<lparr>drv_job_id = pl_job_id pl, drv_interval = pl_interval pl, drv_timeout = pl_timeout pl,
      drv_keep = pl_keep pl, drv_fs = fs,
      drv_next_id =
        (case pl_restore_from pl of None \<Rightarrow> 1 | Some e \<Rightarrow> sat_add_u64 (env_checkpoint_id e) 1),
      drv_completed = 0, drv_entries = pl_entries pl, drv_last_envelope = pl_restore_from pl,
      drv_final_states = hm_empty\<rparr>"

section \<open>Driver\<close>

record pending =
  pd_checkpoint_id :: nat
  pd_timestamp :: int
  pd_reports :: "(string, task_report) hashmap"
  pd_awaiting :: "string list"

abbreviation te_id :: "task_entry \<Rightarrow> string" where
  "te_id e \<equiv> reg_task_id (te_meta e)"

definition any_alive :: "'b driver \<Rightarrow> bool" where
  "any_alive d = (\<exists>e \<in> set (drv_entries d). te_alive e)"

definition map_gates :: "(task_entry \<Rightarrow> bool) \<Rightarrow> (gate \<Rightarrow> gate) \<Rightarrow> task_entry list \<Rightarrow> task_entry list" where
  "map_gates p f es = map (\<lambda>e. if p e then e\<lparr>te_gate := f (te_gate e)\<rparr> else e) es"

definition trigger_checkpoint :: "int \<Rightarrow> 'b driver \<Rightarrow> 'b driver \<times> pending" where
  "trigger_checkpoint now d =
     (let i = drv_next_id d in
      (d\<lparr>drv_next_id := sat_add_u64 i 1,
         drv_entries := map_gates te_alive (trigger i) (drv_entries d)\<rparr>,
       \<lparr>pd_checkpoint_id = i, pd_timestamp = now, pd_reports = hm_empty,
        pd_awaiting = map te_id (filter te_alive (drv_entries d))\<rparr>))"

definition abort_checkpoint :: "nat \<Rightarrow> 'b driver \<Rightarrow> 'b driver" where
  "abort_checkpoint i d =
     d\<lparr>drv_entries := map_gates te_alive (send_event (EvAborted i)) (drv_entries d)\<rparr>"

definition report_key :: "task_report \<Rightarrow> string \<times> nat" where
  "report_key r = (rep_pipeline r, rep_subtask r)"

text \<open>Fold the exit-time state of a task that left mid-checkpoint into the reports.\<close>

definition fold_in_final ::
    "nat \<Rightarrow> (string, task_report) hashmap \<Rightarrow> task_entry \<Rightarrow>
     (string, task_report) hashmap \<Rightarrow> (string, task_report) hashmap" where
  "fold_in_final i finals e reports =
     (if \<not> te_alive e \<and> \<not> hm_contains reports (te_id e)
      then (case hm_get finals (te_id e) of
              None \<Rightarrow> reports
            | Some r \<Rightarrow> hm_insert (te_id e) (r\<lparr>rep_checkpoint_id := i\<rparr>) reports)
      else reports)"

definition completed_reports :: "'b driver \<Rightarrow> pending \<Rightarrow> (string, task_report) hashmap" where
  "completed_reports d p =
     fold (fold_in_final (pd_checkpoint_id p) (drv_final_states d)) (drv_entries d) (pd_reports p)"

definition completed_envelope :: "'b driver \<Rightarrow> pending \<Rightarrow> bool \<Rightarrow> envelope" where
  "completed_envelope d p is_final =
     \<lparr>env_job_id = drv_job_id d, env_checkpoint_id = pd_checkpoint_id p,
      env_timestamp = pd_timestamp p, env_is_final = is_final,
      env_tasks = sort_key report_key (hm_values (completed_reports d p))\<rparr>"

definition complete_checkpoint ::
    "'b codec \<Rightarrow> nat \<Rightarrow> nat option \<Rightarrow> pending \<Rightarrow> bool \<Rightarrow> 'b driver \<Rightarrow> 'b driver" where
  "complete_checkpoint c pid fault p is_final d =
     (let e = completed_envelope d p is_final in
      case save c pid fault e (drv_fs d) of
        (False, fs) \<Rightarrow> abort_checkpoint (pd_checkpoint_id p) (d\<lparr>drv_fs := fs\<rparr>)
      | (True, fs) \<Rightarrow>
          d\<lparr>drv_fs := prune c (drv_job_id d) (drv_keep d) fs,
            drv_completed := drv_completed d + 1,
            drv_last_envelope := Some e,
            drv_entries :=
              map_gates (\<lambda>t. te_alive t \<or> is_final)
                (send_event (EvCompleted (pd_checkpoint_id p))) (drv_entries d)\<rparr>)"

definition persist_exit_states ::
    "'b codec \<Rightarrow> nat \<Rightarrow> nat option \<Rightarrow> int \<Rightarrow> 'b driver \<Rightarrow> 'b driver" where
  "persist_exit_states c pid fault now d =
     (if drv_final_states d = [] then d
      else
        let i = drv_next_id d;
            tasks = map (\<lambda>r. r\<lparr>rep_checkpoint_id := i\<rparr>) (hm_values (drv_final_states d));
            e = \<lparr>env_job_id = drv_job_id d, env_checkpoint_id = i, env_timestamp = now,
                 env_is_final = True, env_tasks = sort_key report_key tasks\<rparr>;
            d' = d\<lparr>drv_next_id := sat_add_u64 i 1, drv_final_states := hm_empty\<rparr>
        in case save c pid fault e (drv_fs d') of
             (False, fs) \<Rightarrow> d'\<lparr>drv_fs := fs\<rparr>
           | (True, fs) \<Rightarrow>
               d'\<lparr>drv_fs := prune c (drv_job_id d) (drv_keep d) fs,
                  drv_completed := drv_completed d + 1, drv_last_envelope := Some e\<rparr>)"

fun mark_dead :: "string \<Rightarrow> task_entry list \<Rightarrow> task_entry list" where
  "mark_dead tid [] = []"
| "mark_dead tid (e # es) =
     (if te_id e = tid then e\<lparr>te_alive := False\<rparr> # es else e # mark_dead tid es)"

definition record_report :: "task_report \<Rightarrow> pending \<Rightarrow> pending" where
  "record_report r p =
     p\<lparr>pd_awaiting := filter (\<lambda>t. t \<noteq> rep_task_id r) (pd_awaiting p),
       pd_reports := hm_insert (rep_task_id r) r (pd_reports p)\<rparr>"

text \<open>\<open>handle_message\<close>: the new driver, the pending checkpoint and whether the loop should stop.\<close>

fun handle_message ::
    "'b codec \<Rightarrow> nat \<Rightarrow> nat option \<Rightarrow> task_to_driver \<Rightarrow> 'b driver \<times> pending option \<Rightarrow>
     ('b driver \<times> pending option) \<times> bool" where
  "handle_message c pid fault (Checkpoint r) (d, po) =
     (if rep_checkpoint_id r = FINAL_CHECKPOINT_ID
      then ((d\<lparr>drv_final_states := hm_insert (rep_task_id r) r (drv_final_states d)\<rparr>, po), False)
      else case po of
             None \<Rightarrow> ((d, None), False)
           | Some p \<Rightarrow>
               if pd_checkpoint_id p \<noteq> rep_checkpoint_id r then ((d, po), False)
               else
                 let p' = record_report r p in
                 if pd_awaiting p' = []
                 then ((complete_checkpoint c pid fault p' False d, None), False)
                 else ((d, Some p'), False))"
| "handle_message c pid fault (CommitDone tid i) (d, po) = ((d, po), False)"
| "handle_message c pid fault (CheckpointFailed tid i err) (d, po) =
     (case po of
        None \<Rightarrow> ((d, None), False)
      | Some p \<Rightarrow> ((abort_checkpoint (pd_checkpoint_id p) d, None), False))"
| "handle_message c pid fault (Done tid) (d, po) =
     (let d1 = d\<lparr>drv_entries := mark_dead tid (drv_entries d)\<rparr>;
          (d2, po2) =
            (case po of
               None \<Rightarrow> (d1, None)
             | Some p \<Rightarrow>
                 let p' = p\<lparr>pd_awaiting := filter (\<lambda>t. t \<noteq> tid) (pd_awaiting p)\<rparr> in
                 if pd_awaiting p' = [] then (complete_checkpoint c pid fault p' False d1, None)
                 else (d1, Some p'))
      in ((d2, po2), \<not> any_alive d2))"

section \<open>Final checkpoint\<close>

text \<open>
  What one turn of the report loop of \<open>final_checkpoint\<close> sees: the deadline already passed, a
  message, the timer expiring while waiting, or a closed channel. The script of the loop is a list
  of these; a script that has run out is the timer expiring.
\<close>

datatype final_input = Remain_Zero | Final_Msg task_to_driver | Wait_Elapsed | Channel_Closed

fun final_loop :: "final_input list \<Rightarrow> 'b driver \<Rightarrow> pending \<Rightarrow> 'b driver \<times> pending" where
  "final_loop [] d p = (d, p)"
| "final_loop (x # xs) d p =
     (if pd_awaiting p = [] then (d, p)
      else case x of
        Remain_Zero \<Rightarrow> (abort_checkpoint (pd_checkpoint_id p) d, p\<lparr>pd_awaiting := []\<rparr>)
      | Final_Msg (Checkpoint r) \<Rightarrow>
          if rep_checkpoint_id r = pd_checkpoint_id p then final_loop xs d (record_report r p)
          else if rep_checkpoint_id r = FINAL_CHECKPOINT_ID
          then final_loop xs
                 (d\<lparr>drv_final_states := hm_insert (rep_task_id r) r (drv_final_states d)\<rparr>) p
          else final_loop xs d p
      | Final_Msg (Done tid) \<Rightarrow>
          final_loop xs (d\<lparr>drv_entries := mark_dead tid (drv_entries d)\<rparr>)
            (p\<lparr>pd_awaiting := filter (\<lambda>t. t \<noteq> tid) (pd_awaiting p)\<rparr>)
      | Final_Msg (CheckpointFailed tid i err) \<Rightarrow>
          (abort_checkpoint (pd_checkpoint_id p) d, p\<lparr>pd_awaiting := []\<rparr>)
      | Final_Msg (CommitDone tid i) \<Rightarrow> final_loop xs d p
      | Wait_Elapsed \<Rightarrow> (d, p)
      | Channel_Closed \<Rightarrow> (d, p))"

text \<open>
  The drain of phase-2 acknowledgements that follows only discards messages. The result's flag
  is \<open>task_cancel.cancel()\<close>, which always runs.
\<close>

definition final_checkpoint ::
    "'b codec \<Rightarrow> nat \<Rightarrow> nat option \<Rightarrow> int \<Rightarrow> final_input list \<Rightarrow> 'b driver \<Rightarrow> 'b driver \<times> bool" where
  "final_checkpoint c pid fault now script d =
     (if any_alive d
      then
        let (d1, p) = trigger_checkpoint now d;
            (d2, p') = final_loop script d1 p
        in ((if pd_reports p' \<noteq> [] then complete_checkpoint c pid fault p' True d2 else d2), True)
      else (d, True))"

section \<open>The select loop\<close>

datatype branch =
    Tick
  | Recv task_to_driver
  | Recv_Closed
  | Deadline
  | Shutdown "final_input list"

type_synonym 'b config = "'b driver \<times> pending option"

text \<open>One iteration: the termination check at the top, then the branch \<open>select!\<close> picked.\<close>

definition driver_iter ::
    "'b codec \<Rightarrow> nat \<Rightarrow> nat option \<Rightarrow> int \<Rightarrow> branch \<Rightarrow> 'b config \<Rightarrow> 'b config \<times> bool" where
  "driver_iter c pid fault now br cfg =
     (let (d, po) = cfg in
      if \<not> any_alive d \<and> po = None then ((persist_exit_states c pid fault now d, None), True)
      else case br of
        Tick \<Rightarrow>
          if po = None \<and> any_alive d
          then let (d', p) = trigger_checkpoint now d in ((d', Some p), False)
          else ((d, po), False)
      | Recv m \<Rightarrow> handle_message c pid fault m (d, po)
      | Recv_Closed \<Rightarrow> ((d, po), True)
      | Deadline \<Rightarrow>
          (case po of
             None \<Rightarrow> ((d, None), False)
           | Some p \<Rightarrow> ((abort_checkpoint (pd_checkpoint_id p) d, None), False))
      | Shutdown script \<Rightarrow>
          let d1 = (case po of None \<Rightarrow> d | Some p \<Rightarrow> abort_checkpoint (pd_checkpoint_id p) d)
          in ((fst (final_checkpoint c pid fault now script d1), None), True))"

definition close_gates :: "'b driver \<Rightarrow> 'b driver" where
  "close_gates d = d\<lparr>drv_entries := map_gates (\<lambda>_. True) close (drv_entries d)\<rparr>"

type_synonym loop_input = "nat option \<times> int \<times> branch"

text \<open>\<open>run\<close>: iterate until an iteration stops the loop, then close every gate.\<close>

fun run_driver :: "'b codec \<Rightarrow> nat \<Rightarrow> loop_input list \<Rightarrow> 'b config \<Rightarrow> 'b config" where
  "run_driver c pid [] cfg = cfg"
| "run_driver c pid ((fault, now, br) # ins) cfg =
     (case driver_iter c pid fault now br cfg of
        ((d, po), True) \<Rightarrow> (close_gates d, po)
      | (cfg', False) \<Rightarrow> run_driver c pid ins cfg')"

text \<open>
  The loop as a step relation between configurations that keep running, interleaved with the tasks,
  which take their trigger or poll an event from their gate at any time.
\<close>

inductive driver_step :: "'b codec \<Rightarrow> nat \<Rightarrow> 'b config \<Rightarrow> 'b config \<Rightarrow> bool" for c pid where
  step: "driver_iter c pid fault now br cfg = (cfg', False) \<Longrightarrow> driver_step c pid cfg cfg'"
| take: "driver_step c pid (d, po)
    (d\<lparr>drv_entries := map_gates (\<lambda>e. te_id e = tid) (\<lambda>g. snd (take_trigger g)) (drv_entries d)\<rparr>, po)"
| poll: "driver_step c pid (d, po)
    (d\<lparr>drv_entries := map_gates (\<lambda>e. te_id e = tid) (\<lambda>g. snd (poll_event g)) (drv_entries d)\<rparr>, po)"

inductive driver_reach :: "'b codec \<Rightarrow> nat \<Rightarrow> 'b driver \<Rightarrow> 'b config \<Rightarrow> bool" for c pid d0 where
  start: "driver_reach c pid d0 (d0, None)"
| more: "driver_reach c pid d0 cfg \<Longrightarrow> driver_step c pid cfg cfg' \<Longrightarrow> driver_reach c pid d0 cfg'"

inductive_cases driver_stepE [elim]: "driver_step c pid cfg cfg'"

section \<open>The driver's invariant\<close>

definition live_ids :: "task_entry list \<Rightarrow> string set" where
  "live_ids es = te_id ` {e \<in> set es. te_alive e}"

definition keyed :: "(string, task_report) hashmap \<Rightarrow> bool" where
  "keyed m = (hm_wf m \<and> (\<forall>k r. hm_get m k = Some r \<longrightarrow> rep_task_id r = k))"

text \<open>A pending checkpoint owes a report for every live task, and its id is above every stored id.\<close>

definition pending_core :: "'b codec \<Rightarrow> 'b driver \<Rightarrow> pending \<Rightarrow> bool" where
  "pending_core c d p =
     (pd_checkpoint_id p < drv_next_id d \<and>
      (\<forall>i \<in> dom (stored c (drv_job_id d) (drv_fs d)). i < pd_checkpoint_id p) \<and>
      keyed (pd_reports p))"

definition pending_inv :: "'b codec \<Rightarrow> 'b driver \<Rightarrow> pending \<Rightarrow> bool" where
  "pending_inv c d p =
     (pending_core c d p \<and>
      live_ids (drv_entries d) \<subseteq> set (pd_awaiting p) \<union> set (hm_keys (pd_reports p)))"

definition base_inv :: "'b codec \<Rightarrow> 'b driver \<Rightarrow> bool" where
  "base_inv c d =
     (store_inv c (drv_job_id d) (drv_fs d) \<and> 0 < drv_keep d \<and> drv_next_id d \<le> u64_max \<and>
      (\<forall>i \<in> dom (stored c (drv_job_id d) (drv_fs d)). i < drv_next_id d) \<and>
      keyed (drv_final_states d) \<and> distinct (map te_id (drv_entries d)))"

definition driver_inv :: "'b codec \<Rightarrow> 'b config \<Rightarrow> bool" where
  "driver_inv c cfg =
     (base_inv c (fst cfg) \<and> (\<forall>p. snd cfg = Some p \<longrightarrow> pending_inv c (fst cfg) p))"

lemmas pending_defs = pending_inv_def pending_core_def

lemmas driver_inv_defs = driver_inv_def base_inv_def pending_defs

subsection \<open>Gates and entries\<close>

lemma in_map_gates:
  "e' \<in> set (map_gates p f es) \<longleftrightarrow>
     (\<exists>e \<in> set es. e' = (if p e then e\<lparr>te_gate := f (te_gate e)\<rparr> else e))"
  by (auto simp: map_gates_def)

lemma mark_dead_ids [simp]: "map te_id (mark_dead tid es) = map te_id es"
  by (induction es) auto

lemma live_ids_Cons:
  "live_ids (e # es) = (if te_alive e then insert (te_id e) (live_ids es) else live_ids es)"
  by (auto simp: live_ids_def)

lemma live_ids_subset: "live_ids es \<subseteq> te_id ` set es"
  by (auto simp: live_ids_def)

lemma live_ids_mark_dead:
  "distinct (map te_id es) \<Longrightarrow> live_ids (mark_dead tid es) = live_ids es - {tid}"
proof (induction es)
  case Nil
  then show ?case by (simp add: live_ids_def)
next
  case (Cons e es)
  then have "tid \<notin> live_ids es" if "te_id e = tid"
    using that live_ids_subset [of es] by auto
  with Cons show ?case by (auto simp: live_ids_Cons)
qed

lemma map_gates_Cons:
  "map_gates p f (e # es) = (if p e then e\<lparr>te_gate := f (te_gate e)\<rparr> else e) # map_gates p f es"
  by (simp add: map_gates_def)

lemma map_gates_ids [simp]: "map te_id (map_gates p f es) = map te_id es"
  by (simp add: map_gates_def)

lemma live_ids_map_gates [simp]: "live_ids (map_gates p f es) = live_ids es"
proof (induction es)
  case Nil
  then show ?case by (simp add: map_gates_def)
next
  case (Cons e es)
  then show ?case by (simp add: map_gates_Cons live_ids_Cons)
qed

lemma any_alive_live: "any_alive d \<longleftrightarrow> live_ids (drv_entries d) \<noteq> {}"
  by (auto simp: any_alive_def live_ids_def)

subsection \<open>Reports\<close>

lemma keyed_insert: "keyed m \<Longrightarrow> keyed (hm_insert (rep_task_id r) r m)"
  by (auto simp: keyed_def hm_simps intro: hm_wf_insert)

lemma keyed_empty [simp]: "keyed hm_empty"
  by (simp add: keyed_def)

lemma hm_get_keys: "hm_get m k \<noteq> None \<longleftrightarrow> k \<in> set (hm_keys m)"
  by (simp add: hm_get_def hm_keys_def map_of_eq_None_iff)

lemma hm_contains_keys: "hm_contains m k \<longleftrightarrow> k \<in> set (hm_keys m)"
  using hm_get_keys [of m k] by (auto simp: hm_contains_def split: option.splits)

lemma fold_in_final_keyed:
  assumes "keyed reports" and "keyed finals"
  shows "keyed (fold_in_final i finals e reports) \<and>
    set (hm_keys reports) \<subseteq> set (hm_keys (fold_in_final i finals e reports))"
proof (cases "hm_get finals (te_id e)")
  case None
  with assms show ?thesis by (simp add: fold_in_final_def)
next
  case (Some r)
  with assms(2) have "rep_task_id (r\<lparr>rep_checkpoint_id := i\<rparr>) = te_id e" by (simp add: keyed_def)
  with assms(1) keyed_insert [of reports "r\<lparr>rep_checkpoint_id := i\<rparr>"] Some show ?thesis
    by (auto simp: fold_in_final_def hm_keys_insert)
qed

lemma completed_reports_keyed:
  assumes "keyed (pd_reports p)" and "keyed (drv_final_states d)"
  shows "keyed (completed_reports d p) \<and>
    set (hm_keys (pd_reports p)) \<subseteq> set (hm_keys (completed_reports d p))"
proof -
  have "keyed (fold (fold_in_final i finals) es m) \<and>
      set (hm_keys m) \<subseteq> set (hm_keys (fold (fold_in_final i finals) es m))"
    if "keyed m" "keyed finals" for i finals es m
    using that
  proof (induction es arbitrary: m)
    case Nil
    then show ?case by simp
  next
    case (Cons e es)
    with fold_in_final_keyed [OF Cons.prems, of i e] show ?case by (auto 4 4)
  qed
  with assms show ?thesis by (simp add: completed_reports_def)
qed

lemma completed_envelope_covers:
  assumes "keyed (pd_reports p)" and "keyed (drv_final_states d)" and "t \<in> set (hm_keys (pd_reports p))"
  shows "\<exists>r \<in> set (env_tasks (completed_envelope d p f)). rep_task_id r = t"
proof -
  have k: "keyed (completed_reports d p)" "t \<in> set (hm_keys (completed_reports d p))"
    using completed_reports_keyed [OF assms(1,2)] assms(3) by auto
  then obtain r where r: "hm_get (completed_reports d p) t = Some r"
    using hm_get_keys by (metis not_None_eq)
  then have "rep_task_id r = t" using k(1) by (simp add: keyed_def)
  moreover have "r \<in> set (hm_values (completed_reports d p))"
    using r by (force simp: hm_get_def hm_values_def dest: map_of_SomeD)
  ultimately show ?thesis by (auto simp: completed_envelope_def)
qed

subsection \<open>Handlers keep the invariant\<close>

lemma save_outcome:
  assumes "store_inv c job fs" and "valid_envelope job i e" and s: "save c pid fault e fs = (ok, fs')"
  shows "store_inv c job fs' \<and>
    stored c job fs' = (if ok then (stored c job fs)(i \<mapsto> e) else stored c job fs) \<and>
    (ok \<longrightarrow> save c pid None e fs = (True, fs'))"
proof (cases ok)
  case True
  with s have "save c pid None e fs = (True, fs')"
    by (auto simp: save_def attempt_def split: option.splits if_splits)
  with True save_store_inv [OF assms(1,2)] stored_save [OF assms(1,2)] show ?thesis by simp
next
  case False
  with s have "fs' \<in> set (crash_states (save_ops c pid e) fs)"
    by (auto simp: save_def attempt_def split: option.splits if_splits)
  with False crash_save_unchanged [OF assms(1,2)] show ?thesis by simp
qed

lemma completed_envelope_valid:
  "base_inv c d \<Longrightarrow> pending_core c d p \<Longrightarrow>
     valid_envelope (drv_job_id d) (pd_checkpoint_id p) (completed_envelope d p f)"
  by (simp add: valid_envelope_def completed_envelope_def base_inv_def pending_defs)

text \<open>What \<open>complete_checkpoint\<close> does, on both outcomes of the save.\<close>

lemma complete_checkpoint_outcome:
  assumes inv: "base_inv c d" "pending_core c d p"
  obtains (persisted) fs where
      "complete_checkpoint c pid fault p f d =
        d\<lparr>drv_fs := fs, drv_completed := drv_completed d + 1,
          drv_last_envelope := Some (completed_envelope d p f),
          drv_entries := map_gates (\<lambda>t. te_alive t \<or> f) (send_event (EvCompleted (pd_checkpoint_id p)))
            (drv_entries d)\<rparr>"
      and "store_inv c (drv_job_id d) fs"
      and "load_latest c (drv_job_id d) fs = Some (completed_envelope d p f)"
      and "\<forall>i \<in> dom (stored c (drv_job_id d) fs). i \<le> pd_checkpoint_id p"
      and "card (dom (stored c (drv_job_id d) fs)) \<le> drv_keep d"
  | (aborted) fs where
      "complete_checkpoint c pid fault p f d = abort_checkpoint (pd_checkpoint_id p) (d\<lparr>drv_fs := fs\<rparr>)"
      and "store_inv c (drv_job_id d) fs" and "stored c (drv_job_id d) fs = stored c (drv_job_id d) (drv_fs d)"
      and "fault \<noteq> None"
proof -
  let ?e = "completed_envelope d p f" and ?job = "drv_job_id d" and ?i = "pd_checkpoint_id p"
  note v = completed_envelope_valid [OF inv, of f]
  have si: "store_inv c ?job (drv_fs d)" and keep: "0 < drv_keep d"
    and below: "\<forall>j \<in> dom (stored c ?job (drv_fs d)). j < ?i"
    using inv by (auto simp: base_inv_def pending_defs)
  obtain ok fs' where s: "save c pid fault ?e (drv_fs d) = (ok, fs')" by fastforce
  note o = save_outcome [OF si v s]
  show thesis
  proof (cases ok)
    case False
    with s have "fault \<noteq> None" by (cases fault) (auto simp: save_def attempt_def)
    with False s o show ?thesis by (intro aborted [of fs']) (auto simp: complete_checkpoint_def Let_def)
  next
    case True
    let ?fs = "prune c ?job (drv_keep d) fs'"
    have sp: "save_prune c ?job pid (max (drv_keep d) 1) ?i ?e (drv_fs d) = ?fs"
      using True o keep by (simp add: save_prune_def max_absorb1 Suc_leI)
    have "stored c ?job ?fs = keep_newest (drv_keep d) ((stored c ?job (drv_fs d))(?i \<mapsto> ?e))"
      using o True stored_prune [of c ?job fs' "drv_keep d"] by simp
    then have "j \<le> ?i" if "j \<in> dom (stored c ?job ?fs)" for j
      using that below by (auto simp: dom_keep_newest simp del: fun_upd_apply dest: less_imp_le)
    moreover have "store_inv c ?job ?fs" using o by (intro prune_store_inv) simp
    moreover have "load_latest c ?job ?fs = Some ?e \<and> card (dom (stored c ?job ?fs)) \<le> drv_keep d"
      using local_store.latest_after_save [OF si v, of pid "drv_keep d"] below
        local_store.retention_bound [OF si v, of pid "drv_keep d"] keep
      unfolding sp by (auto simp: latest_entry_def max_absorb1 Suc_leI)
    ultimately show ?thesis using s True
      by (intro persisted [of ?fs]) (simp_all add: complete_checkpoint_def Let_def)
  qed
qed

lemma abort_checkpoint_frame [simp]:
  "drv_job_id (abort_checkpoint i d) = drv_job_id d" "drv_fs (abort_checkpoint i d) = drv_fs d"
  "drv_next_id (abort_checkpoint i d) = drv_next_id d" "drv_keep (abort_checkpoint i d) = drv_keep d"
  "drv_final_states (abort_checkpoint i d) = drv_final_states d"
  "drv_entries (abort_checkpoint i d) =
     map_gates te_alive (send_event (EvAborted i)) (drv_entries d)"
  by (simp_all add: abort_checkpoint_def)

lemma abort_base_inv [simp]: "base_inv c (abort_checkpoint i d) = base_inv c d"
  by (simp add: base_inv_def)

lemma complete_base_inv:
  assumes "base_inv c d" and "pending_core c d p"
  shows "base_inv c (complete_checkpoint c pid fault p f d) \<and>
    live_ids (drv_entries (complete_checkpoint c pid fault p f d)) = live_ids (drv_entries d) \<and>
    drv_next_id (complete_checkpoint c pid fault p f d) = drv_next_id d \<and>
    drv_job_id (complete_checkpoint c pid fault p f d) = drv_job_id d"
  using assms
proof (cases rule: complete_checkpoint_outcome [where pid = pid and fault = fault and f = f])
  case (persisted fs)
  have "i < drv_next_id d" if "i \<in> dom (stored c (drv_job_id d) fs)" for i
    using persisted(4) that assms(2) by (auto simp: pending_defs intro: le_less_trans)
  with assms(1) persisted(2) show ?thesis
    unfolding persisted(1) by (simp add: base_inv_def)
next
  case (aborted fs)
  with assms(1) show ?thesis unfolding aborted(1) by (simp add: base_inv_def)
qed

lemma trigger_inv:
  assumes "base_inv c d" and "drv_next_id d < u64_max" and "trigger_checkpoint now d = (d', p)"
  shows "base_inv c d' \<and> pending_inv c d' p \<and> live_ids (drv_entries d') = live_ids (drv_entries d) \<and>
    drv_next_id d' = drv_next_id d + 1 \<and> pd_checkpoint_id p = drv_next_id d \<and> drv_fs d' = drv_fs d \<and>
    drv_job_id d' = drv_job_id d"
proof -
  have "\<forall>i \<in> dom (stored c (drv_job_id d) (drv_fs d)). i < Suc (drv_next_id d)"
    using assms(1) by (blast intro: less_SucI dest: base_inv_def [THEN iffD1])
  with assms show ?thesis
    by (auto simp: trigger_checkpoint_def Let_def base_inv_def pending_defs sat_add_u64_exact
        live_ids_def [of "drv_entries d"])
qed

lemma pending_inv_core: "pending_inv c d p \<Longrightarrow> pending_core c d p"
  by (simp add: pending_inv_def)

lemma record_report_inv:
  "pending_inv c d p \<Longrightarrow> rep_checkpoint_id r = pd_checkpoint_id p \<Longrightarrow> pending_inv c d (record_report r p)"
  by (auto simp: pending_defs record_report_def hm_keys_insert keyed_insert)

lemma mark_dead_base_inv:
  "base_inv c d \<Longrightarrow> base_inv c (d\<lparr>drv_entries := mark_dead tid (drv_entries d)\<rparr>)"
  by (simp add: base_inv_def)

lemma mark_dead_pending_inv:
  "base_inv c d \<Longrightarrow> pending_inv c d p \<Longrightarrow>
   pending_inv c (d\<lparr>drv_entries := mark_dead tid (drv_entries d)\<rparr>)
     (p\<lparr>pd_awaiting := filter (\<lambda>t. t \<noteq> tid) (pd_awaiting p)\<rparr>)"
  by (auto simp: pending_defs base_inv_def live_ids_mark_dead)

lemma final_state_inv:
  "base_inv c d \<Longrightarrow>
     base_inv c (d\<lparr>drv_final_states := hm_insert (rep_task_id r) r (drv_final_states d)\<rparr>)"
  by (simp add: base_inv_def keyed_insert)

lemma final_state_pending_inv:
  "pending_inv c (d\<lparr>drv_final_states := m\<rparr>) p = pending_inv c d p"
  by (simp add: pending_defs)

lemma handle_message_inv:
  assumes "driver_inv c (d, po)" and "handle_message c pid fault m (d, po) = ((d', po'), stop)"
  shows "driver_inv c (d', po') \<and> drv_next_id d' = drv_next_id d \<and> (\<not> stop \<longrightarrow> any_alive d \<longrightarrow> any_alive d')"
proof -
  have b: "base_inv c d" and p: "\<And>p. po = Some p \<Longrightarrow> pending_inv c d p"
    using assms(1) by (auto simp: driver_inv_def)
  show ?thesis
  proof (cases m)
    case (Checkpoint r)
    with assms(2) show ?thesis
      using b p record_report_inv [of c d _ r]
        complete_base_inv [OF b pending_inv_core, of "record_report r _" pid fault False]
      by (auto simp: driver_inv_def final_state_inv final_state_pending_inv any_alive_live Let_def
          split: if_splits option.splits)
  next
    case (CommitDone t i)
    with assms show ?thesis by simp
  next
    case (CheckpointFailed t i err)
    with assms(2) b show ?thesis
      by (auto simp: driver_inv_def any_alive_live split: option.splits)
  next
    case (Done tid)
    let ?d1 = "d\<lparr>drv_entries := mark_dead tid (drv_entries d)\<rparr>"
    show ?thesis
    proof (cases po)
      case None
      with Done assms(2) b show ?thesis
        by (auto simp: driver_inv_def mark_dead_base_inv Let_def)
    next
      case (Some q)
      let ?q = "q\<lparr>pd_awaiting := filter (\<lambda>t. t \<noteq> tid) (pd_awaiting q)\<rparr>"
      have "base_inv c ?d1" "pending_inv c ?d1 ?q"
        using b p Some by (auto intro: mark_dead_base_inv mark_dead_pending_inv)
      with Some Done assms(2) complete_base_inv [of c ?d1 ?q pid fault False] pending_inv_core
      show ?thesis
        by (auto simp: driver_inv_def Let_def split: if_splits)
    qed
  qed
qed

lemma driver_iter_inv:
  assumes "driver_inv c cfg" and "driver_iter c pid fault now br cfg = (cfg', False)"
    and "drv_next_id (fst cfg') < u64_max"
  shows "driver_inv c cfg' \<and> drv_next_id (fst cfg) \<le> drv_next_id (fst cfg') \<and>
    (any_alive (fst cfg) \<longrightarrow> any_alive (fst cfg'))"
proof -
  obtain d po d' po' where [simp]: "cfg = (d, po)" "cfg' = (d', po')" by (cases cfg, cases cfg') auto
  have g: "\<not> (\<not> any_alive d \<and> po = None)"
    using assms(2) by (auto simp: driver_iter_def split: if_splits)
  show ?thesis
  proof (cases br)
    case Tick
    show ?thesis
    proof (cases "po = None \<and> any_alive d")
      case True
      then obtain p where t: "trigger_checkpoint now d = (d', p)" and p': "po' = Some p"
        using assms(2) Tick g by (auto simp: driver_iter_def split: prod.splits)
      then have "drv_next_id d < u64_max"
        using assms(3) by (auto simp: trigger_checkpoint_def Let_def sat_add_u64_def)
      from trigger_inv [OF _ this t] assms(1) show ?thesis
        by (auto simp: driver_inv_def any_alive_live p')
    next
      case False
      with assms Tick g show ?thesis by (auto simp: driver_iter_def split: if_splits)
    qed
  next
    case (Recv m)
    with assms(2) g have "handle_message c pid fault m (d, po) = ((d', po'), False)"
      by (auto simp: driver_iter_def)
    from handle_message_inv [OF _ this] assms(1) show ?thesis by auto
  next
    case Deadline
    with assms(1,2) g show ?thesis
      by (auto simp: driver_iter_def driver_inv_def any_alive_live split: option.splits)
  qed (use assms(2) g in \<open>auto simp: driver_iter_def Let_def\<close>)
qed

lemma map_gates_inv:
  "driver_inv c (d\<lparr>drv_entries := map_gates p f (drv_entries d)\<rparr>, po) = driver_inv c (d, po)"
  by (simp add: driver_inv_defs)

lemma driver_step_inv:
  assumes "driver_step c pid cfg cfg'" and "driver_inv c cfg" and "drv_next_id (fst cfg') < u64_max"
  shows "driver_inv c cfg' \<and> drv_next_id (fst cfg) \<le> drv_next_id (fst cfg') \<and>
    (any_alive (fst cfg) \<longrightarrow> any_alive (fst cfg'))"
  using assms
  by (cases rule: driver_step.cases) (auto dest: driver_iter_inv simp: map_gates_inv any_alive_live)

lemma complete_next_id [simp]:
  "drv_next_id (complete_checkpoint c pid fault p f d) = drv_next_id d"
  "drv_job_id (complete_checkpoint c pid fault p f d) = drv_job_id d"
  by (auto simp: complete_checkpoint_def Let_def split: prod.splits bool.splits)

lemma driver_step_next_id:
  assumes "driver_step c pid cfg cfg'" and "drv_next_id (fst cfg') < u64_max"
  shows "drv_next_id (fst cfg) \<le> drv_next_id (fst cfg') \<and> drv_job_id (fst cfg') = drv_job_id (fst cfg)"
  using assms(1)
proof (cases rule: driver_step.cases)
  case (step fault now br)
  have h: "drv_next_id (fst (fst (handle_message c pid fault m (d, po)))) = drv_next_id d \<and>
      drv_job_id (fst (fst (handle_message c pid fault m (d, po)))) = drv_job_id d" for m d po
    by (cases m) (auto simp: Let_def split: option.splits)
  obtain d po where [simp]: "cfg = (d, po)" by (cases cfg)
  show ?thesis
  proof (cases br)
    case (Recv m)
    with step h [of m d po] show ?thesis
      by (auto simp: driver_iter_def split: if_splits)
  next
    case Tick
    with step assms(2) show ?thesis
      by (auto simp: driver_iter_def trigger_checkpoint_def Let_def sat_add_u64_def split: if_splits)
  qed (use step in \<open>auto simp: driver_iter_def Let_def split: if_splits option.splits\<close>)
qed auto

lemma driver_reach_inv_alive:
  assumes "driver_reach c pid d0 cfg" and "base_inv c d0" and "drv_next_id (fst cfg) < u64_max"
  shows "driver_inv c cfg \<and> drv_next_id d0 \<le> drv_next_id (fst cfg) \<and>
    drv_job_id (fst cfg) = drv_job_id d0 \<and> (any_alive d0 \<longrightarrow> any_alive (fst cfg))"
  using assms
proof (induction rule: driver_reach.induct)
  case start
  then show ?case by (simp add: driver_inv_def)
next
  case (more cfg cfg')
  note n = driver_step_next_id [OF more.hyps(2) more.prems(2)]
  with more.prems(2) have "drv_next_id (fst cfg) < u64_max" by simp
  with n more driver_step_inv [OF more.hyps(2)] show ?case by fastforce
qed

section \<open>Restart\<close>

text \<open>The plan a runner builds on start: retention, the task registrations and the restore.\<close>

definition restart_plan ::
    "'b codec \<Rightarrow> 'b fs \<Rightarrow> string \<Rightarrow> nat \<Rightarrow> nat \<Rightarrow> registration list \<Rightarrow> plan" where
  "restart_plan c fs job interval keep metas =
     restore_from_latest c fs (fold register metas (with_keep_count keep (plan_new job interval)))"

lemma fold_register [simp]:
  "pl_job_id (fold register metas pl) = pl_job_id pl"
  "pl_keep (fold register metas pl) = pl_keep pl"
  "pl_interval (fold register metas pl) = pl_interval pl"
  "pl_timeout (fold register metas pl) = pl_timeout pl"
  "pl_entries (fold register metas pl) =
     pl_entries pl @ map (\<lambda>m. \<lparr>te_meta = m, te_gate = task_gate, te_alive = True\<rparr>) metas"
  by (induction metas arbitrary: pl) (simp_all add: register_def)

lemma load_latest_above:
  assumes "store_inv c job fs" and "i \<in> dom (stored c job fs)"
  shows "\<exists>e. load_latest c job fs = Some e \<and> i \<le> env_checkpoint_id e \<and>
    env_checkpoint_id e \<in> dom (stored c job fs)"
  using latest_entry_newest [OF assms(1)] assms(2)
  by (cases "load_latest c job fs") (auto simp: latest_entry_def newest_def)

lemma restart_base_inv:
  assumes "store_inv c job fs" and "distinct (map reg_task_id metas)"
    and "\<forall>i \<in> dom (stored c job fs). i < u64_max"
  shows "base_inv c (build fs (restart_plan c fs job interval keep metas))"
proof -
  let ?d = "build fs (restart_plan c fs job interval keep metas)"
  have [simp]: "drv_job_id ?d = job" "drv_fs ?d = fs" "drv_keep ?d = max keep 1"
    "map te_id (drv_entries ?d) = map reg_task_id metas" "drv_final_states ?d = hm_empty"
    by (simp_all add: build_def restart_plan_def restore_from_latest_def with_keep_count_def
        plan_new_def comp_def)
  have "i < drv_next_id ?d" if "i \<in> dom (stored c job fs)" for i
  proof -
    from load_latest_above [OF assms(1) that] obtain e
      where e: "load_latest c job fs = Some e" "i \<le> env_checkpoint_id e" by auto
    moreover have "i < u64_max" using assms(3) that by blast
    ultimately show ?thesis
      by (simp add: build_def restart_plan_def restore_from_latest_def with_keep_count_def
          plan_new_def sat_add_u64_def)
  qed
  moreover have "drv_next_id ?d \<le> u64_max"
    by (auto simp: build_def sat_add_u64_def u64_max_def split: option.splits)
  ultimately show ?thesis using assms by (simp add: base_inv_def)
qed

section \<open>Completion events\<close>

definition announced :: "'b driver \<Rightarrow> nat set" where
  "announced d = {n. \<exists>e \<in> set (drv_entries d). EvCompleted n \<in> set (g_events (te_gate e))}"

lemma announced_abort [simp]: "announced (abort_checkpoint i d) = announced d"
proof -
  have "(\<exists>e' \<in> set (map_gates p (send_event (EvAborted i)) es). EvCompleted n \<in> set (g_events (te_gate e'))) \<longleftrightarrow>
      (\<exists>e \<in> set es. EvCompleted n \<in> set (g_events (te_gate e)))" for p n es
    by (induction es) (simp_all add: map_gates_def)
  then show ?thesis by (simp add: announced_def)
qed

lemma announced_mark_dead [simp]:
  "announced (d\<lparr>drv_entries := mark_dead tid (drv_entries d)\<rparr>) = announced d"
proof -
  have "(\<exists>e' \<in> set (mark_dead tid es). EvCompleted n \<in> set (g_events (te_gate e'))) \<longleftrightarrow>
      (\<exists>e \<in> set es. EvCompleted n \<in> set (g_events (te_gate e)))" for n es
    by (induction es) auto
  then show ?thesis by (simp add: announced_def)
qed

lemma announced_trigger: "announced (fst (trigger_checkpoint now d)) = announced d"
proof -
  have "(\<exists>e' \<in> set (map_gates p (trigger i) es). EvCompleted n \<in> set (g_events (te_gate e'))) \<longleftrightarrow>
      (\<exists>e \<in> set es. EvCompleted n \<in> set (g_events (te_gate e)))" for p i es n
    by (induction es) (simp_all add: map_gates_def)
  then show ?thesis by (simp add: announced_def trigger_checkpoint_def Let_def)
qed

lemma announced_cong: "drv_entries d' = drv_entries d \<Longrightarrow> announced d' = announced d"
  by (simp add: announced_def)

definition durable :: "'b codec \<Rightarrow> nat \<Rightarrow> 'b driver \<Rightarrow> bool" where
  "durable c n d =
     (\<exists>e. load_latest c (drv_job_id d) (drv_fs d) = Some e \<and> env_checkpoint_id e = n \<and>
        drv_last_envelope d = Some e)"

text \<open>The envelope restored next covers every task that is alive.\<close>

definition covered :: "'b codec \<Rightarrow> 'b driver \<Rightarrow> bool" where
  "covered c d =
     (\<exists>e. load_latest c (drv_job_id d) (drv_fs d) = Some e \<and>
        live_ids (drv_entries d) \<subseteq> rep_task_id ` set (env_tasks e))"

lemma announced_complete:
  assumes inv: "base_inv c d" "pending_core c d p"
    and n: "n \<in> announced (complete_checkpoint c pid fault p f d)" "n \<notin> announced d"
  shows "n = pd_checkpoint_id p \<and> durable c n (complete_checkpoint c pid fault p f d) \<and>
    (pd_awaiting p = [] \<longrightarrow> pending_inv c d p \<longrightarrow> covered c (complete_checkpoint c pid fault p f d))"
  using inv
proof (cases rule: complete_checkpoint_outcome [where pid = pid and fault = fault and f = f])
  case (persisted fs)
  have "live_ids (drv_entries d) \<subseteq> rep_task_id ` set (env_tasks (completed_envelope d p f))"
    if "pd_awaiting p = []" "pending_inv c d p"
    using that inv completed_envelope_covers [of p d _ f]
    by (auto simp: pending_defs base_inv_def image_iff) (metis subsetD)
  moreover have "n = pd_checkpoint_id p"
    using n unfolding persisted(1) by (auto simp: announced_def in_map_gates split: if_splits)
  ultimately show ?thesis
    using persisted(3) unfolding persisted(1)
    by (simp add: durable_def covered_def completed_envelope_def)
next
  case (aborted fs)
  then show ?thesis using n by (simp add: announced_def [of "_\<lparr>drv_fs := _\<rparr>"] announced_def [of d])
qed

lemma final_loop_core:
  assumes "base_inv c d" and "pending_core c d p" and "final_loop xs d p = (d', p')"
  shows "base_inv c d' \<and> pending_core c d' p' \<and> announced d' = announced d"
  using assms
proof (induction xs arbitrary: d p)
  case Nil
  then show ?case by simp
next
  case (Cons x xs)
  have core: "pending_core c (d\<lparr>drv_entries := es\<rparr>) q = pending_core c d q"
    "pending_core c (d\<lparr>drv_final_states := fm\<rparr>) q = pending_core c d q"
    "pending_core c (abort_checkpoint i d) q = pending_core c d q"
    "pending_core c d (q\<lparr>pd_awaiting := aw\<rparr>) = pending_core c d q" for es fm i q aw
    by (simp_all add: pending_core_def)
  have rr: "pending_core c d (record_report r p)" for r
    using Cons.prems(2) by (simp add: pending_core_def record_report_def keyed_insert)
  have an: "announced (d\<lparr>drv_final_states := fm\<rparr>) = announced d" for fm by (rule announced_cong) simp
  show ?case
  proof (cases "pd_awaiting p = []")
    case True
    with Cons.prems show ?thesis by simp
  next
    case False
    note simps = core rr an mark_dead_base_inv final_state_inv
    show ?thesis
    proof (cases x)
      case (Final_Msg m)
      let ?dead = "\<lambda>tid. d\<lparr>drv_entries := mark_dead tid (drv_entries d)\<rparr>"
        and ?wait = "\<lambda>tid. p\<lparr>pd_awaiting := filter (\<lambda>t. t \<noteq> tid) (pd_awaiting p)\<rparr>"
        and ?fin = "\<lambda>r. d\<lparr>drv_final_states := hm_insert (rep_task_id r) r (drv_final_states d)\<rparr>"
      have dead: "pending_core c (?dead tid) (?wait tid)" "pending_core c (?fin r) p" for tid r
        using Cons.prems(2) by (simp_all add: core)
      note ih = Cons.IH [OF Cons.prems(1) rr] Cons.IH [OF Cons.prems(1,2)]
        Cons.IH [OF mark_dead_base_inv [OF Cons.prems(1)] dead(1)]
        Cons.IH [OF final_state_inv [OF Cons.prems(1)] dead(2)]
      show ?thesis
      proof (cases m)
        case (Done tid)
        then show ?thesis using Final_Msg False Cons.prems(3) ih(3) [of tid] by simp
      next
        case (Checkpoint r)
        then show ?thesis using Final_Msg False Cons.prems(3) ih(1) [of r] ih(2) ih(4) [of r]
          by (simp add: an split: if_splits)
      qed (use Final_Msg False Cons.prems ih(2) in \<open>auto simp: simps\<close>)
    qed (use False Cons.prems in \<open>auto simp: simps\<close>)
  qed
qed

lemma final_checkpoint_durable:
  assumes "base_inv c d" and "drv_next_id d < u64_max"
    and "n \<in> announced (fst (final_checkpoint c pid fault now script d))" and "n \<notin> announced d"
  shows "durable c n (fst (final_checkpoint c pid fault now script d))"
proof -
  obtain d1 p where t: "trigger_checkpoint now d = (d1, p)" by fastforce
  obtain d2 p' where l: "final_loop script d1 p = (d2, p')" by fastforce
  note i1 = trigger_inv [OF assms(1,2) t]
  have i2: "base_inv c d2 \<and> pending_core c d2 p' \<and> announced d2 = announced d1"
    using final_loop_core [OF _ _ l] i1 pending_inv_core by blast
  have "announced d1 = announced d" using announced_trigger [of now d] t by simp
  with assms(3,4) i2 announced_complete [of c d2 p' n pid fault True] show ?thesis
    by (auto simp: final_checkpoint_def t l split: if_splits)
qed

lemma handle_message_durable:
  assumes "driver_inv c (d, po)" and "handle_message c pid fault m (d, po) = ((d', po'), stop)"
    and "n \<in> announced d'" and "n \<notin> announced d"
  shows "durable c n d' \<and> covered c d'"
proof -
  have b: "base_inv c d" and p: "\<And>p. po = Some p \<Longrightarrow> pending_inv c d p"
    using assms(1) by (auto simp: driver_inv_def)
  show ?thesis
  proof (cases m)
    case (Checkpoint r)
    have an: "announced (d\<lparr>drv_final_states := fm\<rparr>) = announced d" for fm by (rule announced_cong) simp
    obtain q where q: "po = Some q" "pd_awaiting (record_report r q) = []"
        "rep_checkpoint_id r = pd_checkpoint_id q"
        "d' = complete_checkpoint c pid fault (record_report r q) False d"
      using Checkpoint assms(2-4) an by (auto simp: Let_def split: if_splits option.splits)
    have "pending_inv c d (record_report r q)" using p q record_report_inv by blast
    with announced_complete [OF b pending_inv_core, of "record_report r q" n pid fault False] q assms(3,4)
    show ?thesis by blast
  next
    case (Done tid)
    let ?d1 = "d\<lparr>drv_entries := mark_dead tid (drv_entries d)\<rparr>"
    obtain q where q: "po = Some q"
        "pd_awaiting (q\<lparr>pd_awaiting := filter (\<lambda>t. t \<noteq> tid) (pd_awaiting q)\<rparr>) = []"
        "d' = complete_checkpoint c pid fault
                (q\<lparr>pd_awaiting := filter (\<lambda>t. t \<noteq> tid) (pd_awaiting q)\<rparr>) False ?d1"
      using Done assms(2-4) by (auto simp: Let_def split: if_splits option.splits)
    have "base_inv c ?d1" "pending_inv c ?d1 (q\<lparr>pd_awaiting := filter (\<lambda>t. t \<noteq> tid) (pd_awaiting q)\<rparr>)"
      using mark_dead_base_inv [OF b] mark_dead_pending_inv [OF b p [OF q(1)]] by blast+
    with announced_complete [of c ?d1 _ n pid fault False] pending_inv_core q assms(3,4)
    show ?thesis unfolding announced_mark_dead by blast
  qed (use assms in \<open>auto split: option.splits\<close>)
qed

lemma driver_iter_durable:
  assumes "driver_inv c (d, po)" and "drv_next_id d < u64_max"
    and "driver_iter c pid fault now br (d, po) = ((d', po'), stop)"
    and "n \<in> announced d'" and "n \<notin> announced d"
  shows "durable c n d' \<and> ((\<forall>script. br \<noteq> Shutdown script) \<longrightarrow> covered c d')"
proof -
  have "announced (persist_exit_states c pid fault now d) = announced d"
    by (rule announced_cong)
      (auto simp: persist_exit_states_def Let_def split: prod.splits bool.splits)
  with assms(3-5) have g: "\<not> (\<not> any_alive d \<and> po = None)"
    by (auto simp: driver_iter_def split: if_splits)
  show ?thesis
  proof (cases br)
    case (Recv m)
    with g assms(3) handle_message_durable [OF assms(1) _ assms(4,5)] show ?thesis
      by (auto simp: driver_iter_def)
  next
    case (Shutdown script)
    let ?d1 = "case po of None \<Rightarrow> d | Some p \<Rightarrow> abort_checkpoint (pd_checkpoint_id p) d"
    have "base_inv c ?d1" "drv_next_id ?d1 = drv_next_id d" "announced ?d1 = announced d"
      using assms(1) by (auto simp: driver_inv_def split: option.splits)
    with final_checkpoint_durable [of c ?d1 n pid fault now script] assms(2-5) Shutdown g
    show ?thesis by (auto simp: driver_iter_def Let_def)
  next
    case Tick
    with assms(3-5) g announced_trigger [of now d] show ?thesis
      by (auto simp: driver_iter_def split: if_splits prod.splits)
  qed (use assms(3-5) g in \<open>auto simp: driver_iter_def split: option.splits\<close>)
qed

section \<open>Correctness of the driver\<close>

text \<open>The driver a runner launches over an existing store.\<close>

definition launch ::
    "'b codec \<Rightarrow> 'b fs \<Rightarrow> string \<Rightarrow> nat \<Rightarrow> nat \<Rightarrow> registration list \<Rightarrow> 'b driver" where
  "launch c fs job interval keep metas = build fs (restart_plan c fs job interval keep metas)"

lemma launch_fields [simp]:
  "drv_job_id (launch c fs job interval keep metas) = job"
  "drv_fs (launch c fs job interval keep metas) = fs"
  "drv_entries (launch c fs job interval keep metas) =
     map (\<lambda>m. \<lparr>te_meta = m, te_gate = task_gate, te_alive = True\<rparr>) metas"
  "drv_final_states (launch c fs job interval keep metas) = hm_empty"
  "drv_keep (launch c fs job interval keep metas) = max keep 1"
  by (simp_all add: launch_def build_def restart_plan_def restore_from_latest_def
      with_keep_count_def plan_new_def)

lemma launch_base_inv:
  assumes "store_inv c job fs" and "distinct (map reg_task_id metas)"
    and "\<forall>i \<in> dom (stored c job fs). i < u64_max"
  shows "base_inv c (launch c fs job interval keep metas)"
  unfolding launch_def by (rule restart_base_inv) (use assms in auto)

definition demo_meta :: "string \<Rightarrow> nat \<Rightarrow> registration" where
  "demo_meta tid k = \<lparr>reg_task_id = tid, reg_pipeline = ''p'', reg_subtask = k, reg_parallelism = 2\<rparr>"

definition demo_report :: "string \<Rightarrow> nat \<Rightarrow> nat \<Rightarrow> task_report" where
  "demo_report tid k i =
     \<lparr>rep_task_id = tid, rep_checkpoint_id = i, rep_pipeline = ''p'', rep_subtask = k,
      rep_parallelism = 2, rep_reader_state = [7], rep_writer_state = [], rep_commit_infos = []\<rparr>"

definition demo_driver :: "envelope driver" where
  "demo_driver = launch demo_codec hm_empty ''job'' 1000 3 [demo_meta ''a'' 0, demo_meta ''b'' 1]"

lemma demo_driver_base: "base_inv demo_codec demo_driver"
  unfolding demo_driver_def
  by (rule launch_base_inv) (auto simp: store_inv_fresh demo_codec_ok stored_fresh demo_meta_def)

lemma demo_driver_next: "drv_next_id demo_driver = 1"
  by (simp add: demo_driver_def launch_def build_def restart_plan_def restore_from_latest_def
      load_latest_def load_all_def stored_ids_def read_dir_def hm_simps)

text \<open>A checkpoint round of the demo driver: the trigger, the first report, the second report.\<close>

definition demo_d1 :: "envelope driver" where
  "demo_d1 = fst (trigger_checkpoint 5 demo_driver)"

definition demo_p1 :: pending where
  "demo_p1 = snd (trigger_checkpoint 5 demo_driver)"

definition demo_p2 :: pending where
  "demo_p2 = record_report (demo_report ''a'' 0 1) demo_p1"

lemma demo_alive: "any_alive demo_driver" "any_alive demo_d1"
  by (simp_all add: any_alive_live demo_d1_def trigger_checkpoint_def Let_def)
    (simp_all add: demo_driver_def live_ids_Cons)


lemma demo_tick:
  "driver_iter demo_codec 9 None 5 Tick (demo_driver, None) = ((demo_d1, Some demo_p1), False)"
  using demo_alive by (simp add: driver_iter_def demo_d1_def demo_p1_def split: prod.splits)

lemma demo_p1_fields:
  "pd_checkpoint_id demo_p1 = 1" "pd_awaiting demo_p1 = [''a'', ''b'']" "pd_reports demo_p1 = hm_empty"
  by (simp_all add: demo_p1_def trigger_checkpoint_def Let_def demo_driver_next)
    (simp_all add: demo_driver_def demo_meta_def)

lemma demo_recv:
  "driver_iter demo_codec 9 None 6 (Recv (Checkpoint (demo_report ''a'' 0 1))) (demo_d1, Some demo_p1) =
     ((demo_d1, Some demo_p2), False)"
  using demo_alive demo_p1_fields
  by (simp add: driver_iter_def demo_p2_def record_report_def demo_report_def FINAL_CHECKPOINT_ID_def
      u64_max_def)

lemma demo_reach: "driver_reach demo_codec 9 demo_driver (demo_d1, Some demo_p2)"
  by (meson driver_reach.intros driver_step.step demo_tick demo_recv)

lemma demo_d1_next: "drv_next_id demo_d1 = 2"
  by (simp add: demo_d1_def trigger_checkpoint_def Let_def demo_driver_next sat_add_u64_def u64_max_def)

text \<open>
  C2. Persist before commit. Take any run of the driver launched over a store, and any iteration of
  its loop. If a task's gate carries a completion of checkpoint n that no gate carried before, then
  checkpoint n is on disk as the newest loadable envelope of the job (and is the driver's last
  envelope), so phase 2 only ever runs for a durable checkpoint. Outside shutdown that envelope
  holds a report of every task still alive.
\<close>

theorem completed_is_durable:
  assumes "store_inv c job fs" and "distinct (map reg_task_id metas)"
    and "\<forall>i \<in> dom (stored c job fs). i < u64_max"
    and "driver_reach c pid (launch c fs job interval keep metas) (d, po)"
    and "drv_next_id d < u64_max"
    and "driver_iter c pid fault now br (d, po) = ((d', po'), stop)"
    and "n \<in> announced d'" and "n \<notin> announced d"
  shows "durable c n d' \<and> ((\<forall>script. br \<noteq> Shutdown script) \<longrightarrow> covered c d')"
proof (rule driver_iter_durable)
  show "driver_inv c (d, po)"
    using driver_reach_inv_alive [OF assms(4) launch_base_inv [OF assms(1-3)]] assms(5) by simp
qed (use assms in auto)

lemma complete_announces:
  assumes "any_alive d"
  shows "pd_checkpoint_id p \<in> announced (complete_checkpoint c pid None p f d)"
proof -
  obtain e where e: "e \<in> set (drv_entries d)" "te_alive e" using assms by (auto simp: any_alive_def)
  let ?ev = "EvCompleted (pd_checkpoint_id p)"
  let ?es = "map_gates (\<lambda>t. te_alive t \<or> f) (send_event ?ev) (drv_entries d)"
  have "e\<lparr>te_gate := send_event ?ev (te_gate e)\<rparr> \<in> set ?es"
    using e unfolding in_map_gates by (intro bexI [of _ e]) simp_all
  moreover have "drv_entries (complete_checkpoint c pid None p f d) = ?es"
    by (simp add: complete_checkpoint_def Let_def save_def attempt_def)
  ultimately show ?thesis
    unfolding announced_def mem_Collect_eq by (metis gate_fields(4) task_entry.select_convs(2)
        task_entry.update_convs(2) task_entry.surjective last_in_set last_snoc snoc_eq_iff_butlast)
qed

text \<open>The last report of the demo round completes checkpoint 1 on both gates.\<close>

definition demo_done :: "envelope driver" where
  "demo_done = fst (fst (driver_iter demo_codec 9 None 7
     (Recv (Checkpoint (demo_report ''b'' 1 1))) (demo_d1, Some demo_p2)))"

lemma demo_complete:
  "driver_iter demo_codec 9 None 7 (Recv (Checkpoint (demo_report ''b'' 1 1))) (demo_d1, Some demo_p2) =
     ((demo_done, None), False)"
  "demo_done = complete_checkpoint demo_codec 9 None (record_report (demo_report ''b'' 1 1) demo_p2) False demo_d1"
  using demo_alive demo_p1_fields
  by (simp_all add: demo_done_def driver_iter_def demo_p2_def record_report_def demo_report_def
      FINAL_CHECKPOINT_ID_def u64_max_def)

lemma demo_announced: "1 \<in> announced demo_done" "1 \<notin> announced demo_d1"
proof -
  have e: "drv_entries demo_d1 = map (\<lambda>m. \<lparr>te_meta = m, te_gate = trigger 1 task_gate, te_alive = True\<rparr>)
      [demo_meta ''a'' 0, demo_meta ''b'' 1]"
    by (simp add: demo_d1_def trigger_checkpoint_def Let_def demo_driver_next)
      (simp add: demo_driver_def map_gates_def)
  then show "1 \<notin> announced demo_d1" by (simp add: announced_def task_gate_def)
  have "pd_checkpoint_id (record_report (demo_report ''b'' 1 1) demo_p2) \<in> announced demo_done"
    unfolding demo_complete(2) by (rule complete_announces) (rule demo_alive)
  then show "1 \<in> announced demo_done" by (simp add: demo_p2_def demo_p1_fields record_report_def)
qed

theorem completed_is_durable_witness:
  "durable demo_codec 1 demo_done \<and> covered demo_codec demo_done"
  using completed_is_durable [of demo_codec "''job''" hm_empty "[demo_meta ''a'' 0, demo_meta ''b'' 1]" 9
      1000 3 demo_d1 "Some demo_p2" None 7 "Recv (Checkpoint (demo_report ''b'' 1 1))" demo_done None False 1]
    demo_reach demo_complete(1) demo_announced demo_d1_next
  by (simp add: store_inv_fresh demo_codec_ok stored_fresh demo_meta_def demo_driver_def u64_max_def)

text \<open>
  C16. Checkpoint ids increase across restarts. Whatever the driver did since it was launched over a
  store, the next barrier it triggers carries an id above every id the store held at launch and
  above every id it holds now, and the counter then moves past that id.
\<close>

theorem checkpoint_ids_increase:
  assumes "store_inv c job fs" and "distinct (map reg_task_id metas)"
    and "\<forall>i \<in> dom (stored c job fs). i < u64_max"
    and "driver_reach c pid (launch c fs job interval keep metas) (d, po)"
    and "drv_next_id d < u64_max"
    and "trigger_checkpoint now d = (d', p)"
  shows "(\<forall>i \<in> dom (stored c job fs) \<union> dom (stored c job (drv_fs d)). i < pd_checkpoint_id p) \<and>
    pd_checkpoint_id p < drv_next_id d'"
proof -
  note b = launch_base_inv [OF assms(1-3), where interval = interval and keep = keep]
  note r = driver_reach_inv_alive [OF assms(4) b]
  have "base_inv c d" and n: "drv_next_id (launch c fs job interval keep metas) \<le> drv_next_id d"
    and j: "drv_job_id d = job"
    using r assms(5) by (simp_all add: driver_inv_def)
  from trigger_inv [OF this(1) assms(5,6)]
  have t: "drv_next_id d' = drv_next_id d + 1" "pd_checkpoint_id p = drv_next_id d" by auto
  have "i < drv_next_id d" if "i \<in> dom (stored c job fs)" for i
    using b n that by (auto simp: base_inv_def intro: less_le_trans)
  moreover have "i < drv_next_id d" if "i \<in> dom (stored c job (drv_fs d))" for i
    using \<open>base_inv c d\<close> that by (auto simp: base_inv_def j)
  ultimately show ?thesis using t by auto
qed

theorem checkpoint_ids_increase_witness:
  "pd_checkpoint_id demo_p1 = 1 \<and> pd_checkpoint_id demo_p1 < drv_next_id demo_d1"
proof (rule conjI [OF demo_p1_fields(1) checkpoint_ids_increase [THEN conjunct2]])
  show "driver_reach demo_codec 9
      (launch demo_codec hm_empty ''job'' 1000 3 [demo_meta ''a'' 0, demo_meta ''b'' 1]) (demo_driver, None)"
    unfolding demo_driver_def by (rule driver_reach.start)
  show "trigger_checkpoint 5 demo_driver = (demo_d1, demo_p1)" by (simp add: demo_d1_def demo_p1_def)
qed (simp_all add: store_inv_fresh demo_codec_ok stored_fresh demo_meta_def demo_driver_next u64_max_def)

text \<open>
  The exit states of a job that runs to its end are never persisted. In every state a driver
  with tasks reaches, some task is alive, so the branch at the top of the loop that persists them is
  not taken; and the \<open>Done\<close> of the last task, with no checkpoint pending, stops the loop at once,
  leaving the store as it was and the collected exit states unsaved.
\<close>

theorem exit_states_not_persisted:
  assumes "store_inv c job fs" and "distinct (map reg_task_id metas)"
    and "\<forall>i \<in> dom (stored c job fs). i < u64_max" and "metas \<noteq> []"
    and "driver_reach c pid (launch c fs job interval keep metas) (d, po)"
    and "drv_next_id d < u64_max"
  shows "any_alive d \<and>
    (\<forall>fault now tid d' po'.
       po = None \<longrightarrow> driver_iter c pid fault now (Recv (Done tid)) (d, po) = ((d', po'), True) \<longrightarrow>
       drv_fs d' = drv_fs d \<and> drv_final_states d' = drv_final_states d)"
proof -
  have "any_alive (launch c fs job interval keep metas)"
    using assms(4) by (cases metas) (simp_all add: any_alive_def)
  then have a: "any_alive d"
    using driver_reach_inv_alive [OF assms(5) launch_base_inv [OF assms(1-3)]] assms(6) by simp
  then show ?thesis by (auto simp: driver_iter_def Let_def)
qed

definition demo_single :: "envelope driver" where
  "demo_single = launch demo_codec hm_empty ''job'' 1000 3 [demo_meta ''a'' 0]"

definition demo_final :: "envelope driver" where
  "demo_final = demo_single\<lparr>drv_final_states := [(''a'', demo_report ''a'' 0 FINAL_CHECKPOINT_ID)]\<rparr>"

definition demo_stopped :: "envelope driver" where
  "demo_stopped = demo_final\<lparr>drv_entries := mark_dead ''a'' (drv_entries demo_final)\<rparr>"

lemma demo_final_facts:
  "driver_reach demo_codec 9 demo_single (demo_final, None)" "drv_next_id demo_final = 1"
  "driver_iter demo_codec 9 None 6 (Recv (Done ''a'')) (demo_final, None) = ((demo_stopped, None), True)"
proof -
  have al: "any_alive demo_single" by (simp add: any_alive_def demo_single_def)
  have "driver_iter demo_codec 9 None 5 (Recv (Checkpoint (demo_report ''a'' 0 FINAL_CHECKPOINT_ID)))
      (demo_single, None) = ((demo_final, None), False)"
    using al by (simp add: driver_iter_def demo_final_def demo_report_def)
      (simp add: demo_single_def hm_insert_def hm_empty_def hm_remove_def)
  then show "driver_reach demo_codec 9 demo_single (demo_final, None)"
    by (meson driver_reach.intros driver_step.step)
  show "drv_next_id demo_final = 1"
    by (simp add: demo_final_def demo_single_def launch_def build_def restart_plan_def
        restore_from_latest_def load_latest_def load_all_def stored_ids_def read_dir_def hm_simps)
  have "\<not> any_alive demo_stopped" "any_alive demo_final"
    by (simp_all add: demo_stopped_def demo_final_def demo_single_def demo_meta_def any_alive_def)
  then show "driver_iter demo_codec 9 None 6 (Recv (Done ''a'')) (demo_final, None) =
      ((demo_stopped, None), True)"
    by (simp add: driver_iter_def Let_def demo_stopped_def)
qed

theorem exit_states_not_persisted_witness:
  "drv_fs demo_stopped = hm_empty \<and>
   drv_final_states demo_stopped = [(''a'', demo_report ''a'' 0 FINAL_CHECKPOINT_ID)]"
proof -
  have "drv_fs demo_final = hm_empty" and
    "drv_final_states demo_final = [(''a'', demo_report ''a'' 0 FINAL_CHECKPOINT_ID)]"
    by (simp_all add: demo_final_def demo_single_def)
  with exit_states_not_persisted [of demo_codec "''job''" hm_empty "[demo_meta ''a'' 0]" 9 1000 3 demo_final None]
    demo_final_facts show ?thesis
    by (simp add: store_inv_fresh demo_codec_ok stored_fresh demo_single_def [symmetric] u64_max_def)
      (metis (no_types))
qed

lemma fold_in_final_keys:
  "set (hm_keys (fold (fold_in_final i finals) es m)) \<subseteq>
     set (hm_keys m) \<union> te_id ` {e \<in> set es. \<not> te_alive e}"
proof (induction es arbitrary: m)
  case Nil
  then show ?case by simp
next
  case (Cons e es)
  have "set (hm_keys (fold_in_final i finals e m)) \<subseteq>
      set (hm_keys m) \<union> (if te_alive e then {} else {te_id e})"
    by (auto simp: fold_in_final_def hm_keys_insert split: option.splits if_splits)
  with Cons.IH [of "fold_in_final i finals e m"] show ?case by (auto split: if_splits)
qed

text \<open>A live task with no report is missing from the envelope.\<close>

lemma missing_task:
  assumes "keyed (pd_reports p)" "keyed (drv_final_states d)" "distinct (map te_id (drv_entries d))"
    and "t \<in> live_ids (drv_entries d)" and "t \<notin> set (hm_keys (pd_reports p))"
  shows "t \<notin> rep_task_id ` set (env_tasks (completed_envelope d p f))"
proof
  assume "t \<in> rep_task_id ` set (env_tasks (completed_envelope d p f))"
  then obtain r where r: "r \<in> set (hm_values (completed_reports d p))" "rep_task_id r = t"
    by (auto simp: completed_envelope_def)
  then obtain k where k: "(k, r) \<in> set (completed_reports d p)" by (auto simp: hm_values_def)
  have "keyed (completed_reports d p)" using completed_reports_keyed [OF assms(1,2)] by simp
  with k r(2) have "k = t" by (metis hm_get_in_set keyed_def)
  with k have "t \<in> set (hm_keys (completed_reports d p))" by (force simp: hm_keys_def)
  then obtain e' where "e' \<in> set (drv_entries d)" "\<not> te_alive e'" "te_id e' = t"
    using fold_in_final_keys assms(5) unfolding completed_reports_def by blast
  moreover obtain e where "e \<in> set (drv_entries d)" "te_alive e" "te_id e = t"
    using assms(4) by (auto simp: live_ids_def)
  ultimately show False using assms(3) by (metis distinct_map inj_onD)
qed

lemma abort_complete_events:
  "\<forall>e \<in> set (map_gates (\<lambda>_. True) (send_event b) (map_gates te_alive (send_event a) es)).
     te_alive e \<longrightarrow> (\<exists>evs. g_events (te_gate e) = evs @ [a, b])"
  by (induction es) (simp_all add: map_gates_def)

text \<open>
  A failed final checkpoint is both aborted and committed. When on shutdown one task reports the
  final barrier and another one, still alive, then reports a failure, every live task is told that
  the checkpoint was aborted and right after that it completed; the checkpoint is persisted as the
  newest one although it has no state of the task that failed.
\<close>

theorem failed_final_checkpoint_commits:
  assumes "base_inv c d" and "drv_next_id d < u64_max" and "rep_checkpoint_id r = drv_next_id d"
    and "t \<in> live_ids (drv_entries d)" and "t \<noteq> rep_task_id r"
    and "d' = fst (final_checkpoint c pid None now
                [Final_Msg (Checkpoint r), Final_Msg (CheckpointFailed t i err)] d)"
  shows "(\<forall>e \<in> set (drv_entries d'). te_alive e \<longrightarrow>
        (\<exists>evs. g_events (te_gate e) = evs @ [EvAborted (drv_next_id d), EvCompleted (drv_next_id d)])) \<and>
    durable c (drv_next_id d) d' \<and> \<not> covered c d'"
proof -
  let ?n = "drv_next_id d"
  obtain d1 p where tr: "trigger_checkpoint now d = (d1, p)" by fastforce
  note i1 = trigger_inv [OF assms(1,2) tr]
  have p: "pd_reports p = hm_empty" "pd_awaiting p = map te_id (filter te_alive (drv_entries d))"
    using tr by (auto simp: trigger_checkpoint_def Let_def)
  let ?p = "record_report r p\<lparr>pd_awaiting := []\<rparr>" and ?d2 = "abort_checkpoint ?n d1"
  have t: "t \<in> set (pd_awaiting p)" using assms(4) p(2) by (auto simp: live_ids_def)
  then have aw: "pd_awaiting p \<noteq> []" "pd_awaiting (record_report r p) \<noteq> []"
    using assms(5) by (auto simp: record_report_def filter_empty_conv)
  have rep: "pd_checkpoint_id ?p = ?n" "pd_reports ?p = [(rep_task_id r, r)]"
    using i1 p(1) by (simp_all add: record_report_def hm_insert_def hm_empty_def)
  have "final_loop [Final_Msg (Checkpoint r), Final_Msg (CheckpointFailed t i err)] d1 p = (?d2, ?p)"
    using i1 assms(3) aw by (simp add: record_report_def)
  moreover have "any_alive d" using assms(4) by (auto simp: any_alive_live)
  ultimately have d': "d' = complete_checkpoint c pid None ?p True ?d2"
    using assms(6) rep by (simp add: final_checkpoint_def tr)
  have b2: "base_inv c ?d2" using i1 by simp
  have c2: "pending_core c ?d2 ?p" and k: "keyed (pd_reports ?p)"
    using i1 by (auto simp: pending_defs record_report_def keyed_insert)
  have live: "live_ids (drv_entries ?d2) = live_ids (drv_entries d)" using i1 by simp
  from b2 c2 show ?thesis
  proof (cases rule: complete_checkpoint_outcome [where pid = pid and fault = None and f = True])
    case (persisted fs)
    have "t \<notin> rep_task_id ` set (env_tasks (completed_envelope ?d2 ?p True))"
      using b2 k assms(4,5) live rep(2)
      by (intro missing_task) (simp_all add: base_inv_def hm_keys_def)
    moreover have "live_ids (drv_entries d') = live_ids (drv_entries d)"
      using live unfolding d' persisted(1) by simp
    ultimately have "\<not> covered c d'"
      using assms(4) persisted(3) unfolding covered_def d' persisted(1) by auto
    moreover have "durable c ?n d'"
      using persisted(3) rep(1) unfolding durable_def d' persisted(1) by (simp add: completed_envelope_def)
    ultimately show ?thesis
      using abort_complete_events [of "EvCompleted ?n" "EvAborted ?n" "drv_entries d1"]
      unfolding d' persisted(1) by (simp add: rep(1))
  next
    case (aborted fs)
    then show ?thesis by simp
  qed
qed

theorem failed_final_checkpoint_commits_witness:
  "\<not> covered demo_codec (fst (final_checkpoint demo_codec 9 None 5
      [Final_Msg (Checkpoint (demo_report ''a'' 0 1)), Final_Msg (CheckpointFailed ''b'' 1 ''disk full'')]
      demo_driver))"
proof -
  have "''b'' \<in> live_ids (drv_entries demo_driver)"
    by (simp add: demo_driver_def demo_meta_def live_ids_Cons)
  then show ?thesis
    using failed_final_checkpoint_commits [OF demo_driver_base _ _ _ _ refl, of "demo_report ''a'' 0 1" "''b''"
        9 5 1 "''disk full''"]
    by (simp add: demo_driver_next demo_report_def u64_max_def)
qed

section \<open>The checkpoint timeout\<close>

text \<open>
  The loop against the clock (milliseconds). \<open>next_tick\<close> is when the ticker next fires; the
  deadline of a pending checkpoint is taken afresh at the top of every iteration, \<open>now + timeout\<close>.
  \<open>select!\<close> wakes at the first of the tick, the deadline and an event (a message or the shutdown
  signal), and handling it takes until some later time. A tick polled late reschedules the ticker
  from that moment (\<open>MissedTickBehavior::Delay\<close>).
\<close>

inductive timed_step ::
    "'b codec \<Rightarrow> nat \<Rightarrow> nat \<times> nat \<times> 'b config \<Rightarrow> branch \<Rightarrow> nat \<times> nat \<times> 'b config \<Rightarrow> bool"
    for c pid where
  tick: "driver_iter c pid fault wall Tick cfg = (cfg', False) \<Longrightarrow> t = max now next_tick \<Longrightarrow>
    (snd cfg \<noteq> None \<Longrightarrow> t \<le> now + drv_timeout (fst cfg)) \<Longrightarrow> t \<le> now' \<Longrightarrow>
    timed_step c pid (now, next_tick, cfg) Tick (now', t + drv_interval (fst cfg), cfg')"
| event: "driver_iter c pid fault wall (Recv m) cfg = (cfg', False) \<Longrightarrow> now \<le> t \<Longrightarrow> t \<le> max now next_tick \<Longrightarrow>
    (snd cfg \<noteq> None \<Longrightarrow> t \<le> now + drv_timeout (fst cfg)) \<Longrightarrow> t \<le> now' \<Longrightarrow>
    timed_step c pid (now, next_tick, cfg) (Recv m) (now', next_tick, cfg')"
| deadline: "driver_iter c pid fault wall Deadline cfg = (cfg', False) \<Longrightarrow> snd cfg \<noteq> None \<Longrightarrow>
    t = now + drv_timeout (fst cfg) \<Longrightarrow> t \<le> max now next_tick \<Longrightarrow> t \<le> now' \<Longrightarrow>
    timed_step c pid (now, next_tick, cfg) Deadline (now', next_tick, cfg')"

inductive timed_reach ::
    "'b codec \<Rightarrow> nat \<Rightarrow> nat \<Rightarrow> 'b driver \<Rightarrow> nat \<times> nat \<times> 'b config \<Rightarrow> bool" for c pid t0 d0 where
  start: "timed_reach c pid t0 d0 (t0, t0 + drv_interval d0, (d0, None))"
| more: "timed_reach c pid t0 d0 s \<Longrightarrow> timed_step c pid s br s' \<Longrightarrow> timed_reach c pid t0 d0 s'"

inductive_cases timed_deadlineE: "timed_step c pid s Deadline s'"

lemma abort_timing [simp]:
  "drv_interval (abort_checkpoint i d) = drv_interval d"
  "drv_timeout (abort_checkpoint i d) = drv_timeout d"
  by (simp_all add: abort_checkpoint_def)

lemma complete_timing [simp]:
  "drv_interval (complete_checkpoint c pid fault p f d) = drv_interval d"
  "drv_timeout (complete_checkpoint c pid fault p f d) = drv_timeout d"
  by (auto simp: complete_checkpoint_def Let_def split: prod.splits bool.splits)

lemma driver_iter_timing:
  assumes "driver_iter c pid fault wall br (d, po) = ((d', po'), False)"
  shows "drv_interval d' = drv_interval d \<and> drv_timeout d' = drv_timeout d"
proof (cases br)
  case (Recv m)
  then show ?thesis using assms
    by (cases m) (auto simp: driver_iter_def Let_def split: if_splits option.splits)
qed (use assms in \<open>auto simp: driver_iter_def trigger_checkpoint_def Let_def split: if_splits option.splits\<close>)

lemma timed_reach_tick:
  "timed_reach c pid t0 d0 (now, nt, cfg) \<Longrightarrow>
     nt \<le> now + drv_interval d0 \<and> drv_interval (fst cfg) = drv_interval d0 \<and>
     drv_timeout (fst cfg) = drv_timeout d0"
proof (induction "(now, nt, cfg)" arbitrary: now nt cfg rule: timed_reach.induct)
  case start
  then show ?case by simp
next
  case (more s br)
  obtain n0 t1 cfg0 where s: "s = (n0, t1, cfg0)" by (cases s)
  note ih = more(2) [OF s]
  show ?case using more(3) ih unfolding s
    by (cases rule: timed_step.cases) (cases cfg0, cases cfg, auto dest!: driver_iter_timing)+
qed

text \<open>
  The checkpoint timeout of the select loop never fires when the interval is shorter than the
  timeout: the deadline is recomputed in every iteration and the ticker wakes the loop first, so a
  checkpoint that some task never answers stays pending for ever (and ticks start no new one).
\<close>

theorem timeout_never_fires:
  assumes "drv_interval d0 < drv_timeout d0" and "timed_reach c pid t0 d0 s"
  shows "\<not> timed_step c pid s Deadline s'"
proof
  assume "timed_step c pid s Deadline s'"
  then obtain now nt cfg where "s = (now, nt, cfg)" "now + drv_timeout (fst cfg) \<le> max now nt"
    by (auto elim: timed_deadlineE)
  with timed_reach_tick [of c pid t0 d0 now nt cfg] assms show False
    by (auto simp: max_def split: if_splits)
qed

lemma demo_timing: "drv_interval demo_driver = 1000" "drv_timeout demo_driver = 30000"
  by (simp_all add: demo_driver_def launch_def build_def restart_plan_def restore_from_latest_def
      with_keep_count_def plan_new_def DEFAULT_CHECKPOINT_TIMEOUT_MS_def register_def)

theorem timeout_never_fires_witness:
  "\<not> timed_step demo_codec 9 (1000, 2000, (demo_d1, Some demo_p1)) Deadline (31000, 2000, (demo_d1, None))"
proof (rule timeout_never_fires [where ?t0.0 = 0])
  have "timed_step demo_codec 9 (0, 1000, (demo_driver, None)) Tick
      (1000, 1000 + drv_interval (fst (demo_driver, None :: pending option)), (demo_d1, Some demo_p1))"
    by (rule timed_step.tick [OF demo_tick]) simp_all
  then show "timed_reach demo_codec 9 0 demo_driver (1000, 2000, (demo_d1, Some demo_p1))"
    using timed_reach.more [OF timed_reach.start [of demo_codec 9 0 demo_driver]] demo_timing by fastforce
qed (simp add: demo_timing)

end
