(* ===== verification/Barrier.thy ===== *)
theory Barrier
  imports Prelude
begin

text \<open>
  Barrier alignment for one task (\<open>barrier.rs\<close>): \<open>BarrierTracker::receive\<close> counts the barriers of
  each checkpoint id and reports the id as aligned once every upstream channel has delivered one;
  any other stream element is buffered in arrival order. The tracker's set of aligned ids is a list
  without duplicates.
\<close>

record barrier =
  br_checkpoint_id :: nat
  br_timestamp :: int

datatype stream_element =
    Data "8 word list"
  | Checkpoint_Barrier barrier
  | Schema_Change string
  | End_Of_Stream

record tracker =
  tr_task_id :: string
  tr_parallelism :: nat
  tr_received_counts :: "(nat, nat) hashmap"
  tr_aligned :: "nat list"
  tr_pending_data :: "stream_element list"

definition tracker_new :: "string \<Rightarrow> nat \<Rightarrow> tracker" where
  "tracker_new tid p =
     \<lparr>tr_task_id = tid, tr_parallelism = p, tr_received_counts = hm_empty, tr_aligned = [],
      tr_pending_data = []\<rparr>"

definition hm_count :: "(nat, nat) hashmap \<Rightarrow> nat \<Rightarrow> nat" where
  "hm_count m k = (case hm_get m k of None \<Rightarrow> 0 | Some n \<Rightarrow> n)"

definition receive :: "stream_element \<Rightarrow> tracker \<Rightarrow> nat option \<times> tracker" where
  "receive el tr =
     (case el of
        Checkpoint_Barrier b \<Rightarrow>
          let i = br_checkpoint_id b;
              n = hm_count (tr_received_counts tr) i + 1;
              tr' = tr\<lparr>tr_received_counts := hm_insert i n (tr_received_counts tr)\<rparr>
          in if tr_parallelism tr \<le> n
             then (Some i, tr'\<lparr>tr_aligned := List.insert i (tr_aligned tr)\<rparr>)
             else (None, tr')
      | _ \<Rightarrow> (None, tr\<lparr>tr_pending_data := tr_pending_data tr @ [el]\<rparr>))"

definition is_aligned :: "nat \<Rightarrow> tracker \<Rightarrow> bool" where
  "is_aligned i tr = (i \<in> set (tr_aligned tr))"

definition pending_count :: "tracker \<Rightarrow> nat" where
  "pending_count tr = length (tr_pending_data tr)"

definition drain_pending :: "tracker \<Rightarrow> stream_element list \<times> tracker" where
  "drain_pending tr = (tr_pending_data tr, tr\<lparr>tr_pending_data := []\<rparr>)"

section \<open>Alignment\<close>

definition barriers_of :: "nat \<Rightarrow> stream_element list \<Rightarrow> nat" where
  "barriers_of i els =
     length (filter (\<lambda>el. case el of Checkpoint_Barrier b \<Rightarrow> br_checkpoint_id b = i | _ \<Rightarrow> False) els)"

definition is_barrier :: "stream_element \<Rightarrow> bool" where
  "is_barrier el = (case el of Checkpoint_Barrier b \<Rightarrow> True | _ \<Rightarrow> False)"

definition receive_all :: "stream_element list \<Rightarrow> tracker \<Rightarrow> tracker" where
  "receive_all els tr = fold (\<lambda>el tr. snd (receive el tr)) els tr"

lemma barriers_of_simps [simp]:
  "barriers_of i [] = 0"
  "barriers_of i (els @ [Checkpoint_Barrier b]) =
     barriers_of i els + (if br_checkpoint_id b = i then 1 else 0)"
  "\<not> is_barrier el \<Longrightarrow> barriers_of i (els @ [el]) = barriers_of i els"
  by (auto simp: barriers_of_def is_barrier_def split: stream_element.splits)

lemma receive_all_snoc: "receive_all (els @ [el]) tr = snd (receive el (receive_all els tr))"
  by (simp add: receive_all_def)

lemma receive_data: "\<not> is_barrier el \<Longrightarrow>
    receive el tr = (None, tr\<lparr>tr_pending_data := tr_pending_data tr @ [el]\<rparr>)"
  by (cases el) (simp_all add: receive_def is_barrier_def)

text \<open>What the tracker knows after a stream: the counts, the aligned ids and the buffer.\<close>

lemma receive_all_new:
  "tr_parallelism (receive_all els (tracker_new tid p)) = p \<and>
   hm_count (tr_received_counts (receive_all els (tracker_new tid p))) i = barriers_of i els \<and>
   (is_aligned i (receive_all els (tracker_new tid p)) \<longleftrightarrow>
      0 < barriers_of i els \<and> p \<le> barriers_of i els) \<and>
   tr_pending_data (receive_all els (tracker_new tid p)) = filter (\<lambda>el. \<not> is_barrier el) els"
proof (induction els rule: rev_induct)
  case Nil
  show ?case by (simp add: receive_all_def tracker_new_def hm_count_def is_aligned_def)
next
  case (snoc el els)
  show ?case
  proof (cases "is_barrier el")
    case False
    with snoc show ?thesis by (simp add: receive_all_snoc receive_data is_aligned_def)
  next
    case True
    then obtain b where el: "el = Checkpoint_Barrier b"
      by (cases el) (auto simp: is_barrier_def)
    with snoc show ?thesis
      by (auto simp: receive_all_snoc receive_def Let_def is_aligned_def hm_count_def hm_get_insert
          is_barrier_def)
  qed
qed

end
