(* ===== verification/Task_Group.thy ===== *)
theory Task_Group
  imports Local_Driver Barrier
begin

text \<open>
  The execution unit of the engine (\<open>task_group.rs\<close>): a \<open>TaskGroup\<close> owns a source reader, a chain of
  transforms, a sink writer and an optional 2PC committer, and its \<open>run\<close> loop cancels, cuts
  checkpoint barriers, handles checkpoint resolutions, polls and writes.

  The connectors are trait objects (\<open>BoxedSourceReader\<close>, \<open>BoxedSinkWriter\<close>, \<open>BoxedSinkCommitter\<close>,
  \<open>BoxedTransform\<close>, \<open>CheckpointListener\<close>): they are parameters, operations on an abstract world
  \<open>'s\<close> that may fail with an error text. The calls that succeeded are kept, in order, in the history
  \<open>tg_calls\<close>, which no operation reads; the messages to the driver are part of it.

  The loop is a small-step machine: \<open>tg_pc\<close> says which part of the loop body is next, and one step is
  one operation that reads the gate (one \<open>take_trigger\<close> with its barrier, one \<open>poll_event\<close> with its
  handler) or one of the other parts. The driver acts on the gate between any two steps.
\<close>

section \<open>Connectors\<close>

type_synonym ('s, 'a) op = "'s \<Rightarrow> (string + 'a) \<times> 's"

datatype ('r, 'e) poll_result =
    PollRecord 'r
  | PollSchemaChange 'e
  | PollEmpty
  | PollEOF

record ('s, 'r, 'e) reader_ops =
  rd_open :: "('s, unit) op"
  rd_poll_next :: "('s, ('r, 'e) poll_result) op"
  rd_snapshot_state :: "('s, bytes) op"
  rd_notify_checkpoint_complete :: "nat \<Rightarrow> ('s, unit) op"
  rd_close :: "('s, unit) op"

record ('s, 'r, 'e) sink_ops =
  sk_open :: "('s, unit) op"
  sk_write :: "'r \<Rightarrow> ('s, unit) op"
  sk_apply_schema_change :: "'e \<Rightarrow> ('s, unit) op"
  sk_poll_flush :: "('s, unit) op"
  sk_prepare_commit :: "nat \<Rightarrow> ('s, bytes list) op"
  sk_snapshot_state :: "('s, bytes) op"
  sk_close :: "('s, unit) op"

text \<open>The aggregated commit info is only logged, so \<open>commit\<close> returns nothing here.\<close>

record 's committer_ops =
  cm_commit :: "bytes list \<Rightarrow> ('s, unit) op"
  cm_abort :: "bytes list \<Rightarrow> ('s, unit) op"

type_synonym ('s, 'r) transform_op = "'r \<Rightarrow> ('s, 'r list) op"

text \<open>\<open>on_checkpoint job task id timestamp state\<close> returns nothing.\<close>

type_synonym 's listener_op = "string \<Rightarrow> string \<Rightarrow> nat \<Rightarrow> int \<Rightarrow> bytes \<Rightarrow> 's \<Rightarrow> 's"

text \<open>The snapshot of the sink metrics handle; the \<open>f64\<close> average is kept as its bits.\<close>

record sink_metrics_snapshot =
  sm_window_secs :: nat
  sm_sent :: nat
  sm_delivered :: nat
  sm_failed :: nat
  sm_in_flight :: nat
  sm_latency_ema_ms :: "64 word"
  sm_latency_max_ms :: nat
  sm_last_error :: "string option"
  sm_last_error_at :: int

section \<open>Context, status and state\<close>

datatype checkpoint_storage = Storage_Local | Storage_HDFS string | Storage_S3 string string

record checkpoint_config =
  cc_interval_ms :: nat
  cc_max_concurrent :: nat
  cc_timeout_ms :: nat
  cc_min_pause_ms :: nat
  cc_retention :: nat
  cc_storage_backend :: checkpoint_storage
  cc_exactly_once :: bool
  cc_changelog_state_backend :: bool

definition checkpoint_config_default :: checkpoint_config where
  "checkpoint_config_default =
     \<lparr>cc_interval_ms = 60000, cc_max_concurrent = 1, cc_timeout_ms = 600000,
      cc_min_pause_ms = 30000, cc_retention = 1, cc_storage_backend = Storage_Local,
      cc_exactly_once = True, cc_changelog_state_backend = False\<rparr>"

text \<open>A cancellation token and a checkpoint handle are shared with the outside: the context only
  says whether they are attached; whether the token is cancelled is an input of a step, and the
  gate behind the handle is part of the task's state.\<close>

record 's task_context =
  cx_task_id :: string
  cx_job_id :: string
  cx_stage_id :: string
  cx_subtask_index :: nat
  cx_parallelism :: nat
  cx_config :: checkpoint_config
  cx_cancel_token :: bool
  cx_listener :: "'s listener_op option"
  cx_handle :: bool

definition context_new :: "string \<Rightarrow> string \<Rightarrow> string \<Rightarrow> nat \<Rightarrow> nat \<Rightarrow> 's task_context" where
  "context_new tid job stage subtask par =
     \<lparr>cx_task_id = tid, cx_job_id = job, cx_stage_id = stage, cx_subtask_index = subtask,
      cx_parallelism = par, cx_config = checkpoint_config_default, cx_cancel_token = False,
      cx_listener = None, cx_handle = False\<rparr>"

definition with_cancel_token :: "'s task_context \<Rightarrow> 's task_context" where
  "with_cancel_token cx = cx\<lparr>cx_cancel_token := True\<rparr>"

definition with_checkpoint_interval :: "nat \<Rightarrow> 's task_context \<Rightarrow> 's task_context" where
  "with_checkpoint_interval ms cx =
     cx\<lparr>cx_config := (cx_config cx)\<lparr>cc_interval_ms := max ms 1\<rparr>\<rparr>"

definition with_checkpoint_listener :: "'s listener_op \<Rightarrow> 's task_context \<Rightarrow> 's task_context" where
  "with_checkpoint_listener l cx = cx\<lparr>cx_listener := Some l\<rparr>"

definition with_checkpoint_handle :: "'s task_context \<Rightarrow> 's task_context" where
  "with_checkpoint_handle cx = cx\<lparr>cx_handle := True\<rparr>"

datatype task_run_state = TCreated | TRunning | TCompleted | TFailed string | TCancelled

record task_status =
  st_task_id :: string
  st_state :: task_run_state
  st_processed_records :: nat
  st_start_time :: int
  st_end_time :: int
  st_error :: "string option"
  st_last_record_at :: int
  st_last_checkpoint_id :: nat
  st_last_checkpoint_size :: nat
  st_sink_metrics :: "sink_metrics_snapshot option"

definition task_status_new :: "string \<Rightarrow> task_status" where
  "task_status_new tid =
     \<lparr>st_task_id = tid, st_state = TCreated, st_processed_records = 0, st_start_time = 0,
      st_end_time = 0, st_error = None, st_last_record_at = 0, st_last_checkpoint_id = 0,
      st_last_checkpoint_size = 0, st_sink_metrics = None\<rparr>"

text \<open>The history of calls.\<close>

datatype 'r call =
    Polled 'r
  | Wrote 'r
  | Prepared nat "bytes list"
  | Sink_Snapshot bytes
  | Reader_Snapshot bytes
  | Committed "bytes list"
  | Rolled_Back "bytes list"
  | Notified nat
  | Listened nat int bytes
  | Reported task_to_driver
  | Idled nat
  | Reader_Closed
  | Sink_Closed

datatype pc =
    At_Top
  | At_Triggers
  | At_Events
  | At_Periodic
  | At_Poll
  | Leaving task_run_state
  | Finished "string + task_status"

record ('s, 'r, 'e, 'sc) task =
  tg_context :: "'s task_context"
  tg_reader :: "('s, 'r, 'e) reader_ops"
  tg_transforms :: "('s, 'r) transform_op list"
  tg_output_schema :: "'sc option"
  tg_sink :: "('s, 'r, 'e) sink_ops"
  tg_committer :: "'s committer_ops option"
  tg_last_commit_infos :: "bytes list"
  tg_status :: task_status
  tg_records_processed :: nat
  tg_checkpoints_completed :: nat
  tg_last_checkpoint_at :: "int option"
  tg_last_status_publish :: "nat option"
  tg_empty_streak :: nat
  tg_last_record_at :: int
  tg_last_checkpoint_meta :: "nat \<times> nat"
  tg_sink_metrics :: "('s \<Rightarrow> sink_metrics_snapshot) option"
  tg_tracker :: tracker
  tg_gate :: gate
  tg_world :: 's
  tg_calls :: "'r call list"
  tg_pc :: pc

definition task_group_new ::
    "'s task_context \<Rightarrow> ('s, 'r, 'e) reader_ops \<Rightarrow> ('s, 'r, 'e) sink_ops \<Rightarrow> 's \<Rightarrow> ('s, 'r, 'e, 'sc) task" where
  "task_group_new cx rd sk w =
     \<lparr>tg_context = cx, tg_reader = rd, tg_transforms = [], tg_output_schema = None, tg_sink = sk,
      tg_committer = None, tg_last_commit_infos = [], tg_status = task_status_new (cx_task_id cx),
      tg_records_processed = 0, tg_checkpoints_completed = 0, tg_last_checkpoint_at = None,
      tg_last_status_publish = None, tg_empty_streak = 0, tg_last_record_at = 0,
      tg_last_checkpoint_meta = (0, 0), tg_sink_metrics = None,
      tg_tracker = tracker_new (cx_task_id cx) (cx_parallelism cx), tg_gate = task_gate,
      tg_world = w, tg_calls = [], tg_pc = At_Top\<rparr>"

definition with_transforms ::
    "('s, 'r) transform_op list \<Rightarrow> ('s, 'r, 'e, 'sc) task \<Rightarrow> ('s, 'r, 'e, 'sc) task" where
  "with_transforms fs t = t\<lparr>tg_transforms := fs\<rparr>"

definition with_committer ::
    "'s committer_ops option \<Rightarrow> ('s, 'r, 'e, 'sc) task \<Rightarrow> ('s, 'r, 'e, 'sc) task" where
  "with_committer c t = t\<lparr>tg_committer := c\<rparr>"

definition with_sink_metrics ::
    "('s \<Rightarrow> sink_metrics_snapshot) \<Rightarrow> ('s, 'r, 'e, 'sc) task \<Rightarrow> ('s, 'r, 'e, 'sc) task" where
  "with_sink_metrics f t = t\<lparr>tg_sink_metrics := Some f\<rparr>"

definition with_output_schema ::
    "'sc \<Rightarrow> ('s, 'r, 'e, 'sc) task \<Rightarrow> ('s, 'r, 'e, 'sc) task" where
  "with_output_schema sc t = t\<lparr>tg_output_schema := Some sc\<rparr>"

section \<open>Operations\<close>

definition STATUS_PUBLISH_INTERVAL :: nat where
  "STATUS_PUBLISH_INTERVAL = 200 * 1000000"

definition IDLE_BACKOFF_MS :: "nat list" where
  "IDLE_BACKOFF_MS = [1, 2, 5, 10, 20]"

text \<open>The \<open>?\<close> operator: stop at an error, keeping the effects made so far.\<close>

definition and_then ::
    "(string + 'a) \<times> 't \<Rightarrow> ('a \<Rightarrow> 't \<Rightarrow> (string + 'b) \<times> 't) \<Rightarrow> (string + 'b) \<times> 't" where
  "and_then m f = (case m of (Inl e, t) \<Rightarrow> (Inl e, t) | (Inr x, t) \<Rightarrow> f x t)"

definition map_err :: "(string \<Rightarrow> string) \<Rightarrow> (string + 'a) \<times> 't \<Rightarrow> (string + 'a) \<times> 't" where
  "map_err g m = (case m of (Inl e, t) \<Rightarrow> (Inl (g e), t) | (Inr x, t) \<Rightarrow> (Inr x, t))"

definition logged :: "'r call list \<Rightarrow> ('s, 'r, 'e, 'sc) task \<Rightarrow> ('s, 'r, 'e, 'sc) task" where
  "logged cs t = t\<lparr>tg_calls := tg_calls t @ cs\<rparr>"

text \<open>A connector call: it acts on the world, and is logged when it succeeds.\<close>

definition invoke ::
    "('s, 'a) op \<Rightarrow> ('a \<Rightarrow> 'r call list) \<Rightarrow> ('s, 'r, 'e, 'sc) task \<Rightarrow>
     (string + 'a) \<times> ('s, 'r, 'e, 'sc) task" where
  "invoke m cs t =
     (case m (tg_world t) of
        (Inl e, w) \<Rightarrow> (Inl e, t\<lparr>tg_world := w\<rparr>)
      | (Inr x, w) \<Rightarrow> (Inr x, logged (cs x) (t\<lparr>tg_world := w\<rparr>)))"

text \<open>\<open>CheckpointHandle::report\<close>: a message on the channel to the driver.\<close>

definition report :: "task_to_driver \<Rightarrow> ('s, 'r, 'e, 'sc) task \<Rightarrow> ('s, 'r, 'e, 'sc) task" where
  "report m t = (if cx_handle (tg_context t) then logged [Reported m] t else t)"

subsection \<open>Transforms\<close>

fun process_rows :: "('s, 'r) transform_op \<Rightarrow> 'r list \<Rightarrow> ('s, 'r list) op" where
  "process_rows f [] s = (Inr [], s)"
| "process_rows f (r # rs) s =
     and_then (f r s) (\<lambda>out s'.
     and_then (process_rows f rs s') (\<lambda>rest s''. (Inr (out @ rest), s'')))"

fun transform_rows :: "('s, 'r) transform_op list \<Rightarrow> 'r list \<Rightarrow> ('s, 'r list) op" where
  "transform_rows [] rows s = (Inr rows, s)"
| "transform_rows (f # fs) rows s = and_then (process_rows f rows s) (transform_rows fs)"

definition apply_transforms ::
    "'r \<Rightarrow> ('s, 'r, 'e, 'sc) task \<Rightarrow> (string + 'r list) \<times> ('s, 'r, 'e, 'sc) task" where
  "apply_transforms row t = invoke (transform_rows (tg_transforms t) [row]) (\<lambda>_. []) t"

subsection \<open>Checkpoints\<close>

definition snapshot_error :: "string \<Rightarrow> string" where
  "snapshot_error e = ''reader snapshot_state failed: '' @ e"

definition execute_barrier ::
    "int \<Rightarrow> nat \<Rightarrow> ('s, 'r, 'e, 'sc) task \<Rightarrow> (string + unit) \<times> ('s, 'r, 'e, 'sc) task" where
  "execute_barrier now i t =
     and_then (invoke (sk_prepare_commit (tg_sink t) i) (\<lambda>infos. [Prepared i infos]) t)
     (\<lambda>infos t1.
     and_then (invoke (sk_snapshot_state (tg_sink t)) (\<lambda>ws. [Sink_Snapshot ws]) t1)
     (\<lambda>ws t2.
     and_then (map_err snapshot_error
        (invoke (rd_snapshot_state (tg_reader t)) (\<lambda>rs. [Reader_Snapshot rs]) t2))
     (\<lambda>rs t3.
       (Inr (),
        report
          (Checkpoint
            \<lparr>rep_task_id = cx_task_id (tg_context t), rep_checkpoint_id = i,
             rep_pipeline = cx_stage_id (tg_context t),
             rep_subtask = cx_subtask_index (tg_context t),
             rep_parallelism = cx_parallelism (tg_context t), rep_reader_state = rs,
             rep_writer_state = ws, rep_commit_infos = infos\<rparr>)
          (t3\<lparr>tg_checkpoints_completed := tg_checkpoints_completed t3 + 1,
              tg_last_checkpoint_at := Some now,
              tg_last_checkpoint_meta :=
                (if i \<noteq> FINAL_CHECKPOINT_ID then (i, length rs) else tg_last_checkpoint_meta t3),
              tg_last_commit_infos := infos\<rparr>)))))"

text \<open>Phase 2 of one resolution: the committer runs only when there is something to resolve.\<close>

definition resolve_infos ::
    "('s committer_ops \<Rightarrow> bytes list \<Rightarrow> ('s, unit) op) \<Rightarrow> (bytes list \<Rightarrow> 'r call) \<Rightarrow>
     ('s, 'r, 'e, 'sc) task \<Rightarrow> (string + unit) \<times> ('s, 'r, 'e, 'sc) task" where
  "resolve_infos act c t =
     (case tg_committer t of
        None \<Rightarrow> (Inr (), t)
      | Some cm \<Rightarrow>
          if tg_last_commit_infos t \<noteq> []
          then invoke (act cm (tg_last_commit_infos t)) (\<lambda>_. [c (tg_last_commit_infos t)]) t
          else (Inr (), t))"

fun handle_checkpoint_event ::
    "checkpoint_event \<Rightarrow> ('s, 'r, 'e, 'sc) task \<Rightarrow> (string + unit) \<times> ('s, 'r, 'e, 'sc) task" where
  "handle_checkpoint_event (EvCompleted i) t =
     and_then (resolve_infos cm_commit Committed t) (\<lambda>_ t1.
     and_then
       (map_err (\<lambda>e. ''notify_checkpoint_complete failed: '' @ e)
         (invoke (rd_notify_checkpoint_complete (tg_reader t) i) (\<lambda>_. [Notified i])
           (t1\<lparr>tg_last_commit_infos := []\<rparr>))) (\<lambda>_ t2.
     (Inr (), report (CommitDone (cx_task_id (tg_context t)) i) t2)))"
| "handle_checkpoint_event (EvAborted i) t =
     and_then (resolve_infos cm_abort Rolled_Back t) (\<lambda>_ t1.
     (Inr (), t1\<lparr>tg_last_commit_infos := []\<rparr>))"

definition checkpoint_due :: "int \<Rightarrow> ('s, 'r, 'e, 'sc) task \<Rightarrow> bool" where
  "checkpoint_due now t =
     (case tg_last_checkpoint_at t of
        None \<Rightarrow> True
      | Some prev \<Rightarrow> u64_as_i64 (cc_interval_ms (cx_config (tg_context t))) \<le> now - prev)"

definition maybe_trigger_checkpoint ::
    "int \<Rightarrow> ('s, 'r, 'e, 'sc) task \<Rightarrow> (string + nat option) \<times> ('s, 'r, 'e, 'sc) task" where
  "maybe_trigger_checkpoint now t =
     (case cx_listener (tg_context t) of
        None \<Rightarrow> (Inr None, t)
      | Some listener \<Rightarrow>
          if cx_handle (tg_context t) \<or> \<not> checkpoint_due now t then (Inr None, t)
          else
            let i = tg_checkpoints_completed t + 1 in
            and_then (invoke (sk_prepare_commit (tg_sink t) i) (\<lambda>infos. [Prepared i infos]) t)
            (\<lambda>infos t1.
            and_then (map_err snapshot_error
               (invoke (rd_snapshot_state (tg_reader t)) (\<lambda>rs. [Reader_Snapshot rs]) t1))
            (\<lambda>rs t2.
              (Inr (Some i),
               logged [Listened i now rs]
                 (t2\<lparr>tg_last_checkpoint_meta := (i, length rs),
                     tg_world :=
                       listener (cx_job_id (tg_context t)) (cx_task_id (tg_context t)) i now rs
                         (tg_world t2)\<rparr>)))))"

definition periodic_checkpoint ::
    "int \<Rightarrow> ('s, 'r, 'e, 'sc) task \<Rightarrow> (string + unit) \<times> ('s, 'r, 'e, 'sc) task" where
  "periodic_checkpoint now t =
     and_then (maybe_trigger_checkpoint now t) (\<lambda>r t1.
       (Inr (),
        case r of
          None \<Rightarrow> t1
        | Some i \<Rightarrow>
            t1\<lparr>tg_tracker :=
                 snd (receive (Checkpoint_Barrier \<lparr>br_checkpoint_id = i, br_timestamp = now\<rparr>)
                   (tg_tracker t1)),
               tg_checkpoints_completed := tg_checkpoints_completed t1 + 1,
               tg_last_checkpoint_at := Some now\<rparr>))"

subsection \<open>Status and rows\<close>

definition published_metrics :: "('s, 'r, 'e, 'sc) task \<Rightarrow> sink_metrics_snapshot option" where
  "published_metrics t =
     (case tg_sink_metrics t of
        None \<Rightarrow> None
      | Some f \<Rightarrow>
          let s = f (tg_world t) in
          if 0 < sm_sent s \<or> 0 < sm_failed s \<or> 0 < sm_in_flight s \<or> sm_last_error s \<noteq> None
          then Some s else None)"

definition publish_status_throttled ::
    "nat \<Rightarrow> ('s, 'r, 'e, 'sc) task \<Rightarrow> ('s, 'r, 'e, 'sc) task" where
  "publish_status_throttled inst t =
     (if (case tg_last_status_publish t of
            None \<Rightarrow> True | Some prev \<Rightarrow> STATUS_PUBLISH_INTERVAL \<le> inst - prev)
      then
        t\<lparr>tg_last_status_publish := Some inst,
          tg_status := (tg_status t)
            \<lparr>st_processed_records := tg_records_processed t,
             st_last_record_at := tg_last_record_at t,
             st_last_checkpoint_id := fst (tg_last_checkpoint_meta t),
             st_last_checkpoint_size := snd (tg_last_checkpoint_meta t),
             st_sink_metrics := published_metrics t\<rparr>\<rparr>
      else t)"

fun write_rows :: "'r list \<Rightarrow> ('s, 'r, 'e, 'sc) task \<Rightarrow> (string + unit) \<times> ('s, 'r, 'e, 'sc) task" where
  "write_rows [] t = (Inr (), t)"
| "write_rows (r # rs) t =
     and_then (invoke (sk_write (tg_sink t) r) (\<lambda>_. [Wrote r]) t) (\<lambda>_. write_rows rs)"

definition process_record ::
    "int \<Rightarrow> nat \<Rightarrow> 'r \<Rightarrow> ('s, 'r, 'e, 'sc) task \<Rightarrow> (string + unit) \<times> ('s, 'r, 'e, 'sc) task" where
  "process_record now inst row t =
     and_then (apply_transforms row (t\<lparr>tg_empty_streak := 0\<rparr>)) (\<lambda>rows t1.
       write_rows rows
         (publish_status_throttled inst
           (t1\<lparr>tg_records_processed := tg_records_processed t1 + length rows,
               tg_last_record_at := now\<rparr>)))"

definition idle_delay :: "nat \<Rightarrow> nat" where
  "idle_delay n = (if n = 0 then 0 else IDLE_BACKOFF_MS ! min (n - 1) (length IDLE_BACKOFF_MS - 1))"

definition process_empty ::
    "('s, 'r, 'e, 'sc) task \<Rightarrow> (string + unit) \<times> ('s, 'r, 'e, 'sc) task" where
  "process_empty t =
     and_then (invoke (sk_poll_flush (tg_sink t)) (\<lambda>_. [Idled (idle_delay (tg_empty_streak t))]) t)
       (\<lambda>_ t1. (Inr (), t1\<lparr>tg_empty_streak := min (tg_empty_streak t1 + 1) (2 ^ 32 - 1)\<rparr>))"

text \<open>\<open>evolve\<close> is \<open>TableSchema::apply_schema_change_event\<close>.\<close>

definition process_schema_change ::
    "('e \<Rightarrow> 'sc \<Rightarrow> string + 'sc) \<Rightarrow> 'e \<Rightarrow> ('s, 'r, 'e, 'sc) task \<Rightarrow>
     (string + unit) \<times> ('s, 'r, 'e, 'sc) task" where
  "process_schema_change evolve ev t =
     and_then (invoke (sk_apply_schema_change (tg_sink t) ev) (\<lambda>_. []) t) (\<lambda>_ t1.
       case tg_output_schema t1 of
         None \<Rightarrow> (Inr (), t1)
       | Some sc \<Rightarrow>
           (case evolve ev sc of
              Inl e \<Rightarrow> (Inl (''apply schema change to output schema: '' @ e), t1)
            | Inr sc' \<Rightarrow> (Inr (), t1\<lparr>tg_output_schema := Some sc'\<rparr>)))"


section \<open>The run loop\<close>

text \<open>
  What a step reads from outside: the epoch clock in milliseconds, the monotonic clock in
  nanoseconds, whether the token is cancelled. \<open>settle\<close> ends a fallible part of the loop body: an
  error propagated by \<open>?\<close> makes \<open>run\<close> return at once.
\<close>

record step_input =
  si_now :: int
  si_instant :: nat
  si_cancelled :: bool

definition settle :: "pc \<Rightarrow> (string + unit) \<times> ('s, 'r, 'e, 'sc) task \<Rightarrow> ('s, 'r, 'e, 'sc) task" where
  "settle next m = (case m of (Inl e, t) \<Rightarrow> t\<lparr>tg_pc := Finished (Inl e)\<rparr> | (Inr _, t) \<Rightarrow> t\<lparr>tg_pc := next\<rparr>)"

definition start :: "int \<Rightarrow> ('s, 'r, 'e, 'sc) task \<Rightarrow> ('s, 'r, 'e, 'sc) task" where
  "start now t =
     settle At_Top
       (and_then
         (invoke (rd_open (tg_reader t)) (\<lambda>_. [])
           (t\<lparr>tg_status := (tg_status t)\<lparr>st_state := TRunning, st_start_time := now\<rparr>\<rparr>))
         (\<lambda>_. invoke (sk_open (tg_sink t)) (\<lambda>_. [])))"

definition step_top :: "step_input \<Rightarrow> ('s, 'r, 'e, 'sc) task \<Rightarrow> ('s, 'r, 'e, 'sc) task" where
  "step_top i t =
     t\<lparr>tg_pc :=
       (if cx_cancel_token (tg_context t) \<and> si_cancelled i then Leaving TCancelled
        else if cx_handle (tg_context t) then At_Triggers else At_Periodic)\<rparr>"

definition step_triggers :: "step_input \<Rightarrow> ('s, 'r, 'e, 'sc) task \<Rightarrow> ('s, 'r, 'e, 'sc) task" where
  "step_triggers i t =
     (case take_trigger (tg_gate t) of
        (None, g) \<Rightarrow> t\<lparr>tg_gate := g, tg_pc := At_Events\<rparr>
      | (Some cp, g) \<Rightarrow>
          (case execute_barrier (si_now i) cp (t\<lparr>tg_gate := g\<rparr>) of
             (Inl e, t1) \<Rightarrow> report (CheckpointFailed (cx_task_id (tg_context t)) cp e) t1
           | (Inr _, t1) \<Rightarrow> t1))"

definition step_events :: "('s, 'r, 'e, 'sc) task \<Rightarrow> ('s, 'r, 'e, 'sc) task" where
  "step_events t =
     (case poll_event (tg_gate t) of
        (None, g) \<Rightarrow> t\<lparr>tg_gate := g, tg_pc := At_Periodic\<rparr>
      | (Some ev, g) \<Rightarrow>
          (case handle_checkpoint_event ev (t\<lparr>tg_gate := g\<rparr>) of
             (Inl e, t1) \<Rightarrow> t1\<lparr>tg_pc := Leaving (TFailed e)\<rparr>
           | (Inr _, t1) \<Rightarrow> t1))"

definition step_poll ::
    "('e \<Rightarrow> 'sc \<Rightarrow> string + 'sc) \<Rightarrow> step_input \<Rightarrow> ('s, 'r, 'e, 'sc) task \<Rightarrow> ('s, 'r, 'e, 'sc) task" where
  "step_poll evolve i t =
     (case invoke (rd_poll_next (tg_reader t))
             (\<lambda>p. case p of PollRecord r \<Rightarrow> [Polled r] | _ \<Rightarrow> []) t of
        (Inl e, t1) \<Rightarrow> t1\<lparr>tg_pc := Leaving (TFailed e)\<rparr>
      | (Inr p, t1) \<Rightarrow>
          (case p of
             PollRecord r \<Rightarrow> settle At_Top (process_record (si_now i) (si_instant i) r t1)
           | PollSchemaChange ev \<Rightarrow> settle At_Top (process_schema_change evolve ev t1)
           | PollEmpty \<Rightarrow> settle At_Top (process_empty t1)
           | PollEOF \<Rightarrow> t1\<lparr>tg_pc := Leaving TCompleted\<rparr>))"

text \<open>The exit barrier, and the terminal state it leaves.\<close>

definition exit_flush ::
    "int \<Rightarrow> task_run_state \<Rightarrow> ('s, 'r, 'e, 'sc) task \<Rightarrow> task_run_state \<times> ('s, 'r, 'e, 'sc) task" where
  "exit_flush now s t =
     (if s = TCompleted \<or> s = TCancelled
      then if cx_handle (tg_context t)
        then (case execute_barrier now FINAL_CHECKPOINT_ID t of
                (Inl e, t1) \<Rightarrow>
                  (if s = TCompleted then TFailed (''exit barrier failed: '' @ e) else s, t1)
              | (Inr _, t1) \<Rightarrow> (s, t1))
        else (case invoke (sk_prepare_commit (tg_sink t) FINAL_CHECKPOINT_ID)
                     (\<lambda>infos. [Prepared FINAL_CHECKPOINT_ID infos]) t of
                (Inl e, t1) \<Rightarrow>
                  (if s = TCompleted then TFailed (''final sink flush failed: '' @ e) else s, t1)
              | (Inr _, t1) \<Rightarrow> (s, t1))
      else (s, t))"

definition final_status :: "int \<Rightarrow> task_run_state \<Rightarrow> ('s, 'r, 'e, 'sc) task \<Rightarrow> task_status" where
  "final_status now s t =
     (tg_status t)
       \<lparr>st_error := (case s of TFailed e \<Rightarrow> Some e | _ \<Rightarrow> st_error (tg_status t)),
        st_state := s, st_end_time := now, st_processed_records := tg_records_processed t,
        st_last_record_at := tg_last_record_at t,
        st_last_checkpoint_id := fst (tg_last_checkpoint_meta t),
        st_last_checkpoint_size := snd (tg_last_checkpoint_meta t)\<rparr>"

definition step_leave :: "step_input \<Rightarrow> task_run_state \<Rightarrow> ('s, 'r, 'e, 'sc) task \<Rightarrow> ('s, 'r, 'e, 'sc) task" where
  "step_leave i s t =
     (let (s1, t1) = exit_flush (si_now i) s t;
          t2 = snd (invoke (rd_close (tg_reader t)) (\<lambda>_. [Reader_Closed]) t1);
          t3 = snd (invoke (sk_close (tg_sink t)) (\<lambda>_. [Sink_Closed]) t2);
          t4 = report (Done (cx_task_id (tg_context t))) t3;
          status = final_status (si_now i) s1 t4
      in t4\<lparr>tg_status := status, tg_pc := Finished (Inr status)\<rparr>)"

definition task_step ::
    "('e \<Rightarrow> 'sc \<Rightarrow> string + 'sc) \<Rightarrow> step_input \<Rightarrow> ('s, 'r, 'e, 'sc) task \<Rightarrow> ('s, 'r, 'e, 'sc) task" where
  "task_step evolve i t =
     (case tg_pc t of
        At_Top \<Rightarrow> step_top i t
      | At_Triggers \<Rightarrow> step_triggers i t
      | At_Events \<Rightarrow> step_events t
      | At_Periodic \<Rightarrow> settle At_Poll (periodic_checkpoint (si_now i) t)
      | At_Poll \<Rightarrow> step_poll evolve i t
      | Leaving s \<Rightarrow> step_leave i s t
      | Finished r \<Rightarrow> t)"

text \<open>A schedule interleaves steps of the task with the driver's writes to its gate.\<close>

datatype action =
    Step step_input
  | Drive_Trigger nat
  | Drive_Event checkpoint_event
  | Drive_Close

fun act :: "('e \<Rightarrow> 'sc \<Rightarrow> string + 'sc) \<Rightarrow> action \<Rightarrow> ('s, 'r, 'e, 'sc) task \<Rightarrow> ('s, 'r, 'e, 'sc) task" where
  "act evolve (Step i) t = task_step evolve i t"
| "act evolve (Drive_Trigger n) t = t\<lparr>tg_gate := trigger n (tg_gate t)\<rparr>"
| "act evolve (Drive_Event ev) t = t\<lparr>tg_gate := send_event ev (tg_gate t)\<rparr>"
| "act evolve Drive_Close t = t\<lparr>tg_gate := close (tg_gate t)\<rparr>"

definition run ::
    "('e \<Rightarrow> 'sc \<Rightarrow> string + 'sc) \<Rightarrow> int \<Rightarrow> action list \<Rightarrow> ('s, 'r, 'e, 'sc) task \<Rightarrow>
     ('s, 'r, 'e, 'sc) task" where
  "run evolve now acts t = fold (act evolve) acts (start now t)"

end
