(* ===== verification/Task_Group_Runs.thy ===== *)
theory Task_Group_Runs
  imports Task_Group
begin

text \<open>
  Properties of complete runs of a task group: which calls each part of the loop can make, the
  invariant that ties the rows written to the rows polled, the shape of the history at the end of a
  run, termination after cancellation, and the order in which barriers and resolutions are handled.
\<close>

section \<open>Frame conditions and call histories\<close>

lemma and_then_simps [simp]:
  "and_then (Inl e, t) f = (Inl e, t)" "and_then (Inr x, t) f = f x t"
  by (simp_all add: and_then_def)

lemma map_err_simps [simp]:
  "map_err g (Inl e, t) = (Inl (g e), t)" "map_err g (Inr x, t) = (Inr x, t)"
  by (simp_all add: map_err_def)

text \<open>
  \<open>frozen t t'\<close>: the parts a call or a handler never changes. \<open>grows K t t'\<close>: moreover the gate, the
  control state and the counters stay, and the history grows by calls of the kinds in \<open>K\<close> only.
\<close>

definition frozen :: "('s, 'r, 'e, 'sc) task \<Rightarrow> ('s, 'r, 'e, 'sc) task \<Rightarrow> bool" where
  "frozen t t' \<longleftrightarrow>
     tg_context t' = tg_context t \<and> tg_reader t' = tg_reader t \<and> tg_transforms t' = tg_transforms t \<and>
     tg_sink t' = tg_sink t \<and> tg_committer t' = tg_committer t \<and> tg_gate t' = tg_gate t \<and>
     tg_pc t' = tg_pc t \<and> tg_records_processed t' = tg_records_processed t"

definition adds :: "('r call \<Rightarrow> bool) \<Rightarrow> ('s, 'r, 'e, 'sc) task \<Rightarrow> ('s, 'r, 'e, 'sc) task \<Rightarrow> bool" where
  "adds K t t' \<longleftrightarrow> (\<exists>cs. tg_calls t' = tg_calls t @ cs \<and> (\<forall>c \<in> set cs. K c))"

definition grows :: "('r call \<Rightarrow> bool) \<Rightarrow> ('s, 'r, 'e, 'sc) task \<Rightarrow> ('s, 'r, 'e, 'sc) task \<Rightarrow> bool" where
  "grows K t t' \<longleftrightarrow> frozen t t' \<and> tg_checkpoints_completed t' = tg_checkpoints_completed t \<and> adds K t t'"

lemma adds_refl [simp]: "adds K t t"
  by (simp add: adds_def)

lemma adds_trans: "adds K t t' \<Longrightarrow> adds K t' t'' \<Longrightarrow> adds K t t''"
  by (force simp: adds_def)

lemma adds_mono: "adds K t t' \<Longrightarrow> (\<And>c. K c \<Longrightarrow> K' c) \<Longrightarrow> adds K' t t'"
  by (force simp: adds_def)

lemma frozen_refl [simp]: "frozen t t"
  by (simp add: frozen_def)

lemma grows_refl [simp]: "grows K t t"
  by (simp add: grows_def)

lemma grows_trans: "grows K t t' \<Longrightarrow> grows K t' t'' \<Longrightarrow> grows K t t''"
  by (auto simp: grows_def frozen_def intro: adds_trans)

lemma grows_mono: "grows K t t' \<Longrightarrow> (\<And>c. K c \<Longrightarrow> K' c) \<Longrightarrow> grows K' t t'"
  by (auto simp: grows_def intro: adds_mono)

lemma grows_invoke:
  assumes "\<And>x c. c \<in> set (cs x) \<Longrightarrow> K c"
  shows "grows K t (snd (invoke m cs t))"
  using assms
  by (auto simp: invoke_def grows_def adds_def frozen_def logged_def split: prod.splits sum.splits)

lemma grows_report: "K (Reported m) \<Longrightarrow> grows K t (report m t)"
  by (auto simp: report_def grows_def adds_def frozen_def logged_def)

lemma grows_update [simp]:
  "grows K t (t1\<lparr>tg_last_commit_infos := x\<rparr>) = grows K t t1"
  "grows K t (t1\<lparr>tg_empty_streak := n\<rparr>) = grows K t t1"
  "grows K t (t1\<lparr>tg_output_schema := s\<rparr>) = grows K t t1"
  by (simp_all add: grows_def adds_def frozen_def)

lemma grows_and_then:
  assumes "grows K t (snd m)" and "\<And>x t1. m = (Inr x, t1) \<Longrightarrow> grows K t t1 \<Longrightarrow> grows K t (snd (f x t1))"
  shows "grows K t (snd (and_then m f))"
  using assms by (cases m; cases "fst m") (auto simp: and_then_def)

lemma snd_map_err [simp]: "snd (map_err g m) = snd m"
  by (simp add: map_err_def split: prod.splits sum.splits)

lemma report_sel [simp]:
  "tg_calls (report m t) = tg_calls t @ (if cx_handle (tg_context t) then [Reported m] else [])"
  "tg_context (report m t) = tg_context t" "tg_gate (report m t) = tg_gate t"
  "tg_pc (report m t) = tg_pc t" "tg_last_commit_infos (report m t) = tg_last_commit_infos t"
  "tg_checkpoints_completed (report m t) = tg_checkpoints_completed t"
  "tg_records_processed (report m t) = tg_records_processed t"
  "frozen t1 (report m t) = frozen t1 t"
  by (simp_all add: report_def logged_def frozen_def)

lemma frozen_update [simp]:
  "frozen t (t1\<lparr>tg_last_commit_infos := infos\<rparr>) = frozen t t1"
  "frozen t (t1\<lparr>tg_checkpoints_completed := n\<rparr>) = frozen t t1"
  "frozen t (t1\<lparr>tg_last_checkpoint_at := at\<rparr>) = frozen t t1"
  "frozen t (t1\<lparr>tg_last_checkpoint_meta := mt\<rparr>) = frozen t t1"
  "frozen t (t1\<lparr>tg_tracker := tr\<rparr>) = frozen t t1"
  "frozen t (t1\<lparr>tg_world := w\<rparr>) = frozen t t1"
  "frozen t (logged cs t1) = frozen t t1"
  by (simp_all add: frozen_def logged_def)

lemma logged_sel [simp]:
  "tg_calls (logged cs t) = tg_calls t @ cs"
  "tg_checkpoints_completed (logged cs t) = tg_checkpoints_completed t"
  "tg_last_commit_infos (logged cs t) = tg_last_commit_infos t"
  by (simp_all add: logged_def)

lemma frozen_context [dest]: "frozen t t' \<Longrightarrow> tg_context t' = tg_context t"
  by (simp add: frozen_def)

lemma frozen_trans: "frozen t t' \<Longrightarrow> frozen t' t'' \<Longrightarrow> frozen t t''"
  by (simp add: frozen_def)

lemma and_then_InrE:
  assumes "and_then m f = (Inr y, t')"
  obtains x t1 where "m = (Inr x, t1)" "f x t1 = (Inr y, t')"
  using assms that by (cases m; cases "fst m") (auto simp: and_then_def)

lemma and_then_InlE:
  assumes "and_then m f = (Inl e, t')"
  obtains "m = (Inl e, t')" | x t1 where "m = (Inr x, t1)" "f x t1 = (Inl e, t')"
  using assms that by (cases m; cases "fst m") (auto simp: and_then_def)

lemma map_err_Inr [simp]: "map_err g m = (Inr x, t) \<longleftrightarrow> m = (Inr x, t)"
  by (cases m; cases "fst m") (auto simp: map_err_def)

lemma map_err_InlE:
  assumes "map_err g m = (Inl e, t)"
  obtains e' where "m = (Inl e', t)"
  using assms that by (cases m; cases "fst m") (auto simp: map_err_def)

lemma invoke_ok:
  assumes "invoke m cs t = (Inr x, t1)"
  shows "frozen t t1" "tg_checkpoints_completed t1 = tg_checkpoints_completed t"
    "tg_last_commit_infos t1 = tg_last_commit_infos t" "tg_calls t1 = tg_calls t @ cs x"
  using assms by (auto simp: invoke_def logged_def frozen_def split: prod.splits sum.splits)

lemma invoke_err:
  "invoke m cs t = (Inl e, t1) \<Longrightarrow>
     frozen t t1 \<and> tg_checkpoints_completed t1 = tg_checkpoints_completed t \<and>
     tg_last_commit_infos t1 = tg_last_commit_infos t \<and> tg_calls t1 = tg_calls t"
  by (auto simp: invoke_def logged_def frozen_def split: prod.splits sum.splits)

text \<open>A barrier either logs the three phases and the report, or stops before the report.\<close>

lemma execute_barrier_ok:
  assumes "execute_barrier now i t = (Inr u, t')"
  shows "\<exists>infos ws rs.
    tg_calls t' = tg_calls t @ [Prepared i infos, Sink_Snapshot ws, Reader_Snapshot rs] @
      (if cx_handle (tg_context t)
       then [Reported (Checkpoint
         \<lparr>rep_task_id = cx_task_id (tg_context t), rep_checkpoint_id = i,
          rep_pipeline = cx_stage_id (tg_context t), rep_subtask = cx_subtask_index (tg_context t),
          rep_parallelism = cx_parallelism (tg_context t), rep_reader_state = rs,
          rep_writer_state = ws, rep_commit_infos = infos\<rparr>)] else []) \<and>
    tg_last_commit_infos t' = infos \<and> frozen t t' \<and>
    tg_checkpoints_completed t' = Suc (tg_checkpoints_completed t)"
proof -
  from assms obtain infos t1 ws t2 rs t3 where
      1: "invoke (sk_prepare_commit (tg_sink t) i) (\<lambda>infos. [Prepared i infos]) t = (Inr infos, t1)"
    and 2: "invoke (sk_snapshot_state (tg_sink t)) (\<lambda>ws. [Sink_Snapshot ws]) t1 = (Inr ws, t2)"
    and 3: "invoke (rd_snapshot_state (tg_reader t)) (\<lambda>rs. [Reader_Snapshot rs]) t2 = (Inr rs, t3)"
    and t': "t' =
        report
          (Checkpoint
            \<lparr>rep_task_id = cx_task_id (tg_context t), rep_checkpoint_id = i,
             rep_pipeline = cx_stage_id (tg_context t),
             rep_subtask = cx_subtask_index (tg_context t),
             rep_parallelism = cx_parallelism (tg_context t), rep_reader_state = rs,
             rep_writer_state = ws, rep_commit_infos = infos\<rparr>)
          (t3\<lparr>tg_checkpoints_completed := tg_checkpoints_completed t3 + 1,
              tg_last_checkpoint_at := Some now,
              tg_last_checkpoint_meta :=
                (if i \<noteq> FINAL_CHECKPOINT_ID then (i, length rs) else tg_last_checkpoint_meta t3),
              tg_last_commit_infos := infos\<rparr>)"
    unfolding execute_barrier_def by (auto elim!: and_then_InrE)
  note s = invoke_ok [OF 1] invoke_ok [OF 2] invoke_ok [OF 3]
  then have fr: "frozen t t3" by (blast intro: frozen_trans)
  show ?thesis
    by (rule exI [of _ infos], rule exI [of _ ws], rule exI [of _ rs])
      (use s fr frozen_context [OF fr] in \<open>simp add: t'\<close>)
qed

definition barrier_call :: "nat \<Rightarrow> 'r call \<Rightarrow> bool" where
  "barrier_call i c = (case c of Prepared j infos \<Rightarrow> j = i | Sink_Snapshot b \<Rightarrow> True | _ \<Rightarrow> False)"

lemma grows_barrier_intro:
  "frozen t t' \<Longrightarrow> tg_checkpoints_completed t' = tg_checkpoints_completed t \<Longrightarrow>
   tg_calls t' = tg_calls t @ cs \<Longrightarrow> (\<And>c. c \<in> set cs \<Longrightarrow> K c) \<Longrightarrow> grows K t t'"
  by (auto simp: grows_def adds_def)

lemma grows_err: "invoke m cs t = (Inl e, t') \<Longrightarrow> grows K t t'"
  by (drule invoke_err) (simp add: grows_def adds_def)

lemma execute_barrier_err:
  assumes "execute_barrier now i t = (Inl e, t')"
  shows "grows (barrier_call i) t t'"
  using assms unfolding execute_barrier_def
proof (elim and_then_InlE)
  assume "invoke (sk_prepare_commit (tg_sink t) i) (\<lambda>infos. [Prepared i infos]) t = (Inl e, t')"
  then show ?thesis by (rule grows_err)
next
  fix infos t1
  assume 1: "invoke (sk_prepare_commit (tg_sink t) i) (\<lambda>infos. [Prepared i infos]) t = (Inr infos, t1)"
  note s1 = invoke_ok [OF 1]
  {
    assume "invoke (sk_snapshot_state (tg_sink t)) (\<lambda>ws. [Sink_Snapshot ws]) t1 = (Inl e, t')"
    from invoke_err [OF this] s1 show ?thesis
      by (intro grows_barrier_intro [of _ _ "[Prepared i infos]"])
        (auto simp: barrier_call_def intro: frozen_trans)
  next
    fix ws t2
    assume 2: "invoke (sk_snapshot_state (tg_sink t)) (\<lambda>ws. [Sink_Snapshot ws]) t1 = (Inr ws, t2)"
      and "map_err snapshot_error
        (invoke (rd_snapshot_state (tg_reader t)) (\<lambda>rs. [Reader_Snapshot rs]) t2) = (Inl e, t')"
    then obtain e' where
      "invoke (rd_snapshot_state (tg_reader t)) (\<lambda>rs. [Reader_Snapshot rs]) t2 = (Inl e', t')"
      by (elim map_err_InlE)
    from invoke_err [OF this] s1 invoke_ok [OF 2] show ?thesis
      by (intro grows_barrier_intro [of _ _ "[Prepared i infos, Sink_Snapshot ws]"])
        (auto simp: barrier_call_def intro: frozen_trans)
  }
qed simp

definition event_call :: "'r call \<Rightarrow> bool" where
  "event_call c =
     (case c of Committed infos \<Rightarrow> True | Rolled_Back infos \<Rightarrow> True | Notified i \<Rightarrow> True
      | Reported m \<Rightarrow> (case m of CommitDone tid i \<Rightarrow> True | _ \<Rightarrow> False) | _ \<Rightarrow> False)"

lemma grows_resolve:
  "(\<And>infos. K (c infos)) \<Longrightarrow> grows K t (snd (resolve_infos f c t))"
  by (auto simp: resolve_infos_def split: option.split intro!: grows_invoke)

lemma event_grows: "grows event_call t (snd (handle_checkpoint_event ev t))"
proof (cases ev)
  case (EvCompleted i)
  show ?thesis unfolding EvCompleted handle_checkpoint_event.simps
  proof (intro grows_and_then, goal_cases)
    case 1
    show ?case by (rule grows_resolve) (simp add: event_call_def)
  next
    case (2 x t1)
    have "grows event_call (t1\<lparr>tg_last_commit_infos := []\<rparr>)
      (snd (invoke (rd_notify_checkpoint_complete (tg_reader t) i) (\<lambda>_. [Notified i])
        (t1\<lparr>tg_last_commit_infos := []\<rparr>)))"
      by (rule grows_invoke) (simp add: event_call_def)
    moreover have "grows event_call t (t1\<lparr>tg_last_commit_infos := []\<rparr>)" using 2 by simp
    ultimately show ?case unfolding snd_map_err by (rule grows_trans [rotated])
  next
    case (3 x t1 y t2)
    have "grows event_call t2 (report (CommitDone (cx_task_id (tg_context t)) i) t2)"
      by (rule grows_report) (simp add: event_call_def)
    with 3 show ?case by (auto intro: grows_trans)
  qed
next
  case (EvAborted i)
  show ?thesis unfolding EvAborted handle_checkpoint_event.simps
    by (intro grows_and_then) (auto intro!: grows_resolve simp: event_call_def)
qed

text \<open>The legacy interval checkpoint: nothing, an error before the listener, or one checkpoint.\<close>

lemma periodic_cases:
  assumes "periodic_checkpoint now t = (r, t')"
  obtains (none) "r = Inr ()" "t' = t"
  | (error) e where "r = Inl e" "\<not> cx_handle (tg_context t)"
      "grows (barrier_call (Suc (tg_checkpoints_completed t))) t t'"
  | (taken) infos rs where "r = Inr ()" "\<not> cx_handle (tg_context t)"
      "tg_calls t' = tg_calls t @ [Prepared (Suc (tg_checkpoints_completed t)) infos,
         Reader_Snapshot rs, Listened (Suc (tg_checkpoints_completed t)) now rs]"
      "frozen t t'" "tg_checkpoints_completed t' = Suc (tg_checkpoints_completed t)"
      "checkpoint_due now t"
proof (cases "cx_listener (tg_context t) = None \<or> cx_handle (tg_context t) \<or> \<not> checkpoint_due now t")
  case True
  with assms have "r = Inr ()" "t' = t"
    by (auto simp: periodic_checkpoint_def maybe_trigger_checkpoint_def split: option.splits)
  then show ?thesis by (rule none)
next
  case False
  then obtain l where l: "cx_listener (tg_context t) = Some l" and h: "\<not> cx_handle (tg_context t)"
    and due: "checkpoint_due now t" by auto
  let ?i = "Suc (tg_checkpoints_completed t)"
  let ?p = "invoke (sk_prepare_commit (tg_sink t) ?i) (\<lambda>infos. [Prepared ?i infos]) t"
  show ?thesis
  proof (cases ?p)
    case p: (Pair rp t1)
    show ?thesis
    proof (cases rp)
      case (Inl e)
      have "grows (barrier_call ?i) t t1" using p Inl by (auto intro: grows_err)
      with assms p Inl l h due show ?thesis
        by (auto simp: periodic_checkpoint_def maybe_trigger_checkpoint_def intro: error)
    next
      case (Inr infos)
      note s1 = invoke_ok [OF p [unfolded Inr]]
      let ?q = "invoke (rd_snapshot_state (tg_reader t)) (\<lambda>rs. [Reader_Snapshot rs]) t1"
      show ?thesis
      proof (cases ?q)
        case q: (Pair rq t2)
        show ?thesis
        proof (cases rq)
          case (Inl e)
          have "grows (barrier_call ?i) t t2"
            using invoke_err [OF q [unfolded Inl]] s1
            by (intro grows_barrier_intro [of _ _ "[Prepared ?i infos]"])
              (auto simp: barrier_call_def intro: frozen_trans)
          with assms p q Inl \<open>rp = Inr infos\<close> l h due show ?thesis
            by (auto simp: periodic_checkpoint_def maybe_trigger_checkpoint_def intro: error)
        next
          case (Inr rs)
          note s2 = invoke_ok [OF q [unfolded Inr]]
          have "frozen t t2" using s1 s2 by (blast intro: frozen_trans)
          with assms p q Inr \<open>rp = Inr infos\<close> l h due s1 s2 show ?thesis
            by (intro taken [of infos rs])
              (auto simp: periodic_checkpoint_def maybe_trigger_checkpoint_def)
        qed
      qed
    qed
  qed
qed

section \<open>Rows\<close>

text \<open>
  \<open>computes fs gs\<close>: the transform chain is deterministic, each transform computing a function of the
  row whenever it succeeds. \<open>chain gs\<close> is then what the chain makes of one polled row.
\<close>

definition computes :: "('s, 'r) transform_op list \<Rightarrow> ('r \<Rightarrow> 'r list) list \<Rightarrow> bool" where
  "computes fs gs = list_all2 (\<lambda>f g. \<forall>r s rows s'. f r s = (Inr rows, s') \<longrightarrow> rows = g r) fs gs"

definition chain :: "('r \<Rightarrow> 'r list) list \<Rightarrow> 'r \<Rightarrow> 'r list" where
  "chain gs r = fold (\<lambda>g rows. concat (map g rows)) gs [r]"

lemma process_rows_computes:
  assumes "\<forall>r s rows s'. f r s = (Inr rows, s') \<longrightarrow> rows = g r" and "process_rows f rs s = (Inr out, s')"
  shows "out = concat (map g rs)"
  using assms(2)
proof (induction rs arbitrary: s out)
  case (Cons r rs)
  from Cons.prems obtain out1 s1 out2 where
    "f r s = (Inr out1, s1)" "process_rows f rs s1 = (Inr out2, s')" "out = out1 @ out2"
    by (auto elim!: and_then_InrE)
  moreover from this assms(1) have "out1 = g r" by blast
  ultimately show ?case using Cons.IH by simp
qed simp

lemma transform_rows_computes:
  assumes "computes fs gs" and "transform_rows fs rows s = (Inr out, s')"
  shows "out = fold (\<lambda>g rows. concat (map g rows)) gs rows"
  using assms unfolding computes_def
proof (induction arbitrary: rows s rule: list_all2_induct)
  case (Cons f fs g gs)
  from Cons.prems obtain mid s1 where
    "process_rows f rows s = (Inr mid, s1)" "transform_rows fs mid s1 = (Inr out, s')"
    by (auto elim!: and_then_InrE)
  with Cons.IH process_rows_computes [OF Cons.hyps(1)] show ?case by auto
qed simp

definition polled :: "'r call list \<Rightarrow> 'r list" where
  "polled cs = List.map_filter (\<lambda>c. case c of Polled r \<Rightarrow> Some r | _ \<Rightarrow> None) cs"

definition wrote :: "'r call list \<Rightarrow> 'r list" where
  "wrote cs = List.map_filter (\<lambda>c. case c of Wrote r \<Rightarrow> Some r | _ \<Rightarrow> None) cs"

definition listened_ids :: "'r call list \<Rightarrow> nat list" where
  "listened_ids cs = List.map_filter (\<lambda>c. case c of Listened i now b \<Rightarrow> Some i | _ \<Rightarrow> None) cs"

text \<open>Every row polled so far went through the chain and was written, in order.\<close>

definition rows_done :: "('r \<Rightarrow> 'r list) list \<Rightarrow> 'r call list \<Rightarrow> bool" where
  "rows_done gs cs \<longleftrightarrow> wrote cs = concat (map (chain gs) (polled cs))"

definition plain :: "'r call \<Rightarrow> bool" where
  "plain c =
     (case c of Polled r \<Rightarrow> False | Wrote r \<Rightarrow> False | Listened i now b \<Rightarrow> False
      | Reported m \<Rightarrow> (case m of Checkpoint rep \<Rightarrow> False | Done tid \<Rightarrow> False | _ \<Rightarrow> True) | _ \<Rightarrow> True)"

lemma map_filter_append [simp]: "List.map_filter f (xs @ ys) = List.map_filter f xs @ List.map_filter f ys"
  by (simp add: List.map_filter_def)

lemma history_append [simp]:
  "polled (cs @ ds) = polled cs @ polled ds" "wrote (cs @ ds) = wrote cs @ wrote ds"
  "listened_ids (cs @ ds) = listened_ids cs @ listened_ids ds"
  by (simp_all add: polled_def wrote_def listened_ids_def)

lemma history_simps [simp]:
  "polled [] = []" "wrote [] = []" "listened_ids [] = []"
  "polled (c # cs) = (case c of Polled r \<Rightarrow> [r] | _ \<Rightarrow> []) @ polled cs"
  "wrote (c # cs) = (case c of Wrote r \<Rightarrow> [r] | _ \<Rightarrow> []) @ wrote cs"
  "listened_ids (c # cs) = (case c of Listened i now b \<Rightarrow> [i] | _ \<Rightarrow> []) @ listened_ids cs"
  by (simp_all add: polled_def wrote_def listened_ids_def map_filter_simps split: call.split)

lemma plain_history:
  assumes "\<forall>c \<in> set cs. plain c"
  shows "polled cs = []" "wrote cs = []" "listened_ids cs = []"
  using assms by (induction cs) (auto simp: plain_def split: call.splits)

text \<open>
  The history is well formed: each checkpoint report directly follows the three phases of its
  barrier, with their payloads, and each call of the listener follows the flush and the snapshot;
  at that point every polled row is written.
\<close>

definition cut_at :: "('r \<Rightarrow> 'r list) list \<Rightarrow> 'r call list \<Rightarrow> 'r call \<Rightarrow> bool" where
  "cut_at gs xs c =
     (case c of
        Reported (Checkpoint rep) \<Rightarrow>
          (\<exists>zs. xs = zs @ [Prepared (rep_checkpoint_id rep) (rep_commit_infos rep),
             Sink_Snapshot (rep_writer_state rep), Reader_Snapshot (rep_reader_state rep)] \<and>
             rows_done gs zs)
      | Listened i now b \<Rightarrow>
          (\<exists>zs infos. xs = zs @ [Prepared i infos, Reader_Snapshot b] \<and> rows_done gs zs)
      | _ \<Rightarrow> True)"

definition history_ok :: "('r \<Rightarrow> 'r list) list \<Rightarrow> 'r call list \<Rightarrow> bool" where
  "history_ok gs cs \<longleftrightarrow> (\<forall>xs c ys. cs = xs @ c # ys \<longrightarrow> cut_at gs xs c)"

lemma history_ok_Nil [simp]: "history_ok gs []"
  by (simp add: history_ok_def)

lemma history_ok_snoc [simp]: "history_ok gs (cs @ [c]) \<longleftrightarrow> history_ok gs cs \<and> cut_at gs cs c"
proof -
  have "cs @ [c] = xs @ d # ys \<longleftrightarrow>
      (ys = [] \<and> xs = cs \<and> d = c) \<or> (\<exists>ys'. ys = ys' @ [c] \<and> cs = xs @ d # ys')" for xs d ys
    by (cases ys rule: rev_cases) auto
  then show ?thesis by (auto simp: history_ok_def)
qed

lemma history_ok_append:
  "history_ok gs cs \<Longrightarrow> \<forall>c \<in> set ds. \<forall>xs. cut_at gs xs c \<Longrightarrow> history_ok gs (cs @ ds)"
proof (induction ds rule: rev_induct)
  case (snoc d ds)
  then have "history_ok gs ((cs @ ds) @ [d])" by (subst history_ok_snoc) simp
  then show ?case by simp
qed simp

lemma plain_cut: "plain c \<Longrightarrow> cut_at gs xs c"
  by (auto simp: plain_def cut_at_def split: call.splits task_to_driver.splits)

section \<open>The invariant of the loop\<close>

definition base :: "('r \<Rightarrow> 'r list) list \<Rightarrow> ('s, 'r, 'e, 'sc) task \<Rightarrow> bool" where
  "base gs t \<longleftrightarrow>
     computes (tg_transforms t) gs \<and> history_ok gs (tg_calls t) \<and>
     (\<not> cx_handle (tg_context t) \<longrightarrow>
        listened_ids (tg_calls t) = [1..<Suc (tg_checkpoints_completed t)])"

definition synced :: "('r \<Rightarrow> 'r list) list \<Rightarrow> ('s, 'r, 'e, 'sc) task \<Rightarrow> bool" where
  "synced gs t \<longleftrightarrow>
     base gs t \<and> rows_done gs (tg_calls t) \<and>
     tg_records_processed t = length (wrote (tg_calls t))"

definition task_inv :: "('r \<Rightarrow> 'r list) list \<Rightarrow> ('s, 'r, 'e, 'sc) task \<Rightarrow> bool" where
  "task_inv gs t \<longleftrightarrow>
     (case tg_pc t of
        Finished (Inl e) \<Rightarrow> base gs t
      | At_Triggers \<Rightarrow> synced gs t \<and> cx_handle (tg_context t)
      | _ \<Rightarrow> synced gs t)"

lemma synced_base: "synced gs t \<Longrightarrow> base gs t"
  by (simp add: synced_def)

lemma inv_update [simp]:
  "base gs (t\<lparr>tg_pc := p\<rparr>) = base gs t" "synced gs (t\<lparr>tg_pc := p\<rparr>) = synced gs t"
  "base gs (t\<lparr>tg_gate := g\<rparr>) = base gs t" "synced gs (t\<lparr>tg_gate := g\<rparr>) = synced gs t"
  "synced gs (t\<lparr>tg_status := st\<rparr>) = synced gs t"
  by (simp_all add: base_def synced_def)

lemma base_grows:
  assumes "base gs t" and "grows plain t t'"
  shows "base gs t'"
  using assms plain_history
  by (auto simp: base_def grows_def adds_def frozen_def intro!: history_ok_append plain_cut)

lemma synced_grows:
  assumes "synced gs t" and "grows plain t t'"
  shows "synced gs t'"
proof -
  from assms(2) obtain cs where "tg_calls t' = tg_calls t @ cs" and cs: "\<forall>c \<in> set cs. plain c"
    and "tg_records_processed t' = tg_records_processed t"
    by (auto simp: grows_def adds_def frozen_def)
  with assms show ?thesis
    using base_grows plain_history [OF cs] by (auto simp: synced_def rows_done_def)
qed

lemma barrier_plain: "barrier_call i c \<Longrightarrow> plain c"
  by (auto simp: barrier_call_def plain_def split: call.splits)

lemma event_plain: "event_call c \<Longrightarrow> plain c"
  by (auto simp: event_call_def plain_def split: call.splits task_to_driver.splits)

lemma grows_plain_barrier: "grows (barrier_call i) t t' \<Longrightarrow> grows plain t t'"
  by (auto intro: grows_mono barrier_plain)

lemma synced_event: "synced gs t \<Longrightarrow> synced gs (snd (handle_checkpoint_event ev t))"
  by (rule synced_grows) (auto intro: grows_mono [OF event_grows] event_plain)

lemma synced_barrier:
  assumes "synced gs t" and h: "cx_handle (tg_context t)"
  shows "synced gs (snd (execute_barrier now i t))"
proof (cases "execute_barrier now i t")
  case (Pair r t')
  show ?thesis
  proof (cases r)
    case (Inl e)
    with Pair have "grows plain t t'" by (auto intro: grows_plain_barrier execute_barrier_err)
    with assms show ?thesis by (simp add: Pair synced_grows)
  next
    case (Inr u)
    from execute_barrier_ok [OF Pair [unfolded Inr]] h obtain infos ws rs rep where
      c: "tg_calls t' =
        (tg_calls t @ [Prepared i infos, Sink_Snapshot ws, Reader_Snapshot rs]) @ [Reported (Checkpoint rep)]"
      and rep: "rep_checkpoint_id rep = i" "rep_commit_infos rep = infos"
        "rep_writer_state rep = ws" "rep_reader_state rep = rs"
      and f: "frozen t t'" "tg_checkpoints_completed t' = Suc (tg_checkpoints_completed t)"
      by auto
    let ?cs = "tg_calls t @ [Prepared i infos, Sink_Snapshot ws, Reader_Snapshot rs]"
    have "history_ok gs ?cs"
      using assms by (intro history_ok_append) (auto simp: synced_def base_def cut_at_def)
    moreover have "cut_at gs ?cs (Reported (Checkpoint rep))"
      using assms by (simp add: cut_at_def synced_def rep)
    ultimately have "history_ok gs (tg_calls t')" by (simp only: c history_ok_snoc)
    with assms f show ?thesis
      by (simp add: Pair synced_def base_def frozen_def rows_done_def c del: append_assoc)
  qed
qed

lemma synced_periodic:
  assumes "synced gs t"
  shows "synced gs (snd (periodic_checkpoint now t))"
proof (cases "periodic_checkpoint now t")
  case (Pair r t')
  then show ?thesis
  proof (cases rule: periodic_cases)
    case none
    with assms Pair show ?thesis by simp
  next
    case (error e)
    with assms Pair show ?thesis by (auto intro: synced_grows grows_plain_barrier)
  next
    case (taken infos rs)
    let ?i = "Suc (tg_checkpoints_completed t)"
    let ?cs = "tg_calls t @ [Prepared ?i infos, Reader_Snapshot rs]"
    have c: "tg_calls t' = ?cs @ [Listened ?i now rs]" using taken by simp
    have "history_ok gs ?cs"
      using assms by (intro history_ok_append) (auto simp: synced_def base_def cut_at_def)
    moreover have "cut_at gs ?cs (Listened ?i now rs)"
      using assms by (simp add: cut_at_def synced_def)
    ultimately have "history_ok gs (tg_calls t')" by (simp only: c history_ok_snoc)
    with assms taken show ?thesis
      by (simp add: Pair synced_def base_def frozen_def rows_done_def)
  qed
qed

lemma write_rows_ok:
  assumes "write_rows rows t = (Inr u, t')"
  shows "tg_calls t' = tg_calls t @ map Wrote rows \<and> frozen t t' \<and>
    tg_checkpoints_completed t' = tg_checkpoints_completed t"
  using assms
proof (induction rows arbitrary: t)
  case (Cons r rows)
  from Cons.prems obtain v t1 where
    1: "invoke (sk_write (tg_sink t) r) (\<lambda>_. [Wrote r]) t = (Inr v, t1)" and
    "write_rows rows t1 = (Inr u, t')"
    by (auto elim: and_then_InrE)
  with Cons.IH [of t1] invoke_ok [OF 1] show ?case by (auto intro: frozen_trans)
qed simp

definition wrote_call :: "'r call \<Rightarrow> bool" where
  "wrote_call c = (case c of Wrote r \<Rightarrow> True | _ \<Rightarrow> False)"

lemma write_rows_grows: "grows wrote_call t (snd (write_rows rows t))"
proof (induction rows arbitrary: t)
  case (Cons r rows)
  show ?case
    unfolding write_rows.simps
  proof (rule grows_and_then)
    show "grows wrote_call t (snd (invoke (sk_write (tg_sink t) r) (\<lambda>_. [Wrote r]) t))"
      by (rule grows_invoke) (simp add: wrote_call_def)
  next
    fix x t1 assume "grows wrote_call t t1"
    with Cons.IH [of t1] show "grows wrote_call t (snd (write_rows rows t1))" by (rule grows_trans [rotated])
  qed
qed simp

lemma frozen_publish: "tg_calls (publish_status_throttled inst t) = tg_calls t"
  "tg_checkpoints_completed (publish_status_throttled inst t) = tg_checkpoints_completed t"
  "frozen t1 (publish_status_throttled inst t) = frozen t1 t"
  by (simp_all add: publish_status_throttled_def frozen_def)

lemma base_wrote:
  assumes "base gs t" and "grows wrote_call t t'"
  shows "base gs t'"
proof -
  from assms(2) obtain cs where c: "tg_calls t' = tg_calls t @ cs" "\<forall>c \<in> set cs. wrote_call c"
    and f: "frozen t t'" "tg_checkpoints_completed t' = tg_checkpoints_completed t"
    by (auto simp: grows_def adds_def)
  from c(2) have "listened_ids cs = []"
    by (induction cs) (auto simp: wrote_call_def split: call.splits)
  moreover have "history_ok gs (tg_calls t @ cs)"
    using c(2) assms(1)
    by (intro history_ok_append) (auto simp: base_def cut_at_def wrote_call_def split: call.splits)
  ultimately show ?thesis using assms(1) c(1) f by (simp add: base_def frozen_def)
qed

lemma apply_transforms_ok:
  assumes "apply_transforms r t = (Inr rows, t1)" and "computes (tg_transforms t) gs"
  shows "rows = chain gs r" "tg_calls t1 = tg_calls t"
    "tg_checkpoints_completed t1 = tg_checkpoints_completed t" "frozen t t1"
proof -
  from assms(1) obtain w where "transform_rows (tg_transforms t) [r] (tg_world t) = (Inr rows, w)"
    by (auto simp: apply_transforms_def invoke_def split: prod.splits sum.splits)
  with assms(2) show "rows = chain gs r" by (simp add: chain_def transform_rows_computes)
  show "tg_calls t1 = tg_calls t" "tg_checkpoints_completed t1 = tg_checkpoints_completed t" "frozen t t1"
    using invoke_ok [OF assms(1) [unfolded apply_transforms_def]] by simp_all
qed

lemma wrote_map_Wrote [simp]:
  "wrote (map Wrote rows) = rows" "polled (map Wrote rows) = []" "listened_ids (map Wrote rows) = []"
  by (induction rows) simp_all

lemma process_record_inv:
  assumes "base gs t" and "tg_calls t = cs @ [Polled r]" and "rows_done gs cs"
    and "tg_records_processed t = length (wrote cs)"
    and "process_record now inst r t = (res, t')"
  shows "(case res of Inl e \<Rightarrow> base gs t' | Inr u \<Rightarrow> synced gs t')"
proof (cases "apply_transforms r (t\<lparr>tg_empty_streak := 0\<rparr>)")
  case (Pair r1 t1)
  show ?thesis
  proof (cases r1)
    case (Inl e)
    with Pair have "grows plain (t\<lparr>tg_empty_streak := 0\<rparr>) t1"
      unfolding apply_transforms_def by (auto intro: grows_err)
    moreover have "base gs (t\<lparr>tg_empty_streak := 0\<rparr>)" using assms(1) by (simp add: base_def)
    ultimately have "base gs t1" by (rule base_grows [rotated])
    with assms(5) Pair Inl show ?thesis by (auto simp: process_record_def)
  next
    case (Inr rows)
    let ?t = "t\<lparr>tg_empty_streak := 0\<rparr>"
    have "computes (tg_transforms ?t) gs" using assms(1) by (simp add: base_def)
    note a = apply_transforms_ok [OF Pair [unfolded Inr] this]
    define t2 where "t2 = publish_status_throttled inst
      (t1\<lparr>tg_records_processed := tg_records_processed t1 + length rows, tg_last_record_at := now\<rparr>)"
    have t2: "tg_calls t2 = cs @ [Polled r]" "tg_records_processed t2 = length (wrote cs) + length rows"
      "base gs t2"
      using a assms(1,2,4) by (auto simp: t2_def publish_status_throttled_def base_def frozen_def)
    have w: "write_rows rows t2 = (res, t')"
      using assms(5) Pair Inr by (simp add: process_record_def t2_def)
    have "grows wrote_call t2 t'" using write_rows_grows [of t2 rows] w by simp
    then have b: "base gs t'" using t2(3) by (rule base_wrote [rotated])
    show ?thesis
    proof (cases res)
      case (Inr u)
      with write_rows_ok [OF w [unfolded Inr]] t2 a(1) assms(3) b show ?thesis
        by (simp add: synced_def rows_done_def frozen_def)
    qed (use b in simp)
  qed
qed

lemma grows_process_empty: "grows plain t (snd (process_empty t))"
  unfolding process_empty_def
  by (intro grows_and_then grows_invoke) (auto simp: plain_def)

lemma grows_process_schema_change: "grows plain t (snd (process_schema_change evolve ev t))"
  unfolding process_schema_change_def
  by (intro grows_and_then grows_invoke) (auto split: option.split sum.split)

lemma task_inv_settle:
  assumes "case m of (Inl e, t) \<Rightarrow> base gs t | (Inr u, t) \<Rightarrow> synced gs t" and "p = At_Top \<or> p = At_Poll"
  shows "task_inv gs (settle p m)"
  using assms by (auto simp: settle_def task_inv_def split: prod.splits sum.splits)

lemma task_inv_settle_synced:
  assumes "synced gs (snd m)" and "p = At_Top \<or> p = At_Poll"
  shows "task_inv gs (settle p m)"
  by (rule task_inv_settle) (use assms in \<open>auto simp: synced_base split: prod.splits sum.splits\<close>)

lemma synced_invoke:
  assumes "synced gs t" and "\<And>x c. c \<in> set (cs x) \<Longrightarrow> plain c"
  shows "synced gs (snd (invoke m cs t))"
  using assms(1) by (rule synced_grows) (rule grows_invoke, rule assms(2))

lemma task_inv_poll:
  assumes "synced gs t"
  shows "task_inv gs (step_poll evolve i t)"
proof (cases "invoke (rd_poll_next (tg_reader t)) (\<lambda>p. case p of PollRecord r \<Rightarrow> [Polled r] | _ \<Rightarrow> []) t")
  case (Pair res t1)
  show ?thesis
  proof (cases res)
    case (Inl e)
    with Pair have "grows plain t t1" by (auto intro: grows_err)
    with assms have "synced gs t1" by (rule synced_grows)
    with Pair Inl show ?thesis by (simp add: step_poll_def task_inv_def)
  next
    case (Inr p)
    note s = invoke_ok [OF Pair [unfolded Inr]]
    show ?thesis
    proof (cases p)
      case (PollRecord r)
      have "base gs t1"
        using s assms PollRecord by (simp add: synced_def base_def frozen_def cut_at_def)
      moreover have "rows_done gs (tg_calls t)"
        "tg_records_processed t1 = length (wrote (tg_calls t))"
        using s(1) assms by (simp_all add: synced_def frozen_def)
      ultimately have "case process_record (si_now i) (si_instant i) r t1 of
          (Inl e, t) \<Rightarrow> base gs t | (Inr u, t) \<Rightarrow> synced gs t"
        using process_record_inv [of gs t1 "tg_calls t" r] s(4) PollRecord
        by (auto split: prod.split sum.split)
      then have "task_inv gs (settle At_Top (process_record (si_now i) (si_instant i) r t1))"
        by (rule task_inv_settle) simp
      with Pair Inr PollRecord show ?thesis by (simp add: step_poll_def)
    next
      case (PollSchemaChange ev)
      then have "synced gs t1" using s assms
        by (intro synced_grows [OF assms]) (simp add: grows_def adds_def)
      then have "synced gs (snd (process_schema_change evolve ev t1))"
        using grows_process_schema_change by (rule synced_grows)
      with Pair Inr PollSchemaChange show ?thesis
        by (simp add: step_poll_def task_inv_settle_synced)
    next
      case PollEmpty
      then have "synced gs t1" using s assms
        by (intro synced_grows [OF assms]) (simp add: grows_def adds_def)
      then have "synced gs (snd (process_empty t1))"
        using grows_process_empty by (rule synced_grows)
      with Pair Inr PollEmpty show ?thesis by (simp add: step_poll_def task_inv_settle_synced)
    next
      case PollEOF
      then have "synced gs t1" using s assms
        by (intro synced_grows [OF assms]) (simp add: grows_def adds_def)
      with Pair Inr PollEOF show ?thesis by (simp add: step_poll_def task_inv_def)
    qed
  qed
qed

lemma synced_report_done:
  assumes "synced gs t"
  shows "synced gs (report (Done tid) t)"
  using assms by (simp add: report_def logged_def synced_def base_def rows_done_def cut_at_def)

lemma synced_exit_flush:
  assumes "synced gs t"
  shows "synced gs (snd (exit_flush now s t))"
proof -
  have "synced gs (snd (invoke (sk_prepare_commit (tg_sink t) FINAL_CHECKPOINT_ID)
      (\<lambda>infos. [Prepared FINAL_CHECKPOINT_ID infos]) t))"
    by (rule synced_invoke [OF assms]) (simp add: plain_def)
  moreover have "cx_handle (tg_context t) \<Longrightarrow> synced gs (snd (execute_barrier now FINAL_CHECKPOINT_ID t))"
    by (rule synced_barrier [OF assms])
  ultimately show ?thesis using assms
    by (auto simp: exit_flush_def split: prod.splits sum.splits)
qed

lemma synced_leave:
  assumes "synced gs t"
  shows "synced gs (step_leave i s t)"
proof (cases "exit_flush (si_now i) s t")
  case (Pair s1 t1)
  have "synced gs t1" using synced_exit_flush [OF assms, of "si_now i" s] Pair by simp
  then have "synced gs (report (Done (cx_task_id (tg_context t)))
      (snd (invoke (sk_close (tg_sink t)) (\<lambda>_. [Sink_Closed])
        (snd (invoke (rd_close (tg_reader t)) (\<lambda>_. [Reader_Closed]) t1)))))"
    by (intro synced_report_done synced_invoke) (auto simp: plain_def)
  then show ?thesis by (simp add: step_leave_def Let_def Pair)
qed

lemma leave_finished: "\<exists>st. tg_pc (step_leave i s t) = Finished (Inr st)"
  by (simp add: step_leave_def Let_def split: prod.split)

lemma execute_barrier_frozen: "frozen t (snd (execute_barrier now i t))"
  by (cases "execute_barrier now i t"; cases "fst (execute_barrier now i t)")
    (auto dest: execute_barrier_ok execute_barrier_err simp: grows_def)

lemma synced_triggers:
  assumes "synced gs t" and "cx_handle (tg_context t)"
  shows "synced gs (step_triggers i t)"
proof (cases "g_trigger (tg_gate t)")
  case None
  with assms show ?thesis by (simp add: step_triggers_def take_trigger_def)
next
  case (Some cp)
  let ?t = "t\<lparr>tg_gate := (tg_gate t)\<lparr>g_trigger := None\<rparr>\<rparr>"
  have b: "synced gs (snd (execute_barrier (si_now i) cp ?t))"
    by (rule synced_barrier) (use assms in simp_all)
  then have "synced gs (report (CheckpointFailed tid cp e) (snd (execute_barrier (si_now i) cp ?t)))"
    for tid e
    by (rule synced_grows) (rule grows_report, simp add: plain_def)
  with b Some show ?thesis
    by (cases "execute_barrier (si_now i) cp ?t")
      (auto simp: step_triggers_def take_trigger_def split: sum.splits)
qed

lemma triggers_some:
  assumes "g_trigger (tg_gate t) = Some cp"
  shows "frozen (t\<lparr>tg_gate := (tg_gate t)\<lparr>g_trigger := None\<rparr>\<rparr>) (step_triggers i t)"
  using execute_barrier_frozen [of "t\<lparr>tg_gate := (tg_gate t)\<lparr>g_trigger := None\<rparr>\<rparr>" "si_now i" cp]
  by (cases "execute_barrier (si_now i) cp (t\<lparr>tg_gate := (tg_gate t)\<lparr>g_trigger := None\<rparr>\<rparr>)")
    (simp add: step_triggers_def take_trigger_def assms split: sum.split)

lemma triggers_frame:
  "tg_context (step_triggers i t) = tg_context t \<and>
   (tg_pc t = At_Triggers \<longrightarrow>
     tg_pc (step_triggers i t) = (if g_trigger (tg_gate t) = None then At_Events else At_Triggers)) \<and>
   g_events (tg_gate (step_triggers i t)) = g_events (tg_gate t) \<and>
   g_trigger (tg_gate (step_triggers i t)) = None"
proof (cases "g_trigger (tg_gate t)")
  case None
  then show ?thesis by (simp add: step_triggers_def take_trigger_def)
next
  case (Some cp)
  from triggers_some [OF Some, of i] Some show ?thesis by (simp add: frozen_def)
qed

lemma synced_events:
  assumes "synced gs t"
  shows "synced gs (step_events t)"
proof (cases "g_events (tg_gate t)")
  case Nil
  with assms show ?thesis by (simp add: step_events_def poll_event_def)
next
  case (Cons ev evs)
  let ?t = "t\<lparr>tg_gate := (tg_gate t)\<lparr>g_events := evs\<rparr>\<rparr>"
  have "synced gs (snd (handle_checkpoint_event ev ?t))"
    by (rule synced_event) (use assms in simp)
  with Cons show ?thesis
    by (cases "handle_checkpoint_event ev ?t")
      (auto simp: step_events_def poll_event_def split: sum.splits)
qed

lemma events_some:
  assumes "g_events (tg_gate t) = ev # evs"
  shows "\<exists>t1. frozen (t\<lparr>tg_gate := (tg_gate t)\<lparr>g_events := evs\<rparr>\<rparr>) t1 \<and>
    (step_events t = t1 \<or> (\<exists>e. step_events t = t1\<lparr>tg_pc := Leaving (TFailed e)\<rparr>))"
  using event_grows [of "t\<lparr>tg_gate := (tg_gate t)\<lparr>g_events := evs\<rparr>\<rparr>" ev]
  by (cases "handle_checkpoint_event ev (t\<lparr>tg_gate := (tg_gate t)\<lparr>g_events := evs\<rparr>\<rparr>)")
    (auto simp: step_events_def poll_event_def assms grows_def split: sum.split)

lemma events_frame:
  "tg_context (step_events t) = tg_context t \<and>
   (tg_pc t = At_Events \<longrightarrow>
     (\<exists>e. tg_pc (step_events t) = Leaving (TFailed e)) \<or>
     tg_pc (step_events t) = (if g_events (tg_gate t) = [] then At_Periodic else At_Events)) \<and>
   g_events (tg_gate (step_events t)) = tl (g_events (tg_gate t))"
proof (cases "g_events (tg_gate t)")
  case Nil
  then show ?thesis by (simp add: step_events_def poll_event_def)
next
  case (Cons ev evs)
  from events_some [OF Cons] Cons show ?thesis by (auto simp: frozen_def)
qed
lemma task_inv_step:
  assumes "task_inv gs t"
  shows "task_inv gs (task_step evolve i t)"
proof (cases "tg_pc t")
  case At_Top
  with assms show ?thesis by (simp add: task_step_def step_top_def task_inv_def)
next
  case At_Triggers
  with assms have "synced gs (step_triggers i t)" "cx_handle (tg_context t)"
    by (simp_all add: task_inv_def synced_triggers)
  with At_Triggers triggers_frame [of i t] show ?thesis by (simp add: task_step_def task_inv_def)
next
  case At_Events
  with assms have "synced gs (step_events t)" by (simp add: task_inv_def synced_events)
  with At_Events events_frame [of t] show ?thesis by (auto simp: task_step_def task_inv_def)
next
  case At_Periodic
  with assms show ?thesis
    by (simp add: task_step_def task_inv_settle_synced synced_periodic task_inv_def [of _ t])
next
  case At_Poll
  with assms show ?thesis by (simp add: task_step_def task_inv_poll task_inv_def [of _ t])
next
  case (Leaving s)
  with assms have "synced gs (step_leave i s t)" by (simp add: task_inv_def synced_leave)
  with Leaving leave_finished [of i s t] show ?thesis by (auto simp: task_step_def task_inv_def)
next
  case (Finished r)
  with assms show ?thesis by (simp add: task_step_def)
qed

lemma task_inv_gate [simp]: "task_inv gs (t\<lparr>tg_gate := g\<rparr>) = task_inv gs t"
  by (simp add: task_inv_def split: pc.split sum.split)

lemma task_inv_act: "task_inv gs t \<Longrightarrow> task_inv gs (act evolve a t)"
  by (cases a) (simp_all add: task_inv_step)

lemma task_inv_fold: "task_inv gs t \<Longrightarrow> task_inv gs (fold (act evolve) acts t)"
  by (induction acts arbitrary: t) (simp_all add: task_inv_act)

text \<open>A task as the builders leave it: nothing called, nothing counted yet.\<close>

definition fresh :: "('s, 'r, 'e, 'sc) task \<Rightarrow> bool" where
  "fresh t \<longleftrightarrow> tg_calls t = [] \<and> tg_records_processed t = 0 \<and> tg_checkpoints_completed t = 0 \<and>
     tg_last_commit_infos t = [] \<and> tg_pc t = At_Top"

lemma fresh_builders [simp]:
  "fresh (task_group_new cx rd sk w)" "fresh (with_transforms fs t) = fresh t"
  "fresh (with_committer c t) = fresh t" "fresh (with_sink_metrics f t) = fresh t"
  "fresh (with_output_schema sc t) = fresh t"
  by (simp_all add: fresh_def task_group_new_def with_transforms_def with_committer_def
      with_sink_metrics_def with_output_schema_def)

definition opened :: "int \<Rightarrow> ('s, 'r, 'e, 'sc) task \<Rightarrow> (string + unit) \<times> ('s, 'r, 'e, 'sc) task" where
  "opened now t =
     and_then
       (invoke (rd_open (tg_reader t)) (\<lambda>_. [])
         (t\<lparr>tg_status := (tg_status t)\<lparr>st_state := TRunning, st_start_time := now\<rparr>\<rparr>))
       (\<lambda>_. invoke (sk_open (tg_sink t)) (\<lambda>_. []))"

lemma start_opened: "start now t = settle At_Top (opened now t)"
  by (simp add: start_def opened_def)

lemma opened_grows:
  "grows K (t\<lparr>tg_status := (tg_status t)\<lparr>st_state := TRunning, st_start_time := now\<rparr>\<rparr>) (snd (opened now t))"
  unfolding opened_def
proof (intro grows_and_then grows_invoke)
  fix x :: unit and t1
  assume "grows K (t\<lparr>tg_status := (tg_status t)\<lparr>st_state := TRunning, st_start_time := now\<rparr>\<rparr>) t1"
  moreover have "grows K t1 (snd (invoke (sk_open (tg_sink t)) (\<lambda>_. []) t1))"
    by (rule grows_invoke) simp
  ultimately show "grows K (t\<lparr>tg_status := (tg_status t)\<lparr>st_state := TRunning, st_start_time := now\<rparr>\<rparr>)
      (snd (invoke (sk_open (tg_sink t)) (\<lambda>_. []) t1))" by (rule grows_trans)
qed simp

lemma task_inv_start:
  assumes "fresh t" and "computes (tg_transforms t) gs"
  shows "task_inv gs (start now t)"
proof -
  have "synced gs (t\<lparr>tg_status := (tg_status t)\<lparr>st_state := TRunning, st_start_time := now\<rparr>\<rparr>)"
    using assms by (simp add: fresh_def synced_def base_def rows_done_def)
  then have "synced gs (snd (opened now t))" using opened_grows by (rule synced_grows)
  then show ?thesis by (simp add: start_opened task_inv_settle_synced)
qed

lemma task_inv_run:
  assumes "fresh t" and "computes (tg_transforms t) gs"
  shows "task_inv gs (run evolve now acts t)"
  unfolding run_def using task_inv_start [OF assms] by (rule task_inv_fold)

lemma task_inv_base: "task_inv gs t \<Longrightarrow> base gs t"
  by (auto simp: task_inv_def synced_def split: pc.splits sum.splits)

section \<open>How a run ends\<close>

lemma settle_pc: "tg_pc (settle p m) = p \<or> (\<exists>e. tg_pc (settle p m) = Finished (Inl e))"
  by (auto simp: settle_def split: prod.split sum.split)

lemma settle_sel [simp]:
  "tg_calls (settle p m) = tg_calls (snd m)" "tg_context (settle p m) = tg_context (snd m)"
  "tg_gate (settle p m) = tg_gate (snd m)"
  by (auto simp: settle_def split: prod.split sum.split)

lemma poll_pc:
  "tg_pc (step_poll evolve i t) = At_Top \<or> (\<exists>e. tg_pc (step_poll evolve i t) = Finished (Inl e)) \<or>
   (\<exists>s. tg_pc (step_poll evolve i t) = Leaving s)"
  by (auto simp: step_poll_def settle_def split: prod.split sum.split poll_result.split)

lemma adds_update [simp]:
  "adds K t (settle p m) = adds K t (snd m)" "adds K t (t1\<lparr>tg_pc := p\<rparr>) = adds K t t1"
  by (simp_all add: adds_def)

text \<open>Calls of the loop body, and calls of the exit path.\<close>

definition loop_call :: "'r call \<Rightarrow> bool" where
  "loop_call c =
     (case c of Prepared i infos \<Rightarrow> i \<noteq> FINAL_CHECKPOINT_ID
      | Reported m \<Rightarrow> (case m of Done tid \<Rightarrow> False | _ \<Rightarrow> True)
      | Reader_Closed \<Rightarrow> False | Sink_Closed \<Rightarrow> False | _ \<Rightarrow> True)"

definition exit_call :: "'r call \<Rightarrow> bool" where
  "exit_call c =
     (case c of Prepared i infos \<Rightarrow> i = FINAL_CHECKPOINT_ID | Sink_Snapshot b \<Rightarrow> True
      | Reader_Snapshot b \<Rightarrow> True | Reported m \<Rightarrow> (case m of Checkpoint rep \<Rightarrow> True | _ \<Rightarrow> False)
      | Reader_Closed \<Rightarrow> True | Sink_Closed \<Rightarrow> True | _ \<Rightarrow> False)"

lemma adds_barrier:
  assumes "\<And>c. barrier_call i c \<Longrightarrow> K c" "\<And>b. K (Reader_Snapshot b)" "\<And>rep. K (Reported (Checkpoint rep))"
  shows "adds K t (snd (execute_barrier now i t))"
proof (cases "execute_barrier now i t")
  case (Pair r t')
  show ?thesis
  proof (cases r)
    case (Inl e)
    with Pair assms(1) show ?thesis
      using execute_barrier_err [of now i t e t'] adds_mono [of "barrier_call i" t t' K]
      by (simp add: grows_def)
  next
    case (Inr u)
    have "K (Prepared i infos)" "K (Sink_Snapshot ws)" for infos ws
      by (auto intro!: assms(1) simp: barrier_call_def)
    with execute_barrier_ok [OF Pair [unfolded Inr]] assms(2,3) show ?thesis
      by (auto simp: adds_def Pair)
  qed
qed

lemma loop_barrier: "i \<noteq> FINAL_CHECKPOINT_ID \<Longrightarrow> adds loop_call t (snd (execute_barrier now i t))"
  by (rule adds_barrier) (auto simp: loop_call_def barrier_call_def split: call.splits)

lemma exit_barrier: "adds exit_call t (snd (execute_barrier now FINAL_CHECKPOINT_ID t))"
  by (rule adds_barrier) (auto simp: exit_call_def barrier_call_def split: call.splits)

lemma adds_triggers:
  assumes "g_trigger (tg_gate t) \<noteq> Some FINAL_CHECKPOINT_ID"
  shows "adds loop_call t (step_triggers i t)"
proof (cases "g_trigger (tg_gate t)")
  case None
  then show ?thesis by (simp add: step_triggers_def take_trigger_def adds_def)
next
  case (Some cp)
  let ?t = "t\<lparr>tg_gate := (tg_gate t)\<lparr>g_trigger := None\<rparr>\<rparr>"
  have "adds loop_call ?t (snd (execute_barrier (si_now i) cp ?t))"
    by (rule loop_barrier) (use Some assms in simp)
  then show ?thesis
    by (cases "execute_barrier (si_now i) cp ?t")
      (auto simp: step_triggers_def take_trigger_def Some adds_def loop_call_def split: sum.split)
qed

lemma event_loop: "event_call c \<Longrightarrow> loop_call c"
  by (auto simp: event_call_def loop_call_def split: call.splits task_to_driver.splits)

lemma adds_events: "adds loop_call t (step_events t)"
proof (cases "g_events (tg_gate t)")
  case Nil
  then show ?thesis by (simp add: step_events_def poll_event_def adds_def)
next
  case (Cons ev evs)
  let ?t = "t\<lparr>tg_gate := (tg_gate t)\<lparr>g_events := evs\<rparr>\<rparr>"
  have "adds loop_call ?t (snd (handle_checkpoint_event ev ?t))"
    using event_grows [of ?t ev] by (auto simp: grows_def intro: adds_mono event_loop)
  then show ?thesis
    by (cases "handle_checkpoint_event ev ?t")
      (auto simp: step_events_def poll_event_def Cons adds_def split: sum.split)
qed

lemma adds_process_record:
  fixes t :: "('s, 'r, 'e, 'sc) task"
  shows "adds wrote_call t (snd (process_record now inst r t))"
proof (cases "apply_transforms r (t\<lparr>tg_empty_streak := 0\<rparr>)")
  case (Pair r1 t1)
  have c: "tg_calls t1 = tg_calls t"
    using invoke_ok(4) invoke_err Pair unfolding apply_transforms_def
    by (cases r1) fastforce+
  have "adds wrote_call t2 (snd (write_rows rows t2))" for rows and t2 :: "('s, 'r, 'e, 'sc) task"
    using write_rows_grows [of t2] by (simp add: grows_def)
  from this [of "publish_status_throttled inst (t1\<lparr>tg_records_processed := n, tg_last_record_at := now\<rparr>)" for n]
    c Pair show ?thesis
    by (cases r1) (simp_all add: process_record_def adds_def frozen_publish)
qed

lemma adds_poll: "adds loop_call t (step_poll evolve i t)"
proof (cases "invoke (rd_poll_next (tg_reader t)) (\<lambda>p. case p of PollRecord r \<Rightarrow> [Polled r] | _ \<Rightarrow> []) t")
  case (Pair res t1)
  have "grows loop_call t (snd (invoke (rd_poll_next (tg_reader t))
      (\<lambda>p. case p of PollRecord r \<Rightarrow> [Polled r] | _ \<Rightarrow> []) t))"
    by (rule grows_invoke) (auto simp: loop_call_def split: poll_result.splits)
  then have t1: "adds loop_call t t1" by (simp add: Pair grows_def)
  have "adds loop_call t1 (snd (process_record now inst r t1))" for now inst r
    using adds_process_record by (rule adds_mono) (auto simp: wrote_call_def loop_call_def split: call.splits)
  moreover have "adds loop_call t1 (snd (process_empty t1))"
    unfolding process_empty_def
    using grows_invoke [of "\<lambda>_. [Idled (idle_delay (tg_empty_streak t1))]" loop_call t1 "sk_poll_flush (tg_sink t1)"]
    by (auto simp: and_then_def grows_def loop_call_def adds_def split: prod.splits sum.splits)
  moreover have "adds loop_call t1 (snd (process_schema_change evolve ev t1))" for ev
    unfolding process_schema_change_def
    using grows_invoke [of "\<lambda>_. []" loop_call t1 "sk_apply_schema_change (tg_sink t1) ev"]
    by (auto simp: and_then_def grows_def adds_def split: prod.splits sum.splits option.splits)
  ultimately show ?thesis using t1 Pair
    by (auto simp: step_poll_def split: sum.split poll_result.split intro: adds_trans)
qed

definition shape :: "('s, 'r, 'e, 'sc) task \<Rightarrow> bool" where
  "shape t \<longleftrightarrow>
     cx_handle (tg_context t) \<and> g_trigger (tg_gate t) \<noteq> Some FINAL_CHECKPOINT_ID \<and>
     (case tg_pc t of
        Finished (Inr st) \<Rightarrow>
          (\<exists>cs ds. tg_calls t = cs @ ds @ [Reported (Done (cx_task_id (tg_context t)))] \<and>
             (\<forall>c \<in> set cs. loop_call c) \<and> (\<forall>d \<in> set ds. exit_call d)) \<and>
          st_processed_records st = tg_records_processed t
      | _ \<Rightarrow> \<forall>c \<in> set (tg_calls t). loop_call c)"

lemma shape_running:
  assumes "shape t" and "\<nexists>st. tg_pc t = Finished (Inr st)"
  shows "\<forall>c \<in> set (tg_calls t). loop_call c"
  using assms by (auto simp: shape_def split: pc.splits sum.splits)

lemma shape_adds:
  assumes "shape t" and "\<nexists>st. tg_pc t = Finished (Inr st)" and "adds loop_call t t'"
    and "tg_context t' = tg_context t" and "g_trigger (tg_gate t') \<noteq> Some FINAL_CHECKPOINT_ID"
    and "\<nexists>st. tg_pc t' = Finished (Inr st)"
  shows "shape t'"
proof -
  have "\<forall>c \<in> set (tg_calls t'). loop_call c"
    using shape_running [OF assms(1,2)] assms(3) by (auto simp: adds_def)
  then show ?thesis using assms(1,4,5,6) by (auto simp: shape_def split: pc.split sum.split)
qed

lemma exit_flush_adds:
  assumes "cx_handle (tg_context t)"
  shows "adds exit_call t (snd (exit_flush now s t)) \<and> tg_context (snd (exit_flush now s t)) = tg_context t \<and>
    tg_gate (snd (exit_flush now s t)) = tg_gate t"
  using exit_barrier [of t now] execute_barrier_frozen [of t now FINAL_CHECKPOINT_ID] assms
  by (cases "execute_barrier now FINAL_CHECKPOINT_ID t")
    (auto simp: exit_flush_def frozen_def split: sum.split)

lemma invoke_close:
  assumes "K c"
  shows "adds K t (snd (invoke m (\<lambda>_. [c]) t)) \<and> tg_context (snd (invoke m (\<lambda>_. [c]) t)) = tg_context t \<and>
    tg_gate (snd (invoke m (\<lambda>_. [c]) t)) = tg_gate t"
  using grows_invoke [of "\<lambda>_. [c]" K t m] assms by (auto simp: grows_def frozen_def)

lemma leave_adds:
  assumes "cx_handle (tg_context t)"
  shows "\<exists>ds st. tg_calls (step_leave i s t) = tg_calls t @ ds @ [Reported (Done (cx_task_id (tg_context t)))] \<and>
    (\<forall>d \<in> set ds. exit_call d) \<and> tg_context (step_leave i s t) = tg_context t \<and>
    tg_gate (step_leave i s t) = tg_gate t \<and>
    tg_pc (step_leave i s t) = Finished (Inr st) \<and>
    st_processed_records st = tg_records_processed (step_leave i s t)"
proof (cases "exit_flush (si_now i) s t")
  case (Pair s1 t1)
  let ?t2 = "snd (invoke (rd_close (tg_reader t)) (\<lambda>_. [Reader_Closed]) t1)"
  let ?t3 = "snd (invoke (sk_close (tg_sink t)) (\<lambda>_. [Sink_Closed]) ?t2)"
  have 1: "adds exit_call t t1" "tg_context t1 = tg_context t" "tg_gate t1 = tg_gate t"
    using exit_flush_adds [OF assms, of "si_now i" s] Pair by simp_all
  have 2: "adds exit_call t1 ?t2" "tg_context ?t2 = tg_context t1" "tg_gate ?t2 = tg_gate t1"
    using invoke_close [of exit_call Reader_Closed t1 "rd_close (tg_reader t)"]
    by (simp_all add: exit_call_def)
  have 3: "adds exit_call ?t2 ?t3" "tg_context ?t3 = tg_context ?t2" "tg_gate ?t3 = tg_gate ?t2"
    using invoke_close [of exit_call Sink_Closed ?t2 "sk_close (tg_sink t)"]
    by (simp_all add: exit_call_def)
  from 1 2 3 have "adds exit_call t ?t3" by (blast intro: adds_trans)
  then obtain ds where "tg_calls ?t3 = tg_calls t @ ds" "\<forall>d \<in> set ds. exit_call d"
    by (auto simp: adds_def)
  with 1 2 3 assms show ?thesis
    by (auto simp: step_leave_def Let_def Pair final_status_def)
qed

lemma periodic_frozen: "frozen t (snd (periodic_checkpoint now t))"
proof (cases "periodic_checkpoint now t")
  case (Pair r t')
  then show ?thesis by (cases rule: periodic_cases) (simp_all add: Pair grows_def)
qed

lemma periodic_handle:
  assumes "cx_handle (tg_context t)"
  shows "snd (periodic_checkpoint now t) = t"
proof (cases "periodic_checkpoint now t")
  case (Pair r t')
  then show ?thesis using assms by (cases rule: periodic_cases) (simp_all add: Pair)
qed

lemma context_poll:
  "tg_context (step_poll evolve i t) = tg_context t \<and> tg_gate (step_poll evolve i t) = tg_gate t"
proof (cases "invoke (rd_poll_next (tg_reader t)) (\<lambda>p. case p of PollRecord r \<Rightarrow> [Polled r] | _ \<Rightarrow> []) t")
  case (Pair res t1)
  have "grows (\<lambda>_. True) t t1"
    using grows_invoke [of "\<lambda>p. case p of PollRecord r \<Rightarrow> [Polled r] | _ \<Rightarrow> []" "\<lambda>_. True" t "rd_poll_next (tg_reader t)"]
    by (simp add: Pair)
  then have t1: "tg_context t1 = tg_context t" "tg_gate t1 = tg_gate t" by (simp_all add: grows_def frozen_def)
  have w: "tg_context (snd (write_rows rows u)) = tg_context u" "tg_gate (snd (write_rows rows u)) = tg_gate u"
    for rows and u :: "('a, 'b, 'c, 'd) task"
    using write_rows_grows [of u rows] by (simp_all add: grows_def frozen_def)
  have "tg_context (snd (process_record now inst r t1)) = tg_context t1"
    "tg_gate (snd (process_record now inst r t1)) = tg_gate t1" for now inst r
    by (auto simp: process_record_def apply_transforms_def invoke_def logged_def and_then_def w
        publish_status_throttled_def split: prod.split sum.split)
  moreover have "grows plain t1 (snd (process_empty t1))" "grows plain t1 (snd (process_schema_change evolve ev t1))" for ev
    by (rule grows_process_empty grows_process_schema_change)+
  ultimately show ?thesis using t1 Pair
    by (auto simp: step_poll_def grows_def frozen_def split: sum.split poll_result.split)
qed

lemma shape_step:
  assumes "shape t"
  shows "shape (task_step evolve i t)"
proof (cases "tg_pc t")
  case At_Top
  with assms show ?thesis
    by (intro shape_adds [OF assms]) (simp_all add: task_step_def step_top_def shape_def)
next
  case At_Triggers
  with assms triggers_frame [of i t] show ?thesis
    by (intro shape_adds [OF assms]) (simp_all add: task_step_def shape_def adds_triggers)
next
  case At_Events
  have "g_trigger (tg_gate (step_events t)) = g_trigger (tg_gate t)"
    using events_some [of t]
    by (cases "g_events (tg_gate t)") (fastforce simp: step_events_def poll_event_def frozen_def)+
  with At_Events assms events_frame [of t] show ?thesis
    by (intro shape_adds [OF assms])
      (auto simp: task_step_def shape_def adds_events split: if_splits)
next
  case At_Periodic
  have "snd (periodic_checkpoint (si_now i) t) = t"
    using assms by (simp add: shape_def periodic_handle)
  with At_Periodic assms settle_pc [of At_Poll "periodic_checkpoint (si_now i) t"] show ?thesis
    by (intro shape_adds [OF assms]) (auto simp: task_step_def shape_def)
next
  case At_Poll
  with assms context_poll [of evolve i t] poll_pc [of evolve i t] show ?thesis
    by (intro shape_adds [OF assms]) (auto simp: task_step_def shape_def adds_poll)
next
  case (Leaving s)
  with shape_running [OF assms] leave_adds [of t i s] assms show ?thesis
    by (fastforce simp: task_step_def shape_def)
next
  case (Finished r)
  with assms show ?thesis by (simp add: task_step_def)
qed

lemma shape_gate:
  assumes "shape t" and "g_trigger g \<noteq> Some FINAL_CHECKPOINT_ID"
  shows "shape (t\<lparr>tg_gate := g\<rparr>)"
proof (cases "\<exists>st. tg_pc t = Finished (Inr st)")
  case True
  with assms show ?thesis by (auto simp: shape_def)
next
  case False
  with assms show ?thesis by (intro shape_adds [OF assms(1)]) (simp_all add: adds_def)
qed

lemma shape_act:
  assumes "shape t" and "a \<noteq> Drive_Trigger FINAL_CHECKPOINT_ID"
  shows "shape (act evolve a t)"
proof -
  have "g_trigger (tg_gate t) \<noteq> Some FINAL_CHECKPOINT_ID" using assms(1) by (simp add: shape_def)
  then show ?thesis using assms by (cases a) (simp_all add: shape_step shape_gate)
qed

lemma shape_fold:
  "shape t \<Longrightarrow> Drive_Trigger FINAL_CHECKPOINT_ID \<notin> set acts \<Longrightarrow> shape (fold (act evolve) acts t)"
  by (induction acts arbitrary: t) (auto simp: shape_act)

lemma shape_run:
  assumes "fresh t" and "cx_handle (tg_context t)" and "tg_gate t = task_gate"
    and "Drive_Trigger FINAL_CHECKPOINT_ID \<notin> set acts"
  shows "shape (run evolve now acts t)"
proof -
  have o: "adds loop_call t (snd (opened now t))" "tg_context (snd (opened now t)) = tg_context t"
    "tg_gate (snd (opened now t)) = tg_gate t"
    using opened_grows [of loop_call now t] by (simp_all add: grows_def frozen_def adds_def)
  have "shape (settle At_Top (opened now t))"
  proof (rule shape_adds [of t])
    show "shape t" using assms by (simp add: shape_def fresh_def task_gate_def)
    show "\<nexists>st. tg_pc t = Finished (Inr st)" using assms(1) by (simp add: fresh_def)
    show "g_trigger (tg_gate (settle At_Top (opened now t))) \<noteq> Some FINAL_CHECKPOINT_ID"
      using o(3) assms(3) by (simp add: task_gate_def)
    show "\<nexists>st. tg_pc (settle At_Top (opened now t)) = Finished (Inr st)"
      using settle_pc [of At_Top "opened now t"] by auto
  qed (simp_all add: o)
  then show ?thesis using assms(4) by (simp add: run_def start_opened shape_fold)
qed

section \<open>Cancellation\<close>

lemma invoke_frozen: "frozen t (snd (invoke m cs t))"
  by (auto simp: invoke_def logged_def frozen_def split: prod.split sum.split)

lemma exit_flush_frozen: "frozen t (snd (exit_flush now s t))"
  using execute_barrier_frozen [of t now FINAL_CHECKPOINT_ID]
    invoke_frozen [of t "sk_prepare_commit (tg_sink t) FINAL_CHECKPOINT_ID"
      "\<lambda>infos. [Prepared FINAL_CHECKPOINT_ID infos]"]
  by (auto simp: exit_flush_def split: prod.split sum.split)

lemma leave_context: "tg_context (step_leave i s t) = tg_context t"
proof (cases "exit_flush (si_now i) s t")
  case (Pair s1 t1)
  have "frozen t t1" using exit_flush_frozen [of t "si_now i" s] Pair by simp
  then have "frozen t (snd (invoke (sk_close (tg_sink t)) (\<lambda>_. [Sink_Closed])
      (snd (invoke (rd_close (tg_reader t)) (\<lambda>_. [Reader_Closed]) t1))))"
    using invoke_frozen by (blast intro: frozen_trans)
  then show ?thesis by (simp add: step_leave_def Let_def Pair frozen_context)
qed

lemma context_step: "tg_context (task_step evolve i t) = tg_context t"
  using triggers_frame [of i t] events_frame [of t] frozen_context [OF periodic_frozen [of t "si_now i"]]
    context_poll [of evolve i t]
  by (cases "tg_pc t") (simp_all add: task_step_def step_top_def leave_context)

text \<open>How many steps a cancelled task needs at most: the events left to drain, and the way to the exit.\<close>

definition rank :: "('s, 'r, 'e, 'sc) task \<Rightarrow> nat" where
  "rank t =
     (case tg_pc t of
        Finished r \<Rightarrow> 0
      | Leaving s \<Rightarrow> 1
      | At_Top \<Rightarrow> 2
      | At_Poll \<Rightarrow> 3
      | At_Periodic \<Rightarrow> 4
      | At_Events \<Rightarrow> 5 + length (g_events (tg_gate t))
      | At_Triggers \<Rightarrow>
          6 + length (g_events (tg_gate t)) + (if g_trigger (tg_gate t) = None then 0 else 1))"

lemma rank_le: "rank t \<le> 7 + length (g_events (tg_gate t))"
  by (simp add: rank_def split: pc.split)

lemma rank_zero: "rank t = 0 \<longleftrightarrow> (\<exists>r. tg_pc t = Finished r)"
  by (simp add: rank_def split: pc.split)

lemma rank_step:
  assumes "cx_cancel_token (tg_context t)" and "si_cancelled i" and "rank t \<noteq> 0"
  shows "rank (task_step evolve i t) < rank t"
proof (cases "tg_pc t")
  case At_Top
  with assms show ?thesis by (simp add: task_step_def step_top_def rank_def)
next
  case At_Triggers
  with triggers_frame [of i t] show ?thesis by (simp add: task_step_def rank_def)
next
  case At_Events
  with events_frame [of t] show ?thesis
    by (cases "g_events (tg_gate t)") (auto simp: task_step_def rank_def)
next
  case At_Periodic
  with settle_pc [of At_Poll "periodic_checkpoint (si_now i) t"] show ?thesis
    by (auto simp: task_step_def rank_def)
next
  case At_Poll
  with poll_pc [of evolve i t] show ?thesis by (auto simp: task_step_def rank_def)
next
  case (Leaving s)
  with leave_finished [of i s t] show ?thesis by (auto simp: task_step_def rank_def)
next
  case (Finished r)
  with assms(3) show ?thesis by (simp add: rank_def)
qed

lemma cancelled_steps_finish:
  assumes "cx_cancel_token (tg_context t)" and "list_all si_cancelled ins" and "rank t \<le> length ins"
  shows "\<exists>r. tg_pc (fold (act evolve) (map Step ins) t) = Finished r"
  using assms
proof (induction ins arbitrary: t)
  case Nil
  then show ?case by (simp add: rank_zero)
next
  case (Cons i ins)
  have "rank (task_step evolve i t) \<le> length ins"
  proof (cases "rank t = 0")
    case True
    then obtain r where "tg_pc t = Finished r" by (auto simp: rank_zero)
    then have "task_step evolve i t = t" by (simp add: task_step_def)
    with True show ?thesis by simp
  next
    case False
    with rank_step [of t i evolve] Cons.prems show ?thesis by simp
  qed
  with Cons show ?case by (simp add: context_step)
qed

lemma context_act: "tg_context (act evolve a t) = tg_context t"
  by (cases a) (simp_all add: context_step)

lemma context_run: "tg_context (run evolve now acts t) = tg_context t"
proof -
  have "tg_context (fold (act evolve) acts u) = tg_context u" for u :: "('a, 'b, 'c, 'd) task"
    by (induction acts arbitrary: u) (simp_all add: context_act)
  moreover have "tg_context (start now t) = tg_context t"
    using opened_grows [of "\<lambda>_. True" now t] by (simp add: start_opened grows_def frozen_def)
  ultimately show ?thesis by (simp add: run_def)
qed

lemma run_append: "run evolve now (acts @ bs) t = fold (act evolve) bs (run evolve now acts t)"
  by (simp add: run_def)

section \<open>Counts\<close>

definition counted :: "('s, 'r, 'e, 'sc) task \<Rightarrow> bool" where
  "counted t \<longleftrightarrow>
     (\<forall>st. tg_pc t = Finished (Inr st) \<longrightarrow> st_processed_records st = tg_records_processed t)"

lemma counted_step: "counted t \<Longrightarrow> counted (task_step evolve i t)"
  using triggers_frame [of i t] events_frame [of t] poll_pc [of evolve i t]
    settle_pc [of At_Poll "periodic_checkpoint (si_now i) t"]
  by (cases "tg_pc t")
    (auto simp: task_step_def step_top_def counted_def step_leave_def final_status_def Let_def
      split: if_splits prod.splits)

lemma counted_run: "fresh t \<Longrightarrow> counted (run evolve now acts t)"
proof -
  have "counted (fold (act evolve) acts u)" if "counted u" for u :: "('a, 'b, 'c, 'd) task"
    using that
  proof (induction acts arbitrary: u)
    case (Cons a acts)
    then have "counted (act evolve a u)"
      by (cases a) (simp_all add: counted_step, simp_all add: counted_def)
    with Cons.IH show ?case by simp
  qed simp
  moreover have "counted (start now t)"
    using settle_pc [of At_Top "opened now t"] by (auto simp: start_opened counted_def)
  ultimately show ?thesis by (simp add: run_def)
qed

section \<open>A concrete pipeline\<close>

text \<open>A source that polls the rows of a list and then ends, one doubling transform, and a sink
  whose commit info is the checkpoint id.\<close>

definition ok :: "'a \<Rightarrow> ('s, 'a) op" where
  "ok x s = (Inr x, s)"

definition demo_reader :: "(nat list, nat, unit) reader_ops" where
  "demo_reader =
     \<lparr>rd_open = ok (),
      rd_poll_next = (\<lambda>w. case w of [] \<Rightarrow> (Inr PollEOF, []) | r # rs \<Rightarrow> (Inr (PollRecord r), rs)),
      rd_snapshot_state = (\<lambda>w. (Inr (map of_nat w), w)),
      rd_notify_checkpoint_complete = (\<lambda>_. ok ()), rd_close = ok ()\<rparr>"

definition demo_sink :: "(nat list, nat, unit) sink_ops" where
  "demo_sink =
     \<lparr>sk_open = ok (), sk_write = (\<lambda>_. ok ()), sk_apply_schema_change = (\<lambda>_. ok ()),
      sk_poll_flush = ok (), sk_prepare_commit = (\<lambda>i. ok [[of_nat i]]),
      sk_snapshot_state = ok [], sk_close = ok ()\<rparr>"

definition demo_committer :: "nat list committer_ops" where
  "demo_committer = \<lparr>cm_commit = (\<lambda>_. ok ()), cm_abort = (\<lambda>_. ok ())\<rparr>"

definition twice :: "nat \<Rightarrow> nat list" where
  "twice r = [r, r + 100]"

definition demo_context :: "nat list task_context" where
  "demo_context = with_cancel_token (context_new ''t0'' ''job'' ''p0'' 0 1)"

definition demo_group :: "nat list task_context \<Rightarrow> (nat list, nat, unit, unit) task" where
  "demo_group cx =
     with_committer (Some demo_committer)
       (with_transforms [\<lambda>r. ok (twice r)] (task_group_new cx demo_reader demo_sink [7, 8]))"

definition demo_evolve :: "unit \<Rightarrow> unit \<Rightarrow> string + unit" where
  "demo_evolve ev sc = Inr sc"

definition demo_step :: action where
  "demo_step = Step \<lparr>si_now = 5, si_instant = 0, si_cancelled = False\<rparr>"

lemma demo_fresh [simp]: "fresh (demo_group cx)"
  by (simp add: demo_group_def)

lemma demo_computes [simp]: "computes (tg_transforms (demo_group cx)) [twice]"
  by (simp add: computes_def demo_group_def with_committer_def with_transforms_def ok_def)

lemmas demo_eval =
  demo_group_def demo_context_def demo_reader_def demo_sink_def demo_committer_def demo_step_def
  demo_evolve_def ok_def twice_def task_group_new_def context_new_def task_status_new_def
  checkpoint_config_default_def with_committer_def with_transforms_def with_cancel_token_def
  with_checkpoint_handle_def run_def start_def settle_def invoke_def logged_def report_def
  task_step_def step_top_def step_triggers_def step_events_def step_poll_def step_leave_def
  exit_flush_def final_status_def take_trigger_def poll_event_def task_gate_def trigger_def
  send_event_def execute_barrier_def resolve_infos_def periodic_checkpoint_def
  maybe_trigger_checkpoint_def process_record_def apply_transforms_def
  publish_status_throttled_def published_metrics_def STATUS_PUBLISH_INTERVAL_def

section \<open>Properties\<close>

text \<open>
  C3. Every checkpoint a task reports to the driver is a consistent cut: the report directly follows
  the three phases of its barrier (\<open>prepare_commit\<close>, the sink snapshot, then the reader snapshot) and
  carries exactly what they returned, and at that point every row polled so far had passed through
  the transform chain and been written, in order. This holds for every connector, every interleaving
  with the driver, and whatever fails.
\<close>

theorem checkpoint_cut:
  assumes "fresh t" and "computes (tg_transforms t) gs"
    and "tg_calls (run evolve now acts t) = xs @ Reported (Checkpoint rep) # ys"
  shows "\<exists>zs. xs = zs @ [Prepared (rep_checkpoint_id rep) (rep_commit_infos rep),
      Sink_Snapshot (rep_writer_state rep), Reader_Snapshot (rep_reader_state rep)] \<and>
    wrote zs = concat (map (chain gs) (polled zs))"
proof -
  have "history_ok gs (tg_calls (run evolve now acts t))"
    using task_inv_base [OF task_inv_run [OF assms(1,2)]] by (simp add: base_def)
  then have "cut_at gs xs (Reported (Checkpoint rep))"
    using assms(3) unfolding history_ok_def by blast
  then show ?thesis by (simp add: cut_at_def rows_done_def)
qed

definition demo_cut :: "action list" where
  "demo_cut =
     [demo_step, demo_step, demo_step, demo_step, demo_step, Drive_Trigger 1, demo_step, demo_step]"

theorem checkpoint_cut_witness:
  "tg_calls (run demo_evolve 0 demo_cut (demo_group (with_checkpoint_handle demo_context))) =
     [Polled 7, Wrote 7, Wrote 107, Prepared 1 [[1]], Sink_Snapshot [], Reader_Snapshot [8]] @
     [Reported (Checkpoint
        \<lparr>rep_task_id = ''t0'', rep_checkpoint_id = 1, rep_pipeline = ''p0'', rep_subtask = 0,
         rep_parallelism = 1, rep_reader_state = [8], rep_writer_state = [],
         rep_commit_infos = [[1]]\<rparr>)] \<and>
   (\<exists>zs. [Polled 7, Wrote 7, Wrote 107, Prepared 1 [[1]], Sink_Snapshot [], Reader_Snapshot [8]] =
       zs @ [Prepared 1 [[1]], Sink_Snapshot [], Reader_Snapshot [8]] \<and>
     wrote zs = concat (map (chain [twice]) (polled zs)))"
  (is "?e \<and> ?z")
proof
  show e: ?e by (simp add: demo_eval demo_cut_def)
  show ?z using checkpoint_cut [OF demo_fresh demo_computes e] by simp
qed


definition demo_listener :: "nat list listener_op" where
  "demo_listener job tid i at b w = w"

definition demo_interval :: "action list" where
  "demo_interval = [demo_step, demo_step, demo_step]"



definition demo_failing :: "(nat list, nat, unit, unit) task" where
  "demo_failing =
     (demo_group (with_checkpoint_handle demo_context))
       \<lparr>tg_sink := demo_sink\<lparr>sk_write := (\<lambda>_ w. (Inl ''io error'', w))\<rparr>\<rparr>"

definition demo_pass :: "action list" where
  "demo_pass = [demo_step, demo_step, demo_step, demo_step, demo_step]"


text \<open>
  C21. A cancelled task ends: from any point of any run, once the token is cancelled and the driver is
  quiet, the loop reaches its exit and returns within seven steps more than there are resolution
  events left to drain, whatever the connectors answer.
\<close>

theorem cancelled_task_finishes:
  assumes "cx_cancel_token (tg_context t)" and "list_all si_cancelled ins"
    and "7 + length (g_events (tg_gate (run evolve now acts t))) \<le> length ins"
  shows "\<exists>r. tg_pc (run evolve now (acts @ map Step ins) t) = Finished r"
  unfolding run_append
proof (rule cancelled_steps_finish)
  show "cx_cancel_token (tg_context (run evolve now acts t))" using assms(1) by (simp add: context_run)
  show "list_all si_cancelled ins" by fact
  show "rank (run evolve now acts t) \<le> length ins" using rank_le assms(3) by (rule le_trans)
qed

theorem cancelled_task_finishes_witness:
  "\<exists>r. tg_pc (run demo_evolve 0
      (demo_cut @ map Step (replicate 7 \<lparr>si_now = 9, si_instant = 1, si_cancelled = True\<rparr>))
      (demo_group (with_checkpoint_handle demo_context))) = Finished r"
  by (rule cancelled_task_finishes) (simp_all add: demo_eval demo_cut_def list_all_iff)

text \<open>
  Phase 2 is not tied to the checkpoint it resolves: \<open>handle_checkpoint_event\<close> ignores the
  checkpoint id and commits the infos of the latest barrier, and a loop pass cuts a new barrier before
  it polls the events. When the barrier of checkpoint \<open>n\<close> arrives before the completion of an earlier
  checkpoint \<open>m\<close> was polled, the task commits the infos of \<open>n\<close>, which nobody has completed, in place of
  those of \<open>m\<close>, which are never committed.
\<close>

theorem newer_infos_committed:
  assumes "tg_pc t = At_Triggers" and "cx_handle (tg_context t)" and "tg_committer t = Some cm"
    and "g_trigger (tg_gate t) = Some n" and "g_events (tg_gate t) = EvCompleted m # evs"
    and "execute_barrier (si_now i) n (t\<lparr>tg_gate := (tg_gate t)\<lparr>g_trigger := None\<rparr>\<rparr>) = (Inr u, t1)"
    and "tg_last_commit_infos t1 \<noteq> []"
    and "cm_commit cm (tg_last_commit_infos t1) (tg_world t1) = (Inr v, w)"
  shows "\<exists>infos ws rs rep es.
    tg_calls (task_step evolve k (task_step evolve j (task_step evolve i t))) =
      tg_calls t @ [Prepared n infos, Sink_Snapshot ws, Reader_Snapshot rs, Reported (Checkpoint rep),
        Committed infos] @ es \<and>
    rep_checkpoint_id rep = n \<and> rep_commit_infos rep = infos \<and>
    (\<forall>c \<in> set es. c = Notified m \<or> c = Reported (CommitDone (cx_task_id (tg_context t)) m))"
proof -
  let ?t = "t\<lparr>tg_gate := (tg_gate t)\<lparr>g_trigger := None\<rparr>\<rparr>"
  from execute_barrier_ok [OF assms(6)] assms(2) obtain infos ws rs rep where
    c: "tg_calls t1 = tg_calls t @ [Prepared n infos, Sink_Snapshot ws, Reader_Snapshot rs, Reported (Checkpoint rep)]"
    and rep: "rep_checkpoint_id rep = n" "rep_commit_infos rep = infos"
    and li: "tg_last_commit_infos t1 = infos" and f: "frozen ?t t1"
    by auto
  have s1: "task_step evolve i t = t1"
    using assms(1,4,6) by (simp add: task_step_def step_triggers_def take_trigger_def)
  from f have t1: "tg_pc t1 = At_Triggers" "g_trigger (tg_gate t1) = None"
    "g_events (tg_gate t1) = EvCompleted m # evs" "tg_committer t1 = Some cm"
    "tg_context t1 = tg_context t"
    using assms(1,3,5) by (simp_all add: frozen_def)
  define t2 where "t2 = t1\<lparr>tg_gate := (tg_gate t1)\<lparr>g_trigger := None\<rparr>, tg_pc := At_Events\<rparr>"
  have s2: "task_step evolve j t1 = t2"
    using t1 by (simp add: task_step_def step_triggers_def take_trigger_def t2_def)
  have t2: "tg_pc t2 = At_Events" "g_events (tg_gate t2) = EvCompleted m # evs" "tg_calls t2 = tg_calls t1"
    "tg_committer t2 = Some cm" "tg_context t2 = tg_context t" "tg_world t2 = tg_world t1"
    "tg_last_commit_infos t2 = infos"
    using t1 li by (simp_all add: t2_def)
  let ?t2 = "t2\<lparr>tg_gate := (tg_gate t2)\<lparr>g_events := evs\<rparr>\<rparr>"
  have r: "resolve_infos cm_commit Committed ?t2 = (Inr v, logged [Committed infos] (?t2\<lparr>tg_world := w\<rparr>))"
    using t2 assms(7,8) li by (simp add: resolve_infos_def invoke_def)
  have "\<exists>es. tg_calls (snd (handle_checkpoint_event (EvCompleted m) ?t2)) = tg_calls t1 @ [Committed infos] @ es \<and>
      (\<forall>c \<in> set es. c = Notified m \<or> c = Reported (CommitDone (cx_task_id (tg_context t)) m))"
    using t2 by (auto simp: r invoke_def and_then_def map_err_def split: prod.splits sum.splits)
  then obtain es where
    h: "tg_calls (snd (handle_checkpoint_event (EvCompleted m) ?t2)) = tg_calls t1 @ [Committed infos] @ es"
    and es: "\<forall>c \<in> set es. c = Notified m \<or> c = Reported (CommitDone (cx_task_id (tg_context t)) m)"
    by blast
  have st: "tg_calls (task_step evolve k t2) = tg_calls (snd (handle_checkpoint_event (EvCompleted m) ?t2))"
    using t2 by (simp add: task_step_def step_events_def poll_event_def split: prod.split sum.split)
  have "tg_calls (task_step evolve k (task_step evolve j (task_step evolve i t))) =
      tg_calls t @ [Prepared n infos, Sink_Snapshot ws, Reader_Snapshot rs, Reported (Checkpoint rep),
        Committed infos] @ es"
    unfolding s1 s2 st h c by simp
  with es rep show ?thesis by blast
qed

text \<open>The driver sends the next trigger as soon as a checkpoint is stored: the gate of a live task then
  holds the new barrier together with the completion it has not polled.\<close>

lemma map_gates_mem:
  "e \<in> set es \<Longrightarrow> P e \<Longrightarrow> e\<lparr>te_gate := f (te_gate e)\<rparr> \<in> set (map_gates P f es)"
  by (force simp: map_gates_def)

lemma trigger_beside_completion:
  assumes "e \<in> set (drv_entries d)" and "te_alive e"
    and "fst (save c pid fault (completed_envelope d p False) (drv_fs d))"
  shows "e\<lparr>te_gate := (te_gate e)\<lparr>g_events := g_events (te_gate e) @ [EvCompleted (pd_checkpoint_id p)],
        g_trigger := Some (drv_next_id d)\<rparr>\<rparr>
      \<in> set (drv_entries (fst (trigger_checkpoint now (complete_checkpoint c pid fault p False d))))"
proof -
  from assms(3) obtain fs where s: "save c pid fault (completed_envelope d p False) (drv_fs d) = (True, fs)"
    by (cases "save c pid fault (completed_envelope d p False) (drv_fs d)") auto
  let ?e = "e\<lparr>te_gate := send_event (EvCompleted (pd_checkpoint_id p)) (te_gate e)\<rparr>"
  have "?e \<in> set (map_gates (\<lambda>t. te_alive t \<or> False) (send_event (EvCompleted (pd_checkpoint_id p))) (drv_entries d))"
    using assms(1,2) by (simp add: map_gates_mem)
  from map_gates_mem [OF this, of te_alive "trigger (drv_next_id d)"] assms(2) show ?thesis
    by (simp add: complete_checkpoint_def trigger_checkpoint_def Let_def s) (simp add: trigger_def send_event_def)
qed

definition demo_race :: "action list" where
  "demo_race =
     [Drive_Trigger 1, demo_step, demo_step, demo_step, demo_step, demo_step, demo_step,
      Drive_Event (EvCompleted 1), Drive_Trigger 2, demo_step]"

definition demo_raced :: "(nat list, nat, unit, unit) task" where
  "demo_raced = run demo_evolve 0 demo_race (demo_group (with_checkpoint_handle demo_context))"

theorem newer_infos_committed_witness:
  "tg_gate demo_raced = \<lparr>g_trigger = Some 2, g_events = [EvCompleted 1], g_closed = False\<rparr> \<and>
   tg_last_commit_infos demo_raced = [[1]] \<and>
   (let i = \<lparr>si_now = 6, si_instant = 0, si_cancelled = False\<rparr>;
        cs = tg_calls (task_step demo_evolve i (task_step demo_evolve i (task_step demo_evolve i demo_raced)))
    in Committed [[2]] \<in> set cs \<and> Committed [[1]] \<notin> set cs \<and>
      (\<exists>infos ws rs rep es. cs = tg_calls demo_raced @ [Prepared 2 infos, Sink_Snapshot ws,
          Reader_Snapshot rs, Reported (Checkpoint rep), Committed infos] @ es \<and>
        rep_checkpoint_id rep = 2))"
proof -
  let ?i = "\<lparr>si_now = 6, si_instant = 0, si_cancelled = False\<rparr> :: step_input"
  let ?t1 = "snd (execute_barrier (si_now ?i) 2
      (demo_raced\<lparr>tg_gate := (tg_gate demo_raced)\<lparr>g_trigger := None\<rparr>\<rparr>))"
  let ?cs = "tg_calls (task_step demo_evolve ?i (task_step demo_evolve ?i (task_step demo_evolve ?i demo_raced)))"
  have f: "tg_pc demo_raced = At_Triggers" "cx_handle (tg_context demo_raced)"
    "tg_committer demo_raced = Some demo_committer"
    "tg_gate demo_raced = \<lparr>g_trigger = Some 2, g_events = [EvCompleted 1], g_closed = False\<rparr>"
    "tg_last_commit_infos demo_raced = [[1]]"
    by (simp_all add: demo_raced_def demo_race_def demo_eval)
  have g: "execute_barrier (si_now ?i) 2
      (demo_raced\<lparr>tg_gate := (tg_gate demo_raced)\<lparr>g_trigger := None\<rparr>\<rparr>) = (Inr (), ?t1)"
    "tg_last_commit_infos ?t1 = [[2]]"
    by (simp_all add: demo_raced_def demo_race_def demo_eval)
  have h: "g_trigger (tg_gate demo_raced) = Some 2" "g_events (tg_gate demo_raced) = EvCompleted 1 # []"
    "tg_last_commit_infos ?t1 \<noteq> []"
    "cm_commit demo_committer (tg_last_commit_infos ?t1) (tg_world ?t1) = (Inr (), tg_world ?t1)"
    unfolding g(2) by (simp_all add: f(4) demo_committer_def ok_def)
  have "\<exists>infos ws rs rep es. ?cs = tg_calls demo_raced @ [Prepared 2 infos, Sink_Snapshot ws,
      Reader_Snapshot rs, Reported (Checkpoint rep), Committed infos] @ es \<and>
    rep_checkpoint_id rep = 2 \<and> rep_commit_infos rep = infos \<and>
    (\<forall>c \<in> set es. c = Notified 1 \<or> c = Reported (CommitDone (cx_task_id (tg_context demo_raced)) 1))"
    by (rule newer_infos_committed [OF f(1,2,3) h(1,2) g(1) h(3,4)])
  moreover have "Committed [[2]] \<in> set ?cs" "Committed [[1]] \<notin> set ?cs"
    by (simp_all add: demo_raced_def demo_race_def demo_eval)
  ultimately show ?thesis using f(4,5) by (simp add: Let_def) blast
qed

lemma set_after_append: "xs @ p # ys = cs @ ds \<Longrightarrow> p \<notin> set cs \<Longrightarrow> set ys \<subseteq> set ds"
proof (induction cs arbitrary: xs)
  case Nil
  then show ?case by (metis Un_upper2 append_Nil set_append set_subset_Cons subset_trans)
next
  case (Cons c cs)
  then show ?case by (cases xs) auto
qed

text \<open>
  The commit infos of the exit barrier are never resolved: after the final \<open>prepare_commit\<close> of a
  task, no run of any schedule calls the committer again, neither to commit nor to abort. Rows that a
  two-phase sink prepared at exit stay prepared.
\<close>

theorem exit_infos_never_committed:
  assumes "fresh t" and "cx_handle (tg_context t)" and "tg_gate t = task_gate"
    and "Drive_Trigger FINAL_CHECKPOINT_ID \<notin> set acts"
    and "tg_calls (run evolve now acts t) = xs @ Prepared FINAL_CHECKPOINT_ID infos # ys"
  shows "\<forall>is. Committed is \<notin> set ys \<and> Rolled_Back is \<notin> set ys"
proof -
  let ?t = "run evolve now acts t"
  have sh: "shape ?t" using shape_run [OF assms(1-4)] .
  have nl: "\<not> loop_call (Prepared FINAL_CHECKPOINT_ID infos)" by (simp add: loop_call_def)
  then have "\<exists>st. tg_pc ?t = Finished (Inr st)"
    using shape_running [OF sh] assms(5) by auto
  with sh obtain cs ds where c: "tg_calls ?t = cs @ ds @ [Reported (Done (cx_task_id (tg_context ?t)))]"
    and l: "\<forall>c \<in> set cs. loop_call c" "\<forall>d \<in> set ds. exit_call d"
    by (auto simp: shape_def)
  have "Prepared FINAL_CHECKPOINT_ID infos \<notin> set cs" using l(1) nl by blast
  with c assms(5) have "set ys \<subseteq> set (ds @ [Reported (Done (cx_task_id (tg_context ?t)))])"
    by (metis set_after_append)
  moreover have "\<not> exit_call (Committed is)" "\<not> exit_call (Rolled_Back is)" for "is"
    by (simp_all add: exit_call_def)
  ultimately show ?thesis using l(2) by fastforce
qed

definition demo_ended :: "(nat list, nat, unit, unit) task" where
  "demo_ended =
     run demo_evolve 0 [Step \<lparr>si_now = 5, si_instant = 0, si_cancelled = True\<rparr>, demo_step]
       (demo_group (with_checkpoint_handle demo_context))"

theorem exit_infos_never_committed_witness:
  "Prepared FINAL_CHECKPOINT_ID [[of_nat FINAL_CHECKPOINT_ID]] \<in> set (tg_calls demo_ended) \<and>
   (\<forall>is. Committed is \<notin> set (tl (tg_calls demo_ended)) \<and> Rolled_Back is \<notin> set (tl (tg_calls demo_ended)))"
proof
  have c: "tg_calls demo_ended =
      [] @ Prepared FINAL_CHECKPOINT_ID [[of_nat FINAL_CHECKPOINT_ID]] # tl (tg_calls demo_ended)"
    by (simp add: demo_ended_def demo_eval Let_def)
  then show "Prepared FINAL_CHECKPOINT_ID [[of_nat FINAL_CHECKPOINT_ID]] \<in> set (tg_calls demo_ended)"
    by (metis append_Nil list.set_intros(1))
  have "cx_handle (tg_context (demo_group (with_checkpoint_handle demo_context)))"
    "tg_gate (demo_group (with_checkpoint_handle demo_context)) = task_gate"
    by (simp_all add: demo_eval)
  from exit_infos_never_committed [OF demo_fresh this _ c [unfolded demo_ended_def]]
  show "\<forall>is. Committed is \<notin> set (tl (tg_calls demo_ended)) \<and> Rolled_Back is \<notin> set (tl (tg_calls demo_ended))"
    by (simp add: demo_ended_def demo_step_def)
qed

text \<open>
  The status a finished run returns counts exactly the rows written, and those are the
  transformed rows of everything polled, in order: a run that returns a status has dropped nothing and
  written nothing twice.
\<close>

theorem finished_counts_rows:
  assumes "fresh t" and "computes (tg_transforms t) gs"
    and "tg_pc (run evolve now acts t) = Finished (Inr st)"
  shows "st_processed_records st = length (wrote (tg_calls (run evolve now acts t))) \<and>
    wrote (tg_calls (run evolve now acts t)) =
      concat (map (chain gs) (polled (tg_calls (run evolve now acts t))))"
  using task_inv_run [OF assms(1,2), of evolve now acts] counted_run [OF assms(1), of evolve now acts] assms(3)
  by (simp add: task_inv_def synced_def rows_done_def counted_def)

definition demo_full :: "action list" where
  "demo_full =
     [demo_step, demo_step, demo_step, demo_step, demo_step, demo_step, demo_step, demo_step,
      demo_step, demo_step]"

theorem finished_counts_rows_witness:
  "\<exists>st. tg_pc (run demo_evolve 0 demo_full (demo_group demo_context)) = Finished (Inr st) \<and>
     st_processed_records st = length (wrote (tg_calls (run demo_evolve 0 demo_full (demo_group demo_context)))) \<and>
     wrote (tg_calls (run demo_evolve 0 demo_full (demo_group demo_context))) = [7, 107, 8, 108]"
proof -
  have "\<exists>st. tg_pc (run demo_evolve 0 demo_full (demo_group demo_context)) = Finished (Inr st)"
    by (simp add: demo_full_def demo_eval Let_def)
  then obtain st where st: "tg_pc (run demo_evolve 0 demo_full (demo_group demo_context)) = Finished (Inr st)" ..
  have p: "polled (tg_calls (run demo_evolve 0 demo_full (demo_group demo_context))) = [7, 8]"
    by (simp add: demo_full_def demo_eval Let_def)
  have "concat (map (chain [twice]) [7, 8]) = [7, 107, 8, 108]" by (simp add: chain_def twice_def)
  with finished_counts_rows [OF demo_fresh demo_computes st] st show ?thesis unfolding p by metis
qed

end
