(* ===== verification/State_Store.thy ===== *)
theory State_Store
  imports Local_Store
begin

text \<open>
  The worker's durable state store (\<open>state_store.rs\<close>): \<open><root>/<job>/<task>/cp-<id>.state\<close>, written
  with a temporary file and a rename, pruned to the newest snapshots, and swept when a job's files are
  older than a time to live. It is the third implementation of the \<open>snapshot_store\<close> interface.
  Directory names go through the same character filter as those of the local store (\<open>safe_char\<close>; on
  ASCII text \<open>is_alphanumeric\<close> and \<open>is_ascii_alphanumeric\<close> agree).
\<close>

section \<open>Operations\<close>

definition DEFAULT_RETAINED_SNAPSHOTS :: nat where
  "DEFAULT_RETAINED_SNAPSHOTS = 3"

definition RESERVED_DIRS :: "string list" where
  "RESERVED_DIRS = [''raft'', ''logs'']"

record state_store =
  ss_retained :: nat

definition with_retention :: "nat \<Rightarrow> state_store" where
  "with_retention r = \<lparr>ss_retained = max r 1\<rparr>"

definition state_store_new :: state_store where
  "state_store_new = with_retention DEFAULT_RETAINED_SNAPSHOTS"

definition sanitize :: "string \<Rightarrow> string" where
  "sanitize component = map safe_char component"

definition task_dir :: "string \<Rightarrow> string \<Rightarrow> path" where
  "task_dir job task = [sanitize job, sanitize task]"

definition state_file :: "nat \<Rightarrow> string" where
  "state_file i = ''cp-'' @ show_nat i @ ''.state''"

definition state_tmp :: "nat \<Rightarrow> string" where
  "state_tmp i = ''.cp-'' @ show_nat i @ ''.state.tmp''"

definition parse_state_file :: "string \<Rightarrow> nat option" where
  "parse_state_file name =
     Option.bind (strip_prefix ''cp-'' name) (\<lambda>s. Option.bind (strip_suffix ''.state'' s) parse_u64)"

definition state_ids :: "'b dir \<Rightarrow> (nat \<times> string) list" where
  "state_ids d = List.map_filter (\<lambda>(name, _). map_option (\<lambda>i. (i, name)) (parse_state_file name)) d"

definition prune_dir :: "state_store \<Rightarrow> path \<Rightarrow> 'b fs \<Rightarrow> 'b fs" where
  "prune_dir st p fs =
     (let ids = state_ids (read_dir fs p) in
      if length ids \<le> ss_retained st then fs
      else
        let sorted_ids = sort_key fst ids; excess = length ids - ss_retained st
        in fold (\<lambda>e. exec_op (Remove_File p (snd e))) (take excess sorted_ids) fs)"

definition save_checkpoint ::
    "state_store \<Rightarrow> nat option \<Rightarrow> string \<Rightarrow> string \<Rightarrow> nat \<Rightarrow> 'b list \<Rightarrow> 'b fs \<Rightarrow> bool \<times> 'b fs" where
  "save_checkpoint st fault job task i bs fs =
     (case attempt (atomic_write (task_dir job task) (state_tmp i) (state_file i) bs) fault fs of
        (False, fs1) \<Rightarrow> (False, fs1)
      | (True, fs1) \<Rightarrow> (True, prune_dir st (task_dir job task) fs1))"

fun best_id :: "(nat \<times> string) list \<Rightarrow> (nat \<times> string) option \<Rightarrow> (nat \<times> string) option" where
  "best_id [] best = best"
| "best_id ((i, name) # es) best =
     best_id es (if (case best of None \<Rightarrow> True | Some (b, _) \<Rightarrow> b < i) then Some (i, name) else best)"

text \<open>A directory that cannot be listed counts as empty; the file of the best id is then read.\<close>

definition load_latest_checkpoint :: "string \<Rightarrow> string \<Rightarrow> 'b fs \<Rightarrow> (nat \<times> 'b list) option" where
  "load_latest_checkpoint job task fs =
     (let d = read_dir fs (task_dir job task) in
      case best_id (state_ids d) None of
        None \<Rightarrow> None
      | Some (i, name) \<Rightarrow> map_option (Pair i) (hm_get d name))"

definition drop_job_state :: "string \<Rightarrow> 'b fs \<Rightarrow> bool \<times> 'b fs" where
  "drop_job_state job fs =
     (list_ex (\<lambda>(q, _). take 1 q = [sanitize job]) fs, remove_dir_all [sanitize job] fs)"

text \<open>
  The sweep looks at modification times, so it works on a tree of directories whose files carry them
  (in seconds; \<open>0\<close> is \<open>UNIX_EPOCH\<close>, also the value used when a time cannot be read).
\<close>

datatype node = File nat | Dir "(string \<times> node) list"

fun newest_mtime :: "node \<Rightarrow> nat option" and entries_mtime :: "(string \<times> node) list \<Rightarrow> nat option \<Rightarrow> nat option" where
  "newest_mtime (File t) = None"
| "newest_mtime (Dir es) =
     (case entries_mtime es None of None \<Rightarrow> None | Some t \<Rightarrow> if t = 0 then None else Some t)"
| "entries_mtime [] best = best"
| "entries_mtime ((_, e) # es) best =
     (let mtime = (case e of File t \<Rightarrow> t | Dir _ \<Rightarrow> (case newest_mtime e of None \<Rightarrow> 0 | Some t \<Rightarrow> t))
      in entries_mtime es (case best of None \<Rightarrow> Some mtime | Some n \<Rightarrow> Some (max n mtime)))"

definition is_dir :: "node \<Rightarrow> bool" where
  "is_dir n = (case n of File _ \<Rightarrow> False | Dir _ \<Rightarrow> True)"

definition job_dirs :: "(string \<times> node) list \<Rightarrow> (string \<times> node) list" where
  "job_dirs root = filter (\<lambda>(name, e). is_dir e \<and> name \<notin> set RESERVED_DIRS) root"

text \<open>\<open>removable\<close> says which directories \<open>remove_dir_all\<close> succeeds on. The result is the removed jobs and
  the entries left under the root.\<close>

definition sweep_one ::
    "nat \<Rightarrow> nat \<Rightarrow> (string \<Rightarrow> bool) \<Rightarrow> string \<times> node \<Rightarrow> string list \<times> (string \<times> node) list \<Rightarrow>
     string list \<times> (string \<times> node) list" where
  "sweep_one now ttl removable = (\<lambda>(job, e) (removed, root).
     let without = (if removable job then filter (\<lambda>(name, _). name \<noteq> job) root else root) in
     case newest_mtime e of
       None \<Rightarrow> (removed @ [job], without)
     | Some t \<Rightarrow>
         if ttl \<le> now - t \<and> removable job then (removed @ [job], without) else (removed, root))"

definition sweep_expired ::
    "nat \<Rightarrow> nat \<Rightarrow> (string \<Rightarrow> bool) \<Rightarrow> (string \<times> node) list \<Rightarrow> string list \<times> (string \<times> node) list" where
  "sweep_expired now ttl removable root = fold (sweep_one now ttl removable) (job_dirs root) ([], root)"

text \<open>The worker's checkpoint listener: a failed save is logged and otherwise ignored.\<close>

definition on_checkpoint ::
    "state_store \<Rightarrow> nat option \<Rightarrow> string \<Rightarrow> string \<Rightarrow> nat \<Rightarrow> int \<Rightarrow> 'b list \<Rightarrow> 'b fs \<Rightarrow> 'b fs" where
  "on_checkpoint st fault job task i timestamp bs fs = snd (save_checkpoint st fault job task i bs fs)"

section \<open>The abstract store\<close>

definition state_inv :: "string \<Rightarrow> string \<Rightarrow> 'b fs \<Rightarrow> bool" where
  "state_inv job task fs \<longleftrightarrow>
     fs_wf fs \<and>
     (\<forall>n i. hm_get (read_dir fs (task_dir job task)) n \<noteq> None \<longrightarrow> parse_state_file n = Some i \<longrightarrow>
        n = state_file i \<and> i \<le> u64_max)"

definition state_lookup :: "string \<Rightarrow> string \<Rightarrow> 'b fs \<Rightarrow> nat \<rightharpoonup> 'b list" where
  "state_lookup job task fs i =
     (if i \<le> u64_max then hm_get (read_dir fs (task_dir job task)) (state_file i) else None)"

lemma parse_state_file [simp]: "i \<le> u64_max \<Longrightarrow> parse_state_file (state_file i) = Some i"
  by (simp add: parse_state_file_def state_file_def del: append.simps)

lemma parse_state_tmp [simp]: "parse_state_file (state_tmp i) = None"
  by (simp add: parse_state_file_def state_tmp_def strip_prefix_def)

lemma state_tmp_neq [simp]: "state_tmp i \<noteq> state_file j" "state_file j \<noteq> state_tmp i"
  by (simp_all add: state_tmp_def state_file_def)

lemma state_file_inj [simp]: "state_file i = state_file j \<longleftrightarrow> i = j"
  by (simp add: state_file_def)

lemma state_invD:
  assumes "state_inv job task fs" and "hm_get (read_dir fs (task_dir job task)) n = Some bs"
    and "parse_state_file n = Some i"
  shows "n = state_file i" "i \<le> u64_max"
  using assms by (auto simp: state_inv_def)

text \<open>Under the invariant the ids found in a directory are the domain of the abstract store, once each.\<close>

lemma state_ids_lookup:
  assumes "state_inv job task fs"
  defines "d \<equiv> read_dir fs (task_dir job task)"
  shows "set (state_ids d) = (\<lambda>i. (i, state_file i)) ` dom (state_lookup job task fs)"
    "distinct (map fst (state_ids d))"
proof -
  have wf: "hm_wf d" using assms by (simp add: state_inv_def fs_wf_read)
  have mem: "(i, n) \<in> set (state_ids d) \<longleftrightarrow> (\<exists>bs. hm_get d n = Some bs) \<and> parse_state_file n = Some i" for i n
    by (force simp: state_ids_def List.map_filter_def hm_get_in_set [OF wf] image_iff split_def)
  have pair: "(i, n) \<in> set (state_ids d) \<longleftrightarrow> n = state_file i \<and> i \<in> dom (state_lookup job task fs)" for i n
  proof
    assume "(i, n) \<in> set (state_ids d)"
    with mem obtain bs where "hm_get d n = Some bs" "parse_state_file n = Some i" by blast
    with state_invD [OF assms(1), of n bs i] show "n = state_file i \<and> i \<in> dom (state_lookup job task fs)"
      by (simp add: d_def state_lookup_def dom_def)
  next
    assume "n = state_file i \<and> i \<in> dom (state_lookup job task fs)"
    then show "(i, n) \<in> set (state_ids d)" unfolding mem by (auto simp: d_def state_lookup_def split: if_splits)
  qed
  then show "set (state_ids d) = (\<lambda>i. (i, state_file i)) ` dom (state_lookup job task fs)" by auto
  have names: "map snd (state_ids d) = filter (\<lambda>n. parse_state_file n \<noteq> None) (map fst d)"
    by (induction d) (auto simp: state_ids_def List.map_filter_def)
  have "distinct (state_ids d)"
    using wf names by (metis distinct_filter distinct_map hm_wf_def)
  moreover have "inj_on fst (set (state_ids d))"
    using pair by (auto simp: inj_on_def)
  ultimately show "distinct (map fst (state_ids d))" by (simp add: distinct_map)
qed

lemma best_id_max:
  "(\<forall>e\<in>set es. e \<in> S) \<Longrightarrow> (\<forall>e. best = Some e \<longrightarrow> e \<in> S) \<Longrightarrow>
     (case best_id es best of
        None \<Rightarrow> es = [] \<and> best = None
      | Some b \<Rightarrow> b \<in> S \<and> (\<forall>e\<in>set es. fst e \<le> fst b) \<and> (\<forall>e. best = Some e \<longrightarrow> fst e \<le> fst b))"
proof (induction es arbitrary: best)
  case (Cons x es)
  obtain i name where x: "x = (i, name)" by (cases x)
  let ?b = "if (case best of None \<Rightarrow> True | Some (b, _) \<Rightarrow> b < i) then Some (i, name) else best"
  have "\<forall>e. ?b = Some e \<longrightarrow> e \<in> S" using Cons.prems x by auto
  note ih = Cons.IH [OF _ this]
  have le: "i \<le> fst e" if "?b = Some e" for e using that by (auto split: option.splits if_splits prod.splits)
  have le': "fst e' \<le> fst e" if "best = Some e'" "?b = Some e" for e e'
    using that by (auto split: if_splits prod.splits)
  have "?b \<noteq> None" by (auto split: option.splits)
  then obtain b0 where b0: "?b = Some b0" by blast
  from ih Cons.prems(1) obtain b where "best_id es ?b = Some b" "b \<in> S" "\<forall>e\<in>set es. fst e \<le> fst b" "fst b0 \<le> fst b"
    using b0 by (auto split: option.splits)
  with le [OF b0] le' [OF _ b0] x show ?case by (auto intro: order_trans)
qed (simp split: option.split)

lemma load_latest_newest:
  assumes "state_inv job task fs"
  shows "newest (state_lookup job task fs) (load_latest_checkpoint job task fs)"
proof -
  let ?d = "read_dir fs (task_dir job task)"
  note ids = state_ids_lookup [OF assms]
  note b = best_id_max [of "state_ids ?d" "set (state_ids ?d)" None]
  show ?thesis
  proof (cases "best_id (state_ids ?d) None")
    case None
    with b ids(1) show ?thesis by (simp add: newest_def load_latest_checkpoint_def Let_def)
  next
    case (Some p)
    with b have p: "p \<in> set (state_ids ?d)" "\<forall>e\<in>set (state_ids ?d). fst e \<le> fst p" by simp_all
    with ids(1) obtain i where i: "p = (i, state_file i)" "i \<in> dom (state_lookup job task fs)" by auto
    moreover from p(2) ids(1) i have "\<forall>j\<in>dom (state_lookup job task fs). j \<le> i" by auto
    moreover from i(2) have "hm_get ?d (state_file i) = state_lookup job task fs i"
      by (auto simp: state_lookup_def split: if_splits)
    ultimately show ?thesis using Some by (auto simp: newest_def load_latest_checkpoint_def Let_def)
  qed
qed

lemma prune_dir_read:
  "hm_get (read_dir (prune_dir st p fs) q) n =
     (if q = p \<and> n \<in> snd ` set (take (length (state_ids (read_dir fs p)) - ss_retained st)
         (sort_key fst (state_ids (read_dir fs p))))
      then None else hm_get (read_dir fs q) n)"
  using read_remove_files [of p snd "take (length (state_ids (read_dir fs p)) - ss_retained st)
      (sort_key fst (state_ids (read_dir fs p)))" fs q n]
  by (cases "length (state_ids (read_dir fs p)) \<le> ss_retained st")
    (simp_all only: prune_dir_def Let_def if_True if_False diff_is_0_eq [THEN iffD2] take0 list.set
      image_empty empty_iff simp_thms)

lemma prune_dir_inv: "state_inv job task fs \<Longrightarrow> state_inv job task (prune_dir st (task_dir job task) fs)"
  by (auto simp: state_inv_def prune_dir_read)
    (auto simp: prune_dir_def Let_def fs_wf_remove_files simp del: exec_op.simps)

lemma prune_dir_lookup:
  assumes "state_inv job task fs"
  shows "state_lookup job task (prune_dir st (task_dir job task) fs) =
    keep_newest (ss_retained st) (state_lookup job task fs)"
proof -
  let ?ids = "state_ids (read_dir fs (task_dir job task))"
  let ?k = "length ?ids - ss_retained st" and ?xs = "map fst (sort_key fst ?ids)"
  note ids = state_ids_lookup [OF assms]
  have xs: "sorted ?xs" "distinct ?xs" "set ?xs = dom (state_lookup job task fs)"
    using ids by (simp_all add: distinct_map image_image)
  have "snd e = state_file (fst e)" if "e \<in> set (take ?k (sort_key fst ?ids))" for e
    using ids(1) in_set_takeD [OF that] by auto
  then have "map snd (take ?k (sort_key fst ?ids)) = map state_file (take ?k ?xs)" by (simp add: take_map)
  then have "snd ` set (take ?k (sort_key fst ?ids)) = state_file ` set (take ?k ?xs)" by (metis list.set_map)
  then have names: "state_file i \<in> snd ` set (take ?k (sort_key fst ?ids)) \<longleftrightarrow> i \<in> set (take ?k ?xs)" for i
    by auto
  have "set (take ?k ?xs) \<inter> set (drop ?k ?xs) = {}" "set ?xs = set (take ?k ?xs) \<union> set (drop ?k ?xs)"
    using xs(2) set_append [of "take ?k ?xs" "drop ?k ?xs"]
    by (simp_all del: set_append add: set_take_disj_set_drop_if_distinct)
  with xs(3) have "state_lookup job task (prune_dir st (task_dir job task) fs) =
      state_lookup job task fs |` set (drop ?k ?xs)"
    by (auto simp: fun_eq_iff restrict_map_def state_lookup_def prune_dir_read names)
  with keep_newest_sorted [OF xs(1,2) xs(3) [symmetric], of "ss_retained st"] show ?thesis by simp
qed

definition save_state :: "state_store \<Rightarrow> string \<Rightarrow> string \<Rightarrow> nat \<Rightarrow> 'b list \<Rightarrow> 'b fs \<Rightarrow> 'b fs" where
  "save_state st job task i bs fs = snd (save_checkpoint st None job task i bs fs)"

lemma write_state:
  assumes "state_inv job task fs" and "i \<le> u64_max"
    and "fs1 = exec_ops (atomic_write (task_dir job task) (state_tmp i) (state_file i) bs) fs"
  shows "state_inv job task fs1" "state_lookup job task fs1 = (state_lookup job task fs)(i \<mapsto> bs)"
proof -
  show "state_inv job task fs1"
    using assms(1,2) fs_wf_exec_ops unfolding assms(3) state_inv_def by (auto simp: atomic_write_result)
  show "state_lookup job task fs1 = (state_lookup job task fs)(i \<mapsto> bs)"
    using assms(2) unfolding assms(3) by (auto simp: state_lookup_def fun_eq_iff atomic_write_result)
qed

interpretation state_store:
  snapshot_store "state_inv job task" "\<lambda>i _. i \<le> u64_max" "state_lookup job task"
    "save_state (with_retention r) job task" "load_latest_checkpoint job task" "max r 1"
  for job task r
proof
  fix fs :: "'b fs" and i bs
  assume inv: "state_inv job task fs"
  show "finite (dom (state_lookup job task fs))"
    using state_ids_lookup(1) [OF inv] by (metis List.finite_set finite_imageD inj_onI prod.inject)
  show "newest (state_lookup job task fs) (load_latest_checkpoint job task fs)"
    using inv by (rule load_latest_newest)
  assume i: "i \<le> u64_max"
  note w = write_state [OF inv i refl, of bs]
  show "state_inv job task (save_state (with_retention r) job task i bs fs)"
    using prune_dir_inv [OF w(1)] by (simp add: save_state_def save_checkpoint_def attempt_def)
  show "state_lookup job task (save_state (with_retention r) job task i bs fs) =
      keep_newest (max r 1) ((state_lookup job task fs)(i \<mapsto> bs))"
    using prune_dir_lookup [OF w(1)] w(2)
    by (simp add: save_state_def save_checkpoint_def attempt_def with_retention_def)
qed simp

section \<open>Modification times\<close>

text \<open>All readable modification times of the files in a tree.\<close>

fun file_times :: "node \<Rightarrow> nat list" and entry_times :: "(string \<times> node) list \<Rightarrow> nat list" where
  "file_times (File t) = (if t = 0 then [] else [t])"
| "file_times (Dir es) = entry_times es"
| "entry_times [] = []"
| "entry_times ((_, e) # es) = file_times e @ entry_times es"

definition newest_of :: "nat list \<Rightarrow> nat" where
  "newest_of ts = fold max ts 0"

lemma newest_of_append [simp]: "newest_of (xs @ ys) = max (newest_of xs) (newest_of ys)"
proof -
  have "fold max zs (max a b) = max a (fold max zs (b::nat))" for zs a b
    by (induction zs arbitrary: b) (simp_all, metis max.left_commute)
  from this [of ys "fold max xs 0" 0] show ?thesis by (simp add: newest_of_def)
qed

lemma newest_of_ge: "t \<in> set ts \<Longrightarrow> t \<le> newest_of ts"
proof (induction ts)
  case (Cons x ts)
  have "newest_of (x # ts) = max (newest_of [x]) (newest_of ts)" using newest_of_append [of "[x]" ts] by simp
  with Cons show ?case by (auto simp: newest_of_def)
qed simp

lemma newest_mtime_times:
  "newest_mtime e = (if is_dir e \<and> newest_of (file_times e) \<noteq> 0 then Some (newest_of (file_times e)) else None)"
  "entries_mtime es best =
     (if es = [] then best else Some (max (case best of None \<Rightarrow> 0 | Some b \<Rightarrow> b) (newest_of (entry_times es))))"
proof (induction e and es best rule: newest_mtime_entries_mtime.induct)
  case (4 uu e es best)
  have m: "(case e of File t \<Rightarrow> t | Dir _ \<Rightarrow> (case newest_mtime e of None \<Rightarrow> 0 | Some t \<Rightarrow> t)) = newest_of (file_times e)"
    using 4(1) by (cases e) (auto simp: is_dir_def newest_of_def)
  have nil: "newest_of [] = 0" by (simp add: newest_of_def)
  from 4(2) [OF m [symmetric]] show ?case
    by (simp only: entries_mtime.simps Let_def m) (auto simp: nil max.assoc split: option.split)
qed (auto simp: is_dir_def newest_of_def)

section \<open>Properties\<close>

text \<open>A system call changes the listing of its own directory only.\<close>

fun op_dir :: "'b fs_op \<Rightarrow> path" where
  "op_dir (Create_Dir_All p) = p"
| "op_dir (Create_File p n) = p"
| "op_dir (Write_All p n bs) = p"
| "op_dir (Open_Append p n) = p"
| "op_dir (Append_All p n bs) = p"
| "op_dir (Sync_All p n) = p"
| "op_dir (Rename p a b) = p"
| "op_dir (Remove_File p n) = p"

lemma exec_op_other: "q \<noteq> op_dir oper \<Longrightarrow> read_dir (exec_op oper fs) q = read_dir fs q"
  by (cases oper) (auto simp: hm_simps split: option.splits)

lemma fold_other:
  assumes "\<forall>x\<in>set xs. op_dir (f x) = p" and "q \<noteq> p"
  shows "read_dir (fold (\<lambda>x. exec_op (f x)) xs fs) q = read_dir fs q"
  using assms by (induction xs arbitrary: fs) (simp_all add: exec_op_other)

lemma prune_dir_other: "q \<noteq> p \<Longrightarrow> read_dir (prune_dir st p fs) q = read_dir fs q"
  unfolding prune_dir_def Let_def by (simp add: fold_other [where f = "\<lambda>e. Remove_File p (snd e)" and p = p] del: exec_op.simps)

lemma save_state_other:
  assumes "q \<noteq> task_dir job task"
  shows "read_dir (save_state st job task i bs fs) q = read_dir fs q"
proof -
  let ?ops = "atomic_write (task_dir job task) (state_tmp i) (state_file i) bs"
  have "read_dir (exec_ops ?ops fs) q = read_dir fs q"
    using fold_other [of ?ops id "task_dir job task" q fs] assms
    by (simp add: exec_ops_def atomic_write_def del: exec_op.simps)
  with assms show ?thesis by (simp add: save_state_def save_checkpoint_def attempt_def prune_dir_other)
qed



text \<open>
  A save that fails or dies half way changes no snapshot: whatever a restart could read of any
  task before, it reads afterwards.
\<close>

theorem failed_save_keeps_state:
  assumes "state_inv job task fs" and "save_checkpoint st fault job task i bs fs = (False, fs')"
  shows "state_inv job task fs' \<and> state_lookup job' task' fs' = state_lookup job' task' fs"
proof -
  have "fs' \<in> set (crash_states (atomic_write (task_dir job task) (state_tmp i) (state_file i) bs) fs)"
    using assms(2) by (auto simp: save_checkpoint_def attempt_def split: option.splits if_splits prod.splits bool.splits)
  note c = atomic_write_crash [OF this] fs_wf_crash [OF _ this]
  have n: "hm_get (read_dir fs' q) (state_file j) = hm_get (read_dir fs q) (state_file j)" for q j by (rule c(1)) simp
  have "n = state_file j \<and> j \<le> u64_max"
    if "hm_get (read_dir fs' (task_dir job task)) n \<noteq> None" "parse_state_file n = Some j" for n j
  proof -
    have "n \<noteq> state_tmp i" using that(2) by auto
    with that assms(1) c(1) [of n] show ?thesis by (simp add: state_inv_def)
  qed
  then have "state_inv job task fs'" using assms(1) c(2) by (auto simp: state_inv_def)
  with n show ?thesis by (auto simp: state_lookup_def fun_eq_iff)
qed

theorem failed_save_keeps_state_witness:
  "\<exists>fs'. save_checkpoint state_store_new (Some 3) ''j'' ''t'' 5 [True] hm_empty = (False, fs') \<and>
     state_lookup ''j'' ''t'' fs' = state_lookup ''j'' ''t'' hm_empty"
proof -
  have inv: "state_inv ''j'' ''t'' (hm_empty :: bool fs)"
    by (simp add: state_inv_def fs_wf_def read_dir_def)
  obtain fs' where s: "save_checkpoint state_store_new (Some 3) ''j'' ''t'' 5 [True] hm_empty = (False, fs')"
    by (simp add: save_checkpoint_def attempt_def atomic_write_def)
  from failed_save_keeps_state [OF inv s] s show ?thesis by blast
qed

definition doomed :: "nat \<Rightarrow> nat \<Rightarrow> (string \<Rightarrow> bool) \<Rightarrow> string \<times> node \<Rightarrow> bool" where
  "doomed now ttl removable = (\<lambda>(job, e).
     removable job \<and> (case newest_mtime e of None \<Rightarrow> True | Some t \<Rightarrow> ttl \<le> now - t))"

lemma sweep_fold:
  "snd (fold (sweep_one now ttl removable) ds (removed, root)) =
     filter (\<lambda>(name, _). \<not> list_ex (\<lambda>(job, e). job = name \<and> doomed now ttl removable (job, e)) ds) root"
proof (induction ds arbitrary: removed root)
  case (Cons d ds)
  obtain job e where d: "d = (job, e)" by (cases d)
  have "snd (sweep_one now ttl removable d (removed, root)) =
      (if doomed now ttl removable d then filter (\<lambda>(name, _). name \<noteq> job) root else root)"
    by (auto simp: d sweep_one_def doomed_def Let_def split: option.split)
  moreover obtain r' root' where "sweep_one now ttl removable d (removed, root) = (r', root')"
    by (cases "sweep_one now ttl removable d (removed, root)")
  ultimately have "snd (fold (sweep_one now ttl removable) (d # ds) (removed, root)) =
      filter (\<lambda>(name, _). \<not> list_ex (\<lambda>(job, e). job = name \<and> doomed now ttl removable (job, e)) ds)
        (if doomed now ttl removable d then filter (\<lambda>(name, _). name \<noteq> job) root else root)"
    using Cons.IH [of r' root'] by simp
  then show ?case by (auto simp: d intro!: filter_cong)
qed (simp add: case_prod_beta)

lemma newest_of_in: "newest_of ts = 0 \<or> newest_of ts \<in> set ts"
proof (induction ts)
  case (Cons x ts)
  have "newest_of (x # ts) = max (newest_of [x]) (newest_of ts)" using newest_of_append [of "[x]" ts] by simp
  with Cons show ?case by (auto simp: newest_of_def max_def)
qed (simp add: newest_of_def)

lemma file_times_pos: "t \<in> set (file_times e) \<Longrightarrow> 0 < t" "t \<in> set (entry_times es) \<Longrightarrow> 0 < t"
  by (induction e and es rule: file_times_entry_times.induct) (auto split: if_splits)

lemma doomed_iff:
  assumes "is_dir e"
  shows "doomed now ttl removable (name, e) \<longleftrightarrow> removable name \<and> \<not> (\<exists>t\<in>set (file_times e). now - t < ttl)"
proof (cases "newest_of (file_times e) = 0")
  case True
  then have "t \<notin> set (file_times e)" for t
    using newest_of_ge [of t "file_times e"] file_times_pos(1) [of t e] by (metis leD)
  with True show ?thesis by (auto simp: doomed_def newest_mtime_times(1))
next
  case False
  then have "newest_of (file_times e) \<in> set (file_times e)" using newest_of_in [of "file_times e"] by simp
  moreover have "now - newest_of (file_times e) \<le> now - t" if "t \<in> set (file_times e)" for t
    using newest_of_ge [OF that] by simp
  ultimately show ?thesis
    using False assms by (auto simp: doomed_def newest_mtime_times(1)) (meson leD leI order_trans)+
qed

definition demo_root :: "(string \<times> node) list" where
  "demo_root =
     [(''raft'', Dir []), (''old'', Dir [(''t0'', Dir [(''cp-1.state'', File 10)])]), (''empty'', Dir [(''t0'', Dir [])]),
      (''live'', Dir [(''t0'', Dir [(''cp-1.state'', File 10), (''cp-2.state'', File 70)])])]"

text \<open>
  The sweep removes expired jobs and nothing else. What is left under the root is exactly every
  file, every reserved directory, every directory that could not be deleted, and every job with a file
  younger than the time to live.
\<close>

theorem sweep_keeps_live_jobs:
  assumes "distinct (map fst root)" and "sweep_expired now ttl removable root = (removed, rest)"
  shows "(name, e) \<in> set rest \<longleftrightarrow>
    (name, e) \<in> set root \<and>
    (\<not> is_dir e \<or> name \<in> set RESERVED_DIRS \<or> \<not> removable name \<or>
     (\<exists>t\<in>set (file_times e). now - t < ttl))"
proof -
  have "rest = filter (\<lambda>(name, _). \<not> list_ex (\<lambda>(job, e). job = name \<and> doomed now ttl removable (job, e)) (job_dirs root)) root"
    using sweep_fold [of now ttl removable "job_dirs root" "[]" root] assms(2) by (simp add: sweep_expired_def)
  moreover have "list_ex (\<lambda>(job, e'). job = name \<and> doomed now ttl removable (job, e')) (job_dirs root) \<longleftrightarrow>
      is_dir e \<and> name \<notin> set RESERVED_DIRS \<and> doomed now ttl removable (name, e)" if "(name, e) \<in> set root"
    using that assms(1) by (auto simp: list_ex_iff job_dirs_def dest: eq_key_imp_eq_value)
  ultimately show ?thesis by (auto simp: doomed_iff)
qed

theorem sweep_keeps_live_jobs_witness:
  "sweep_expired 100 50 (\<lambda>_. True) demo_root =
     ([''old'', ''empty''], [(''raft'', Dir []), (''live'', Dir [(''t0'', Dir [(''cp-1.state'', File 10), (''cp-2.state'', File 70)])])]) \<and>
   (''live'', Dir [(''t0'', Dir [(''cp-1.state'', File 10), (''cp-2.state'', File 70)])])
     \<in> set (snd (sweep_expired 100 50 (\<lambda>_. True) demo_root))"
proof
  show e: "sweep_expired 100 50 (\<lambda>_. True) demo_root =
     ([''old'', ''empty''], [(''raft'', Dir []), (''live'', Dir [(''t0'', Dir [(''cp-1.state'', File 10), (''cp-2.state'', File 70)])])])"
    by (simp add: sweep_expired_def demo_root_def job_dirs_def RESERVED_DIRS_def is_dir_def sweep_one_def)
  have "distinct (map fst demo_root)" by (simp add: demo_root_def)
  from sweep_keeps_live_jobs [OF this prod.collapse [symmetric]]
  show "(''live'', Dir [(''t0'', Dir [(''cp-1.state'', File 10), (''cp-2.state'', File 70)])])
     \<in> set (snd (sweep_expired 100 50 (\<lambda>_. True) demo_root))"
    by (simp add: demo_root_def)
qed

end
