(* ===== verification/Sample_Codecs.thy ===== *)
theory Sample_Codecs
  imports Json "HOL-Library.Word"
begin

text \<open>
  Concrete encodings of data as bytes, built from readers that give back what a writer wrote. The
  components take \<open>serde_json\<close> as a parameter with a round-trip law; these encodings satisfy such laws,
  so that statements with a law as hypothesis have an instance.
\<close>

type_synonym octets = "8 word list"

text \<open>Length-prefixed bytes, lengths in unary: an encoding that satisfies the laws asked of \<open>serde_json\<close>.\<close>

type_synonym 'a parser = "octets \<Rightarrow> 'a \<times> octets"

definition reads :: "'a parser \<Rightarrow> ('a \<Rightarrow> octets) \<Rightarrow> bool" where
  "reads p e \<longleftrightarrow> (\<forall>x r. p (e x @ r) = (x, r))"

definition e_nat :: "nat \<Rightarrow> octets" where
  "e_nat n = replicate n 1 @ [0]"

definition p_nat :: "nat parser" where
  "p_nat bs = (length (takeWhile (\<lambda>b. b = 1) bs), tl (dropWhile (\<lambda>b. b = 1) bs))"

fun p_many :: "'a parser \<Rightarrow> nat \<Rightarrow> 'a list parser" where
  "p_many p 0 bs = ([], bs)"
| "p_many p (Suc n) bs = (case p bs of (x, r) \<Rightarrow> case p_many p n r of (xs, r') \<Rightarrow> (x # xs, r'))"

definition e_list :: "('a \<Rightarrow> octets) \<Rightarrow> 'a list \<Rightarrow> octets" where
  "e_list e xs = e_nat (length xs) @ concat (map e xs)"

definition p_list :: "'a parser \<Rightarrow> 'a list parser" where
  "p_list p bs = (case p_nat bs of (n, r) \<Rightarrow> p_many p n r)"

definition e_pair :: "('a \<Rightarrow> octets) \<Rightarrow> ('b \<Rightarrow> octets) \<Rightarrow> 'a \<times> 'b \<Rightarrow> octets" where
  "e_pair e e' = (\<lambda>(x, y). e x @ e' y)"

definition p_pair :: "'a parser \<Rightarrow> 'b parser \<Rightarrow> ('a \<times> 'b) parser" where
  "p_pair p p' bs = (case p bs of (x, r) \<Rightarrow> case p' r of (y, r') \<Rightarrow> ((x, y), r'))"

definition e_char :: "char \<Rightarrow> octets" where
  "e_char ch = [word_of_nat (of_char ch)]"

definition p_char :: "char parser" where
  "p_char bs = (char_of (unat (hd bs)), tl bs)"

definition e_byte :: "8 word \<Rightarrow> octets" where
  "e_byte b = [b]"

definition p_byte :: "8 word parser" where
  "p_byte bs = (hd bs, tl bs)"

lemma reads_nat: "reads p_nat e_nat"
proof -
  have "takeWhile (\<lambda>b. b = 1) (replicate n 1 @ (0::8 word) # r) = replicate n 1"
    "dropWhile (\<lambda>b. b = 1) (replicate n 1 @ (0::8 word) # r) = 0 # r" for n r
    by (induction n) simp_all
  then show ?thesis by (simp add: reads_def p_nat_def e_nat_def)
qed

lemma reads_list: "reads p e \<Longrightarrow> reads (p_list p) (e_list e)"
proof -
  assume p: "reads p e"
  have "p_many p (length xs) (concat (map e xs) @ r) = (xs, r)" for xs r
    using p by (induction xs) (simp_all add: reads_def)
  then show ?thesis using reads_nat by (simp add: reads_def p_list_def e_list_def)
qed

lemma reads_pair: "reads p e \<Longrightarrow> reads p' e' \<Longrightarrow> reads (p_pair p p') (e_pair e e')"
  by (auto simp: reads_def p_pair_def e_pair_def)

lemma reads_char: "reads p_char e_char"
proof -
  have "unat (word_of_nat (of_char ch) :: 8 word) = of_char ch" for ch
    by (simp add: unat_of_nat)
  then show ?thesis by (simp add: reads_def p_char_def e_char_def)
qed

lemma reads_byte: "reads p_byte e_byte"
  by (simp add: reads_def p_byte_def e_byte_def)


section \<open>JSON values\<close>

fun e_json :: "json \<Rightarrow> octets" where
  "e_json JNull = e_nat 0"
| "e_json (JBool b) = e_nat 1 @ e_nat (if b then 1 else 0)"
| "e_json (JInt n) = e_nat 2 @ e_nat (if n < 0 then 1 else 0) @ e_nat (nat \<bar>n\<bar>)"
| "e_json (JFloat t) = e_nat 3 @ e_list e_char t"
| "e_json (JString s) = e_nat 4 @ e_list e_char s"
| "e_json (JArray xs) = e_nat 5 @ e_nat (length xs) @ concat (map e_json xs)"
| "e_json (JObject m) = e_nat 6 @ e_nat (length m) @ concat (map (\<lambda>(k, v). e_list e_char k @ e_json v) m)"

fun p_json :: "nat \<Rightarrow> json parser" where
  "p_json 0 bs = (JNull, bs)"
| "p_json (Suc n) bs =
     (case p_nat bs of (tag, r) \<Rightarrow>
      if tag = 1 then (case p_nat r of (b, r') \<Rightarrow> (JBool (b = 1), r'))
      else if tag = 2 then
        (case p_nat r of (sg, r') \<Rightarrow> case p_nat r' of (k, r'') \<Rightarrow> (JInt (if sg = 1 then - int k else int k), r''))
      else if tag = 3 then (case p_list p_char r of (t, r') \<Rightarrow> (JFloat t, r'))
      else if tag = 4 then (case p_list p_char r of (t, r') \<Rightarrow> (JString t, r'))
      else if tag = 5 then (case p_list (p_json n) r of (xs, r') \<Rightarrow> (JArray xs, r'))
      else if tag = 6 then (case p_list (p_pair (p_list p_char) (p_json n)) r of (m, r') \<Rightarrow> (JObject m, r'))
      else (JNull, r))"

lemma p_many_on:
  "(\<And>x r. x \<in> set xs \<Longrightarrow> p (e x @ r) = (x, r)) \<Longrightarrow> p_many p (length xs) (concat (map e xs) @ r) = (xs, r)"
  by (induction xs arbitrary: r) simp_all

lemma p_nat_e_nat: "p_nat (e_nat n @ r) = (n, r)"
  using reads_nat by (simp add: reads_def)

lemma p_chars: "p_list p_char (e_list e_char s @ r) = (s, r)"
  using reads_list [OF reads_char] by (simp add: reads_def)

lemma p_json_e_json: "size v < n \<Longrightarrow> p_json n (e_json v @ r) = (v, r)"
proof (induction n arbitrary: v r)
  case (Suc n)
  show ?case
  proof (cases v)
    case (JArray xs)
    have "p_json n (e_json x @ r) = (x, r)" if "x \<in> set xs" for x r
      using that Suc JArray size_list_estimation' [OF that, of "size x" size] by (intro Suc.IH) simp
    then show ?thesis using JArray by (simp add: p_nat_e_nat p_list_def p_many_on)
  next
    case (JObject m)
    let ?e = "\<lambda>(k, v). e_list e_char k @ e_json v"
    have "p_pair (p_list p_char) (p_json n) (?e x @ r) = (x, r)" if x: "x \<in> set m" for x r
    proof -
      obtain k v' where kv: "x = (k, v')" by (cases x)
      have "size v' < size (JObject m)"
        using x kv by (auto dest!: split_list)
      then have "p_json n (e_json v' @ r) = (v', r)" for r using Suc JObject by (intro Suc.IH) simp
      with kv show ?thesis by (simp add: p_pair_def p_chars)
    qed
    then show ?thesis using JObject p_many_on [of m _ ?e] by (simp add: p_nat_e_nat p_list_def)
  qed (auto simp: p_nat_e_nat p_chars)
qed simp

lemma length_concat_ge: "(\<And>x. x \<in> set xs \<Longrightarrow> g x < length (f x)) \<Longrightarrow> size_list g xs \<le> length xs + length (concat (map f xs))"
  by (induction xs) fastforce+

lemma size_e_json: "size v < length (e_json v)"
proof (induction v)
  case (JArray xs)
  then show ?case using length_concat_ge [of xs size e_json] by (simp add: e_nat_def)
next
  case (JObject m)
  let ?e = "\<lambda>(k, v). e_list e_char k @ e_json v"
  have "size_prod (\<lambda>_. 0) size x < length (?e x)" if "x \<in> set m" for x
  proof -
    obtain k v where "x = (k, v)" by (cases x)
    with JObject [of x v] that show ?thesis by (simp add: e_list_def e_nat_def)
  qed
  then have "size_list (size_prod (\<lambda>_. 0) size) m \<le> length m + length (concat (map ?e m))"
    by (rule length_concat_ge)
  then show ?case by (simp add: e_nat_def)
qed (simp_all add: e_nat_def)

definition sample_from_slice :: "octets \<Rightarrow> json option" where
  "sample_from_slice bs = Some (fst (p_json (length bs) bs))"

lemma sample_json_roundtrip: "sample_from_slice (e_json v) = Some v"
  using p_json_e_json [OF size_e_json, of v "[]"] by (simp add: sample_from_slice_def)

end
