(* ===== verification/Fanout.thy ===== *)
theory Fanout
  imports Task_Group_Runs Job_Planner Sample_Codecs
begin

text \<open>
  The fan-out sink (\<open>fanout.rs\<close>, and \<open>create_sink_pipeline\<close> of \<open>connector_factory.rs\<close>): one sink writer
  that forwards every row to several inner writers, each on a task of its own behind a bounded channel,
  and a committer that routes phase 2 to the inner committers. It implements the same operations as
  any other sink (\<open>sink_ops\<close>), so it can stand in a task group.

  The inner writers are parameters, and so is the schedule: at every interaction with a writer task,
  \<open>fo_sched\<close> says how many commands the task processed in the meantime, whether it had an idle tick,
  whether the wait runs into its timeout, and whether the error registry is locked. A statement about
  every schedule covers every interleaving of the writer tasks with the task loop.
\<close>

section \<open>Writer tasks\<close>

definition FANOUT_CHANNEL_CAPACITY :: nat where
  "FANOUT_CHANNEL_CAPACITY = 1024"

datatype sink_failure_policy = Fail | Isolate

definition parse_policy :: "string \<Rightarrow> sink_failure_policy" where
  "parse_policy s =
     (if map to_lower (trim s) \<in> {''isolate'', ''skip'', ''continue''} then Isolate else Fail)"

datatype ('r, 'e) sink_command =
    Open
  | Write 'r
  | SchemaChange 'e
  | PrepareCommit nat
  | SnapshotState
  | Close

datatype ack = Ack_Unit | Ack_Infos "bytes list" | Ack_State bytes

text \<open>
  An inner writer: its operations, and on which command (or idle tick, \<open>None\<close>) it panics, with the
  message. \<open>wk_sent\<close>, \<open>wk_written\<close> and \<open>wk_prepared\<close> are a history that no operation reads: the rows put
  into the channel, the rows written, and the commit infos prepared.
\<close>

record ('s, 'r, 'e) worker =
  wk_ops :: "('s, 'r, 'e) sink_ops"
  wk_panics :: "('r, 'e) sink_command option \<Rightarrow> 's \<Rightarrow> string option"
  wk_state :: 's
  wk_queue :: "('r, 'e) sink_command list"
  wk_exited :: bool
  wk_sent :: "'r list"
  wk_written :: "'r list"
  wk_prepared :: "(nat \<times> bytes list) list"

definition perform :: "('s, 'r, 'e) sink_ops \<Rightarrow> ('r, 'e) sink_command \<Rightarrow> ('s, ack) op" where
  "perform ops cmd s =
     (case cmd of
        Open \<Rightarrow> (case sk_open ops s of (r, s1) \<Rightarrow> (map_sum id (\<lambda>_. Ack_Unit) r, s1))
      | Write row \<Rightarrow> (case sk_write ops row s of (r, s1) \<Rightarrow> (map_sum id (\<lambda>_. Ack_Unit) r, s1))
      | SchemaChange e \<Rightarrow> (case sk_apply_schema_change ops e s of (r, s1) \<Rightarrow> (map_sum id (\<lambda>_. Ack_Unit) r, s1))
      | PrepareCommit i \<Rightarrow> (case sk_prepare_commit ops i s of (r, s1) \<Rightarrow> (map_sum id Ack_Infos r, s1))
      | SnapshotState \<Rightarrow> (case sk_snapshot_state ops s of (r, s1) \<Rightarrow> (map_sum id Ack_State r, s1))
      | Close \<Rightarrow> (case sk_close ops s of (r, s1) \<Rightarrow> (map_sum id (\<lambda>_. Ack_Unit) r, s1)))"

text \<open>A task that ends drops its end of the channel with the commands still in it.\<close>

definition exit_worker :: "('s, 'r, 'e) worker \<Rightarrow> ('s, 'r, 'e) worker" where
  "exit_worker w = w\<lparr>wk_queue := [], wk_exited := True\<rparr>"

definition panic_text :: "string \<Rightarrow> string" where
  "panic_text msg = ''writer task panicked: '' @ msg"

text \<open>One command: the error the task records when it dies, the answer it sends, and the task after.\<close>

definition worker_step ::
    "('s, 'r, 'e) worker \<Rightarrow> string option \<times> (string + ack) option \<times> ('s, 'r, 'e) worker" where
  "worker_step w =
     (case wk_queue w of
        [] \<Rightarrow> (None, None, w)
      | cmd # q \<Rightarrow>
          (case wk_panics w (Some cmd) (wk_state w) of
             Some msg \<Rightarrow> (Some (panic_text msg), None, exit_worker w)
           | None \<Rightarrow>
               (case perform (wk_ops w) cmd (wk_state w) of
                  (r, s) \<Rightarrow>
                    let w1 = w\<lparr>wk_state := s, wk_queue := q\<rparr> in
                    (case cmd of
                       Write row \<Rightarrow>
                         (case r of
                            Inl e \<Rightarrow> (Some e, None, exit_worker w1)
                          | Inr _ \<Rightarrow> (None, None, w1\<lparr>wk_written := wk_written w @ [row]\<rparr>))
                     | Close \<Rightarrow> (None, Some r, exit_worker w1)
                     | PrepareCommit i \<Rightarrow>
                         (None, Some r,
                          (case r of Inr (Ack_Infos infos) \<Rightarrow> w1\<lparr>wk_prepared := wk_prepared w @ [(i, infos)]\<rparr> | _ \<Rightarrow> w1))
                     | _ \<Rightarrow> (None, Some r, w1)))))"

definition worker_idle :: "('s, 'r, 'e) worker \<Rightarrow> string option \<times> ('s, 'r, 'e) worker" where
  "worker_idle w =
     (if wk_exited w \<or> wk_queue w \<noteq> [] then (None, w)
      else case wk_panics w None (wk_state w) of
             Some msg \<Rightarrow> (Some (panic_text msg), exit_worker w)
           | None \<Rightarrow>
               (case sk_poll_flush (wk_ops w) (wk_state w) of
                  (Inl e, s) \<Rightarrow> (Some e, exit_worker (w\<lparr>wk_state := s\<rparr>))
                | (Inr _, s) \<Rightarrow> (None, w\<lparr>wk_state := s\<rparr>)))"

definition later :: "'a option \<Rightarrow> 'a option \<Rightarrow> 'a option" where
  "later a b = (case b of None \<Rightarrow> a | Some _ \<Rightarrow> b)"

fun run_worker ::
    "nat \<Rightarrow> ('s, 'r, 'e) worker \<Rightarrow> string option \<times> (string + ack) option \<times> ('s, 'r, 'e) worker" where
  "run_worker 0 w = (None, None, w)"
| "run_worker (Suc n) w =
     (case worker_step w of (err, ack, w1) \<Rightarrow>
      case run_worker n w1 of (err', ack', w2) \<Rightarrow> (later err err', later ack ack', w2))"

section \<open>The multiplexer\<close>

record sched =
  sc_steps :: nat
  sc_idle :: bool
  sc_timeout :: bool
  sc_locked :: bool

record ('s, 'r, 'e) sink_handle =
  sh_name :: string
  sh_worker :: "('s, 'r, 'e) worker"
  sh_tx :: bool
  sh_spawned :: bool
  sh_dead :: bool

record ('s, 'r, 'e) fanout =
  fo_policy :: sink_failure_policy
  fo_handles :: "('s, 'r, 'e) sink_handle list"
  fo_errors :: "(string, string) hashmap"
  fo_timeout_text :: string
  fo_sched :: "nat \<Rightarrow> sched"
  fo_clock :: nat

type_synonym ('s, 'r, 'e, 'a) fanout_op = "(('s, 'r, 'e) fanout, 'a) op"

definition new_worker ::
    "('s, 'r, 'e) sink_ops \<times> (('r, 'e) sink_command option \<Rightarrow> 's \<Rightarrow> string option) \<times> 's \<Rightarrow> ('s, 'r, 'e) worker" where
  "new_worker = (\<lambda>(ops, panics, s).
     \<lparr>wk_ops = ops, wk_panics = panics, wk_state = s, wk_queue = [], wk_exited = False,
      wk_sent = [], wk_written = [], wk_prepared = []\<rparr>)"

definition with_ack_timeout ::
    "(string \<times> ('s, 'r, 'e) worker) list \<Rightarrow> sink_failure_policy \<Rightarrow> string \<Rightarrow> (nat \<Rightarrow> sched) \<Rightarrow> ('s, 'r, 'e) fanout" where
  "with_ack_timeout writers policy timeout_text sched =
     \<lparr>fo_policy = policy,
      fo_handles =
        map (\<lambda>(name, w). \<lparr>sh_name = name, sh_worker = w, sh_tx = False, sh_spawned = False, sh_dead = False\<rparr>) writers,
      fo_errors = hm_empty, fo_timeout_text = timeout_text, fo_sched = sched, fo_clock = 0\<rparr>"

definition alive :: "('s, 'r, 'e) fanout \<Rightarrow> nat list" where
  "alive f = filter (\<lambda>i. \<not> sh_dead (fo_handles f ! i)) [0..<length (fo_handles f)]"

definition set_handle :: "nat \<Rightarrow> ('s, 'r, 'e) sink_handle \<Rightarrow> ('s, 'r, 'e) fanout \<Rightarrow> ('s, 'r, 'e) fanout" where
  "set_handle i h f = f\<lparr>fo_handles := (fo_handles f)[i := h]\<rparr>"

definition quoted :: "string \<Rightarrow> string" where
  "quoted s = CHR 0x27 # s @ [CHR 0x27]"

definition mark_sink_dead :: "nat \<Rightarrow> string \<Rightarrow> ('s, 'r, 'e, unit) fanout_op" where
  "mark_sink_dead i reason f =
     (let h = fo_handles f ! i in
      if sh_dead h then (Inr (), f)
      else
        let f1 = set_handle i (h\<lparr>sh_dead := True\<rparr>) f in
        case fo_policy f of
          Fail \<Rightarrow> (Inl (''fan-out sink '' @ quoted (sh_name h) @ '' failed (on-sink-failure=fail): '' @ reason), f1)
        | Isolate \<Rightarrow> (Inr (), f1))"

definition op_text :: "string \<Rightarrow> string \<Rightarrow> string" where
  "op_text reason oper = reason @ '' (op: '' @ oper @ '')''"

definition on_channel_closed :: "sched \<Rightarrow> nat \<Rightarrow> string \<Rightarrow> ('s, 'r, 'e, unit) fanout_op" where
  "on_channel_closed sc i oper f =
     (let reason =
        (if sc_locked sc then ''writer task terminated''
         else case hm_get (fo_errors f) (sh_name (fo_handles f ! i)) of
                None \<Rightarrow> ''writer task terminated''
              | Some e \<Rightarrow> e)
      in mark_sink_dead i (op_text reason oper) f)"

definition record_error :: "nat \<Rightarrow> string option \<Rightarrow> ('s, 'r, 'e) fanout \<Rightarrow> ('s, 'r, 'e) fanout" where
  "record_error i err f =
     (case err of
        None \<Rightarrow> f
      | Some e \<Rightarrow> f\<lparr>fo_errors := hm_insert (sh_name (fo_handles f ! i)) e (fo_errors f)\<rparr>)"

text \<open>What writer task \<open>i\<close> does on its own: some commands, perhaps an idle tick.\<close>

definition progress ::
    "nat \<Rightarrow> nat \<Rightarrow> bool \<Rightarrow> ('s, 'r, 'e) fanout \<Rightarrow> (string + ack) option \<times> ('s, 'r, 'e) fanout" where
  "progress i n idle f =
     (let h = fo_handles f ! i in
      if wk_exited (sh_worker h) then (None, f)
      else
        (case run_worker n (sh_worker h) of (err, ack, w1) \<Rightarrow>
         case (if idle then worker_idle w1 else (None, w1)) of (err', w2) \<Rightarrow>
           (ack, record_error i (later err err') (set_handle i (h\<lparr>sh_worker := w2\<rparr>) f))))"

definition next_sched :: "('s, 'r, 'e) fanout \<Rightarrow> sched \<times> ('s, 'r, 'e) fanout" where
  "next_sched f = (fo_sched f (fo_clock f), f\<lparr>fo_clock := Suc (fo_clock f)\<rparr>)"

definition enqueue :: "nat \<Rightarrow> ('r, 'e) sink_command \<Rightarrow> ('s, 'r, 'e) fanout \<Rightarrow> ('s, 'r, 'e) fanout" where
  "enqueue i cmd f =
     (let h = fo_handles f ! i; w = sh_worker h in
      set_handle i
        (h\<lparr>sh_worker := w\<lparr>wk_queue := wk_queue w @ [cmd],
           wk_sent := (case cmd of Write r \<Rightarrow> wk_sent w @ [r] | _ \<Rightarrow> wk_sent w)\<rparr>\<rparr>) f)"

text \<open>A command is sent (\<open>Inr True\<close>), or the sink is given up (\<open>Inr False\<close>), or the task fails.\<close>

definition send_command :: "nat \<Rightarrow> ('r, 'e) sink_command \<Rightarrow> string \<Rightarrow> ('s, 'r, 'e, bool) fanout_op" where
  "send_command i cmd oper f =
     (if \<not> sh_tx (fo_handles f ! i) then (Inl ''opened'', f)
      else
        case next_sched f of (sc, f0) \<Rightarrow>
        case progress i (sc_steps sc) (sc_idle sc) f0 of (_, f1) \<Rightarrow>
        let w = sh_worker (fo_handles f1 ! i) in
        if wk_exited w then (case on_channel_closed sc i oper f1 of (r, f2) \<Rightarrow> (map_sum id (\<lambda>_. False) r, f2))
        else if length (wk_queue w) < FANOUT_CHANNEL_CAPACITY then (Inr True, enqueue i cmd f1)
        else if sc_timeout sc then
          (case mark_sink_dead i
                  (''channel send timed out after '' @ fo_timeout_text f @ '' - the sink writer is hung'') f1 of
             (r, f2) \<Rightarrow> (map_sum id (\<lambda>_. False) r, f2))
        else
          (case progress i 1 False f1 of (_, f2) \<Rightarrow>
             if wk_exited (sh_worker (fo_handles f2 ! i))
             then (case on_channel_closed sc i oper f2 of (r, f3) \<Rightarrow> (map_sum id (\<lambda>_. False) r, f3))
             else (Inr True, enqueue i cmd f2)))"

text \<open>Waiting for the answer of one sink: the answer, or \<open>Inr None\<close> when the sink is given up. When its
  command was not sent, its answer channel is already closed.\<close>

definition await_ack :: "nat \<Rightarrow> bool \<Rightarrow> string \<Rightarrow> ('s, 'r, 'e, ack option) fanout_op" where
  "await_ack i sent oper f =
     (case next_sched f of (sc, f0) \<Rightarrow>
      if \<not> sent then (case on_channel_closed sc i oper f0 of (r, f1) \<Rightarrow> (map_sum id (\<lambda>_. None) r, f1))
      else
        case progress i (sc_steps sc) (sc_idle sc) f0 of (a, f1) \<Rightarrow>
        case (if a = None \<and> \<not> wk_exited (sh_worker (fo_handles f1 ! i)) \<and> \<not> sc_timeout sc
              then progress i (length (wk_queue (sh_worker (fo_handles f1 ! i)))) False f1
              else (a, f1)) of (a', f2) \<Rightarrow>
        (case a' of
           Some (Inr v) \<Rightarrow> (Inr (Some v), f2)
         | Some (Inl e) \<Rightarrow>
             let reason = op_text e oper in
             (case mark_sink_dead i reason (record_error i (Some reason) f2) of
                (r, f3) \<Rightarrow> (map_sum id (\<lambda>_. None) r, f3))
         | None \<Rightarrow>
             (case (if wk_exited (sh_worker (fo_handles f2 ! i)) then on_channel_closed sc i oper f2
                    else mark_sink_dead i
                      (''ack timed out after '' @ fo_timeout_text f @ '' - the sink writer is hung (op: '' @ oper @ '')'') f2) of
                (r, f3) \<Rightarrow> (map_sum id (\<lambda>_. None) r, f3))))"

fun send_all :: "nat list \<Rightarrow> ('r, 'e) sink_command \<Rightarrow> string \<Rightarrow> ('s, 'r, 'e, (nat \<times> bool) list) fanout_op" where
  "send_all [] cmd oper f = (Inr [], f)"
| "send_all (i # is) cmd oper f =
     (case send_command i cmd oper f of
        (Inl e, f1) \<Rightarrow> (Inl e, f1)
      | (Inr sent, f1) \<Rightarrow>
          (case send_all is cmd oper f1 of
             (Inl e, f2) \<Rightarrow> (Inl e, f2)
           | (Inr acks, f2) \<Rightarrow> (Inr ((i, sent) # acks), f2)))"

fun await_all :: "(nat \<times> bool) list \<Rightarrow> string \<Rightarrow> ('s, 'r, 'e, ack list) fanout_op" where
  "await_all [] oper f = (Inr [], f)"
| "await_all ((i, sent) # acks) oper f =
     (case await_ack i sent oper f of
        (Inl e, f1) \<Rightarrow> (Inl e, f1)
      | (Inr a, f1) \<Rightarrow>
          (case await_all acks oper f1 of
             (Inl e, f2) \<Rightarrow> (Inl e, f2)
           | (Inr vs, f2) \<Rightarrow> (Inr (case a of None \<Rightarrow> vs | Some v \<Rightarrow> v # vs), f2)))"

definition broadcast_and_await :: "string \<Rightarrow> ('r, 'e) sink_command \<Rightarrow> ('s, 'r, 'e, ack list) fanout_op" where
  "broadcast_and_await oper cmd f =
     (case send_all (alive f) cmd oper f of
        (Inl e, f1) \<Rightarrow> (Inl e, f1)
      | (Inr acks, f1) \<Rightarrow> await_all acks oper f1)"

definition drop_result :: "(string + 'a) \<times> 'b \<Rightarrow> (string + unit) \<times> 'b" where
  "drop_result = (\<lambda>(r, f). (map_sum id (\<lambda>_. ()) r, f))"

definition spawn_handle :: "('s, 'r, 'e) sink_handle \<Rightarrow> ('s, 'r, 'e) sink_handle" where
  "spawn_handle h = (if sh_tx h then h else h\<lparr>sh_tx := True, sh_spawned := True\<rparr>)"

definition fanout_open :: "('s, 'r, 'e, unit) fanout_op" where
  "fanout_open f =
     drop_result (broadcast_and_await ''open'' Open (f\<lparr>fo_handles := map spawn_handle (fo_handles f)\<rparr>))"

fun send_rows :: "nat list \<Rightarrow> 'r \<Rightarrow> ('s, 'r, 'e, unit) fanout_op" where
  "send_rows [] row f = (Inr (), f)"
| "send_rows (i # is) row f =
     (case send_command i (Write row) ''write'' f of
        (Inl e, f1) \<Rightarrow> (Inl e, f1)
      | (Inr _, f1) \<Rightarrow> send_rows is row f1)"

definition fanout_write :: "'r \<Rightarrow> ('s, 'r, 'e, unit) fanout_op" where
  "fanout_write row f =
     (if alive f = []
      then (Inl ''all fan-out sinks are isolated/dead (on-sink-failure=isolate); rows can no longer be delivered'', f)
      else
        (case send_rows (alive f) row f of
           (Inl e, f1) \<Rightarrow> (Inl e, f1)
         | (Inr _, f1) \<Rightarrow>
             let h = fo_handles f1 ! last (alive f) in
             if sh_dead h
             then (Inl (''fan-out sink '' @ quoted (sh_name h) @
                '' died mid-write under on-sink-failure=isolate and no other sink received the row - failing the task''), f1)
             else (Inr (), f1)))"

text \<open>The entries of an encoded answer: the live sinks in order, each with the answer at its position.\<close>

definition get_or_default :: "'a list \<Rightarrow> nat \<Rightarrow> 'a \<Rightarrow> 'a" where
  "get_or_default xs i d = (if i < length xs then xs ! i else d)"

fun ack_infos :: "ack \<Rightarrow> bytes list" where
  "ack_infos (Ack_Infos infos) = infos"
| "ack_infos _ = []"

fun ack_state :: "ack \<Rightarrow> bytes" where
  "ack_state (Ack_State s) = s"
| "ack_state _ = []"

definition live_entries :: "(ack \<Rightarrow> 'a) \<Rightarrow> 'a \<Rightarrow> ack list \<Rightarrow> ('s, 'r, 'e) fanout \<Rightarrow> (string \<times> 'a) list" where
  "live_entries get d acks f =
     map (\<lambda>(k, i). (sh_name (fo_handles f ! i), get_or_default (map get acks) k d)) (enumerate 0 (alive f))"

text \<open>\<open>serde_json\<close> of the commit-info groups and of the merged writer states.\<close>

record fanout_codec =
  fc_enc :: "(string \<times> bytes list) list \<Rightarrow> bytes"
  fc_dec :: "bytes \<Rightarrow> (string \<times> bytes list) list option"
  fs_enc :: "(string, bytes) hashmap \<Rightarrow> bytes"
  fs_dec :: "bytes \<Rightarrow> (string, bytes) hashmap option"

definition fanout_prepare_commit :: "fanout_codec \<Rightarrow> nat \<Rightarrow> ('s, 'r, 'e, bytes list) fanout_op" where
  "fanout_prepare_commit fc i f =
     (case broadcast_and_await ''prepare_commit'' (PrepareCommit i) f of
        (Inl e, f1) \<Rightarrow> (Inl e, f1)
      | (Inr acks, f1) \<Rightarrow> (Inr [fc_enc fc (live_entries ack_infos [] acks f1)], f1))"

definition fanout_snapshot_state :: "fanout_codec \<Rightarrow> ('s, 'r, 'e, bytes) fanout_op" where
  "fanout_snapshot_state fc f =
     (case broadcast_and_await ''snapshot_state'' SnapshotState f of
        (Inl e, f1) \<Rightarrow> (Inl e, f1)
      | (Inr acks, f1) \<Rightarrow>
          (Inr (fs_enc fc (fold (\<lambda>(n, s). hm_insert n s) (live_entries ack_state [] acks f1) hm_empty)), f1))"

text \<open>Closing never fails; it waits for every task to end, so a task runs its queue to the end.\<close>

definition join_handle :: "('s, 'r, 'e) sink_handle \<Rightarrow> ('s, 'r, 'e) sink_handle" where
  "join_handle h =
     h\<lparr>sh_tx := False, sh_spawned := False,
       sh_worker :=
         (if sh_spawned h \<and> \<not> wk_exited (sh_worker h)
          then exit_worker (snd (snd (run_worker (length (wk_queue (sh_worker h))) (sh_worker h))))
          else sh_worker h)\<rparr>"

definition fanout_close :: "('s, 'r, 'e, unit) fanout_op" where
  "fanout_close f =
     (case broadcast_and_await ''close'' Close f of
        (_, f1) \<Rightarrow> (Inr (), f1\<lparr>fo_handles := map join_handle (fo_handles f1)\<rparr>))"

definition fanout_apply_schema_change :: "'e \<Rightarrow> ('s, 'r, 'e, unit) fanout_op" where
  "fanout_apply_schema_change e f = drop_result (broadcast_and_await ''apply_schema_change'' (SchemaChange e) f)"

text \<open>The multiplexer as a sink; \<open>poll_flush\<close> is the default of the trait.\<close>

definition fanout_ops :: "fanout_codec \<Rightarrow> (('s, 'r, 'e) fanout, 'r, 'e) sink_ops" where
  "fanout_ops fc =
     \<lparr>sk_open = fanout_open, sk_write = fanout_write, sk_apply_schema_change = fanout_apply_schema_change,
      sk_poll_flush = (\<lambda>f. (Inr (), f)), sk_prepare_commit = fanout_prepare_commit fc,
      sk_snapshot_state = fanout_snapshot_state fc, sk_close = fanout_close\<rparr>"

section \<open>The committer\<close>

type_synonym 's fanout_committer = "(string \<times> ('s committer_ops \<times> 's) option) list"

definition fanout_committer_new :: "'s fanout_committer \<Rightarrow> 's fanout_committer option" where
  "fanout_committer_new cs = (if list_ex (\<lambda>(_, c). c \<noteq> None) cs then Some cs else None)"

definition split_infos :: "fanout_codec \<Rightarrow> bytes list \<Rightarrow> string + (string, bytes list) hashmap" where
  "split_infos fc infos =
     (case infos of
        [] \<Rightarrow> Inr hm_empty
      | b # _ \<Rightarrow>
          (case fc_dec fc b of
             None \<Rightarrow> Inl ''fan-out commit info decode''
           | Some entries \<Rightarrow> Inr (fold (\<lambda>(n, i). hm_insert n i) entries hm_empty)))"

fun route ::
    "('s committer_ops \<Rightarrow> bytes list \<Rightarrow> ('s, unit) op) \<Rightarrow> (string, bytes list) hashmap \<Rightarrow> ('s fanout_committer, unit) op" where
  "route call groups [] = (Inr (), [])"
| "route call groups ((name, c) # cs) =
     (case (c, hm_get groups name) of
        (Some (ops, s), Some infos) \<Rightarrow>
          (case call ops infos s of
             (Inl e, s1) \<Rightarrow> (Inl e, (name, Some (ops, s1)) # cs)
           | (Inr _, s1) \<Rightarrow> (case route call groups cs of (r, cs1) \<Rightarrow> (r, (name, Some (ops, s1)) # cs1)))
      | _ \<Rightarrow> (case route call groups cs of (r, cs1) \<Rightarrow> (r, (name, c) # cs1)))"

definition fanout_commit :: "fanout_codec \<Rightarrow> bytes list \<Rightarrow> ('s fanout_committer, unit) op" where
  "fanout_commit fc infos cs =
     (case split_infos fc infos of Inl e \<Rightarrow> (Inl e, cs) | Inr groups \<Rightarrow> route cm_commit groups cs)"

definition fanout_abort :: "fanout_codec \<Rightarrow> bytes list \<Rightarrow> ('s fanout_committer, unit) op" where
  "fanout_abort fc infos cs =
     (case split_infos fc infos of Inl e \<Rightarrow> (Inl e, cs) | Inr groups \<Rightarrow> route cm_abort groups cs)"

section \<open>The sink side of a pipeline\<close>

text \<open>\<open>json_to_config_map\<close>: nested objects become dotted keys. \<open>to_text\<close> prints a value as JSON text.\<close>

fun scalar_to_string :: "(json \<Rightarrow> string) \<Rightarrow> json \<Rightarrow> string" where
  "scalar_to_string to_text (JString s) = s"
| "scalar_to_string to_text (JBool b) = (if b then ''true'' else ''false'')"
| "scalar_to_string to_text (JInt n) = show_int n"
| "scalar_to_string to_text (JFloat t) = t"
| "scalar_to_string to_text JNull = []"
| "scalar_to_string to_text v = to_text v"

fun is_scalar :: "json \<Rightarrow> bool" where
  "is_scalar (JString _) = True"
| "is_scalar (JInt _) = True"
| "is_scalar (JFloat _) = True"
| "is_scalar (JBool _) = True"
| "is_scalar _ = False"

fun join_comma :: "string list \<Rightarrow> string" where
  "join_comma [] = []"
| "join_comma [s] = s"
| "join_comma (s # ss) = s @ '','' @ join_comma ss"

fun walk :: "(json \<Rightarrow> string) \<Rightarrow> string \<Rightarrow> json \<Rightarrow> (string, string) hashmap \<Rightarrow> (string, string) hashmap"
and walk_entries :: "(json \<Rightarrow> string) \<Rightarrow> string \<Rightarrow> (string \<times> json) list \<Rightarrow> (string, string) hashmap \<Rightarrow> (string, string) hashmap" where
  "walk to_text prefix (JObject m) out = walk_entries to_text prefix m out"
| "walk to_text prefix (JArray items) out =
     hm_insert prefix
       (if list_all is_scalar items then join_comma (map (scalar_to_string to_text) items) else to_text (JArray items)) out"
| "walk to_text prefix v out = hm_insert prefix (scalar_to_string to_text v) out"
| "walk_entries to_text prefix [] out = out"
| "walk_entries to_text prefix ((k, child) # m) out =
     walk_entries to_text prefix m (walk to_text (if prefix = [] then k else prefix @ ''.'' @ k) child out)"

definition json_to_config_map :: "(json \<Rightarrow> string) \<Rightarrow> json \<Rightarrow> (string, string) hashmap" where
  "json_to_config_map to_text v = walk to_text [] v hm_empty"

definition sink_name :: "string \<Rightarrow> nat \<Rightarrow> string" where
  "sink_name plugin idx = plugin @ ''#'' @ show_nat idx"

text \<open>
  What the connector factory makes of one declaration: a writer (its operations, panics and initial
  state), perhaps a committer, perhaps a metrics handle.
\<close>

type_synonym ('s, 'r, 'e) inner_writer =
  "('s, 'r, 'e) sink_ops \<times> (('r, 'e) sink_command option \<Rightarrow> 's \<Rightarrow> string option) \<times> 's"

record ('s, 'r, 'e, 'c, 'm) made_sink =
  ms_writer :: "('s, 'r, 'e) inner_writer"
  ms_committer :: "('c committer_ops \<times> 'c) option"
  ms_metrics :: "'m option"

datatype ('s, 'r, 'e) pipeline_writer = Single_Writer "('s, 'r, 'e) inner_writer" | Mux_Writer "('s, 'r, 'e) fanout"

datatype 'c pipeline_committer = Single_Committer "'c committer_ops \<times> 'c" | Mux_Committer "'c fanout_committer"

record ('s, 'r, 'e, 'c, 'm) sink_pipeline =
  sp_writer :: "('s, 'r, 'e) pipeline_writer"
  sp_committer :: "'c pipeline_committer option"
  sp_metrics :: "'m option"

type_synonym ('s, 'r, 'e, 'c, 'm) sink_factory =
  "string \<Rightarrow> (string, string) hashmap \<Rightarrow> bytes option \<Rightarrow> string + ('s, 'r, 'e, 'c, 'm) made_sink"

fun make_sinks ::
    "(json \<Rightarrow> string) \<Rightarrow> ('s, 'r, 'e, 'c, 'm) sink_factory \<Rightarrow> (string, bytes) hashmap \<Rightarrow> nat \<Rightarrow> sink_declaration list \<Rightarrow>
     string + (string \<times> ('s, 'r, 'e, 'c, 'm) made_sink) list" where
  "make_sinks to_text mk merged idx [] = Inr []"
| "make_sinks to_text mk merged idx (d # ds) =
     (let name = sink_name (sd_plugin d) idx in
      case mk (sd_plugin d) (json_to_config_map to_text (sd_config d)) (hm_get merged name) of
        Inl e \<Rightarrow> Inl e
      | Inr made \<Rightarrow>
          (case make_sinks to_text mk merged (Suc idx) ds of
             Inl e \<Rightarrow> Inl e
           | Inr rest \<Rightarrow> Inr ((name, made) # rest)))"

fun first_some :: "'a option list \<Rightarrow> 'a option" where
  "first_some [] = None"
| "first_some (x # xs) = (case x of Some v \<Rightarrow> Some v | None \<Rightarrow> first_some xs)"

definition create_sink_pipeline ::
    "(json \<Rightarrow> string) \<Rightarrow> fanout_codec \<Rightarrow> ('s, 'r, 'e, 'c, 'm) sink_factory \<Rightarrow> sink_declaration list \<Rightarrow>
     sink_failure_policy \<Rightarrow> bytes option \<Rightarrow> string \<Rightarrow> (nat \<Rightarrow> sched) \<Rightarrow> string + ('s, 'r, 'e, 'c, 'm) sink_pipeline" where
  "create_sink_pipeline to_text fc mk sinks policy restore timeout_text sched =
     (case sinks of
        [d] \<Rightarrow>
          (case mk (sd_plugin d) (json_to_config_map to_text (sd_config d)) restore of
             Inl e \<Rightarrow> Inl e
           | Inr made \<Rightarrow>
               Inr \<lparr>sp_writer = Single_Writer (ms_writer made),
                    sp_committer = map_option Single_Committer (ms_committer made), sp_metrics = ms_metrics made\<rparr>)
      | _ \<Rightarrow>
          let merged = (case restore of None \<Rightarrow> hm_empty
                        | Some bs \<Rightarrow> (case fs_dec fc bs of None \<Rightarrow> hm_empty | Some m \<Rightarrow> m)) in
          (case make_sinks to_text mk merged 0 sinks of
             Inl e \<Rightarrow> Inl e
           | Inr made \<Rightarrow>
               Inr \<lparr>sp_writer = Mux_Writer (with_ack_timeout
                      (map (\<lambda>(n, m). (n, new_worker (ms_writer m))) made) policy timeout_text sched),
                    sp_committer = map_option Mux_Committer (fanout_committer_new (map (\<lambda>(n, m). (n, ms_committer m)) made)),
                    sp_metrics = first_some (map (\<lambda>(n, m). ms_metrics m) made)\<rparr>))"

section \<open>What a writer task does with its queue\<close>

fun is_write :: "('r, 'e) sink_command \<Rightarrow> bool" where
  "is_write (Write r) = True"
| "is_write _ = False"

fun row_of :: "('r, 'e) sink_command \<Rightarrow> 'r list" where
  "row_of (Write r) = [r]"
| "row_of _ = []"

definition rows :: "('r, 'e) sink_command list \<Rightarrow> 'r list" where
  "rows q = concat (map row_of q)"

lemma rows_simps [simp]: "rows [] = []" "rows (c # q) = row_of c @ rows q" "rows (q @ q') = rows q @ rows q'"
  by (simp_all add: rows_def)

text \<open>
  A running task has written what was sent except what is still queued; a dead one has written a
  prefix of it.
\<close>

definition worker_ok :: "('s, 'r, 'e) worker \<Rightarrow> bool" where
  "worker_ok w \<longleftrightarrow>
     (\<exists>lost. wk_sent w = wk_written w @ rows (wk_queue w) @ lost \<and> (wk_exited w \<or> lost = [])) \<and>
     (wk_exited w \<longrightarrow> wk_queue w = [])"

definition writes_only :: "('r, 'e) sink_command list \<Rightarrow> bool" where
  "writes_only q = list_all is_write q"

lemma writes_only_simps [simp]:
  "writes_only []" "writes_only (c # q) \<longleftrightarrow> is_write c \<and> writes_only q"
  "writes_only (q @ q') \<longleftrightarrow> writes_only q \<and> writes_only q'"
  by (simp_all add: writes_only_def)

lemma map_sum_Inr: "map_sum f g x = Inr y \<longleftrightarrow> (\<exists>z. x = Inr z \<and> y = g z)"
  by (cases x) auto

lemma worker_step_cases:
  assumes "worker_step w = (err, a, w')" and "worker_ok w" and "\<not> wk_exited w"
  shows "worker_ok w'" "wk_sent w' = wk_sent w"
    "wk_exited w' \<or> wk_queue w' = tl (wk_queue w)"
    "wk_queue w = [] \<Longrightarrow> a = None \<and> w' = w"
    "wk_queue w = c # q \<Longrightarrow> is_write c \<Longrightarrow> a = None \<and> wk_prepared w' = wk_prepared w"
    "wk_queue w = c # q \<Longrightarrow> \<not> is_write c \<Longrightarrow> a \<noteq> None \<or> wk_exited w'"
    "wk_queue w = c # q \<Longrightarrow> a = Some r \<Longrightarrow> wk_exited w' \<longrightarrow> c = Close"
    "wk_queue w = PrepareCommit i # q \<Longrightarrow> a = Some (Inr v) \<Longrightarrow>
       \<exists>infos. v = Ack_Infos infos \<and> wk_prepared w' = wk_prepared w @ [(i, infos)]"
    "a = None \<Longrightarrow> wk_prepared w' = wk_prepared w"
    "wk_queue w = [c] \<Longrightarrow> a = Some r \<Longrightarrow> wk_written w' = wk_sent w"
  using assms by (auto simp: map_sum_Inr worker_step_def worker_ok_def exit_worker_def Let_def perform_def
    split: list.splits option.splits prod.splits sink_command.splits sum.splits ack.splits)

text \<open>A task whose queue ends in one command that wants an answer.\<close>

definition queued_last :: "('r, 'e) sink_command \<Rightarrow> ('s, 'r, 'e) worker \<Rightarrow> bool" where
  "queued_last cmd w \<longleftrightarrow> worker_ok w \<and> \<not> wk_exited w \<and> (\<exists>ws. wk_queue w = ws @ [cmd] \<and> writes_only ws)"

text \<open>Having answered: everything sent is written, and the answer is the task's own.\<close>

definition answered :: "('r, 'e) sink_command \<Rightarrow> ('s, 'r, 'e) worker \<Rightarrow> string + ack \<Rightarrow> ('s, 'r, 'e) worker \<Rightarrow> bool" where
  "answered cmd w r w' \<longleftrightarrow>
     worker_ok w' \<and> wk_queue w' = [] \<and> wk_sent w' = wk_sent w \<and> wk_written w' = wk_sent w \<and>
     (\<forall>i v. cmd = PrepareCommit i \<and> r = Inr v \<longrightarrow>
        (\<exists>infos. v = Ack_Infos infos \<and> wk_prepared w' = wk_prepared w @ [(i, infos)]))"

lemma run_empty: "wk_queue w = [] \<Longrightarrow> run_worker n w = (None, None, w)"
  by (induction n) (simp_all add: worker_step_def later_def)

lemma run_exited: "worker_ok w \<Longrightarrow> wk_exited w \<Longrightarrow> run_worker n w = (None, None, w)"
  by (rule run_empty) (simp add: worker_ok_def)

lemma run_pending:
  assumes "run_worker n w = (err, a, w')" and "queued_last cmd w" and "\<not> is_write cmd"
  shows "case a of
      None \<Rightarrow> wk_sent w' = wk_sent w \<and> wk_prepared w' = wk_prepared w \<and>
        (worker_ok w' \<and> wk_exited w' \<or>
         queued_last cmd w' \<and> length (wk_queue w') = length (wk_queue w) - n \<and> n < length (wk_queue w))
    | Some r \<Rightarrow> answered cmd w r w' \<and> (wk_exited w' \<longrightarrow> cmd = Close)"
  using assms(1,2)
proof (induction n arbitrary: w err a)
  case 0
  then show ?case by (auto simp: queued_last_def)
next
  case (Suc n)
  obtain err1 a1 w1 where s: "worker_step w = (err1, a1, w1)" by (cases "worker_step w") auto
  obtain err2 a2 where r: "run_worker n w1 = (err2, a2, w')" "a = later a1 a2"
    using Suc.prems(1) s by (auto split: prod.splits)
  from Suc.prems(2) obtain ws where w: "worker_ok w" "\<not> wk_exited w" "wk_queue w = ws @ [cmd]" "writes_only ws"
    by (auto simp: queued_last_def)
  note c = worker_step_cases [OF s w(1,2)]
  show ?case
  proof (cases "wk_exited w1 \<and> a1 = None")
    case True
    then have "a = None" "w' = w1" using r run_exited [OF c(1), of n] by (auto simp: later_def)
    with True c(1,2,9) show ?thesis by simp
  next
    case ne: False
    show ?thesis
    proof (cases ws)
      case Nil
      then obtain rr where a1: "a1 = Some rr" using c(6) [of cmd "[]"] w(3) assms(3) ne by auto
      have q: "wk_queue w1 = []" using c(1,3) w(3) Nil by (auto simp: worker_ok_def)
      then have e: "a = Some rr" "w' = w1" using r a1 run_empty [OF q, of n] by (auto simp: later_def)
      have "answered cmd w rr w1"
        using q c(1,2) c(8) [of _ "[]"] c(10) [of cmd rr] w(3) Nil a1 by (auto simp: answered_def)
      with e c(7) [of cmd "[]" rr] w(3) Nil a1 show ?thesis by simp
    next
      case (Cons c0 ws')
      with w c(5) have a1: "a1 = None" "wk_prepared w1 = wk_prepared w" by auto
      with ne c(3) w Cons have "wk_queue w1 = ws' @ [cmd]" "\<not> wk_exited w1" by auto
      with c(1) w(4) Cons have p: "queued_last cmd w1" by (auto simp: queued_last_def)
      from Suc.IH [OF r(1) p] r(2) a1 c(2) \<open>wk_queue w1 = ws' @ [cmd]\<close> w(3) Cons show ?thesis
        by (auto simp: later_def answered_def split: option.splits)
    qed
  qed
qed

lemma run_writes:
  assumes "run_worker n w = (err, a, w')" and "worker_ok w" and "writes_only (wk_queue w)"
  shows "a = None \<and> worker_ok w' \<and> wk_sent w' = wk_sent w \<and> wk_prepared w' = wk_prepared w \<and> writes_only (wk_queue w')"
  using assms
proof (induction n arbitrary: w err a)
  case (Suc n)
  obtain err1 a1 w1 where s: "worker_step w = (err1, a1, w1)" by (cases "worker_step w") auto
  obtain err2 a2 where r: "run_worker n w1 = (err2, a2, w')" "a = later a1 a2"
    using Suc.prems(1) s by (auto split: prod.splits)
  show ?case
  proof (cases "wk_exited w")
    case True
    with run_exited [OF Suc.prems(2), of "Suc n"] Suc.prems show ?thesis by simp
  next
    case False
    note c = worker_step_cases [OF s Suc.prems(2) False]
    have a1: "a1 = None" "wk_prepared w1 = wk_prepared w"
      using c(4,5,9) Suc.prems(3) by (cases "wk_queue w"; auto)+
    have "writes_only (wk_queue w1)"
      using c(1,3) Suc.prems(3) by (cases "wk_queue w") (auto simp: worker_ok_def)
    with Suc.IH [OF r(1) c(1)] a1 c(2) r(2) show ?thesis by (simp add: later_def)
  qed
qed simp

lemma idle_facts:
  assumes "worker_idle w = (err, w')" and "worker_ok w"
  shows "worker_ok w'" "wk_queue w' = wk_queue w" "wk_sent w' = wk_sent w" "wk_written w' = wk_written w"
    "wk_prepared w' = wk_prepared w"
  using assms
  by (auto simp: worker_idle_def worker_ok_def exit_worker_def split: if_splits option.splits prod.splits sum.splits)

section \<open>One interaction\<close>

text \<open>An interaction with sink \<open>i\<close> leaves the other sinks alone.\<close>

abbreviation hnd :: "('s, 'r, 'e) fanout \<Rightarrow> nat \<Rightarrow> ('s, 'r, 'e) sink_handle" where
  "hnd f i \<equiv> fo_handles f ! i"

definition touch :: "nat \<Rightarrow> ('s, 'r, 'e) fanout \<Rightarrow> ('s, 'r, 'e) fanout \<Rightarrow> bool" where
  "touch i f f' \<longleftrightarrow>
     fo_policy f' = fo_policy f \<and> length (fo_handles f') = length (fo_handles f) \<and>
     (\<forall>j. j \<noteq> i \<longrightarrow> hnd f' j = hnd f j) \<and>
     sh_name (hnd f' i) = sh_name (hnd f i) \<and> sh_tx (hnd f' i) = sh_tx (hnd f i)"

lemma touch_refl [simp]: "touch i f f"
  by (simp add: touch_def)

lemma touch_trans: "touch i f g \<Longrightarrow> touch i g k \<Longrightarrow> touch i f k"
  by (auto simp: touch_def)

lemma touch_errors [simp]: "touch i f (g\<lparr>fo_errors := e\<rparr>) = touch i f g" "touch i f (g\<lparr>fo_clock := n\<rparr>) = touch i f g"
  "touch i (f\<lparr>fo_clock := n\<rparr>) g = touch i f g"
  by (simp_all add: touch_def)

lemma record_error_sel [simp]:
  "fo_handles (record_error i e f) = fo_handles f" "fo_policy (record_error i e f) = fo_policy f"
  "touch i f (record_error i e g) = touch i f g"
  by (simp_all add: record_error_def split: option.splits)

lemma set_handle_sel [simp]:
  "i < length (fo_handles f) \<Longrightarrow> hnd (set_handle i h f) i = h" "fo_policy (set_handle i h f) = fo_policy f"
  "length (fo_handles (set_handle i h f)) = length (fo_handles f)"
  by (simp_all add: set_handle_def)

lemma touch_set_handle:
  "i < length (fo_handles f) \<Longrightarrow> sh_name h = sh_name (hnd f i) \<Longrightarrow> sh_tx h = sh_tx (hnd f i) \<Longrightarrow>
     touch i f (set_handle i h f)"
  by (simp add: touch_def set_handle_def)

lemma mark_sink_dead_facts:
  assumes "mark_sink_dead i reason f = (r, f')" and "i < length (fo_handles f)"
  shows "touch i f f'" "sh_dead (hnd f' i)" "sh_worker (hnd f' i) = sh_worker (hnd f i)"
    "r = Inr () \<Longrightarrow> sh_dead (hnd f i) \<or> fo_policy f = Isolate" "sh_dead (hnd f i) \<Longrightarrow> r = Inr () \<and> f' = f"
  using assms
  by (auto simp: mark_sink_dead_def Let_def touch_set_handle split: if_splits sink_failure_policy.splits)

lemma closed_facts:
  assumes "on_channel_closed sc i oper f = (r, f')" and "i < length (fo_handles f)"
  shows "touch i f f'" "sh_dead (hnd f' i)" "sh_worker (hnd f' i) = sh_worker (hnd f i)"
    "r = Inr () \<Longrightarrow> sh_dead (hnd f i) \<or> fo_policy f = Isolate" "sh_dead (hnd f i) \<Longrightarrow> r = Inr () \<and> f' = f"
  using mark_sink_dead_facts [OF assms(1) [unfolded on_channel_closed_def Let_def] assms(2)] by auto

lemma progress_facts:
  assumes "progress i n idle f = (a, f')" and "i < length (fo_handles f)" and "worker_ok (sh_worker (hnd f i))"
  shows "touch i f f'" "sh_dead (hnd f' i) = sh_dead (hnd f i)"
    "writes_only (wk_queue (sh_worker (hnd f i))) \<Longrightarrow>
       a = None \<and> worker_ok (sh_worker (hnd f' i)) \<and> writes_only (wk_queue (sh_worker (hnd f' i))) \<and>
       wk_sent (sh_worker (hnd f' i)) = wk_sent (sh_worker (hnd f i)) \<and>
       wk_prepared (sh_worker (hnd f' i)) = wk_prepared (sh_worker (hnd f i))"
    "queued_last cmd (sh_worker (hnd f i)) \<Longrightarrow> \<not> is_write cmd \<Longrightarrow>
       (case a of
          None \<Rightarrow> wk_sent (sh_worker (hnd f' i)) = wk_sent (sh_worker (hnd f i)) \<and>
            wk_prepared (sh_worker (hnd f' i)) = wk_prepared (sh_worker (hnd f i)) \<and>
            (worker_ok (sh_worker (hnd f' i)) \<and> wk_exited (sh_worker (hnd f' i)) \<or>
             queued_last cmd (sh_worker (hnd f' i)) \<and> n < length (wk_queue (sh_worker (hnd f i))))
        | Some r \<Rightarrow> answered cmd (sh_worker (hnd f i)) r (sh_worker (hnd f' i)))"
proof -
  let ?h = "hnd f i"
  obtain err a1 w1 where r: "run_worker n (sh_worker ?h) = (err, a1, w1)" by (cases "run_worker n (sh_worker ?h)") auto
  obtain err' w2 where d: "(if idle then worker_idle w1 else (None, w1)) = (err', w2)"
    by (cases "if idle then worker_idle w1 else (None, w1)")
  have f': "if wk_exited (sh_worker ?h) then a = None \<and> f' = f
      else a = a1 \<and> f' = record_error i (later err err') (set_handle i (?h\<lparr>sh_worker := w2\<rparr>) f)"
    using assms(1) r d by (auto simp: progress_def Let_def)
  then show "touch i f f'" "sh_dead (hnd f' i) = sh_dead (hnd f i)"
    using assms(2) by (auto simp: touch_set_handle split: if_splits)
  have w2: "worker_ok w2 \<and> wk_queue w2 = wk_queue w1 \<and> wk_sent w2 = wk_sent w1 \<and> wk_written w2 = wk_written w1 \<and>
      wk_prepared w2 = wk_prepared w1" if "worker_ok w1"
    using that d idle_facts [of w1 err' w2] by (auto split: if_splits)
  show "a = None \<and> worker_ok (sh_worker (hnd f' i)) \<and> writes_only (wk_queue (sh_worker (hnd f' i))) \<and>
      wk_sent (sh_worker (hnd f' i)) = wk_sent (sh_worker ?h) \<and> wk_prepared (sh_worker (hnd f' i)) = wk_prepared (sh_worker ?h)"
    if "writes_only (wk_queue (sh_worker ?h))"
    using f' w2 run_writes [OF r assms(3) that] assms(2,3) that by (auto split: if_splits)
  show "case a of
      None \<Rightarrow> wk_sent (sh_worker (hnd f' i)) = wk_sent (sh_worker ?h) \<and>
        wk_prepared (sh_worker (hnd f' i)) = wk_prepared (sh_worker ?h) \<and>
        (worker_ok (sh_worker (hnd f' i)) \<and> wk_exited (sh_worker (hnd f' i)) \<or>
         queued_last cmd (sh_worker (hnd f' i)) \<and> n < length (wk_queue (sh_worker ?h)))
    | Some r \<Rightarrow> answered cmd (sh_worker ?h) r (sh_worker (hnd f' i))"
    if p: "queued_last cmd (sh_worker ?h)" "\<not> is_write cmd"
  proof -
    note rp = run_pending [OF r p]
    have b: "a = a1" "sh_worker (hnd f' i) = w2"
      using f' p(1) assms(2) by (auto simp: queued_last_def split: if_splits)
    show ?thesis
    proof (cases a1)
      case None
      with rp have "wk_exited w1 \<or> wk_queue w1 \<noteq> []" by (auto simp: queued_last_def)
      then have "w2 = w1" using d by (auto simp: worker_idle_def split: if_splits)
      with rp b None show ?thesis by auto
    next
      case (Some rr)
      with rp w2 b show ?thesis by (auto simp: answered_def)
    qed
  qed
qed

lemma next_sched_facts:
  "next_sched f = (sc, f0) \<Longrightarrow> touch i f f0 \<and> fo_handles f0 = fo_handles f \<and> fo_policy f0 = fo_policy f"
  by (auto simp: next_sched_def touch_def)

text \<open>Sending to a live sink: either the command is last in its queue, or the sink is given up.\<close>

lemma send_command_facts:
  assumes "send_command i cmd oper f = (Inr b, f')" and "i < length (fo_handles f)"
    and "worker_ok (sh_worker (hnd f i))" and "writes_only (wk_queue (sh_worker (hnd f i)))" and "\<not> sh_dead (hnd f i)"
  shows "touch i f f' \<and> worker_ok (sh_worker (hnd f' i)) \<and> sh_dead (hnd f' i) = (\<not> b) \<and>
    wk_prepared (sh_worker (hnd f' i)) = wk_prepared (sh_worker (hnd f i)) \<and>
    (if b then \<not> wk_exited (sh_worker (hnd f' i)) \<and>
         wk_sent (sh_worker (hnd f' i)) = wk_sent (sh_worker (hnd f i)) @ row_of cmd \<and>
         (\<exists>q. writes_only q \<and> wk_queue (sh_worker (hnd f' i)) = q @ [cmd])
     else fo_policy f = Isolate \<and> wk_sent (sh_worker (hnd f' i)) = wk_sent (sh_worker (hnd f i)))"
proof -
  obtain sc f0 where n: "next_sched f = (sc, f0)" by (cases "next_sched f")
  obtain a f1 where p: "progress i (sc_steps sc) (sc_idle sc) f0 = (a, f1)"
    by (cases "progress i (sc_steps sc) (sc_idle sc) f0")
  note nf = next_sched_facts [OF n, of i]
  have "i < length (fo_handles f0)" "worker_ok (sh_worker (hnd f0 i))" "writes_only (wk_queue (sh_worker (hnd f0 i)))"
    using nf assms by simp_all
  note pf = progress_facts(1,2) [OF p this(1,2)] progress_facts(3) [OF p this]
  obtain a' f2 where q: "progress i 1 False f1 = (a', f2)" by (cases "progress i 1 False f1")
  have i1: "i < length (fo_handles f1)" using pf(1) nf assms(2) by (simp add: touch_def)
  note qf = progress_facts(1,2) [OF q i1] progress_facts(3) [OF q i1]
  have enq: ?thesis if "f' = enqueue i cmd g" "b" "touch i f g" "worker_ok (sh_worker (hnd g i))" "\<not> sh_dead (hnd g i)"
      "\<not> wk_exited (sh_worker (hnd g i))" "writes_only (wk_queue (sh_worker (hnd g i)))"
      "wk_sent (sh_worker (hnd g i)) = wk_sent (sh_worker (hnd f i))"
      "wk_prepared (sh_worker (hnd g i)) = wk_prepared (sh_worker (hnd f i))" for g
  proof -
    have ig: "i < length (fo_handles g)" using that(3) assms(2) by (simp add: touch_def)
    have "touch i f f'"
      using touch_trans [OF that(3) touch_set_handle [OF ig]] that(1) by (simp add: enqueue_def Let_def)
    with that ig show ?thesis
      by (auto simp: enqueue_def Let_def worker_ok_def split: sink_command.splits)
  qed
  have gone: ?thesis if "mark_sink_dead i reason g = (Inr (), f')" "\<not> b" "touch i f g" "worker_ok (sh_worker (hnd g i))"
      "\<not> sh_dead (hnd g i)" "wk_sent (sh_worker (hnd g i)) = wk_sent (sh_worker (hnd f i))"
      "wk_prepared (sh_worker (hnd g i)) = wk_prepared (sh_worker (hnd f i))" for g reason
  proof -
    have ig: "i < length (fo_handles g)" "fo_policy g = fo_policy f" using that(3) assms(2) by (simp_all add: touch_def)
    note m = mark_sink_dead_facts [OF that(1) ig(1)]
    from m that ig touch_trans [OF that(3) m(1)] show ?thesis by simp
  qed
  have t1: "touch i f f1" using nf touch_trans pf(1) by blast
  have s1: "\<not> sh_dead (hnd f1 i)" "worker_ok (sh_worker (hnd f1 i))" "writes_only (wk_queue (sh_worker (hnd f1 i)))"
      "wk_sent (sh_worker (hnd f1 i)) = wk_sent (sh_worker (hnd f i))"
      "wk_prepared (sh_worker (hnd f1 i)) = wk_prepared (sh_worker (hnd f i))"
    using pf(2,3) nf assms(5) by simp_all
  have t2: "touch i f f2" using touch_trans [OF t1 qf(1) [OF s1(2)]] .
  have s2: "\<not> sh_dead (hnd f2 i)" "worker_ok (sh_worker (hnd f2 i))" "writes_only (wk_queue (sh_worker (hnd f2 i)))"
      "wk_sent (sh_worker (hnd f2 i)) = wk_sent (sh_worker (hnd f i))"
      "wk_prepared (sh_worker (hnd f2 i)) = wk_prepared (sh_worker (hnd f i))"
    using qf(2) [OF s1(2)] qf(3) [OF s1(2,3)] s1 by simp_all
  have "(\<exists>g\<in>{f1, f2}. \<exists>reason. mark_sink_dead i reason g = (Inr (), f') \<and> \<not> b) \<or>
      (\<exists>g\<in>{f1, f2}. f' = enqueue i cmd g \<and> b \<and> \<not> wk_exited (sh_worker (hnd g i)))"
    using assms(1) n p q
    by (auto simp: send_command_def Let_def on_channel_closed_def map_sum_Inr split: if_splits prod.splits)
  then show ?thesis
    using gone [OF _ _ t1 s1(2,1,4,5)] gone [OF _ _ t2 s2(2,1,4,5)]
      enq [OF _ _ t1 s1(2,1) _ s1(3,4,5)] enq [OF _ _ t2 s2(2,1) _ s2(3,4,5)] by blast
qed

text \<open>Waiting for a sink whose command is queued_last: an answer of its own, or the sink is given up.\<close>

lemma await_ack_facts:
  assumes "await_ack i b oper f = (Inr a, f')" and "i < length (fo_handles f)" and "\<not> is_write cmd"
    and "if b then \<not> sh_dead (hnd f i) \<and> queued_last cmd (sh_worker (hnd f i))
      else sh_dead (hnd f i) \<and> worker_ok (sh_worker (hnd f i))"
  shows "touch i f f' \<and> wk_sent (sh_worker (hnd f' i)) = wk_sent (sh_worker (hnd f i)) \<and>
    worker_ok (sh_worker (hnd f' i)) \<and> sh_dead (hnd f' i) = (a = None) \<and>
    (a = None \<longrightarrow> \<not> b \<or> fo_policy f = Isolate) \<and>
    (\<forall>v. a = Some v \<longrightarrow> answered cmd (sh_worker (hnd f i)) (Inr v) (sh_worker (hnd f' i)))"
proof -
  obtain sc f0 where n: "next_sched f = (sc, f0)" by (cases "next_sched f")
  note nf = next_sched_facts [OF n, of i]
  have i0: "i < length (fo_handles f0)" using nf assms(2) by simp
  show ?thesis
  proof (cases b)
    case False
    then obtain r where r: "on_channel_closed sc i oper f0 = (r, f')" "a = None"
      using assms(1) n by (auto simp: await_ack_def map_sum_Inr split: prod.splits)
    have "f' = f0" using closed_facts(5) [OF r(1) i0] assms(4) False nf by auto
    with r(2) False assms(4) nf show ?thesis by auto
  next
    case True
    with assms(4) have h: "\<not> sh_dead (hnd f i)" "queued_last cmd (sh_worker (hnd f i))" by auto
    obtain a1 f1 where p: "progress i (sc_steps sc) (sc_idle sc) f0 = (a1, f1)"
      by (cases "progress i (sc_steps sc) (sc_idle sc) f0")
    let ?w1 = "sh_worker (hnd f1 i)"
    obtain a2 f2 where q: "(if a1 = None \<and> \<not> wk_exited ?w1 \<and> \<not> sc_timeout sc
        then progress i (length (wk_queue ?w1)) False f1 else (a1, f1)) = (a2, f2)"
      by (cases "if a1 = None \<and> \<not> wk_exited ?w1 \<and> \<not> sc_timeout sc
        then progress i (length (wk_queue ?w1)) False f1 else (a1, f1)")
    have w0: "worker_ok (sh_worker (hnd f0 i))" "queued_last cmd (sh_worker (hnd f0 i))"
      using h(2) nf by (auto simp: queued_last_def)
    note pf = progress_facts(1,2) [OF p i0 w0(1)] progress_facts(4) [OF p i0 w0 assms(3)]
    have t1: "touch i f f1" "\<not> sh_dead (hnd f1 i)" using nf touch_trans pf(1,2) h(1) by (blast, simp)
    have i1: "i < length (fo_handles f1)" using t1(1) assms(2) by (simp add: touch_def)
    have two: "touch i f f2 \<and> \<not> sh_dead (hnd f2 i) \<and> wk_sent (sh_worker (hnd f2 i)) = wk_sent (sh_worker (hnd f i)) \<and>
      worker_ok (sh_worker (hnd f2 i)) \<and>
      (\<forall>r. a2 = Some r \<longrightarrow> answered cmd (sh_worker (hnd f i)) r (sh_worker (hnd f2 i)))"
    proof (cases "a1 = None \<and> \<not> wk_exited ?w1 \<and> \<not> sc_timeout sc")
      case False
      with q have e: "f2 = f1" "a2 = a1" by auto
      show ?thesis unfolding e using t1 pf(3) nf
        by (cases a1) (auto simp: answered_def queued_last_def)
    next
      case go: True
      with q have q': "progress i (length (wk_queue ?w1)) False f1 = (a2, f2)" by simp
      from go pf(3) have w1: "worker_ok ?w1" "queued_last cmd ?w1" "wk_sent ?w1 = wk_sent (sh_worker (hnd f i))"
        "wk_prepared ?w1 = wk_prepared (sh_worker (hnd f i))"
        using nf by (auto simp: queued_last_def)
      note qf = progress_facts(1,2) [OF q' i1 w1(1)] progress_facts(4) [OF q' i1 w1(1,2) assms(3)]
      show ?thesis using touch_trans [OF t1(1) qf(1)] qf(2,3) t1(2) w1
        by (cases a2) (auto simp: answered_def queued_last_def)
    qed
    have i2: "i < length (fo_handles f2)" using two assms(2) by (simp add: touch_def)
    have "(\<exists>v. a2 = Some (Inr v) \<and> a = Some v \<and> f' = f2) \<or>
        (\<exists>reason. mark_sink_dead i reason f2 = (Inr (), f') \<or> (\<exists>e. mark_sink_dead i reason (record_error i e f2) = (Inr (), f'))) \<and> a = None"
      using assms(1) True n p q
      by (auto simp: await_ack_def Let_def on_channel_closed_def map_sum_Inr
          split: prod.splits option.splits sum.splits if_splits)
    moreover have "f2 = record_error i None f2" by (simp add: record_error_def)
    ultimately have "(\<exists>v. a2 = Some (Inr v) \<and> a = Some v \<and> f' = f2) \<or>
        (\<exists>reason e. mark_sink_dead i reason (record_error i e f2) = (Inr (), f') \<and> a = None)" by metis
    then show ?thesis
    proof (elim disjE exE conjE)
      fix v assume "a2 = Some (Inr v)" "a = Some v" "f' = f2"
      with two show ?thesis by simp
    next
      fix reason e assume m: "mark_sink_dead i reason (record_error i e f2) = (Inr (), f')" and "a = None"
      have "i < length (fo_handles (record_error i e f2))" using i2 by simp
      note mf = mark_sink_dead_facts [OF m this]
      have "touch i f f'" using mf(1) two by (auto simp: touch_def)
      moreover have "fo_policy f = Isolate" using mf(4) two by (simp add: touch_def)
      ultimately show ?thesis using \<open>a = None\<close> mf(2,3) two by simp
    qed
  qed
qed

section \<open>Broadcasts\<close>

definition touches :: "nat set \<Rightarrow> ('s, 'r, 'e) fanout \<Rightarrow> ('s, 'r, 'e) fanout \<Rightarrow> bool" where
  "touches S f f' \<longleftrightarrow>
     fo_policy f' = fo_policy f \<and> length (fo_handles f') = length (fo_handles f) \<and>
     (\<forall>j. j \<notin> S \<longrightarrow> hnd f' j = hnd f j) \<and>
     (\<forall>j. sh_name (hnd f' j) = sh_name (hnd f j) \<and> sh_tx (hnd f' j) = sh_tx (hnd f j))"

lemma touches_step: "touch i f g \<Longrightarrow> touches S g f' \<Longrightarrow> touches (insert i S) f f'"
  unfolding touch_def touches_def by (intro conjI allI impI) (metis insert_iff)+

lemma touches_refl [simp]: "touches S f f"
  by (simp add: touches_def)

text \<open>A sink before a broadcast, and with the command of the broadcast under way (or given up).\<close>

definition ready :: "('s, 'r, 'e) sink_handle \<Rightarrow> bool" where
  "ready h \<longleftrightarrow> worker_ok (sh_worker h) \<and> writes_only (wk_queue (sh_worker h)) \<and> \<not> sh_dead h"

definition under_way :: "('r, 'e) sink_command \<Rightarrow> bool \<Rightarrow> ('s, 'r, 'e) sink_handle \<Rightarrow> bool" where
  "under_way cmd b h \<longleftrightarrow>
     (if b then \<not> sh_dead h \<and> queued_last cmd (sh_worker h) else sh_dead h \<and> worker_ok (sh_worker h))"

lemma row_of_cmd: "\<not> is_write cmd \<Longrightarrow> row_of cmd = []"
  by (cases cmd) auto

lemma send_all_facts:
  assumes "send_all is cmd oper f = (Inr acks, f')" and "distinct is" and "\<not> is_write cmd"
    and "\<forall>i\<in>set is. i < length (fo_handles f) \<and> ready (hnd f i)"
  shows "touches (set is) f f' \<and> map fst acks = is \<and>
    (\<forall>(i, b)\<in>set acks. under_way cmd b (hnd f' i) \<and> (b \<or> fo_policy f = Isolate) \<and>
       wk_sent (sh_worker (hnd f' i)) = wk_sent (sh_worker (hnd f i)) \<and>
       wk_prepared (sh_worker (hnd f' i)) = wk_prepared (sh_worker (hnd f i)))"
  using assms
proof (induction "is" arbitrary: f acks)
  case (Cons i "is")
  obtain b f1 where s: "send_command i cmd oper f = (Inr b, f1)"
    using Cons.prems(1) by (auto split: prod.splits sum.splits)
  obtain rest where t: "send_all is cmd oper f1 = (Inr rest, f')" "acks = (i, b) # rest"
    using Cons.prems(1) s by (auto split: prod.splits sum.splits)
  have "i < length (fo_handles f)" "ready (hnd f i)" using Cons.prems(4) by auto
  then have f1: "touch i f f1 \<and> under_way cmd b (hnd f1 i) \<and> (b \<or> fo_policy f = Isolate) \<and>
      wk_sent (sh_worker (hnd f1 i)) = wk_sent (sh_worker (hnd f i)) \<and>
      wk_prepared (sh_worker (hnd f1 i)) = wk_prepared (sh_worker (hnd f i))"
    using send_command_facts [OF s] row_of_cmd [OF Cons.prems(3)]
    by (auto simp: ready_def under_way_def queued_last_def split: if_splits)
  then have same: "hnd f1 j = hnd f j" if "j \<noteq> i" for j using that by (simp add: touch_def)
  have ni: "i \<notin> set is" "distinct is" using Cons.prems(2) by auto
  have "j < length (fo_handles f1) \<and> ready (hnd f1 j)" if "j \<in> set is" for j
  proof -
    have "j \<noteq> i" using that ni(1) by auto
    then show ?thesis using that Cons.prems(4) f1 same by (simp add: touch_def)
  qed
  then have "\<forall>j\<in>set is. j < length (fo_handles f1) \<and> ready (hnd f1 j)" by blast
  note ih = Cons.IH [OF t(1) ni(2) Cons.prems(3) this]
  then have "hnd f' i = hnd f1 i" "fo_policy f1 = fo_policy f" using ni(1) f1 by (auto simp: touches_def touch_def)
  moreover have "hnd f1 (fst p) = hnd f (fst p)" if "p \<in> set rest" for p
    using that ih ni(1) same by (metis image_eqI list.set_map)
  ultimately show ?case using ih f1 t(2) touches_step [of i f f1 "set is" f'] by fastforce
qed simp

lemma await_all_facts:
  assumes "await_all acks oper f = (Inr vs, f')" and "distinct (map fst acks)" and "\<not> is_write cmd"
    and "\<forall>(i, b)\<in>set acks. i < length (fo_handles f) \<and> under_way cmd b (hnd f i)"
  shows "touches (fst ` set acks) f f' \<and>
    list_all2 (\<lambda>v i. answered cmd (sh_worker (hnd f i)) (Inr v) (sh_worker (hnd f' i))) vs
      (filter (\<lambda>i. \<not> sh_dead (hnd f' i)) (map fst acks)) \<and>
    (\<forall>(i, b)\<in>set acks. worker_ok (sh_worker (hnd f' i)) \<and> (sh_dead (hnd f' i) \<longrightarrow> \<not> b \<or> fo_policy f = Isolate) \<and>
       wk_sent (sh_worker (hnd f' i)) = wk_sent (sh_worker (hnd f i)))"
  using assms
proof (induction acks arbitrary: f vs)
  case (Cons p acks)
  obtain i b where p: "p = (i, b)" by (cases p)
  obtain a f1 where s: "await_ack i b oper f = (Inr a, f1)"
    using Cons.prems(1) p by (auto split: prod.splits sum.splits)
  obtain rest where t: "await_all acks oper f1 = (Inr rest, f')" "vs = (case a of None \<Rightarrow> rest | Some v \<Rightarrow> v # rest)"
    using Cons.prems(1) s p by (auto split: prod.splits sum.splits)
  have i: "i < length (fo_handles f)" "under_way cmd b (hnd f i)" using Cons.prems(4) p by auto
  note f1 = await_ack_facts [OF s i(1) Cons.prems(3) i(2) [unfolded under_way_def]]
  then have same: "hnd f1 j = hnd f j" if "j \<noteq> i" for j using that by (simp add: touch_def)
  have ni: "i \<notin> fst ` set acks" "distinct (map fst acks)" using Cons.prems(2) p by auto
  have other: "hnd f1 (fst q) = hnd f (fst q)" if "q \<in> set acks" for q using that ni(1) same by (metis imageI)
  then have "\<forall>(j, b)\<in>set acks. j < length (fo_handles f1) \<and> under_way cmd b (hnd f1 j)"
    using Cons.prems(4) f1 by (auto simp: touch_def)
  note ih = Cons.IH [OF t(1) ni(2) Cons.prems(3) this]
  have hi: "hnd f' i = hnd f1 i" "fo_policy f1 = fo_policy f" using ih ni(1) f1 by (auto simp: touches_def touch_def)
  have "list_all2 (\<lambda>v j. answered cmd (sh_worker (hnd f j)) (Inr v) (sh_worker (hnd f' j))) rest
      (filter (\<lambda>j. \<not> sh_dead (hnd f' j)) (map fst acks))"
    by (rule list.rel_mono_strong [OF ih [THEN conjunct2, THEN conjunct1]]) (use other in auto)
  then have "list_all2 (\<lambda>v j. answered cmd (sh_worker (hnd f j)) (Inr v) (sh_worker (hnd f' j))) vs
      (filter (\<lambda>j. \<not> sh_dead (hnd f' j)) (map fst (p # acks)))"
    using f1 t(2) hi(1) p by (auto split: option.splits)
  moreover have "touches (fst ` set (p # acks)) f f'" using touches_step [of i f f1] ih f1 p by simp
  moreover have "worker_ok (sh_worker (hnd f' i)) \<and> (sh_dead (hnd f' i) \<longrightarrow> \<not> b \<or> fo_policy f = Isolate) \<and>
      wk_sent (sh_worker (hnd f' i)) = wk_sent (sh_worker (hnd f i))" using f1 hi by simp
  moreover have "\<forall>(j, b)\<in>set acks. worker_ok (sh_worker (hnd f' j)) \<and> (sh_dead (hnd f' j) \<longrightarrow> \<not> b \<or> fo_policy f = Isolate) \<and>
      wk_sent (sh_worker (hnd f' j)) = wk_sent (sh_worker (hnd f j))"
    using ih hi(2) other by fastforce
  ultimately show ?case by (simp add: p)
qed simp

text \<open>The state of the multiplexer between two operations.\<close>

definition fanout_inv :: "('s, 'r, 'e) fanout \<Rightarrow> bool" where
  "fanout_inv f \<longleftrightarrow>
     (\<forall>i < length (fo_handles f). worker_ok (sh_worker (hnd f i)) \<and> (\<not> sh_dead (hnd f i) \<longrightarrow> ready (hnd f i)))"

lemma alive_set: "i \<in> set (alive f) \<longleftrightarrow> i < length (fo_handles f) \<and> \<not> sh_dead (hnd f i)"
  by (auto simp: alive_def)

lemma distinct_alive [simp]: "distinct (alive f)"
  by (simp add: alive_def)

lemma alive_ready: "fanout_inv f \<Longrightarrow> i \<in> set (alive f) \<Longrightarrow> i < length (fo_handles f) \<and> ready (hnd f i)"
  by (auto simp: alive_set fanout_inv_def)

lemma broadcast_facts:
  assumes "broadcast_and_await oper cmd f = (Inr vs, f')" and "fanout_inv f" and "\<not> is_write cmd"
  shows "fanout_inv f' \<and> touches (set (alive f)) f f' \<and> set (alive f') \<subseteq> set (alive f) \<and>
    (fo_policy f = Fail \<longrightarrow> alive f' = alive f) \<and>
    (\<forall>i. wk_sent (sh_worker (hnd f' i)) = wk_sent (sh_worker (hnd f i))) \<and>
    list_all2 (\<lambda>v i. answered cmd (sh_worker (hnd f i)) (Inr v) (sh_worker (hnd f' i))) vs (alive f')"
proof -
  obtain acks f1 where s: "send_all (alive f) cmd oper f = (Inr acks, f1)" and a: "await_all acks oper f1 = (Inr vs, f')"
    using assms(1) by (auto simp: broadcast_and_await_def split: prod.splits sum.splits)
  note sf = send_all_facts [OF s distinct_alive assms(3), OF ballI [OF alive_ready [OF assms(2)]]]
  have m: "map fst acks = alive f" and ts: "touches (set (alive f)) f f1" using sf by blast+
  have acks: "fst ` set acks = set (alive f)" "distinct (map fst acks)" using m by (metis list.set_map) (simp add: m)
  have "i < length (fo_handles f1)" if "i \<in> fst ` set acks" for i
    using that ts unfolding acks(1) by (simp add: touches_def alive_set)
  then have "\<forall>(i, b)\<in>set acks. i < length (fo_handles f1) \<and> under_way cmd b (hnd f1 i)"
    using sf by fastforce
  note af = await_all_facts [OF a acks(2) assms(3) this]
  have t: "touches (set (alive f)) f f'" using ts af acks(1) by (auto simp: touches_def)
  have al: "alive f' = filter (\<lambda>i. \<not> sh_dead (hnd f' i)) (alive f)"
  proof -
    have "\<not> sh_dead (hnd f i)" if "\<not> sh_dead (hnd f' i)" "i < length (fo_handles f)" for i
      using that t by (metis alive_set touches_def)
    moreover have "length (fo_handles f') = length (fo_handles f)" using t by (simp add: touches_def)
    ultimately show ?thesis by (auto simp: alive_def intro: filter_cong)
  qed
  have mid: "wk_sent (sh_worker (hnd f1 i)) = wk_sent (sh_worker (hnd f i)) \<and>
      wk_prepared (sh_worker (hnd f1 i)) = wk_prepared (sh_worker (hnd f i)) \<and>
      (sh_dead (hnd f' i) \<longrightarrow> fo_policy f = Isolate) \<and> worker_ok (sh_worker (hnd f' i)) \<and>
      wk_sent (sh_worker (hnd f' i)) = wk_sent (sh_worker (hnd f1 i))" if i: "i \<in> set (alive f)" for i
  proof -
    obtain b where b: "(i, b) \<in> set acks" using i acks(1) by force
    moreover have "fo_policy f1 = fo_policy f" using ts by (simp add: touches_def)
    ultimately show ?thesis using sf af by fastforce
  qed
  have "hnd f' i = hnd f i" if "i \<notin> set (alive f)" for i using that t by (simp add: touches_def)
  then have sent: "wk_sent (sh_worker (hnd f' i)) = wk_sent (sh_worker (hnd f i))" for i
    using mid by (cases "i \<in> set (alive f)") simp_all
  have "list_all2 (\<lambda>v i. answered cmd (sh_worker (hnd f1 i)) (Inr v) (sh_worker (hnd f' i))) vs (alive f')"
    using af m al by simp
  then have ans: "list_all2 (\<lambda>v i. answered cmd (sh_worker (hnd f i)) (Inr v) (sh_worker (hnd f' i))) vs (alive f')"
    by (rule list.rel_mono_strong) (use mid al in \<open>auto simp: answered_def\<close>)
  have drained: "wk_queue (sh_worker (hnd f' i)) = []" if "i \<in> set (alive f')" for i
  proof -
    from that obtain k where "k < length (alive f')" "i = alive f' ! k" by (auto simp: in_set_conv_nth)
    with ans show ?thesis by (auto simp: list_all2_conv_all_nth answered_def)
  qed
  have len: "length (fo_handles f') = length (fo_handles f)" using t by (simp add: touches_def)
  have ok: "worker_ok (sh_worker (hnd f' i))" if "i < length (fo_handles f)" for i
    using mid [of i] \<open>\<And>i. i \<notin> set (alive f) \<Longrightarrow> hnd f' i = hnd f i\<close> that assms(2)
    by (cases "i \<in> set (alive f)") (simp_all add: fanout_inv_def)
  have "fanout_inv f'"
    unfolding fanout_inv_def ready_def using ok drained len by (simp add: alive_set)
  moreover have "alive f' = alive f" if "fo_policy f = Fail"
    using mid that unfolding al by (auto simp: filter_id_conv)
  ultimately show ?thesis using t sent ans al by auto
qed

text \<open>After a broadcast every live sink has written all it was sent.\<close>

lemma broadcast_flushed:
  assumes "broadcast_and_await oper cmd f = (Inr vs, f')" and "fanout_inv f" and "\<not> is_write cmd" and "i \<in> set (alive f')"
  shows "wk_written (sh_worker (hnd f' i)) = wk_sent (sh_worker (hnd f i))"
proof -
  from assms(4) obtain k where "k < length (alive f')" "i = alive f' ! k" by (auto simp: in_set_conv_nth)
  with broadcast_facts [OF assms(1-3)] show ?thesis by (auto simp: list_all2_conv_all_nth answered_def)
qed

lemma send_rows_facts:
  assumes "send_rows is row f = (Inr (), f')" and "distinct is"
    and "\<forall>i\<in>set is. i < length (fo_handles f) \<and> ready (hnd f i)"
  shows "touches (set is) f f' \<and>
    (\<forall>i\<in>set is. worker_ok (sh_worker (hnd f' i)) \<and>
       (if sh_dead (hnd f' i) then fo_policy f = Isolate \<and> wk_sent (sh_worker (hnd f' i)) = wk_sent (sh_worker (hnd f i))
        else ready (hnd f' i) \<and> wk_sent (sh_worker (hnd f' i)) = wk_sent (sh_worker (hnd f i)) @ [row]))"
  using assms
proof (induction "is" arbitrary: f)
  case (Cons i "is")
  obtain b f1 where s: "send_command i (Write row) ''write'' f = (Inr b, f1)" and t: "send_rows is row f1 = (Inr (), f')"
    using Cons.prems(1) by (auto split: prod.splits sum.splits)
  have i: "i < length (fo_handles f)" "ready (hnd f i)" using Cons.prems(3) by auto
  note f1 = send_command_facts [OF s i(1) i(2) [unfolded ready_def, THEN conjunct1]
      i(2) [unfolded ready_def, THEN conjunct2, THEN conjunct1] i(2) [unfolded ready_def, THEN conjunct2, THEN conjunct2]]
  have tf: "touch i f f1" using f1 by blast
  have one: "worker_ok (sh_worker (hnd f1 i)) \<and>
       (if sh_dead (hnd f1 i) then fo_policy f = Isolate \<and> wk_sent (sh_worker (hnd f1 i)) = wk_sent (sh_worker (hnd f i))
        else ready (hnd f1 i) \<and> wk_sent (sh_worker (hnd f1 i)) = wk_sent (sh_worker (hnd f i)) @ [row])"
    using f1 by (auto simp: ready_def split: if_splits)
  have same: "hnd f1 j = hnd f j" if "j \<noteq> i" for j using that tf by (simp add: touch_def)
  have pol: "fo_policy f1 = fo_policy f" "length (fo_handles f1) = length (fo_handles f)" using tf by (simp_all add: touch_def)
  have ni: "i \<notin> set is" "distinct is" using Cons.prems(2) by auto
  have "j < length (fo_handles f1) \<and> ready (hnd f1 j) \<and> hnd f1 j = hnd f j" if "j \<in> set is" for j
  proof -
    have "j \<noteq> i" using that ni(1) by auto
    then show ?thesis using that Cons.prems(3) same pol by simp
  qed
  note rest = this
  have ih: "touches (set is) f1 f' \<and>
    (\<forall>i\<in>set is. worker_ok (sh_worker (hnd f' i)) \<and>
       (if sh_dead (hnd f' i) then fo_policy f1 = Isolate \<and> wk_sent (sh_worker (hnd f' i)) = wk_sent (sh_worker (hnd f1 i))
        else ready (hnd f' i) \<and> wk_sent (sh_worker (hnd f' i)) = wk_sent (sh_worker (hnd f1 i)) @ [row]))"
    using Cons.IH [OF t ni(2)] rest by blast
  then have "hnd f' i = hnd f1 i" using ni(1) by (simp add: touches_def)
  with ih one rest pol touches_step [OF tf, of "set is" f'] show ?case by (auto split: if_splits)
qed simp

section \<open>Properties\<close>

text \<open>A use of the multiplexer by a task: the operations of the loop, all of which succeed.\<close>

datatype ('r, 'e) task_op = Do_Write 'r | Do_Schema 'e | Do_Prepare nat | Do_Snapshot

fun exec_task_op :: "fanout_codec \<Rightarrow> ('r, 'e) task_op \<Rightarrow> ('s, 'r, 'e) fanout \<Rightarrow> ('s, 'r, 'e) fanout option" where
  "exec_task_op fc (Do_Write r) f = (case fanout_write r f of (Inr _, f1) \<Rightarrow> Some f1 | _ \<Rightarrow> None)"
| "exec_task_op fc (Do_Schema e) f = (case fanout_apply_schema_change e f of (Inr _, f1) \<Rightarrow> Some f1 | _ \<Rightarrow> None)"
| "exec_task_op fc (Do_Prepare i) f = (case fanout_prepare_commit fc i f of (Inr _, f1) \<Rightarrow> Some f1 | _ \<Rightarrow> None)"
| "exec_task_op fc Do_Snapshot f = (case fanout_snapshot_state fc f of (Inr _, f1) \<Rightarrow> Some f1 | _ \<Rightarrow> None)"

fun exec_task_ops :: "fanout_codec \<Rightarrow> ('r, 'e) task_op list \<Rightarrow> ('s, 'r, 'e) fanout \<Rightarrow> ('s, 'r, 'e) fanout option" where
  "exec_task_ops fc [] f = Some f"
| "exec_task_ops fc (oper # ops) f =
     (case exec_task_op fc oper f of None \<Rightarrow> None | Some f1 \<Rightarrow> exec_task_ops fc ops f1)"

fun task_row :: "('r, 'e) task_op \<Rightarrow> 'r list" where
  "task_row (Do_Write r) = [r]"
| "task_row _ = []"

definition task_rows :: "('r, 'e) task_op list \<Rightarrow> 'r list" where
  "task_rows ops = concat (map task_row ops)"

lemma fanout_write_facts:
  assumes "fanout_write row f = (Inr (), f')" and "fanout_inv f"
  shows "fanout_inv f' \<and> fo_policy f' = fo_policy f \<and> length (fo_handles f') = length (fo_handles f) \<and>
    set (alive f') \<subseteq> set (alive f) \<and> alive f' \<noteq> [] \<and> (fo_policy f = Fail \<longrightarrow> alive f' = alive f) \<and>
    (\<forall>i\<in>set (alive f'). wk_sent (sh_worker (hnd f' i)) = wk_sent (sh_worker (hnd f i)) @ [row])"
proof -
  have ne: "alive f \<noteq> []" and s: "send_rows (alive f) row f = (Inr (), f')" and l: "\<not> sh_dead (hnd f' (last (alive f)))"
    using assms(1) by (auto simp: fanout_write_def Let_def split: if_splits prod.splits sum.splits)
  note sf = send_rows_facts [OF s distinct_alive, OF ballI [OF alive_ready [OF assms(2)]]]
  then have t: "touches (set (alive f)) f f'" by blast
  have len: "length (fo_handles f') = length (fo_handles f)" "fo_policy f' = fo_policy f" using t by (simp_all add: touches_def)
  have out: "hnd f' i = hnd f i" if "i \<notin> set (alive f)" for i using that t by (simp add: touches_def)
  have al: "alive f' = filter (\<lambda>i. \<not> sh_dead (hnd f' i)) (alive f)"
  proof -
    have "\<not> sh_dead (hnd f i)" if "\<not> sh_dead (hnd f' i)" "i < length (fo_handles f)" for i
      using that out [of i] by (metis alive_set)
    then show ?thesis using len by (auto simp: alive_def intro: filter_cong)
  qed
  have "worker_ok (sh_worker (hnd f' i)) \<and> (\<not> sh_dead (hnd f' i) \<longrightarrow> ready (hnd f' i))" if "i < length (fo_handles f)" for i
    using sf out [of i] that assms(2) by (cases "i \<in> set (alive f)") (auto simp: fanout_inv_def split: if_splits)
  then have "fanout_inv f'" using len by (simp add: fanout_inv_def)
  moreover have "alive f' \<noteq> []" using l ne al by (metis empty_filter_conv last_in_set)
  moreover have "alive f' = alive f" if "fo_policy f = Fail"
    using sf that unfolding al by (auto simp: filter_id_conv split: if_splits)
  moreover have "wk_sent (sh_worker (hnd f' i)) = wk_sent (sh_worker (hnd f i)) @ [row]" if "i \<in> set (alive f')" for i
    using sf that unfolding al by (auto split: if_splits)
  ultimately show ?thesis using len al by auto
qed

lemma exec_task_op_facts:
  assumes "exec_task_op fc oper f = Some f'" and "fanout_inv f"
  shows "fanout_inv f' \<and> fo_policy f' = fo_policy f \<and> length (fo_handles f') = length (fo_handles f) \<and>
    set (alive f') \<subseteq> set (alive f) \<and> (fo_policy f = Fail \<longrightarrow> alive f' = alive f) \<and>
    (\<forall>i\<in>set (alive f'). wk_sent (sh_worker (hnd f' i)) = wk_sent (sh_worker (hnd f i)) @ task_row oper)"
proof -
  have *: ?thesis if "broadcast_and_await o' cmd f = (Inr vs, f')" "\<not> is_write cmd" "task_row oper = []" for o' cmd vs
    using broadcast_facts [OF that(1) assms(2) that(2)] that(3) by (simp add: touches_def)
  show ?thesis
  proof (cases "\<exists>r. oper = Do_Write r")
    case True
    with assms fanout_write_facts [of _ f f'] show ?thesis by (fastforce split: prod.splits sum.splits)
  next
    case False
    have "\<exists>o' cmd vs. broadcast_and_await o' cmd f = (Inr vs, f') \<and> \<not> is_write cmd \<and> task_row oper = []"
      using False assms(1)
      by (cases oper) (force simp: fanout_apply_schema_change_def fanout_prepare_commit_def fanout_snapshot_state_def
          drop_result_def map_sum_Inr split: prod.splits sum.splits)+
    with * show ?thesis by blast
  qed
qed

lemma exec_task_ops_facts:
  assumes "exec_task_ops fc ops f = Some f'" and "fanout_inv f"
  shows "fanout_inv f' \<and> fo_policy f' = fo_policy f \<and> length (fo_handles f') = length (fo_handles f) \<and>
    set (alive f') \<subseteq> set (alive f) \<and> (fo_policy f = Fail \<longrightarrow> alive f' = alive f) \<and>
    (\<forall>i\<in>set (alive f'). wk_sent (sh_worker (hnd f' i)) = wk_sent (sh_worker (hnd f i)) @ task_rows ops)"
  using assms
proof (induction ops arbitrary: f)
  case (Cons oper ops)
  then obtain f1 where "exec_task_op fc oper f = Some f1" "exec_task_ops fc ops f1 = Some f'"
    by (auto split: option.splits)
  with exec_task_op_facts [OF _ Cons.prems(2), of fc oper f1] Cons.IH [of f1] show ?case
    by (auto simp: task_rows_def)
qed (simp add: task_rows_def)

lemma fanout_inv_open: "fanout_inv f \<Longrightarrow> fanout_inv (f\<lparr>fo_handles := map spawn_handle (fo_handles f)\<rparr>)"
  by (auto simp: fanout_inv_def ready_def spawn_handle_def)

lemma fanout_inv_new: "fanout_inv (with_ack_timeout (map (\<lambda>(n, w). (n, new_worker w)) ws) policy txt sched)"
  by (auto simp: fanout_inv_def with_ack_timeout_def ready_def worker_ok_def new_worker_def case_prod_beta)

text \<open>
  C18. The fan-out sink delivers before a checkpoint. From the opening of a multiplexer, after any
  sequence of writes, schema changes and checkpoints that all succeeded, and for every schedule of the
  writer tasks: once \<open>prepare_commit\<close> has answered, every inner sink that has not been given up has
  written exactly the rows handed to the multiplexer, in order; under the strict policy that is every
  sink.
\<close>

theorem fanout_delivers:
  assumes "fanout_open (with_ack_timeout (map (\<lambda>(n, w). (n, new_worker w)) ws) policy txt sched) = (Inr (), f)"
    and "exec_task_ops fc ops f = Some f1" and "fanout_prepare_commit fc cp f1 = (Inr infos, f2)"
  shows "length (fo_handles f2) = length ws \<and>
    (\<forall>h\<in>set (fo_handles f2). (policy = Fail \<longrightarrow> \<not> sh_dead h) \<and>
       (\<not> sh_dead h \<longrightarrow> wk_written (sh_worker h) = task_rows ops))"
proof -
  let ?f0 = "with_ack_timeout (map (\<lambda>(n, w). (n, new_worker w)) ws) policy txt sched"
  let ?f = "?f0\<lparr>fo_handles := map spawn_handle (fo_handles ?f0)\<rparr>"
  obtain vs where b: "broadcast_and_await ''open'' Open ?f = (Inr vs, f)"
    using assms(1) by (auto simp: fanout_open_def drop_result_def map_sum_Inr split: prod.splits)
  obtain acks where p: "broadcast_and_await ''prepare_commit'' (PrepareCommit cp) f1 = (Inr acks, f2)"
    using assms(3) by (auto simp: fanout_prepare_commit_def split: prod.splits sum.splits)
  have inv: "fanout_inv ?f" by (rule fanout_inv_open [OF fanout_inv_new])
  note bf = broadcast_facts [OF b inv]
  note ef = exec_task_ops_facts [OF assms(2), OF bf [THEN conjunct1]]
  note pf = broadcast_facts [OF p, OF ef [THEN conjunct1]]
  have a0: "alive ?f = [0..<length ws]" "fo_policy ?f = policy" "length (fo_handles ?f) = length ws"
    "\<forall>i < length ws. wk_sent (sh_worker (hnd ?f i)) = []"
    by (auto simp: alive_def with_ack_timeout_def spawn_handle_def new_worker_def case_prod_beta filter_id_conv)
  have pol: "fo_policy f = policy" "fo_policy f1 = policy" "length (fo_handles f2) = length ws"
    using bf ef pf a0 by (simp_all add: touches_def)
  have w: "wk_written (sh_worker (hnd f2 i)) = task_rows ops" if "i \<in> set (alive f2)" for i
  proof -
    have i: "i \<in> set (alive f1)" using that pf by auto
    have len: "i < length ws" using that pol(3) by (simp add: alive_set)
    from broadcast_flushed [OF p _ _ that] ef have
      "wk_written (sh_worker (hnd f2 i)) = wk_sent (sh_worker (hnd f1 i))" by simp
    with i len ef bf a0 show ?thesis by auto
  qed
  have all: "set (alive f2) = {0..<length ws}" if "policy = Fail" using bf ef pf a0 pol that by simp
  have "(policy = Fail \<longrightarrow> \<not> sh_dead (hnd f2 i)) \<and> (\<not> sh_dead (hnd f2 i) \<longrightarrow> wk_written (sh_worker (hnd f2 i)) = task_rows ops)"
    if "i < length ws" for i
    using w [of i] all that pol(3) alive_set [of i f2] by auto
  then show ?thesis using pol(3) by (auto simp: in_set_conv_nth)
qed

definition fanout_codec_ok :: "fanout_codec \<Rightarrow> bool" where
  "fanout_codec_ok fc \<longleftrightarrow> (\<forall>es. fc_dec fc (fc_enc fc es) = Some es) \<and> (\<forall>m. fs_dec fc (fs_enc fc m) = Some m)"

text \<open>The commit infos a sink prepared last.\<close>

definition own_infos :: "('s, 'r, 'e) sink_handle \<Rightarrow> bytes list" where
  "own_infos h = snd (last (wk_prepared (sh_worker h)))"

lemma prepare_entries:
  assumes "fanout_prepare_commit fc cp f = (Inr infos, f1)" and "fanout_inv f"
  shows "infos = [fc_enc fc (map (\<lambda>i. (sh_name (hnd f1 i), own_infos (hnd f1 i))) (alive f1))]"
    "\<forall>i\<in>set (alive f1). fst (last (wk_prepared (sh_worker (hnd f1 i)))) = cp"
proof -
  obtain acks where b: "broadcast_and_await ''prepare_commit'' (PrepareCommit cp) f = (Inr acks, f1)"
    and i: "infos = [fc_enc fc (live_entries ack_infos [] acks f1)]"
    using assms(1) by (auto simp: fanout_prepare_commit_def split: prod.splits sum.splits)
  have l: "length acks = length (alive f1)" and
    a: "\<And>k. k < length (alive f1) \<Longrightarrow> \<exists>x. acks ! k = Ack_Infos x \<and>
      wk_prepared (sh_worker (hnd f1 (alive f1 ! k))) = wk_prepared (sh_worker (hnd f (alive f1 ! k))) @ [(cp, x)]"
    using broadcast_facts [OF b assms(2)] by (auto simp: list_all2_conv_all_nth answered_def)
  have "live_entries ack_infos [] acks f1 = map (\<lambda>i. (sh_name (hnd f1 i), own_infos (hnd f1 i))) (alive f1)"
  proof (rule nth_equalityI)
    fix k assume "k < length (live_entries ack_infos [] acks f1)"
    then have k: "k < length (alive f1)" by (simp add: live_entries_def)
    from a [OF k] obtain x where "acks ! k = Ack_Infos x" "own_infos (hnd f1 (alive f1 ! k)) = x"
      by (auto simp: own_infos_def)
    with k l show "live_entries ack_infos [] acks f1 ! k =
        map (\<lambda>i. (sh_name (hnd f1 i), own_infos (hnd f1 i))) (alive f1) ! k"
      by (simp add: live_entries_def nth_enumerate_eq get_or_default_def)
  qed (simp add: live_entries_def)
  with i show "infos = [fc_enc fc (map (\<lambda>i. (sh_name (hnd f1 i), own_infos (hnd f1 i))) (alive f1))]" by simp
  show "\<forall>i\<in>set (alive f1). fst (last (wk_prepared (sh_worker (hnd f1 i)))) = cp"
  proof
    fix i assume "i \<in> set (alive f1)"
    then obtain k where "k < length (alive f1)" "i = alive f1 ! k" by (auto simp: in_set_conv_nth)
    with a [of k] show "fst (last (wk_prepared (sh_worker (hnd f1 i)))) = cp" by auto
  qed
qed

lemma get_fold_pairs:
  assumes "distinct (map fst es)"
  shows "hm_get (fold (\<lambda>(n, i). hm_insert n i) es hm_empty) = map_of es"
proof
  fix k
  have "fold (\<lambda>(n, i). hm_insert n i) es hm_empty = fold (\<lambda>x. hm_insert (fst x) (snd x)) es hm_empty"
    by (simp add: case_prod_unfold)
  moreover have "map_of (rev es) = map_of es"
    using assms by (intro map_of_inject_set [THEN iffD2]) (simp_all add: rev_map [symmetric])
  ultimately
  show "hm_get (fold (\<lambda>(n, i). hm_insert n i) es hm_empty) k = map_of es k"
    using hm.get_fold_insert [of hm_empty fst snd es k] by (simp split: option.split)
qed

text \<open>What routing does to one inner committer.\<close>

definition routed ::
    "('s committer_ops \<Rightarrow> bytes list \<Rightarrow> ('s, unit) op) \<Rightarrow> bytes list option \<Rightarrow> ('s committer_ops \<times> 's) option \<Rightarrow>
     ('s committer_ops \<times> 's) option" where
  "routed call infos c =
     (case (c, infos) of (Some (ops, s), Some i) \<Rightarrow> Some (ops, snd (call ops i s)) | _ \<Rightarrow> c)"

lemma route_facts:
  "route call groups cs = (Inr (), cs') \<Longrightarrow> cs' = map (\<lambda>(n, c). (n, routed call (hm_get groups n) c)) cs"
proof (induction cs arbitrary: cs')
  case (Cons x cs)
  then show ?case by (cases x) (auto simp: routed_def split: option.splits prod.splits sum.splits)
qed simp

lemma prepared_groups:
  assumes "fanout_codec_ok fc" and "fanout_inv f" and "distinct (map sh_name (fo_handles f))"
    and "fanout_prepare_commit fc cp f = (Inr infos, f1)"
  shows "\<exists>groups. split_infos fc infos = Inr groups \<and>
    (\<forall>i < length (fo_handles f1). hm_get groups (sh_name (hnd f1 i)) =
       (if sh_dead (hnd f1 i) then None else Some (own_infos (hnd f1 i)))) \<and>
    (\<forall>n. n \<notin> sh_name ` set (fo_handles f1) \<longrightarrow> hm_get groups n = None)"
proof -
  obtain acks where "broadcast_and_await ''prepare_commit'' (PrepareCommit cp) f = (Inr acks, f1)"
    using assms(4) by (auto simp: fanout_prepare_commit_def split: prod.splits sum.splits)
  then have t: "touches (set (alive f)) f f1" using broadcast_facts [OF _ assms(2)] by simp
  have n: "distinct (map sh_name (fo_handles f1))"
  proof -
    have "map sh_name (fo_handles f1) = map sh_name (fo_handles f)"
      using t by (auto simp: touches_def list_eq_iff_nth_eq)
    then show ?thesis using assms(3) by simp
  qed
  then have inj: "i = j" if "sh_name (hnd f1 i) = sh_name (hnd f1 j)" "i < length (fo_handles f1)" "j < length (fo_handles f1)" for i j
    using that by (auto simp: distinct_conv_nth)
  let ?es = "map (\<lambda>i. (sh_name (hnd f1 i), own_infos (hnd f1 i))) (alive f1)"
  have d: "distinct (map fst ?es)" using inj by (auto simp: distinct_map inj_on_def alive_set)
  have "split_infos fc infos = Inr (fold (\<lambda>(n, i). hm_insert n i) ?es hm_empty)"
    using prepare_entries(1) [OF assms(4,2)] assms(1) by (simp add: split_infos_def fanout_codec_ok_def)
  moreover have "map_of ?es (sh_name (hnd f1 i)) = (if sh_dead (hnd f1 i) then None else Some (own_infos (hnd f1 i)))"
    if i: "i < length (fo_handles f1)" for i
  proof (cases "sh_dead (hnd f1 i)")
    case True
    then have "sh_name (hnd f1 i) \<noteq> sh_name (hnd f1 x)" if "x \<in> set (alive f1)" for x
      using inj [OF _ i, of x] that by (auto simp: alive_set)
    then have "sh_name (hnd f1 i) \<notin> fst ` set ?es" by (auto simp: image_iff)
    then have "map_of ?es (sh_name (hnd f1 i)) = None" by (simp only: map_of_eq_None_iff not_False_eq_True)
    with True show ?thesis by simp
  next
    case False
    with i have "(sh_name (hnd f1 i), own_infos (hnd f1 i)) \<in> set ?es" by (auto simp: alive_set)
    with d False show ?thesis by (simp add: map_of_is_SomeI)
  qed
  moreover have "map_of ?es n = None" if "n \<notin> sh_name ` set (fo_handles f1)" for n
    using that by (auto simp: map_of_eq_None_iff alive_set)
  ultimately show ?thesis using get_fold_pairs [OF d] by auto
qed

text \<open>
  C19. Phase 2 reaches each sink with its own commit infos. When the committer completes on what
  \<open>prepare_commit\<close> of checkpoint \<open>cp\<close> returned, every inner committer of a live sink has been called
  once, with exactly the infos that sink prepared for \<open>cp\<close>; the committer of a sink that was given up
  is not called, and sinks without a committer are skipped. The same holds for an abort.
\<close>

theorem commit_routes_own_infos:
  assumes "fanout_codec_ok fc" and "fanout_inv f" and "distinct (map sh_name (fo_handles f))"
    and "fanout_prepare_commit fc cp f = (Inr infos, f1)"
    and "fanout_commit fc infos cs = (Inr (), cs1)" and "fanout_abort fc infos cs = (Inr (), cs2)"
    and "map fst cs = map sh_name (fo_handles f1)" and "i < length cs"
  shows "(let own = (if sh_dead (hnd f1 i) then None else Some (own_infos (hnd f1 i))) in
      snd (cs1 ! i) = routed cm_commit own (snd (cs ! i)) \<and> snd (cs2 ! i) = routed cm_abort own (snd (cs ! i))) \<and>
    (\<not> sh_dead (hnd f1 i) \<longrightarrow> last (wk_prepared (sh_worker (hnd f1 i))) = (cp, own_infos (hnd f1 i)))"
proof -
  obtain groups where g: "split_infos fc infos = Inr groups" and
    gi: "\<And>i. i < length (fo_handles f1) \<Longrightarrow> hm_get groups (sh_name (hnd f1 i)) =
       (if sh_dead (hnd f1 i) then None else Some (own_infos (hnd f1 i)))"
    using prepared_groups [OF assms(1-4)] by blast
  have r: "route cm_commit groups cs = (Inr (), cs1)" "route cm_abort groups cs = (Inr (), cs2)"
    using assms(5,6) g by (simp_all add: fanout_commit_def fanout_abort_def)
  have i: "i < length (fo_handles f1)" "fst (cs ! i) = sh_name (hnd f1 i)"
    using assms(7,8) by (metis length_map, metis length_map nth_map)
  have "\<not> sh_dead (hnd f1 i) \<Longrightarrow> fst (last (wk_prepared (sh_worker (hnd f1 i)))) = cp"
    using prepare_entries(2) [OF assms(4,2)] i(1) by (simp add: alive_set)
  then show ?thesis
    using route_facts [OF r(1)] route_facts [OF r(2)] gi [OF i(1)] i assms(8)
    by (simp add: case_prod_beta Let_def own_infos_def prod_eq_iff)
qed

section \<open>Names and restored states\<close>

lemma takeWhile_digits: "takeWhile is_digit (rev (p @ ''#'' @ show_nat i)) = rev (show_nat i)"
proof -
  have "takeWhile is_digit (rev (show_nat i) @ CHR ''#'' # rev p) = rev (show_nat i) @ takeWhile is_digit (CHR ''#'' # rev p)"
    by (rule takeWhile_append2) (simp add: show_nat_digits)
  then show ?thesis by (simp add: is_digit_def)
qed

lemma sink_name_inj: "sink_name p i = sink_name q j \<Longrightarrow> i = j"
  by (metis rev_rev_ident show_nat_inj sink_name_def takeWhile_digits)

lemma make_sinks_facts:
  "make_sinks to_text mk merged idx ds = Inr made \<Longrightarrow>
     length made = length ds \<and>
     (\<forall>k < length ds. fst (made ! k) = sink_name (sd_plugin (ds ! k)) (idx + k) \<and>
        mk (sd_plugin (ds ! k)) (json_to_config_map to_text (sd_config (ds ! k)))
          (hm_get merged (sink_name (sd_plugin (ds ! k)) (idx + k))) = Inr (snd (made ! k)))"
proof (induction ds arbitrary: idx made)
  case (Cons d ds)
  then obtain m rest where "mk (sd_plugin d) (json_to_config_map to_text (sd_config d)) (hm_get merged (sink_name (sd_plugin d) idx)) = Inr m"
    "make_sinks to_text mk merged (Suc idx) ds = Inr rest" "made = (sink_name (sd_plugin d) idx, m) # rest"
    by (auto simp: Let_def split: sum.splits)
  with Cons.IH [of "Suc idx" rest] show ?case by (auto simp: nth_Cons split: nat.split)
qed simp

text \<open>
  The multiplexer a pipeline gets: one handle per declaration, under pairwise distinct names, the
  committer under the same names, and every inner sink created from its own entry of the merged state.
\<close>

lemma pipeline_mux:
  assumes "create_sink_pipeline to_text fc mk sinks policy restore txt sched = Inr p" and "length sinks \<noteq> 1"
  shows "\<exists>made. sp_writer p = Mux_Writer (with_ack_timeout (map (\<lambda>(n, m). (n, new_worker (ms_writer m))) made) policy txt sched) \<and>
    sp_committer p = map_option Mux_Committer (fanout_committer_new (map (\<lambda>(n, m). (n, ms_committer m)) made)) \<and>
    length made = length sinks \<and> distinct (map fst made) \<and>
    (\<forall>k < length sinks. \<forall>states. fanout_codec_ok fc \<and> restore = Some (fs_enc fc states) \<longrightarrow>
       mk (sd_plugin (sinks ! k)) (json_to_config_map to_text (sd_config (sinks ! k)))
         (hm_get states (fst (made ! k))) = Inr (snd (made ! k)))"
proof -
  let ?merged = "case restore of None \<Rightarrow> hm_empty | Some bs \<Rightarrow> (case fs_dec fc bs of None \<Rightarrow> hm_empty | Some m \<Rightarrow> m)"
  obtain made where m: "make_sinks to_text mk ?merged 0 sinks = Inr made" and
    p: "p = \<lparr>sp_writer = Mux_Writer (with_ack_timeout (map (\<lambda>(n, m). (n, new_worker (ms_writer m))) made) policy txt sched),
      sp_committer = map_option Mux_Committer (fanout_committer_new (map (\<lambda>(n, m). (n, ms_committer m)) made)),
      sp_metrics = first_some (map (\<lambda>(n, m). ms_metrics m) made)\<rparr>"
    using assms unfolding create_sink_pipeline_def Let_def by (cases sinks; cases "tl sinks") (auto split: sum.splits)
  note f = make_sinks_facts [OF m]
  then have "distinct (map fst made)" by (auto simp: distinct_conv_nth dest: sink_name_inj)
  then show ?thesis using f p by (auto simp: fanout_codec_ok_def)
qed

subsection \<open>A concrete codec and sinks for the witnesses\<close>

definition demo_fanout_codec :: fanout_codec where
  "demo_fanout_codec =
     \<lparr>fc_enc = e_list (e_pair (e_list e_char) (e_list (e_list e_byte))),
      fc_dec = (\<lambda>bs. Some (fst (p_list (p_pair (p_list p_char) (p_list (p_list p_byte))) bs))),
      fs_enc = e_list (e_pair (e_list e_char) (e_list e_byte)),
      fs_dec = (\<lambda>bs. Some (fst (p_list (p_pair (p_list p_char) (p_list p_byte)) bs)))\<rparr>"

lemma demo_fanout_codec_ok: "fanout_codec_ok demo_fanout_codec"
proof -
  have r: "reads p e \<Longrightarrow> fst (p (e x)) = x" for p :: "'a parser" and e x
    unfolding reads_def by (metis append_Nil2 fst_conv)
  show ?thesis
    unfolding fanout_codec_ok_def demo_fanout_codec_def
    by (auto intro!: r reads_list reads_pair reads_char reads_byte)
qed

definition demo_sink_ops :: "(nat list, nat, unit) sink_ops" where
  "demo_sink_ops =
     \<lparr>sk_open = Pair (Inr ()), sk_write = (\<lambda>row s. (Inr (), s @ [row])), sk_apply_schema_change = (\<lambda>_. Pair (Inr ())),
      sk_poll_flush = Pair (Inr ()), sk_prepare_commit = (\<lambda>i s. (Inr [[word_of_nat i]], s)),
      sk_snapshot_state = Pair (Inr []), sk_close = Pair (Inr ())\<rparr>"

definition demo_sched :: "nat \<Rightarrow> sched" where
  "demo_sched n = \<lparr>sc_steps = 0, sc_idle = False, sc_timeout = False, sc_locked = False\<rparr>"

definition demo_sinks :: "(string \<times> (nat list, nat, unit) sink_ops \<times> ((nat, unit) sink_command option \<Rightarrow> nat list \<Rightarrow> string option) \<times> nat list) list" where
  "demo_sinks = [(''a#0'', demo_sink_ops, \<lambda>_ _. None, []), (''b#1'', demo_sink_ops, \<lambda>_ _. None, [])]"

definition demo_fanout :: "(nat list, nat, unit) fanout" where
  "demo_fanout = snd (fanout_open (with_ack_timeout (map (\<lambda>(n, w). (n, new_worker w)) demo_sinks) Fail ''1s'' demo_sched))"

definition demo_fanout_used :: "(nat list, nat, unit) fanout" where
  "demo_fanout_used = the (exec_task_ops demo_fanout_codec [Do_Write 1, Do_Write 2] demo_fanout)"

lemma demo_fanout_runs:
  "fst (fanout_open (with_ack_timeout (map (\<lambda>(n, w). (n, new_worker w)) demo_sinks) Fail ''1s'' demo_sched)) = Inr ()"
  "exec_task_ops demo_fanout_codec [Do_Write 1, Do_Write 2] demo_fanout \<noteq> None"
  "isl (fst (fanout_prepare_commit demo_fanout_codec 7 demo_fanout_used)) = False"
  by code_simp+

theorem fanout_delivers_witness:
  "\<exists>infos f2. fanout_prepare_commit demo_fanout_codec 7 demo_fanout_used = (Inr infos, f2) \<and>
     map (\<lambda>h. wk_written (sh_worker h)) (fo_handles f2) = [[1, 2], [1, 2]]"
proof -
  have o: "fanout_open (with_ack_timeout (map (\<lambda>(n, w). (n, new_worker w)) demo_sinks) Fail ''1s'' demo_sched) = (Inr (), demo_fanout)"
    using demo_fanout_runs(1) by (simp add: demo_fanout_def prod_eq_iff)
  have e: "exec_task_ops demo_fanout_codec [Do_Write 1, Do_Write 2] demo_fanout = Some demo_fanout_used"
    using demo_fanout_runs(2) by (auto simp: demo_fanout_used_def)
  obtain infos f2 where p: "fanout_prepare_commit demo_fanout_codec 7 demo_fanout_used = (Inr infos, f2)"
    using demo_fanout_runs(3)
    by (cases "fanout_prepare_commit demo_fanout_codec 7 demo_fanout_used"; cases "fst (fanout_prepare_commit demo_fanout_codec 7 demo_fanout_used)") auto
  note d = fanout_delivers [OF o e p]
  then obtain h1 h2 where "fo_handles f2 = [h1, h2]"
    by (auto simp: demo_sinks_def length_Suc_conv numeral_2_eq_2)
  with d p show ?thesis by (simp add: task_rows_def)
qed

definition demo_committers :: "bytes list list fanout_committer" where
  "demo_committers =
     (let ops = \<lparr>cm_commit = (\<lambda>infos s. (Inr (), infos # s)), cm_abort = (\<lambda>_ s. (Inr (), s))\<rparr>
      in [(''a#0'', Some (ops, [])), (''b#1'', None)])"

lemma demo_used_inv: "fanout_inv demo_fanout_used"
proof -
  let ?f0 = "with_ack_timeout (map (\<lambda>(n, w). (n, new_worker w)) demo_sinks) Fail ''1s'' demo_sched"
  let ?f = "?f0\<lparr>fo_handles := map spawn_handle (fo_handles ?f0)\<rparr>"
  have "fanout_open (with_ack_timeout (map (\<lambda>(n, w). (n, new_worker w)) demo_sinks) Fail ''1s'' demo_sched) = (Inr (), demo_fanout)"
    using demo_fanout_runs(1) by (simp add: demo_fanout_def prod_eq_iff)
  then obtain vs where "broadcast_and_await ''open'' Open ?f = (Inr vs, demo_fanout)"
    by (auto simp: fanout_open_def drop_result_def map_sum_Inr split: prod.splits)
  from broadcast_facts [OF this fanout_inv_open [OF fanout_inv_new]] have "fanout_inv demo_fanout" by simp
  moreover have "exec_task_ops demo_fanout_codec [Do_Write 1, Do_Write 2] demo_fanout = Some demo_fanout_used"
    using demo_fanout_runs(2) by (auto simp: demo_fanout_used_def)
  ultimately show ?thesis using exec_task_ops_facts by blast
qed

lemma demo_commit_runs:
  "map sh_name (fo_handles demo_fanout_used) = [''a#0'', ''b#1'']"
  "map sh_name (fo_handles (snd (fanout_prepare_commit demo_fanout_codec 7 demo_fanout_used))) = [''a#0'', ''b#1'']"
  "map sh_dead (fo_handles (snd (fanout_prepare_commit demo_fanout_codec 7 demo_fanout_used))) = [False, False]"
  "map_sum id (\<lambda>infos. (fst (fanout_commit demo_fanout_codec infos demo_committers), fst (fanout_abort demo_fanout_codec infos demo_committers)))
     (fst (fanout_prepare_commit demo_fanout_codec 7 demo_fanout_used)) = Inr (Inr (), Inr ())"
  by code_simp+

theorem commit_routes_own_infos_witness:
  "\<exists>infos f1 cs1. fanout_prepare_commit demo_fanout_codec 7 demo_fanout_used = (Inr infos, f1) \<and>
     fanout_commit demo_fanout_codec infos demo_committers = (Inr (), cs1) \<and>
     map_option snd (snd (cs1 ! 0)) = Some [own_infos (hnd f1 0)]"
proof -
  obtain infos f1 where p: "fanout_prepare_commit demo_fanout_codec 7 demo_fanout_used = (Inr infos, f1)"
    using demo_commit_runs(4)
    by (cases "fanout_prepare_commit demo_fanout_codec 7 demo_fanout_used") (simp only: fst_conv map_sum_Inr, blast)
  have r: "fst (fanout_commit demo_fanout_codec infos demo_committers) = Inr ()"
    "fst (fanout_abort demo_fanout_codec infos demo_committers) = Inr ()"
    using demo_commit_runs(4) unfolding p by (simp_all only: fst_conv map_sum.simps sum.inject prod.inject)
  obtain cs1 cs2 where c: "fanout_commit demo_fanout_codec infos demo_committers = (Inr (), cs1)"
    "fanout_abort demo_fanout_codec infos demo_committers = (Inr (), cs2)"
    using r by (metis prod.collapse)
  have n: "map fst demo_committers = map sh_name (fo_handles f1)" and l: "0 < length demo_committers"
    using demo_commit_runs(2) unfolding p by (simp_all add: demo_committers_def Let_def)
  have d: "distinct (map sh_name (fo_handles demo_fanout_used))" unfolding demo_commit_runs by simp
  have "map sh_dead (fo_handles f1) = [False, False]" using demo_commit_runs(3) unfolding p by (simp only: snd_conv)
  then have "\<not> sh_dead (hnd f1 0)" by (cases "fo_handles f1") auto
  then have "snd (cs1 ! 0) = routed cm_commit (Some (own_infos (hnd f1 0))) (snd (demo_committers ! 0))"
    using commit_routes_own_infos [OF demo_fanout_codec_ok demo_used_inv d p c n l] by (simp add: Let_def)
  with p c show ?thesis by (auto simp: routed_def demo_committers_def Let_def)
qed

end
