(* ===== verification/Task_Log.thy ===== *)
theory Task_Log
  imports Prelude
begin

text \<open>
  The per-task log ring (\<open>task_log.rs\<close>) and its shipping by the worker's heartbeat (\<open>heartbeat_tasks\<close> of
  \<open>worker.rs\<close>). A push takes its sequence number from an atomic counter and then stores the line under
  the lock of the ring; a heartbeat fetches the lines from its bookmark on and then moves the bookmark.
  These four steps interleave freely, so they are the steps of a relation; the sequential operations
  are their compositions. The time zone of a rendered time stamp is a parameter.
\<close>

section \<open>The ring\<close>

definition TASK_LOG_CAPACITY :: nat where
  "TASK_LOG_CAPACITY = 500"

record log_entry =
  le_seq :: nat
  le_time :: int
  le_level :: string
  le_message :: string

definition render :: "(int \<Rightarrow> string) \<Rightarrow> log_entry \<Rightarrow> string" where
  "render format_time e = ''['' @ format_time (le_time e) @ '']['' @ le_level e @ ''] '' @ le_message e"

record ring =
  rg_entries :: "log_entry list"
  rg_capacity :: nat
  rg_seq :: nat

definition ring_new :: "nat \<Rightarrow> ring" where
  "ring_new capacity = \<lparr>rg_entries = [], rg_capacity = max 16 (min 10000 capacity), rg_seq = 0\<rparr>"

definition ring_default :: ring where
  "ring_default = ring_new TASK_LOG_CAPACITY"

text \<open>A line: its time, level and message.\<close>

type_synonym line = "int \<times> string \<times> string"

definition take_seq :: "line \<Rightarrow> ring \<Rightarrow> log_entry \<times> ring" where
  "take_seq = (\<lambda>(time, level, message) r.
     (\<lparr>le_seq = rg_seq r, le_time = time, le_level = level, le_message = message\<rparr>,
      r\<lparr>rg_seq := (rg_seq r + 1) mod 2 ^ 64\<rparr>))"

definition store :: "log_entry \<Rightarrow> ring \<Rightarrow> ring" where
  "store e r =
     r\<lparr>rg_entries :=
       (if length (rg_entries r) = rg_capacity r then tl (rg_entries r) else rg_entries r) @ [e]\<rparr>"

definition push :: "line \<Rightarrow> ring \<Rightarrow> ring" where
  "push l r = (case take_seq l r of (e, r1) \<Rightarrow> store e r1)"

definition entries_after :: "nat \<Rightarrow> ring \<Rightarrow> log_entry list" where
  "entries_after cursor r = filter (\<lambda>e. cursor \<le> le_seq e) (rg_entries r)"

definition cursor :: "ring \<Rightarrow> nat" where
  "cursor r = rg_seq r"

definition line_of :: "log_entry \<Rightarrow> line" where
  "line_of e = (le_time e, le_level e, le_message e)"

section \<open>Pushes and heartbeats, interleaved\<close>

record log_state =
  lg_ring :: ring
  lg_inflight :: "log_entry list"
  lg_cursor :: nat
  lg_fetched :: bool
  lg_shipped :: "log_entry list"

definition log_start :: "nat \<Rightarrow> log_state" where
  "log_start capacity =
     \<lparr>lg_ring = ring_new capacity, lg_inflight = [], lg_cursor = 0, lg_fetched = False, lg_shipped = []\<rparr>"

datatype log_step = Take_Seq line | Store nat | Fetch | Move_Cursor

text \<open>\<open>None\<close>: the step is not enabled. \<open>Store i\<close> ends the \<open>i\<close>-th push that is under way.\<close>

fun ring_exec :: "log_step \<Rightarrow> log_state \<Rightarrow> log_state option" where
  "ring_exec (Take_Seq l) s =
     (case take_seq l (lg_ring s) of
        (e, r) \<Rightarrow> Some (s\<lparr>lg_ring := r, lg_inflight := lg_inflight s @ [e]\<rparr>))"
| "ring_exec (Store i) s =
     (if i < length (lg_inflight s)
      then Some (s\<lparr>lg_ring := store (lg_inflight s ! i) (lg_ring s),
             lg_inflight := take i (lg_inflight s) @ drop (Suc i) (lg_inflight s)\<rparr>)
      else None)"
| "ring_exec Fetch s =
     (if lg_fetched s then None
      else Some (s\<lparr>lg_fetched := True, lg_shipped := lg_shipped s @ entries_after (lg_cursor s) (lg_ring s)\<rparr>))"
| "ring_exec Move_Cursor s =
     (if lg_fetched s then Some (s\<lparr>lg_fetched := False, lg_cursor := cursor (lg_ring s)\<rparr>) else None)"

fun ring_run :: "log_step list \<Rightarrow> log_state \<Rightarrow> log_state option" where
  "ring_run [] s = Some s"
| "ring_run (st # sts) s = (case ring_exec st s of None \<Rightarrow> None | Some s1 \<Rightarrow> ring_run sts s1)"

section \<open>Nothing is shipped twice\<close>

definition log_inv :: "nat \<Rightarrow> log_state \<Rightarrow> bool" where
  "log_inv n s \<longleftrightarrow>
     (let seqs = map le_seq (rg_entries (lg_ring s) @ lg_inflight s) in
      distinct seqs \<and> (\<forall>q\<in>set seqs. q < rg_seq (lg_ring s)) \<and> rg_seq (lg_ring s) \<le> n \<and>
      distinct (map le_seq (lg_shipped s)) \<and> lg_cursor s \<le> rg_seq (lg_ring s) \<and>
      (\<forall>e\<in>set (lg_shipped s). le_seq e < (if lg_fetched s then rg_seq (lg_ring s) else lg_cursor s)))"

lemma log_inv_start: "log_inv 0 (log_start capacity)"
  by (simp add: log_inv_def log_start_def ring_new_def Let_def)

lemma set_tl: "x \<in> set (tl xs) \<Longrightarrow> x \<in> set xs"
  by (cases xs) auto

lemma set_stored: "set (rg_entries (store e r)) \<subseteq> insert e (set (rg_entries r))"
  by (cases "rg_entries r") (auto simp: store_def)

lemma remove_nth_props:
  assumes "i < length xs"
  shows "set (take i xs @ drop (Suc i) xs) \<subseteq> set xs"
    "distinct (map f xs) \<Longrightarrow> distinct (map f (xs ! i # take i xs @ drop (Suc i) xs))"
proof -
  have x: "xs = take i xs @ xs ! i # drop (Suc i) xs" using assms by (rule id_take_nth_drop)
  show "set (take i xs @ drop (Suc i) xs) \<subseteq> set xs" by (auto dest: in_set_takeD in_set_dropD)
  show "distinct (map f (xs ! i # take i xs @ drop (Suc i) xs))" if "distinct (map f xs)"
    using that by (subst (asm) x) (auto simp del: id_take_nth_drop)
qed

lemma store_seqs:
  assumes "distinct (map le_seq (rg_entries r @ fl))" and "i < length fl"
  shows "distinct (map le_seq (rg_entries (store (fl ! i) r) @ take i fl @ drop (Suc i) fl))"
proof -
  let ?rest = "take i fl @ drop (Suc i) fl"
  have fl: "distinct (map le_seq (fl ! i # ?rest))" "set (fl ! i # ?rest) \<subseteq> set fl"
    using remove_nth_props(1) [OF assms(2)] remove_nth_props(2) [OF assms(2), of le_seq] assms by auto
  define es where "es = (if length (rg_entries r) = rg_capacity r then tl (rg_entries r) else rg_entries r)"
  have es: "rg_entries (store (fl ! i) r) = es @ [fl ! i]" by (simp add: store_def es_def)
  have sub: "le_seq ` set es \<subseteq> le_seq ` set (rg_entries r)" "distinct (map le_seq es)"
    using assms(1) by (auto simp: es_def map_tl distinct_tl intro: image_mono dest: set_tl)
  have "le_seq ` set es \<inter> le_seq ` set fl = {}" using assms(1) sub(1) by auto
  then have "le_seq ` set es \<inter> le_seq ` set (fl ! i # ?rest) = {}" using image_mono [OF fl(2), of le_seq] by blast
  then show ?thesis using fl(1) sub(2) by (simp add: es disjoint_iff image_Un)
qed

lemma log_inv_exec:
  assumes "ring_exec st s = Some s'" and "log_inv n s" and "n < 2 ^ 64 - 1"
  shows "log_inv (Suc n) s'"
proof (cases st)
  case (Take_Seq l)
  then have "s' = s\<lparr>lg_ring := snd (take_seq l (lg_ring s)), lg_inflight := lg_inflight s @ [fst (take_seq l (lg_ring s))]\<rparr>"
    using assms(1) by (auto split: prod.splits)
  moreover have "(rg_seq (lg_ring s) + 1) mod 2 ^ 64 = rg_seq (lg_ring s) + 1"
    using assms(2,3) by (simp add: log_inv_def Let_def)
  ultimately show ?thesis using assms(2)
    by (simp only: log_inv_def Let_def) (auto simp: take_seq_def case_prod_beta less_Suc_eq)
next
  case (Store i)
  with assms(1) have i: "i < length (lg_inflight s)"
    and s': "s' = s\<lparr>lg_ring := store (lg_inflight s ! i) (lg_ring s),
      lg_inflight := take i (lg_inflight s) @ drop (Suc i) (lg_inflight s)\<rparr>"
    by (auto split: if_splits)
  have "set (rg_entries (lg_ring s') @ lg_inflight s') \<subseteq> set (rg_entries (lg_ring s) @ lg_inflight s)"
    using set_stored [of "lg_inflight s ! i" "lg_ring s"] remove_nth_props(1) [OF i] i s' by auto
  moreover have "distinct (map le_seq (rg_entries (lg_ring s') @ lg_inflight s'))"
    using store_seqs [OF assms(2) [unfolded log_inv_def Let_def, THEN conjunct1] i] s' by simp
  moreover have "rg_seq (lg_ring s') = rg_seq (lg_ring s)" "lg_cursor s' = lg_cursor s" "lg_fetched s' = lg_fetched s"
    "lg_shipped s' = lg_shipped s"
    using s' by (simp_all add: store_def)
  ultimately show ?thesis using assms(2) unfolding log_inv_def Let_def set_map by (simp only: le_SucI) blast
next
  case Fetch
  let ?new = "entries_after (lg_cursor s) (lg_ring s)"
  from Fetch assms(1) have idle: "\<not> lg_fetched s" and s': "s' = s\<lparr>lg_fetched := True, lg_shipped := lg_shipped s @ ?new\<rparr>"
    by (simp_all split: if_splits)
  note inv = assms(2) [unfolded log_inv_def Let_def]
  have "set ?new \<subseteq> set (rg_entries (lg_ring s))" by (auto simp: entries_after_def)
  then have new: "\<forall>e\<in>set ?new. lg_cursor s \<le> le_seq e \<and> le_seq e < rg_seq (lg_ring s)"
    using inv by (auto simp: entries_after_def)
  have "distinct (map le_seq ?new)" using inv by (simp add: entries_after_def distinct_map_filter)
  moreover have old: "\<forall>e\<in>set (lg_shipped s). le_seq e < lg_cursor s" using inv idle by simp
  ultimately have "distinct (map le_seq (lg_shipped s @ ?new))" using inv new
    by (auto simp: disjoint_iff) (metis leD)
  moreover have "\<forall>e\<in>set (lg_shipped s @ ?new). le_seq e < rg_seq (lg_ring s)"
    using old new inv by (metis Un_iff order_less_le_trans set_append)
  moreover have "lg_ring s' = lg_ring s" "lg_inflight s' = lg_inflight s" "lg_cursor s' = lg_cursor s" "lg_fetched s'"
    "lg_shipped s' = lg_shipped s @ ?new"
    using s' by simp_all
  ultimately show ?thesis using inv unfolding log_inv_def Let_def by (simp only: le_SucI if_True) blast
next
  case Move_Cursor
  with assms(1) have "lg_fetched s" and "s' = s\<lparr>lg_fetched := False, lg_cursor := cursor (lg_ring s)\<rparr>"
    by (simp_all split: if_splits)
  with assms(2) show ?thesis by (simp add: log_inv_def Let_def cursor_def)
qed

lemma log_inv_run:
  "ring_run sts s = Some s' \<Longrightarrow> log_inv n s \<Longrightarrow> n + length sts < 2 ^ 64 \<Longrightarrow> log_inv (n + length sts) s'"
proof (induction sts arbitrary: s n)
  case (Cons st sts)
  then obtain s1 where "ring_exec st s = Some s1" "ring_run sts s1 = Some s'" by (auto split: option.splits)
  with log_inv_exec [of st s s1 n] Cons.IH [of s1 "Suc n"] Cons.prems show ?case by simp
qed simp

text \<open>
  C39. Log lines are never sent twice. However pushes and heartbeats interleave, in a run of fewer than
  \<open>2\<^sup>6\<^sup>4\<close> steps from an empty ring the lines shipped to the master carry pairwise different sequence
  numbers.
\<close>

theorem lines_never_resent:
  assumes "ring_run sts (log_start capacity) = Some s" and "length sts < 2 ^ 64"
  shows "distinct (map le_seq (lg_shipped s))"
  using log_inv_run [OF assms(1) log_inv_start] assms(2) by (simp add: log_inv_def Let_def)

definition demo_line :: "nat \<Rightarrow> line" where
  "demo_line n = (int n, ''INFO'', [digit_char n])"

theorem lines_never_resent_witness:
  "map_option (\<lambda>s. distinct (map le_seq (lg_shipped s)) \<and> length (lg_shipped s) = 2)
     (ring_run [Take_Seq (demo_line 1), Store 0, Fetch, Move_Cursor, Take_Seq (demo_line 2), Store 0, Fetch] (log_start 16)) =
   Some True"
proof -
  let ?sts = "[Take_Seq (demo_line 1), Store 0, Fetch, Move_Cursor, Take_Seq (demo_line 2), Store 0, Fetch]"
  obtain s where s: "ring_run ?sts (log_start 16) = Some s" "length (lg_shipped s) = 2"
    by (simp add: log_start_def ring_new_def take_seq_def store_def demo_line_def entries_after_def cursor_def)
  with lines_never_resent [OF s(1)] show ?thesis by simp
qed

section \<open>What a heartbeat ships\<close>

text \<open>Between two heartbeats that no push overlaps.\<close>

definition ring_ok :: "ring \<Rightarrow> bool" where
  "ring_ok r \<longleftrightarrow>
     0 < rg_capacity r \<and> length (rg_entries r) \<le> rg_capacity r \<and> (\<forall>e\<in>set (rg_entries r). le_seq e < rg_seq r)"

definition push_all :: "line list \<Rightarrow> ring \<Rightarrow> ring" where
  "push_all = fold push"

definition last_n :: "nat \<Rightarrow> 'a list \<Rightarrow> 'a list" where
  "last_n n xs = drop (length xs - n) xs"

lemma last_n_snoc:
  "0 < n \<Longrightarrow> last_n n (xs @ [x]) = (if length (last_n n xs) = n then tl (last_n n xs) else last_n n xs) @ [x]"
  by (auto simp: last_n_def drop_Suc drop_tl Suc_diff_le)

lemma push_all_entries:
  assumes "ring_ok r" and "rg_seq r + length ls < 2 ^ 64"
  shows "\<exists>es. rg_entries (push_all ls r) = last_n (rg_capacity r) (rg_entries r @ es) \<and> map line_of es = ls \<and>
    map le_seq es = [rg_seq r..<rg_seq r + length ls] \<and> rg_seq (push_all ls r) = rg_seq r + length ls \<and>
    rg_capacity (push_all ls r) = rg_capacity r"
  using assms(2)
proof (induction ls rule: rev_induct)
  case Nil
  show ?case using assms(1) by (intro exI [of _ "[]"]) (simp add: push_all_def last_n_def ring_ok_def)
next
  case (snoc l ls)
  let ?r = "push_all ls r"
  from snoc obtain es where es: "rg_entries ?r = last_n (rg_capacity r) (rg_entries r @ es)" "map line_of es = ls"
    "map le_seq es = [rg_seq r..<rg_seq r + length ls]" "rg_seq ?r = rg_seq r + length ls" "rg_capacity ?r = rg_capacity r"
    by auto
  let ?e = "fst (take_seq l ?r)"
  have l: "line_of ?e = l" "le_seq ?e = rg_seq r + length ls"
    using es(4) by (simp_all add: take_seq_def line_of_def case_prod_beta)
  have n: "0 < rg_capacity r" using assms(1) by (simp add: ring_ok_def)
  have "push_all (ls @ [l]) r = store ?e (snd (take_seq l ?r))"
    by (simp add: push_all_def push_def case_prod_beta)
  then have "rg_entries (push_all (ls @ [l]) r) = last_n (rg_capacity r) (rg_entries r @ es @ [?e])"
    "rg_seq (push_all (ls @ [l]) r) = rg_seq r + length (ls @ [l])" "rg_capacity (push_all (ls @ [l]) r) = rg_capacity r"
    using es snoc.prems last_n_snoc [OF n, of "rg_entries r @ es" ?e]
    by (simp_all add: store_def take_seq_def case_prod_beta)
  with es l show ?case by (intro exI [of _ "es @ [?e]"]) simp
qed

text \<open>
  A heartbeat ships the new lines. When \<open>ls\<close> was pushed since the bookmark was taken, in whole
  pushes, the heartbeat fetches exactly the newest lines of \<open>ls\<close> that fit in the ring, oldest first, and
  all of \<open>ls\<close> when it is no longer than the capacity.
\<close>

theorem heartbeat_ships_new_lines:
  assumes "ring_ok r" and "rg_seq r + length ls < 2 ^ 64"
  shows "map line_of (entries_after (cursor r) (push_all ls r)) = last_n (rg_capacity r) ls"
proof -
  obtain es where es: "rg_entries (push_all ls r) = last_n (rg_capacity r) (rg_entries r @ es)" "map line_of es = ls"
    "map le_seq es = [rg_seq r..<rg_seq r + length ls]"
    using push_all_entries [OF assms] by blast
  have old: "filter (\<lambda>e. rg_seq r \<le> le_seq e) (drop k (rg_entries r)) = []" for k
    using assms(1) by (force simp: ring_ok_def filter_empty_conv dest: in_set_dropD)
  have "\<forall>e\<in>set es. rg_seq r \<le> le_seq e" using es(3) by (metis atLeastLessThan_iff image_eqI image_set set_upt)
  then have new: "filter (\<lambda>e. rg_seq r \<le> le_seq e) (drop k es) = drop k es" for k
    by (auto simp: filter_id_conv dest: in_set_dropD)
  have len: "length es = length ls" using es(2) by auto
  have "length (rg_entries r) \<le> rg_capacity r" using assms(1) by (simp add: ring_ok_def)
  then have "entries_after (cursor r) (push_all ls r) = last_n (rg_capacity r) es"
    by (simp add: entries_after_def cursor_def es(1) last_n_def old new)
  then show ?thesis using es(2) len by (simp add: last_n_def drop_map [symmetric])
qed

theorem heartbeat_ships_new_lines_witness:
  "map line_of (entries_after (cursor (ring_new 16)) (push_all (map demo_line [1, 2]) (ring_new 16))) =
     [demo_line 1, demo_line 2]"
proof -
  have "ring_ok (ring_new 16)" "rg_seq (ring_new 16) + length (map demo_line [1, 2]) < 2 ^ 64"
    by (simp_all add: ring_ok_def ring_new_def)
  from heartbeat_ships_new_lines [OF this] show ?thesis by (simp add: last_n_def ring_new_def)
qed

text \<open>
  A push that overlaps a heartbeat can lose its line. Stored after the fetch but numbered before the
  bookmark moves, the line is in the ring, below the bookmark, and not shipped; no later heartbeat
  fetches it.
\<close>

theorem overlapped_line_skipped:
  "\<exists>s e. ring_run [Fetch, Take_Seq l, Store 0, Move_Cursor] (log_start capacity) = Some s \<and>
     rg_entries (lg_ring s) = [e] \<and> line_of e = l \<and> lg_shipped s = [] \<and>
     entries_after (lg_cursor s) (lg_ring s) = []"
  by (simp add: log_start_def ring_new_def take_seq_def case_prod_beta store_def line_of_def entries_after_def cursor_def)

end
