(* ===== verification/Recovery.thy ===== *)
theory Recovery
  imports Prelude
begin

text \<open>
  The failure recovery manager (\<open>recovery.rs\<close>) and the checkpoint records it keeps (\<open>checkpoint.rs\<close>): which
  action a failure of a task or of a worker leads to, with retry counts per task. The counts are \<open>u32\<close>;
  an overflowing increment panics in a build with overflow checks, and so does indexing an empty task
  list in every build: both are the result \<open>None\<close>
  of \<open>handle_failure\<close>.
\<close>

section \<open>Completed checkpoints\<close>

record task_checkpoint_state =
  tcs_task_id :: string
  tcs_checkpoint_id :: nat
  tcs_timestamp :: int
  tcs_state_data :: "8 word list"
  tcs_is_done :: bool
  tcs_error :: "string option"

definition task_checkpoint_state_new :: "string \<Rightarrow> nat \<Rightarrow> int \<Rightarrow> task_checkpoint_state" where
  "task_checkpoint_state_new task cp time =
     \<lparr>tcs_task_id = task, tcs_checkpoint_id = cp, tcs_timestamp = time, tcs_state_data = [],
      tcs_is_done = False, tcs_error = None\<rparr>"

definition complete_state :: "task_checkpoint_state \<Rightarrow> task_checkpoint_state" where
  "complete_state s = s\<lparr>tcs_is_done := True\<rparr>"

definition fail_state :: "string \<Rightarrow> task_checkpoint_state \<Rightarrow> task_checkpoint_state" where
  "fail_state e s = s\<lparr>tcs_is_done := True, tcs_error := Some e\<rparr>"

record completed_checkpoint =
  ccp_checkpoint_id :: nat
  ccp_timestamp :: int
  ccp_task_states :: "task_checkpoint_state list"
  ccp_is_global :: bool
  ccp_is_savepoint :: bool
  ccp_savepoint_path :: "string option"

definition completed_checkpoint_new :: "nat \<Rightarrow> int \<Rightarrow> completed_checkpoint" where
  "completed_checkpoint_new cp time =
     \<lparr>ccp_checkpoint_id = cp, ccp_timestamp = time, ccp_task_states = [], ccp_is_global = False,
      ccp_is_savepoint = False, ccp_savepoint_path = None\<rparr>"

definition add_task_state :: "task_checkpoint_state \<Rightarrow> completed_checkpoint \<Rightarrow> completed_checkpoint" where
  "add_task_state s c = c\<lparr>ccp_task_states := ccp_task_states c @ [s]\<rparr>"

definition is_success :: "completed_checkpoint \<Rightarrow> bool" where
  "is_success c = list_all (\<lambda>s. tcs_is_done s \<and> tcs_error s = None) (ccp_task_states c)"

definition set_as_savepoint :: "string \<Rightarrow> completed_checkpoint \<Rightarrow> completed_checkpoint" where
  "set_as_savepoint path c = c\<lparr>ccp_is_savepoint := True, ccp_savepoint_path := Some path\<rparr>"

section \<open>The manager\<close>

datatype failure_event =
    TaskFailed string string
  | WorkerLost string "string list"
  | MasterFailed

datatype recovery_action =
    RestartFromCheckpoint nat
  | RestartFromBeginning
  | RestartJob
  | Retry

record recovery_plan =
  rp_failed_tasks :: "string list"
  rp_last_checkpoint_id :: "nat option"
  rp_restart_from_checkpoint :: bool
  rp_recovery_action :: recovery_action

datatype recovery_state =
    Recovering nat
  | Recovered
  | RecoveryFailed string

record recovery_manager =
  rm_last_checkpoints :: "(string, completed_checkpoint) hashmap"
  rm_recovery_states :: "(string, recovery_state) hashmap"
  rm_max_retries :: nat
  rm_retry_counts :: "(string, nat) hashmap"

definition recovery_manager_new :: "nat \<Rightarrow> recovery_manager" where
  "recovery_manager_new max_retries =
     \<lparr>rm_last_checkpoints = hm_empty, rm_recovery_states = hm_empty, rm_max_retries = max_retries,
      rm_retry_counts = hm_empty\<rparr>"

definition record_checkpoint :: "string \<Rightarrow> completed_checkpoint \<Rightarrow> recovery_manager \<Rightarrow> recovery_manager" where
  "record_checkpoint job c m = m\<lparr>rm_last_checkpoints := hm_insert job c (rm_last_checkpoints m)\<rparr>"

definition failed_tasks :: "failure_event \<Rightarrow> string list" where
  "failed_tasks ev = (case ev of TaskFailed t _ \<Rightarrow> [t] | WorkerLost _ ts \<Rightarrow> ts | MasterFailed \<Rightarrow> [])"

definition u32_max :: nat where
  "u32_max = 2 ^ 32 - 1"

fun bump_counts :: "string list \<Rightarrow> (string, nat) hashmap \<Rightarrow> (string, nat) hashmap option" where
  "bump_counts [] counts = Some counts"
| "bump_counts (t # ts) counts =
     (let n = (case hm_get counts t of None \<Rightarrow> 0 | Some k \<Rightarrow> k) in
      if n = u32_max then None else bump_counts ts (hm_insert t (n + 1) counts))"

definition choose_action :: "nat option \<Rightarrow> string list \<Rightarrow> recovery_manager \<Rightarrow> recovery_action option" where
  "choose_action last_cp tasks m =
     (case last_cp of
        None \<Rightarrow> Some RestartFromBeginning
      | Some cp \<Rightarrow>
          (case tasks of
             [] \<Rightarrow> None
           | t # _ \<Rightarrow>
               (case hm_get (rm_retry_counts m) t of
                  Some n \<Rightarrow> Some (if rm_max_retries m \<le> n then RestartJob else RestartFromCheckpoint cp)
                | None \<Rightarrow> Some (RestartFromCheckpoint cp))))"

definition handle_failure ::
    "string \<Rightarrow> failure_event \<Rightarrow> recovery_manager \<Rightarrow> (recovery_plan \<times> recovery_manager) option" where
  "handle_failure job ev m =
     (case ev of
        MasterFailed \<Rightarrow>
          Some (\<lparr>rp_failed_tasks = [], rp_last_checkpoint_id = None, rp_restart_from_checkpoint = False,
                 rp_recovery_action = RestartJob\<rparr>, m)
      | _ \<Rightarrow>
          let tasks = failed_tasks ev;
              last_cp = map_option ccp_checkpoint_id (hm_get (rm_last_checkpoints m) job) in
          (case choose_action last_cp tasks m of
             None \<Rightarrow> None
           | Some act \<Rightarrow>
               (case bump_counts tasks (rm_retry_counts m) of
                  None \<Rightarrow> None
                | Some counts \<Rightarrow>
                    Some (\<lparr>rp_failed_tasks = tasks, rp_last_checkpoint_id = last_cp,
                           rp_restart_from_checkpoint = True, rp_recovery_action = act\<rparr>,
                          m\<lparr>rm_retry_counts := counts\<rparr>))))"

definition start_recovery :: "string \<Rightarrow> nat \<Rightarrow> recovery_manager \<Rightarrow> recovery_manager" where
  "start_recovery task cp m = m\<lparr>rm_recovery_states := hm_insert task (Recovering cp) (rm_recovery_states m)\<rparr>"

definition complete_recovery :: "string \<Rightarrow> recovery_manager \<Rightarrow> recovery_manager" where
  "complete_recovery task m =
     m\<lparr>rm_recovery_states := hm_insert task Recovered (rm_recovery_states m),
       rm_retry_counts := hm_remove task (rm_retry_counts m)\<rparr>"

definition fail_recovery :: "string \<Rightarrow> string \<Rightarrow> recovery_manager \<Rightarrow> recovery_manager" where
  "fail_recovery task e m = m\<lparr>rm_recovery_states := hm_insert task (RecoveryFailed e) (rm_recovery_states m)\<rparr>"

section \<open>Histories\<close>

datatype recovery_op =
    Op_Checkpoint string completed_checkpoint
  | Op_Failure string failure_event
  | Op_Start string nat
  | Op_Complete string
  | Op_Fail string string

fun recovery_exec :: "recovery_op \<Rightarrow> recovery_manager \<Rightarrow> recovery_manager option" where
  "recovery_exec (Op_Checkpoint job c) m = Some (record_checkpoint job c m)"
| "recovery_exec (Op_Failure job ev) m = map_option snd (handle_failure job ev m)"
| "recovery_exec (Op_Start t cp) m = Some (start_recovery t cp m)"
| "recovery_exec (Op_Complete t) m = Some (complete_recovery t m)"
| "recovery_exec (Op_Fail t e) m = Some (fail_recovery t e m)"

fun recovery_run :: "recovery_op list \<Rightarrow> recovery_manager \<Rightarrow> recovery_manager option" where
  "recovery_run [] m = Some m"
| "recovery_run (oper # ops) m = (case recovery_exec oper m of None \<Rightarrow> None | Some m1 \<Rightarrow> recovery_run ops m1)"

text \<open>What a history says: the failures of a task since its last completed recovery, and the last checkpoint of a job.\<close>

fun failures_since :: "string \<Rightarrow> recovery_op list \<Rightarrow> nat \<Rightarrow> nat" where
  "failures_since t [] n = n"
| "failures_since t (Op_Failure job ev # ops) n = failures_since t ops (n + count_list (failed_tasks ev) t)"
| "failures_since t (Op_Complete t' # ops) n = failures_since t ops (if t' = t then 0 else n)"
| "failures_since t (_ # ops) n = failures_since t ops n"

fun checkpoint_of :: "string \<Rightarrow> recovery_op list \<Rightarrow> nat option \<Rightarrow> nat option" where
  "checkpoint_of job [] c = c"
| "checkpoint_of job (Op_Checkpoint job' cp # ops) c =
     checkpoint_of job ops (if job' = job then Some (ccp_checkpoint_id cp) else c)"
| "checkpoint_of job (_ # ops) c = checkpoint_of job ops c"

definition count_of :: "recovery_manager \<Rightarrow> string \<Rightarrow> nat" where
  "count_of m t = (case hm_get (rm_retry_counts m) t of None \<Rightarrow> 0 | Some n \<Rightarrow> n)"

definition last_cp_of :: "recovery_manager \<Rightarrow> string \<Rightarrow> nat option" where
  "last_cp_of m job = map_option ccp_checkpoint_id (hm_get (rm_last_checkpoints m) job)"

lemma bump_counts_get:
  "bump_counts ts counts = Some counts' \<Longrightarrow>
     (case hm_get counts' t of None \<Rightarrow> 0 | Some n \<Rightarrow> n) =
       (case hm_get counts t of None \<Rightarrow> 0 | Some n \<Rightarrow> n) + count_list ts t"
  by (induction ts arbitrary: counts) (auto simp: Let_def hm_get_insert split: if_splits option.splits)

lemma bump_counts_total:
  "(\<And>t. t \<in> set ts \<Longrightarrow> (case hm_get counts t of None \<Rightarrow> 0 | Some n \<Rightarrow> n) + length ts \<le> u32_max) \<Longrightarrow>
     \<exists>counts'. bump_counts ts counts = Some counts'"
proof (induction ts arbitrary: counts)
  case (Cons t ts)
  have "(case hm_get counts t of None \<Rightarrow> 0 | Some n \<Rightarrow> n) + length (t # ts) \<le> u32_max" using Cons.prems by simp
  then have n: "(case hm_get counts t of None \<Rightarrow> 0 | Some n \<Rightarrow> n) \<noteq> u32_max" by simp
  have "(case hm_get (hm_insert t ((case hm_get counts t of None \<Rightarrow> 0 | Some n \<Rightarrow> n) + 1) counts) u of None \<Rightarrow> 0 | Some n \<Rightarrow> n)
      + length ts \<le> u32_max" if "u \<in> set ts" for u
    using that Cons.prems [of u] Cons.prems [of t] by (auto simp: hm_get_insert)
  from Cons.IH [OF this] n show ?case by (simp add: Let_def)
qed simp

lemma handle_failure_counts:
  assumes "handle_failure job ev m = Some (plan, m')"
  shows "count_of m' t = count_of m t + count_list (failed_tasks ev) t"
    "rm_last_checkpoints m' = rm_last_checkpoints m" "rm_max_retries m' = rm_max_retries m"
proof -
  have "ev = MasterFailed \<and> m' = m \<or> (\<exists>counts. bump_counts (failed_tasks ev) (rm_retry_counts m) = Some counts \<and>
      m' = m\<lparr>rm_retry_counts := counts\<rparr>)"
    using assms unfolding handle_failure_def by (cases ev) (auto simp: Let_def split: option.splits)
  then show "count_of m' t = count_of m t + count_list (failed_tasks ev) t"
    "rm_last_checkpoints m' = rm_last_checkpoints m" "rm_max_retries m' = rm_max_retries m"
    using bump_counts_get [of "failed_tasks ev" "rm_retry_counts m" _ t] by (auto simp: count_of_def failed_tasks_def)
qed

lemmas recovery_op_defs =
  record_checkpoint_def start_recovery_def complete_recovery_def fail_recovery_def count_of_def last_cp_of_def

lemma recovery_exec_counts:
  assumes "recovery_exec oper m = Some m'"
  shows "count_of m' t = failures_since t [oper] (count_of m t) \<and>
    last_cp_of m' job = checkpoint_of job [oper] (last_cp_of m job) \<and> rm_max_retries m' = rm_max_retries m"
proof (cases oper)
  case (Op_Failure j ev)
  with assms obtain plan where "handle_failure j ev m = Some (plan, m')" by auto
  from handle_failure_counts [OF this] Op_Failure show ?thesis by (simp add: last_cp_of_def)
qed (use assms in \<open>auto simp: recovery_op_defs hm_get_insert hm_get_remove\<close>)

lemma failures_since_Cons: "failures_since t (oper # ops) n = failures_since t ops (failures_since t [oper] n)"
  by (cases oper) simp_all

lemma checkpoint_of_Cons: "checkpoint_of job (oper # ops) c = checkpoint_of job ops (checkpoint_of job [oper] c)"
  by (cases oper) simp_all

lemma recovery_run_counts:
  "recovery_run ops m = Some m' \<Longrightarrow>
     count_of m' t = failures_since t ops (count_of m t) \<and> last_cp_of m' job = checkpoint_of job ops (last_cp_of m job) \<and>
     rm_max_retries m' = rm_max_retries m"
proof (induction ops arbitrary: m)
  case (Cons oper ops)
  then obtain m1 where m1: "recovery_exec oper m = Some m1" "recovery_run ops m1 = Some m'" by (auto split: option.splits)
  from recovery_exec_counts [OF m1(1)] Cons.IH [OF m1(2)] show ?case
    by (simp only: failures_since_Cons [of t oper ops] checkpoint_of_Cons [of job oper ops] simp_thms)
qed simp


text \<open>A lost worker without tasks makes the manager panic once the job has a checkpoint.\<close>

lemma worker_without_tasks_panics:
  "handle_failure job (WorkerLost w []) m = None \<longleftrightarrow> last_cp_of m job \<noteq> None"
  by (auto simp: handle_failure_def failed_tasks_def choose_action_def last_cp_of_def Let_def split: option.splits)

definition demo_history :: "recovery_op list" where
  "demo_history =
     [Op_Checkpoint ''job'' (completed_checkpoint_new 5 0), Op_Failure ''job'' (TaskFailed ''t'' ''e''),
      Op_Failure ''job'' (WorkerLost ''w'' [''t'', ''u''])]"


end
