(* ===== verification/Rows.thy ===== *)
theory Rows
  imports Json "HOL-Library.Word"
begin

text \<open>
  The data model of the connectors (\<open>seatunnel-api/src/row\<close>, \<open>seatunnel-api/src/schema\<close>): column types, field
  values, rows with their change kind, table schemas and schema changes. Integers have their width.
  Floating point numbers are bit patterns; a decimal is a mantissa and a scale; dates and times are
  counts. How the libraries print floats, decimals, JSON and times is the parameter \<open>texts\<close>.
\<close>

section \<open>Column types\<close>

datatype column_type =
    TBool
  | TInt8 | TInt16 | TInt32 | TInt64
  | TUInt8 | TUInt16 | TUInt32 | TUInt64
  | TFloat32 | TFloat64
  | TDecimal "8 word" "8 word"
  | TString | TBytes | TJson
  | TDate | TTime | TDateTime | TTimestampTz | TDuration
  | TArray column_type
  | TMap column_type column_type
  | TNullable column_type

definition ct_is_nullable :: "column_type \<Rightarrow> bool" where
  "ct_is_nullable t = (case t of TNullable _ \<Rightarrow> True | _ \<Rightarrow> False)"

definition as_nullable :: "column_type \<Rightarrow> column_type option" where
  "as_nullable t = (case t of TNullable inner \<Rightarrow> Some inner | _ \<Rightarrow> None)"

fun unnested :: "column_type \<Rightarrow> column_type" where
  "unnested (TNullable inner) = unnested inner"
| "unnested t = t"

definition is_numeric :: "column_type \<Rightarrow> bool" where
  "is_numeric t =
     (case unnested t of
        TInt8 \<Rightarrow> True | TInt16 \<Rightarrow> True | TInt32 \<Rightarrow> True | TInt64 \<Rightarrow> True
      | TUInt8 \<Rightarrow> True | TUInt16 \<Rightarrow> True | TUInt32 \<Rightarrow> True | TUInt64 \<Rightarrow> True
      | TFloat32 \<Rightarrow> True | TFloat64 \<Rightarrow> True | TDecimal _ _ \<Rightarrow> True | _ \<Rightarrow> False)"

definition is_temporal :: "column_type \<Rightarrow> bool" where
  "is_temporal t =
     (case unnested t of TDate \<Rightarrow> True | TTime \<Rightarrow> True | TTimestampTz \<Rightarrow> True | TDuration \<Rightarrow> True | _ \<Rightarrow> False)"

definition is_string :: "column_type \<Rightarrow> bool" where
  "is_string t = (case unnested t of TString \<Rightarrow> True | TJson \<Rightarrow> True | _ \<Rightarrow> False)"

fun type_name :: "column_type \<Rightarrow> string" where
  "type_name TBool = ''BOOLEAN''"
| "type_name TInt8 = ''TINYINT''"
| "type_name TInt16 = ''SMALLINT''"
| "type_name TInt32 = ''INT''"
| "type_name TInt64 = ''BIGINT''"
| "type_name TUInt8 = ''TINYINT UNSIGNED''"
| "type_name TUInt16 = ''SMALLINT UNSIGNED''"
| "type_name TUInt32 = ''INT UNSIGNED''"
| "type_name TUInt64 = ''BIGINT UNSIGNED''"
| "type_name TFloat32 = ''FLOAT''"
| "type_name TFloat64 = ''DOUBLE''"
| "type_name (TDecimal p s) =
     (if s = 0 then ''DECIMAL('' @ show_nat (unat p) @ '')''
      else ''DECIMAL('' @ show_nat (unat p) @ '','' @ show_int (sint s) @ '')'')"
| "type_name TString = ''STRING''"
| "type_name TBytes = ''BYTES''"
| "type_name TJson = ''JSON''"
| "type_name TDate = ''DATE''"
| "type_name TTime = ''TIME''"
| "type_name TDateTime = ''DATETIME''"
| "type_name TTimestampTz = ''TIMESTAMP_TZ''"
| "type_name TDuration = ''INTERVAL''"
| "type_name (TArray _) = ''ARRAY''"
| "type_name (TMap _ _) = ''MAP''"
| "type_name (TNullable inner) = type_name inner"

section \<open>Fields and rows\<close>

datatype field =
    FNull
  | FBool bool
  | FInt8 "8 word" | FInt16 "16 word" | FInt32 "32 word" | FInt64 "64 word"
  | FUInt8 "8 word" | FUInt16 "16 word" | FUInt32 "32 word" | FUInt64 "64 word"
  | FFloat32 "32 word" | FFloat64 "64 word"
  | FDecimal int int
  | FString string
  | FBytes "8 word list"
  | FJson json
  | FDate int | FTime int | FDateTime int | FTimestampTz int
  | FDuration "64 word"
  | FArray "field list"
  | FRow "field list"

fun field_type :: "field \<Rightarrow> column_type option" where
  "field_type FNull = None"
| "field_type (FBool _) = Some TBool"
| "field_type (FInt8 _) = Some TInt8"
| "field_type (FInt16 _) = Some TInt16"
| "field_type (FInt32 _) = Some TInt32"
| "field_type (FInt64 _) = Some TInt64"
| "field_type (FUInt8 _) = Some TUInt8"
| "field_type (FUInt16 _) = Some TUInt16"
| "field_type (FUInt32 _) = Some TUInt32"
| "field_type (FUInt64 _) = Some TUInt64"
| "field_type (FFloat32 _) = Some TFloat32"
| "field_type (FFloat64 _) = Some TFloat64"
| "field_type (FDecimal _ _) = Some (TDecimal 38 0)"
| "field_type (FString _) = Some TString"
| "field_type (FBytes _) = Some TBytes"
| "field_type (FJson _) = Some TJson"
| "field_type (FDate _) = Some TDate"
| "field_type (FTime _) = Some TTime"
| "field_type (FDateTime _) = Some TDateTime"
| "field_type (FTimestampTz _) = Some TTimestampTz"
| "field_type (FDuration _) = Some TDuration"
| "field_type (FArray _) = Some (TArray TString)"
| "field_type (FRow _) = Some TString"

definition as_bool :: "field \<Rightarrow> bool option" where
  "as_bool f = (case f of FBool v \<Rightarrow> Some v | _ \<Rightarrow> None)"

fun field_as_i32 :: "field \<Rightarrow> 32 word option" where
  "field_as_i32 (FInt8 v) = Some (scast v)"
| "field_as_i32 (FInt16 v) = Some (scast v)"
| "field_as_i32 (FInt32 v) = Some v"
| "field_as_i32 (FInt64 v) = (if - (2 ^ 31) \<le> sint v \<and> sint v < 2 ^ 31 then Some (scast v) else None)"
| "field_as_i32 _ = None"

fun field_as_i64 :: "field \<Rightarrow> 64 word option" where
  "field_as_i64 (FInt8 v) = Some (scast v)"
| "field_as_i64 (FInt16 v) = Some (scast v)"
| "field_as_i64 (FInt32 v) = Some (scast v)"
| "field_as_i64 (FInt64 v) = Some v"
| "field_as_i64 (FUInt8 v) = Some (ucast v)"
| "field_as_i64 (FUInt16 v) = Some (ucast v)"
| "field_as_i64 (FUInt32 v) = Some (ucast v)"
| "field_as_i64 (FUInt64 v) = (if uint v < 2 ^ 63 then Some v else None)"
| "field_as_i64 _ = None"

definition field_str :: "field \<Rightarrow> string option" where
  "field_str f = (case f of FString v \<Rightarrow> Some v | _ \<Rightarrow> None)"

definition as_bytes :: "field \<Rightarrow> 8 word list option" where
  "as_bytes f = (case f of FBytes v \<Rightarrow> Some v | _ \<Rightarrow> None)"

definition is_null :: "field \<Rightarrow> bool" where
  "is_null f = (case f of FNull \<Rightarrow> True | _ \<Rightarrow> False)"

text \<open>The mathematical value of an integer field, to state what the conversions keep.\<close>

fun int_value :: "field \<Rightarrow> int option" where
  "int_value (FInt8 v) = Some (sint v)"
| "int_value (FInt16 v) = Some (sint v)"
| "int_value (FInt32 v) = Some (sint v)"
| "int_value (FInt64 v) = Some (sint v)"
| "int_value (FUInt8 v) = Some (uint v)"
| "int_value (FUInt16 v) = Some (uint v)"
| "int_value (FUInt32 v) = Some (uint v)"
| "int_value (FUInt64 v) = Some (uint v)"
| "int_value _ = None"

datatype row_kind = Insert | UpdateBefore | UpdateAfter | Delete

definition is_insert_like :: "row_kind \<Rightarrow> bool" where
  "is_insert_like k = (case k of Insert \<Rightarrow> True | UpdateAfter \<Rightarrow> True | _ \<Rightarrow> False)"

definition is_delete_like :: "row_kind \<Rightarrow> bool" where
  "is_delete_like k = (case k of Delete \<Rightarrow> True | UpdateBefore \<Rightarrow> True | _ \<Rightarrow> False)"

definition kind_from_char :: "char \<Rightarrow> row_kind option" where
  "kind_from_char c =
     (if c \<in> {CHR ''c'', CHR ''I''} then Some Insert
      else if c \<in> {CHR ''u'', CHR ''U''} then Some UpdateAfter
      else if c = CHR ''b'' then Some UpdateBefore
      else if c \<in> {CHR ''d'', CHR ''D''} then Some Delete
      else None)"

fun kind_to_char :: "row_kind \<Rightarrow> char" where
  "kind_to_char Insert = CHR ''c''"
| "kind_to_char UpdateAfter = CHR ''u''"
| "kind_to_char UpdateBefore = CHR ''b''"
| "kind_to_char Delete = CHR ''d''"

record row =
  row_kind :: row_kind
  row_fields :: "field list"
  row_origin :: "string option"

definition row_new :: "row_kind \<Rightarrow> nat \<Rightarrow> row" where
  "row_new k n = \<lparr>row_kind = k, row_fields = replicate n FNull, row_origin = None\<rparr>"

definition field_count :: "row \<Rightarrow> nat" where
  "field_count r = length (row_fields r)"

text \<open>Indexing past the end panics: the result is \<open>None\<close>.\<close>

definition row_get :: "row \<Rightarrow> nat \<Rightarrow> field option" where
  "row_get r i = (if i < field_count r then Some (row_fields r ! i) else None)"

definition row_set :: "nat \<Rightarrow> field \<Rightarrow> row \<Rightarrow> row option" where
  "row_set i f r = (if i < field_count r then Some (r\<lparr>row_fields := (row_fields r)[i := f]\<rparr>) else None)"

definition is_all_null :: "row \<Rightarrow> bool" where
  "is_all_null r = list_all is_null (row_fields r)"

definition with_field :: "field \<Rightarrow> row \<Rightarrow> row" where
  "with_field f r = r\<lparr>row_fields := row_fields r @ [f]\<rparr>"

definition with_origin_table :: "string \<Rightarrow> row \<Rightarrow> row" where
  "with_origin_table origin r = r\<lparr>row_origin := Some origin\<rparr>"

section \<open>Printing\<close>

record texts =
  tx_f32 :: "32 word \<Rightarrow> string"
  tx_f64 :: "64 word \<Rightarrow> string"
  tx_decimal :: "int \<Rightarrow> int \<Rightarrow> string"
  tx_json :: "json \<Rightarrow> string"
  tx_date :: "int \<Rightarrow> string"
  tx_time :: "int \<Rightarrow> string"
  tx_datetime :: "int \<Rightarrow> string"
  tx_timestamp :: "int \<Rightarrow> string"

definition hex_digit :: "nat \<Rightarrow> char" where
  "hex_digit n = (if n < 10 then char_of (48 + n) else char_of (87 + n))"

definition hex_encode :: "8 word list \<Rightarrow> string" where
  "hex_encode bs = concat (map (\<lambda>b. [hex_digit (unat b div 16), hex_digit (unat b mod 16)]) bs)"

definition quote :: char where
  "quote = CHR 0x22"

fun display_field :: "texts \<Rightarrow> field \<Rightarrow> string" where
  "display_field tx FNull = ''NULL''"
| "display_field tx (FBool v) = (if v then ''true'' else ''false'')"
| "display_field tx (FInt8 v) = show_int (sint v)"
| "display_field tx (FInt16 v) = show_int (sint v)"
| "display_field tx (FInt32 v) = show_int (sint v)"
| "display_field tx (FInt64 v) = show_int (sint v)"
| "display_field tx (FUInt8 v) = show_nat (unat v)"
| "display_field tx (FUInt16 v) = show_nat (unat v)"
| "display_field tx (FUInt32 v) = show_nat (unat v)"
| "display_field tx (FUInt64 v) = show_nat (unat v)"
| "display_field tx (FFloat32 v) = tx_f32 tx v"
| "display_field tx (FFloat64 v) = tx_f64 tx v"
| "display_field tx (FDecimal m e) = tx_decimal tx m e"
| "display_field tx (FString v) = quote # v @ [quote]"
| "display_field tx (FBytes v) = ''0x'' @ hex_encode v"
| "display_field tx (FJson v) = tx_json tx v"
| "display_field tx (FDate v) = tx_date tx v"
| "display_field tx (FTime v) = tx_time tx v"
| "display_field tx (FDateTime v) = tx_datetime tx v"
| "display_field tx (FTimestampTz v) = tx_timestamp tx v"
| "display_field tx (FDuration v) = show_int (sint v) @ ''ns''"
| "display_field tx (FArray v) = ''['' @ join_with '', '' (map (display_field tx) v) @ '']''"
| "display_field tx (FRow v) = ''('' @ join_with '', '' (map (display_field tx) v) @ '')''"

fun kind_text :: "row_kind \<Rightarrow> string" where
  "kind_text Insert = ''INSERT''"
| "kind_text UpdateBefore = ''UPDATE_BEFORE''"
| "kind_text UpdateAfter = ''UPDATE_AFTER''"
| "kind_text Delete = ''DELETE''"

definition display_row :: "texts \<Rightarrow> row \<Rightarrow> string" where
  "display_row tx r =
     kind_text (row_kind r) @ ''['' @ join_with '', '' (map (display_field tx) (row_fields r)) @ '']''"

section \<open>Schemas\<close>

record column_def =
  cd_name :: string
  cd_type :: column_type
  cd_nullable :: bool
  cd_primary_key :: bool
  cd_default_value :: "string option"
  cd_comment :: "string option"
  cd_source_type :: "string option"

definition column_def_new :: "string \<Rightarrow> column_type \<Rightarrow> column_def" where
  "column_def_new name t =
     \<lparr>cd_name = name, cd_type = t, cd_nullable = True, cd_primary_key = False, cd_default_value = None,
      cd_comment = None, cd_source_type = None\<rparr>"

record table_schema =
  ts_table :: string
  ts_columns :: "column_def list"
  ts_primary_key :: "string list"
  ts_comment :: "string option"

definition table_schema_new :: "string \<Rightarrow> column_def list \<Rightarrow> table_schema" where
  "table_schema_new table columns =
     \<lparr>ts_table = table, ts_columns = columns, ts_primary_key = map cd_name (filter cd_primary_key columns),
      ts_comment = None\<rparr>"

definition get_column :: "string \<Rightarrow> table_schema \<Rightarrow> column_def option" where
  "get_column name s = find (\<lambda>c. cd_name c = name) (ts_columns s)"

fun position :: "('a \<Rightarrow> bool) \<Rightarrow> 'a list \<Rightarrow> nat option" where
  "position P [] = None"
| "position P (x # xs) = (if P x then Some 0 else map_option Suc (position P xs))"

definition column_index :: "string \<Rightarrow> table_schema \<Rightarrow> nat option" where
  "column_index name s = position (\<lambda>c. cd_name c = name) (ts_columns s)"

definition column_count :: "table_schema \<Rightarrow> nat" where
  "column_count s = length (ts_columns s)"

definition field_names :: "table_schema \<Rightarrow> string list" where
  "field_names s = map cd_name (ts_columns s)"

section \<open>Schema changes\<close>

datatype schema_change_error =
    ColumnExists string
  | ColumnNotFound string
  | CannotDropPrimaryKey string

datatype schema_change =
    AddColumn column_def "nat option"
  | DropColumn string "nat option"
  | RenameColumn string string "nat option"
  | ModifyColumn column_def "nat option"

definition change_column :: "schema_change \<Rightarrow> string" where
  "change_column ch =
     (case ch of AddColumn c _ \<Rightarrow> cd_name c | ModifyColumn c _ \<Rightarrow> cd_name c
      | DropColumn n _ \<Rightarrow> n | RenameColumn old _ _ \<Rightarrow> old)"

definition positional_name :: "nat \<Rightarrow> string" where
  "positional_name pos = CHR ''f'' # show_nat pos"

definition positional_column :: "column_def \<Rightarrow> nat \<Rightarrow> column_def" where
  "positional_column c pos =
     (column_def_new (positional_name pos) (cd_type c))
       \<lparr>cd_nullable := cd_nullable c, cd_primary_key := cd_primary_key c,
        cd_source_type := Some (case cd_source_type c of None \<Rightarrow> [] | Some t \<Rightarrow> t)\<rparr>"

definition translate_positional :: "schema_change \<Rightarrow> schema_change" where
  "translate_positional ch =
     (case ch of
        AddColumn c (Some pos) \<Rightarrow> AddColumn (positional_column c pos) (Some pos)
      | DropColumn _ (Some pos) \<Rightarrow> DropColumn (positional_name pos) (Some pos)
      | RenameColumn _ _ (Some pos) \<Rightarrow> RenameColumn (positional_name pos) (positional_name pos) (Some pos)
      | ModifyColumn c (Some pos) \<Rightarrow> ModifyColumn (positional_column c pos) (Some pos)
      | _ \<Rightarrow> ch)"

record schema_change_event =
  sce_table :: string
  sce_changes :: "schema_change list"
  sce_statement :: "string option"
  sce_initial_schema :: "table_schema option"

definition event_new :: "string \<Rightarrow> schema_change list \<Rightarrow> schema_change_event" where
  "event_new table changes =
     \<lparr>sce_table = table, sce_changes = changes, sce_statement = None, sce_initial_schema = None\<rparr>"

definition initial_schema_event :: "table_schema \<Rightarrow> schema_change_event" where
  "initial_schema_event s =
     \<lparr>sce_table = ts_table s, sce_changes = [], sce_statement = None, sce_initial_schema = Some s\<rparr>"

text \<open>\<open>iter_mut().find(..)\<close>: the first element that satisfies the test is changed.\<close>

fun change_first :: "('a \<Rightarrow> bool) \<Rightarrow> ('a \<Rightarrow> 'a) \<Rightarrow> 'a list \<Rightarrow> 'a list" where
  "change_first P f [] = []"
| "change_first P f (x # xs) = (if P x then f x # xs else x # change_first P f xs)"

definition apply_schema_change ::
    "schema_change \<Rightarrow> table_schema \<Rightarrow> (schema_change_error + unit) \<times> table_schema" where
  "apply_schema_change ch s =
     (case ch of
        AddColumn c _ \<Rightarrow>
          if column_index (cd_name c) s \<noteq> None then (Inl (ColumnExists (cd_name c)), s)
          else (Inr (),
            s\<lparr>ts_primary_key := (if cd_primary_key c then ts_primary_key s @ [cd_name c] else ts_primary_key s),
              ts_columns := ts_columns s @ [c]\<rparr>)
      | DropColumn n _ \<Rightarrow>
          if n \<in> set (ts_primary_key s) then (Inl (CannotDropPrimaryKey n), s)
          else (case column_index n s of
                  None \<Rightarrow> (Inl (ColumnNotFound n), s)
                | Some i \<Rightarrow> (Inr (), s\<lparr>ts_columns := take i (ts_columns s) @ drop (Suc i) (ts_columns s)\<rparr>))
      | RenameColumn old new _ \<Rightarrow>
          (case column_index old s of
             None \<Rightarrow> (Inl (ColumnNotFound old), s)
           | Some i \<Rightarrow>
               (Inr (), s\<lparr>ts_columns := (ts_columns s)[i := (ts_columns s ! i)\<lparr>cd_name := new\<rparr>],
                 ts_primary_key := change_first (\<lambda>p. p = old) (\<lambda>_. new) (ts_primary_key s)\<rparr>))
      | ModifyColumn c _ \<Rightarrow>
          (case column_index (cd_name c) s of
             None \<Rightarrow> (Inl (ColumnNotFound (cd_name c)), s)
           | Some i \<Rightarrow>
               let col = ts_columns s ! i in
               (Inr (), s\<lparr>ts_columns := (ts_columns s)[i :=
                 col\<lparr>cd_type := cd_type c, cd_nullable := cd_nullable c,
                   cd_source_type := (case cd_source_type c of None \<Rightarrow> cd_source_type col | Some t \<Rightarrow> Some t)\<rparr>]\<rparr>)))"

fun apply_schema_changes ::
    "schema_change list \<Rightarrow> table_schema \<Rightarrow> (schema_change_error + unit) \<times> table_schema" where
  "apply_schema_changes [] s = (Inr (), s)"
| "apply_schema_changes (ch # chs) s =
     (case apply_schema_change ch s of
        (Inl e, s1) \<Rightarrow> (Inl e, s1)
      | (Inr _, s1) \<Rightarrow> apply_schema_changes chs s1)"

section \<open>Integer conversions\<close>

lemma stb_self: "0 \<le> x \<Longrightarrow> x < 2 ^ n \<Longrightarrow> signed_take_bit n (x::int) = x"
  by (intro signed_take_bit_int_eq_self) (auto intro: order_trans [of _ 0])

lemma sint_ucast_small:
  assumes "LENGTH('a::len) < LENGTH('b::len)"
  shows "sint (ucast (v :: 'a word) :: 'b word) = uint v"
proof -
  have lt: "uint v < 2 ^ LENGTH('a)" by (rule uint_lt2p)
  have p: "(2::int) ^ LENGTH('a) \<le> 2 ^ (LENGTH('b) - 1)" "(2::int) ^ LENGTH('a) \<le> 2 ^ LENGTH('b)"
    using assms by (intro power_increasing; simp)+
  have "take_bit LENGTH('b) (uint v) = uint v" using order_less_le_trans [OF lt p(2)] by (intro take_bit_int_eq_self) simp_all
  moreover have "signed_take_bit (LENGTH('b) - 1) (uint v) = uint v"
    using order_less_le_trans [OF lt p(1)] by (intro stb_self) simp_all
  ultimately show ?thesis by (simp add: sint_uint unsigned_ucast_eq)
qed

lemma sint_scast_wide:
  assumes "LENGTH('a::len) \<le> LENGTH('b::len)"
  shows "sint (scast (v :: 'a word) :: 'b word) = sint v"
proof -
  have p: "(2::int) ^ (LENGTH('a) - 1) \<le> 2 ^ (LENGTH('b) - 1)" using assms by (intro power_increasing) simp_all
  have "- (2 ^ (LENGTH('a) - 1)) \<le> sint v" "sint v < 2 ^ (LENGTH('a) - 1)"
    by (rule sint_ge, rule sint_lt)
  with p have "signed_take_bit (LENGTH('b) - 1) (sint v) = sint v" by (intro signed_take_bit_int_eq_self) linarith+
  then show ?thesis by (simp add: signed_scast_eq)
qed

lemma sint_uint_small: "uint (v :: 64 word) < 2 ^ 63 \<Longrightarrow> sint v = uint v"
  by (simp add: sint_uint stb_self)

lemma sint_scast_narrow: "- (2 ^ 31) \<le> sint (v :: 64 word) \<Longrightarrow> sint v < 2 ^ 31 \<Longrightarrow> sint (scast v :: 32 word) = sint v"
  by (simp add: signed_scast_eq signed_take_bit_int_eq_self)

text \<open>
  The integer accessors never change a value: when \<open>field_as_i32\<close> or \<open>field_as_i64\<close> answers, the answer has the
  value of the field, and \<open>field_as_i64\<close> answers on every integer field whose value fits in 64 signed bits.
\<close>

theorem int_accessors_exact:
  "(case field_as_i64 f of
      Some v \<Rightarrow> int_value f = Some (sint v)
    | None \<Rightarrow> (\<forall>n. int_value f = Some n \<longrightarrow> 2 ^ 63 \<le> n)) \<and>
   (\<forall>v. field_as_i32 f = Some v \<longrightarrow> int_value f = Some (sint v))"
proof (cases f)
  case (FUInt64 v)
  then show ?thesis by (simp add: sint_uint_small not_less)
next
  case (FInt64 v)
  then show ?thesis by (auto simp: sint_scast_narrow)
qed (simp_all add: sint_ucast_small sint_scast_wide)

theorem int_accessors_exact_witness:
  "field_as_i64 (FUInt64 (2 ^ 63)) = None \<and> (2::int) ^ 63 \<le> 2 ^ 63"
  using int_accessors_exact [of "FUInt64 (2 ^ 63)"] by simp

section \<open>Schemas stay well formed\<close>

text \<open>Column names are distinct, and the primary key lists the key columns in column order.\<close>

definition schema_ok :: "table_schema \<Rightarrow> bool" where
  "schema_ok s \<longleftrightarrow>
     distinct (field_names s) \<and> ts_primary_key s = map cd_name (filter cd_primary_key (ts_columns s))"

lemma schema_ok_new: "schema_ok (table_schema_new t cols) \<longleftrightarrow> distinct (map cd_name cols)"
  by (simp add: schema_ok_def table_schema_new_def field_names_def)

lemma position_None: "position P xs = None \<longleftrightarrow> (\<forall>x\<in>set xs. \<not> P x)"
  by (induction xs) auto

lemma position_Some:
  "position P xs = Some i \<Longrightarrow> i < length xs \<and> P (xs ! i) \<and> xs = take i xs @ xs ! i # drop (Suc i) xs \<and> (\<forall>x\<in>set (take i xs). \<not> P x)"
  by (induction xs arbitrary: i) (auto split: if_splits simp: less_Suc_eq_0_disj)

lemma column_index_None: "column_index n s = None \<longleftrightarrow> n \<notin> set (field_names s)"
  by (auto simp: column_index_def position_None field_names_def)

text \<open>A found column, and the columns before and after it.\<close>

lemma column_index_split:
  assumes "column_index n s = Some i"
  obtains before c after where "ts_columns s = before @ c # after" "i = length before" "cd_name c = n"
    "n \<notin> set (map cd_name before)"
proof -
  note p = position_Some [OF assms [unfolded column_index_def]]
  show thesis
  proof (rule that)
    show "ts_columns s = take i (ts_columns s) @ ts_columns s ! i # drop (Suc i) (ts_columns s)" using p by blast
    show "i = length (take i (ts_columns s))" "cd_name (ts_columns s ! i) = n" using p by simp_all
    show "n \<notin> set (map cd_name (take i (ts_columns s)))" using p by auto
  qed
qed

lemma change_first_append:
  "(\<forall>x\<in>set xs. \<not> P x) \<Longrightarrow> change_first P f (xs @ y # ys) = xs @ (if P y then f y # ys else y # change_first P f ys)"
  by (induction xs) auto

lemma change_first_id: "(\<forall>x\<in>set xs. \<not> P x) \<Longrightarrow> change_first P f xs = xs"
  by (induction xs) auto

text \<open>The change is applicable: what the code checks, and that a rename does not take an existing name.\<close>

fun change_ok :: "table_schema \<Rightarrow> schema_change \<Rightarrow> bool" where
  "change_ok s (RenameColumn old new _) \<longleftrightarrow> new = old \<or> new \<notin> set (field_names s)"
| "change_ok s _ \<longleftrightarrow> True"

fun expected_error :: "table_schema \<Rightarrow> schema_change \<Rightarrow> schema_change_error option" where
  "expected_error s (AddColumn c _) = (if cd_name c \<in> set (field_names s) then Some (ColumnExists (cd_name c)) else None)"
| "expected_error s (DropColumn n _) =
     (if n \<in> set (ts_primary_key s) then Some (CannotDropPrimaryKey n)
      else if n \<notin> set (field_names s) then Some (ColumnNotFound n) else None)"
| "expected_error s (RenameColumn old _ _) = (if old \<notin> set (field_names s) then Some (ColumnNotFound old) else None)"
| "expected_error s (ModifyColumn c _) =
     (if cd_name c \<notin> set (field_names s) then Some (ColumnNotFound (cd_name c)) else None)"

fun expected_names :: "schema_change \<Rightarrow> string list \<Rightarrow> string list" where
  "expected_names (AddColumn c _) ns = ns @ [cd_name c]"
| "expected_names (DropColumn n _) ns = filter (\<lambda>m. m \<noteq> n) ns"
| "expected_names (RenameColumn old new _) ns = map (\<lambda>m. if m = old then new else m) ns"
| "expected_names (ModifyColumn _ _) ns = ns"

lemma column_index_ex: "n \<in> set (field_names s) \<longleftrightarrow> (\<exists>i. column_index n s = Some i)"
  using column_index_None [of n s] by auto

lemma change_fails: "expected_error s ch = Some e \<Longrightarrow> apply_schema_change ch s = (Inl e, s)"
  by (cases ch) (auto simp: apply_schema_change_def column_index_ex split: if_splits)

text \<open>What the invariant says around a found column.\<close>

lemma schema_ok_split:
  assumes "schema_ok s" and "ts_columns s = before @ c # after"
  shows "cd_name c \<notin> set (map cd_name before)" "cd_name c \<notin> set (map cd_name after)"
    "distinct (map cd_name before)" "distinct (map cd_name after)" "set (map cd_name before) \<inter> set (map cd_name after) = {}"
    "ts_primary_key s = map cd_name (filter cd_primary_key before) @
       (if cd_primary_key c then [cd_name c] else []) @ map cd_name (filter cd_primary_key after)"
  using assms by (auto simp: schema_ok_def field_names_def)

lemma map_if_neq: "n \<notin> set xs \<Longrightarrow> map (\<lambda>m. if m = n then new else m) xs = xs"
  by (induction xs) auto

lemma filter_neq: "n \<notin> set xs \<Longrightarrow> filter (\<lambda>m. m \<noteq> n) xs = xs"
  by (induction xs) auto

lemma drop_col_ok:
  assumes "schema_ok s" and "column_index n s = Some i" and "n \<notin> set (ts_primary_key s)"
  shows "schema_ok (snd (apply_schema_change (DropColumn n p) s)) \<and>
    field_names (snd (apply_schema_change (DropColumn n p) s)) = filter (\<lambda>m. m \<noteq> n) (field_names s)"
proof -
  obtain before c after where c: "ts_columns s = before @ c # after" "i = length before" "cd_name c = n"
    using column_index_split [OF assms(2)] by blast
  note sp = schema_ok_split [OF assms(1) c(1)]
  have "apply_schema_change (DropColumn n p) s = (Inr (), s\<lparr>ts_columns := before @ after\<rparr>)"
    using assms(2,3) c by (simp add: apply_schema_change_def)
  moreover have "\<not> cd_primary_key c" using assms(3) sp(6) c(3) by auto
  ultimately show ?thesis using sp c
    by (simp add: schema_ok_def field_names_def filter_neq)
qed

lemma rename_col_ok:
  assumes "schema_ok s" and "column_index old s = Some i" and "new = old \<or> new \<notin> set (field_names s)"
  shows "schema_ok (snd (apply_schema_change (RenameColumn old new p) s)) \<and>
    field_names (snd (apply_schema_change (RenameColumn old new p) s)) = map (\<lambda>m. if m = old then new else m) (field_names s)"
proof -
  obtain before c after where c: "ts_columns s = before @ c # after" "i = length before" "cd_name c = old"
    using column_index_split [OF assms(2)] by blast
  note sp = schema_ok_split [OF assms(1) c(1)]
  have pk: "change_first (\<lambda>q. q = old) (\<lambda>_. new) (ts_primary_key s) =
      map cd_name (filter cd_primary_key before) @ (if cd_primary_key c then [new] else []) @ map cd_name (filter cd_primary_key after)"
  proof (cases "cd_primary_key c")
    case True
    have "\<forall>q\<in>set (map cd_name (filter cd_primary_key before)). q \<noteq> old" using sp(1) c(3) by force
    then show ?thesis using True sp(6) c(3) by (simp add: change_first_append del: set_map)
  next
    case False
    then have "\<forall>q\<in>set (ts_primary_key s). q \<noteq> old" using sp(1,2,6) c(3) by force
    then have "change_first (\<lambda>q. q = old) (\<lambda>_. new) (ts_primary_key s) = ts_primary_key s" by (rule change_first_id)
    then show ?thesis using False sp(6) by simp
  qed
  have "snd (apply_schema_change (RenameColumn old new p) s) =
      s\<lparr>ts_columns := before @ c\<lparr>cd_name := new\<rparr> # after,
        ts_primary_key := map cd_name (filter cd_primary_key before) @ (if cd_primary_key c then [new] else []) @ map cd_name (filter cd_primary_key after)\<rparr>"
    using assms(2) c pk by (simp add: apply_schema_change_def)
  moreover have "new \<notin> set (map cd_name before)" "new \<notin> set (map cd_name after)"
    using assms(3) sp(1,2) c by (auto simp: field_names_def image_iff)
  ultimately show ?thesis using sp c map_if_neq [OF sp(1), of new] map_if_neq [OF sp(2), of new]
    by (simp add: schema_ok_def field_names_def)
qed

lemma modify_col_ok:
  assumes "schema_ok s" and "column_index (cd_name d) s = Some i"
  shows "schema_ok (snd (apply_schema_change (ModifyColumn d p) s)) \<and>
    field_names (snd (apply_schema_change (ModifyColumn d p) s)) = field_names s"
proof -
  obtain before c after where c: "ts_columns s = before @ c # after" "i = length before" "cd_name c = cd_name d"
    using column_index_split [OF assms(2)] by blast
  then show ?thesis using assms
    by (simp add: apply_schema_change_def Let_def schema_ok_def field_names_def)
qed

text \<open>
  Schema changes keep a schema well formed. On a schema with distinct column names whose primary key
  lists its key columns in order, a change fails with exactly the documented error and leaves the
  schema as it was, or it succeeds, keeps the schema well formed and gives the columns the expected
  names; a rename must not take the name of another column.
\<close>

theorem schema_change_sound:
  assumes "schema_ok s" and "change_ok s ch"
  shows "case expected_error s ch of
      Some e \<Rightarrow> apply_schema_change ch s = (Inl e, s)
    | None \<Rightarrow> (\<exists>s'. apply_schema_change ch s = (Inr (), s') \<and> schema_ok s' \<and>
        field_names s' = expected_names ch (field_names s))"
proof (cases "expected_error s ch")
  case None
  have "fst (apply_schema_change ch s) = Inr ()"
    using None by (cases ch) (auto simp: apply_schema_change_def column_index_ex Let_def split: if_splits)
  moreover have "schema_ok (snd (apply_schema_change ch s)) \<and>
      field_names (snd (apply_schema_change ch s)) = expected_names ch (field_names s)"
  proof (cases ch)
    case (AddColumn c p)
    with None have "column_index (cd_name c) s = None" by (simp add: column_index_None split: if_splits)
    with AddColumn None assms(1) show ?thesis
      by (auto simp: apply_schema_change_def schema_ok_def field_names_def split: if_splits)
  next
    case (DropColumn n p)
    with None obtain i where "column_index n s = Some i" "n \<notin> set (ts_primary_key s)"
      by (auto simp: column_index_ex split: if_splits)
    from drop_col_ok [OF assms(1) this] DropColumn show ?thesis by simp
  next
    case (RenameColumn old new p)
    with None obtain i where "column_index old s = Some i" by (auto simp: column_index_ex split: if_splits)
    from rename_col_ok [OF assms(1) this] RenameColumn assms(2) show ?thesis by simp
  next
    case (ModifyColumn d p)
    with None obtain i where "column_index (cd_name d) s = Some i" by (auto simp: column_index_ex split: if_splits)
    from modify_col_ok [OF assms(1) this] ModifyColumn show ?thesis by simp
  qed
  ultimately show ?thesis using None by (auto simp: prod_eq_iff)
qed (simp add: change_fails)

definition demo_schema :: table_schema where
  "demo_schema = table_schema_new ''db.users''
     [(column_def_new ''id'' TInt64)\<lparr>cd_primary_key := True\<rparr>, column_def_new ''name'' TString]"

theorem schema_change_sound_witness:
  "schema_ok demo_schema \<and>
   (\<exists>s'. apply_schema_change (RenameColumn ''id'' ''user_id'' None) demo_schema = (Inr (), s') \<and>
      schema_ok s' \<and> field_names s' = [''user_id'', ''name''])"
proof -
  have s: "schema_ok demo_schema" "field_names demo_schema = [''id'', ''name'']"
    by (simp_all add: demo_schema_def schema_ok_def column_def_new_def field_names_def table_schema_new_def)
  with schema_change_sound [OF s(1), of "RenameColumn ''id'' ''user_id'' None"] show ?thesis by simp
qed

text \<open>
  A rename onto the name of another column is accepted and leaves two columns with one name.
\<close>

theorem rename_duplicates_name:
  "\<exists>s'. apply_schema_change (RenameColumn ''id'' ''name'' None) demo_schema = (Inr (), s') \<and>
     field_names s' = [''name'', ''name''] \<and> \<not> schema_ok s'"
  by (simp add: demo_schema_def apply_schema_change_def column_index_def table_schema_new_def column_def_new_def
      field_names_def schema_ok_def)

end
