(* ===== verification/Transforms.thy ===== *)
theory Transforms
  imports Rows Task_Group
begin

text \<open>
  The row transforms: the operators of \<open>seatunnel-transforms/src/lib.rs\<close>, the index filter the engine builds
  from a job configuration (\<open>create_transforms\<close> of \<open>connector_factory.rs\<close>), and their chain, as the
  transform operations of a task group. Predicates and mappers are parameters, and so is \<open>f64\<close>
  arithmetic.
\<close>

section \<open>The operators\<close>

record f64_ops =
  fl_of_int :: "int \<Rightarrow> 64 word"
  fl_of_f32 :: "32 word \<Rightarrow> 64 word"
  fl_of_text :: "string \<Rightarrow> 64 word"
  fl_parse :: "string \<Rightarrow> 64 word option"
  fl_less :: "64 word \<Rightarrow> 64 word \<Rightarrow> bool"
  fl_le :: "64 word \<Rightarrow> 64 word \<Rightarrow> bool"
  fl_close :: "64 word \<Rightarrow> 64 word \<Rightarrow> bool"

datatype compare_op = Op_Eq | Op_Ne | Op_Gt | Op_Lt | Op_Gte | Op_Lte | Op_NotNull | Op_IsNull

definition parse_op :: "string \<Rightarrow> string + compare_op" where
  "parse_op s =
     (if s \<in> {''='', ''eq'', ''equals''} then Inr Op_Eq
      else if s \<in> {''!='', ''ne'', ''not_equals''} then Inr Op_Ne
      else if s \<in> {''>'', ''gt''} then Inr Op_Gt
      else if s \<in> {''<'', ''lt''} then Inr Op_Lt
      else if s \<in> {''>='', ''gte'', ''gteq''} then Inr Op_Gte
      else if s \<in> {''<='', ''lte'', ''lteq''} then Inr Op_Lte
      else if s \<in> {''not_null'', ''notnull''} then Inr Op_NotNull
      else if s \<in> {''is_null'', ''isnull'', ''null''} then Inr Op_IsNull
      else Inl (''unsupported filter operator '' @ s))"

datatype fanout_mode = Fan_All | Fan_First nat | Fan_N nat

datatype transform =
    Filter "row \<Rightarrow> bool" "table_schema option"
  | Map_Row "row \<Rightarrow> row" "table_schema option"
  | Fan fanout_mode "table_schema option" nat
  | Rename "(string \<times> string) list" "table_schema option"
  | Select "nat list" "table_schema option"
  | Filter_By_Index nat compare_op "field option"

definition fan_new :: "fanout_mode \<Rightarrow> transform" where
  "fan_new mode = Fan mode None (case mode of Fan_N n \<Rightarrow> min n 3 | _ \<Rightarrow> 3)"

definition numeric_value :: "f64_ops \<Rightarrow> field \<Rightarrow> 64 word option" where
  "numeric_value fl f =
     (case f of
        FInt8 v \<Rightarrow> Some (fl_of_int fl (sint v)) | FInt16 v \<Rightarrow> Some (fl_of_int fl (sint v))
      | FInt32 v \<Rightarrow> Some (fl_of_int fl (sint v)) | FInt64 v \<Rightarrow> Some (fl_of_int fl (sint v))
      | FUInt8 v \<Rightarrow> Some (fl_of_int fl (uint v)) | FUInt16 v \<Rightarrow> Some (fl_of_int fl (uint v))
      | FUInt32 v \<Rightarrow> Some (fl_of_int fl (uint v)) | FUInt64 v \<Rightarrow> Some (fl_of_int fl (uint v))
      | FFloat32 v \<Rightarrow> Some (fl_of_f32 fl v) | FFloat64 v \<Rightarrow> Some v
      | FString s \<Rightarrow> fl_parse fl s | _ \<Rightarrow> None)"

definition same_value :: "f64_ops \<Rightarrow> field option \<Rightarrow> field \<Rightarrow> bool" where
  "same_value fl want got =
     (case (want, got) of
        (Some (FString a), FString b) \<Rightarrow> a = b
      | (Some w, _) \<Rightarrow>
          (case (numeric_value fl w, numeric_value fl got) of (Some a, Some b) \<Rightarrow> fl_close fl a b | _ \<Rightarrow> False)
      | (None, _) \<Rightarrow> False)"

definition keep_field :: "f64_ops \<Rightarrow> compare_op \<Rightarrow> field option \<Rightarrow> field \<Rightarrow> bool" where
  "keep_field fl oper value f =
     (case oper of
        Op_NotNull \<Rightarrow> f \<noteq> FNull
      | Op_IsNull \<Rightarrow> f = FNull
      | Op_Eq \<Rightarrow> same_value fl value f
      | Op_Ne \<Rightarrow> \<not> same_value fl value f
      | _ \<Rightarrow>
          (case (Option.bind value (numeric_value fl), numeric_value fl f) of
             (Some a, Some b) \<Rightarrow>
               (case oper of Op_Gt \<Rightarrow> fl_less fl a b | Op_Lt \<Rightarrow> fl_less fl b a
                | Op_Gte \<Rightarrow> fl_le fl a b | _ \<Rightarrow> fl_le fl b a)
           | _ \<Rightarrow> False))"

definition select_row :: "nat list \<Rightarrow> row \<Rightarrow> row" where
  "select_row ixs r =
     \<lparr>row_kind = row_kind r,
      row_fields = map (\<lambda>i. if i < field_count r then row_fields r ! i else FNull) ixs, row_origin = None\<rparr>"

fun process :: "f64_ops \<Rightarrow> transform \<Rightarrow> row \<Rightarrow> string + row list" where
  "process fl (Filter p _) r = Inr (if p r then [r] else [])"
| "process fl (Map_Row f _) r = Inr [f r]"
| "process fl (Fan mode _ n) r =
     Inr (case mode of
            Fan_All \<Rightarrow> replicate n r
          | Fan_First i \<Rightarrow> if i < n then [r] else []
          | Fan_N k \<Rightarrow> replicate (min k n) r)"
| "process fl (Rename _ _) r = Inr [r]"
| "process fl (Select ixs _) r = Inr [select_row ixs r]"
| "process fl (Filter_By_Index i oper value) r =
     Inr (if field_count r \<le> i then [] else if keep_field fl oper value (row_fields r ! i) then [r] else [])"

fun get_output_schema :: "transform \<Rightarrow> table_schema option" where
  "get_output_schema (Filter _ s) = s"
| "get_output_schema (Map_Row _ s) = s"
| "get_output_schema (Fan _ s _) = s"
| "get_output_schema (Rename _ s) = s"
| "get_output_schema (Select _ s) = s"
| "get_output_schema (Filter_By_Index _ _ _) = None"

definition or_input :: "table_schema option \<Rightarrow> table_schema \<Rightarrow> table_schema option" where
  "or_input out s = (case out of None \<Rightarrow> Some s | Some _ \<Rightarrow> out)"

definition renamed :: "(string \<times> string) list \<Rightarrow> string \<Rightarrow> string" where
  "renamed rs n = (case find (\<lambda>(old, _). old = n) rs of None \<Rightarrow> n | Some (_, new) \<Rightarrow> new)"

fun set_input_schema :: "table_schema \<Rightarrow> transform \<Rightarrow> transform" where
  "set_input_schema s (Filter p out) = Filter p (or_input out s)"
| "set_input_schema s (Map_Row f out) = Map_Row f (or_input out s)"
| "set_input_schema s (Fan m out n) = Fan m (or_input out s) n"
| "set_input_schema s (Rename rs _) =
     Rename rs (Some (table_schema_new (ts_table s)
       (map (\<lambda>c. column_def_new (renamed rs (cd_name c)) (cd_type c)) (ts_columns s))))"
| "set_input_schema s (Select ixs _) =
     Select ixs (Some (table_schema_new (ts_table s)
       (concat (map (\<lambda>i. if i < length (ts_columns s) then [ts_columns s ! i] else []) ixs))))"
| "set_input_schema s (Filter_By_Index i oper v) = Filter_By_Index i oper v"

section \<open>Chains\<close>

fun process_each :: "f64_ops \<Rightarrow> transform \<Rightarrow> row list \<Rightarrow> string + row list" where
  "process_each fl t [] = Inr []"
| "process_each fl t (r # rs) =
     (case process fl t r of
        Inl e \<Rightarrow> Inl e
      | Inr out \<Rightarrow> (case process_each fl t rs of Inl e \<Rightarrow> Inl e | Inr rest \<Rightarrow> Inr (out @ rest)))"

fun pipeline_rows :: "f64_ops \<Rightarrow> transform list \<Rightarrow> row list \<Rightarrow> string + row list" where
  "pipeline_rows fl [] rows = Inr rows"
| "pipeline_rows fl (t # ts) rows =
     (case process_each fl t rows of Inl e \<Rightarrow> Inl e | Inr next_rows \<Rightarrow> pipeline_rows fl ts next_rows)"

definition pipeline_process :: "f64_ops \<Rightarrow> transform list \<Rightarrow> row \<Rightarrow> string + row list" where
  "pipeline_process fl ts r = pipeline_rows fl ts [r]"

section \<open>Transforms of a job configuration\<close>

definition json_scalar_to_field :: "f64_ops \<Rightarrow> json \<Rightarrow> field" where
  "json_scalar_to_field fl v =
     (case v of
        JBool b \<Rightarrow> FBool b
      | JInt n \<Rightarrow> if - (2 ^ 63) \<le> n \<and> n < 2 ^ 63 then FInt64 (word_of_int n) else FFloat64 (fl_of_int fl n)
      | JFloat t \<Rightarrow> FFloat64 (fl_of_text fl t)
      | JString s \<Rightarrow> FString s
      | _ \<Rightarrow> FNull)"

definition create_transform :: "f64_ops \<Rightarrow> json \<Rightarrow> string + transform" where
  "create_transform fl cfg =
     (let plugin = map to_lower
            (unwrap_or [] (Option.bind (or_else (j_get ''plugin_name'' cfg) (j_get ''plugin'' cfg)) as_str)) in
      if plugin = ''filter'' then
        (case Option.bind (j_get ''field_index'' cfg) as_u64 of
           None \<Rightarrow> Inl ''filter transform requires integer field_index''
         | Some i \<Rightarrow>
             (case parse_op (unwrap_or ''not_null'' (Option.bind (j_get ''operator'' cfg) as_str)) of
                Inl e \<Rightarrow> Inl e
              | Inr oper \<Rightarrow> Inr (Filter_By_Index i oper (map_option (json_scalar_to_field fl) (j_get ''value'' cfg)))))
      else Inl (''unknown transform plugin '' @ plugin))"

fun create_transforms :: "f64_ops \<Rightarrow> json list \<Rightarrow> string + transform list" where
  "create_transforms fl [] = Inr []"
| "create_transforms fl (cfg # cfgs) =
     (case create_transform fl cfg of
        Inl e \<Rightarrow> Inl e
      | Inr t \<Rightarrow> (case create_transforms fl cfgs of Inl e \<Rightarrow> Inl e | Inr ts \<Rightarrow> Inr (t # ts)))"

section \<open>Typing\<close>

text \<open>A field of a column: a value of the column's type, or \<open>NULL\<close> where the column allows it.\<close>

fun type_matches :: "column_type \<Rightarrow> field \<Rightarrow> bool" where
  "type_matches (TNullable t) f \<longleftrightarrow> type_matches t f"
| "type_matches (TDecimal _ _) f \<longleftrightarrow> (case f of FDecimal _ _ \<Rightarrow> True | _ \<Rightarrow> False)"
| "type_matches (TArray t) f \<longleftrightarrow> (case f of FArray fs \<Rightarrow> list_all (type_matches t) fs | _ \<Rightarrow> False)"
| "type_matches (TMap _ _) f \<longleftrightarrow> False"
| "type_matches t f \<longleftrightarrow> field_type f = Some t"

definition field_conforms :: "column_def \<Rightarrow> field \<Rightarrow> bool" where
  "field_conforms c f \<longleftrightarrow> (if f = FNull then cd_nullable c else type_matches (cd_type c) f)"

definition row_conforms :: "table_schema \<Rightarrow> row \<Rightarrow> bool" where
  "row_conforms s r \<longleftrightarrow> list_all2 field_conforms (ts_columns s) (row_fields r)"

text \<open>The schema a transform hands on, and when a transform may stand behind that schema.\<close>

definition schema_after :: "transform \<Rightarrow> table_schema \<Rightarrow> table_schema" where
  "schema_after t s = (case get_output_schema (set_input_schema s t) of None \<Rightarrow> s | Some s' \<Rightarrow> s')"

fun fits :: "table_schema \<Rightarrow> transform \<Rightarrow> bool" where
  "fits s (Filter _ out) \<longleftrightarrow> out = None"
| "fits s (Map_Row f out) \<longleftrightarrow>
     (\<forall>r. row_conforms s r \<longrightarrow> row_conforms (case out of None \<Rightarrow> s | Some s' \<Rightarrow> s') (f r))"
| "fits s (Fan _ out _) \<longleftrightarrow> out = None"
| "fits s (Rename _ _) \<longleftrightarrow> True"
| "fits s (Select ixs _) \<longleftrightarrow> (\<forall>i\<in>set ixs. i < column_count s)"
| "fits s (Filter_By_Index _ _ _) \<longleftrightarrow> True"

fun chain_fits :: "table_schema \<Rightarrow> transform list \<Rightarrow> bool" where
  "chain_fits s [] \<longleftrightarrow> True"
| "chain_fits s (t # ts) \<longleftrightarrow> fits s t \<and> chain_fits (schema_after t s) ts"

definition chain_schema :: "transform list \<Rightarrow> table_schema \<Rightarrow> table_schema" where
  "chain_schema ts s = fold schema_after ts s"

lemma select_conforms:
  assumes "row_conforms s r" and "\<forall>i\<in>set ixs. i < column_count s"
  shows "row_conforms (schema_after (Select ixs out) s) (select_row ixs r)"
proof -
  have l: "length (ts_columns s) = length (row_fields r)" using assms(1) by (auto simp: row_conforms_def dest: list_all2_lengthD)
  have "concat (map (\<lambda>i. if i < length (ts_columns s) then [ts_columns s ! i] else []) ixs) = map ((!) (ts_columns s)) ixs"
    using assms(2) by (induction ixs) (auto simp: column_count_def)
  moreover have "row_fields (select_row ixs r) = map ((!) (row_fields r)) ixs"
    using assms(2) l by (auto simp: select_row_def column_count_def field_count_def)
  moreover have "list_all2 field_conforms (map ((!) (ts_columns s)) ixs) (map ((!) (row_fields r)) ixs)"
    using assms l by (auto simp: row_conforms_def column_count_def list_all2_conv_all_nth)
  ultimately show ?thesis
    by (simp add: row_conforms_def schema_after_def table_schema_new_def)
qed

lemma rename_conforms:
  assumes "row_conforms s r"
  shows "row_conforms (schema_after (Rename rs out) s) r"
proof -
  have "field_conforms c f \<Longrightarrow> field_conforms (column_def_new n (cd_type c)) f" for c n f
    by (simp add: field_conforms_def column_def_new_def split: if_splits)
  with assms show ?thesis
    by (auto simp: row_conforms_def schema_after_def table_schema_new_def list_all2_conv_all_nth)
qed

lemma process_conforms:
  assumes "row_conforms s r" and "fits s t" and "process fl t r = Inr rows" and "r' \<in> set rows"
  shows "row_conforms (schema_after t s) r'"
  using assms
proof (cases t)
  case (Map_Row f out)
  then show ?thesis using assms by (cases out) (auto simp: schema_after_def or_input_def)
next
  case (Select ixs out)
  then show ?thesis using assms select_conforms by auto
next
  case (Rename rs out)
  then show ?thesis using assms rename_conforms by auto
qed (use assms in \<open>auto simp: schema_after_def or_input_def split: if_splits fanout_mode.splits\<close>)

lemma process_each_conforms:
  assumes "\<forall>r\<in>set rows. row_conforms s r" and "fits s t" and "process_each fl t rows = Inr out"
  shows "\<forall>r\<in>set out. row_conforms (schema_after t s) r"
  using assms
proof (induction rows arbitrary: out)
  case (Cons r rows)
  then obtain o1 o2 where "process fl t r = Inr o1" "process_each fl t rows = Inr o2" "out = o1 @ o2"
    by (auto split: sum.splits)
  with Cons process_conforms [of s r t fl o1] show ?case by auto
qed simp

text \<open>
  C34. Transforms are type sound. A row that conforms to the input schema leaves a chain of transforms
  as rows that conform to the schema the chain announces, provided every selection is within its input
  columns, mappers respect their announced schema, and filters and fan-outs announce their input.
  Processing itself never fails.
\<close>

theorem transforms_type_sound:
  assumes "row_conforms s r" and "chain_fits s ts"
  shows "\<exists>rows. pipeline_process fl ts r = Inr rows \<and> (\<forall>r'\<in>set rows. row_conforms (chain_schema ts s) r')"
proof -
  have each: "\<exists>out. process_each fl t rows = Inr out" for t rows
  proof (induction rows)
    case (Cons r rows)
    moreover have "\<exists>out. process fl t r = Inr out" by (cases t) auto
    ultimately show ?case by auto
  qed simp
  have "\<forall>r\<in>set rows. row_conforms s r \<Longrightarrow> chain_fits s ts \<Longrightarrow>
      \<exists>out. pipeline_rows fl ts rows = Inr out \<and> (\<forall>r'\<in>set out. row_conforms (chain_schema ts s) r')" for rows
  proof (induction ts arbitrary: s rows)
    case (Cons t ts)
    obtain out where o: "process_each fl t rows = Inr out" using each by blast
    from process_each_conforms [OF Cons.prems(1) _ o] Cons.prems(2)
    have "\<forall>r\<in>set out. row_conforms (schema_after t s) r" by simp
    from Cons.IH [OF this] Cons.prems(2) o show ?case by (simp add: chain_schema_def)
  qed (simp add: chain_schema_def)
  from this [of "[r]"] assms show ?thesis by (simp add: pipeline_process_def)
qed

definition demo_floats :: f64_ops where
  "demo_floats =
     \<lparr>fl_of_int = word_of_int, fl_of_f32 = ucast, fl_of_text = (\<lambda>_. 0), fl_parse = (\<lambda>_. None),
      fl_less = (\<lambda>a b. sint a < sint b), fl_le = (\<lambda>a b. sint a \<le> sint b), fl_close = (=)\<rparr>"

definition demo_row :: row where
  "demo_row = \<lparr>row_kind = Insert, row_fields = [FInt64 7, FString ''ann''], row_origin = None\<rparr>"

theorem transforms_type_sound_witness:
  "\<exists>rows. pipeline_process demo_floats [Filter_By_Index 0 Op_Gt (Some (FInt64 3)), Select [1, 0] None, Rename [(''id'', ''k'')] None] demo_row = Inr rows \<and>
     (\<forall>r\<in>set rows. row_conforms (chain_schema [Filter_By_Index 0 Op_Gt (Some (FInt64 3)), Select [1, 0] None, Rename [(''id'', ''k'')] None] demo_schema) r)"
  by (rule transforms_type_sound)
    (simp_all add: row_conforms_def demo_schema_def demo_row_def table_schema_new_def column_def_new_def field_conforms_def
      schema_after_def column_count_def)

definition keeps :: "f64_ops \<Rightarrow> row \<Rightarrow> transform \<Rightarrow> bool" where
  "keeps fl r t = (process fl t r = Inr [r])"

lemma created_filter:
  assumes "create_transform fl cfg = Inr t"
  shows "process fl t r = Inr (if keeps fl r t then [r] else [])"
  using assms by (auto simp: create_transform_def keeps_def Let_def split: if_splits option.splits sum.splits)

text \<open>
  A configured transform chain only filters. Rows pass \<open>create_transforms\<close> chains unchanged or not at
  all: the chain returns the row itself exactly when every filter finds its field and keeps it.
\<close>

theorem configured_chain_filters:
  assumes "create_transforms fl cfgs = Inr ts"
  shows "length ts = length cfgs \<and> pipeline_process fl ts r = Inr (if list_all (keeps fl r) ts then [r] else [])"
proof -
  have nil: "pipeline_rows fl ts [] = Inr []" for ts by (induction ts) auto
  show ?thesis using assms
  proof (induction cfgs arbitrary: ts)
    case (Cons cfg cfgs)
    then obtain t ts' where t: "create_transform fl cfg = Inr t" "create_transforms fl cfgs = Inr ts'" "ts = t # ts'"
      by (auto split: sum.splits)
    with Cons.IH [OF t(2)] created_filter [OF t(1), of r] nil show ?case by (auto simp: pipeline_process_def)
  qed (simp add: pipeline_process_def)
qed

theorem configured_chain_filters_witness:
  "\<exists>ts. create_transforms demo_floats [JObject [(''field_index'', JInt 0), (''plugin'', JString ''filter'')]] = Inr ts \<and>
     length ts = 1 \<and> pipeline_process demo_floats ts demo_row = Inr [demo_row]"
proof -
  obtain ts where ts: "create_transforms demo_floats [JObject [(''field_index'', JInt 0), (''plugin'', JString ''filter'')]] = Inr ts"
    "ts = [Filter_By_Index 0 Op_NotNull None]"
    by (simp add: create_transform_def j_get_def as_str_def as_u64_def parse_op_def Let_def to_lower_def u64_max_def)
  have "list_all (keeps demo_floats demo_row) ts"
    using ts(2) by (simp add: keeps_def demo_row_def field_count_def keep_field_def)
  with configured_chain_filters [OF ts(1), of demo_row] ts(1) show ?thesis by simp
qed

section \<open>In a task group\<close>

text \<open>The operations a task group calls; they do not touch the world.\<close>

definition transform_op_of :: "f64_ops \<Rightarrow> transform \<Rightarrow> ('s, row) transform_op" where
  "transform_op_of fl t r s = (process fl t r, s)"

lemma process_rows_pure: "process_rows (transform_op_of fl t) rows s = (process_each fl t rows, s)"
  by (induction rows) (auto simp: transform_op_of_def and_then_def split: sum.splits)

text \<open>A task group with these transforms runs the chain.\<close>

lemma transform_rows_pure: "transform_rows (map (transform_op_of fl) ts) rows s = (pipeline_rows fl ts rows, s)"
  by (induction ts arbitrary: rows) (auto simp: process_rows_pure and_then_def split: sum.splits)

text \<open>A projection loses the table a row came from, and a renamed schema its primary key.\<close>

lemma select_drops_origin: "process fl (Select ixs out) r = Inr [r'] \<Longrightarrow> row_origin r' = None"
  by (auto simp: select_row_def)

lemma rename_drops_key: "ts_primary_key (schema_after (Rename rs out) s) = []"
  by (simp add: schema_after_def table_schema_new_def column_def_new_def)

end
