(* ===== verification/Formats.thy ===== *)
theory Formats
  imports Rows Ordered_Map Sample_Codecs "HOL-Library.List_Lexorder" "HOL-Library.Char_ord"
begin

text \<open>
  The JSON message formats of the connectors (\<open>seatunnel-formats/src\<close>): plain JSON, native, Debezium, Canal,
  Maxwell, OGG and the two compatible formats. \<open>serde_json\<close> is a parameter: how a value becomes bytes and
  back. Its objects are ordered maps, so an object is the list of its entries in key order. A string is
  the list of its UTF-8 bytes.
\<close>

section \<open>Strings and JSON values\<close>

definition cont_byte :: "nat \<Rightarrow> bool" where
  "cont_byte b \<longleftrightarrow> 128 \<le> b \<and> b \<le> 191"

definition second_ok :: "nat \<Rightarrow> nat \<Rightarrow> bool" where
  "second_ok a b \<longleftrightarrow>
     cont_byte b \<and> (a = 0xE0 \<longrightarrow> 0xA0 \<le> b) \<and> (a = 0xED \<longrightarrow> b \<le> 0x9F) \<and> (a = 0xF0 \<longrightarrow> 0x90 \<le> b) \<and> (a = 0xF4 \<longrightarrow> b \<le> 0x8F)"

definition extra_bytes :: "nat \<Rightarrow> nat option" where
  "extra_bytes a =
     (if a < 128 then Some 0 else if 0xC2 \<le> a \<and> a \<le> 0xDF then Some 1
      else if 0xE0 \<le> a \<and> a \<le> 0xEF then Some 2 else if 0xF0 \<le> a \<and> a \<le> 0xF4 then Some 3 else None)"

fun utf8_run :: "nat \<Rightarrow> nat list \<Rightarrow> bool" where
  "utf8_run 0 [] = True"
| "utf8_run (Suc _) [] = False"
| "utf8_run (Suc k) (b # bs) = (cont_byte b \<and> utf8_run k bs)"
| "utf8_run 0 (a # bs) =
     (case extra_bytes a of
        None \<Rightarrow> False
      | Some k \<Rightarrow> (k = 0 \<or> (case bs of [] \<Rightarrow> False | b # _ \<Rightarrow> second_ok a b)) \<and> utf8_run k bs)"

text \<open>The character lists that are Rust strings, and their bytes.\<close>

definition rust_str :: "string \<Rightarrow> bool" where
  "rust_str s = utf8_run 0 (map of_char s)"

definition utf8 :: "string \<Rightarrow> octets" where
  "utf8 s = map (\<lambda>c. word_of_nat (of_char c)) s"

definition of_utf8 :: "octets \<Rightarrow> string" where
  "of_utf8 bs = map (\<lambda>b. char_of (unat b)) bs"

lemma of_utf8_utf8 [simp]: "of_utf8 (utf8 s) = s"
  by (simp add: of_utf8_def utf8_def comp_def unat_of_nat)

text \<open>The values \<open>serde_json\<close> prints and reads back without loss: numbers other than floats, objects in key order.\<close>

fun json_wf :: "json \<Rightarrow> bool" where
  "json_wf JNull = True"
| "json_wf (JBool _) = True"
| "json_wf (JInt n) = (- (2 ^ 63) \<le> n \<and> n < 2 ^ 64)"
| "json_wf (JFloat _) = False"
| "json_wf (JString s) = rust_str s"
| "json_wf (JArray xs) = list_all json_wf xs"
| "json_wf (JObject m) = (bt_wf m \<and> list_all (\<lambda>(k, v). rust_str k \<and> json_wf v) m)"

record json_codec =
  to_vec :: "json \<Rightarrow> octets"
  from_slice :: "octets \<Rightarrow> json option"
  float_num :: "64 word \<Rightarrow> json option"
  num_float :: "json \<Rightarrow> 64 word"
  num_text :: "string \<Rightarrow> string"
  rfc3339 :: "int \<Rightarrow> string"

definition json_codec_ok :: "json_codec \<Rightarrow> bool" where
  "json_codec_ok jc \<longleftrightarrow> (\<forall>v. json_wf v \<longrightarrow> from_slice jc (to_vec jc v) = Some v)"

section \<open>Fields and JSON values\<close>

text \<open>Three readers of a field: with arrays and objects; without; and the native one, which keeps the text of a float.\<close>

definition int_field :: "json_codec \<Rightarrow> int \<Rightarrow> field" where
  "int_field jc n =
     (if - (2 ^ 63) \<le> n \<and> n < 2 ^ 63 then FInt64 (word_of_int n)
      else if 0 \<le> n \<and> n < 2 ^ 64 then FUInt64 (word_of_int n)
      else FFloat64 (num_float jc (JInt n)))"

fun json_to_field :: "json_codec \<Rightarrow> json \<Rightarrow> field" where
  "json_to_field jc (JBool b) = FBool b"
| "json_to_field jc (JInt n) = int_field jc n"
| "json_to_field jc (JFloat t) = FFloat64 (num_float jc (JFloat t))"
| "json_to_field jc (JString s) = FString s"
| "json_to_field jc (JArray xs) = FArray (map (json_to_field jc) xs)"
| "json_to_field jc (JObject m) = FJson (JObject m)"
| "json_to_field jc JNull = FNull"

definition flat_to_field :: "json_codec \<Rightarrow> json \<Rightarrow> field" where
  "flat_to_field jc v =
     (case v of
        JBool b \<Rightarrow> FBool b | JInt n \<Rightarrow> int_field jc n | JFloat t \<Rightarrow> FFloat64 (num_float jc (JFloat t))
      | JString s \<Rightarrow> FString s | _ \<Rightarrow> FNull)"

definition native_to_field :: "json_codec \<Rightarrow> json \<Rightarrow> field" where
  "native_to_field jc v =
     (case v of
        JBool b \<Rightarrow> FBool b
      | JInt n \<Rightarrow>
          if - (2 ^ 63) \<le> n \<and> n < 2 ^ 63 then FInt64 (word_of_int n)
          else if 0 \<le> n \<and> n < 2 ^ 64 then FUInt64 (word_of_int n) else FString (show_int n)
      | JFloat t \<Rightarrow> FString (num_text jc t)
      | JString s \<Rightarrow> FString s | _ \<Rightarrow> FNull)"

fun field_to_json :: "texts \<Rightarrow> json_codec \<Rightarrow> field \<Rightarrow> json" where
  "field_to_json tx jc FNull = JNull"
| "field_to_json tx jc (FBool b) = JBool b"
| "field_to_json tx jc (FInt32 v) = JInt (sint v)"
| "field_to_json tx jc (FInt64 v) = JInt (sint v)"
| "field_to_json tx jc (FUInt64 v) = JInt (uint v)"
| "field_to_json tx jc (FFloat64 v) = (case float_num jc v of None \<Rightarrow> JNull | Some n \<Rightarrow> n)"
| "field_to_json tx jc (FString s) = JString s"
| "field_to_json tx jc (FBytes b) = JString (hex_encode b)"
| "field_to_json tx jc (FJson v) = v"
| "field_to_json tx jc (FDate d) = JString (tx_date tx d)"
| "field_to_json tx jc (FTime t) = JString (tx_time tx t)"
| "field_to_json tx jc (FDateTime t) = JString (tx_datetime tx t)"
| "field_to_json tx jc (FTimestampTz t) = JString (rfc3339 jc t)"
| "field_to_json tx jc (FArray fs) = JArray (map (field_to_json tx jc) fs)"
| "field_to_json tx jc f = JString (display_field tx f)"

definition simple_to_json :: "texts \<Rightarrow> field \<Rightarrow> json" where
  "simple_to_json tx f =
     (case f of FNull \<Rightarrow> JNull | FBool b \<Rightarrow> JBool b | FInt64 v \<Rightarrow> JInt (sint v) | FString s \<Rightarrow> JString s
      | _ \<Rightarrow> JString (display_field tx f))"

definition native_to_json :: "texts \<Rightarrow> field \<Rightarrow> json" where
  "native_to_json tx f =
     (case f of FNull \<Rightarrow> JNull | FBool b \<Rightarrow> JBool b | FInt64 v \<Rightarrow> JInt (sint v) | FInt32 v \<Rightarrow> JInt (sint v)
      | FString s \<Rightarrow> JString s | _ \<Rightarrow> JString (display_field tx f))"

section \<open>Rows and JSON objects\<close>

text \<open>Every reader fills a row of \<open>NULL\<close>s column by column; every writer inserts the fields the row has.\<close>

definition row_from :: "row_kind \<Rightarrow> table_schema \<Rightarrow> (string \<Rightarrow> field) \<Rightarrow> row" where
  "row_from k s get = \<lparr>row_kind = k, row_fields = map (\<lambda>c. get (cd_name c)) (ts_columns s), row_origin = None\<rparr>"

definition object_of :: "(field \<Rightarrow> json) \<Rightarrow> table_schema \<Rightarrow> row \<Rightarrow> (string \<times> json) list" where
  "object_of conv s r =
     fold (\<lambda>x. bt_insert (cd_name (fst x)) (conv (snd x))) (zip (ts_columns s) (row_fields r)) []"

definition field_at :: "(json \<Rightarrow> field) \<Rightarrow> (string \<times> json) list \<Rightarrow> string \<Rightarrow> field" where
  "field_at conv m n = (case map_of m n of None \<Rightarrow> FNull | Some v \<Rightarrow> conv v)"

definition parse_object :: "json_codec \<Rightarrow> octets \<Rightarrow> string + (string \<times> json) list" where
  "parse_object jc bs =
     (case from_slice jc bs of
        None \<Rightarrow> Inl ''invalid JSON''
      | Some v \<Rightarrow> (case as_object v of None \<Rightarrow> Inl ''Expected JSON object'' | Some m \<Rightarrow> Inr m))"

definition obj :: "(string \<times> json) list \<Rightarrow> json" where
  "obj entries = JObject (fold (\<lambda>p. bt_insert (fst p) (snd p)) entries [])"

type_synonym decoded = "string + row list"

section \<open>The formats\<close>

subsection \<open>json.rs, native.rs, compatible\_debezium\_json.rs\<close>

definition json_deserialize :: "json_codec \<Rightarrow> octets \<Rightarrow> table_schema \<Rightarrow> decoded" where
  "json_deserialize jc bs s =
     (case parse_object jc bs of
        Inl e \<Rightarrow> Inl e | Inr m \<Rightarrow> Inr [row_from Insert s (field_at (json_to_field jc) m)])"

definition json_serialize :: "texts \<Rightarrow> json_codec \<Rightarrow> table_schema \<Rightarrow> row \<Rightarrow> octets" where
  "json_serialize tx jc s r = to_vec jc (JObject (object_of (field_to_json tx jc) s r))"

definition native_deserialize :: "json_codec \<Rightarrow> octets \<Rightarrow> table_schema \<Rightarrow> decoded" where
  "native_deserialize jc bs s =
     (case parse_object jc bs of
        Inl e \<Rightarrow> Inl e | Inr m \<Rightarrow> Inr [row_from Insert s (field_at (native_to_field jc) m)])"

definition native_serialize :: "texts \<Rightarrow> json_codec \<Rightarrow> table_schema \<Rightarrow> row \<Rightarrow> octets" where
  "native_serialize tx jc s r = to_vec jc (JObject (object_of (native_to_json tx) s r))"

definition compat_debezium_deserialize :: "json_codec \<Rightarrow> octets \<Rightarrow> table_schema \<Rightarrow> decoded" where
  "compat_debezium_deserialize jc bs s =
     (case parse_object jc bs of
        Inl e \<Rightarrow> Inl e | Inr m \<Rightarrow> Inr [row_from Insert s (field_at (json_to_field jc) m)])"

definition compat_debezium_serialize :: "texts \<Rightarrow> json_codec \<Rightarrow> table_schema \<Rightarrow> row \<Rightarrow> octets" where
  "compat_debezium_serialize tx jc s r = to_vec jc (JObject (object_of (simple_to_json tx) s r))"

subsection \<open>compatible\_kafka\_connect\_json.rs\<close>

definition sub_object :: "string \<Rightarrow> (string \<times> json) list \<Rightarrow> (string \<times> json) list" where
  "sub_object k m = unwrap_or [] (Option.bind (map_of m k) as_object)"

definition kafka_connect_deserialize :: "json_codec \<Rightarrow> octets \<Rightarrow> table_schema \<Rightarrow> decoded" where
  "kafka_connect_deserialize jc bs s =
     (case parse_object jc bs of
        Inl e \<Rightarrow> Inl e
      | Inr m \<Rightarrow> Inr [row_from Insert s (field_at (flat_to_field jc) (sub_object ''payload'' m))])"

definition field_type_str :: "column_type \<Rightarrow> string" where
  "field_type_str t =
     (case t of TBool \<Rightarrow> ''boolean'' | TInt32 \<Rightarrow> ''int32'' | TInt64 \<Rightarrow> ''int64'' | TFloat64 \<Rightarrow> ''double''
      | TBytes \<Rightarrow> ''bytes'' | _ \<Rightarrow> ''string'')"

definition kafka_connect_serialize :: "texts \<Rightarrow> json_codec \<Rightarrow> table_schema \<Rightarrow> row \<Rightarrow> octets" where
  "kafka_connect_serialize tx jc s r =
     to_vec jc (obj
       [(''schema'', obj
          [(''type'', JString ''struct''),
           (''fields'', JArray (map (\<lambda>c. obj [(''type'', JString (field_type_str (cd_type c))), (''field'', JString (cd_name c))]) (ts_columns s)))]),
        (''payload'', JObject (object_of (simple_to_json tx) s r))])"

subsection \<open>debezium\_json.rs\<close>

definition debezium_field ::
    "json_codec \<Rightarrow> (string \<times> json) list \<Rightarrow> (string \<times> json) list \<Rightarrow> bool \<Rightarrow> string \<Rightarrow> field" where
  "debezium_field jc before after prefer_after n =
     (let first = (if prefer_after then after else before); second = (if prefer_after then before else after) in
      case map_of first n of
        Some v \<Rightarrow> json_to_field jc v
      | None \<Rightarrow> (case map_of second n of Some v \<Rightarrow> json_to_field jc v | None \<Rightarrow> FNull))"

definition debezium_deserialize :: "json_codec \<Rightarrow> octets \<Rightarrow> table_schema \<Rightarrow> decoded" where
  "debezium_deserialize jc bs s =
     (case parse_object jc bs of
        Inl e \<Rightarrow> Inl e
      | Inr m \<Rightarrow>
          let oper = unwrap_or ''c'' (Option.bind (map_of m ''op'') as_str);
              get = debezium_field jc (sub_object ''before'' m) (sub_object ''after'' m) in
          if oper = ''u'' then Inr [row_from UpdateBefore s (get False), row_from UpdateAfter s (get True)]
          else if oper = ''d'' then Inr [row_from Delete s (get False)]
          else Inr [row_from Insert s (get True)])"

definition debezium_serialize :: "texts \<Rightarrow> json_codec \<Rightarrow> int \<Rightarrow> table_schema \<Rightarrow> row \<Rightarrow> octets" where
  "debezium_serialize tx jc now s r =
     (let image = JObject (object_of (simple_to_json tx) s r);
          (oper, has_before, has_after) =
            (case row_kind r of
               Insert \<Rightarrow> (''c'', False, True) | UpdateBefore \<Rightarrow> (''u'', True, False)
             | UpdateAfter \<Rightarrow> (''u'', True, True) | Delete \<Rightarrow> (''d'', True, False))
      in to_vec jc (obj
           ((if has_after then [(''after'', image)] else []) @ (if has_before then [(''before'', image)] else []) @
            [(''op'', JString oper), (''source'', obj [(''ts_ms'', JInt now)]), (''ts_ms'', JInt now)])))"

subsection \<open>canal\_json.rs\<close>

definition first_object :: "string \<Rightarrow> (string \<times> json) list \<Rightarrow> (string \<times> json) list" where
  "first_object k m =
     unwrap_or [] (Option.bind (Option.bind (map_of m k) as_array)
       (\<lambda>xs. case xs of [] \<Rightarrow> None | x # _ \<Rightarrow> as_object x))"

definition canal_deserialize :: "json_codec \<Rightarrow> octets \<Rightarrow> table_schema \<Rightarrow> decoded" where
  "canal_deserialize jc bs s =
     (case parse_object jc bs of
        Inl e \<Rightarrow> Inl e
      | Inr m \<Rightarrow>
          let kind = unwrap_or ''INSERT'' (Option.bind (map_of m ''_type'') as_str);
              new = field_at (json_to_field jc) (first_object ''data'' m);
              old = field_at (json_to_field jc) (first_object ''old'' m) in
          if kind = ''UPDATE'' then Inr [row_from UpdateBefore s old, row_from UpdateAfter s new]
          else if kind = ''DELETE'' then Inr [row_from Delete s new]
          else Inr [row_from Insert s new])"

definition canal_serialize :: "texts \<Rightarrow> json_codec \<Rightarrow> int \<Rightarrow> table_schema \<Rightarrow> row \<Rightarrow> octets" where
  "canal_serialize tx jc now s r =
     (let kind = (case row_kind r of Delete \<Rightarrow> ''DELETE'' | UpdateBefore \<Rightarrow> ''UPDATE'' | UpdateAfter \<Rightarrow> ''UPDATE''
                  | Insert \<Rightarrow> ''INSERT'')
      in to_vec jc (obj
           [(''_type'', JString kind), (''_ts'', JInt now),
            (''data'', JArray [JObject (object_of (simple_to_json tx) s r)])]))"

subsection \<open>maxwell\_json.rs\<close>

definition maxwell_deserialize :: "json_codec \<Rightarrow> octets \<Rightarrow> table_schema \<Rightarrow> decoded" where
  "maxwell_deserialize jc bs s =
     (case parse_object jc bs of
        Inl e \<Rightarrow> Inl e
      | Inr m \<Rightarrow>
          let kind = unwrap_or ''insert'' (Option.bind (map_of m ''type'') as_str);
              new = field_at (flat_to_field jc) (sub_object ''data'' m);
              old = field_at (flat_to_field jc) (sub_object ''old'' m) in
          if kind = ''update'' then Inr [row_from UpdateBefore s old, row_from UpdateAfter s new]
          else if kind = ''delete'' then Inr [row_from Delete s new]
          else Inr [row_from Insert s new])"

definition maxwell_serialize :: "texts \<Rightarrow> json_codec \<Rightarrow> table_schema \<Rightarrow> row \<Rightarrow> octets" where
  "maxwell_serialize tx jc s r =
     (let kind = (case row_kind r of Delete \<Rightarrow> ''delete'' | UpdateBefore \<Rightarrow> ''update'' | UpdateAfter \<Rightarrow> ''update''
                  | Insert \<Rightarrow> ''insert'');
          image = JObject (object_of (simple_to_json tx) s r)
      in to_vec jc (obj
           ([(''database'', JString ''default''), (''table'', JString (ts_table s)), (''type'', JString kind),
             (''xoffset'', JInt 0), (''commit'', JBool True)] @
            (if row_kind r = UpdateBefore then [(''old'', image)] else []) @ [(''data'', image)])))"

subsection \<open>ogg\_json.rs\<close>

definition to_upper :: "char \<Rightarrow> char" where
  "to_upper ch =
     (let n = (of_char ch :: nat) in if 97 \<le> n \<and> n \<le> 122 then char_of (n - 32) else ch)"

definition sub_array :: "string \<Rightarrow> (string \<times> json) list \<Rightarrow> json list" where
  "sub_array k m = unwrap_or [] (Option.bind (map_of m k) as_array)"

definition same_name :: "string \<Rightarrow> json \<Rightarrow> bool" where
  "same_name n v = (case as_str v of None \<Rightarrow> False | Some t \<Rightarrow> map to_lower t = map to_lower n)"

definition ogg_field :: "json_codec \<Rightarrow> json list \<Rightarrow> json list \<Rightarrow> string \<Rightarrow> field" where
  "ogg_field jc cols vals n =
     (case position (same_name n) cols of
        None \<Rightarrow> FNull | Some j \<Rightarrow> if j < length vals then flat_to_field jc (vals ! j) else FNull)"

definition ogg_deserialize :: "json_codec \<Rightarrow> octets \<Rightarrow> table_schema \<Rightarrow> decoded" where
  "ogg_deserialize jc bs s =
     (case parse_object jc bs of
        Inl e \<Rightarrow> Inl e
      | Inr m \<Rightarrow>
          let oper = map to_upper (unwrap_or [] (Option.bind (map_of m ''OP_TYPE'') as_str));
              get = ogg_field jc (sub_array ''COLUMN_NAME'' m);
              before = get (sub_array ''BEFORE_VALUE'' m); after = get (sub_array ''AFTER_VALUE'' m) in
          if oper = ''UPDATE'' then Inr [row_from UpdateBefore s before, row_from UpdateAfter s after]
          else if oper = ''DELETE'' then Inr [row_from Delete s before]
          else Inr [row_from Insert s after])"

definition ogg_serialize :: "texts \<Rightarrow> json_codec \<Rightarrow> table_schema \<Rightarrow> row \<Rightarrow> octets" where
  "ogg_serialize tx jc s r =
     (let oper = (case row_kind r of Delete \<Rightarrow> ''DELETE'' | UpdateBefore \<Rightarrow> ''MODIFY'' | UpdateAfter \<Rightarrow> ''MODIFY''
                  | Insert \<Rightarrow> ''INSERT'')
      in to_vec jc (obj
           [(''OP_TYPE'', JString oper), (''COLUMN_NAME'', JArray (map (\<lambda>c. JString (cd_name c)) (ts_columns s))),
            (''AFTER_VALUE'', JArray (map (\<lambda>i. if i < field_count r then simple_to_json tx (row_fields r ! i) else JNull)
               [0..<length (ts_columns s)]))]))"

section \<open>Round trips\<close>

text \<open>
  What a message format promises its clients: a row it can represent is read back from the bytes it was
  written to. Streams of messages then keep their rows and order.
\<close>

locale row_format =
  fixes enc :: "table_schema \<Rightarrow> row \<Rightarrow> octets"
    and dec :: "octets \<Rightarrow> table_schema \<Rightarrow> decoded"
    and lossless :: "table_schema \<Rightarrow> row \<Rightarrow> bool"
  assumes roundtrip: "lossless s r \<Longrightarrow> dec (enc s r) s = Inr [r]"
begin

lemma decode_first: "lossless s r \<Longrightarrow> (case dec (enc s r) s of Inr (r' # _) \<Rightarrow> r' = r | _ \<Rightarrow> False)"
  by (simp add: roundtrip)

lemma stream: "list_all (lossless s) rs \<Longrightarrow> map (\<lambda>r. dec (enc s r) s) rs = map (\<lambda>r. Inr [r]) rs"
  by (induction rs) (simp_all add: roundtrip)

lemma enc_inj: "lossless s r \<Longrightarrow> lossless s r' \<Longrightarrow> enc s r = enc s r' \<Longrightarrow> r = r'"
  by (metis list.inject roundtrip sum.inject(2))

end

text \<open>A row of the schema's shape, with representable fields.\<close>

definition shaped :: "(field \<Rightarrow> bool) \<Rightarrow> table_schema \<Rightarrow> row \<Rightarrow> bool" where
  "shaped good s r \<longleftrightarrow>
     distinct (field_names s) \<and> list_all rust_str (field_names s) \<and> length (row_fields r) = column_count s \<and>
     row_origin r = None \<and> list_all good (row_fields r)"

fun simple_field :: "field \<Rightarrow> bool" where
  "simple_field FNull = True"
| "simple_field (FBool _) = True"
| "simple_field (FInt64 _) = True"
| "simple_field (FString s) = rust_str s"
| "simple_field _ = False"

fun plain_field :: "field \<Rightarrow> bool" where
  "plain_field (FUInt64 v) = (2 ^ 63 \<le> uint v)"
| "plain_field (FJson (JObject m)) = json_wf (JObject m)"
| "plain_field (FArray fs) = list_all plain_field fs"
| "plain_field f = simple_field f"

lemma sint64_bounds: "- (2 ^ 63) \<le> sint (v :: 64 word)" "sint (v :: 64 word) < 2 ^ 63"
  using sint_ge [of v] sint_lt [of v] by simp_all

lemma int_field_sint [simp]: "int_field jc (sint v) = FInt64 v"
  using sint64_bounds [of v] by (simp add: int_field_def)

lemma int_field_uint: "2 ^ 63 \<le> uint v \<Longrightarrow> int_field jc (uint v) = FUInt64 v"
  using uint_lt2p [of v] by (simp add: int_field_def)

lemma plain_roundtrip:
  "plain_field f \<Longrightarrow> json_to_field jc (field_to_json tx jc f) = f \<and> json_wf (field_to_json tx jc f)"
proof (induction f)
  case (FInt64 v)
  then show ?case using sint64_bounds [of v] by simp
next
  case (FUInt64 v)
  then show ?case using uint_lt2p [of v] by (simp add: int_field_uint)
next
  case (FJson v)
  then show ?case by (cases v) simp_all
next
  case (FArray fs)
  then show ?case by (auto simp: list_all_iff map_idI)
qed simp_all

lemma simple_roundtrip:
  assumes "simple_field f"
  shows "json_wf (simple_to_json tx f)" "json_to_field jc (simple_to_json tx f) = f"
    "flat_to_field jc (simple_to_json tx f) = f"
    "json_wf (native_to_json tx f)" "native_to_field jc (native_to_json tx f) = f"
proof -
  have "- (2 ^ 63) \<le> sint v \<and> sint v < 2 ^ 64" for v :: "64 word" using sint64_bounds [of v] by simp
  with assms show "json_wf (simple_to_json tx f)" "json_to_field jc (simple_to_json tx f) = f"
    "flat_to_field jc (simple_to_json tx f) = f"
    "json_wf (native_to_json tx f)" "native_to_field jc (native_to_json tx f) = f"
    using sint64_bounds
    by (cases f; simp add: simple_to_json_def flat_to_field_def native_to_json_def native_to_field_def)+
qed

lemma object_pairs: "object_of conv s r = fold (\<lambda>p. bt_insert (fst p) (snd p))
    (map (\<lambda>x. (cd_name (fst x), conv (snd x))) (zip (ts_columns s) (row_fields r))) []"
  by (simp add: object_of_def fold_map comp_def)

lemma inserted_wf: "bt_wf (fold (\<lambda>p. bt_insert (fst p) (snd p)) es [])"
  using bt.wf_fold_insert [of "[]" fst snd es] by simp

lemma inserted_set:
  "set (fold (\<lambda>p. bt_insert (fst p) (snd p)) es m) \<subseteq> set es \<union> set m"
proof (induction es arbitrary: m)
  case (Cons p es)
  have "set (bt_insert (fst p) (snd p) m) \<subseteq> insert p (set m)" by (auto simp: bt_insert_def)
  with Cons [of "bt_insert (fst p) (snd p) m"] show ?case by auto
qed simp

lemma inserted_get:
  "distinct (map fst es) \<Longrightarrow> map_of (fold (\<lambda>p. bt_insert (fst p) (snd p)) es []) = map_of es"
proof
  fix k assume d: "distinct (map fst es)"
  have "map_of (rev es) = map_of es"
    using d by (intro map_of_inject_set [THEN iffD2]) (simp_all add: rev_map [symmetric])
  with bt.get_fold_insert [of "[]" fst snd es k]
  show "map_of (fold (\<lambda>p. bt_insert (fst p) (snd p)) es []) k = map_of es k"
    by (simp add: hm_get_def split: option.split)
qed

lemma object_wf:
  assumes "shaped good s r" and "\<And>f. good f \<Longrightarrow> json_wf (conv f)"
  shows "json_wf (JObject (object_of conv s r))"
proof -
  let ?es = "map (\<lambda>x. (cd_name (fst x), conv (snd x))) (zip (ts_columns s) (row_fields r))"
  have "rust_str k \<and> json_wf v" if "(k, v) \<in> set ?es" for k v
    using that assms by (auto simp: shaped_def list_all_iff field_names_def dest: set_zip_leftD set_zip_rightD)
  moreover have "set (object_of conv s r) \<subseteq> set ?es"
    unfolding object_pairs using inserted_set [of ?es "[]"] by (simp only: list.set(1) Un_empty_right)
  ultimately have "\<forall>(k, v)\<in>set (object_of conv s r). rust_str k \<and> json_wf v" by blast
  then show ?thesis unfolding object_pairs by (auto simp: inserted_wf list_all_iff)
qed

text \<open>Reading back, column by column, an object that was written.\<close>

lemma row_from_object:
  assumes "shaped good s r" and "\<And>f. good f \<Longrightarrow> back (conv f) = f"
  shows "row_from (row_kind r) s (field_at back (object_of conv s r)) = r"
proof -
  let ?es = "map (\<lambda>x. (cd_name (fst x), conv (snd x))) (zip (ts_columns s) (row_fields r))"
  have l: "length (row_fields r) = length (ts_columns s)" using assms(1) by (simp add: shaped_def column_count_def)
  have "map fst ?es = map cd_name (map fst (zip (ts_columns s) (row_fields r)))" by simp
  also have "\<dots> = field_names s" using l by (simp only: map_fst_zip field_names_def)
  finally have d: "distinct (map fst ?es)" using assms(1) by (simp add: shaped_def)
  have "field_at back (object_of conv s r) (cd_name (ts_columns s ! i)) = row_fields r ! i" if i: "i < length (ts_columns s)" for i
  proof -
    have "(cd_name (ts_columns s ! i), conv (row_fields r ! i)) \<in> set ?es"
      using i l by (auto simp: set_zip image_iff)
    then have "map_of ?es (cd_name (ts_columns s ! i)) = Some (conv (row_fields r ! i))"
      using d by (rule map_of_is_SomeI [rotated])
    moreover have "good (row_fields r ! i)" using assms(1) i l by (simp add: shaped_def list_all_length)
    ultimately show ?thesis
      using assms(2) inserted_get [OF d] by (simp add: field_at_def object_pairs)
  qed
  then have "row_fields (row_from (row_kind r) s (field_at back (object_of conv s r))) = row_fields r"
    using l by (auto simp: row_from_def intro: nth_equalityI)
  then show ?thesis using assms(1) by (simp add: row_from_def shaped_def)
qed

lemma parse_written: "json_codec_ok jc \<Longrightarrow> json_wf (JObject m) \<Longrightarrow> parse_object jc (to_vec jc (JObject m)) = Inr m"
  by (simp add: parse_object_def json_codec_ok_def as_object_def)

text \<open>Envelopes: an object written entry by entry under distinct keys.\<close>

lemma parse_envelope:
  assumes "json_codec_ok jc" and "distinct (map fst es)" and "\<forall>(k, v)\<in>set es. rust_str k \<and> json_wf v"
  shows "\<exists>m. parse_object jc (to_vec jc (obj es)) = Inr m \<and> map_of m = map_of es"
proof -
  let ?m = "fold (\<lambda>p. bt_insert (fst p) (snd p)) es []"
  have "json_wf (JObject ?m)"
    using assms(3) inserted_set [of es "[]"] by (auto simp: inserted_wf list_all_iff)
  then show ?thesis using parse_written [OF assms(1)] inserted_get [OF assms(2)] by (simp add: obj_def)
qed

text \<open>The rows each format represents.\<close>

definition json_lossless :: "json_codec \<Rightarrow> table_schema \<Rightarrow> row \<Rightarrow> bool" where
  "json_lossless jc s r \<longleftrightarrow> json_codec_ok jc \<and> row_kind r = Insert \<and> shaped plain_field s r"

definition simple_lossless :: "json_codec \<Rightarrow> row_kind set \<Rightarrow> table_schema \<Rightarrow> row \<Rightarrow> bool" where
  "simple_lossless jc kinds s r \<longleftrightarrow>
     json_codec_ok jc \<and> row_kind r \<in> kinds \<and> shaped simple_field s r \<and> rust_str (ts_table s)"

definition i64_range :: "int \<Rightarrow> bool" where
  "i64_range n \<longleftrightarrow> - (2 ^ 63) \<le> n \<and> n < 2 ^ 63"

definition ogg_lossless :: "json_codec \<Rightarrow> table_schema \<Rightarrow> row \<Rightarrow> bool" where
  "ogg_lossless jc s r \<longleftrightarrow> simple_lossless jc {Insert} s r \<and> distinct (map (map to_lower) (field_names s))"

lemmas shaped_object = object_wf [where good = simple_field, OF _ simple_roundtrip(1)]

lemma row_from_written:
  assumes "shaped simple_field s r" and "row_kind r = k"
  shows "row_from k s (field_at (json_to_field jc) (object_of (simple_to_json tx) s r)) = r"
    "row_from k s (field_at (flat_to_field jc) (object_of (simple_to_json tx) s r)) = r"
    "row_from k s (field_at (native_to_field jc) (object_of (native_to_json tx) s r)) = r"
  using row_from_object [OF assms(1), of "json_to_field jc" "simple_to_json tx", OF simple_roundtrip(2)]
    row_from_object [OF assms(1), of "flat_to_field jc" "simple_to_json tx", OF simple_roundtrip(3)]
    row_from_object [OF assms(1), of "native_to_field jc" "native_to_json tx", OF simple_roundtrip(5)] assms(2)
  by simp_all

interpretation json_format: row_format "json_serialize tx jc" "json_deserialize jc" "json_lossless jc" for tx jc
proof unfold_locales
  fix s r assume l: "json_lossless jc s r"
  then have sh: "shaped plain_field s r" by (simp add: json_lossless_def)
  have "json_wf (JObject (object_of (field_to_json tx jc) s r))"
    by (rule object_wf [OF sh]) (simp add: plain_roundtrip)
  moreover have "row_from (row_kind r) s (field_at (json_to_field jc) (object_of (field_to_json tx jc) s r)) = r"
    by (rule row_from_object [OF sh]) (simp add: plain_roundtrip)
  ultimately show "json_deserialize jc (json_serialize tx jc s r) s = Inr [r]"
    using l by (simp add: json_lossless_def json_deserialize_def json_serialize_def parse_written)
qed

interpretation native_format: row_format "native_serialize tx jc" "native_deserialize jc" "simple_lossless jc {Insert}" for tx jc
proof unfold_locales
  fix s r assume l: "simple_lossless jc {Insert} s r"
  then have sh: "shaped simple_field s r" "row_kind r = Insert" by (simp_all add: simple_lossless_def)
  have "json_wf (JObject (object_of (native_to_json tx) s r))" by (rule object_wf [OF sh(1) simple_roundtrip(4)])
  then show "native_deserialize jc (native_serialize tx jc s r) s = Inr [r]"
    using l row_from_written(3) [OF sh]
    by (simp add: simple_lossless_def native_deserialize_def native_serialize_def parse_written)
qed

interpretation compat_debezium_format:
  row_format "compat_debezium_serialize tx jc" "compat_debezium_deserialize jc" "simple_lossless jc {Insert}" for tx jc
proof unfold_locales
  fix s r assume l: "simple_lossless jc {Insert} s r"
  then have sh: "shaped simple_field s r" "row_kind r = Insert" by (simp_all add: simple_lossless_def)
  show "compat_debezium_deserialize jc (compat_debezium_serialize tx jc s r) s = Inr [r]"
    using l row_from_written(1) [OF sh] shaped_object [OF sh(1)]
    by (simp add: simple_lossless_def compat_debezium_deserialize_def compat_debezium_serialize_def parse_written)
qed

lemma rust_str_keys [simp]:
  "rust_str ''schema''" "rust_str ''payload''" "rust_str ''type''" "rust_str ''fields''" "rust_str ''field''"
  "rust_str ''struct''" "rust_str ''boolean''" "rust_str ''int32''" "rust_str ''int64''" "rust_str ''double''"
  "rust_str ''bytes''" "rust_str ''string''" "rust_str ''after''" "rust_str ''before''" "rust_str ''op''"
  "rust_str ''source''" "rust_str ''ts_ms''" "rust_str ''c''" "rust_str ''u''" "rust_str ''d''" "rust_str ''_type''"
  "rust_str ''_ts''" "rust_str ''data''" "rust_str ''old''" "rust_str ''database''" "rust_str ''default''"
  "rust_str ''table''" "rust_str ''xoffset''" "rust_str ''commit''" "rust_str ''insert''" "rust_str ''update''"
  "rust_str ''delete''" "rust_str ''INSERT''" "rust_str ''UPDATE''" "rust_str ''DELETE''" "rust_str ''MODIFY''"
  "rust_str ''OP_TYPE''" "rust_str ''COLUMN_NAME''" "rust_str ''AFTER_VALUE''"
  by (simp_all add: rust_str_def extra_bytes_def)

lemma obj_wf: "\<forall>(k, v)\<in>set es. rust_str k \<and> json_wf v \<Longrightarrow> json_wf (obj es)"
  using inserted_set [of es "[]"] by (auto simp: obj_def inserted_wf list_all_iff)

interpretation kafka_connect_format:
  row_format "kafka_connect_serialize tx jc" "kafka_connect_deserialize jc" "simple_lossless jc {Insert}" for tx jc
proof unfold_locales
  fix s r assume l: "simple_lossless jc {Insert} s r"
  then have sh: "shaped simple_field s r" "row_kind r = Insert" by (simp_all add: simple_lossless_def)
  let ?es = "[(''schema'', obj
          [(''type'', JString ''struct''),
           (''fields'', JArray (map (\<lambda>c. obj [(''type'', JString (field_type_str (cd_type c))), (''field'', JString (cd_name c))]) (ts_columns s)))]),
        (''payload'', JObject (object_of (simple_to_json tx) s r))]"
  have "json_wf (obj [(''type'', JString (field_type_str (cd_type c))), (''field'', JString (cd_name c))])" if "c \<in> set (ts_columns s)" for c
    using that sh(1) by (intro obj_wf) (auto simp: shaped_def list_all_iff field_names_def field_type_str_def split: column_type.split)
  then have "\<forall>(k, v)\<in>set ?es. rust_str k \<and> json_wf v"
    using shaped_object [OF sh(1)] by (auto intro!: obj_wf simp: list_all_iff)
  then obtain m where "parse_object jc (to_vec jc (obj ?es)) = Inr m" "map_of m = map_of ?es"
    using parse_envelope [of jc ?es] l by (auto simp: simple_lossless_def)
  with row_from_written(2) [OF sh] show "kafka_connect_deserialize jc (kafka_connect_serialize tx jc s r) s = Inr [r]"
    by (simp add: kafka_connect_deserialize_def kafka_connect_serialize_def sub_object_def as_object_def)
qed

text \<open>Time stamps of an envelope: the clock when the row was written.\<close>

interpretation debezium_format:
  row_format "debezium_serialize tx jc now" "debezium_deserialize jc"
    "\<lambda>s r. i64_range now \<and> simple_lossless jc {Insert, Delete} s r" for tx jc now
proof unfold_locales
  fix s r assume l: "i64_range now \<and> simple_lossless jc {Insert, Delete} s r"
  let ?im = "object_of (simple_to_json tx) s r"
  from l have sh: "shaped simple_field s r" "row_kind r = Insert \<or> row_kind r = Delete" "json_codec_ok jc"
    by (auto simp: simple_lossless_def)
  have n: "json_wf (JInt now)" using l by (simp add: i64_range_def)
  have src: "json_wf (obj [(''ts_ms'', JInt now)])" using n by (intro obj_wf) simp
  have get: "debezium_field jc [] ?im True = field_at (json_to_field jc) ?im" "debezium_field jc ?im [] False = field_at (json_to_field jc) ?im"
    by (auto simp: debezium_field_def field_at_def fun_eq_iff split: option.splits)
  from sh(2) show "debezium_deserialize jc (debezium_serialize tx jc now s r) s = Inr [r]"
  proof
    assume k: "row_kind r = Insert"
    let ?es = "[(''after'', JObject ?im), (''op'', JString ''c''), (''source'', obj [(''ts_ms'', JInt now)]), (''ts_ms'', JInt now)]"
    obtain m where "parse_object jc (to_vec jc (obj ?es)) = Inr m" "map_of m = map_of ?es"
      using parse_envelope [OF sh(3), of ?es] n src shaped_object [OF sh(1)] by auto
    with row_from_written(1) [OF sh(1) k] get show ?thesis using k
      by (simp add: debezium_deserialize_def debezium_serialize_def Let_def sub_object_def as_object_def as_str_def)
  next
    assume k: "row_kind r = Delete"
    let ?es = "[(''before'', JObject ?im), (''op'', JString ''d''), (''source'', obj [(''ts_ms'', JInt now)]), (''ts_ms'', JInt now)]"
    obtain m where "parse_object jc (to_vec jc (obj ?es)) = Inr m" "map_of m = map_of ?es"
      using parse_envelope [OF sh(3), of ?es] n src shaped_object [OF sh(1)] by auto
    with row_from_written(1) [OF sh(1) k] get show ?thesis using k
      by (simp add: debezium_deserialize_def debezium_serialize_def Let_def sub_object_def as_object_def as_str_def)
  qed
qed

interpretation canal_format:
  row_format "canal_serialize tx jc now" "canal_deserialize jc"
    "\<lambda>s r. i64_range now \<and> simple_lossless jc {Insert, Delete} s r" for tx jc now
proof unfold_locales
  fix s r assume l: "i64_range now \<and> simple_lossless jc {Insert, Delete} s r"
  let ?im = "object_of (simple_to_json tx) s r"
  let ?kind = "case row_kind r of Delete \<Rightarrow> ''DELETE'' | UpdateBefore \<Rightarrow> ''UPDATE'' | UpdateAfter \<Rightarrow> ''UPDATE'' | Insert \<Rightarrow> ''INSERT''"
  let ?es = "[(''_type'', JString ?kind), (''_ts'', JInt now), (''data'', JArray [JObject ?im])]"
  from l have sh: "shaped simple_field s r" "row_kind r = Insert \<or> row_kind r = Delete" "json_codec_ok jc"
    by (auto simp: simple_lossless_def)
  obtain m where m: "parse_object jc (to_vec jc (obj ?es)) = Inr m" "map_of m = map_of ?es"
    using parse_envelope [OF sh(3), of ?es] l shaped_object [OF sh(1)] sh(2) by (auto simp: i64_range_def)
  from sh(2) m row_from_written(1) [OF sh(1)] show "canal_deserialize jc (canal_serialize tx jc now s r) s = Inr [r]"
    by (elim disjE)
      (simp_all add: canal_deserialize_def canal_serialize_def Let_def first_object_def as_array_def as_object_def as_str_def)
qed

interpretation maxwell_format:
  row_format "maxwell_serialize tx jc" "maxwell_deserialize jc" "simple_lossless jc {Insert, Delete}" for tx jc
proof unfold_locales
  fix s r assume l: "simple_lossless jc {Insert, Delete} s r"
  let ?im = "object_of (simple_to_json tx) s r"
  let ?kind = "case row_kind r of Delete \<Rightarrow> ''delete'' | UpdateBefore \<Rightarrow> ''update'' | UpdateAfter \<Rightarrow> ''update'' | Insert \<Rightarrow> ''insert''"
  let ?es = "[(''database'', JString ''default''), (''table'', JString (ts_table s)), (''type'', JString ?kind),
     (''xoffset'', JInt 0), (''commit'', JBool True), (''data'', JObject ?im)]"
  from l have sh: "shaped simple_field s r" "row_kind r = Insert \<or> row_kind r = Delete" "json_codec_ok jc" "rust_str (ts_table s)"
    by (auto simp: simple_lossless_def)
  obtain m where m: "parse_object jc (to_vec jc (obj ?es)) = Inr m" "map_of m = map_of ?es"
    using parse_envelope [OF sh(3), of ?es] sh(4) shaped_object [OF sh(1)] sh(2) by auto
  from sh(2) m row_from_written(2) [OF sh(1)] show "maxwell_deserialize jc (maxwell_serialize tx jc s r) s = Inr [r]"
    by (elim disjE)
      (simp_all add: maxwell_deserialize_def maxwell_serialize_def Let_def sub_object_def as_object_def as_str_def)
qed

lemma position_distinct:
  assumes "distinct (map f xs)" and "i < length xs"
  shows "position (\<lambda>x. f x = f (xs ! i)) xs = Some i"
  using assms
proof (induction xs arbitrary: i)
  case (Cons x xs)
  show ?case
  proof (cases i)
    case (Suc j)
    with Cons.prems have "f x \<noteq> f (xs ! j)" by (auto simp: image_iff)
    with Suc Cons show ?thesis by simp
  qed simp
qed simp

lemma position_map: "position P (map f xs) = position (\<lambda>x. P (f x)) xs"
  by (induction xs) simp_all

interpretation ogg_format: row_format "ogg_serialize tx jc" "ogg_deserialize jc" "ogg_lossless jc" for tx jc
proof unfold_locales
  fix s r assume l: "ogg_lossless jc s r"
  then have sh: "shaped simple_field s r" "row_kind r = Insert" "json_codec_ok jc"
    and d: "distinct (map (map to_lower) (field_names s))"
    by (simp_all add: ogg_lossless_def simple_lossless_def)
  let ?cols = "map (\<lambda>c. JString (cd_name c)) (ts_columns s)"
  let ?vals = "map (\<lambda>i. if i < field_count r then simple_to_json tx (row_fields r ! i) else JNull) [0..<length (ts_columns s)]"
  let ?es = "[(''OP_TYPE'', JString ''INSERT''), (''COLUMN_NAME'', JArray ?cols), (''AFTER_VALUE'', JArray ?vals)]"
  have len: "field_count r = length (ts_columns s)" using sh(1) by (simp add: shaped_def column_count_def field_count_def)
  have good: "simple_field (row_fields r ! i)" if "i < length (ts_columns s)" for i
    using that sh(1) len by (simp add: shaped_def list_all_length field_count_def)
  then have "json_wf (JArray ?vals)" using len simple_roundtrip(1) by (auto simp: list_all_iff)
  moreover have "json_wf (JArray ?cols)" using sh(1) by (auto simp: shaped_def list_all_iff field_names_def)
  ultimately obtain m where m: "parse_object jc (to_vec jc (obj ?es)) = Inr m" "map_of m = map_of ?es"
    using parse_envelope [OF sh(3), of ?es] by auto
  have "ogg_field jc ?cols ?vals (cd_name (ts_columns s ! i)) = row_fields r ! i" if i: "i < length (ts_columns s)" for i
  proof -
    have "position (\<lambda>c. map to_lower (cd_name c) = map to_lower (cd_name (ts_columns s ! i))) (ts_columns s) = Some i"
      using d i by (intro position_distinct) (simp_all add: field_names_def comp_def)
    then have "position (same_name (cd_name (ts_columns s ! i))) ?cols = Some i"
      by (simp add: position_map same_name_def as_str_def)
    then show ?thesis using i len simple_roundtrip(3) [OF good [OF i]] by (simp add: ogg_field_def)
  qed
  then have "row_from Insert s (ogg_field jc ?cols ?vals) = r"
    using sh len by (intro row.equality) (auto simp: row_from_def shaped_def field_count_def intro: nth_equalityI)
  with m sh(2) show "ogg_deserialize jc (ogg_serialize tx jc s r) s = Inr [r]"
    by (simp add: ogg_deserialize_def ogg_serialize_def Let_def sub_array_def as_array_def as_str_def to_upper_def)
qed

end
