(* ===== verification/Binary_Formats.thy ===== *)
theory Binary_Formats
  imports Formats
begin

text \<open>
  The remaining message formats (\<open>text.rs\<close>, \<open>avro.rs\<close>, \<open>protobuf.rs\<close>) and their byte-level encodings:
  delimited text, little-endian numbers with length prefixes, and tagged fields with variable-length
  integers. A position in the input is the list of the bytes still to read. Arithmetic that overflows
  panics in a build with overflow checks; such a panic is an \<open>Inl\<close> result. \<open>from_utf8_lossy\<close> of bytes that
  are not UTF-8, and the debug form of fields, are parameters.
\<close>

unbundle bit_operations_syntax

record byte_texts =
  bt_lossy :: "octets \<Rightarrow> string"
  bt_debug :: "field \<Rightarrow> string"
  bt_float :: "string \<Rightarrow> 64 word option"

definition from_utf8_lossy :: "byte_texts \<Rightarrow> octets \<Rightarrow> string" where
  "from_utf8_lossy bx bs = (if rust_str (of_utf8 bs) then of_utf8 bs else bt_lossy bx bs)"

section \<open>text.rs\<close>

definition DELIMITER :: char where
  "DELIMITER = CHR 0x7C"

definition trim_end :: "char \<Rightarrow> string \<Rightarrow> string" where
  "trim_end c s = rev (dropWhile (\<lambda>x. x = c) (rev s))"

definition parse_text :: "byte_texts \<Rightarrow> string \<Rightarrow> column_type \<Rightarrow> string + field" where
  "parse_text bx s t =
     (case t of
        TInt32 \<Rightarrow> (case parse_int 32 s of None \<Rightarrow> Inl ''invalid digit'' | Some n \<Rightarrow> Inr (FInt32 (word_of_int n)))
      | TInt64 \<Rightarrow> (case parse_int 64 s of None \<Rightarrow> Inl ''invalid digit'' | Some n \<Rightarrow> Inr (FInt64 (word_of_int n)))
      | TFloat64 \<Rightarrow> (case bt_float bx s of None \<Rightarrow> Inl ''invalid float literal'' | Some v \<Rightarrow> Inr (FFloat64 v))
      | TBool \<Rightarrow>
          let l = map to_lower s in
          if l \<in> {''true'', ''1'', ''yes''} then Inr (FBool True)
          else if l \<in> {''false'', ''0'', ''no''} then Inr (FBool False)
          else Inr (FString s)
      | _ \<Rightarrow> Inr (FString s))"

fun text_fields :: "byte_texts \<Rightarrow> column_def list \<Rightarrow> string list \<Rightarrow> string + field list" where
  "text_fields bx [] parts = Inr []"
| "text_fields bx (c # cs) parts =
     (case (case parts of [] \<Rightarrow> Inr FNull | p # _ \<Rightarrow> if p = [] then Inr FNull else parse_text bx p (cd_type c)) of
        Inl e \<Rightarrow> Inl e
      | Inr f \<Rightarrow> (case text_fields bx cs (tl parts) of Inl e \<Rightarrow> Inl e | Inr fs \<Rightarrow> Inr (f # fs)))"

definition text_deserialize :: "byte_texts \<Rightarrow> octets \<Rightarrow> table_schema \<Rightarrow> decoded" where
  "text_deserialize bx bs s =
     (if \<not> rust_str (of_utf8 bs) then Inl ''invalid utf-8''
      else
        case text_fields bx (ts_columns s)
               (split_on DELIMITER (trim_end (CHR 0x0D) (trim_end (CHR 0x0A) (of_utf8 bs)))) of
          Inl e \<Rightarrow> Inl e
        | Inr fs \<Rightarrow> Inr [\<lparr>row_kind = Insert, row_fields = fs, row_origin = None\<rparr>])"

definition plain_text :: "texts \<Rightarrow> field \<Rightarrow> string" where
  "plain_text tx f = (case f of FNull \<Rightarrow> [] | FString s \<Rightarrow> s | _ \<Rightarrow> display_field tx f)"

definition text_serialize :: "texts \<Rightarrow> table_schema \<Rightarrow> row \<Rightarrow> octets" where
  "text_serialize tx s r =
     utf8 (join_with [DELIMITER]
       (map (\<lambda>i. if i < field_count r then plain_text tx (row_fields r ! i) else []) [0..<length (ts_columns s)]))"

section \<open>avro.rs\<close>

fun le_bytes :: "nat \<Rightarrow> nat \<Rightarrow> octets" where
  "le_bytes 0 n = []"
| "le_bytes (Suc k) n = word_of_nat (n mod 256) # le_bytes k (n div 256)"

fun le_nat :: "octets \<Rightarrow> nat" where
  "le_nat [] = 0"
| "le_nat (b # bs) = unat b + 256 * le_nat bs"

text \<open>One column: the field, and the bytes left.\<close>

definition avro_column :: "byte_texts \<Rightarrow> column_type \<Rightarrow> octets \<Rightarrow> field \<times> octets" where
  "avro_column bx t rest =
     (if rest = [] then (FNull, rest)
      else if t = TInt64 then
        (if length rest < 8 then (FNull, rest) else (FInt64 (word_of_nat (le_nat (take 8 rest))), drop 8 rest))
      else if length rest < 4 then (FNull, rest)
      else
        let n = le_nat (take 4 rest); rest1 = drop 4 rest in
        if length rest1 < n then (FNull, rest1)
        else (FString (from_utf8_lossy bx (take n rest1)), drop n rest1))"

fun avro_fields :: "byte_texts \<Rightarrow> column_def list \<Rightarrow> octets \<Rightarrow> field list" where
  "avro_fields bx [] rest = []"
| "avro_fields bx (c # cs) rest = (case avro_column bx (cd_type c) rest of (f, rest1) \<Rightarrow> f # avro_fields bx cs rest1)"

definition avro_deserialize :: "byte_texts \<Rightarrow> octets \<Rightarrow> table_schema \<Rightarrow> decoded" where
  "avro_deserialize bx bs s =
     (if length bs < 5 then Inl ''Avro too short''
      else Inr [\<lparr>row_kind = Insert, row_fields = avro_fields bx (ts_columns s) (drop 5 bs), row_origin = None\<rparr>])"

definition debug_text :: "byte_texts \<Rightarrow> field \<Rightarrow> string" where
  "debug_text bx f = (case f of FNull \<Rightarrow> [] | FString s \<Rightarrow> s | _ \<Rightarrow> bt_debug bx f)"

definition avro_field :: "byte_texts \<Rightarrow> column_type \<Rightarrow> field \<Rightarrow> octets" where
  "avro_field bx t f =
     (if t = TInt64 then (case f of FInt64 v \<Rightarrow> le_bytes 8 (unat v) | _ \<Rightarrow> [])
      else let bs = utf8 (debug_text bx f) in le_bytes 4 (length bs mod 2 ^ 32) @ bs)"

definition avro_serialize :: "byte_texts \<Rightarrow> table_schema \<Rightarrow> row \<Rightarrow> octets" where
  "avro_serialize bx s r =
     [0, 0, 0, 0, 1] @ concat (map (\<lambda>(c, f). avro_field bx (cd_type c) f) (zip (ts_columns s) (row_fields r)))"

section \<open>protobuf.rs\<close>

function write_varint :: "64 word \<Rightarrow> octets" where
  "write_varint w =
     (if 0x7F < w then (ucast (w AND 0x7F) OR 0x80) # write_varint (drop_bit 7 w) else [ucast w])"
  by auto
termination
proof (relation "measure unat")
  fix w :: "64 word" assume "0x7F < w"
  then have "0 < unat w" by (simp add: unat_gt_0) auto
  moreover have "unat (drop_bit 7 w) = unat w div 128" by (simp add: drop_bit_eq_div unat_div)
  ultimately show "(drop_bit 7 w, w) \<in> measure unat" by simp
qed simp

declare write_varint.simps [simp del]

fun read_varint_from :: "nat \<Rightarrow> 64 word \<Rightarrow> octets \<Rightarrow> string + 64 word \<times> octets" where
  "read_varint_from shift result [] = Inl ''Truncated varint''"
| "read_varint_from shift result (b # bs) =
     (if 64 \<le> shift then Inl ''attempt to shift left with overflow''
      else
        let result1 = result OR push_bit shift (ucast (b AND 0x7F)) in
        if b AND 0x80 = 0 then Inr (result1, bs) else read_varint_from (shift + 7) result1 bs)"

definition read_varint :: "octets \<Rightarrow> string + 64 word \<times> octets" where
  "read_varint bs = read_varint_from 0 0 bs"

definition varint_field :: "column_type \<Rightarrow> 64 word \<Rightarrow> field" where
  "varint_field t v = (if t = TBool then FBool (v \<noteq> 0) else FInt64 v)"

definition string_field :: "column_type \<Rightarrow> string \<Rightarrow> field" where
  "string_field t s =
     (case t of
        TInt64 \<Rightarrow> (case parse_int 64 s of Some n \<Rightarrow> FInt64 (word_of_int n) | None \<Rightarrow> FString s)
      | TBool \<Rightarrow> FBool (map to_lower s \<in> {''true'', ''1''})
      | _ \<Rightarrow> FString s)"

text \<open>
  The value after a tag: the field and the bytes left. An unknown wire type, or a length past the end,
  gives \<open>NULL\<close> and consumes nothing.
\<close>

definition proto_value ::
    "byte_texts \<Rightarrow> nat \<Rightarrow> column_type \<Rightarrow> 64 word \<Rightarrow> octets \<Rightarrow> string + field \<times> octets" where
  "proto_value bx size_all t wire rest =
     (if wire = 0 then
        (case read_varint rest of Inl e \<Rightarrow> Inl e | Inr (v, rest1) \<Rightarrow> Inr (varint_field t v, rest1))
      else if wire = 2 then
        (case read_varint rest of
           Inl e \<Rightarrow> Inl e
         | Inr (len, rest1) \<Rightarrow>
             if 2 ^ 64 \<le> size_all - length rest1 + unat len then Inl ''attempt to add with overflow''
             else if length rest1 < unat len then Inr (FNull, rest)
             else Inr (string_field t (from_utf8_lossy bx (take (unat len) rest1)), drop (unat len) rest1))
      else Inr (FNull, rest))"

datatype loop_result = Out_Of_Fuel | Done "string + field list"

text \<open>The reading loop with the number of iterations it may take; fields are set in place.\<close>

fun proto_loop :: "nat \<Rightarrow> byte_texts \<Rightarrow> nat \<Rightarrow> column_def list \<Rightarrow> octets \<Rightarrow> field list \<Rightarrow> loop_result" where
  "proto_loop 0 bx size_all cols rest fs = (if rest = [] then Done (Inr fs) else Out_Of_Fuel)"
| "proto_loop (Suc n) bx size_all cols rest fs =
     (if rest = [] then Done (Inr fs)
      else
        case read_varint rest of
          Inl e \<Rightarrow> Done (Inl e)
        | Inr (tag, rest1) \<Rightarrow>
            if rest1 = [] then Done (Inr fs)
            else
              let num = unat (drop_bit 3 tag) in
              if num = 0 then Done (Inl ''attempt to subtract with overflow'')
              else if length cols \<le> num - 1 then Done (Inr fs)
              else
                (case proto_value bx size_all (cd_type (cols ! (num - 1))) (tag AND 7) rest1 of
                   Inl e \<Rightarrow> Done (Inl e)
                 | Inr (f, rest2) \<Rightarrow> proto_loop n bx size_all cols rest2 (fs[num - 1 := f])))"

definition protobuf_deserialize :: "byte_texts \<Rightarrow> octets \<Rightarrow> table_schema \<Rightarrow> decoded" where
  "protobuf_deserialize bx bs s =
     (case proto_loop (length bs) bx (length bs) (ts_columns s) bs (replicate (column_count s) FNull) of
        Out_Of_Fuel \<Rightarrow> Inl []
      | Done (Inl e) \<Rightarrow> Inl e
      | Done (Inr fs) \<Rightarrow> Inr [\<lparr>row_kind = Insert, row_fields = fs, row_origin = None\<rparr>])"

definition proto_field :: "texts \<Rightarrow> nat \<Rightarrow> field \<Rightarrow> octets" where
  "proto_field tx i f =
     (let bs = utf8 (plain_text tx f) in
      write_varint (push_bit 3 (word_of_nat i + 1) OR 2) @ write_varint (word_of_nat (length bs)) @ bs)"

definition protobuf_serialize :: "texts \<Rightarrow> table_schema \<Rightarrow> row \<Rightarrow> octets" where
  "protobuf_serialize tx s r =
     concat (map (\<lambda>(i, c, f). proto_field tx i f) (enumerate 0 (zip (ts_columns s) (row_fields r))))"

section \<open>Variable-length integers\<close>

lemma read_varint_from_shorter: "read_varint_from sh acc bs = Inr (v, rest) \<Longrightarrow> length rest < length bs"
  by (induction sh acc bs rule: read_varint_from.induct) (fastforce simp: Let_def split: if_splits)+

lemma read_varint_shorter: "read_varint bs = Inr (v, rest) \<Longrightarrow> length rest < length bs"
  unfolding read_varint_def by (rule read_varint_from_shorter)

lemma proto_value_shorter: "proto_value bx n t wire rest = Inr (f, rest') \<Longrightarrow> length rest' \<le> length rest"
  by (auto simp: proto_value_def split: if_splits sum.splits dest!: read_varint_shorter)

lemma varint_byte:
  fixes w :: "64 word"
  shows "(ucast (w AND 0x7F) OR 0x80 :: 8 word) AND 0x80 \<noteq> 0"
    "ucast ((ucast (w AND 0x7F) OR 0x80 :: 8 word) AND 0x7F) = w AND 0x7F"
    "w \<le> 0x7F \<Longrightarrow> (ucast w :: 8 word) AND 0x80 = 0"
    "w \<le> 0x7F \<Longrightarrow> ucast ((ucast w :: 8 word) AND 0x7F) = w"
proof -
  have h: "bit (0x80 :: 8 word) n \<longleftrightarrow> n = 7" for n
    using bit_exp_iff [where ?'a = "8 word", of 7 n] by auto
  have m: "bit (0x7F :: 64 word) n \<longleftrightarrow> n < 7" "bit (0x7F :: 8 word) n \<longleftrightarrow> n < 7" for n
    using bit_mask_iff [where ?'a = "64 word", of 7 n] bit_mask_iff [where ?'a = "8 word", of 7 n]
    by (auto simp: mask_eq_exp_minus_1)
  have "bit ((ucast (w AND 0x7F) OR 0x80 :: 8 word) AND 0x80) 7" by (simp only: bit_and_iff bit_or_iff h) simp
  then show "(ucast (w AND 0x7F) OR 0x80 :: 8 word) AND 0x80 \<noteq> 0" by (metis bit_0_eq bot_apply bot_bool_def)
  show "ucast ((ucast (w AND 0x7F) OR 0x80 :: 8 word) AND 0x7F) = w AND 0x7F"
    by (rule bit_word_eqI) (simp only: bit_and_iff bit_or_iff h m bit_ucast_iff, auto)
  assume "w \<le> 0x7F"
  then have "unat w < 2 ^ 7" by (simp add: word_le_nat_alt)
  then have "take_bit 7 w = w" by (simp add: word_unat_eq_iff unsigned_take_bit_eq take_bit_nat_eq_self)
  then have w: "bit w n \<Longrightarrow> n < 7" for n by (metis bit_take_bit_iff)
  show "(ucast w :: 8 word) AND 0x80 = 0"
    by (rule bit_word_eqI) (simp only: bit_and_iff h bit_ucast_iff bit_0_eq bot_apply bot_bool_def, auto dest: w)
  show "ucast ((ucast w :: 8 word) AND 0x7F) = w"
    by (rule bit_word_eqI) (simp only: bit_and_iff m bit_ucast_iff, auto dest: w)
qed

lemma varint_split: "push_bit sh (w AND 0x7F) OR push_bit (sh + 7) (drop_bit 7 w) = push_bit sh (w :: 64 word)"
proof (rule bit_word_eqI)
  fix n assume n: "n < LENGTH(64)"
  have m: "bit (0x7F :: 64 word) k \<longleftrightarrow> k < 7" for k
    using bit_mask_iff [where ?'a = "64 word", of 7 k] by (auto simp: mask_eq_exp_minus_1)
  show "bit (push_bit sh (w AND 0x7F) OR push_bit (sh + 7) (drop_bit 7 w)) n = bit (push_bit sh w) n"
    using n by (simp only: bit_or_iff bit_and_iff bit_push_bit_iff bit_drop_bit_eq comp_def m)
      (cases "n - sh < 7"; auto simp: add.commute)
qed

lemma read_written_varint:
  "sh < 64 \<Longrightarrow> unat w < 2 ^ (64 - sh) \<Longrightarrow>
     read_varint_from sh acc (write_varint w @ rest) = Inr (acc OR push_bit sh w, rest)"
proof (induction w arbitrary: sh acc rule: write_varint.induct)
  case (1 w)
  show ?case
  proof (cases "0x7F < w")
    case True
    then have "127 < unat w" by (simp add: word_less_nat_alt)
    with 1(3) have "(2::nat) ^ 7 < 2 ^ (64 - sh)" by simp
    then have "7 < 64 - sh" by (rule power_less_imp_less_exp [rotated]) simp
    then have sh: "sh + 7 < 64" by simp
    have "unat (drop_bit 7 w) = unat w div 2 ^ 7" by (simp add: drop_bit_eq_div unat_div)
    also have "\<dots> < 2 ^ (64 - (sh + 7))"
    proof -
      have "64 - sh = 7 + (64 - (sh + 7))" using sh by simp
      then have "(2::nat) ^ (64 - sh) = 2 ^ 7 * 2 ^ (64 - (sh + 7))" by (metis power_add)
      with 1(3) show ?thesis by (simp add: less_mult_imp_div_less mult.commute)
    qed
    finally have "read_varint_from (sh + 7) (acc OR push_bit sh (w AND 0x7F)) (write_varint (drop_bit 7 w) @ rest) =
        Inr ((acc OR push_bit sh (w AND 0x7F)) OR push_bit (sh + 7) (drop_bit 7 w), rest)"
      using 1(1) True sh by blast
    then show ?thesis using True 1(2) varint_byte(1,2) [of w] varint_split [of sh w]
      by (simp add: write_varint.simps [of w] Let_def or.assoc)
  next
    case False
    then have "w \<le> 0x7F" by simp
    with 1(2) False varint_byte(3,4) [of w] show ?thesis
      by (simp add: write_varint.simps [of w] Let_def)
  qed
qed

text \<open>
  Variable-length integers round trip. Every \<open>u64\<close> is read back from the bytes \<open>write_varint\<close> made of
  it, whatever bytes follow.
\<close>

theorem varint_roundtrip: "read_varint (write_varint w @ rest) = Inr (w, rest)"
  unfolding read_varint_def using read_written_varint [of 0 w 0 rest] unsigned_less [of w] by simp

lemma proto_loop_ends: "length rest \<le> n \<Longrightarrow> \<exists>res. proto_loop n bx size_all cols rest fs = Done res"
proof (induction n arbitrary: rest fs)
  case (Suc n)
  show ?case
  proof (cases "read_varint rest")
    case (Inr p)
    obtain tag rest1 where p: "p = (tag, rest1)" by (cases p)
    have l: "length rest1 < length rest" using Inr p read_varint_shorter by simp
    let ?num = "unat (drop_bit 3 tag)"
    show ?thesis
    proof (cases "proto_value bx size_all (cd_type (cols ! (?num - 1))) (tag AND 7) rest1")
      case (Inr q)
      obtain f rest2 where q: "q = (f, rest2)" by (cases q)
      then have "length rest2 \<le> n" using Inr proto_value_shorter [of bx size_all _ _ rest1 f rest2] l Suc.prems by force
      with Suc.IH [OF this] Inr q p \<open>read_varint rest = Inr p\<close> show ?thesis by (auto simp: Let_def)
    qed (use Inr p in \<open>simp add: Let_def\<close>)
  qed simp
qed simp


section \<open>Round trips of the binary formats\<close>

lemma le_nat_le_bytes: "le_nat (le_bytes k n) = n mod 256 ^ k"
proof (induction k arbitrary: n)
  case (Suc k)
  have "unat (word_of_nat (n mod 256) :: 8 word) = n mod 256" by (simp add: unat_of_nat)
  with Suc show ?case by (simp add: mod_mult2_eq add.commute)
qed simp

lemma length_le_bytes [simp]: "length (le_bytes k n) = k"
  by (induction k arbitrary: n) simp_all

lemma lossy_utf8 [simp]: "rust_str s \<Longrightarrow> from_utf8_lossy bx (utf8 s) = s"
  by (simp add: from_utf8_lossy_def)

lemma length_utf8 [simp]: "length (utf8 s) = length s"
  by (simp add: utf8_def)

definition avro_good :: "column_def \<Rightarrow> field \<Rightarrow> bool" where
  "avro_good c f \<longleftrightarrow>
     (if cd_type c = TInt64 then (case f of FInt64 _ \<Rightarrow> True | _ \<Rightarrow> False)
      else (case f of FString s \<Rightarrow> rust_str s \<and> length s < 2 ^ 32 | _ \<Rightarrow> False))"

definition insert_row :: "(column_def \<Rightarrow> field \<Rightarrow> bool) \<Rightarrow> table_schema \<Rightarrow> row \<Rightarrow> bool" where
  "insert_row good s r \<longleftrightarrow> row_kind r = Insert \<and> row_origin r = None \<and> list_all2 good (ts_columns s) (row_fields r)"

lemma avro_column_good: "avro_good c f \<Longrightarrow> avro_column bx (cd_type c) (avro_field bx (cd_type c) f @ rest) = (f, rest)"
proof (cases "cd_type c = TInt64")
  case True
  moreover assume "avro_good c f"
  ultimately obtain v where "f = FInt64 v" by (auto simp: avro_good_def split: field.splits)
  moreover have "unat v < 2 ^ 64" using unsigned_less [where ?'a = nat, of v] by simp
  ultimately show ?thesis using True le_nat_le_bytes [of 8 "unat v"]
    by (simp add: avro_column_def avro_field_def del: le_bytes.simps)
      (metis length_0_conv length_le_bytes zero_neq_numeral)
next
  case False
  moreover assume "avro_good c f"
  ultimately obtain s where s: "f = FString s" "rust_str s" "length s < 2 ^ 32" by (auto simp: avro_good_def split: field.splits)
  moreover have "le_bytes 4 n \<noteq> []" for n by (metis length_0_conv length_le_bytes zero_neq_numeral)
  ultimately show ?thesis using False le_nat_le_bytes [of 4 "length s"]
    by (simp add: avro_column_def avro_field_def debug_text_def Let_def del: le_bytes.simps)
qed

interpretation avro_format: row_format "avro_serialize bx" "avro_deserialize bx" "insert_row avro_good" for bx
proof unfold_locales
  fix s r assume l: "insert_row avro_good s r"
  have "avro_fields bx cs (concat (map (\<lambda>(c, f). avro_field bx (cd_type c) f) (zip cs fs))) = fs"
    if "list_all2 avro_good cs fs" for cs fs
    using that by (induction rule: list_all2_induct) (simp_all add: avro_column_good)
  with l show "avro_deserialize bx (avro_serialize bx s r) s = Inr [r]"
    by (simp add: avro_deserialize_def avro_serialize_def insert_row_def)
qed

text \<open>A \<open>NULL\<close> in a 64-bit column writes nothing, so the columns after it are read one place early.\<close>

lemma avro_null_shifts:
  assumes "ts_columns s = [c, d]" "cd_type c = TInt64" "cd_type d = TInt64" "row_fields r = [FNull, FInt64 v]"
  shows "avro_deserialize bx (avro_serialize bx s r) s = Inr [\<lparr>row_kind = Insert, row_fields = [FInt64 v, FNull], row_origin = None\<rparr>]"
proof -
  have "avro_column bx TInt64 (avro_field bx TInt64 (FInt64 v) @ []) = (FInt64 v, [])"
    using avro_column_good [of c "FInt64 v" bx "[]"] assms(2) by (simp add: avro_good_def)
  moreover have "avro_field bx TInt64 FNull = []" by (simp add: avro_field_def)
  ultimately show ?thesis using assms by (simp add: avro_deserialize_def avro_serialize_def avro_column_def [of _ _ "[]"])
qed

subsection \<open>Strings of ASCII characters\<close>

lemma utf8_run_append: "utf8_run k a \<Longrightarrow> utf8_run 0 b \<Longrightarrow> utf8_run k (a @ b)"
proof (induction k a rule: utf8_run.induct)
  case (4 a bs)
  then show ?case by (cases bs) (auto split: option.splits)
qed auto

lemma rust_str_append [simp]: "rust_str a \<Longrightarrow> rust_str b \<Longrightarrow> rust_str (a @ b)"
  by (simp add: rust_str_def utf8_run_append)

lemma rust_str_Nil [simp]: "rust_str []"
  by (simp add: rust_str_def)

lemma rust_str_Cons: "(of_char c :: nat) < 128 \<Longrightarrow> rust_str s \<Longrightarrow> rust_str (c # s)"
  by (simp add: rust_str_def extra_bytes_def)

lemma rust_str_ascii: "\<forall>c\<in>set s. (of_char c :: nat) < 128 \<Longrightarrow> rust_str s"
  by (induction s) (simp_all add: rust_str_Cons)

lemma digit_ascii: "is_digit c \<Longrightarrow> (of_char c :: nat) < 128"
  by (simp add: is_digit_def)

lemma set_show_int: "c \<in> set (show_int n) \<Longrightarrow> is_digit c \<or> c = CHR ''-''"
  by (auto simp: show_int_def dest: show_nat_digits split: if_splits)

lemma rust_str_show_int [simp]: "rust_str (show_int n)"
  by (rule rust_str_ascii) (auto dest!: set_show_int digit_ascii)

subsection \<open>Protobuf\<close>

definition proto_good :: "column_def \<Rightarrow> field \<Rightarrow> bool" where
  "proto_good c f \<longleftrightarrow>
     (case f of
        FInt64 _ \<Rightarrow> cd_type c = TInt64
      | FBool _ \<Rightarrow> cd_type c = TBool
      | FString s \<Rightarrow> cd_type c \<noteq> TInt64 \<and> cd_type c \<noteq> TBool \<and> rust_str s
      | _ \<Rightarrow> False)"

lemma proto_good_text:
  assumes "proto_good c f"
  shows "rust_str (plain_text tx f)" "string_field (cd_type c) (plain_text tx f) = f"
proof -
  have w: "parse_int 64 (show_int (sint v)) = Some (sint v)" for v :: "64 word"
    using sint64_bounds [of v] by (intro parse_show_int) simp_all
  have b: "rust_str (if v then ''true'' else ''false'')" for v by (auto intro!: rust_str_ascii)
  have l: "(map to_lower (if v then ''true'' else ''false'') \<in> {''true'', ''1''}) = v" for v
    by (cases v) (simp_all add: to_lower_def)
  from assms w show "rust_str (plain_text tx f)" "string_field (cd_type c) (plain_text tx f) = f"
    using b l by (auto simp: proto_good_def plain_text_def string_field_def split: field.splits column_type.split)
qed

lemma tag_parts:
  assumes "i + 1 < 2 ^ 61"
  shows "unat (drop_bit 3 (push_bit 3 (word_of_nat i + 1) OR 2 :: 64 word)) = i + 1"
    "(push_bit 3 (word_of_nat i + 1) OR 2 :: 64 word) AND 7 = 2"
proof -
  let ?n = "word_of_nat i + 1 :: 64 word"
  have m: "bit (7 :: 64 word) k \<longleftrightarrow> k < 3" for k
    using bit_mask_iff [where ?'a = "64 word", of 3 k] by (auto simp: mask_eq_exp_minus_1)
  have b: "bit (2 :: 64 word) k \<longleftrightarrow> k = 1" for k
    using bit_exp_iff [where ?'a = "64 word", of 1 k] by auto
  have u: "unat ?n = i + 1" using assms by (simp add: unat_word_ariths unat_of_nat)
  have "take_bit 61 ?n = ?n" using assms u by (simp add: word_unat_eq_iff unsigned_take_bit_eq take_bit_nat_eq_self)
  then have hi: "bit ?n k \<Longrightarrow> k < 61" for k by (metis bit_take_bit_iff)
  have "drop_bit 3 (push_bit 3 ?n OR 2) = ?n"
    by (rule bit_word_eqI) (simp only: bit_drop_bit_eq comp_def bit_or_iff bit_push_bit_iff b, auto dest: hi)
  with u show "unat (drop_bit 3 (push_bit 3 ?n OR 2)) = i + 1" by simp
  show "(push_bit 3 ?n OR 2) AND 7 = 2"
    by (rule bit_word_eqI) (simp only: bit_and_iff bit_or_iff bit_push_bit_iff m b, auto)
qed

lemma write_varint_nonempty [simp]: "write_varint w \<noteq> []"
  by (simp add: write_varint.simps [of w])

lemma proto_step:
  assumes "proto_good (cols ! i) f" and "i < length cols" and "length cols < 2 ^ 60" and "size_all < 2 ^ 64"
    and "length (proto_field tx i f @ rest) \<le> size_all"
  shows "proto_loop (Suc n) bx size_all cols (proto_field tx i f @ rest) fs = proto_loop n bx size_all cols rest (fs[i := f])"
proof -
  let ?t = "plain_text tx f" and ?tag = "push_bit 3 (word_of_nat i + 1) OR 2 :: 64 word"
  let ?rest1 = "write_varint (word_of_nat (length ?t)) @ utf8 ?t @ rest"
  have tag: "unat (drop_bit 3 ?tag) = i + 1" "?tag AND 7 = 2" using tag_parts [of i] assms(2,3) by simp_all
  have rest: "proto_field tx i f @ rest = write_varint ?tag @ ?rest1" by (simp add: proto_field_def Let_def)
  have len: "unat (word_of_nat (length ?t) :: 64 word) = length ?t" "length ?t + length rest \<le> size_all"
    using assms(4,5) unfolding rest by (simp_all add: unat_of_nat)
  have "proto_value bx size_all (cd_type (cols ! i)) 2 ?rest1 = Inr (f, rest)"
    using len assms(4) proto_good_text [OF assms(1)]
    by (simp add: proto_value_def varint_roundtrip)
  then show ?thesis unfolding rest
    using tag assms(2) by (simp add: varint_roundtrip Let_def)
qed

definition proto_lossless :: "texts \<Rightarrow> table_schema \<Rightarrow> row \<Rightarrow> bool" where
  "proto_lossless tx s r \<longleftrightarrow>
     insert_row proto_good s r \<and> column_count s < 2 ^ 60 \<and> length (protobuf_serialize tx s r) < 2 ^ 64"

lemma proto_loop_writes:
  assumes "list_all2 proto_good cols fs" and "length cols < 2 ^ 60" and "size_all < 2 ^ 64"
  shows "length (concat (map (\<lambda>(i, c, f). proto_field tx i f) (drop i (enumerate 0 (zip cols fs))))) \<le> size_all \<Longrightarrow>
    length st = length cols \<Longrightarrow> i \<le> length cols \<Longrightarrow> length cols - i \<le> n \<Longrightarrow>
    proto_loop n bx size_all cols (concat (map (\<lambda>(i, c, f). proto_field tx i f) (drop i (enumerate 0 (zip cols fs))))) st =
      Done (Inr (take i st @ drop i fs))"
proof (induction "length cols - i" arbitrary: i st n)
  case 0
  then have "i = length cols" by simp
  moreover have "length fs = length cols" using assms(1) by (simp add: list_all2_lengthD)
  ultimately show ?case using 0 by (cases n) simp_all
next
  case (Suc k)
  let ?es = "enumerate 0 (zip cols fs)"
  have l: "length fs = length cols" using assms(1) by (simp add: list_all2_lengthD)
  have i: "i < length cols" using Suc.hyps(2) by simp
  then have d: "drop i ?es = (i, cols ! i, fs ! i) # drop (Suc i) ?es"
    using l by (subst Cons_nth_drop_Suc [symmetric]) (simp_all add: nth_enumerate_eq)
  obtain n' where n: "n = Suc n'" using Suc.prems(4) i by (cases n) auto
  have g: "proto_good (cols ! i) (fs ! i)" using assms(1) i by (simp add: list_all2_conv_all_nth)
  have "proto_loop n bx size_all cols (concat (map (\<lambda>(i, c, f). proto_field tx i f) (drop i ?es))) st =
      proto_loop n' bx size_all cols (concat (map (\<lambda>(i, c, f). proto_field tx i f) (drop (Suc i) ?es))) (st[i := fs ! i])"
    using proto_step [OF g i assms(2,3), of tx _ n' bx st] Suc.prems(1) unfolding d n
    by (simp del: proto_loop.simps)
  also have "\<dots> = Done (Inr (take (Suc i) (st[i := fs ! i]) @ drop (Suc i) fs))"
    using Suc.hyps i Suc.prems n d by (intro Suc.hyps(1)) simp_all
  also have "take (Suc i) (st[i := fs ! i]) @ drop (Suc i) fs = take i st @ drop i fs"
    using i Suc.prems(2) l by (simp add: take_Suc_conv_app_nth Cons_nth_drop_Suc)
  finally show ?case .
qed

lemma proto_field_length: "1 \<le> length (proto_field tx i f)"
  by (simp add: proto_field_def Let_def Suc_leI)

interpretation protobuf_format: row_format "protobuf_serialize tx" "protobuf_deserialize bx" "proto_lossless tx" for tx bx
proof unfold_locales
  fix s r assume l: "proto_lossless tx s r"
  let ?bs = "protobuf_serialize tx s r"
  have g: "list_all2 proto_good (ts_columns s) (row_fields r)" using l by (simp add: proto_lossless_def insert_row_def)
  have "length xs \<le> length (concat (map (\<lambda>(i, c, f). proto_field tx i f) xs))" for xs :: "(nat \<times> column_def \<times> field) list"
  proof (induction xs)
    case (Cons x xs)
    obtain i c f where x: "x = (i, c, f)" by (cases x)
    show ?case using Cons proto_field_length [of tx i f] unfolding x by simp
  qed simp
  from this [of "enumerate 0 (zip (ts_columns s) (row_fields r))"]
  have n: "length (ts_columns s) \<le> length ?bs"
    using g by (simp add: protobuf_serialize_def list_all2_lengthD [OF g])
  have "proto_loop (length ?bs) bx (length ?bs) (ts_columns s) ?bs (replicate (column_count s) FNull) = Done (Inr (row_fields r))"
    using proto_loop_writes [OF g, of "length ?bs" tx 0 "replicate (column_count s) FNull" "length ?bs" bx] l n
    by (simp add: proto_lossless_def protobuf_serialize_def column_count_def del: proto_loop.simps)
  with l show "protobuf_deserialize bx ?bs s = Inr [r]"
    by (simp add: protobuf_deserialize_def proto_lossless_def insert_row_def)
qed

subsection \<open>Delimited text\<close>

definition text_char :: "char \<Rightarrow> bool" where
  "text_char c \<longleftrightarrow> c \<noteq> DELIMITER \<and> c \<noteq> CHR 0x0A \<and> c \<noteq> CHR 0x0D"

definition text_good :: "column_def \<Rightarrow> field \<Rightarrow> bool" where
  "text_good c f \<longleftrightarrow>
     (case f of
        FNull \<Rightarrow> True
      | FInt32 _ \<Rightarrow> cd_type c = TInt32
      | FInt64 _ \<Rightarrow> cd_type c = TInt64
      | FBool _ \<Rightarrow> cd_type c = TBool
      | FString s \<Rightarrow> cd_type c \<notin> {TInt32, TInt64, TFloat64, TBool} \<and> s \<noteq> [] \<and> rust_str s \<and> list_all text_char s
      | _ \<Rightarrow> False)"

lemma digit_safe: "is_digit c \<Longrightarrow> text_char c"
  by (auto simp: is_digit_def text_char_def DELIMITER_def)

lemma show_int_safe [simp]: "list_all text_char (show_int n)"
  by (auto simp: list_all_iff text_char_def DELIMITER_def dest!: set_show_int digit_safe)

lemma show_int_nonempty [simp]: "show_int n \<noteq> []"
  by (simp add: show_int_def)

lemma bool_text:
  "rust_str (if v then ''true'' else ''false'')" "list_all text_char (if v then ''true'' else ''false'')"
  by (auto intro!: rust_str_ascii simp: text_char_def DELIMITER_def)

lemma text_good_text:
  assumes "text_good c f"
  shows "rust_str (plain_text tx f)" "list_all text_char (plain_text tx f)"
    "(if plain_text tx f = [] then Inr FNull else parse_text bx (plain_text tx f) (cd_type c)) = Inr f"
proof -
  have w: "parse_int 64 (show_int (sint v)) = Some (sint v)" for v :: "64 word"
    using sint64_bounds [of v] by (intro parse_show_int) simp_all
  have w32: "parse_int 32 (show_int (sint v)) = Some (sint v)" for v :: "32 word"
    using sint_ge [of v] sint_lt [of v] by (intro parse_show_int) simp_all
  show "rust_str (plain_text tx f)" "list_all text_char (plain_text tx f)"
    using assms bool_text by (auto simp: text_good_def plain_text_def split: field.splits)
  show "(if plain_text tx f = [] then Inr FNull else parse_text bx (plain_text tx f) (cd_type c)) = Inr f"
  proof (cases f)
    case (FBool v)
    then show ?thesis using assms by (cases v) (simp_all add: text_good_def plain_text_def parse_text_def to_lower_def Let_def)
  next
    case (FString v)
    then show ?thesis using assms
      by (cases "cd_type c") (simp_all add: text_good_def plain_text_def parse_text_def)
  qed (use assms w w32 in \<open>simp_all add: text_good_def plain_text_def parse_text_def\<close>)
qed

lemma rust_str_join: "rust_str sep \<Longrightarrow> list_all rust_str parts \<Longrightarrow> rust_str (join_with sep parts)"
  by (induction sep parts rule: join_with.induct) auto

lemma trim_end_id: "c \<notin> set s \<Longrightarrow> trim_end c s = s"
  by (cases s rule: rev_cases) (auto simp: trim_end_def)

lemma text_fields_good:
  "list_all2 text_good cs fs \<Longrightarrow> text_fields bx cs (map (plain_text tx) fs) = Inr fs"
  by (induction rule: list_all2_induct) (simp_all add: text_good_text(3))

interpretation text_format: row_format "text_serialize tx" "text_deserialize bx" "insert_row text_good" for tx bx
proof unfold_locales
  fix s r assume l: "insert_row text_good s r"
  then have g: "list_all2 text_good (ts_columns s) (row_fields r)" by (simp add: insert_row_def)
  then have len: "length (row_fields r) = length (ts_columns s)" by (simp add: list_all2_lengthD)
  let ?parts = "map (plain_text tx) (row_fields r)" and ?text = "join_with [DELIMITER] (map (plain_text tx) (row_fields r))"
  have parts: "text_serialize tx s r = utf8 ?text"
  proof -
    have "map (\<lambda>i. if i < field_count r then plain_text tx (row_fields r ! i) else []) [0..<length (ts_columns s)] = ?parts"
      using len by (intro nth_equalityI) (simp_all add: field_count_def)
    then show ?thesis by (simp add: text_serialize_def)
  qed
  have p: "rust_str t \<and> list_all text_char t" if t: "t \<in> set ?parts" for t
  proof -
    obtain i where "i < length (row_fields r)" "t = plain_text tx (row_fields r ! i)"
      using t by (auto simp: in_set_conv_nth)
    with g len text_good_text(1,2) [of "ts_columns s ! i" "row_fields r ! i" tx] show ?thesis
      by (simp add: list_all2_conv_all_nth)
  qed
  have "rust_str ?text" using p by (intro rust_str_join) (auto simp: list_all_iff DELIMITER_def intro: rust_str_ascii)
  moreover have "c \<notin> set ?text" if c: "c \<noteq> DELIMITER" "\<not> text_char c" for c
  proof
    assume "c \<in> set ?text"
    then have "c \<in> set [DELIMITER] \<union> \<Union> (set ` set ?parts)" by (rule subsetD [OF set_join])
    with c(1) have "\<exists>t\<in>set ?parts. c \<in> set t" by auto
    with p c(2) show False by (metis list_all_iff)
  qed
  then have "CHR 0x0A \<notin> set ?text" "CHR 0x0D \<notin> set ?text" by (simp_all add: text_char_def DELIMITER_def)
  moreover have "text_fields bx (ts_columns s) (split_on DELIMITER ?text) = Inr (row_fields r)"
  proof (cases "row_fields r = []")
    case True
    then show ?thesis using len by simp
  next
    case False
    have "list_all (list_all (\<lambda>c. c \<noteq> DELIMITER)) ?parts" using p by (auto simp: list_all_iff text_char_def)
    then show ?thesis using False split_join [of ?parts DELIMITER] text_fields_good [OF g] by simp
  qed
  ultimately show "text_deserialize bx (text_serialize tx s r) s = Inr [r]"
    using l unfolding parts by (simp add: text_deserialize_def trim_end_id insert_row_def)
qed

end
