(* ===== verification/Canal_Client.thy ===== *)
theory Canal_Client
  imports Binary_Formats
begin

text \<open>
  The canal-client format (\<open>canal_client_json.rs\<close>): a stateful encoder that maps rows of several tables into
  messages and merges the before and after images of an update into one. The clock, the random request
  ids, time zones and the printing of times are parameters; a message payload is the JSON value before
  it is printed.
\<close>

section \<open>Values\<close>

datatype server_tz = Tz_Local | Tz_Utc | Tz_Fixed int | Tz_Named string

record canal_env =
  ce_texts :: texts
  ce_codec :: json_codec
  ce_zone_known :: "string \<Rightarrow> bool"
  ce_millis :: "server_tz \<Rightarrow> int \<Rightarrow> int option"
  ce_parse_datetime :: "string \<Rightarrow> int option"
  ce_midnight :: "int \<Rightarrow> int"
  ce_datetime_text :: "int \<Rightarrow> string"
  ce_time_text :: "int \<Rightarrow> string"
  ce_instant_millis :: "int \<Rightarrow> int"
  ce_widen :: "32 word \<Rightarrow> 64 word"

text \<open>
  Time-zone settings are ASCII here: the source slices the text at byte positions 3 and 5, which panics inside
  a multi-byte character.
\<close>

definition parse_fixed_offset :: "string \<Rightarrow> int option" where
  "parse_fixed_offset v =
     (if length v < 3 \<or> (v ! 0 \<noteq> CHR ''+'' \<and> v ! 0 \<noteq> CHR ''-'') then None
      else
        let part = (\<lambda>i. parse_int 32 (take 2 (drop i v)));
            hm = (if length v = 3 then map_option (\<lambda>h. (h, 0)) (part 1)
                  else if length v = 5 then Option.bind (part 1) (\<lambda>h. map_option (Pair h) (part 3))
                  else if length v = 6 then Option.bind (part 1) (\<lambda>h. map_option (Pair h) (part 4))
                  else None)
        in case hm of
             None \<Rightarrow> None
           | Some (h, m) \<Rightarrow>
               let secs = (if v ! 0 = CHR ''-'' then - (h * 3600 + m * 60) else h * 3600 + m * 60) in
               if - 86400 < secs \<and> secs < 86400 then Some secs else None)"

definition same_text :: "string \<Rightarrow> string \<Rightarrow> bool" where
  "same_text a b \<longleftrightarrow> map to_lower a = map to_lower b"

definition parse_tz :: "canal_env \<Rightarrow> string \<Rightarrow> server_tz" where
  "parse_tz env value =
     (let t = trim value in
      if t = [] \<or> same_text t ''local'' \<or> same_text t ''system'' then Tz_Local
      else if same_text t ''utc'' \<or> same_text t ''gmt'' \<or> t = ''Z'' then Tz_Utc
      else case parse_fixed_offset t of
             Some off \<Rightarrow> Tz_Fixed off
           | None \<Rightarrow> if ce_zone_known env t then Tz_Named t else Tz_Local)"

fun camel_from :: "bool \<Rightarrow> string \<Rightarrow> string" where
  "camel_from up [] = []"
| "camel_from up (c # cs) =
     (if c = CHR ''_'' then camel_from True cs
      else if up then to_upper c # camel_from False cs else c # camel_from False cs)"

definition camel_case_name :: "string \<Rightarrow> string" where
  "camel_case_name n = camel_from False n"

definition is_java_number :: "string \<Rightarrow> bool" where
  "is_java_number v \<longleftrightarrow> v = ''0'' \<or> (v \<noteq> [] \<and> hd v \<noteq> CHR ''0'' \<and> list_all is_digit v)"

definition valid_date_to_millis :: "canal_env \<Rightarrow> server_tz \<Rightarrow> string \<Rightarrow> int option" where
  "valid_date_to_millis env tz v = Option.bind (ce_parse_datetime env v) (ce_millis env tz)"

definition convert_string :: "canal_env \<Rightarrow> server_tz \<Rightarrow> string \<Rightarrow> json" where
  "convert_string env tz s =
     (case valid_date_to_millis env tz s of
        Some ms \<Rightarrow> JInt ms
      | None \<Rightarrow>
          if is_java_number s then (case parse_int 64 s of Some n \<Rightarrow> JInt n | None \<Rightarrow> JString s) else JString s)"

definition or_null :: "json option \<Rightarrow> json" where
  "or_null v = (case v of None \<Rightarrow> JNull | Some n \<Rightarrow> n)"

fun convert_field :: "canal_env \<Rightarrow> server_tz \<Rightarrow> field \<Rightarrow> json" where
  "convert_field env tz FNull = JNull"
| "convert_field env tz (FBool b) = JBool b"
| "convert_field env tz (FInt8 v) = JInt (sint v)"
| "convert_field env tz (FInt16 v) = JInt (sint v)"
| "convert_field env tz (FInt32 v) = JInt (sint v)"
| "convert_field env tz (FInt64 v) = JInt (sint v)"
| "convert_field env tz (FUInt8 v) = JInt (uint v)"
| "convert_field env tz (FUInt16 v) = JInt (uint v)"
| "convert_field env tz (FUInt32 v) = JInt (uint v)"
| "convert_field env tz (FUInt64 v) = JInt (uint v)"
| "convert_field env tz (FFloat32 v) = or_null (float_num (ce_codec env) (ce_widen env v))"
| "convert_field env tz (FFloat64 v) = or_null (float_num (ce_codec env) v)"
| "convert_field env tz (FDecimal m e) = JString (tx_decimal (ce_texts env) m e)"
| "convert_field env tz (FString s) = convert_string env tz s"
| "convert_field env tz (FDate d) =
     (case ce_millis env tz (ce_midnight env d) of Some ms \<Rightarrow> JInt ms | None \<Rightarrow> JString (tx_date (ce_texts env) d))"
| "convert_field env tz (FDateTime dt) =
     (case ce_millis env tz dt of Some ms \<Rightarrow> JInt ms | None \<Rightarrow> JString (ce_datetime_text env dt))"
| "convert_field env tz (FTimestampTz ts) = JInt (ce_instant_millis env ts)"
| "convert_field env tz (FTime t) = JString (ce_time_text env t)"
| "convert_field env tz (FDuration ns) = JInt (sint ns)"
| "convert_field env tz (FBytes b) = JString (hex_encode b)"
| "convert_field env tz (FJson j) = j"
| "convert_field env tz (FArray fs) = JArray (map (convert_field env tz) fs)"
| "convert_field env tz (FRow fs) = JArray (map (convert_field env tz) fs)"

definition field_to_key :: "canal_env \<Rightarrow> field \<Rightarrow> string" where
  "field_to_key env f =
     (case f of
        FString s \<Rightarrow> s | FBool b \<Rightarrow> (if b then ''true'' else ''false'')
      | FInt8 v \<Rightarrow> show_int (sint v) | FInt16 v \<Rightarrow> show_int (sint v) | FInt32 v \<Rightarrow> show_int (sint v) | FInt64 v \<Rightarrow> show_int (sint v)
      | FUInt8 v \<Rightarrow> show_nat (unat v) | FUInt16 v \<Rightarrow> show_nat (unat v) | FUInt32 v \<Rightarrow> show_nat (unat v) | FUInt64 v \<Rightarrow> show_nat (unat v)
      | FFloat32 v \<Rightarrow> tx_f32 (ce_texts env) v | FFloat64 v \<Rightarrow> tx_f64 (ce_texts env) v | _ \<Rightarrow> [])"

section \<open>One table\<close>

record table_fields =
  tf_key :: string
  tf_must :: "(string, string) hashmap"
  tf_update :: "(string, string) hashmap"

record pending_delete =
  pd_key :: string
  pd_source_row :: row
  pd_data :: "(string \<times> json) list"
  pd_since :: nat

record canal_message =
  mg_table :: string
  mg_key :: string
  mg_payload :: json

record table_state =
  st_db_name :: string
  st_table_name :: string
  st_fields :: table_fields
  st_tz :: server_tz
  st_positions :: "(string, nat) hashmap"
  st_pending :: "pending_delete option"

definition state_get :: "table_state \<Rightarrow> row \<Rightarrow> string \<Rightarrow> field option" where
  "state_get st r col = Option.bind (hm_get (st_positions st) col) (row_get r)"

definition row_key :: "canal_env \<Rightarrow> table_state \<Rightarrow> row \<Rightarrow> string" where
  "row_key env st r = unwrap_or [] (map_option (field_to_key env) (state_get st r (tf_key (st_fields st))))"

definition converted :: "canal_env \<Rightarrow> table_state \<Rightarrow> row \<Rightarrow> string \<Rightarrow> json option" where
  "converted env st r col = map_option (convert_field env (st_tz st)) (state_get st r col)"

definition col_changed :: "canal_env \<Rightarrow> table_state \<Rightarrow> row \<Rightarrow> row option \<Rightarrow> string \<Rightarrow> bool" where
  "col_changed env st r old col = (case old of None \<Rightarrow> False | Some o' \<Rightarrow> converted env st o' col \<noteq> converted env st r col)"

definition map_must ::
    "canal_env \<Rightarrow> table_state \<Rightarrow> row \<Rightarrow> row option \<Rightarrow> string \<times> string \<Rightarrow> (string \<times> json) list \<times> bool \<Rightarrow> (string \<times> json) list \<times> bool" where
  "map_must env st r old = (\<lambda>(col, target) (out, upd).
     case converted env st r col of
       None \<Rightarrow> (out, upd)
     | Some v \<Rightarrow> (bt_insert target v out, upd \<or> col_changed env st r old col))"

definition map_update ::
    "canal_env \<Rightarrow> table_state \<Rightarrow> row \<Rightarrow> row option \<Rightarrow> string \<times> string \<Rightarrow> (string \<times> json) list \<times> bool \<Rightarrow> (string \<times> json) list \<times> bool" where
  "map_update env st r old = (\<lambda>(col, target) (out, upd).
     let changed = col_changed env st r old col in
     (if old = None \<or> changed then (case converted env st r col of None \<Rightarrow> out | Some v \<Rightarrow> bt_insert target v out) else out,
      upd \<or> changed))"

definition map_image :: "canal_env \<Rightarrow> table_state \<Rightarrow> row \<Rightarrow> row option \<Rightarrow> (string \<times> json) list \<times> bool" where
  "map_image env st r old =
     fold (map_update env st r old) (tf_update (st_fields st)) (fold (map_must env st r old) (tf_must (st_fields st)) ([], False))"

definition put_column :: "canal_env \<Rightarrow> table_state \<Rightarrow> row \<Rightarrow> string \<times> string \<Rightarrow> (string \<times> json) list \<Rightarrow> (string \<times> json) list" where
  "put_column env st r = (\<lambda>(col, target) out. case converted env st r col of None \<Rightarrow> out | Some v \<Rightarrow> bt_insert target v out)"

definition map_old :: "canal_env \<Rightarrow> table_state \<Rightarrow> row \<Rightarrow> (string \<times> json) list" where
  "map_old env st r = fold (put_column env st r) (tf_must (st_fields st) @ tf_update (st_fields st)) []"

definition must_data :: "canal_env \<Rightarrow> table_state \<Rightarrow> row \<Rightarrow> (string \<times> json) list" where
  "must_data env st r = fold (put_column env st r) (tf_must (st_fields st)) []"

definition build_message ::
    "table_state \<Rightarrow> string \<Rightarrow> string \<Rightarrow> string \<Rightarrow> (string \<times> json) list \<Rightarrow> (string \<times> json) list option \<Rightarrow> canal_message" where
  "build_message st uuid event key data old =
     \<lparr>mg_table = st_db_name st @ ''.'' @ st_table_name st, mg_key = key,
      mg_payload = obj
        ([(''requestId'', JString uuid), (''dbName'', JString (map to_lower (st_db_name st))),
          (''tableName'', JString (map to_lower (st_table_name st))), (''eventType'', JString event), (''data'', JObject data)] @
         (case old of None \<Rightarrow> [] | Some o' \<Rightarrow> [(''oldData'', JObject o')]))\<rparr>"

definition stash_update_before :: "canal_env \<Rightarrow> nat \<Rightarrow> row \<Rightarrow> table_state \<Rightarrow> table_state" where
  "stash_update_before env now r st =
     st\<lparr>st_pending := Some \<lparr>pd_key = row_key env st r, pd_source_row = r, pd_data = must_data env st r, pd_since = now\<rparr>\<rparr>"

definition torn_delete :: "table_state \<Rightarrow> string \<Rightarrow> pending_delete \<Rightarrow> canal_message" where
  "torn_delete st uuid p = build_message st uuid ''delete'' (pd_key p) (pd_data p) None"

definition state_encode :: "canal_env \<Rightarrow> nat \<Rightarrow> string \<Rightarrow> row \<Rightarrow> table_state \<Rightarrow> canal_message list \<times> table_state" where
  "state_encode env now uuid r st =
     (let key = row_key env st r in
      case row_kind r of
        UpdateBefore \<Rightarrow>
          (case st_pending st of None \<Rightarrow> [] | Some p \<Rightarrow> [torn_delete st uuid p],
           stash_update_before env now r (st\<lparr>st_pending := None\<rparr>))
      | UpdateAfter \<Rightarrow>
          (case st_pending st of
             Some p \<Rightarrow>
               let st1 = st\<lparr>st_pending := None\<rparr>; (data, upd) = map_image env st1 r (Some (pd_source_row p)) in
               (if tf_update (st_fields st1) \<noteq> [] \<and> \<not> upd then []
                else [build_message st1 uuid ''update'' key data (Some (map_old env st1 (pd_source_row p)))], st1)
           | None \<Rightarrow> ([build_message st uuid ''update'' key (fst (map_image env st r None)) None], st))
      | Delete \<Rightarrow> ([build_message st uuid ''delete'' key (must_data env st r) None], st)
      | Insert \<Rightarrow> ([build_message st uuid ''insert'' key (fst (map_image env st r None)) None], st))"

definition state_flush :: "string \<Rightarrow> table_state \<Rightarrow> canal_message list \<times> table_state" where
  "state_flush uuid st =
     (case st_pending st of None \<Rightarrow> ([], st) | Some p \<Rightarrow> ([torn_delete st uuid p], st\<lparr>st_pending := None\<rparr>))"

definition expired :: "nat \<Rightarrow> nat \<Rightarrow> table_state \<Rightarrow> bool" where
  "expired now window st = (case st_pending st of None \<Rightarrow> False | Some p \<Rightarrow> window \<le> now - pd_since p)"

definition state_expire :: "nat \<Rightarrow> nat \<Rightarrow> string \<Rightarrow> table_state \<Rightarrow> canal_message list \<times> table_state" where
  "state_expire now window uuid st = (if expired now window st then state_flush uuid st else ([], st))"

section \<open>The encoder\<close>

record canal_config =
  cf_database_name :: string
  cf_table_name :: string
  cf_columns :: "string list"
  cf_tables :: "(string, table_fields) hashmap"
  cf_server_time_zone :: string
  cf_pairing_window_ms :: nat

record canal_encoder =
  ec_config :: canal_config
  ec_tz :: server_tz
  ec_tables :: "(string, table_state) hashmap"
  ec_default_table :: string
  ec_explicit :: bool

definition positions :: "string list \<Rightarrow> (string, nat) hashmap" where
  "positions cols = fold (\<lambda>(i, c). hm_insert c i) (enumerate 0 cols) hm_empty"

definition encoder_new :: "canal_env \<Rightarrow> canal_config \<Rightarrow> string + canal_encoder" where
  "encoder_new env cfg =
     (let camel = camel_case_name (cf_table_name cfg); tz = parse_tz env (cf_server_time_zone cfg) in
      case hm_get (cf_tables cfg) camel of
        None \<Rightarrow> Inl (''canal-client config has no field mapping for table '' @ camel)
      | Some flds \<Rightarrow>
          if tf_must flds = [] \<and> tf_update flds = [] then Inl (''canal-client table has empty must/update mappings: '' @ camel)
          else
            let table = cf_database_name cfg @ ''.'' @ cf_table_name cfg in
            Inr \<lparr>ec_config = cfg, ec_tz = tz,
                 ec_tables = hm_insert table
                   \<lparr>st_db_name = cf_database_name cfg, st_table_name = cf_table_name cfg, st_fields = flds, st_tz = tz,
                    st_positions = positions (cf_columns cfg), st_pending = None\<rparr> hm_empty,
                 ec_default_table = table, ec_explicit = True\<rparr>)"

definition encoder_new_auto :: "canal_env \<Rightarrow> canal_config \<Rightarrow> canal_encoder" where
  "encoder_new_auto env cfg =
     \<lparr>ec_config = cfg, ec_tz = parse_tz env (cf_server_time_zone cfg), ec_tables = hm_empty, ec_default_table = [],
      ec_explicit = False\<rparr>"

text \<open>\<open>rsplit_once('.')\<close>.\<close>

definition split_table_identifier :: "string \<Rightarrow> string \<times> string" where
  "split_table_identifier ident =
     (if CHR ''.'' \<in> set ident
      then (rev (tl (dropWhile (\<lambda>c. c \<noteq> CHR ''.'') (rev ident))), rev (takeWhile (\<lambda>c. c \<noteq> CHR ''.'') (rev ident)))
      else ([], ident))"

definition schema_key :: "table_schema \<Rightarrow> string" where
  "schema_key s =
     (case ts_primary_key s of
        k # _ \<Rightarrow> k | [] \<Rightarrow> (case ts_columns s of c # _ \<Rightarrow> cd_name c | [] \<Rightarrow> []))"

text \<open>The mapping of one column: changed-only, renamed, or identity.\<close>

definition apply_delta ::
    "table_fields \<Rightarrow> string \<Rightarrow> (string, string) hashmap \<times> (string, string) hashmap \<Rightarrow>
     (string, string) hashmap \<times> (string, string) hashmap" where
  "apply_delta flds col = (\<lambda>(must, update).
     case hm_get (tf_update flds) col of
       Some target \<Rightarrow> (must, hm_insert col target update)
     | None \<Rightarrow> (hm_insert col (unwrap_or col (hm_get (tf_must flds) col)) must, update))"

definition effective_fields :: "table_schema \<Rightarrow> table_fields \<Rightarrow> table_fields" where
  "effective_fields s flds =
     (case fold (apply_delta flds) (field_names s) (hm_empty, hm_empty) of
        (must, update) \<Rightarrow>
          \<lparr>tf_key = (if tf_key flds = [] then schema_key s else tf_key flds), tf_must = must, tf_update = update\<rparr>)"

definition table_mapping :: "canal_config \<Rightarrow> table_schema \<Rightarrow> string \<Rightarrow> string + table_fields" where
  "table_mapping cfg s camel =
     (case hm_get (cf_tables cfg) camel of
        None \<Rightarrow> Inr \<lparr>tf_key = schema_key s, tf_must = fold (\<lambda>n. hm_insert n n) (field_names s) hm_empty, tf_update = hm_empty\<rparr>
      | Some flds \<Rightarrow>
          if \<not> list_all (\<lambda>n. n \<in> set (field_names s)) (hm_keys (tf_must flds) @ hm_keys (tf_update flds))
          then Inl (''canal-client table: mapped column is not in the source schema: '' @ camel)
          else if tf_key flds \<noteq> [] \<and> tf_key flds \<notin> set (field_names s)
          then Inl (''canal-client table: key column is not in the source schema: '' @ camel)
          else Inr (effective_fields s flds))"

definition register_schema :: "table_schema \<Rightarrow> canal_encoder \<Rightarrow> (string + unit) \<times> canal_encoder" where
  "register_schema s e =
     (let ident = ts_table s in
      if hm_contains (ec_tables e) ident then (Inr (), e)
      else
        case split_table_identifier ident of (db, table) \<Rightarrow>
        case table_mapping (ec_config e) s (camel_case_name table) of
          Inl err \<Rightarrow> (Inl err, e)
        | Inr flds \<Rightarrow>
            if ts_columns s = [] then (Inl (''canal-client table: source schema has no columns: '' @ camel_case_name table), e)
            else
              (Inr (),
               e\<lparr>ec_default_table := (if ec_default_table e = [] then ident else ec_default_table e),
                 ec_tables := hm_insert ident
                   \<lparr>st_db_name = db, st_table_name = table, st_fields = flds, st_tz = ec_tz e,
                    st_positions = positions (field_names s), st_pending = None\<rparr> (ec_tables e)\<rparr>))"

definition state_for :: "row \<Rightarrow> canal_encoder \<Rightarrow> string + string" where
  "state_for r e =
     (case row_origin r of
        None \<Rightarrow> if ec_default_table e = [] then Inl ''row arrived before any initial schema event'' else Inr (ec_default_table e)
      | Some origin \<Rightarrow>
          if hm_contains (ec_tables e) origin then Inr origin
          else if ec_explicit e then
            (if same_text origin (ec_default_table e) then Inr (ec_default_table e)
             else Inl ''canal-client explicit config targets another table'')
          else Inl ''row arrived before its initial schema event'')"

definition encode_row :: "canal_env \<Rightarrow> nat \<Rightarrow> string \<Rightarrow> row \<Rightarrow> canal_encoder \<Rightarrow> (string + canal_message list) \<times> canal_encoder" where
  "encode_row env now uuid r e =
     (case state_for r e of
        Inl err \<Rightarrow> (Inl err, e)
      | Inr key \<Rightarrow>
          (case hm_get (ec_tables e) key of
             None \<Rightarrow> (Inl ''resolved table state exists'', e)
           | Some st \<Rightarrow>
               (case state_encode env now uuid r st of
                  (ms, st1) \<Rightarrow> (Inr ms, e\<lparr>ec_tables := hm_insert key st1 (ec_tables e)\<rparr>))))"

text \<open>\<open>values_mut().flat_map\<close>: every table in the map's order.\<close>

fun each_table ::
    "(nat \<Rightarrow> table_state \<Rightarrow> canal_message list \<times> table_state) \<Rightarrow> nat \<Rightarrow> (string, table_state) hashmap \<Rightarrow>
     canal_message list \<times> (string, table_state) hashmap" where
  "each_table f i [] = ([], [])"
| "each_table f i ((k, st) # m) =
     (case f i st of (ms, st1) \<Rightarrow> case each_table f (Suc i) m of (ms', m') \<Rightarrow> (ms @ ms', (k, st1) # m'))"

definition encoder_flush :: "(nat \<Rightarrow> string) \<Rightarrow> canal_encoder \<Rightarrow> canal_message list \<times> canal_encoder" where
  "encoder_flush uuids e =
     (case each_table (\<lambda>i. state_flush (uuids i)) 0 (ec_tables e) of (ms, ts) \<Rightarrow> (ms, e\<lparr>ec_tables := ts\<rparr>))"

definition expire_pending :: "nat \<Rightarrow> (nat \<Rightarrow> string) \<Rightarrow> canal_encoder \<Rightarrow> canal_message list \<times> canal_encoder" where
  "expire_pending now uuids e =
     (case each_table (\<lambda>i. state_expire now (cf_pairing_window_ms (ec_config e)) (uuids i)) 0 (ec_tables e) of
        (ms, ts) \<Rightarrow> (ms, e\<lparr>ec_tables := ts\<rparr>))"

definition has_pending :: "canal_encoder \<Rightarrow> bool" where
  "has_pending e = list_ex (\<lambda>(k, st). st_pending st \<noteq> None) (ec_tables e)"

definition has_expired_pending :: "nat \<Rightarrow> canal_encoder \<Rightarrow> bool" where
  "has_expired_pending now e = list_ex (\<lambda>(k, st). expired now (cf_pairing_window_ms (ec_config e)) st) (ec_tables e)"

section \<open>Single messages\<close>

definition canal_client_field :: "canal_env \<Rightarrow> json \<Rightarrow> field" where
  "canal_client_field env v =
     (case v of
        JNull \<Rightarrow> FNull | JBool b \<Rightarrow> FBool b
      | JInt n \<Rightarrow> if - (2 ^ 63) \<le> n \<and> n < 2 ^ 63 then FInt64 (word_of_int n) else FFloat64 (num_float (ce_codec env) v)
      | JFloat _ \<Rightarrow> FFloat64 (num_float (ce_codec env) v)
      | JString s \<Rightarrow> FString s
      | _ \<Rightarrow> FString (tx_json (ce_texts env) v))"

definition canal_client_deserialize :: "canal_env \<Rightarrow> octets \<Rightarrow> table_schema \<Rightarrow> decoded" where
  "canal_client_deserialize env bs s =
     (case from_slice (ce_codec env) bs of
        None \<Rightarrow> Inl ''invalid JSON''
      | Some v \<Rightarrow>
          let event = unwrap_or ''insert'' (Option.bind (j_get ''eventType'' v) as_str);
              kind = (if event = ''update'' then UpdateAfter else if event = ''delete'' then Delete else Insert);
              data = unwrap_or JNull (j_get ''data'' v)
          in Inr [row_from kind s (\<lambda>n. case j_get n data of None \<Rightarrow> FNull | Some x \<Rightarrow> canal_client_field env x)])"

definition canal_client_serialize :: "canal_env \<Rightarrow> string \<Rightarrow> table_schema \<Rightarrow> row \<Rightarrow> octets" where
  "canal_client_serialize env uuid s r =
     (let (db, table) = (case row_origin r of None \<Rightarrow> ([], []) | Some t \<Rightarrow> split_table_identifier t);
          event = (case row_kind r of Insert \<Rightarrow> ''insert'' | Delete \<Rightarrow> ''delete'' | _ \<Rightarrow> ''update'');
          data = fold (\<lambda>(i, c). bt_insert (cd_name c)
                   (convert_field env Tz_Local (if i < field_count r then row_fields r ! i else FNull)))
                   (enumerate 0 (ts_columns s)) []
      in to_vec (ce_codec env) (obj
           [(''requestId'', JString uuid), (''dbName'', JString (map to_lower db)), (''tableName'', JString (map to_lower table)),
            (''eventType'', JString event), (''data'', JObject data)]))"

section \<open>Replaying the messages\<close>

text \<open>A downstream copy of a table: the fields under each message key.\<close>

type_synonym keyed_image = "string \<Rightarrow> (string \<times> json) list option"

definition apply_message :: "canal_message \<Rightarrow> keyed_image \<Rightarrow> keyed_image" where
  "apply_message m M =
     (if j_get ''eventType'' (mg_payload m) = Some (JString ''delete'') then M(mg_key m := None)
      else case j_get ''data'' (mg_payload m) of Some (JObject d) \<Rightarrow> M(mg_key m := Some d) | _ \<Rightarrow> M)"

definition apply_row :: "canal_env \<Rightarrow> table_state \<Rightarrow> row \<Rightarrow> keyed_image \<Rightarrow> keyed_image" where
  "apply_row env st r M =
     M(row_key env st r :=
         (if row_kind r = UpdateBefore \<or> row_kind r = Delete then None else Some (must_data env st r)))"

text \<open>What a sink does with one table: it encodes rows, and expires a held image in its flush cycles.\<close>

datatype canal_op = Encode nat string row | Expire nat string

fun canal_run :: "canal_env \<Rightarrow> nat \<Rightarrow> canal_op list \<Rightarrow> table_state \<Rightarrow> canal_message list \<times> table_state" where
  "canal_run env w [] st = ([], st)"
| "canal_run env w (Encode now u r # ops) st =
     (case state_encode env now u r st of (ms, st1) \<Rightarrow> case canal_run env w ops st1 of (ms', st2) \<Rightarrow> (ms @ ms', st2))"
| "canal_run env w (Expire now u # ops) st =
     (case state_expire now w u st of (ms, st1) \<Rightarrow> case canal_run env w ops st1 of (ms', st2) \<Rightarrow> (ms @ ms', st2))"

fun op_rows :: "canal_op list \<Rightarrow> row list" where
  "op_rows [] = []"
| "op_rows (Encode now u r # ops) = r # op_rows ops"
| "op_rows (Expire now u # ops) = op_rows ops"

text \<open>
  While an image is held, an after image belongs to the same key and no row of that key is inserted.
\<close>

fun well_paired :: "canal_env \<Rightarrow> nat \<Rightarrow> canal_op list \<Rightarrow> table_state \<Rightarrow> bool" where
  "well_paired env w [] st = True"
| "well_paired env w (Encode now u r # ops) st =
     ((case st_pending st of
         None \<Rightarrow> True
       | Some p \<Rightarrow> (row_kind r = UpdateAfter \<longrightarrow> row_key env st r = pd_key p) \<and> (row_kind r = Insert \<longrightarrow> row_key env st r \<noteq> pd_key p)) \<and>
      well_paired env w ops (snd (state_encode env now u r st)))"
| "well_paired env w (Expire now u # ops) st = well_paired env w ops (snd (state_expire now w u st))"

lemma payload_parts:
  "j_get ''eventType'' (mg_payload (build_message st u ev k d old)) = Some (JString ev)"
  "j_get ''data'' (mg_payload (build_message st u ev k d old)) = Some (JObject d)"
  "j_get ''oldData'' (mg_payload (build_message st u ev k d old)) = map_option JObject old"
  "mg_key (build_message st u ev k d old) = k"
  by (simp_all add: build_message_def obj_def j_get_def bt_get_insert flip: hm_get_def split: option.split)

lemma apply_built [simp]:
  "apply_message (build_message st u ev k d old) M = M(k := (if ev = ''delete'' then None else Some d))"
  by (simp add: apply_message_def payload_parts)

text \<open>Encoding reads the mapping of a table, never its held image.\<close>

lemma pending_unread [simp]:
  "state_get (st\<lparr>st_pending := p\<rparr>) = state_get st" "converted env (st\<lparr>st_pending := p\<rparr>) = converted env st"
  by (simp_all add: fun_eq_iff state_get_def converted_def)

lemma pending_unread_columns [simp]:
  "col_changed env (st\<lparr>st_pending := p\<rparr>) = col_changed env st"
  "put_column env (st\<lparr>st_pending := p\<rparr>) = put_column env st"
  by (intro ext, simp add: col_changed_def put_column_def split: option.split)+

lemma pending_unread_images [simp]:
  "map_must env (st\<lparr>st_pending := p\<rparr>) = map_must env st" "map_update env (st\<lparr>st_pending := p\<rparr>) = map_update env st"
  by (intro ext, simp add: map_must_def map_update_def split: option.split prod.split)+

lemma pending_irrelevant [simp]:
  "row_key env (st\<lparr>st_pending := p\<rparr>) = row_key env st" "must_data env (st\<lparr>st_pending := p\<rparr>) = must_data env st"
  "map_image env (st\<lparr>st_pending := p\<rparr>) = map_image env st" "map_old env (st\<lparr>st_pending := p\<rparr>) = map_old env st"
  "build_message (st\<lparr>st_pending := p\<rparr>) = build_message st" "apply_row env (st\<lparr>st_pending := p\<rparr>) = apply_row env st"
  by (simp_all add: fun_eq_iff row_key_def must_data_def map_image_def map_old_def build_message_def apply_row_def)

lemma map_image_must: "tf_update (st_fields st) = [] \<Longrightarrow> fst (map_image env st r old) = must_data env st r"
proof -
  have "fst (fold (map_must env st r old) cols (out, upd)) = fold (put_column env st r) cols out" for cols out upd
    by (induction cols arbitrary: out upd) (auto simp: map_must_def put_column_def split: option.split)
  then show "tf_update (st_fields st) = [] \<Longrightarrow> ?thesis" by (simp add: map_image_def must_data_def)
qed

text \<open>The rows seen so far are what the messages give once the held image's key is removed.\<close>

definition held :: "table_state \<Rightarrow> keyed_image \<Rightarrow> keyed_image" where
  "held st M = (case st_pending st of None \<Rightarrow> M | Some p \<Rightarrow> M(pd_key p := None))"

lemma encode_replay:
  assumes "tf_update (st_fields st) = []" "well_paired env w (Encode now u r # ops) st"
    and "state_encode env now u r st = (ms, st1)"
  shows "held st1 (fold apply_message ms M) = apply_row env st r (held st M)"
proof -
  have image: "map_image env st r old = (d, upd) \<Longrightarrow> d = must_data env st r" for old d upd
    using map_image_must [OF assms(1), of env r old] by simp
  show ?thesis
    using assms
    by (cases "row_kind r"; cases "st_pending st")
       (auto simp: state_encode_def held_def apply_row_def stash_update_before_def torn_delete_def map_image_must Let_def
        dest: image split: prod.splits)
qed

lemma flush_replay: "state_flush u st = (ms, st1) \<Longrightarrow> held st1 (fold apply_message ms M) = held st M \<and> st_pending st1 = None"
  by (auto simp: state_flush_def held_def torn_delete_def split: option.splits)

lemma expire_replay: "state_expire now w u st = (ms, st1) \<Longrightarrow> held st1 (fold apply_message ms M) = held st M"
  by (auto simp: state_expire_def dest: flush_replay split: if_splits)

definition same_mapping :: "table_state \<Rightarrow> table_state \<Rightarrow> bool" where
  "same_mapping st st1 \<longleftrightarrow> st1\<lparr>st_pending := None\<rparr> = st\<lparr>st_pending := None\<rparr>"

lemma steps_same_mapping:
  "state_encode env now u r st = (ms, st1) \<Longrightarrow> same_mapping st st1"
  "state_expire now w u st = (ms, st1) \<Longrightarrow> same_mapping st st1"
  by (auto simp: same_mapping_def state_encode_def stash_update_before_def Let_def state_expire_def state_flush_def
      split: row_kind.splits option.splits prod.splits if_splits)

lemma same_mappingD:
  assumes "same_mapping st st1"
  shows "apply_row env st1 = apply_row env st" "st_fields st1 = st_fields st"
proof -
  have eq: "st1\<lparr>st_pending := None\<rparr> = st\<lparr>st_pending := None\<rparr>" using assms by (simp add: same_mapping_def)
  show "apply_row env st1 = apply_row env st"
    using arg_cong [OF eq, of "apply_row env"] by simp
  show "st_fields st1 = st_fields st" using arg_cong [OF eq, of st_fields] by simp
qed

lemma run_replay:
  "tf_update (st_fields st) = [] \<Longrightarrow> well_paired env w ops st \<Longrightarrow> canal_run env w ops st = (ms, st1) \<Longrightarrow>
     held st1 (fold apply_message ms M) = fold (apply_row env st) (op_rows ops) (held st M)"
proof (induction env w ops st arbitrary: ms M rule: canal_run.induct)
  case (2 env w now u r ops st)
  obtain ms1 st2 where s: "state_encode env now u r st = (ms1, st2)" by force
  obtain ms2 st3 where t: "canal_run env w ops st2 = (ms2, st3)" by force
  note same = same_mappingD [OF steps_same_mapping(1) [OF s]]
  have "held st3 (fold apply_message ms2 (fold apply_message ms1 M)) =
      fold (apply_row env st2) (op_rows ops) (held st2 (fold apply_message ms1 M))"
    using 2 s t same by simp
  then show ?case using 2 s t same encode_replay [OF _ _ s, of w ops M] by auto
next
  case (3 env w now u ops st)
  obtain ms1 st2 where s: "state_expire now w u st = (ms1, st2)" by force
  obtain ms2 st3 where t: "canal_run env w ops st2 = (ms2, st3)" by force
  note same = same_mappingD [OF steps_same_mapping(2) [OF s]]
  have "held st3 (fold apply_message ms2 (fold apply_message ms1 M)) =
      fold (apply_row env st2) (op_rows ops) (held st2 (fold apply_message ms1 M))"
    using 3 s t same by simp
  then show ?case using 3 s t same expire_replay [OF s, of M] by auto
qed auto

text \<open>A whole stream, closed by a flush.\<close>

definition canal_replay :: "canal_env \<Rightarrow> nat \<Rightarrow> canal_op list \<Rightarrow> string \<Rightarrow> table_state \<Rightarrow> canal_message list" where
  "canal_replay env w ops u st = (case canal_run env w ops st of (ms, st1) \<Rightarrow> ms @ fst (state_flush u st1))"

text \<open>
  C31. For a table whose columns are all always-present, the canal-client messages of a stream reproduce
  the table: a consumer that puts and removes by message key ends where applying the rows directly
  ends, whatever the flush cycles expire in between, provided that while a before image is held an after image
  is of its key and no row of its key is inserted.
\<close>

theorem canal_messages_replay:
  assumes "st_pending st = None" "tf_update (st_fields st) = []" "well_paired env w ops st"
  shows "fold apply_message (canal_replay env w ops u st) M = fold (apply_row env st) (op_rows ops) M"
proof -
  obtain ms st1 where r: "canal_run env w ops st = (ms, st1)" by force
  obtain ms' st2 where f: "state_flush u st1 = (ms', st2)" by force
  have "held st2 (fold apply_message ms' (fold apply_message ms M)) = fold (apply_row env st) (op_rows ops) M"
    using run_replay [OF assms(2,3) r, of M] flush_replay [OF f, of "fold apply_message ms M"] assms(1)
    by (auto simp: held_def)
  then show ?thesis using flush_replay [OF f, of M] r f by (simp add: canal_replay_def held_def)
qed

text \<open>The columns a table sends, and that two rows agree on them after conversion.\<close>

definition configured :: "table_state \<Rightarrow> (string \<times> string) list" where
  "configured st = tf_must (st_fields st) @ tf_update (st_fields st)"

definition unchanged :: "canal_env \<Rightarrow> table_state \<Rightarrow> row \<Rightarrow> row \<Rightarrow> bool" where
  "unchanged env st b a \<longleftrightarrow> list_all (\<lambda>(col, target). converted env st b col = converted env st a col) (configured st)"

lemma map_image_flag:
  assumes "list_all (\<lambda>(col, target). state_get st a col \<noteq> None) (tf_must (st_fields st))"
  shows "snd (map_image env st a (Some b)) \<longleftrightarrow> \<not> unchanged env st b a"
proof -
  have m: "list_all (\<lambda>(col, target). state_get st a col \<noteq> None) cols \<Longrightarrow>
      snd (fold (map_must env st a (Some b)) cols (out, upd)) \<longleftrightarrow>
      upd \<or> \<not> list_all (\<lambda>(col, target). converted env st b col = converted env st a col) cols" for cols out upd
    by (induction cols arbitrary: out upd) (auto simp: map_must_def col_changed_def converted_def split: option.split)
  have u: "snd (fold (map_update env st a (Some b)) cols p) \<longleftrightarrow>
      snd p \<or> \<not> list_all (\<lambda>(col, target). converted env st b col = converted env st a col) cols" for cols p
    by (induction cols arbitrary: p) (auto simp: map_update_def col_changed_def Let_def)
  show ?thesis using m [OF assms] by (simp add: map_image_def u unchanged_def configured_def)
qed

text \<open>
  A before image and its after image become one \<open>update\<close> message, keyed by the after image, with the
  converted after image as \<open>data\<close> and all configured columns of the before image as \<open>oldData\<close>; or no message
  at all, exactly when changed-only columns are configured and no configured column changed.
\<close>

theorem update_pair_merges:
  assumes "st_pending st = None" "row_kind b = UpdateBefore" "row_kind a = UpdateAfter"
    and "list_all (\<lambda>(col, target). state_get st a col \<noteq> None) (tf_must (st_fields st))"
  shows "canal_run env w [Encode t u b, Encode t' u' a] st =
     (if tf_update (st_fields st) \<noteq> [] \<and> unchanged env st b a then []
      else [build_message st u' ''update'' (row_key env st a) (fst (map_image env st a (Some b))) (Some (map_old env st b))], st)"
  using assms map_image_flag [OF assms(4), of env b]
  by (cases "map_image env st a (Some b)") (simp add: state_encode_def stash_update_before_def Let_def)


section \<open>Examples\<close>

definition plain_texts :: texts where
  "plain_texts =
     \<lparr>tx_f32 = (\<lambda>w. show_nat (unat w)), tx_f64 = (\<lambda>w. show_nat (unat w)), tx_decimal = (\<lambda>m e. show_int m), tx_json = (\<lambda>v. []),
      tx_date = show_int, tx_time = show_int, tx_datetime = show_int, tx_timestamp = show_int\<rparr>"

definition plain_codec :: json_codec where
  "plain_codec =
     \<lparr>to_vec = e_json, from_slice = sample_from_slice, float_num = (\<lambda>w. None), num_float = (\<lambda>v. 0), num_text = (\<lambda>t. t), rfc3339 = show_int\<rparr>"

definition plain_canal :: canal_env where
  "plain_canal =
     \<lparr>ce_texts = plain_texts, ce_codec = plain_codec, ce_zone_known = (\<lambda>z. False), ce_millis = (\<lambda>tz t. Some (1000 * t)),
      ce_parse_datetime = (\<lambda>s. None), ce_midnight = (\<lambda>d. 86400 * d), ce_datetime_text = show_int, ce_time_text = show_int,
      ce_instant_millis = (\<lambda>t. t), ce_widen = ucast\<rparr>"

definition demo_table :: table_state where
  "demo_table =
     \<lparr>st_db_name = ''db'', st_table_name = ''t'',
      st_fields = \<lparr>tf_key = ''id'', tf_must = [(''id'', ''id''), (''v'', ''v'')], tf_update = []\<rparr>, st_tz = Tz_Utc,
      st_positions = [(''id'', 0), (''v'', 1)], st_pending = None\<rparr>"

definition demo_change :: "row_kind \<Rightarrow> string \<Rightarrow> row" where
  "demo_change k v = \<lparr>row_kind = k, row_fields = [FString ''a'', FString v], row_origin = None\<rparr>"

lemma demo_change_parts [simp]:
  "row_kind (demo_change k v) = k" "row_key plain_canal demo_table (demo_change k v) = ''a''"
  by (simp_all add: row_key_def state_get_def demo_table_def demo_change_def row_get_def field_to_key_def hm_get_def field_count_def)

lemma demo_table_parts [simp]: "st_pending demo_table = None" "tf_update (st_fields demo_table) = []"
  by (simp_all add: demo_table_def)

theorem canal_messages_replay_witness:
  "fold apply_message (canal_replay plain_canal 100
      [Encode 0 ''u1'' (demo_change Insert ''x''), Encode 1 ''u2'' (demo_change UpdateBefore ''x''),
       Encode 2 ''u3'' (demo_change UpdateAfter ''y'')] ''u4'' demo_table) (\<lambda>k. None) ''a'' =
   Some (must_data plain_canal demo_table (demo_change UpdateAfter ''y''))"
  by (subst canal_messages_replay) (simp_all add: state_encode_def stash_update_before_def Let_def apply_row_def)

definition demo_filtered :: table_state where
  "demo_filtered = demo_table\<lparr>st_fields := \<lparr>tf_key = ''id'', tf_must = [(''id'', ''id'')], tf_update = [(''v'', ''v'')]\<rparr>\<rparr>"

theorem update_pair_merges_witness:
  "fst (canal_run plain_canal 100 [Encode 0 ''u1'' (demo_change UpdateBefore ''x''), Encode 1 ''u2'' (demo_change UpdateAfter ''x'')] demo_filtered) = []"
  by (subst update_pair_merges)
     (simp_all add: demo_filtered_def demo_table_def unchanged_def configured_def state_get_def hm_get_def demo_change_def row_get_def field_count_def
      converted_def)

text \<open>
  A before image whose after image never comes is emitted as a delete, however late: a row inserted
  under the same key in between is deleted downstream.
\<close>

lemma torn_delete_overtakes_insert:
  "fold apply_message (canal_replay plain_canal 100
      [Encode 0 ''u1'' (demo_change UpdateBefore ''x''), Encode 1 ''u2'' (demo_change Insert ''y'')] ''u3'' demo_table) (\<lambda>k. None) ''a'' =
   None"
  by (simp add: canal_replay_def state_encode_def stash_update_before_def state_flush_def torn_delete_def Let_def)

text \<open>An update that changes the key sends one message, under the new key: the old key is never removed.\<close>

lemma key_change_keeps_old:
  assumes "st_pending st = None" "row_kind b = UpdateBefore" "row_kind a = UpdateAfter"
    and "row_key env st a \<noteq> row_key env st b" "tf_update (st_fields st) = []"
  shows "fold apply_message (canal_replay env w [Encode t u b, Encode t' u' a] u'' st) M (row_key env st b) = M (row_key env st b)"
  using assms by (auto simp: canal_replay_def state_encode_def stash_update_before_def state_flush_def Let_def split: prod.split)

section \<open>Several tables\<close>

text \<open>A row changes the state of the table it is routed to and of no other.\<close>

lemma encode_row_isolated:
  assumes "encode_row env now u r e = (res, e1)" "state_for r e \<noteq> Inr k"
  shows "hm_get (ec_tables e1) k = hm_get (ec_tables e) k"
  using assms by (auto simp: encode_row_def hm_get_insert split: sum.splits option.splits prod.splits)

lemma encode_row_routed:
  assumes "state_for r e = Inr k" "hm_get (ec_tables e) k = Some st" "state_encode env now u r st = (ms, st1)"
  shows "\<exists>e1. encode_row env now u r e = (Inr ms, e1) \<and> hm_get (ec_tables e1) k = Some st1"
  using assms by (simp add: encode_row_def hm_get_insert)

text \<open>A registered table maps every column of its schema: the ones its configuration names as changed-only, and all others always.\<close>

lemma apply_delta_fold:
  "fold (apply_delta flds) cols (must, update) = (must', update') \<Longrightarrow>
     hm_get must' c = (if c \<in> set cols \<and> hm_get (tf_update flds) c = None then Some (unwrap_or c (hm_get (tf_must flds) c)) else hm_get must c) \<and>
     hm_get update' c = (if c \<in> set cols \<and> hm_get (tf_update flds) c \<noteq> None then hm_get (tf_update flds) c else hm_get update c)"
proof (induction cols arbitrary: must update)
  case (Cons x cols)
  then show ?case
    by (cases "hm_get (tf_update flds) x") (auto simp: apply_delta_def hm_get_insert)
qed simp

lemma effective_covers:
  "hm_get (tf_must (effective_fields s flds)) c =
     (if c \<in> set (field_names s) \<and> hm_get (tf_update flds) c = None then Some (unwrap_or c (hm_get (tf_must flds) c)) else None)"
  "hm_get (tf_update (effective_fields s flds)) c = (if c \<in> set (field_names s) then hm_get (tf_update flds) c else None)"
  using apply_delta_fold [of flds "field_names s" hm_empty hm_empty _ _ c]
  by (auto simp: effective_fields_def split: prod.split)

end
