(* ===== verification/Message_Formats.thy ===== *)
theory Message_Formats
  imports Canal_Client
begin

text \<open>
  The format registry (\<open>seatunnel-formats/src/lib.rs\<close>): the format names a job may configure, and the calls that
  pick the reader or writer of a format. The contract of every format is the interface \<open>row_format\<close>; the
  statements here join their instances.
\<close>

section \<open>Formats by name\<close>

datatype message_format =
  Fmt_Json | Fmt_Text | Fmt_CanalJson | Fmt_CanalClientJson | Fmt_DebeziumJson | Fmt_CompatibleDebeziumJson
| Fmt_CompatibleKafkaConnectJson | Fmt_OggJson | Fmt_MaxwellJson | Fmt_Avro | Fmt_Protobuf | Fmt_Native

definition format_from_str :: "string \<Rightarrow> message_format option" where
  "format_from_str s =
     (let t = map to_lower s in
      if t = ''json'' then Some Fmt_Json else if t = ''text'' then Some Fmt_Text
      else if t \<in> {''canal_json'', ''canal-json''} then Some Fmt_CanalJson
      else if t \<in> {''canal_client_json'', ''canal-client-json'', ''canal_client'', ''canal-client''} then Some Fmt_CanalClientJson
      else if t \<in> {''debezium_json'', ''debezium-json''} then Some Fmt_DebeziumJson
      else if t \<in> {''compatible_debezium_json'', ''compatible-debezium-json''} then Some Fmt_CompatibleDebeziumJson
      else if t \<in> {''compatible_kafka_connect_json'', ''compatible-kafka-connect-json''} then Some Fmt_CompatibleKafkaConnectJson
      else if t \<in> {''ogg_json'', ''ogg-json''} then Some Fmt_OggJson
      else if t \<in> {''maxwell_json'', ''maxwell-json''} then Some Fmt_MaxwellJson
      else if t = ''avro'' then Some Fmt_Avro else if t = ''protobuf'' then Some Fmt_Protobuf
      else if t = ''native'' then Some Fmt_Native else None)"

fun format_name :: "message_format \<Rightarrow> string" where
  "format_name Fmt_Json = ''JSON''"
| "format_name Fmt_Text = ''TEXT''"
| "format_name Fmt_CanalJson = ''CANAL_JSON''"
| "format_name Fmt_CanalClientJson = ''CANAL_CLIENT_JSON''"
| "format_name Fmt_DebeziumJson = ''DEBEZIUM_JSON''"
| "format_name Fmt_CompatibleDebeziumJson = ''COMPATIBLE_DEBEZIUM_JSON''"
| "format_name Fmt_CompatibleKafkaConnectJson = ''COMPATIBLE_KAFKA_CONNECT_JSON''"
| "format_name Fmt_OggJson = ''OGG_JSON''"
| "format_name Fmt_MaxwellJson = ''MAXWELL_JSON''"
| "format_name Fmt_Avro = ''AVRO''"
| "format_name Fmt_Protobuf = ''PROTOBUF''"
| "format_name Fmt_Native = ''NATIVE''"

text \<open>What the formats take from outside: printing, JSON text, time zones; the clock and the request id of a message.\<close>

record format_env =
  fe_canal :: canal_env
  fe_bytes :: byte_texts

abbreviation fe_texts :: "format_env \<Rightarrow> texts" where
  "fe_texts env \<equiv> ce_texts (fe_canal env)"

abbreviation fe_codec :: "format_env \<Rightarrow> json_codec" where
  "fe_codec env \<equiv> ce_codec (fe_canal env)"

fun deserialize_all :: "format_env \<Rightarrow> message_format \<Rightarrow> octets \<Rightarrow> table_schema \<Rightarrow> decoded" where
  "deserialize_all env Fmt_Json = json_deserialize (fe_codec env)"
| "deserialize_all env Fmt_Text = text_deserialize (fe_bytes env)"
| "deserialize_all env Fmt_CanalJson = canal_deserialize (fe_codec env)"
| "deserialize_all env Fmt_CanalClientJson = canal_client_deserialize (fe_canal env)"
| "deserialize_all env Fmt_DebeziumJson = debezium_deserialize (fe_codec env)"
| "deserialize_all env Fmt_CompatibleDebeziumJson = compat_debezium_deserialize (fe_codec env)"
| "deserialize_all env Fmt_CompatibleKafkaConnectJson = kafka_connect_deserialize (fe_codec env)"
| "deserialize_all env Fmt_OggJson = ogg_deserialize (fe_codec env)"
| "deserialize_all env Fmt_MaxwellJson = maxwell_deserialize (fe_codec env)"
| "deserialize_all env Fmt_Avro = avro_deserialize (fe_bytes env)"
| "deserialize_all env Fmt_Protobuf = protobuf_deserialize (fe_bytes env)"
| "deserialize_all env Fmt_Native = native_deserialize (fe_codec env)"

definition deserialize :: "format_env \<Rightarrow> message_format \<Rightarrow> octets \<Rightarrow> table_schema \<Rightarrow> string + row" where
  "deserialize env fmt bs s =
     (case deserialize_all env fmt bs s of
        Inl e \<Rightarrow> Inl e
      | Inr rows \<Rightarrow> (case rows of [] \<Rightarrow> Inl ''Empty result from format deserializer'' | r # _ \<Rightarrow> Inr r))"

fun serialize :: "format_env \<Rightarrow> int \<Rightarrow> string \<Rightarrow> message_format \<Rightarrow> table_schema \<Rightarrow> row \<Rightarrow> octets" where
  "serialize env now uuid Fmt_Json = json_serialize (fe_texts env) (fe_codec env)"
| "serialize env now uuid Fmt_Text = text_serialize (fe_texts env)"
| "serialize env now uuid Fmt_CanalJson = canal_serialize (fe_texts env) (fe_codec env) now"
| "serialize env now uuid Fmt_CanalClientJson = canal_client_serialize (fe_canal env) uuid"
| "serialize env now uuid Fmt_DebeziumJson = debezium_serialize (fe_texts env) (fe_codec env) now"
| "serialize env now uuid Fmt_CompatibleDebeziumJson = compat_debezium_serialize (fe_texts env) (fe_codec env)"
| "serialize env now uuid Fmt_CompatibleKafkaConnectJson = kafka_connect_serialize (fe_texts env) (fe_codec env)"
| "serialize env now uuid Fmt_OggJson = ogg_serialize (fe_texts env) (fe_codec env)"
| "serialize env now uuid Fmt_MaxwellJson = maxwell_serialize (fe_texts env) (fe_codec env)"
| "serialize env now uuid Fmt_Avro = avro_serialize (fe_bytes env)"
| "serialize env now uuid Fmt_Protobuf = protobuf_serialize (fe_texts env)"
| "serialize env now uuid Fmt_Native = native_serialize (fe_texts env) (fe_codec env)"

definition value_to_row :: "json_codec \<Rightarrow> json \<Rightarrow> table_schema \<Rightarrow> row" where
  "value_to_row jc v s = row_from Insert s (\<lambda>n. case j_get n v of None \<Rightarrow> FNull | Some x \<Rightarrow> json_to_field jc x)"

section \<open>Names\<close>

text \<open>Every format is found again by the name it prints.\<close>

lemma format_names_parse: "format_from_str (format_name f) = Some f"
  by (cases f; hypsubst; code_simp)

section \<open>Round trips\<close>

text \<open>The single-message canal-client format keeps text that is neither a date nor a Java number.\<close>

definition client_field :: "canal_env \<Rightarrow> field \<Rightarrow> bool" where
  "client_field env f \<longleftrightarrow>
     simple_field f \<and> (case f of FString t \<Rightarrow> convert_string env Tz_Local t = JString t | _ \<Rightarrow> True)"

definition client_lossless :: "canal_env \<Rightarrow> string \<Rightarrow> table_schema \<Rightarrow> row \<Rightarrow> bool" where
  "client_lossless env uuid s r \<longleftrightarrow>
     json_codec_ok (ce_codec env) \<and> rust_str uuid \<and> row_kind r \<noteq> UpdateBefore \<and> shaped (client_field env) s r"

lemma client_field_roundtrip:
  "client_field env f \<Longrightarrow> json_wf (convert_field env Tz_Local f)"
  "client_field env f \<Longrightarrow> canal_client_field env (convert_field env Tz_Local f) = f"
proof -
  have b: "- (2 ^ 63) \<le> sint v \<and> sint v < 2 ^ 63" "sint v < 2 ^ 64" for v :: "64 word"
    using sint64_bounds [of v] by simp_all
  show "client_field env f \<Longrightarrow> json_wf (convert_field env Tz_Local f)"
    by (cases f) (use b in \<open>simp_all add: client_field_def\<close>)
  show "client_field env f \<Longrightarrow> canal_client_field env (convert_field env Tz_Local f) = f"
    by (cases f) (use b in \<open>simp_all add: client_field_def canal_client_field_def\<close>)
qed

lemma client_data:
  assumes "length (row_fields r) = length (ts_columns s)"
  shows "fold (\<lambda>(i, c). bt_insert (cd_name c) (conv (if i < field_count r then row_fields r ! i else FNull)))
           (enumerate 0 (ts_columns s)) [] = object_of conv s r"
proof -
  have "fold (\<lambda>(i, c). bt_insert (cd_name c) (conv (if i < field_count r then row_fields r ! i else FNull))) (enumerate n cs) out =
      fold (\<lambda>x. bt_insert (cd_name (fst x)) (conv (snd x))) (zip cs (drop n (row_fields r))) out"
    if "n + length cs = length (row_fields r)" for n cs out
    using that
  proof (induction cs arbitrary: n out)
    case (Cons c cs)
    then have "drop n (row_fields r) = row_fields r ! n # drop (Suc n) (row_fields r)" by (simp add: Cons_nth_drop_Suc)
    with Cons show ?case by (simp add: field_count_def)
  qed simp
  from this [of 0 "ts_columns s"] assms show ?thesis by (simp add: object_of_def)
qed

lemma rust_str_client_keys [simp]:
  "rust_str ''requestId''" "rust_str ''dbName''" "rust_str ''tableName''" "rust_str ''eventType''"
  by (simp_all add: rust_str_def extra_bytes_def)

interpretation canal_client_format:
  row_format "canal_client_serialize env uuid" "canal_client_deserialize env" "client_lossless env uuid" for env uuid
proof unfold_locales
  fix s r assume l: "client_lossless env uuid s r"
  then have sh: "shaped (client_field env) s r" "json_codec_ok (ce_codec env)" by (simp_all add: client_lossless_def)
  let ?conv = "convert_field env Tz_Local"
  let ?event = "case row_kind r of Insert \<Rightarrow> ''insert'' | Delete \<Rightarrow> ''delete'' | _ \<Rightarrow> ''update''"
  let ?es = "[(''requestId'', JString uuid), (''dbName'', JString []), (''tableName'', JString []),
      (''eventType'', JString ?event), (''data'', JObject (object_of ?conv s r))]"
  have "rust_str ?event" by (simp split: row_kind.split)
  moreover have "json_wf (JObject (object_of ?conv s r))" by (rule object_wf [OF sh(1) client_field_roundtrip(1)])
  ultimately obtain m where m: "parse_object (ce_codec env) (to_vec (ce_codec env) (obj ?es)) = Inr m" "map_of m = map_of ?es"
    using parse_envelope [OF sh(2), of ?es] l by (auto simp: client_lossless_def)
  then have v: "from_slice (ce_codec env) (to_vec (ce_codec env) (obj ?es)) = Some (JObject m)"
    by (auto simp: parse_object_def as_object_def split: option.splits json.splits)
  have rd: "row_from (row_kind r) s (field_at (canal_client_field env) (object_of ?conv s r)) = r"
    by (rule row_from_object [OF sh(1) client_field_roundtrip(2)])
  have "canal_client_serialize env uuid s r = to_vec (ce_codec env) (obj ?es)"
    using sh(1) client_data [of r s ?conv]
    by (simp add: canal_client_serialize_def shaped_def column_count_def split: row_kind.split)
  with v m(2) rd l show "canal_client_deserialize env (canal_client_serialize env uuid s r) s = Inr [r]"
    by (cases "row_kind r")
       (simp_all add: canal_client_deserialize_def j_get_def as_str_def Let_def client_lossless_def field_at_def [abs_def])
qed

fun lossless_row :: "format_env \<Rightarrow> int \<Rightarrow> string \<Rightarrow> message_format \<Rightarrow> table_schema \<Rightarrow> row \<Rightarrow> bool" where
  "lossless_row env now uuid Fmt_Json s r = json_lossless (fe_codec env) s r"
| "lossless_row env now uuid Fmt_Text s r = insert_row text_good s r"
| "lossless_row env now uuid Fmt_CanalJson s r = (i64_range now \<and> simple_lossless (fe_codec env) {Insert, Delete} s r)"
| "lossless_row env now uuid Fmt_CanalClientJson s r = client_lossless (fe_canal env) uuid s r"
| "lossless_row env now uuid Fmt_DebeziumJson s r = (i64_range now \<and> simple_lossless (fe_codec env) {Insert, Delete} s r)"
| "lossless_row env now uuid Fmt_OggJson s r = ogg_lossless (fe_codec env) s r"
| "lossless_row env now uuid Fmt_MaxwellJson s r = simple_lossless (fe_codec env) {Insert, Delete} s r"
| "lossless_row env now uuid Fmt_Avro s r = insert_row avro_good s r"
| "lossless_row env now uuid Fmt_Protobuf s r = proto_lossless (fe_texts env) s r"
| "lossless_row env now uuid _ s r = simple_lossless (fe_codec env) {Insert} s r"

interpretation format_registry: row_format "serialize env now uuid fmt" "deserialize_all env fmt" "lossless_row env now uuid fmt"
  for env now uuid fmt
  by (unfold_locales, cases fmt)
     (simp_all add: json_format.roundtrip text_format.roundtrip canal_format.roundtrip canal_client_format.roundtrip
      debezium_format.roundtrip compat_debezium_format.roundtrip kafka_connect_format.roundtrip ogg_format.roundtrip
      maxwell_format.roundtrip avro_format.roundtrip protobuf_format.roundtrip native_format.roundtrip)


section \<open>Updates and deletes\<close>

text \<open>What an envelope holds once it is read, whatever the kind of the row.\<close>

lemma canal_written:
  assumes "json_codec_ok jc" "shaped simple_field s r" "i64_range now"
  shows "\<exists>m. parse_object jc (canal_serialize tx jc now s r) = Inr m \<and>
    map_of m ''_type'' = Some (JString (case row_kind r of Delete \<Rightarrow> ''DELETE'' | UpdateBefore \<Rightarrow> ''UPDATE'' | UpdateAfter \<Rightarrow> ''UPDATE'' | Insert \<Rightarrow> ''INSERT'')) \<and>
    first_object ''data'' m = object_of (simple_to_json tx) s r \<and> first_object ''old'' m = []"
proof -
  let ?kind = "case row_kind r of Delete \<Rightarrow> ''DELETE'' | UpdateBefore \<Rightarrow> ''UPDATE'' | UpdateAfter \<Rightarrow> ''UPDATE'' | Insert \<Rightarrow> ''INSERT''"
  let ?es = "[(''_type'', JString ?kind), (''_ts'', JInt now), (''data'', JArray [JObject (object_of (simple_to_json tx) s r)])]"
  have "rust_str ?kind" by (simp split: row_kind.split)
  then obtain m where "parse_object jc (to_vec jc (obj ?es)) = Inr m" "map_of m = map_of ?es"
    using parse_envelope [OF assms(1), of ?es] shaped_object [OF assms(2)] assms(3) by (auto simp: i64_range_def)
  then show ?thesis by (simp add: canal_serialize_def first_object_def as_array_def as_object_def)
qed

lemma debezium_update_written:
  assumes "json_codec_ok jc" "shaped simple_field s r" "i64_range now" "row_kind r = UpdateAfter"
  shows "\<exists>m. parse_object jc (debezium_serialize tx jc now s r) = Inr m \<and> map_of m ''op'' = Some (JString ''u'') \<and>
    sub_object ''before'' m = object_of (simple_to_json tx) s r \<and> sub_object ''after'' m = object_of (simple_to_json tx) s r"
proof -
  let ?im = "JObject (object_of (simple_to_json tx) s r)"
  let ?es = "[(''after'', ?im), (''before'', ?im), (''op'', JString ''u''), (''source'', obj [(''ts_ms'', JInt now)]), (''ts_ms'', JInt now)]"
  have "json_wf (obj [(''ts_ms'', JInt now)])" using assms(3) by (intro obj_wf) (simp add: i64_range_def)
  then obtain m where "parse_object jc (to_vec jc (obj ?es)) = Inr m" "map_of m = map_of ?es"
    using parse_envelope [OF assms(1), of ?es] shaped_object [OF assms(2)] assms(3) by (auto simp: i64_range_def)
  then show ?thesis using assms(4) by (simp add: debezium_serialize_def Let_def sub_object_def as_object_def)
qed

lemma ogg_written:
  assumes "json_codec_ok jc" "shaped simple_field s r"
  shows "\<exists>m. parse_object jc (ogg_serialize tx jc s r) = Inr m \<and>
    map_of m ''OP_TYPE'' = Some (JString (case row_kind r of Delete \<Rightarrow> ''DELETE'' | UpdateBefore \<Rightarrow> ''MODIFY'' | UpdateAfter \<Rightarrow> ''MODIFY'' | Insert \<Rightarrow> ''INSERT'')) \<and>
    sub_array ''BEFORE_VALUE'' m = []"
proof -
  let ?kind = "case row_kind r of Delete \<Rightarrow> ''DELETE'' | UpdateBefore \<Rightarrow> ''MODIFY'' | UpdateAfter \<Rightarrow> ''MODIFY'' | Insert \<Rightarrow> ''INSERT''"
  let ?es = "[(''OP_TYPE'', JString ?kind), (''COLUMN_NAME'', JArray (map (\<lambda>c. JString (cd_name c)) (ts_columns s))),
    (''AFTER_VALUE'', JArray (map (\<lambda>i. if i < field_count r then simple_to_json tx (row_fields r ! i) else JNull) [0..<length (ts_columns s)]))]"
  have "rust_str ?kind" by (simp split: row_kind.split)
  moreover have "json_wf (if i < field_count r then simple_to_json tx (row_fields r ! i) else JNull)" for i
    using assms(2) simple_roundtrip(1) by (auto simp: shaped_def list_all_length field_count_def)
  moreover have "json_wf (JArray (map (\<lambda>c. JString (cd_name c)) (ts_columns s)))"
    using assms(2) by (auto simp: shaped_def list_all_iff field_names_def)
  ultimately obtain m where "parse_object jc (to_vec jc (obj ?es)) = Inr m" "map_of m = map_of ?es"
    using parse_envelope [OF assms(1), of ?es] by (auto simp: list_all_iff simp del: if_image_distrib)
  then show ?thesis by (simp add: ogg_serialize_def sub_array_def)
qed

text \<open>
  A written update row is read back with its values by the Debezium and Canal readers, but preceded by a before image
  nobody wrote: Debezium repeats the new values as the old ones, Canal gives a row of \<open>NULL\<close>s.
\<close>

theorem update_rows_read_back:
  assumes "json_codec_ok (fe_codec env)" "shaped simple_field s r" "i64_range now" "row_kind r = UpdateAfter"
  shows "deserialize_all env Fmt_DebeziumJson (serialize env now uuid Fmt_DebeziumJson s r) s =
      Inr [r\<lparr>row_kind := UpdateBefore\<rparr>, r] \<and>
    deserialize_all env Fmt_CanalJson (serialize env now uuid Fmt_CanalJson s r) s =
      Inr [row_new UpdateBefore (column_count s), r]"
proof -
  let ?jc = "fe_codec env" and ?im = "object_of (simple_to_json (fe_texts env)) s r"
  have kinds: "row_from k s (field_at (json_to_field ?jc) ?im) = r\<lparr>row_kind := k\<rparr>" for k
    using arg_cong [OF row_from_written(1) [OF assms(2) refl, of ?jc "fe_texts env"], of "row_kind_update (\<lambda>_. k)"]
    by (simp add: row_from_def)
  have get: "debezium_field ?jc ?im ?im b = field_at (json_to_field ?jc) ?im" for b
    by (auto simp: debezium_field_def field_at_def fun_eq_iff Let_def split: option.splits)
  have nulls: "row_from UpdateBefore s (field_at (json_to_field ?jc) []) = row_new UpdateBefore (column_count s)"
    by (auto simp: row_from_def row_new_def field_at_def column_count_def map_replicate_const)
  have same: "r\<lparr>row_kind := UpdateAfter\<rparr> = r" using assms(4) by simp
  show ?thesis
    using debezium_update_written [OF assms(1-4), of "fe_texts env"] canal_written [OF assms(1-3), of "fe_texts env"] assms(4)
    by (auto simp: debezium_deserialize_def canal_deserialize_def as_str_def Let_def get kinds nulls same)
qed

text \<open>
  The OGG reader does not understand what the OGG writer sends for changes: a deleted row comes back
  as a delete of \<open>NULL\<close>s, and an update comes back as an insert.
\<close>

theorem ogg_changes_misread:
  assumes "json_codec_ok (fe_codec env)" "shaped simple_field s r"
  shows "(if row_kind r = Delete
      then deserialize_all env Fmt_OggJson (serialize env now uuid Fmt_OggJson s r) s = Inr [row_new Delete (column_count s)]
      else \<exists>r'. deserialize_all env Fmt_OggJson (serialize env now uuid Fmt_OggJson s r) s = Inr [r'] \<and> row_kind r' = Insert)"
proof -
  have nulls: "row_from Delete s (ogg_field jc cols []) = row_new Delete (column_count s)" for jc cols
  proof -
    have "ogg_field jc cols [] = (\<lambda>n. FNull)" by (auto simp: ogg_field_def split: option.split)
    then show ?thesis by (simp add: row_from_def row_new_def column_count_def map_replicate_const)
  qed
  show ?thesis
    using ogg_written [OF assms, of "fe_texts env"]
    by (cases "row_kind r") (auto simp: ogg_deserialize_def as_str_def Let_def to_upper_def nulls, auto simp: row_from_def)
qed

section \<open>Examples\<close>

definition plain_formats :: format_env where
  "plain_formats = \<lparr>fe_canal = plain_canal, fe_bytes = \<lparr>bt_lossy = of_utf8, bt_debug = (\<lambda>f. []), bt_float = (\<lambda>t. None)\<rparr>\<rparr>"

lemma plain_codec_ok: "json_codec_ok (fe_codec plain_formats)"
  by (simp add: json_codec_ok_def plain_formats_def plain_canal_def plain_codec_def sample_json_roundtrip)

definition plain_row :: "row_kind \<Rightarrow> string \<Rightarrow> row" where
  "plain_row k v = \<lparr>row_kind = k, row_fields = [FInt64 7, FString v], row_origin = None\<rparr>"

lemma plain_row_shaped:
  "shaped simple_field demo_schema (plain_row k ''x'')" "row_kind (plain_row k v) = k" "rust_str (ts_table demo_schema)"
  "column_count demo_schema = 2"
  by (simp_all add: shaped_def demo_schema_def table_schema_new_def column_def_new_def field_names_def column_count_def
      plain_row_def rust_str_def extra_bytes_def)


theorem update_rows_read_back_witness:
  "deserialize_all plain_formats Fmt_CanalJson (serialize plain_formats 0 ''u'' Fmt_CanalJson demo_schema (plain_row UpdateAfter ''x'')) demo_schema =
   Inr [row_new UpdateBefore 2, plain_row UpdateAfter ''x'']"
  using update_rows_read_back [OF plain_codec_ok plain_row_shaped(1), of 0 UpdateAfter "''u''"]
  by (simp add: plain_row_shaped i64_range_def)

theorem ogg_changes_misread_witness:
  "deserialize_all plain_formats Fmt_OggJson (serialize plain_formats 0 ''u'' Fmt_OggJson demo_schema (plain_row Delete ''x'')) demo_schema =
   Inr [row_new Delete 2]"
  using ogg_changes_misread [OF plain_codec_ok plain_row_shaped(1), of Delete 0 "''u''"]
  by (simp add: plain_row_shaped)

end
