(* ===== verification/Sql_Dialects.thy ===== *)
theory Sql_Dialects
  imports Rows
begin

text \<open>
  SQL text: the database dialects of the API (\<open>seatunnel-api/src/schema/dialect.rs\<close>), and the statements and
  connection URLs of the JDBC connector (\<open>dialect.rs\<close>, \<open>url.rs\<close>). TiDB speaks the MySQL dialect.
\<close>

section \<open>Dialects\<close>

datatype jdbc_dialect = MySql | Postgres | TiDB

definition backtick :: char where
  "backtick = CHR 0x60"

definition double_quote :: char where
  "double_quote = CHR 0x22"

fun quote_char :: "jdbc_dialect \<Rightarrow> char" where
  "quote_char Postgres = double_quote"
| "quote_char _ = backtick"

definition quote_identifier :: "jdbc_dialect \<Rightarrow> string \<Rightarrow> string" where
  "quote_identifier d name = quote_char d # name @ [quote_char d]"

definition quote_dotted :: "jdbc_dialect \<Rightarrow> string \<Rightarrow> string" where
  "quote_dotted d table = join_with ''.'' (map (quote_identifier d) (split_on (CHR ''.'') table))"

definition clamp_nat :: "nat \<Rightarrow> nat \<Rightarrow> nat \<Rightarrow> nat" where
  "clamp_nat lo hi n = max lo (min hi n)"

definition clamp_int :: "int \<Rightarrow> int \<Rightarrow> int \<Rightarrow> int" where
  "clamp_int lo hi n = max lo (min hi n)"

definition decimal_type :: "8 word \<Rightarrow> 8 word \<Rightarrow> column_type" where
  "decimal_type precision scale =
     TDecimal (word_of_nat (clamp_nat 1 65 (unat precision))) (word_of_int (clamp_int 0 30 (sint scale)))"

definition decimal_text :: "string \<Rightarrow> nat \<Rightarrow> int \<Rightarrow> string" where
  "decimal_text name p s = name @ ''('' @ show_nat p @ '','' @ show_int s @ '')''"

fun mysql_type :: "bool \<Rightarrow> column_type \<Rightarrow> string" where
  "mysql_type pk TBool = ''TINYINT(1)''"
| "mysql_type pk TInt8 = ''TINYINT''"
| "mysql_type pk TInt16 = ''SMALLINT''"
| "mysql_type pk TInt32 = ''INT''"
| "mysql_type pk TInt64 = ''BIGINT''"
| "mysql_type pk TUInt8 = ''TINYINT UNSIGNED''"
| "mysql_type pk TUInt16 = ''SMALLINT UNSIGNED''"
| "mysql_type pk TUInt32 = ''INT UNSIGNED''"
| "mysql_type pk TUInt64 = ''BIGINT UNSIGNED''"
| "mysql_type pk TFloat32 = ''FLOAT''"
| "mysql_type pk TFloat64 = ''DOUBLE''"
| "mysql_type pk (TDecimal p s) = decimal_text ''DECIMAL'' (clamp_nat 1 65 (unat p)) (clamp_int 0 30 (sint s))"
| "mysql_type pk TString = (if pk then ''VARCHAR(255)'' else ''TEXT'')"
| "mysql_type pk TBytes = ''BLOB''"
| "mysql_type pk TJson = ''JSON''"
| "mysql_type pk TDate = ''DATE''"
| "mysql_type pk TTime = ''TIME''"
| "mysql_type pk TDateTime = ''DATETIME''"
| "mysql_type pk TTimestampTz = ''TIMESTAMP''"
| "mysql_type pk TDuration = ''BIGINT''"
| "mysql_type pk (TArray _) = ''JSON''"
| "mysql_type pk (TMap _ _) = ''JSON''"
| "mysql_type pk (TNullable inner) = mysql_type pk inner"

fun postgres_type :: "column_type \<Rightarrow> string" where
  "postgres_type TBool = ''BOOLEAN''"
| "postgres_type TInt8 = ''SMALLINT''"
| "postgres_type TInt16 = ''SMALLINT''"
| "postgres_type TInt32 = ''INTEGER''"
| "postgres_type TInt64 = ''BIGINT''"
| "postgres_type TUInt8 = ''NUMERIC(20,0)''"
| "postgres_type TUInt16 = ''NUMERIC(20,0)''"
| "postgres_type TUInt32 = ''NUMERIC(20,0)''"
| "postgres_type TUInt64 = ''NUMERIC(20,0)''"
| "postgres_type TFloat32 = ''REAL''"
| "postgres_type TFloat64 = ''DOUBLE PRECISION''"
| "postgres_type (TDecimal p s) = decimal_text ''NUMERIC'' (clamp_nat 1 255 (unat p)) (clamp_int 0 127 (sint s))"
| "postgres_type TString = ''TEXT''"
| "postgres_type TBytes = ''BYTEA''"
| "postgres_type TJson = ''JSONB''"
| "postgres_type TDate = ''DATE''"
| "postgres_type TTime = ''TIME''"
| "postgres_type TDateTime = ''TIMESTAMP''"
| "postgres_type TTimestampTz = ''TIMESTAMPTZ''"
| "postgres_type TDuration = ''BIGINT''"
| "postgres_type (TArray t) = postgres_type t @ ''[]''"
| "postgres_type (TMap _ _) = ''JSONB''"
| "postgres_type (TNullable inner) = postgres_type inner"

fun sql_type_for :: "jdbc_dialect \<Rightarrow> column_def \<Rightarrow> string" where
  "sql_type_for Postgres c = postgres_type (cd_type c)"
| "sql_type_for _ c = mysql_type (cd_primary_key c) (cd_type c)"

definition mysql_map_type :: "string \<Rightarrow> nat option \<Rightarrow> 8 word option \<Rightarrow> column_type" where
  "mysql_map_type db_type len scale =
     (let dt = map to_lower db_type in
      if dt \<in> {''bool'', ''boolean''} then TBool
      else if dt = ''tinyint'' then (if len = Some 1 then TBool else TInt8)
      else if dt \<in> {''smallint'', ''smallint unsigned''} then TInt16
      else if dt \<in> {''mediumint'', ''mediumint unsigned'', ''int'', ''integer'', ''year''} then TInt32
      else if dt \<in> {''bigint'', ''bigint unsigned''} then TInt64
      else if dt = ''float'' then TFloat32
      else if dt \<in> {''double'', ''double precision''} then TFloat64
      else if dt \<in> {''decimal'', ''numeric''} then decimal_type (word_of_nat (min 255 (unwrap_or 10 len))) (unwrap_or 0 scale)
      else if dt \<in> {''char'', ''varchar'', ''tinytext'', ''text'', ''mediumtext'', ''longtext'', ''json'', ''enum'', ''set'',
        ''cidr'', ''inet'', ''macaddr'', ''uuid''} then TString
      else if dt \<in> {''binary'', ''varbinary'', ''tinyblob'', ''blob'', ''mediumblob'', ''longblob'', ''bit'', ''geometry'',
        ''point'', ''linestring'', ''polygon'', ''multipoint'', ''multilinestring'', ''multipolygon'', ''geomcollection''} then TBytes
      else if dt = ''date'' then TDate else if dt = ''time'' then TTime
      else if dt = ''datetime'' then TDateTime else if dt = ''timestamp'' then TTimestampTz
      else TString)"

text \<open>The names \<open>_t\<close> are arrays of \<open>t\<close>.\<close>

function postgres_map_type :: "string \<Rightarrow> nat option \<Rightarrow> 8 word option \<Rightarrow> column_type" where
  "postgres_map_type dt len scale =
     (if dt \<in> {''bool'', ''boolean''} then TBool
      else if dt \<in> {''smallint'', ''smallserial'', ''int2''} then TInt16
      else if dt \<in> {''integer'', ''serial'', ''int4''} then TInt32
      else if dt \<in> {''bigint'', ''bigserial'', ''int8''} then TInt64
      else if dt \<in> {''real'', ''float4''} then TFloat32
      else if dt \<in> {''double precision'', ''float8''} then TFloat64
      else if dt \<in> {''numeric'', ''decimal''} then decimal_type (word_of_nat (unwrap_or 10 len)) (unwrap_or 0 scale)
      else if dt = ''money'' then TDecimal 30 2
      else if dt \<in> {''character'', ''character varying'', ''text'', ''uuid'', ''json'', ''jsonb'', ''xml'', ''inet'', ''cidr'',
        ''macaddr'', ''interval'', ''name'', ''regtype''} then TString
      else if dt = ''bytea'' then TBytes
      else if dt = ''date'' then TDate else if dt \<in> {''time'', ''timetz''} then TTime
      else if dt = ''timestamp'' then TDateTime else if dt = ''timestamptz'' then TTimestampTz
      else if dt \<noteq> [] \<and> hd dt = CHR ''_'' then TArray (postgres_map_type (tl dt) len scale)
      else if dt \<in> {''geometry'', ''geography''} then TBytes else TString)"
  by auto
termination
  by (relation "measure (\<lambda>(dt, _). length dt)") (auto simp: length_greater_0_conv)

declare postgres_map_type.simps [simp del]

definition column_sql :: "jdbc_dialect \<Rightarrow> column_def \<Rightarrow> string" where
  "column_sql d c =
     quote_identifier d (cd_name c) @ '' '' @ sql_type_for d c @ (if cd_nullable c then [] else '' NOT NULL'')"

definition keyed_column :: "table_schema \<Rightarrow> column_def \<Rightarrow> column_def" where
  "keyed_column s c =
     (let pk = (cd_primary_key c \<or> cd_name c \<in> set (ts_primary_key s)) in
      c\<lparr>cd_primary_key := pk, cd_nullable := cd_nullable c \<and> \<not> pk\<rparr>)"

definition build_create_table :: "jdbc_dialect \<Rightarrow> table_schema \<Rightarrow> string" where
  "build_create_table d s =
     ''CREATE TABLE '' @ quote_dotted d (ts_table s) @ '' ('' @
     join_with '', '' (map (\<lambda>c. column_sql d (keyed_column s c)) (ts_columns s)) @
     (if ts_primary_key s = [] then []
      else '', PRIMARY KEY ('' @ join_with '', '' (map (quote_identifier d) (ts_primary_key s)) @ '')'') @ '')''"

definition alter :: "jdbc_dialect \<Rightarrow> string \<Rightarrow> string" where
  "alter d table = ''ALTER TABLE '' @ quote_dotted d table"

definition build_add_column :: "jdbc_dialect \<Rightarrow> string \<Rightarrow> column_def \<Rightarrow> string list" where
  "build_add_column d table c = [alter d table @ '' ADD COLUMN '' @ column_sql d c]"

definition build_drop_column :: "jdbc_dialect \<Rightarrow> string \<Rightarrow> string \<Rightarrow> string list" where
  "build_drop_column d table name = [alter d table @ '' DROP COLUMN '' @ quote_identifier d name]"

definition build_rename_column :: "jdbc_dialect \<Rightarrow> string \<Rightarrow> string \<Rightarrow> string \<Rightarrow> string list" where
  "build_rename_column d table old new =
     [alter d table @ '' RENAME COLUMN '' @ quote_identifier d old @ '' TO '' @ quote_identifier d new]"

fun build_modify_column :: "jdbc_dialect \<Rightarrow> string \<Rightarrow> column_def \<Rightarrow> string list" where
  "build_modify_column Postgres table c =
     [alter Postgres table @ '' ALTER COLUMN '' @ quote_identifier Postgres (cd_name c) @ '' TYPE '' @ sql_type_for Postgres c,
      alter Postgres table @ '' ALTER COLUMN '' @ quote_identifier Postgres (cd_name c) @
        (if cd_nullable c then '' DROP NOT NULL'' else '' SET NOT NULL'')]"
| "build_modify_column d table c = [alter d table @ '' MODIFY COLUMN '' @ column_sql d c]"

section \<open>Statements of the JDBC connector\<close>

fun pg_cast :: "column_type \<Rightarrow> string option" where
  "pg_cast TBool = None"
| "pg_cast TString = None"
| "pg_cast TBytes = None"
| "pg_cast TInt8 = Some ''smallint''"
| "pg_cast TInt16 = Some ''smallint''"
| "pg_cast TInt32 = Some ''int''"
| "pg_cast TInt64 = Some ''bigint''"
| "pg_cast TUInt8 = Some ''numeric''"
| "pg_cast TUInt16 = Some ''numeric''"
| "pg_cast TUInt32 = Some ''numeric''"
| "pg_cast TUInt64 = Some ''numeric''"
| "pg_cast TFloat32 = Some ''real''"
| "pg_cast TFloat64 = Some ''double precision''"
| "pg_cast (TDecimal _ _) = Some ''numeric''"
| "pg_cast TJson = Some ''jsonb''"
| "pg_cast TDate = Some ''date''"
| "pg_cast TTime = Some ''time''"
| "pg_cast TDateTime = Some ''timestamp''"
| "pg_cast TTimestampTz = Some ''timestamptz''"
| "pg_cast TDuration = Some ''bigint''"
| "pg_cast (TArray _) = Some ''jsonb''"
| "pg_cast (TMap _ _) = Some ''jsonb''"
| "pg_cast (TNullable inner) = pg_cast inner"

fun placeholder :: "jdbc_dialect \<Rightarrow> nat \<Rightarrow> column_type \<Rightarrow> string" where
  "placeholder Postgres ordinal t =
     (case pg_cast t of
        None \<Rightarrow> CHR ''$'' # show_nat ordinal
      | Some cast \<Rightarrow> CHR ''$'' # show_nat ordinal @ ''::'' @ cast)"
| "placeholder _ ordinal t = ''?''"

definition row_placeholders :: "jdbc_dialect \<Rightarrow> column_type list \<Rightarrow> string" where
  "row_placeholders d types =
     ''('' @ join_with '', '' (map (\<lambda>(i, t). placeholder d (i + 1) t) (enumerate 0 types)) @ '')''"

definition build_insert :: "jdbc_dialect \<Rightarrow> string \<Rightarrow> string list \<Rightarrow> column_type list \<Rightarrow> nat \<Rightarrow> string" where
  "build_insert d table columns types row_count =
     ''INSERT INTO '' @ quote_dotted d table @ '' ('' @ join_with '', '' (map (quote_identifier d) columns) @ '') VALUES '' @
     join_with '', '' (replicate row_count (row_placeholders d types))"

fun build_upsert :: "jdbc_dialect \<Rightarrow> string \<Rightarrow> string list \<Rightarrow> column_type list \<Rightarrow> string list \<Rightarrow> nat \<Rightarrow> string" where
  "build_upsert Postgres table columns types keys row_count =
     (let q = quote_identifier Postgres;
          updates = map (\<lambda>c. q c @ '' = EXCLUDED.'' @ q c) (filter (\<lambda>c. c \<notin> set keys) columns) in
      build_insert Postgres table columns types row_count @ '' ON CONFLICT ('' @ join_with '', '' (map q keys) @
      '') DO UPDATE SET '' @ (if updates = [] then ''NOTHING'' else join_with '', '' updates))"
| "build_upsert d table columns types keys row_count =
     (let q = quote_identifier d;
          updates = map (\<lambda>c. q c @ '' = VALUES('' @ q c @ '')'') (filter (\<lambda>c. c \<notin> set keys) columns) in
      build_insert d table columns types row_count @
      (if updates = [] then [] else '' ON DUPLICATE KEY UPDATE '' @ join_with '', '' updates))"

definition build_delete_by_pk :: "jdbc_dialect \<Rightarrow> string \<Rightarrow> string list \<Rightarrow> column_type list \<Rightarrow> string" where
  "build_delete_by_pk d table keys types =
     ''DELETE FROM '' @ quote_dotted d table @ '' WHERE '' @
     join_with '' AND ''
       (map (\<lambda>(i, k, t). quote_identifier d k @ '' = '' @ placeholder d (i + 1) t) (enumerate 0 (zip keys types)))"

definition build_schema_change :: "jdbc_dialect \<Rightarrow> string \<Rightarrow> schema_change \<Rightarrow> string list" where
  "build_schema_change d table ch =
     (case ch of
        AddColumn c _ \<Rightarrow> build_add_column d table c
      | DropColumn n _ \<Rightarrow> build_drop_column d table n
      | RenameColumn old new _ \<Rightarrow> build_rename_column d table old new
      | ModifyColumn c _ \<Rightarrow> build_modify_column d table c)"

section \<open>URLs\<close>

record jdbc_url =
  ju_dialect :: jdbc_dialect
  ju_host :: string
  ju_port :: nat
  ju_database :: string

fun default_port :: "jdbc_dialect \<Rightarrow> nat" where
  "default_port Postgres = 5432"
| "default_port _ = 3306"

definition detect_dialect :: "string \<Rightarrow> jdbc_dialect" where
  "detect_dialect url = (if split_once ''postgres'' (map to_lower url) \<noteq> None then Postgres else MySql)"

definition trim_start_char :: "char \<Rightarrow> string \<Rightarrow> string" where
  "trim_start_char c s = dropWhile (\<lambda>x. x = c) s"

definition trim_end_char :: "char \<Rightarrow> string \<Rightarrow> string" where
  "trim_end_char c s = rev (dropWhile (\<lambda>x. x = c) (rev s))"

definition parse_u16 :: "string \<Rightarrow> nat option" where
  "parse_u16 s = (case parse_u64 s of Some n \<Rightarrow> if n < 2 ^ 16 then Some n else None | None \<Rightarrow> None)"

definition parse_jdbc_url :: "string \<Rightarrow> string + jdbc_url" where
  "parse_jdbc_url url =
     (let d = detect_dialect url;
          body = (case split_once ''://'' (unwrap_or url (strip_prefix ''jdbc:'' url)) of Some (_, rest) \<Rightarrow> rest | None \<Rightarrow> url);
          (authority, rest) = unwrap_or (body, []) (split_once ''/'' body);
          (host, port) = (case rsplit_once '':'' authority of
             Some (h, p) \<Rightarrow> (trim_end_char (CHR '']'') (trim_start_char (CHR ''['') h), unwrap_or (default_port d) (parse_u16 p))
           | None \<Rightarrow> (authority, default_port d)) in
      if host = [] then Inl (''invalid JDBC url (no host): '' @ url)
      else Inr \<lparr>ju_dialect = d, ju_host = host, ju_port = port, ju_database = hd (split_on (CHR ''?'') rest)\<rparr>)"

definition split_table_name :: "string \<Rightarrow> string option \<times> string" where
  "split_table_name table = (case split_once ''.'' table of Some (ns, t) \<Rightarrow> (Some ns, t) | None \<Rightarrow> (None, table))"

section \<open>Properties\<close>

text \<open>What the parts of a URL may not contain for it to be read back.\<close>

definition url_part :: "string \<Rightarrow> bool" where
  "url_part t \<longleftrightarrow> list_all (\<lambda>c. c \<notin> {CHR '':'', CHR ''/'', CHR ''?'', CHR ''['', CHR '']''}) t"

lemma split_once_char:
  "list_all (\<lambda>x. x \<noteq> c) a \<Longrightarrow> split_once [c] (a @ c # b) = Some (a, b)"
  by (induction a) (auto simp: strip_prefix_def)

lemma rsplit_once_none: "list_all (\<lambda>x. x \<noteq> c) a \<Longrightarrow> rsplit_once [c] a = None"
  by (induction a) (auto simp: strip_prefix_def)

lemma rsplit_once_char:
  "list_all (\<lambda>x. x \<noteq> c) b \<Longrightarrow> rsplit_once [c] (a @ c # b) = Some (a, b)"
  by (induction a) (auto simp: strip_prefix_def rsplit_once_none)

lemma trim_chars_id:
  "c \<notin> set s \<Longrightarrow> trim_start_char c s = s" "c \<notin> set s \<Longrightarrow> trim_end_char c s = s"
proof -
  show "c \<notin> set s \<Longrightarrow> trim_start_char c s = s" by (cases s) (auto simp: trim_start_char_def)
  show "c \<notin> set s \<Longrightarrow> trim_end_char c s = s" by (cases s rule: rev_cases) (auto simp: trim_end_char_def)
qed

lemma show_nat_url_part: "url_part (show_nat n)"
  by (auto simp: url_part_def list_all_iff is_digit_def dest!: show_nat_digits)

lemma parse_jdbc_url_parts:
  assumes "strip_prefix ''jdbc:'' url = Some u" "split_once ''://'' u = Some (x, body)" "split_once ''/'' body = Some (auth, rest)"
    and "rsplit_once '':'' auth = Some (h, p)" "trim_end_char (CHR '']'') (trim_start_char (CHR ''['') h) = host" "host \<noteq> []"
    and "parse_u16 p = Some port"
  shows "parse_jdbc_url url =
    Inr \<lparr>ju_dialect = detect_dialect url, ju_host = host, ju_port = port, ju_database = hd (split_on (CHR ''?'') rest)\<rparr>"
  by (simp add: parse_jdbc_url_def Let_def assms)

text \<open>
  A JDBC URL is read back into the host, port and database it was made of, whatever parameters follow.
\<close>

theorem jdbc_url_roundtrip:
  assumes "url_part host" "host \<noteq> []" "port < 2 ^ 16" "list_all (\<lambda>c. c \<noteq> CHR ''?'') db"
  shows "parse_jdbc_url (''jdbc:mysql://'' @ host @ '':'' @ show_nat port @ ''/'' @ db @ ''?'' @ params) =
    Inr \<lparr>ju_dialect = detect_dialect (''jdbc:mysql://'' @ host @ '':'' @ show_nat port @ ''/'' @ db @ ''?'' @ params),
      ju_host = host, ju_port = port, ju_database = db\<rparr>"
proof -
  let ?auth = "host @ CHR '':'' # show_nat port" and ?rest = "db @ CHR ''?'' # params"
  let ?url = "''jdbc:mysql://'' @ host @ '':'' @ show_nat port @ ''/'' @ db @ ''?'' @ params"
  have jdbc: "strip_prefix ''jdbc:'' ?url = Some (''mysql://'' @ ?auth @ CHR ''/'' # ?rest)"
    by (simp add: strip_prefix_def)
  have scheme: "split_once ''://'' (''mysql://'' @ ?auth @ CHR ''/'' # ?rest) = Some (''mysql'', ?auth @ CHR ''/'' # ?rest)"
    by (simp add: strip_prefix_def)
  have auth: "split_once ''/'' (?auth @ CHR ''/'' # ?rest) = Some (?auth, ?rest)"
    using assms(1) show_nat_url_part [of port] by (intro split_once_char) (auto simp: url_part_def list_all_iff)
  have port: "rsplit_once '':'' ?auth = Some (host, show_nat port)"
    using show_nat_url_part [of port] by (intro rsplit_once_char) (auto simp: url_part_def list_all_iff)
  have host: "trim_end_char (CHR '']'') (trim_start_char (CHR ''['') host) = host"
  proof -
    have "CHR ''['' \<notin> set host" "CHR '']'' \<notin> set host" using assms(1) by (auto simp: url_part_def list_all_iff)
    then show ?thesis by (simp add: trim_chars_id)
  qed
  have "parse_u16 (show_nat port) = Some port" using assms(3) by (simp add: parse_u16_def u64_max_def)
  moreover have "hd (split_on (CHR ''?'') ?rest) = db" using split_on_cons [OF assms(4), of params] by simp
  ultimately show ?thesis
    using parse_jdbc_url_parts [OF jdbc scheme auth port host assms(2), of port] by (simp only:)
qed

theorem jdbc_url_roundtrip_witness:
  "parse_jdbc_url ''jdbc:mysql://db1:3307/shop?useSSL=false'' =
   Inr \<lparr>ju_dialect = MySql, ju_host = ''db1'', ju_port = 3307, ju_database = ''shop''\<rparr>"
proof -
  have p: "show_nat 3307 = ''3307''" by code_simp
  have "detect_dialect (''jdbc:mysql://'' @ ''db1'' @ '':'' @ show_nat 3307 @ ''/'' @ ''shop'' @ ''?'' @ ''useSSL=false'') = MySql"
    unfolding p by code_simp
  with jdbc_url_roundtrip [of "''db1''" 3307 "''shop''" "''useSSL=false''"] p show ?thesis by (simp add: url_part_def)
qed

text \<open>A Postgres statement for several rows names the parameters of the first row only.\<close>

lemma postgres_batch_repeats_parameters:
  "build_insert Postgres ''t'' [''a''] [TInt64] 2 =
   ''INSERT INTO '' @ quote_dotted Postgres ''t'' @ '' ('' @ quote_identifier Postgres ''a'' @ '') VALUES ($1::bigint), ($1::bigint)''"
  by code_simp

text \<open>Quoting does not escape: a column name can end its own quotation.\<close>

lemma quoting_not_confined:
  "build_drop_column MySql ''t'' (''a'' @ [backtick] @ '', DROP COLUMN '' @ [backtick] @ ''b'') =
   [alter MySql ''t'' @ '' DROP COLUMN '' @ quote_identifier MySql ''a'' @ '', DROP COLUMN '' @ quote_identifier MySql ''b'']"
  by (simp add: build_drop_column_def quote_identifier_def)

text \<open>
  The types that survive a created MySQL table, and the unsigned ones that do not: their names are read
  back as signed types of the same width, or as text.
\<close>

lemma mysql_types_stable:
  "mysql_map_type (mysql_type False TInt8) None None = TInt8" "mysql_map_type (mysql_type False TInt64) None None = TInt64"
  "mysql_map_type (mysql_type False TFloat64) None None = TFloat64" "mysql_map_type (mysql_type False TString) None None = TString"
  "mysql_map_type (mysql_type False TDateTime) None None = TDateTime"
  by code_simp+

lemma mysql_unsigned_types_lost:
  "mysql_map_type (mysql_type False TUInt8) None None = TString" "mysql_map_type (mysql_type False TUInt16) None None = TInt16"
  "mysql_map_type (mysql_type False TUInt32) None None = TString" "mysql_map_type (mysql_type False TUInt64) None None = TInt64"
  by code_simp+

text \<open>A precision above 255 wraps in the Postgres mapping.\<close>

lemma postgres_precision_wraps: "postgres_map_type ''numeric'' (Some 256) None = TDecimal 1 0"
  by (subst postgres_map_type.simps) (simp add: decimal_type_def clamp_nat_def clamp_int_def)

end
