(* ===== verification/Xa_Sink.thy ===== *)
theory Xa_Sink
  imports Sql_Dialects Binary_Formats
begin

text \<open>
  The exactly-once sink of the JDBC connector (\<open>xa_sink.rs\<close>, with the values of \<open>value.rs\<close>): one XA transaction per
  checkpoint window, prepared at the barrier, committed once the checkpoint is durable, and settled by the
  next writer after a crash. The database server is a parameter, with the documented behaviour of XA
  statements as its law; windows are \<open>u64\<close>, and an overflow is a panic. Names of pipelines are ASCII.
\<close>

section \<open>Values\<close>

datatype sql_value =
    SqlNull | SqlBool bool | SqlInt "64 word" | SqlUInt "64 word" | SqlFloat "64 word" | SqlStr string
  | SqlBytes "8 word list" | SqlDate int | SqlTime int | SqlDateTime int | SqlTimestampTz int

text \<open>Printing of decimals, JSON and nested fields, and the widening of floats.\<close>

record sql_texts =
  sx_texts :: texts
  sx_list :: "field list \<Rightarrow> string"
  sx_widen :: "32 word \<Rightarrow> 64 word"

fun field_to_sql_value :: "sql_texts \<Rightarrow> field \<Rightarrow> sql_value" where
  "field_to_sql_value sx FNull = SqlNull"
| "field_to_sql_value sx (FBool b) = SqlBool b"
| "field_to_sql_value sx (FInt8 v) = SqlInt (scast v)"
| "field_to_sql_value sx (FInt16 v) = SqlInt (scast v)"
| "field_to_sql_value sx (FInt32 v) = SqlInt (scast v)"
| "field_to_sql_value sx (FInt64 v) = SqlInt v"
| "field_to_sql_value sx (FUInt8 v) = SqlUInt (ucast v)"
| "field_to_sql_value sx (FUInt16 v) = SqlUInt (ucast v)"
| "field_to_sql_value sx (FUInt32 v) = SqlUInt (ucast v)"
| "field_to_sql_value sx (FUInt64 v) = SqlUInt v"
| "field_to_sql_value sx (FFloat32 v) = SqlFloat (sx_widen sx v)"
| "field_to_sql_value sx (FFloat64 v) = SqlFloat v"
| "field_to_sql_value sx (FDecimal m e) = SqlStr (tx_decimal (sx_texts sx) m e)"
| "field_to_sql_value sx (FString s) = SqlStr s"
| "field_to_sql_value sx (FBytes b) = SqlBytes b"
| "field_to_sql_value sx (FJson j) = SqlStr (tx_json (sx_texts sx) j)"
| "field_to_sql_value sx (FDate d) = SqlDate d"
| "field_to_sql_value sx (FTime t) = SqlTime t"
| "field_to_sql_value sx (FDateTime t) = SqlDateTime t"
| "field_to_sql_value sx (FTimestampTz t) = SqlTimestampTz t"
| "field_to_sql_value sx (FDuration v) = SqlInt v"
| "field_to_sql_value sx (FArray fs) = SqlStr (sx_list sx fs)"
| "field_to_sql_value sx (FRow fs) = SqlStr (sx_list sx fs)"

section \<open>The server\<close>

datatype xa_stmt =
    XA_Start string | XA_End string | XA_Prepare string | XA_Commit string | XA_Rollback string
  | Exec string "sql_value list"

text \<open>
  Executing a statement, the cells of \<open>XA RECOVER\<close> (length and data), the schema of a table where it exists, connecting, killing the
  sessions that hold transactions on a database, and the end of the writer's session. The view is what the
  documentation of the server speaks about: the transaction of the writer's session, the prepared
  transactions and the committed ones, each with the statements it ran.
\<close>

record xa_view =
  vw_active :: "(string \<times> xa_stmt list) option"
  vw_prepared :: "(string \<times> xa_stmt list) list"
  vw_committed :: "(string \<times> xa_stmt list) list"

record 's xa_server =
  sv_exec :: "xa_stmt \<Rightarrow> 's \<Rightarrow> (string + unit) \<times> 's"
  sv_recover :: "'s \<Rightarrow> string + (nat \<times> string) list"
  sv_schema :: "string \<Rightarrow> 's \<Rightarrow> string + table_schema option"
  sv_connect :: "'s \<Rightarrow> string + unit"
  sv_kill :: "string \<Rightarrow> 's \<Rightarrow> 's"
  sv_drop :: "'s \<Rightarrow> 's"
  sv_view :: "'s \<Rightarrow> xa_view"

definition xa_effect :: "xa_stmt \<Rightarrow> xa_view \<Rightarrow> xa_view option" where
  "xa_effect st v =
     (case st of
        XA_Start x \<Rightarrow> if vw_active v = None \<and> x \<notin> fst ` set (vw_prepared v) then Some (v\<lparr>vw_active := Some (x, [])\<rparr>) else None
      | Exec sql ps \<Rightarrow> map_option (\<lambda>(x, ws). v\<lparr>vw_active := Some (x, ws @ [st])\<rparr>) (vw_active v)
      | XA_End x \<Rightarrow> (case vw_active v of Some (y, _) \<Rightarrow> if y = x then Some v else None | None \<Rightarrow> None)
      | XA_Prepare x \<Rightarrow>
          (case vw_active v of
             Some (y, ws) \<Rightarrow> if y = x then Some (v\<lparr>vw_active := None, vw_prepared := vw_prepared v @ [(x, ws)]\<rparr>) else None
           | None \<Rightarrow> None)
      | XA_Commit x \<Rightarrow>
          map_option (\<lambda>ws. v\<lparr>vw_prepared := filter (\<lambda>p. fst p \<noteq> x) (vw_prepared v), vw_committed := vw_committed v @ [(x, ws)]\<rparr>)
            (map_of (vw_prepared v) x)
      | XA_Rollback x \<Rightarrow>
          map_option (\<lambda>ws. v\<lparr>vw_prepared := filter (\<lambda>p. fst p \<noteq> x) (vw_prepared v)\<rparr>) (map_of (vw_prepared v) x))"

text \<open>
  A statement that succeeds has its effect; one that fails has it or not, since the answer may be lost.
\<close>

definition xa_law :: "'s xa_server \<Rightarrow> bool" where
  "xa_law sv \<longleftrightarrow>
     (\<forall>st s. case sv_exec sv st s of
        (Inr _, s1) \<Rightarrow> xa_effect st (sv_view sv s) = Some (sv_view sv s1)
      | (Inl _, s1) \<Rightarrow> sv_view sv s1 = sv_view sv s \<or> xa_effect st (sv_view sv s) = Some (sv_view sv s1)) \<and>
     (\<forall>s cells. sv_recover sv s = Inr cells \<longrightarrow> set cells = (\<lambda>(x, ws). (length x, x)) ` set (vw_prepared (sv_view sv s))) \<and>
     (\<forall>d s. sv_view sv (sv_kill sv d s) = sv_view sv s) \<and>
     (\<forall>s. sv_view sv (sv_drop sv s) = (sv_view sv s)\<lparr>vw_active := None\<rparr>)"

section \<open>The writer\<close>

record xa_config =
  xc_url :: string
  xc_database :: "string option"
  xc_table :: string
  xc_primary_keys :: "string list"
  xc_batch_size :: nat
  xc_enable_upsert :: bool
  xc_xid_prefix :: string
  xc_pipeline :: string
  xc_subtask :: nat

record xa_commit_info =
  xi_xid :: string
  xi_checkpoint_id :: nat
  xi_window :: nat
  xi_rows :: nat

record xa_writer =
  xw_config :: xa_config
  xw_url :: "jdbc_url option"
  xw_conn :: bool
  xw_schema :: "table_schema option"
  xw_buffer :: "row list"
  xw_written :: nat
  xw_window :: nat
  xw_txn_open :: bool
  xw_rows_in_txn :: nat
  xw_base :: string
  xw_epoch :: nat

definition sanitize_component :: "string \<Rightarrow> string" where
  "sanitize_component c = map (\<lambda>x. if is_alphanumeric x \<or> x = CHR ''-'' \<or> x = CHR ''_'' then x else CHR ''_'') c"

definition xid_base :: "xa_config \<Rightarrow> string" where
  "xid_base cfg = sanitize_component (xc_xid_prefix cfg) @ ''-'' @ sanitize_component (xc_pipeline cfg) @ ''-'' @ show_nat (xc_subtask cfg)"

definition xa_writer_new :: "xa_config \<Rightarrow> nat \<Rightarrow> xa_writer" where
  "xa_writer_new cfg epoch =
     \<lparr>xw_config = cfg, xw_url = None, xw_conn = False, xw_schema = None, xw_buffer = [], xw_written = 0, xw_window = 0,
      xw_txn_open = False, xw_rows_in_txn = 0, xw_base = xid_base cfg, xw_epoch = epoch\<rparr>"

record xa_state =
  xs_window :: nat
  xs_written :: nat

definition restore_from_state :: "xa_state \<Rightarrow> xa_writer \<Rightarrow> xa_writer" where
  "restore_from_state st w = w\<lparr>xw_window := xs_window st, xw_written := xs_written st\<rparr>"

definition window_xid :: "xa_writer \<Rightarrow> nat \<Rightarrow> string" where
  "window_xid w n = xw_base w @ ''-r'' @ show_nat (xw_epoch w) @ ''-cp'' @ show_nat n"

definition qualified_table :: "xa_writer \<Rightarrow> string" where
  "qualified_table w =
     (case xc_database (xw_config w) of
        Some db \<Rightarrow> db @ ''.'' @ xc_table (xw_config w)
      | None \<Rightarrow>
          (case xw_url w of
             Some u \<Rightarrow> if ju_database u \<noteq> [] then ju_database u @ ''.'' @ xc_table (xw_config w) else xc_table (xw_config w)
           | None \<Rightarrow> xc_table (xw_config w)))"

type_synonym ('s, 'a) xa_result = "(string + 'a) \<times> xa_writer \<times> 's"

definition xa_bind :: "('s, 'a) xa_result \<Rightarrow> ('a \<Rightarrow> xa_writer \<Rightarrow> 's \<Rightarrow> ('s, 'b) xa_result) \<Rightarrow> ('s, 'b) xa_result" where
  "xa_bind res f = (case res of (Inl e, w, s) \<Rightarrow> (Inl e, w, s) | (Inr a, w, s) \<Rightarrow> f a w s)"

definition xa_exec :: "'s xa_server \<Rightarrow> xa_stmt \<Rightarrow> xa_writer \<Rightarrow> 's \<Rightarrow> ('s, unit) xa_result" where
  "xa_exec sv st w s =
     (if \<not> xw_conn w then (Inl ''XaSink not connected'', w, s)
      else case sv_exec sv st s of (res, s1) \<Rightarrow> (res, w, s1))"

subsection \<open>Settling what earlier writers left\<close>

definition hex_value :: "char \<Rightarrow> nat option" where
  "hex_value c =
     (let n = (of_char c :: nat) in
      if 48 \<le> n \<and> n \<le> 57 then Some (n - 48) else if 65 \<le> n \<and> n \<le> 70 then Some (n - 55)
      else if 97 \<le> n \<and> n \<le> 102 then Some (n - 87) else None)"

fun decode_hex :: "string \<Rightarrow> string option" where
  "decode_hex [] = Some []"
| "decode_hex [c] = None"
| "decode_hex (a # b # cs) =
     (case (if a = CHR ''+'' then Some 0 else hex_value a, hex_value b, decode_hex cs) of
        (Some h, Some l, Some rest) \<Rightarrow> Some (char_of (16 * h + l) # rest)
      | _ \<Rightarrow> None)"

definition decode_xa_recover_data :: "string \<Rightarrow> nat \<Rightarrow> string option" where
  "decode_xa_recover_data data gtrid_len =
     Option.bind (case strip_prefix ''0x'' data of Some hex \<Rightarrow> decode_hex hex | None \<Rightarrow> Some data)
       (\<lambda>bytes. if length bytes < gtrid_len then None
                else if rust_str (take gtrid_len bytes) then Some (take gtrid_len bytes) else None)"

definition xa_recover :: "'s xa_server \<Rightarrow> 's \<Rightarrow> string + string list" where
  "xa_recover sv s =
     (case sv_recover sv s of
        Inl e \<Rightarrow> Inl e
      | Inr cells \<Rightarrow> Inr (List.map_filter (\<lambda>(n, data). decode_xa_recover_data data n) cells))"

text \<open>The window in a transaction id of this writer's base; other ids are not ours.\<close>

definition xid_window :: "string \<Rightarrow> string \<Rightarrow> nat option" where
  "xid_window base xid =
     Option.bind (strip_prefix base xid) (\<lambda>rest. Option.bind (rsplit_once ''-cp'' rest) (\<lambda>(_, n). parse_u64 n))"

fun settle_xids :: "'s xa_server \<Rightarrow> string list \<Rightarrow> xa_writer \<Rightarrow> 's \<Rightarrow> ('s, unit) xa_result" where
  "settle_xids sv [] w s = (Inr (), w, s)"
| "settle_xids sv (xid # xids) w s =
     (case xid_window (xw_base w) xid of
        None \<Rightarrow> settle_xids sv xids w s
      | Some n \<Rightarrow>
          xa_bind (xa_exec sv (if n \<le> xw_window w then XA_Commit xid else XA_Rollback xid) w s)
            (\<lambda>_. settle_xids sv xids))"

definition recover_prepared :: "'s xa_server \<Rightarrow> xa_writer \<Rightarrow> 's \<Rightarrow> ('s, unit) xa_result" where
  "recover_prepared sv w s =
     (if \<not> xw_conn w then (Inl ''XaSink not connected'', w, s)
      else case xa_recover sv s of Inl e \<Rightarrow> (Inl e, w, s) | Inr xids \<Rightarrow> settle_xids sv xids w s)"

definition kill_zombie_sessions :: "'s xa_server \<Rightarrow> xa_writer \<Rightarrow> 's \<Rightarrow> 's" where
  "kill_zombie_sessions sv w s =
     (case xw_url w of
        None \<Rightarrow> s
      | Some u \<Rightarrow>
          let target = unwrap_or (ju_database u) (xc_database (xw_config w)) in
          if target = [] then s else sv_kill sv (filter (\<lambda>c. c \<noteq> CHR 0x27) target) s)"

definition ensure_connected :: "'s xa_server \<Rightarrow> xa_writer \<Rightarrow> 's \<Rightarrow> ('s, unit) xa_result" where
  "ensure_connected sv w s =
     (if xw_conn w then (Inr (), w, s)
      else
        case parse_jdbc_url (xc_url (xw_config w)) of
          Inl e \<Rightarrow> (Inl e, w, s)
        | Inr url \<Rightarrow>
            if ju_dialect url = Postgres then (Inl ''XaSink requires a MySQL-compatible url'', w, s)
            else
              (case sv_schema sv (qualified_table w) s of
                 Inl e \<Rightarrow> (Inl e, w, s)
               | Inr None \<Rightarrow> (Inl ''XaSink target table does not exist'', w, s)
               | Inr (Some sc) \<Rightarrow>
                   let pks = xc_primary_keys (xw_config w);
                       sc1 = (if ts_primary_key sc = [] \<and> pks \<noteq> [] then sc\<lparr>ts_primary_key := pks\<rparr> else sc);
                       w1 = w\<lparr>xw_schema := Some sc1, xw_url := Some url\<rparr>
                   in case sv_connect sv s of
                        Inl e \<Rightarrow> (Inl e, w1, s)
                      | Inr _ \<Rightarrow>
                          xa_bind (recover_prepared sv (w1\<lparr>xw_conn := True\<rparr>) s)
                            (\<lambda>_ w2 s2. (Inr (), w2, kill_zombie_sessions sv w2 s2))))"

subsection \<open>Writing\<close>

definition ensure_txn_open :: "'s xa_server \<Rightarrow> xa_writer \<Rightarrow> 's \<Rightarrow> ('s, unit) xa_result" where
  "ensure_txn_open sv w s =
     (if xw_txn_open w then (Inr (), w, s)
      else if u64_max \<le> xw_window w then (Inl ''attempt to add with overflow'', w, s)
      else xa_bind (xa_exec sv (XA_Start (window_xid w (xw_window w + 1))) w s)
             (\<lambda>_ w1 s1. (Inr (), w1\<lparr>xw_txn_open := True\<rparr>, s1)))"

fun chunks_from :: "nat \<Rightarrow> nat \<Rightarrow> 'a list \<Rightarrow> 'a list list" where
  "chunks_from 0 n xs = []"
| "chunks_from (Suc k) n xs = (if xs = [] then [] else take n xs # chunks_from k n (drop n xs))"

definition row_chunks :: "nat \<Rightarrow> 'a list \<Rightarrow> 'a list list" where
  "row_chunks n xs = chunks_from (length xs) n xs"

text \<open>The statements of one run of rows, with the rows each writes; or the error met while building them.\<close>

type_synonym plan_item = "string + xa_stmt \<times> nat"

definition delete_items :: "sql_texts \<Rightarrow> string \<Rightarrow> table_schema \<Rightarrow> string list \<Rightarrow> row list \<Rightarrow> plan_item list" where
  "delete_items sx table sc keys run =
     (case find (\<lambda>k. column_index k sc = None) keys of
        Some k \<Rightarrow> [Inl (''delete key not in schema: '' @ k)]
      | None \<Rightarrow>
          let pos = map (\<lambda>k. the (column_index k sc)) keys;
              sql = build_delete_by_pk MySql table keys (map (\<lambda>i. cd_type (ts_columns sc ! i)) pos)
          in map (\<lambda>r. Inr (Exec sql (map (\<lambda>i. field_to_sql_value sx (unwrap_or FNull (row_get r i))) pos), 1)) run)"

definition write_items ::
    "sql_texts \<Rightarrow> xa_config \<Rightarrow> string \<Rightarrow> table_schema \<Rightarrow> string list \<Rightarrow> row list \<Rightarrow> plan_item list" where
  "write_items sx cfg table sc keys run =
     (let types = map cd_type (ts_columns sc) in
      map (\<lambda>chunk.
        Inr (Exec
          (if xc_enable_upsert cfg \<and> keys \<noteq> []
           then build_upsert MySql table (field_names sc) types keys (length chunk)
           else build_insert MySql table (field_names sc) types (length chunk))
          (concat (map (\<lambda>r. map (field_to_sql_value sx) (row_fields r)) chunk)), length chunk))
        (row_chunks (xc_batch_size cfg) run))"

definition is_delete :: "row \<Rightarrow> bool" where
  "is_delete r \<longleftrightarrow> row_kind r = Delete"

function flush_plan ::
    "sql_texts \<Rightarrow> xa_config \<Rightarrow> string \<Rightarrow> table_schema \<Rightarrow> string list \<Rightarrow> row list \<Rightarrow> plan_item list" where
  "flush_plan sx cfg table sc keys [] = []"
| "flush_plan sx cfg table sc keys (r # rs) =
     (let run = r # takeWhile (\<lambda>x. is_delete x = is_delete r) rs;
          items = (if is_delete r then if keys \<noteq> [] then delete_items sx table sc keys run else []
                   else write_items sx cfg table sc keys run)
      in items @ flush_plan sx cfg table sc keys (dropWhile (\<lambda>x. is_delete x = is_delete r) rs))"
  by pat_completeness auto
termination
  by (relation "measure (\<lambda>(sx, cfg, table, sc, keys, rs). length rs)") (auto simp: less_Suc_eq_le length_dropWhile_le)

fun run_plan :: "'s xa_server \<Rightarrow> plan_item list \<Rightarrow> xa_writer \<Rightarrow> 's \<Rightarrow> ('s, unit) xa_result" where
  "run_plan sv [] w s = (Inr (), w, s)"
| "run_plan sv (Inl e # items) w s = (Inl e, w, s)"
| "run_plan sv (Inr (st, n) # items) w s =
     xa_bind (xa_exec sv st w s)
       (\<lambda>_ w1. run_plan sv items (w1\<lparr>xw_written := xw_written w1 + n, xw_rows_in_txn := xw_rows_in_txn w1 + n\<rparr>))"

definition plan_keys :: "xa_config \<Rightarrow> table_schema \<Rightarrow> string list" where
  "plan_keys cfg sc = (if xc_primary_keys cfg \<noteq> [] then xc_primary_keys cfg else ts_primary_key sc)"

definition flush_batch :: "sql_texts \<Rightarrow> 's xa_server \<Rightarrow> xa_writer \<Rightarrow> 's \<Rightarrow> ('s, unit) xa_result" where
  "flush_batch sx sv w s =
     (if xw_buffer w = [] then (Inr (), w, s)
      else
        xa_bind (ensure_connected sv w s) (\<lambda>_ w1 s1.
        xa_bind (ensure_txn_open sv w1 s1) (\<lambda>_ w2 s2.
          case xw_schema w2 of
            None \<Rightarrow> (Inl ''schema resolved'', w2\<lparr>xw_buffer := []\<rparr>, s2)
          | Some sc \<Rightarrow> 
              run_plan sv (flush_plan sx (xw_config w2) (qualified_table w2) sc (plan_keys (xw_config w2) sc) (xw_buffer w2))
                (w2\<lparr>xw_buffer := []\<rparr>) s2)))"

definition xa_open :: "'s xa_server \<Rightarrow> xa_writer \<Rightarrow> 's \<Rightarrow> ('s, unit) xa_result" where
  "xa_open sv w s = ensure_connected sv w s"

definition xa_write :: "sql_texts \<Rightarrow> 's xa_server \<Rightarrow> row \<Rightarrow> xa_writer \<Rightarrow> 's \<Rightarrow> ('s, unit) xa_result" where
  "xa_write sx sv r w s =
     (let w1 = w\<lparr>xw_buffer := xw_buffer w @ [r]\<rparr> in
      if xc_batch_size (xw_config w) \<le> length (xw_buffer w) + 1 then flush_batch sx sv w1 s else (Inr (), w1, s))"

definition xa_prepare_commit ::
    "sql_texts \<Rightarrow> 's xa_server \<Rightarrow> nat \<Rightarrow> xa_writer \<Rightarrow> 's \<Rightarrow> ('s, xa_commit_info list) xa_result" where
  "xa_prepare_commit sx sv checkpoint_id w s =
     xa_bind (ensure_connected sv w s) (\<lambda>_ w1 s1.
     xa_bind (flush_batch sx sv w1 s1) (\<lambda>_ w2 s2.
       if \<not> xw_txn_open w2 then (Inr [], w2, s2)
       else
         let n = xw_window w2 + 1; xid = window_xid w2 n in
         xa_bind (xa_exec sv (XA_End xid) w2 s2) (\<lambda>_ w3 s3.
         xa_bind (xa_exec sv (XA_Prepare xid) w3 s3) (\<lambda>_ w4 s4.
           (Inr [\<lparr>xi_xid = xid, xi_checkpoint_id = checkpoint_id, xi_window = n, xi_rows = xw_rows_in_txn w4\<rparr>],
            w4\<lparr>xw_txn_open := False, xw_rows_in_txn := 0, xw_window := n\<rparr>, s4)))))"

definition xa_snapshot_state :: "xa_writer \<Rightarrow> xa_state" where
  "xa_snapshot_state w = \<lparr>xs_window = xw_window w, xs_written = xw_written w\<rparr>"

definition xa_poll_flush :: "sql_texts \<Rightarrow> 's xa_server \<Rightarrow> xa_writer \<Rightarrow> 's \<Rightarrow> ('s, unit) xa_result" where
  "xa_poll_flush sx sv w s = (if xw_buffer w \<noteq> [] then flush_batch sx sv w s else (Inr (), w, s))"

definition xa_close :: "sql_texts \<Rightarrow> 's xa_server \<Rightarrow> xa_writer \<Rightarrow> 's \<Rightarrow> ('s, unit) xa_result" where
  "xa_close sx sv w s =
     xa_bind
       (if \<not> xw_txn_open w then (Inr (), w, s)
        else
          xa_bind (if xw_buffer w \<noteq> [] then flush_batch sx sv w s else (Inr (), w, s)) (\<lambda>_ w1 s1.
            let n = xw_window w1 + 1; xid = window_xid w1 n in
            xa_bind (xa_exec sv (XA_End xid) w1 s1) (\<lambda>_ w2 s2.
            xa_bind (xa_exec sv (XA_Commit xid) w2 s2) (\<lambda>_ w3 s3.
              (Inr (), w3\<lparr>xw_txn_open := False, xw_window := n\<rparr>, s3)))))
       (\<lambda>_ w1 s1. (Inr (), w1\<lparr>xw_conn := False\<rparr>, if xw_conn w1 then sv_drop sv s1 else s1))"

section \<open>The committer\<close>

record xa_aggregated =
  xg_committed :: nat
  xg_rows :: nat

fun commit_infos :: "'s xa_server \<Rightarrow> string list \<Rightarrow> xa_commit_info list \<Rightarrow> xa_aggregated \<Rightarrow> 's \<Rightarrow> (string + xa_aggregated) \<times> 's" where
  "commit_infos sv prepared [] agg s = (Inr agg, s)"
| "commit_infos sv prepared (i # is) agg s =
     (let agg1 = agg\<lparr>xg_rows := xg_rows agg + xi_rows i\<rparr> in
      if xi_xid i \<in> set prepared then
        (case sv_exec sv (XA_Commit (xi_xid i)) s of
           (Inl e, s1) \<Rightarrow> (Inl e, s1)
         | (Inr _, s1) \<Rightarrow> commit_infos sv prepared is (agg1\<lparr>xg_committed := xg_committed agg1 + 1\<rparr>) s1)
      else commit_infos sv prepared is agg1 s)"

definition xa_commit :: "'s xa_server \<Rightarrow> xa_commit_info list \<Rightarrow> 's \<Rightarrow> (string + xa_aggregated) \<times> 's" where
  "xa_commit sv infos s =
     (case xa_recover sv s of
        Inl e \<Rightarrow> (Inl e, s)
      | Inr prepared \<Rightarrow> commit_infos sv prepared infos \<lparr>xg_committed = 0, xg_rows = 0\<rparr> s)"

fun abort_infos :: "'s xa_server \<Rightarrow> string list \<Rightarrow> xa_commit_info list \<Rightarrow> 's \<Rightarrow> (string + unit) \<times> 's" where
  "abort_infos sv prepared [] s = (Inr (), s)"
| "abort_infos sv prepared (i # is) s =
     (if xi_xid i \<in> set prepared then
        (case sv_exec sv (XA_Rollback (xi_xid i)) s of
           (Inl e, s1) \<Rightarrow> (Inl e, s1)
         | (Inr _, s1) \<Rightarrow> abort_infos sv prepared is s1)
      else abort_infos sv prepared is s)"

definition xa_abort :: "'s xa_server \<Rightarrow> xa_commit_info list \<Rightarrow> 's \<Rightarrow> (string + unit) \<times> 's" where
  "xa_abort sv infos s =
     (case xa_recover sv s of Inl e \<Rightarrow> (Inl e, s) | Inr prepared \<Rightarrow> abort_infos sv prepared infos s)"

end
