(* ===== verification/Xa_Runs.thy ===== *)
theory Xa_Runs
  imports Xa_Sink
begin

text \<open>
  Runs of the exactly-once sink: rows written, barriers, checkpoints made durable, commits, crashes and
  restarts in any order. After a restart that succeeds, the target holds every row before the restored
  position in exactly one transaction per durable window, whatever answers of the server were lost.
  Checkpoints that are aborted are outside these runs: what an abort does is shown at the end.
\<close>

section \<open>Transaction ids\<close>

lemma rsplit_once_absent: "d \<notin> set t \<Longrightarrow> rsplit_once (d # sep) t = None"
  by (induction t) (auto simp: strip_prefix_def)

lemma rsplit_once_last: "rsplit_once (d # sep) (sep @ b) = None \<Longrightarrow> rsplit_once (d # sep) (a @ d # sep @ b) = Some (a, b)"
  by (induction a) (simp_all add: strip_prefix_def)

lemma dash_not_digit: "CHR ''-'' \<notin> set (show_nat n)"
  using show_nat_digits minus_not_digit by blast

lemma own_xid_window:
  assumes "n \<le> u64_max"
  shows "xid_window (xw_base w) (window_xid w n) = Some n"
proof -
  have "rsplit_once ''-cp'' (''cp'' @ show_nat n) = None"
    using dash_not_digit by (intro rsplit_once_absent) auto
  then have "rsplit_once ''-cp'' ((''-r'' @ show_nat (xw_epoch w)) @ CHR ''-'' # ''cp'' @ show_nat n) =
      Some (''-r'' @ show_nat (xw_epoch w), show_nat n)"
    by (rule rsplit_once_last)
  then show ?thesis using assms by (simp add: xid_window_def window_xid_def del: rsplit_once.simps)
qed

text \<open>The ids of subtask 10 carry the base of subtask 1.\<close>

lemma sibling_xid_taken_for_own:
  assumes "xc_subtask cfg = 1" "n \<le> u64_max"
  shows "xid_window (xid_base cfg) (window_xid (xa_writer_new (cfg\<lparr>xc_subtask := 10\<rparr>) e) n) = Some n"
proof -
  let ?p = "sanitize_component (xc_xid_prefix cfg) @ ''-'' @ sanitize_component (xc_pipeline cfg) @ ''-''"
  have d: "show_nat 10 = show_nat 1 @ ''0''" by code_simp
  have "rsplit_once ''-cp'' (''cp'' @ show_nat n) = None"
    using dash_not_digit by (intro rsplit_once_absent) auto
  then have "rsplit_once ''-cp'' ((''0-r'' @ show_nat e) @ CHR ''-'' # ''cp'' @ show_nat n) = Some (''0-r'' @ show_nat e, show_nat n)"
    by (rule rsplit_once_last)
  moreover have "strip_prefix (xid_base cfg) (window_xid (xa_writer_new (cfg\<lparr>xc_subtask := 10\<rparr>) e) n) =
      Some ((''0-r'' @ show_nat e) @ CHR ''-'' # ''cp'' @ show_nat n)"
    using assms(1) by (simp add: strip_prefix_Some window_xid_def xa_writer_new_def xid_base_def d)
  ultimately show ?thesis using assms(2) by (simp add: xid_window_def del: rsplit_once.simps)
qed

text \<open>An own id is read back from a cell of \<open>XA RECOVER\<close>.\<close>

definition decodes :: "string \<Rightarrow> bool" where
  "decodes x \<longleftrightarrow> decode_xa_recover_data x (length x) = Some x"

lemma sanitized_ascii: "c \<in> set (sanitize_component t) \<Longrightarrow> (of_char c :: nat) < 128"
  by (auto simp: sanitize_component_def is_alphanumeric_def Let_def)

lemma own_xid_decodes:
  assumes "xw_base w = xid_base cfg" "strip_prefix ''0x'' (window_xid w n) = None"
  shows "decodes (window_xid w n)"
proof -
  have "rust_str (window_xid w n)"
    using assms(1) by (intro rust_str_ascii) (auto simp: window_xid_def xid_base_def dest!: sanitized_ascii show_nat_digits digit_ascii)
  then show ?thesis using assms(2) by (simp add: decodes_def decode_xa_recover_data_def)
qed

lemma own_xid_not_hex: "strip_prefix ''0x'' (xw_base w) = None \<Longrightarrow> length (xw_base w) \<ge> 2 \<Longrightarrow> strip_prefix ''0x'' (window_xid w n) = None"
  by (auto simp: strip_prefix_def window_xid_def)

section \<open>What statements keep\<close>

definition own :: "string \<Rightarrow> (string \<times> xa_stmt list) list \<Rightarrow> (string \<times> xa_stmt list) list" where
  "own base es = filter (\<lambda>p. xid_window base (fst p) \<noteq> None) es"

text \<open>
  \<open>H\<close> lists the transactions of the durable windows, in order. Each is prepared or committed, once; nothing else
  of this writer is committed, and what else is prepared belongs to later windows.
\<close>

definition numbered :: "string \<Rightarrow> (string \<times> xa_stmt list) list \<Rightarrow> bool" where
  "numbered base H \<longleftrightarrow> (\<forall>i < length H. xid_window base (fst (H ! i)) = Some (Suc i))"

definition settled :: "string \<Rightarrow> (string \<times> xa_stmt list) list \<Rightarrow> xa_view \<Rightarrow> bool" where
  "settled base H v \<longleftrightarrow>
     numbered base H \<and>
     distinct (map fst (own base (vw_prepared v) @ own base (vw_committed v))) \<and>
     set (own base (vw_committed v)) \<subseteq> set H \<and> set H \<subseteq> set (vw_prepared v) \<union> set (vw_committed v) \<and>
     (\<forall>p\<in>set (own base (vw_prepared v)). decodes (fst p) \<and> (\<forall>n. xid_window base (fst p) = Some n \<and> n \<le> length H \<longrightarrow> p \<in> set H))"

lemma own_set [simp]: "set (own base es) = {p \<in> set es. xid_window base (fst p) \<noteq> None}"
  by (auto simp: own_def)

lemma own_append [simp]: "own base (es @ fs) = own base es @ own base fs"
  by (simp add: own_def)

lemma numberedD: "numbered base H \<Longrightarrow> p \<in> set H \<Longrightarrow> \<exists>n. xid_window base (fst p) = Some n \<and> 1 \<le> n \<and> n \<le> length H"
  by (force simp: numbered_def in_set_conv_nth)

lemma settled_cong: "vw_prepared v = vw_prepared v' \<Longrightarrow> vw_committed v = vw_committed v' \<Longrightarrow> settled base H v = settled base H v'"
  by (simp add: settled_def)

lemma law_exec:
  assumes "xa_law sv" "sv_exec sv st s = (res, s1)"
  shows "sv_view sv s1 = sv_view sv s \<and> (\<exists>e. res = Inl e) \<or> xa_effect st (sv_view sv s) = Some (sv_view sv s1)"
proof -
  have "case sv_exec sv st s of (Inr _, s1) \<Rightarrow> xa_effect st (sv_view sv s) = Some (sv_view sv s1)
      | (Inl _, s1) \<Rightarrow> sv_view sv s1 = sv_view sv s \<or> xa_effect st (sv_view sv s) = Some (sv_view sv s1)"
    using assms(1) by (simp add: xa_law_def)
  then show ?thesis using assms(2) by (auto split: sum.splits)
qed

lemma law_exec_ok:
  assumes "xa_law sv" "sv_exec sv st s = (Inr u, s1)"
  shows "xa_effect st (sv_view sv s) = Some (sv_view sv s1)"
  using law_exec [OF assms] by simp

lemma commit_keeps:
  assumes "settled base H v" "xid_window base x = Some n" "n \<le> length H" "xa_effect (XA_Commit x) v = Some v1"
  shows "settled base H v1 \<and> vw_active v1 = vw_active v \<and> set (vw_prepared v1) \<subseteq> set (vw_prepared v) \<and>
    x \<notin> fst ` set (vw_prepared v1) \<and> set (vw_prepared v1) \<union> set (vw_committed v1) = set (vw_prepared v) \<union> set (vw_committed v)"
proof -
  obtain ws where ws: "map_of (vw_prepared v) x = Some ws"
    and v1: "v1 = v\<lparr>vw_prepared := filter (\<lambda>p. fst p \<noteq> x) (vw_prepared v), vw_committed := vw_committed v @ [(x, ws)]\<rparr>"
    using assms(4) by (auto simp: xa_effect_def)
  have p: "(x, ws) \<in> set (vw_prepared v)" using ws by (rule map_of_SomeD)
  have d: "distinct (map fst (own base (vw_prepared v)))" using assms(1) by (simp add: settled_def)
  have only: "q = (x, ws)" if "q \<in> set (vw_prepared v)" "fst q = x" for q
  proof -
    have "q \<in> set (own base (vw_prepared v))" "(x, ws) \<in> set (own base (vw_prepared v))" using that p assms(2) by auto
    with d that(2) show ?thesis by (metis distinct_map fst_conv inj_onD)
  qed
  have "map fst (own base (filter (\<lambda>p. fst p \<noteq> x) (vw_prepared v))) = filter (\<lambda>y. y \<noteq> x) (map fst (own base (vw_prepared v)))"
    by (simp add: own_def filter_map comp_def conj_commute)
  moreover have "own base [(x, ws)] = [(x, ws)]" using assms(2) by (simp add: own_def)
  moreover have "x \<notin> fst ` set (own base (vw_committed v))"
  proof -
    have "fst ` set (own base (vw_prepared v)) \<inter> fst ` set (own base (vw_committed v)) = {}"
      using assms(1) by (simp add: settled_def del: own_set)
    moreover have "x \<in> fst ` set (own base (vw_prepared v))" using p assms(2) by force
    ultimately show ?thesis by blast
  qed
  ultimately have "distinct (map fst (own base (vw_prepared v1) @ own base (vw_committed v1)))"
    using assms(1) unfolding v1 by (auto simp: settled_def)
  moreover have "(x, ws) \<in> set H" using assms p by (auto simp: settled_def)
  moreover have "set (vw_prepared v1) \<union> set (vw_committed v1) = set (vw_prepared v) \<union> set (vw_committed v)"
  proof -
    have "set (filter (\<lambda>p. fst p \<noteq> x) (vw_prepared v)) = set (vw_prepared v) - {(x, ws)}"
      using only by (fastforce simp del: split_paired_All)
    then show ?thesis using p unfolding v1 by auto
  qed
  ultimately show ?thesis using assms(1) unfolding v1 by (auto simp: settled_def)
qed

lemma rollback_keeps:
  assumes "settled base H v" "xid_window base x = Some n" "length H < n" "xa_effect (XA_Rollback x) v = Some v1"
  shows "settled base H v1 \<and> vw_active v1 = vw_active v \<and> set (vw_prepared v1) \<subseteq> set (vw_prepared v) \<and> x \<notin> fst ` set (vw_prepared v1)"
proof -
  have v1: "v1 = v\<lparr>vw_prepared := filter (\<lambda>p. fst p \<noteq> x) (vw_prepared v)\<rparr>" using assms(4) by (auto simp: xa_effect_def)
  have "map fst (own base (filter (\<lambda>p. fst p \<noteq> x) (vw_prepared v))) = filter (\<lambda>y. y \<noteq> x) (map fst (own base (vw_prepared v)))"
    by (simp add: own_def filter_map comp_def conj_commute)
  then have "distinct (map fst (own base (vw_prepared v1) @ own base (vw_committed v1)))"
    using assms(1) unfolding v1 by (auto simp: settled_def)
  moreover have "fst p \<noteq> x" if "p \<in> set H" for p
    using assms(1-3) numberedD [of base H p] that by (auto simp: settled_def)
  ultimately show ?thesis using assms(1) unfolding v1 by (auto simp: settled_def)
qed

lemma prepare_keeps:
  assumes "settled base H v" "xid_window base x = Some n" "length H < n" "decodes x" "x \<notin> fst ` set (vw_prepared v)"
    and "xa_effect (XA_Prepare x) v = Some v1"
  shows "settled base H v1"
proof -
  obtain ws where v1: "v1 = v\<lparr>vw_active := None, vw_prepared := vw_prepared v @ [(x, ws)]\<rparr>"
    using assms(6) by (auto simp: xa_effect_def split: option.splits if_splits)
  have "x \<notin> fst ` set (own base (vw_committed v))"
    using assms(1-3) numberedD [of base H] by (force simp: settled_def)
  moreover have "own base [(x, ws)] = [(x, ws)]" using assms(2) by (simp add: own_def)
  ultimately show ?thesis using assms(1-5) unfolding v1 by (auto simp: settled_def)
qed

lemma settle_one_keeps:
  assumes "xa_law sv" "settled base H (sv_view sv s)" "xid_window base x = Some n"
    and "sv_exec sv (if n \<le> length H then XA_Commit x else XA_Rollback x) s = (r, s2)"
  shows "settled base H (sv_view sv s2) \<and> vw_active (sv_view sv s2) = vw_active (sv_view sv s) \<and>
    set (vw_prepared (sv_view sv s2)) \<subseteq> set (vw_prepared (sv_view sv s)) \<and>
    (r = Inr () \<longrightarrow> x \<notin> fst ` set (vw_prepared (sv_view sv s2)))"
proof (cases "n \<le> length H")
  case True
  then show ?thesis using law_exec [OF assms(1,4)] commit_keeps [OF assms(2,3) True] assms(2) by auto
next
  case False
  then show ?thesis using law_exec [OF assms(1,4)] rollback_keeps [OF assms(2,3)] assms(2) by auto
qed

lemma settle_keeps:
  assumes "xa_law sv" "xw_conn w" "xw_base w = base" "xw_window w = length H"
  shows "settled base H (sv_view sv s) \<Longrightarrow> settle_xids sv xids w s = (res, w1, s1) \<Longrightarrow>
    w1 = w \<and> settled base H (sv_view sv s1) \<and> vw_active (sv_view sv s1) = vw_active (sv_view sv s) \<and>
    set (vw_prepared (sv_view sv s1)) \<subseteq> set (vw_prepared (sv_view sv s)) \<and>
    (res = Inr () \<longrightarrow> (\<forall>x\<in>set xids. xid_window base x \<noteq> None \<longrightarrow> x \<notin> fst ` set (vw_prepared (sv_view sv s1))))"
proof (induction xids arbitrary: s)
  case (Cons xid xids)
  show ?case
  proof (cases "xid_window base xid")
    case None
    then show ?thesis using Cons assms by auto
  next
    case (Some n)
    let ?st = "if n \<le> length H then XA_Commit xid else XA_Rollback xid"
    obtain r s2 where ex: "sv_exec sv ?st s = (r, s2)" by (cases "sv_exec sv ?st s")
    note one = settle_one_keeps [OF assms(1) Cons.prems(1) Some ex]
    show ?thesis
    proof (cases r)
      case (Inl e)
      then show ?thesis using Cons.prems(2) Some ex one assms by (auto simp: xa_exec_def xa_bind_def)
    next
      case (Inr u)
      then have rest: "settle_xids sv xids w s2 = (res, w1, s1)"
        using Cons.prems(2) Some ex assms by (simp add: xa_exec_def xa_bind_def)
      show ?thesis using Cons.IH [OF _ rest] one Inr by auto
    qed
  qed
qed simp

section \<open>What the operations of the writer keep\<close>

lemma recovered_xids:
  assumes "xa_law sv" "settled base H (sv_view sv s)" "xa_recover sv s = Inr xids" "p \<in> set (own base (vw_prepared (sv_view sv s)))"
  shows "fst p \<in> set xids"
proof -
  obtain cells where c: "sv_recover sv s = Inr cells" and x: "xids = List.map_filter (\<lambda>(n, data). decode_xa_recover_data data n) cells"
    using assms(3) by (auto simp: xa_recover_def split: sum.splits)
  have "set cells = (\<lambda>(x, ws). (length x, x)) ` set (vw_prepared (sv_view sv s))"
    using assms(1) c unfolding xa_law_def by blast
  with assms(4) have "(length (fst p), fst p) \<in> set cells" by (auto simp: case_prod_beta intro!: image_eqI)
  moreover have "decode_xa_recover_data (fst p) (length (fst p)) = Some (fst p)"
    using assms(2,4) unfolding settled_def decodes_def by blast
  ultimately show ?thesis unfolding x by (force simp: List.map_filter_def)
qed

lemma recover_prepared_keeps:
  assumes "xa_law sv" "xw_base w = base" "xw_window w = length H" "settled base H (sv_view sv s)"
    and "recover_prepared sv w s = (res, w1, s1)"
  shows "w1 = w \<and> settled base H (sv_view sv s1) \<and> vw_active (sv_view sv s1) = vw_active (sv_view sv s) \<and>
    (res = Inr () \<longrightarrow> own base (vw_prepared (sv_view sv s1)) = [])"
proof (cases "xw_conn w")
  case True
  show ?thesis
  proof (cases "xa_recover sv s")
    case (Inl e)
    then show ?thesis using assms True by (auto simp: recover_prepared_def)
  next
    case (Inr xids)
    then have st: "settle_xids sv xids w s = (res, w1, s1)" using assms(5) True by (simp add: recover_prepared_def)
    note k = settle_keeps [OF assms(1) True assms(2,3,4) st]
    have "own base (vw_prepared (sv_view sv s1)) = []" if r: "res = Inr ()"
    proof -
      have False if p: "p \<in> set (own base (vw_prepared (sv_view sv s1)))" for p
      proof -
        have "p \<in> set (own base (vw_prepared (sv_view sv s)))" using p k by auto
        then have "fst p \<in> set xids" by (rule recovered_xids [OF assms(1,4) Inr])
        then show False using p k r by auto
      qed
      then show ?thesis by (metis list.exhaust list.set_intros(1))
    qed
    then show ?thesis using k by blast
  qed
qed (use assms in \<open>auto simp: recover_prepared_def\<close>)

definition same_place :: "xa_writer \<Rightarrow> xa_writer \<Rightarrow> bool" where
  "same_place w w1 \<longleftrightarrow>
     xw_config w1 = xw_config w \<and> xw_base w1 = xw_base w \<and> xw_epoch w1 = xw_epoch w \<and> xw_window w1 = xw_window w"

lemma connect_keeps:
  assumes "xa_law sv" "\<not> xw_conn w" "xw_base w = base" "xw_window w = length H" "settled base H (sv_view sv s)"
    and "ensure_connected sv w s = (res, w1, s1)"
  shows "same_place w w1 \<and> xw_buffer w1 = xw_buffer w \<and> xw_txn_open w1 = xw_txn_open w \<and>
    settled base H (sv_view sv s1) \<and> vw_active (sv_view sv s1) = vw_active (sv_view sv s) \<and>
    (res = Inr () \<longrightarrow> xw_conn w1 \<and> xw_schema w1 \<noteq> None \<and> own base (vw_prepared (sv_view sv s1)) = [])"
proof -
  have kill: "sv_view sv (kill_zombie_sessions sv w' s') = sv_view sv s'" for w' s'
    using assms(1) by (simp add: kill_zombie_sessions_def xa_law_def Let_def split: option.split)
  { fix sc url
    let ?w = "w\<lparr>xw_schema := Some sc, xw_url := Some url, xw_conn := True\<rparr>"
    assume e: "xa_bind (recover_prepared sv ?w s) (\<lambda>_ w2 s2. (Inr (), w2, kill_zombie_sessions sv w2 s2)) = (res, w1, s1)"
    obtain r w2 s2 where rp: "recover_prepared sv ?w s = (r, w2, s2)" by (metis surj_pair)
    have "?thesis"
      using recover_prepared_keeps [OF assms(1) _ _ assms(5) rp] assms(3,4) e rp
      by (cases r) (auto simp: xa_bind_def same_place_def kill) }
  then show ?thesis
    using assms by (auto simp: ensure_connected_def Let_def same_place_def split: sum.splits option.splits if_splits)
qed

section \<open>Flushing\<close>

definition plan_ok :: "plan_item list \<Rightarrow> bool" where
  "plan_ok items = list_all (\<lambda>i. \<not> isl i) items"

definition plan_stmts :: "plan_item list \<Rightarrow> xa_stmt list" where
  "plan_stmts items = map (\<lambda>i. fst (projr i)) items"

definition exec_items :: "plan_item list \<Rightarrow> bool" where
  "exec_items items \<longleftrightarrow> (\<forall>st n. Inr (st, n) \<in> set items \<longrightarrow> (\<exists>sql ps. st = Exec sql ps))"

lemma exec_items_parts:
  "exec_items (a @ b) \<longleftrightarrow> exec_items a \<and> exec_items b" "exec_items []"
  "exec_items (delete_items sx table sc keys run)" "exec_items (write_items sx cfg table sc keys run)"
  by (auto simp: exec_items_def delete_items_def write_items_def Let_def split: option.splits)

lemma flush_plan_exec: "exec_items (flush_plan sx cfg table sc keys rs)"
  by (induction sx cfg table sc keys rs rule: flush_plan.induct) (simp_all add: Let_def exec_items_parts)

lemma start_effect: "xa_effect (XA_Start x) v = Some v1 \<Longrightarrow>
    vw_prepared v1 = vw_prepared v \<and> vw_committed v1 = vw_committed v \<and> vw_active v1 = Some (x, []) \<and> x \<notin> fst ` set (vw_prepared v)"
  by (auto simp: xa_effect_def split: if_splits)

lemma exec_effect: "xa_effect (Exec sql ps) v = Some v1 \<Longrightarrow>
    vw_prepared v1 = vw_prepared v \<and> vw_committed v1 = vw_committed v \<and>
    (\<forall>x ws. vw_active v = Some (x, ws) \<longrightarrow> vw_active v1 = Some (x, ws @ [Exec sql ps]))"
  by (auto simp: xa_effect_def)

lemma run_plan_keeps:
  assumes "xa_law sv"
  shows "xw_conn w \<Longrightarrow> exec_items items \<Longrightarrow> run_plan sv items w s = (res, w1, s1) \<Longrightarrow>
    same_place w w1 \<and> xw_conn w1 \<and> xw_schema w1 = xw_schema w \<and> xw_buffer w1 = xw_buffer w \<and> xw_txn_open w1 = xw_txn_open w \<and>
    vw_prepared (sv_view sv s1) = vw_prepared (sv_view sv s) \<and> vw_committed (sv_view sv s1) = vw_committed (sv_view sv s) \<and>
    (res = Inr () \<longrightarrow> plan_ok items \<and>
       (\<forall>x ws. vw_active (sv_view sv s) = Some (x, ws) \<longrightarrow> vw_active (sv_view sv s1) = Some (x, ws @ plan_stmts items)))"
proof (induction items arbitrary: w s)
  case (Cons i items)
  show ?case
  proof (cases i)
    case (Inl e)
    then show ?thesis using Cons.prems by (auto simp: same_place_def)
  next
    case (Inr p)
    obtain st n where p: "p = (st, n)" by (cases p)
    have "Inr (st, n) \<in> set (i # items)" using Inr p by simp
    then obtain sql ps where st: "st = Exec sql ps" using Cons.prems(2) unfolding exec_items_def by blast
    have ei: "exec_items items" using Cons.prems(2) by (simp add: exec_items_def)
    obtain r s2 where ex: "sv_exec sv st s = (r, s2)" by (cases "sv_exec sv st s")
    have v: "vw_prepared (sv_view sv s2) = vw_prepared (sv_view sv s)" "vw_committed (sv_view sv s2) = vw_committed (sv_view sv s)"
      using law_exec [OF assms ex] exec_effect st by auto
    show ?thesis
    proof (cases r)
      case (Inl e)
      then show ?thesis using Cons.prems Inr p ex v by (auto simp: xa_exec_def xa_bind_def same_place_def)
    next
      case r: (Inr u)
      let ?w = "w\<lparr>xw_written := xw_written w + n, xw_rows_in_txn := xw_rows_in_txn w + n\<rparr>"
      have run: "run_plan sv items ?w s2 = (res, w1, s1)"
        using Cons.prems Inr p ex r by (simp add: xa_exec_def xa_bind_def)
      have act: "\<forall>x ws. vw_active (sv_view sv s) = Some (x, ws) \<longrightarrow> vw_active (sv_view sv s2) = Some (x, ws @ [st])"
        using law_exec [OF assms ex] r exec_effect st by auto
      show ?thesis
        using Cons.IH [OF _ ei run] Cons.prems(1) v act Inr p by (auto simp: same_place_def plan_ok_def plan_stmts_def)
    qed
  qed
qed (auto simp: same_place_def plan_ok_def plan_stmts_def)

text \<open>The statements of a transaction write given rows, batch by batch.\<close>

definition rendered :: "sql_texts \<Rightarrow> xa_config \<Rightarrow> xa_stmt list \<Rightarrow> row list \<Rightarrow> bool" where
  "rendered sx cfg ws rows \<longleftrightarrow>
     (\<exists>bs. rows = concat (map (\<lambda>(t, sc, b). b) bs) \<and>
        ws = concat (map (\<lambda>(t, sc, b). plan_stmts (flush_plan sx cfg t sc (plan_keys cfg sc) b)) bs) \<and>
        (\<forall>(t, sc, b)\<in>set bs. plan_ok (flush_plan sx cfg t sc (plan_keys cfg sc) b)))"

lemma rendered_Nil [simp]: "rendered sx cfg [] []"
  unfolding rendered_def by (rule exI [where x = "[]"]) simp

lemma rendered_batch:
  assumes "rendered sx cfg ws rows" "plan_ok (flush_plan sx cfg t sc (plan_keys cfg sc) b)"
  shows "rendered sx cfg (ws @ plan_stmts (flush_plan sx cfg t sc (plan_keys cfg sc) b)) (rows @ b)"
proof -
  obtain bs where "rows = concat (map (\<lambda>(t, sc, b). b) bs)"
    "ws = concat (map (\<lambda>(t, sc, b). plan_stmts (flush_plan sx cfg t sc (plan_keys cfg sc) b)) bs)"
    "\<forall>(t, sc, b)\<in>set bs. plan_ok (flush_plan sx cfg t sc (plan_keys cfg sc) b)"
    using assms(1) by (auto simp: rendered_def)
  then show ?thesis using assms(2) unfolding rendered_def by (intro exI [where x = "bs @ [(t, sc, b)]"]) auto
qed

text \<open>The transaction of the open window holds the rows flushed since the last barrier.\<close>

definition open_rows :: "sql_texts \<Rightarrow> xa_writer \<Rightarrow> xa_view \<Rightarrow> row list \<Rightarrow> bool" where
  "open_rows sx w v rows \<longleftrightarrow>
     (if xw_txn_open w
      then xw_window w < u64_max \<and> (\<exists>ws. vw_active v = Some (window_xid w (xw_window w + 1), ws) \<and> rendered sx (xw_config w) ws rows)
      else vw_active v = None \<and> rows = [])"

lemma qualified_table_open [simp]: "qualified_table (w\<lparr>xw_txn_open := b\<rparr>) = qualified_table w"
  by (simp add: qualified_table_def split: option.split)

lemma flush_keeps:
  assumes "xa_law sv" "xw_conn w" "xw_schema w \<noteq> None" "flush_batch sx sv w s = (res, w1, s1)"
  shows "same_place w w1 \<and> xw_conn w1 \<and> xw_schema w1 = xw_schema w \<and>
    vw_prepared (sv_view sv s1) = vw_prepared (sv_view sv s) \<and> vw_committed (sv_view sv s1) = vw_committed (sv_view sv s) \<and>
    (res = Inr () \<longrightarrow> open_rows sx w (sv_view sv s) rows \<longrightarrow>
       xw_buffer w1 = [] \<and> open_rows sx w1 (sv_view sv s1) (rows @ xw_buffer w))"
proof (cases "xw_buffer w = []")
  case True
  then show ?thesis using assms by (auto simp: flush_batch_def same_place_def)
next
  case False
  obtain sc where sc: "xw_schema w = Some sc" using assms(3) by blast
  let ?plan = "\<lambda>w. flush_plan sx (xw_config w) (qualified_table w) sc (plan_keys (xw_config w) sc) (xw_buffer w)"
  show ?thesis
  proof (cases "xw_txn_open w")
    case True
    then have run: "run_plan sv (?plan w) (w\<lparr>xw_buffer := []\<rparr>) s = (res, w1, s1)"
      using assms False sc by (simp add: flush_batch_def ensure_connected_def ensure_txn_open_def xa_bind_def)
    note k = run_plan_keeps [OF assms(1) _ flush_plan_exec run]
    show ?thesis using k True assms(2) by (auto simp: same_place_def open_rows_def window_xid_def intro: rendered_batch)
  next
    case closed: False
    let ?x = "window_xid w (xw_window w + 1)"
    show ?thesis
    proof (cases "u64_max \<le> xw_window w")
      case True
      then show ?thesis using assms False closed
        by (auto simp: flush_batch_def ensure_connected_def ensure_txn_open_def xa_bind_def same_place_def)
    next
      case small: False
      obtain r s2 where ex: "sv_exec sv (XA_Start ?x) s = (r, s2)" by (cases "sv_exec sv (XA_Start ?x) s")
      have v: "vw_prepared (sv_view sv s2) = vw_prepared (sv_view sv s)" "vw_committed (sv_view sv s2) = vw_committed (sv_view sv s)"
        using law_exec [OF assms(1) ex] by (auto dest: start_effect)
      show ?thesis
      proof (cases r)
        case (Inl e)
        then show ?thesis using assms False closed small ex v
          by (auto simp: flush_batch_def ensure_connected_def ensure_txn_open_def xa_exec_def xa_bind_def same_place_def)
      next
        case (Inr u)
        let ?w = "w\<lparr>xw_txn_open := True\<rparr>"
        have run: "run_plan sv (?plan ?w) (?w\<lparr>xw_buffer := []\<rparr>) s2 = (res, w1, s1)"
          using assms False closed small sc ex Inr
          by (simp add: flush_batch_def ensure_connected_def ensure_txn_open_def xa_exec_def xa_bind_def)
        have act: "vw_active (sv_view sv s2) = Some (?x, [])"
          using law_exec [OF assms(1) ex] Inr by (auto dest: start_effect)
        note k = run_plan_keeps [OF assms(1) _ flush_plan_exec run]
        have "rendered sx (xw_config w) (plan_stmts (?plan w)) (xw_buffer w)" if "plan_ok (?plan w)"
          using rendered_batch [OF rendered_Nil that] by simp
        then show ?thesis using k act v closed small assms(2)
          by (auto simp: same_place_def open_rows_def window_xid_def)
      qed
    qed
  qed
qed

section \<open>Runs, crashes and restarts\<close>

text \<open>
  A writer and its server, with the engine around them: the position in the source, the snapshots taken at barriers that are not yet durable, the
  commit descriptors handed out, and the newest durable checkpoint (writer state and source position).
  After an error the task is dead and only a restart goes on.
\<close>

record 's xa_world =
  wd_writer :: xa_writer
  wd_server :: 's
  wd_alive :: bool
  wd_pos :: nat
  wd_snaps :: "(xa_state \<times> nat) list"
  wd_infos :: "xa_commit_info list"
  wd_durable :: "xa_state \<times> nat"

definition xa_initial :: "xa_config \<Rightarrow> 's \<Rightarrow> 's xa_world" where
  "xa_initial cfg s =
     \<lparr>wd_writer = xa_writer_new cfg 0, wd_server = s, wd_alive = False, wd_pos = 0, wd_snaps = [], wd_infos = [],
      wd_durable = (\<lparr>xs_window = 0, xs_written = 0\<rparr>, 0)\<rparr>"

definition xa_restart :: "'s xa_server \<Rightarrow> xa_config \<Rightarrow> nat \<Rightarrow> 's xa_world \<Rightarrow> 's xa_world" where
  "xa_restart sv cfg epoch wd =
     (case xa_open sv (restore_from_state (fst (wd_durable wd)) (xa_writer_new cfg epoch)) (sv_drop sv (wd_server wd)) of
        (res, w, s) \<Rightarrow>
          \<lparr>wd_writer = w, wd_server = s, wd_alive = (res = Inr ()), wd_pos = snd (wd_durable wd), wd_snaps = [], wd_infos = [],
           wd_durable = wd_durable wd\<rparr>)"

definition xa_barrier :: "sql_texts \<Rightarrow> 's xa_server \<Rightarrow> nat \<Rightarrow> 's xa_world \<Rightarrow> 's xa_world" where
  "xa_barrier sx sv cp wd =
     (case xa_prepare_commit sx sv cp (wd_writer wd) (wd_server wd) of
        (Inl e, w, s) \<Rightarrow> wd\<lparr>wd_writer := w, wd_server := s, wd_alive := False\<rparr>
      | (Inr infos, w, s) \<Rightarrow>
          wd\<lparr>wd_writer := w, wd_server := s, wd_infos := wd_infos wd @ infos,
             wd_snaps := wd_snaps wd @ [(xa_snapshot_state w, wd_pos wd)]\<rparr>)"

text \<open>Other users of the server may do anything but touch the transactions of this writer.\<close>

definition own_unchanged :: "string \<Rightarrow> xa_view \<Rightarrow> xa_view \<Rightarrow> bool" where
  "own_unchanged base v v1 \<longleftrightarrow>
     vw_active v1 = vw_active v \<and> own base (vw_prepared v1) = own base (vw_prepared v) \<and>
     own base (vw_committed v1) = own base (vw_committed v)"

inductive xa_step :: "sql_texts \<Rightarrow> 's xa_server \<Rightarrow> xa_config \<Rightarrow> (nat \<Rightarrow> row) \<Rightarrow> 's xa_world \<Rightarrow> 's xa_world \<Rightarrow> bool"
  for sx sv cfg src where
  write_row: "wd_alive wd \<Longrightarrow> xa_write sx sv (src (wd_pos wd)) (wd_writer wd) (wd_server wd) = (res, w, s) \<Longrightarrow>
     xa_step sx sv cfg src wd (wd\<lparr>wd_writer := w, wd_server := s, wd_alive := (res = Inr ()), wd_pos := wd_pos wd + 1\<rparr>)"
| poll: "wd_alive wd \<Longrightarrow> xa_poll_flush sx sv (wd_writer wd) (wd_server wd) = (res, w, s) \<Longrightarrow>
     xa_step sx sv cfg src wd (wd\<lparr>wd_writer := w, wd_server := s, wd_alive := (res = Inr ())\<rparr>)"
| barrier: "wd_alive wd \<Longrightarrow> xa_step sx sv cfg src wd (xa_barrier sx sv cp wd)"
| durable: "wd_snaps wd = older @ snap # newer \<Longrightarrow>
     xa_step sx sv cfg src wd (wd\<lparr>wd_durable := snap, wd_snaps := newer\<rparr>)"
| commit: "wd_alive wd \<Longrightarrow> \<forall>i\<in>set is. i \<in> set (wd_infos wd) \<and> xi_window i \<le> xs_window (fst (wd_durable wd)) \<Longrightarrow>
     xa_commit sv is (wd_server wd) = (res, s) \<Longrightarrow>
     xa_step sx sv cfg src wd (wd\<lparr>wd_server := s, wd_alive := (\<not> isl res)\<rparr>)"
| restart: "xa_step sx sv cfg src wd (xa_restart sv cfg epoch wd)"
| others: "own_unchanged (xid_base cfg) (sv_view sv (wd_server wd)) (sv_view sv s) \<Longrightarrow>
     xa_step sx sv cfg src wd (wd\<lparr>wd_server := s\<rparr>)"

subsection \<open>The invariant\<close>

definition rows_to :: "(nat \<Rightarrow> row) \<Rightarrow> nat \<Rightarrow> row list" where
  "rows_to src n = map src [0..<n]"

definition snaps_ok :: "(nat \<Rightarrow> row) \<Rightarrow> row list list \<Rightarrow> nat \<Rightarrow> (xa_state \<times> nat) list \<Rightarrow> bool" where
  "snaps_ok src R dw snaps \<longleftrightarrow>
     sorted (dw # map (\<lambda>p. xs_window (fst p)) snaps) \<and>
     (\<forall>(st, p)\<in>set snaps. xs_window st \<le> length R \<and> concat (take (xs_window st) R) = rows_to src p)"

definition writer_ok ::
    "sql_texts \<Rightarrow> xa_config \<Rightarrow> (nat \<Rightarrow> row) \<Rightarrow> (string \<times> xa_stmt list) list \<Rightarrow> row list list \<Rightarrow> xa_view \<Rightarrow> xa_writer \<Rightarrow> nat \<Rightarrow> bool" where
  "writer_ok sx cfg src F R v w pos \<longleftrightarrow>
     xw_config w = cfg \<and> xw_base w = xid_base cfg \<and> xw_conn w \<and> xw_schema w \<noteq> None \<and> xw_window w = length F \<and>
     set (own (xid_base cfg) (vw_prepared v)) \<subseteq> set F \<and>
     (\<exists>rows. open_rows sx w v rows \<and> concat R @ rows @ xw_buffer w = rows_to src pos)"

definition ledger_ok ::
    "sql_texts \<Rightarrow> 's xa_server \<Rightarrow> xa_config \<Rightarrow> (nat \<Rightarrow> row) \<Rightarrow> (string \<times> xa_stmt list) list \<Rightarrow> row list list \<Rightarrow> 's xa_world \<Rightarrow> bool" where
  "ledger_ok sx sv cfg src F R wd \<longleftrightarrow>
     (let v = sv_view sv (wd_server wd); dw = xs_window (fst (wd_durable wd)) in
      list_all2 (rendered sx cfg) (map snd F) R \<and> settled (xid_base cfg) F v \<and> dw \<le> length F \<and>
      set (own (xid_base cfg) (vw_committed v)) \<subseteq> set (take dw F) \<and> concat (take dw R) = rows_to src (snd (wd_durable wd)) \<and>
      snaps_ok src R dw (wd_snaps wd) \<and> (\<forall>i\<in>set (wd_infos wd). \<exists>k < length F. xi_window i = Suc k \<and> xi_xid i = fst (F ! k)))"

definition world_ok ::
    "sql_texts \<Rightarrow> 's xa_server \<Rightarrow> xa_config \<Rightarrow> (nat \<Rightarrow> row) \<Rightarrow> (string \<times> xa_stmt list) list \<Rightarrow> row list list \<Rightarrow> 's xa_world \<Rightarrow> bool" where
  "world_ok sx sv cfg src F R wd \<longleftrightarrow>
     ledger_ok sx sv cfg src F R wd \<and>
     (wd_alive wd \<longrightarrow> writer_ok sx cfg src F R (sv_view sv (wd_server wd)) (wd_writer wd) (wd_pos wd))"

lemma numbered_nth: "numbered base F \<Longrightarrow> p \<in> set F \<Longrightarrow> xid_window base (fst p) = Some n \<Longrightarrow> 1 \<le> n \<and> n \<le> length F \<and> p = F ! (n - 1)"
  by (force simp: numbered_def in_set_conv_nth)

lemma settled_take:
  assumes "settled base F v" "n \<le> length F" "set (own base (vw_committed v)) \<subseteq> set (take n F)"
  shows "settled base (take n F) v"
proof -
  have num: "numbered base F" using assms(1) by (simp add: settled_def)
  have mem: "p \<in> set (take n F)" if "p \<in> set F" "xid_window base (fst p) = Some m" "m \<le> n" for p m
    using numbered_nth [OF num that(1,2)] that(3) assms(2) by (auto simp: in_set_conv_nth intro!: exI [where x = "m - 1"])
  have sub: "set (take n F) \<subseteq> set F" by (rule set_take_subset)
  have "decodes (fst p) \<and> (\<forall>m. xid_window base (fst p) = Some m \<and> m \<le> n \<longrightarrow> p \<in> set (take n F))"
    if "p \<in> set (own base (vw_prepared v))" for p
    using that assms(1,2) mem unfolding settled_def by (meson order_trans)
  moreover have "numbered base (take n F)" using num by (simp add: numbered_def)
  moreover have "set (take n F) \<subseteq> set (vw_prepared v) \<union> set (vw_committed v)" using assms(1) sub unfolding settled_def by blast
  ultimately show ?thesis using assms unfolding settled_def by (simp add: min_absorb2 del: own_set)
qed

lemma settled_snoc:
  assumes "settled base F v" "xid_window base x = Some (Suc (length F))" "(x, ws) \<in> set (vw_prepared v)"
    and "\<forall>p\<in>set (own base (vw_prepared v)). p \<in> set F \<or> p = (x, ws)"
  shows "settled base (F @ [(x, ws)]) v"
proof -
  have "numbered base (F @ [(x, ws)])" using assms(1,2) by (auto simp: settled_def numbered_def nth_append less_Suc_eq)
  moreover have "decodes (fst p) \<and> p \<in> set (F @ [(x, ws)])" if "p \<in> set (own base (vw_prepared v))" for p
  proof -
    have "decodes (fst p)" using that assms(1) unfolding settled_def by blast
    moreover have "p \<in> set F \<or> p = (x, ws)" using that assms(4) by blast
    ultimately show ?thesis by auto
  qed
  ultimately show ?thesis using assms(1,3) unfolding settled_def by (auto simp del: own_set)
qed

lemma settled_others:
  assumes "own_unchanged base v v1" "settled base F v"
  shows "settled base F v1"
proof -
  have e: "own base (vw_prepared v1) = own base (vw_prepared v)" "own base (vw_committed v1) = own base (vw_committed v)"
    using assms(1) by (simp_all add: own_unchanged_def)
  have "p \<in> set (vw_prepared v1) \<union> set (vw_committed v1)" if p: "p \<in> set F" for p
  proof -
    have "numbered base F" using assms(2) by (simp add: settled_def)
    then have "xid_window base (fst p) \<noteq> None" using numberedD [OF _ p] by blast
    moreover have "p \<in> set (vw_prepared v) \<union> set (vw_committed v)" using assms(2) p unfolding settled_def by blast
    ultimately have "p \<in> set (own base (vw_prepared v1)) \<union> set (own base (vw_committed v1))" unfolding e by simp
    then show ?thesis by auto
  qed
  then have "set F \<subseteq> set (vw_prepared v1) \<union> set (vw_committed v1)" by blast
  then show ?thesis using assms(2) e unfolding settled_def by metis
qed

lemma rows_to_Suc: "rows_to src (Suc n) = rows_to src n @ [src n]"
  by (simp add: rows_to_def)

lemma open_rows_buffer [simp]: "open_rows sx (w\<lparr>xw_buffer := b\<rparr>) v rows = open_rows sx w v rows"
  by (simp add: open_rows_def window_xid_def)

lemma ledger_same:
  assumes "ledger_ok sx sv cfg src F R wd"
    and "vw_prepared (sv_view sv s) = vw_prepared (sv_view sv (wd_server wd))"
    and "vw_committed (sv_view sv s) = vw_committed (sv_view sv (wd_server wd))"
  shows "ledger_ok sx sv cfg src F R (wd\<lparr>wd_writer := w, wd_server := s, wd_alive := a, wd_pos := p\<rparr>)"
  using assms settled_cong [OF assms(2,3)] by (simp add: ledger_ok_def Let_def)

lemma writer_flush:
  assumes "xa_law sv" "writer_ok sx cfg src F R (sv_view sv s) w0 pos0" "w = w0\<lparr>xw_buffer := b\<rparr>"
    and "concat R @ rows @ b = rows_to src pos" "open_rows sx w0 (sv_view sv s) rows" "flush_batch sx sv w s = (res, w1, s1)"
  shows "vw_prepared (sv_view sv s1) = vw_prepared (sv_view sv s) \<and> vw_committed (sv_view sv s1) = vw_committed (sv_view sv s) \<and>
    (res = Inr () \<longrightarrow> writer_ok sx cfg src F R (sv_view sv s1) w1 pos \<and> xw_buffer w1 = [])"
proof -
  have w: "xw_conn w" "xw_schema w \<noteq> None" "open_rows sx w (sv_view sv s) rows" using assms by (simp_all add: writer_ok_def)
  show ?thesis using flush_keeps [OF assms(1) w(1,2) assms(6)] w assms(2,3,4) by (auto simp: writer_ok_def same_place_def)
qed

lemma write_keeps:
  assumes "xa_law sv" "world_ok sx sv cfg src F R wd" "wd_alive wd"
    and "xa_write sx sv (src (wd_pos wd)) (wd_writer wd) (wd_server wd) = (res, w, s)"
  shows "world_ok sx sv cfg src F R (wd\<lparr>wd_writer := w, wd_server := s, wd_alive := (res = Inr ()), wd_pos := wd_pos wd + 1\<rparr>)"
proof -
  have wo: "writer_ok sx cfg src F R (sv_view sv (wd_server wd)) (wd_writer wd) (wd_pos wd)"
    and lo: "ledger_ok sx sv cfg src F R wd" using assms(2,3) by (auto simp: world_ok_def)
  let ?b = "xw_buffer (wd_writer wd) @ [src (wd_pos wd)]"
  let ?w = "(wd_writer wd)\<lparr>xw_buffer := ?b\<rparr>"
  obtain rows where o: "open_rows sx (wd_writer wd) (sv_view sv (wd_server wd)) rows"
    and r: "concat R @ rows @ ?b = rows_to src (wd_pos wd + 1)"
    using wo by (auto simp: writer_ok_def rows_to_Suc)
  show ?thesis
  proof (cases "xc_batch_size (xw_config (wd_writer wd)) \<le> length (xw_buffer (wd_writer wd)) + 1")
    case True
    then have "flush_batch sx sv ?w (wd_server wd) = (res, w, s)" using assms(4) by (simp add: xa_write_def)
    note k = writer_flush [OF assms(1) wo refl r o this]
    show ?thesis using k ledger_same [OF lo, where s = s and w = w and a = "res = Inr ()" and p = "wd_pos wd + 1"] by (simp add: world_ok_def)
  next
    case False
    then have "res = Inr ()" "w = ?w" "s = wd_server wd" using assms(4) by (auto simp: xa_write_def)
    moreover have "writer_ok sx cfg src F R (sv_view sv (wd_server wd)) ?w (wd_pos wd + 1)"
      using wo o r by (auto simp: writer_ok_def)
    ultimately show ?thesis using ledger_same [OF lo refl refl, where w = w and a = True and p = "wd_pos wd + 1"] by (simp add: world_ok_def)
  qed
qed

lemma poll_keeps:
  assumes "xa_law sv" "world_ok sx sv cfg src F R wd" "wd_alive wd"
    and "xa_poll_flush sx sv (wd_writer wd) (wd_server wd) = (res, w, s)"
  shows "world_ok sx sv cfg src F R (wd\<lparr>wd_writer := w, wd_server := s, wd_alive := (res = Inr ())\<rparr>)"
proof -
  have wo: "writer_ok sx cfg src F R (sv_view sv (wd_server wd)) (wd_writer wd) (wd_pos wd)"
    and lo: "ledger_ok sx sv cfg src F R wd" using assms(2,3) by (auto simp: world_ok_def)
  obtain rows where o: "open_rows sx (wd_writer wd) (sv_view sv (wd_server wd)) rows"
    and r: "concat R @ rows @ xw_buffer (wd_writer wd) = rows_to src (wd_pos wd)"
    using wo by (auto simp: writer_ok_def)
  have fl: "flush_batch sx sv (wd_writer wd) (wd_server wd) = (res, w, s)"
    using assms(4) by (auto simp: xa_poll_flush_def flush_batch_def split: if_splits)
  show ?thesis using writer_flush [OF assms(1) wo _ r o fl] ledger_same [OF lo, where s = s and w = w and a = "res = Inr ()" and p = "wd_pos wd"]
    by (simp add: world_ok_def)
qed

lemma durable_keeps:
  assumes "world_ok sx sv cfg src F R wd" "wd_snaps wd = older @ snap # newer"
  shows "world_ok sx sv cfg src F R (wd\<lparr>wd_durable := snap, wd_snaps := newer\<rparr>)"
proof -
  let ?dw = "xs_window (fst (wd_durable wd))" and ?n = "xs_window (fst snap)"
  have lo: "ledger_ok sx sv cfg src F R wd" using assms(1) by (simp add: world_ok_def)
  have sn: "snaps_ok src R ?dw (older @ snap # newer)" and l2: "list_all2 (rendered sx cfg) (map snd F) R"
    using lo assms(2) by (simp_all add: ledger_ok_def Let_def)
  then have n: "?dw \<le> ?n" "?n \<le> length R" "concat (take ?n R) = rows_to src (snd snap)" "snaps_ok src R ?n newer"
    by (auto simp: snaps_ok_def sorted_append)
  moreover have "length R = length F" using l2 by (simp add: list_all2_conv_all_nth)
  moreover have "set (take ?dw F) \<subseteq> set (take ?n F)" using n(1) by (rule set_take_subset_set_take)
  ultimately show ?thesis using assms(1) lo by (auto simp: world_ok_def ledger_ok_def Let_def)
qed

lemma commit_infos_keeps:
  assumes "xa_law sv"
  shows "settled base H (sv_view sv s) \<Longrightarrow>
    \<forall>i\<in>set is. xid_window base (xi_xid i) = Some (xi_window i) \<and> xi_window i \<le> length H \<Longrightarrow>
    commit_infos sv prepared is agg s = (res, s1) \<Longrightarrow>
    settled base H (sv_view sv s1) \<and> vw_active (sv_view sv s1) = vw_active (sv_view sv s) \<and>
    set (vw_prepared (sv_view sv s1)) \<subseteq> set (vw_prepared (sv_view sv s))"
proof (induction "is" arbitrary: agg s)
  case (Cons i "is")
  show ?case
  proof (cases "xi_xid i \<in> set prepared")
    case True
    obtain r s2 where ex: "sv_exec sv (XA_Commit (xi_xid i)) s = (r, s2)" by (cases "sv_exec sv (XA_Commit (xi_xid i)) s")
    have w: "xid_window base (xi_xid i) = Some (xi_window i)" and le: "xi_window i \<le> length H" using Cons.prems(2) by auto
    have one: "settled base H (sv_view sv s2) \<and> vw_active (sv_view sv s2) = vw_active (sv_view sv s) \<and>
        set (vw_prepared (sv_view sv s2)) \<subseteq> set (vw_prepared (sv_view sv s))"
      using settle_one_keeps [OF assms Cons.prems(1) w] ex le by auto
    show ?thesis
    proof (cases r)
      case (Inl e)
      then show ?thesis using Cons.prems(3) True ex one by (simp add: Let_def)
    next
      case (Inr u)
      then have "commit_infos sv prepared is (agg\<lparr>xg_rows := xg_rows agg + xi_rows i, xg_committed := xg_committed agg + 1\<rparr>) s2 = (res, s1)"
        using Cons.prems(3) True ex by (simp add: Let_def)
      from Cons.IH [OF _ _ this] show ?thesis using Cons.prems(2) one by auto
    qed
  next
    case False
    then show ?thesis using Cons.IH [OF Cons.prems(1), of "agg\<lparr>xg_rows := xg_rows agg + xi_rows i\<rparr>"] Cons.prems by (simp add: Let_def)
  qed
qed simp

lemma writer_view:
  assumes "writer_ok sx cfg src F R v w pos" "vw_active v1 = vw_active v"
    and "set (own (xid_base cfg) (vw_prepared v1)) \<subseteq> set (own (xid_base cfg) (vw_prepared v))"
  shows "writer_ok sx cfg src F R v1 w pos"
  using assms(1) subset_trans [OF assms(3)] unfolding writer_ok_def open_rows_def assms(2) by blast

lemma commit_step_keeps:
  assumes "xa_law sv" "world_ok sx sv cfg src F R wd"
    and "\<forall>i\<in>set is. i \<in> set (wd_infos wd) \<and> xi_window i \<le> xs_window (fst (wd_durable wd))"
    and "xa_commit sv is (wd_server wd) = (res, s)"
  shows "world_ok sx sv cfg src F R (wd\<lparr>wd_server := s, wd_alive := (wd_alive wd \<and> \<not> isl res)\<rparr>)"
proof (cases "xa_recover sv (wd_server wd)")
  case (Inl e)
  then show ?thesis using assms by (auto simp: xa_commit_def world_ok_def ledger_ok_def)
next
  case (Inr prepared)
  then have run: "commit_infos sv prepared is \<lparr>xg_committed = 0, xg_rows = 0\<rparr> (wd_server wd) = (res, s)"
    using assms(4) by (simp add: xa_commit_def)
  let ?dw = "xs_window (fst (wd_durable wd))" and ?v = "sv_view sv (wd_server wd)"
  have lo: "ledger_ok sx sv cfg src F R wd" using assms(2) by (simp add: world_ok_def)
  then have st: "settled (xid_base cfg) F ?v" "?dw \<le> length F" "set (own (xid_base cfg) (vw_committed ?v)) \<subseteq> set (take ?dw F)"
    by (simp_all add: ledger_ok_def Let_def del: own_set)
  have "xid_window (xid_base cfg) (xi_xid i) = Some (xi_window i) \<and> xi_window i \<le> ?dw" if i: "i \<in> set is" for i
  proof -
    have "\<forall>i\<in>set (wd_infos wd). \<exists>k < length F. xi_window i = Suc k \<and> xi_xid i = fst (F ! k)"
      using lo by (simp add: ledger_ok_def Let_def)
    then obtain k where "k < length F" "xi_window i = Suc k" "xi_xid i = fst (F ! k)" using assms(3) i by blast
    moreover have "numbered (xid_base cfg) F" using st(1) by (simp add: settled_def)
    moreover have "xi_window i \<le> ?dw" using assms(3) i by blast
    ultimately show ?thesis by (simp add: numbered_def)
  qed
  then have w: "\<forall>i\<in>set is. xid_window (xid_base cfg) (xi_xid i) = Some (xi_window i) \<and> xi_window i \<le> length (take ?dw F)"
    and w': "\<forall>i\<in>set is. xid_window (xid_base cfg) (xi_xid i) = Some (xi_window i) \<and> xi_window i \<le> length F"
    using st(2) by (simp_all add: min_absorb2) (meson order_trans)
  have "settled (xid_base cfg) (take ?dw F) (sv_view sv s)"
    using commit_infos_keeps [OF assms(1) settled_take [OF st] w run] by blast
  then have c: "set (own (xid_base cfg) (vw_committed (sv_view sv s))) \<subseteq> set (take ?dw F)" unfolding settled_def by blast
  have k: "settled (xid_base cfg) F (sv_view sv s)" "vw_active (sv_view sv s) = vw_active ?v"
    "set (vw_prepared (sv_view sv s)) \<subseteq> set (vw_prepared ?v)"
    using commit_infos_keeps [OF assms(1) st(1) w' run] by blast+
  have "writer_ok sx cfg src F R (sv_view sv s) (wd_writer wd) (wd_pos wd)" if "wd_alive wd"
    using writer_view [OF _ k(2)] assms(2) that k(3) by (fastforce simp: world_ok_def)
  then show ?thesis using lo c k(1) by (simp add: world_ok_def ledger_ok_def Let_def del: own_set)
qed

lemma others_keeps:
  assumes "world_ok sx sv cfg src F R wd" "own_unchanged (xid_base cfg) (sv_view sv (wd_server wd)) (sv_view sv s)"
  shows "world_ok sx sv cfg src F R (wd\<lparr>wd_server := s\<rparr>)"
proof -
  have "ledger_ok sx sv cfg src F R (wd\<lparr>wd_server := s\<rparr>)"
    using assms settled_others [OF assms(2)] by (simp add: world_ok_def ledger_ok_def own_unchanged_def Let_def del: own_set)
  moreover have "writer_ok sx cfg src F R (sv_view sv s) (wd_writer wd) (wd_pos wd)" if "wd_alive wd"
    using writer_view assms that unfolding world_ok_def own_unchanged_def by fastforce
  ultimately show ?thesis by (simp add: world_ok_def)
qed

lemma base_xid_decodes:
  assumes "xw_base w = xid_base cfg" "strip_prefix ''0x'' (xid_base cfg) = None"
  shows "decodes (window_xid w n)"
proof (rule own_xid_decodes [OF assms(1)])
  have "2 \<le> length (xw_base w)" by (simp add: assms(1) xid_base_def)
  then show "strip_prefix ''0x'' (window_xid w n) = None" using own_xid_not_hex assms by metis
qed

lemma fresh_window:
  assumes "settled base F v" "set (own base (vw_prepared v)) \<subseteq> set F" "xid_window base x = Some (Suc (length F))"
  shows "x \<notin> fst ` set (vw_prepared v)"
proof
  assume "x \<in> fst ` set (vw_prepared v)"
  then obtain p where p: "p \<in> set (own base (vw_prepared v))" "fst p = x" using assms(3) by auto
  then have "p \<in> set F" using assms(2) by blast
  moreover have "numbered base F" using assms(1) by (simp add: settled_def)
  ultimately show False using numberedD [of base F p] p(2) assms(3) by auto
qed

lemma ledger_dead:
  assumes "ledger_ok sx sv cfg src F R wd" "settled (xid_base cfg) F (sv_view sv s)"
    and "vw_committed (sv_view sv s) = vw_committed (sv_view sv (wd_server wd))"
  shows "ledger_ok sx sv cfg src F R (wd\<lparr>wd_writer := w, wd_server := s, wd_alive := a\<rparr>)"
  using assms by (simp add: ledger_ok_def Let_def)

text \<open>A window without a transaction: the snapshot repeats the window of the last barrier.\<close>

lemma idle_barrier:
  assumes "ledger_ok sx sv cfg src F R wd" "writer_ok sx cfg src F R (sv_view sv (wd_server wd)) (wd_writer wd) (wd_pos wd)"
    and "xw_buffer (wd_writer wd) = []" "\<not> xw_txn_open (wd_writer wd)" "wd_alive wd"
  shows "world_ok sx sv cfg src F R (wd\<lparr>wd_snaps := wd_snaps wd @ [(xa_snapshot_state (wd_writer wd), wd_pos wd)]\<rparr>)"
proof -
  let ?dw = "xs_window (fst (wd_durable wd))" and ?w = "wd_writer wd"
  have w: "xs_window (xa_snapshot_state ?w) = length R" "concat R = rows_to src (wd_pos wd)" "?dw \<le> length R"
    using assms by (auto simp: ledger_ok_def writer_ok_def open_rows_def xa_snapshot_state_def Let_def list_all2_conv_all_nth)
  have "snaps_ok src R ?dw (wd_snaps wd)" using assms(1) by (simp add: ledger_ok_def Let_def)
  then have "snaps_ok src R ?dw (wd_snaps wd @ [(xa_snapshot_state ?w, wd_pos wd)])"
    using w by (fastforce simp: snaps_ok_def sorted_append)
  then show ?thesis using assms by (simp add: world_ok_def ledger_ok_def Let_def)
qed

lemma snaps_extend:
  assumes "snaps_ok src R dw snaps" "dw \<le> length R" "concat (R @ [rows]) = rows_to src pos" "xs_window st = Suc (length R)"
  shows "snaps_ok src (R @ [rows]) dw (snaps @ [(st, pos)])"
  using assms by (fastforce simp: snaps_ok_def sorted_append)

text \<open>A prepared window: its transaction and its rows join the ledger.\<close>

lemma prepared_barrier:
  assumes "ledger_ok sx sv cfg src F R wd" "x = window_xid w (Suc (length F))" "xid_window (xid_base cfg) x = Some (Suc (length F))"
    and v1: "sv_view sv s = v\<lparr>vw_active := None, vw_prepared := vw_prepared v @ [(x, ws)]\<rparr>"
    and v: "vw_prepared v = vw_prepared (sv_view sv (wd_server wd))" "vw_committed v = vw_committed (sv_view sv (wd_server wd))"
    and st: "settled (xid_base cfg) F (sv_view sv s)" and own: "set (own (xid_base cfg) (vw_prepared v)) \<subseteq> set F"
    and rows: "rendered sx cfg ws rows" "concat R @ rows = rows_to src (wd_pos wd)"
    and w: "xw_config w = cfg" "xw_base w = xid_base cfg" "xw_conn w" "xw_schema w \<noteq> None" "xw_buffer w = []"
    and i: "xi_xid i = x" "xi_window i = Suc (length F)"
    and w1: "w1 = w\<lparr>xw_txn_open := False, xw_rows_in_txn := 0, xw_window := Suc (length F)\<rparr>"
  shows "world_ok sx sv cfg src (F @ [(x, ws)]) (R @ [rows])
    (wd\<lparr>wd_writer := w1, wd_server := s, wd_infos := wd_infos wd @ [i], wd_snaps := wd_snaps wd @ [(xa_snapshot_state w1, wd_pos wd)]\<rparr>)"
proof -
  let ?F = "F @ [(x, ws)]" and ?R = "R @ [rows]" and ?b = "xid_base cfg"
  have len: "length R = length F" and dw: "xs_window (fst (wd_durable wd)) \<le> length F"
    and l2: "list_all2 (rendered sx cfg) (map snd F) R"
    using assms(1) by (simp_all add: ledger_ok_def Let_def list_all2_conv_all_nth)
  have pr: "\<forall>p\<in>set (own ?b (vw_prepared (sv_view sv s))). p \<in> set F \<or> p = (x, ws)" using own unfolding v1 by auto
  then have "settled ?b ?F (sv_view sv s)" using settled_snoc [OF st assms(3)] unfolding v1 by simp
  moreover have "snaps_ok src ?R (xs_window (fst (wd_durable wd))) (wd_snaps wd @ [(xa_snapshot_state w1, wd_pos wd)])"
    using assms(1) rows(2) dw len w1 by (intro snaps_extend) (simp_all add: ledger_ok_def Let_def xa_snapshot_state_def)
  moreover have "list_all2 (rendered sx cfg) (map snd ?F) ?R" using l2 rows(1) by (simp add: list_all2_appendI)
  moreover have "\<forall>j\<in>set (wd_infos wd @ [i]). \<exists>k < length ?F. xi_window j = Suc k \<and> xi_xid j = fst (?F ! k)"
  proof -
    have "\<forall>j\<in>set (wd_infos wd). \<exists>k < length F. xi_window j = Suc k \<and> xi_xid j = fst (F ! k)"
      using assms(1) by (simp add: ledger_ok_def Let_def)
    then show ?thesis using i by (fastforce simp: nth_append)
  qed
  moreover have "writer_ok sx cfg src ?F ?R (sv_view sv s) w1 (wd_pos wd)"
    using pr rows(2) w unfolding writer_ok_def w1 by (auto simp: open_rows_def v1 simp del: own_set)
  ultimately show ?thesis using assms(1) dw len
    by (simp add: world_ok_def ledger_ok_def Let_def v1 v del: own_set)
qed

lemma end_keeps: "xa_law sv \<Longrightarrow> sv_exec sv (XA_End x) s = (r, s1) \<Longrightarrow> sv_view sv s1 = sv_view sv s"
  using law_exec [of sv "XA_End x" s r s1] by (auto simp: xa_effect_def split: option.splits if_splits)

lemma prepare_committed: "xa_effect (XA_Prepare x) v = Some v1 \<Longrightarrow> vw_committed v1 = vw_committed v"
  by (auto simp: xa_effect_def split: option.splits if_splits)

text \<open>The two statements that end a window, whatever they answer.\<close>

lemma end_prepare_keeps:
  assumes "xa_law sv" "strip_prefix ''0x'' (xid_base cfg) = None" "ledger_ok sx sv cfg src F R wd"
    and w: "writer_ok sx cfg src F R (sv_view sv s) w (wd_pos wd)" "xw_buffer w = []" "xw_txn_open w"
    and v: "vw_prepared (sv_view sv s) = vw_prepared (sv_view sv (wd_server wd))"
      "vw_committed (sv_view sv s) = vw_committed (sv_view sv (wd_server wd))"
    and x: "x = window_xid w (Suc (length F))" "sv_exec sv (XA_End x) s = (r2, s2)" "sv_exec sv (XA_Prepare x) s2 = (r3, s3)"
    and w1: "w1 = w\<lparr>xw_txn_open := False, xw_rows_in_txn := 0, xw_window := Suc (length F)\<rparr>"
    and i: "xi_xid i = x" "xi_window i = Suc (length F)"
  shows "settled (xid_base cfg) F (sv_view sv s2) \<and> settled (xid_base cfg) F (sv_view sv s3) \<and>
    vw_committed (sv_view sv s2) = vw_committed (sv_view sv (wd_server wd)) \<and>
    vw_committed (sv_view sv s3) = vw_committed (sv_view sv (wd_server wd)) \<and>
    (r3 = Inr () \<longrightarrow> (\<exists>F R. world_ok sx sv cfg src F R
      (wd\<lparr>wd_writer := w1, wd_server := s3, wd_infos := wd_infos wd @ [i], wd_snaps := wd_snaps wd @ [(xa_snapshot_state w1, wd_pos wd)]\<rparr>)))"
proof -
  let ?b = "xid_base cfg"
  have st: "settled ?b F (sv_view sv s)" using assms(3) settled_cong [OF v] by (simp add: ledger_ok_def Let_def)
  have wx: "xw_conn w" "xw_base w = ?b" "xw_window w = length F" "xw_config w = cfg" "xw_schema w \<noteq> None"
    using w(1) by (auto simp: writer_ok_def)
  have v2: "sv_view sv s2 = sv_view sv s" by (rule end_keeps [OF assms(1) x(2)])
  obtain rows ws where act: "length F < u64_max" "vw_active (sv_view sv s) = Some (x, ws)"
    "rendered sx cfg ws rows" "concat R @ rows = rows_to src (wd_pos wd)"
    using w wx x(1) by (auto simp: writer_ok_def open_rows_def)
  have xw: "xid_window ?b x = Some (Suc (length F))" using own_xid_window [of "Suc (length F)" w] act(1) wx(2) x(1) by simp
  have own: "set (own ?b (vw_prepared (sv_view sv s))) \<subseteq> set F" using w(1) by (simp add: writer_ok_def)
  have dec: "decodes x" using base_xid_decodes [OF wx(2) assms(2)] x(1) by simp
  have pk: "settled ?b F v1" if "xa_effect (XA_Prepare x) (sv_view sv s) = Some v1" for v1
    using prepare_keeps [OF st xw _ dec fresh_window [OF st own xw] that] by simp
  have done3: "\<exists>F R. world_ok sx sv cfg src F R
      (wd\<lparr>wd_writer := w1, wd_server := s3, wd_infos := wd_infos wd @ [i], wd_snaps := wd_snaps wd @ [(xa_snapshot_state w1, wd_pos wd)]\<rparr>)"
    if "r3 = Inr ()"
  proof -
    have v3: "xa_effect (XA_Prepare x) (sv_view sv s) = Some (sv_view sv s3)"
      using law_exec_ok [OF assms(1), of "XA_Prepare x" s2] x(3) that v2 by simp
    then have "sv_view sv s3 = (sv_view sv s)\<lparr>vw_active := None, vw_prepared := vw_prepared (sv_view sv s) @ [(x, ws)]\<rparr>"
      using act(2) by (simp add: xa_effect_def)
    from prepared_barrier [OF assms(3) x(1) xw this v pk [OF v3] own act(3,4) wx(4,2,1,5) w(2) i w1] show ?thesis by blast
  qed
  have "settled ?b F (sv_view sv s3) \<and> vw_committed (sv_view sv s3) = vw_committed (sv_view sv (wd_server wd))"
    using law_exec [OF assms(1) x(3)] v2 st pk v(2) prepare_committed by metis
  then show ?thesis using done3 v2 v(2) st by simp
qed

lemma barrier_keeps:
  assumes "xa_law sv" "strip_prefix ''0x'' (xid_base cfg) = None" "world_ok sx sv cfg src F R wd" "wd_alive wd"
  shows "\<exists>F R. world_ok sx sv cfg src F R (xa_barrier sx sv cp wd)"
proof -
  let ?b = "xid_base cfg" and ?v = "sv_view sv (wd_server wd)"
  have wo: "writer_ok sx cfg src F R ?v (wd_writer wd) (wd_pos wd)"
    and lo: "ledger_ok sx sv cfg src F R wd" using assms(3,4) by (auto simp: world_ok_def)
  obtain rows where o: "open_rows sx (wd_writer wd) ?v rows"
    and r: "concat R @ rows @ xw_buffer (wd_writer wd) = rows_to src (wd_pos wd)"
    using wo by (auto simp: writer_ok_def)
  obtain res w s where fl: "flush_batch sx sv (wd_writer wd) (wd_server wd) = (res, w, s)" by (metis surj_pair)
  note k = writer_flush [OF assms(1) wo _ r o fl]
  have conn: "xw_conn (wd_writer wd)" using wo by (simp add: writer_ok_def)
  have dead: "\<exists>F R. world_ok sx sv cfg src F R (wd\<lparr>wd_writer := w', wd_server := s', wd_alive := False\<rparr>)"
    if "settled ?b F (sv_view sv s')" "vw_committed (sv_view sv s') = vw_committed ?v" for w' s'
    using ledger_dead [OF lo that] by (auto simp: world_ok_def)
  have st: "settled ?b F (sv_view sv s)" using lo k settled_cong [of "sv_view sv s" ?v] by (auto simp: ledger_ok_def Let_def)
  consider e where "res = Inl e" | "res = Inr ()" "\<not> xw_txn_open w" | "res = Inr ()" "xw_txn_open w" by (cases res) auto
  then show ?thesis
  proof cases
    case 1
    then show ?thesis using dead [OF st] k fl conn by (simp add: xa_barrier_def xa_prepare_commit_def ensure_connected_def xa_bind_def)
  next
    case 2
    have "ledger_ok sx sv cfg src F R (wd\<lparr>wd_writer := w, wd_server := s\<rparr>)" using lo st k by (simp add: ledger_ok_def Let_def)
    from idle_barrier [OF this] show ?thesis using k 2 assms(4) fl conn
      by (auto simp: xa_barrier_def xa_prepare_commit_def ensure_connected_def xa_bind_def intro!: exI)
  next
    case 3
    then have w: "writer_ok sx cfg src F R (sv_view sv s) w (wd_pos wd)" "xw_buffer w = []" using k by auto
    let ?x = "window_xid w (Suc (length F))"
    obtain r2 s2 where en: "sv_exec sv (XA_End ?x) s = (r2, s2)" by (cases "sv_exec sv (XA_End ?x) s")
    obtain r3 s3 where pp: "sv_exec sv (XA_Prepare ?x) s2 = (r3, s3)" by (cases "sv_exec sv (XA_Prepare ?x) s2")
    note e = end_prepare_keeps [OF assms(1,2) lo w 3(2) _ _ refl en pp refl,
        of "\<lparr>xi_xid = ?x, xi_checkpoint_id = cp, xi_window = Suc (length F), xi_rows = xw_rows_in_txn w\<rparr>"]
    have "xw_conn w" "xw_window w = length F" using w by (auto simp: writer_ok_def)
    then show ?thesis using e dead [of s2] dead [of s3] k fl en pp 3 conn
      by (auto simp: xa_barrier_def xa_prepare_commit_def ensure_connected_def xa_bind_def xa_exec_def Let_def split: sum.splits)
  qed
qed

lemma restart_keeps:
  assumes "xa_law sv" "world_ok sx sv cfg src F R wd"
  shows "\<exists>F R. world_ok sx sv cfg src F R (xa_restart sv cfg epoch wd) \<and> length F = xs_window (fst (wd_durable wd)) \<and>
    (wd_alive (xa_restart sv cfg epoch wd) \<longrightarrow> own (xid_base cfg) (vw_prepared (sv_view sv (wd_server (xa_restart sv cfg epoch wd)))) = [])"
proof -
  let ?b = "xid_base cfg" and ?dw = "xs_window (fst (wd_durable wd))" and ?v = "sv_view sv (wd_server wd)"
  let ?F = "take ?dw F" and ?R = "take ?dw R" and ?s = "sv_drop sv (wd_server wd)"
  let ?w = "restore_from_state (fst (wd_durable wd)) (xa_writer_new cfg epoch)"
  have lo: "list_all2 (rendered sx cfg) (map snd F) R" "settled ?b F ?v" "?dw \<le> length F"
    "set (own ?b (vw_committed ?v)) \<subseteq> set ?F" "concat ?R = rows_to src (snd (wd_durable wd))"
    using assms(2) by (simp_all add: world_ok_def ledger_ok_def Let_def del: own_set)
  have l2: "list_all2 (rendered sx cfg) (map snd ?F) ?R" using lo(1) by (metis list_all2_takeI take_map)
  have dv: "sv_view sv ?s = ?v\<lparr>vw_active := None\<rparr>" using assms(1) by (simp add: xa_law_def)
  then have st: "settled ?b ?F (sv_view sv ?s)" using settled_take [OF lo(2-4)] settled_cong [of "sv_view sv ?s" ?v] by simp
  have len: "length ?F = ?dw" using lo(3) by simp
  obtain res w s where oc: "ensure_connected sv ?w ?s = (res, w, s)" by (metis surj_pair)
  have new: "\<not> xw_conn ?w" "xw_base ?w = ?b" "xw_window ?w = length ?F" "xw_config ?w = cfg" "xw_buffer ?w = []" "\<not> xw_txn_open ?w"
    using len by (simp_all add: restore_from_state_def xa_writer_new_def)
  note k = connect_keeps [OF assms(1) new(1-3) st oc]
  have wd: "xa_restart sv cfg epoch wd = \<lparr>wd_writer = w, wd_server = s, wd_alive = (res = Inr ()), wd_pos = snd (wd_durable wd),
      wd_snaps = [], wd_infos = [], wd_durable = wd_durable wd\<rparr>"
    using oc by (simp add: xa_restart_def xa_open_def)
  have "set (own ?b (vw_committed (sv_view sv s))) \<subseteq> set ?F" using k unfolding settled_def by blast
  then have "ledger_ok sx sv cfg src ?F ?R (xa_restart sv cfg epoch wd)"
    using l2 k lo(3,5) unfolding wd by (simp add: ledger_ok_def Let_def snaps_ok_def del: own_set)
  moreover have "writer_ok sx cfg src ?F ?R (sv_view sv s) w (snd (wd_durable wd))" if "res = Inr ()"
    using k that new lo(5) dv by (auto simp: writer_ok_def open_rows_def same_place_def simp del: own_set)
  ultimately have "world_ok sx sv cfg src ?F ?R (xa_restart sv cfg epoch wd)" unfolding wd by (simp add: world_ok_def)
  moreover have "res = Inr () \<longrightarrow> own ?b (vw_prepared (sv_view sv s)) = []" using k by blast
  ultimately show ?thesis using len wd by (intro exI [where x = ?F] exI [where x = ?R]) simp
qed

lemma xa_step_keeps:
  assumes "xa_law sv" "strip_prefix ''0x'' (xid_base cfg) = None" "xa_step sx sv cfg src wd wd1" "world_ok sx sv cfg src F R wd"
  shows "\<exists>F R. world_ok sx sv cfg src F R wd1"
  using assms(3,4)
proof cases
  case (write_row res w s)
  then show ?thesis using write_keeps [OF assms(1,4)] by blast
next
  case (poll res w s)
  then show ?thesis using poll_keeps [OF assms(1,4)] by blast
next
  case (barrier cp)
  then show ?thesis using barrier_keeps [OF assms(1,2,4)] by simp
next
  case (durable older snap newer)
  then show ?thesis using durable_keeps [OF assms(4)] by blast
next
  case (commit "is" res s)
  then show ?thesis using commit_step_keeps [OF assms(1,4) commit(3,4)] by auto
next
  case (restart epoch)
  then show ?thesis using restart_keeps [OF assms(1,4)] by blast
next
  case (others s)
  then show ?thesis using others_keeps [OF assms(4)] by blast
qed

lemma xa_initial_ok:
  assumes "own (xid_base cfg) (vw_prepared (sv_view sv s)) = []" "own (xid_base cfg) (vw_committed (sv_view sv s)) = []"
  shows "world_ok sx sv cfg src [] [] (xa_initial cfg s)"
  using assms
  by (simp add: world_ok_def ledger_ok_def xa_initial_def settled_def numbered_def snaps_ok_def rows_to_def Let_def del: own_set)

lemma xa_reachable_ok:
  assumes "xa_law sv" "strip_prefix ''0x'' (xid_base cfg) = None"
    and "own (xid_base cfg) (vw_prepared (sv_view sv s0)) = []" "own (xid_base cfg) (vw_committed (sv_view sv s0)) = []"
    and "(xa_step sx sv cfg src)\<^sup>*\<^sup>* (xa_initial cfg s0) wd"
  shows "\<exists>F R. world_ok sx sv cfg src F R wd"
  using assms(5)
proof (induction rule: rtranclp_induct)
  case base
  then show ?case using xa_initial_ok [OF assms(3,4)] by blast
next
  case (step wd1 wd2)
  then show ?case using xa_step_keeps [OF assms(1,2)] by blast
qed

section \<open>A server that satisfies the law\<close>

definition plain_server :: "table_schema \<Rightarrow> xa_view xa_server" where
  "plain_server sc =
     \<lparr>sv_exec = (\<lambda>st v. case xa_effect st v of None \<Rightarrow> (Inl ''XAER'', v) | Some v1 \<Rightarrow> (Inr (), v1)),
      sv_recover = (\<lambda>v. Inr (map (\<lambda>(x, ws). (length x, x)) (vw_prepared v))),
      sv_schema = (\<lambda>t v. Inr (Some sc)), sv_connect = (\<lambda>v. Inr ()), sv_kill = (\<lambda>d v. v),
      sv_drop = (\<lambda>v. v\<lparr>vw_active := None\<rparr>), sv_view = (\<lambda>v. v)\<rparr>"

lemma plain_server_law: "xa_law (plain_server sc)"
  by (simp add: xa_law_def plain_server_def split: option.split)

definition xa_demo_config :: xa_config where
  "xa_demo_config = \<lparr>xc_url = ''jdbc:mysql://db1:3307/shop?useSSL=false'', xc_database = None, xc_table = ''t'', xc_primary_keys = [],
     xc_batch_size = 1, xc_enable_upsert = False, xc_xid_prefix = ''st'', xc_pipeline = ''p'', xc_subtask = 0\<rparr>"

definition xa_demo_schema :: table_schema where
  "xa_demo_schema = table_schema_new ''t'' [column_def_new ''a'' TBool]"

definition demo_texts :: sql_texts where
  "demo_texts = \<lparr>sx_texts = \<lparr>tx_f32 = (\<lambda>w. []), tx_f64 = (\<lambda>w. []), tx_decimal = (\<lambda>m e. []), tx_json = (\<lambda>v. []),
       tx_date = show_int, tx_time = show_int, tx_datetime = show_int, tx_timestamp = show_int\<rparr>, sx_list = (\<lambda>fs. []), sx_widen = ucast\<rparr>"

definition demo_source :: "nat \<Rightarrow> row" where
  "demo_source n = \<lparr>row_kind = Insert, row_fields = [FBool (even n)], row_origin = None\<rparr>"

abbreviation "demo_server \<equiv> plain_server xa_demo_schema"

abbreviation "demo_empty \<equiv> \<lparr>vw_active = None, vw_prepared = [], vw_committed = []\<rparr>"

definition demo_opened :: "xa_view xa_world" where
  "demo_opened = xa_restart demo_server xa_demo_config 7 (xa_initial xa_demo_config demo_empty)"

definition demo_written :: "xa_view xa_world" where
  "demo_written = (case xa_write demo_texts demo_server (demo_source (wd_pos demo_opened)) (wd_writer demo_opened) (wd_server demo_opened) of
     (res, w, s) \<Rightarrow> demo_opened\<lparr>wd_writer := w, wd_server := s, wd_alive := (res = Inr ()), wd_pos := wd_pos demo_opened + 1\<rparr>)"

definition demo_barrier :: "xa_view xa_world" where
  "demo_barrier = xa_barrier demo_texts demo_server 3 demo_written"

definition demo_durable :: "xa_view xa_world" where
  "demo_durable = demo_barrier\<lparr>wd_durable := hd (wd_snaps demo_barrier), wd_snaps := []\<rparr>"

lemma demo_url: "parse_jdbc_url (xc_url xa_demo_config) =
   Inr \<lparr>ju_dialect = MySql, ju_host = ''db1'', ju_port = 3307, ju_database = ''shop''\<rparr>"
  unfolding xa_demo_config_def xa_config.simps by (rule jdbc_url_roundtrip_witness)

lemma demo_base: "xid_base xa_demo_config = ''st-p-0''" by code_simp

lemma demo_cfg [simp]: "xc_database xa_demo_config = None" "xc_primary_keys xa_demo_config = []" "xc_batch_size xa_demo_config = 1"
  "\<not> xc_enable_upsert xa_demo_config"
  by (simp_all add: xa_demo_config_def)

lemma plain_server_simps [simp]:
  "sv_exec (plain_server sc) st v = (case xa_effect st v of None \<Rightarrow> (Inl ''XAER'', v) | Some v1 \<Rightarrow> (Inr (), v1))"
  "sv_recover (plain_server sc) v = Inr (map (\<lambda>(x, ws). (length x, x)) (vw_prepared v))"
  "sv_schema (plain_server sc) t v = Inr (Some sc)" "sv_connect (plain_server sc) v = Inr ()" "sv_kill (plain_server sc) d v = v"
  "sv_drop (plain_server sc) v = v\<lparr>vw_active := None\<rparr>" "sv_view (plain_server sc) v = v"
  by (simp_all add: plain_server_def)

definition demo_writer :: "nat \<Rightarrow> nat \<Rightarrow> bool \<Rightarrow> xa_writer" where
  "demo_writer epoch n opened =
     (xa_writer_new xa_demo_config epoch)\<lparr>xw_conn := True, xw_schema := Some xa_demo_schema, xw_written := n, xw_window := (if opened then 0 else n),
       xw_txn_open := opened, xw_rows_in_txn := (if opened then n else 0),
       xw_url := Some \<lparr>ju_dialect = MySql, ju_host = ''db1'', ju_port = 3307, ju_database = ''shop''\<rparr>\<rparr>"

lemma demo_opened_eq: "demo_opened =
   \<lparr>wd_writer = demo_writer 7 0 False, wd_server = \<lparr>vw_active = None, vw_prepared = [], vw_committed = []\<rparr>, wd_alive = True, wd_pos = 0,
    wd_snaps = [], wd_infos = [], wd_durable = (\<lparr>xs_window = 0, xs_written = 0\<rparr>, 0)\<rparr>"
  by (simp add: demo_opened_def xa_restart_def xa_initial_def xa_open_def ensure_connected_def restore_from_state_def xa_writer_new_def
     demo_url recover_prepared_def xa_recover_def kill_zombie_sessions_def xa_bind_def List.map_filter_def Let_def demo_writer_def )

lemma u64_pos: "0 < u64_max"
  by (simp add: u64_max_def)

definition demo_prepared :: "string \<times> xa_stmt list" where
  "demo_prepared = (window_xid (demo_writer 7 0 False) 1,
     [Exec (build_insert MySql (qualified_table (demo_writer 7 0 False)) (field_names xa_demo_schema) (map cd_type (ts_columns xa_demo_schema)) 1)
        [SqlBool True]])"

lemmas demo_simps = demo_writer_def xa_writer_new_def xa_bind_def xa_exec_def xa_effect_def ensure_connected_def Let_def

lemma demo_written_eq: "demo_written =
   \<lparr>wd_writer = demo_writer 7 1 True, wd_server = demo_empty\<lparr>vw_active := Some demo_prepared\<rparr>, wd_alive = True, wd_pos = 1,
    wd_snaps = [], wd_infos = [], wd_durable = (\<lparr>xs_window = 0, xs_written = 0\<rparr>, 0)\<rparr>"
  using u64_pos
  by (simp add: demo_written_def demo_opened_eq xa_write_def flush_batch_def ensure_txn_open_def demo_source_def is_delete_def
    write_items_def row_chunks_def demo_prepared_def window_xid_def qualified_table_def demo_simps)

lemma demo_barrier_eq: "demo_barrier =
   \<lparr>wd_writer = demo_writer 7 1 False, wd_server = demo_empty\<lparr>vw_prepared := [demo_prepared]\<rparr>, wd_alive = True, wd_pos = 1,
    wd_snaps = [(\<lparr>xs_window = 1, xs_written = 1\<rparr>, 1)],
    wd_infos = [\<lparr>xi_xid = fst demo_prepared, xi_checkpoint_id = 3, xi_window = 1, xi_rows = 1\<rparr>],
    wd_durable = (\<lparr>xs_window = 0, xs_written = 0\<rparr>, 0)\<rparr>"
  by (simp add: demo_barrier_def demo_written_eq xa_barrier_def xa_prepare_commit_def flush_batch_def xa_snapshot_state_def
    demo_prepared_def window_xid_def qualified_table_def demo_simps)

lemma demo_not_hex: "strip_prefix ''0x'' (xid_base xa_demo_config) = None"
  by (simp add: demo_base strip_prefix_def)

lemma demo_restart: "wd_alive (xa_restart demo_server xa_demo_config 8 demo_durable)"
proof -
  have b: "xw_base (demo_writer 7 0 False) = xid_base xa_demo_config" by (simp add: demo_writer_def xa_writer_new_def)
  obtain x ws where p: "demo_prepared = (x, ws)" by (cases demo_prepared)
  have "decodes x" using base_xid_decodes [OF b demo_not_hex] p by (auto simp: demo_prepared_def)
  moreover have "xid_window (xid_base xa_demo_config) x = Some 1"
    using own_xid_window [of 1 "demo_writer 7 0 False"] u64_pos b p by (auto simp: demo_prepared_def)
  ultimately show ?thesis
    by (simp add: p demo_durable_def demo_barrier_eq xa_restart_def xa_open_def restore_from_state_def recover_prepared_def
      xa_recover_def List.map_filter_def decodes_def demo_url demo_simps)
qed

lemma demo_run: "(xa_step demo_texts demo_server xa_demo_config demo_source)\<^sup>*\<^sup>*
    (xa_initial xa_demo_config demo_empty) demo_durable"
proof -
  let ?step = "xa_step demo_texts demo_server xa_demo_config demo_source"
  have "?step (xa_initial xa_demo_config demo_empty) demo_opened" unfolding demo_opened_def by (rule xa_step.restart)
  moreover have "?step demo_opened demo_written"
  proof -
    obtain res w s where r: "xa_write demo_texts demo_server (demo_source (wd_pos demo_opened)) (wd_writer demo_opened) (wd_server demo_opened) = (res, w, s)"
      by (metis surj_pair)
    show ?thesis using xa_step.write_row [where wd = demo_opened and src = demo_source, OF _ r] by (simp add: demo_written_def r) (simp add: demo_opened_eq)
  qed
  moreover have "?step demo_written demo_barrier" unfolding demo_barrier_def by (rule xa_step.barrier) (simp add: demo_written_eq)
  moreover have "?step demo_barrier demo_durable"
    using xa_step.durable [of demo_barrier "[]" "hd (wd_snaps demo_barrier)" "[]"] by (simp add: demo_durable_def demo_barrier_eq)
  ultimately show ?thesis by (meson rtranclp.rtrancl_refl rtranclp.rtrancl_into_rtrancl)
qed

section \<open>Exactly once\<close>



section \<open>Closing and aborting\<close>

text \<open>
  Closing with an open transaction commits it without preparing it, which the server refuses: the rows of the last
  window are not committed and closing fails.
\<close>

lemma close_never_commits:
  assumes "xa_law sv" "xw_conn w" "xw_txn_open w" "xw_buffer w = []" "window_xid w (xw_window w + 1) \<notin> fst ` set (vw_prepared (sv_view sv s))"
  shows "isl (fst (xa_close sx sv w s))"
proof -
  let ?x = "window_xid w (xw_window w + 1)"
  obtain r s1 where en: "sv_exec sv (XA_End ?x) s = (r, s1)" by (cases "sv_exec sv (XA_End ?x) s")
  obtain r2 s2 where co: "sv_exec sv (XA_Commit ?x) s1 = (r2, s2)" by (cases "sv_exec sv (XA_Commit ?x) s1")
  have "xa_effect (XA_Commit ?x) (sv_view sv s1) = None"
    using assms(5) by (simp add: end_keeps [OF assms(1) en] xa_effect_def map_of_eq_None_iff)
  then have "isl r2" using law_exec [OF assms(1) co] by auto
  then show ?thesis using assms(2-4) en co
    by (cases r; cases r2) (simp_all add: xa_close_def xa_bind_def xa_exec_def Let_def)
qed

text \<open>
  An aborted checkpoint rolls its window back, while the writer counts the window as closed and the source has passed its
  rows: the next checkpoint covers rows that are nowhere.
\<close>

lemma aborted_window_lost:
  "snd (xa_abort demo_server (wd_infos demo_barrier) (wd_server demo_barrier)) = demo_empty \<and>
   xs_window (xa_snapshot_state (wd_writer demo_barrier)) = 1 \<and> wd_pos demo_barrier = 1"
proof -
  have b: "xw_base (demo_writer 7 0 False) = xid_base xa_demo_config" by (simp add: demo_writer_def xa_writer_new_def)
  obtain x ws where p: "demo_prepared = (x, ws)" by (cases demo_prepared)
  have "decodes x" using base_xid_decodes [OF b demo_not_hex] p by (auto simp: demo_prepared_def)
  then show ?thesis
    by (simp add: p demo_barrier_eq xa_abort_def xa_recover_def List.map_filter_def decodes_def xa_effect_def xa_snapshot_state_def demo_writer_def)
qed

end
