(* ===== verification/Cdc_Base.thy ===== *)
theory Cdc_Base
  imports Sql_Dialects
begin

text \<open>
  The shared part of the change-data-capture connectors (\<open>seatunnel-connector-cdc-base\<close>, with the option accessors of
  \<open>seatunnel-connector-common\<close>): watermarks and splits, the choice of tables, the detection of schema changes from
  column lists and from \<open>ALTER TABLE\<close> statements. The \<open>regex\<close> crate, the JSON parser and fresh identifiers are parameters;
  a compiled regular expression stands for its pattern. Statements and names are ASCII.
\<close>

section \<open>Options\<close>

type_synonym connector_config = "(string, string) hashmap"

definition get_string :: "connector_config \<Rightarrow> string \<Rightarrow> string \<Rightarrow> string" where
  "get_string config key dflt = unwrap_or dflt (hm_get config key)"

definition get_int :: "connector_config \<Rightarrow> string \<Rightarrow> int \<Rightarrow> int" where
  "get_int config key dflt = unwrap_or dflt (Option.bind (hm_get config key) (parse_int 64))"

definition parse_bool :: "string \<Rightarrow> bool option" where
  "parse_bool s = (if s = ''true'' then Some True else if s = ''false'' then Some False else None)"

definition get_bool :: "connector_config \<Rightarrow> string \<Rightarrow> bool \<Rightarrow> bool" where
  "get_bool config key dflt = unwrap_or dflt (Option.bind (hm_get config key) parse_bool)"

definition row_from_map :: "table_schema \<Rightarrow> (string, field) hashmap \<Rightarrow> row" where
  "row_from_map schema data =
     \<lparr>row_kind = Insert, row_fields = map (\<lambda>c. unwrap_or FNull (hm_get data (cd_name c))) (ts_columns schema), row_origin = None\<rparr>"

section \<open>Watermarks and splits\<close>

datatype cdc_phase = Snapshot | Incremental

datatype watermark = WMin | WMax | WValue "64 word"

instantiation watermark :: linorder
begin

fun less_watermark :: "watermark \<Rightarrow> watermark \<Rightarrow> bool" where
  "less_watermark WMin w = (w \<noteq> WMin)"
| "less_watermark WMax w = False"
| "less_watermark (WValue a) WMin = False"
| "less_watermark (WValue a) WMax = True"
| "less_watermark (WValue a) (WValue b) = (sint a < sint b)"

definition less_eq_watermark :: "watermark \<Rightarrow> watermark \<Rightarrow> bool" where
  "less_eq_watermark v w \<longleftrightarrow> v = w \<or> v < w"

instance
proof
  fix u v w :: watermark
  have trans: "u < v \<Longrightarrow> v < w \<Longrightarrow> u < w" by (cases u; cases v; cases w) auto
  have anti: "u < v \<Longrightarrow> \<not> v < u" by (cases u; cases v) auto
  show "(u < v) = (u \<le> v \<and> \<not> v \<le> u)" using anti by (auto simp: less_eq_watermark_def)
  show "u \<le> u" by (simp add: less_eq_watermark_def)
  show "u \<le> v \<Longrightarrow> v \<le> w \<Longrightarrow> u \<le> w" using trans by (auto simp: less_eq_watermark_def)
  show "u \<le> v \<Longrightarrow> v \<le> u \<Longrightarrow> u = v" using anti by (auto simp: less_eq_watermark_def)
  show "u \<le> v \<or> v \<le> u" by (cases u; cases v) (auto simp: less_eq_watermark_def signed_word_eqI)
qed

end

record watermark_buffer =
  wb_low :: watermark
  wb_high :: watermark

definition watermark_buffer_new :: watermark_buffer where
  "watermark_buffer_new = \<lparr>wb_low = WMin, wb_high = WMax\<rparr>"

definition advance_low_watermark :: "watermark \<Rightarrow> watermark_buffer \<Rightarrow> watermark_buffer" where
  "advance_low_watermark w b = (if wb_low b < w then b\<lparr>wb_low := w\<rparr> else b)"

definition advance_high_watermark :: "watermark \<Rightarrow> watermark_buffer \<Rightarrow> watermark_buffer" where
  "advance_high_watermark w b = (if w < wb_high b then b\<lparr>wb_high := w\<rparr> else b)"

definition should_emit :: "watermark \<Rightarrow> watermark_buffer \<Rightarrow> bool" where
  "should_emit w b \<longleftrightarrow> w \<noteq> WMin \<and> wb_low b \<le> w"

record snapshot_split =
  ss_id :: string
  ss_database :: string
  ss_table :: string
  ss_split_column :: string
  ss_start_key :: string
  ss_end_key :: string
  ss_low :: watermark
  ss_high :: watermark

definition snapshot_split_new :: "string \<Rightarrow> string \<Rightarrow> string \<Rightarrow> string \<Rightarrow> string \<Rightarrow> string \<Rightarrow> snapshot_split" where
  "snapshot_split_new uuid database table col start stop =
     \<lparr>ss_id = ''snapshot-'' @ database @ ''-'' @ table @ ''-'' @ uuid, ss_database = database, ss_table = table, ss_split_column = col,
      ss_start_key = start, ss_end_key = stop, ss_low = WMin, ss_high = WMax\<rparr>"

record incremental_split =
  is_id :: string
  is_database :: string
  is_table :: string
  is_offset :: "(string, string) hashmap"

definition incremental_split_new :: "string \<Rightarrow> string \<Rightarrow> string \<Rightarrow> incremental_split" where
  "incremental_split_new uuid database table =
     \<lparr>is_id = ''incremental-'' @ database @ ''-'' @ table @ ''-'' @ uuid, is_database = database, is_table = table, is_offset = hm_empty\<rparr>"

definition with_offset :: "string \<Rightarrow> string \<Rightarrow> incremental_split \<Rightarrow> incremental_split" where
  "with_offset key value sp = sp\<lparr>is_offset := hm_insert key value (is_offset sp)\<rparr>"

record cdc_state =
  cs_phase :: cdc_phase
  cs_watermark :: watermark
  cs_offset :: "(string, string) hashmap"

definition cdc_state_new :: "cdc_phase \<Rightarrow> (string, string) hashmap \<Rightarrow> cdc_state" where
  "cdc_state_new phase offset = \<lparr>cs_phase = phase, cs_watermark = WMin, cs_offset = offset\<rparr>"

section \<open>Table selection\<close>

record regex_engine =
  rx_ok :: "string \<Rightarrow> bool"
  rx_match :: "string \<Rightarrow> string \<Rightarrow> bool"
  rx_escape :: "string \<Rightarrow> string"

record table_selector =
  sel_split_columns :: "(string, string) hashmap"
  sel_databases :: "string list"
  sel_database_pattern :: "string option"
  sel_tables :: "(string \<times> string) list"
  sel_table_patterns :: "string list"

definition selector_default :: table_selector where
  "selector_default =
     \<lparr>sel_split_columns = hm_empty, sel_databases = [], sel_database_pattern = None, sel_tables = [], sel_table_patterns = []\<rparr>"

definition compile_regex :: "regex_engine \<Rightarrow> string \<Rightarrow> string option" where
  "compile_regex rx p = (if rx_ok rx p then Some p else None)"

text \<open>\<open>None\<close> is the panic of an escaped pattern that does not compile.\<close>

definition from_legacy :: "regex_engine \<Rightarrow> string \<Rightarrow> string \<Rightarrow> table_selector option" where
  "from_legacy rx database table =
     (if database = [] \<and> table = [] then Some selector_default
      else
        let s1 = (case strip_suffix ''%'' database of
               Some prefix \<Rightarrow> selector_default\<lparr>sel_database_pattern := compile_regex rx (''^'' @ rx_escape rx prefix @ ''.*$'')\<rparr>
             | None \<Rightarrow> selector_default\<lparr>sel_databases := [database]\<rparr>)
        in case strip_suffix ''%'' table of
             Some prefix \<Rightarrow>
               map_option (\<lambda>p. s1\<lparr>sel_table_patterns := [p]\<rparr>)
                 (compile_regex rx (''^.*'' @ [CHR 0x5C] @ ''.'' @ rx_escape rx prefix @ ''.*$''))
           | None \<Rightarrow> Some (s1\<lparr>sel_tables := [(database, table)]\<rparr>))"

definition matches_database :: "regex_engine \<Rightarrow> table_selector \<Rightarrow> string \<Rightarrow> bool" where
  "matches_database rx sel database \<longleftrightarrow>
     database \<in> set (sel_databases sel) \<or>
     (case sel_database_pattern sel of None \<Rightarrow> False | Some p \<Rightarrow> rx_match rx p database)"

definition has_exact :: "table_selector \<Rightarrow> bool" where
  "has_exact sel \<longleftrightarrow> sel_tables sel \<noteq> []"

definition selects :: "regex_engine \<Rightarrow> table_selector \<Rightarrow> string \<Rightarrow> string \<Rightarrow> bool" where
  "selects rx sel database table \<longleftrightarrow>
     (if has_exact sel \<or> sel_table_patterns sel \<noteq> []
      then ((database, table) \<in> set (sel_tables sel) \<or>
            list_ex (\<lambda>p. rx_match rx p (database @ ''.'' @ table)) (sel_table_patterns sel)) \<and>
           (sel_databases sel = [] \<or> matches_database rx sel database)
      else matches_database rx sel database)"

definition split_column_for :: "table_selector \<Rightarrow> string \<Rightarrow> string \<Rightarrow> string option" where
  "split_column_for sel database table = hm_get (sel_split_columns sel) (database @ ''.'' @ table)"

text \<open>An option under its dashed and its underscored name, and comma lists.\<close>

definition option2 :: "connector_config \<Rightarrow> string \<Rightarrow> string \<Rightarrow> string" where
  "option2 config a b = get_string config a (get_string config b [])"

definition split_list :: "string \<Rightarrow> string list" where
  "split_list s = filter (\<lambda>p. p \<noteq> []) (map trim (split_on (CHR '','') s))"

definition push_new :: "string list \<Rightarrow> string list \<Rightarrow> string list" where
  "push_new xs ys = foldl (\<lambda>acc y. if y \<in> set acc then acc else acc @ [y]) xs ys"

definition split_column_entry :: "json \<Rightarrow> (string \<times> string) option" where
  "split_column_entry e =
     Option.bind (Option.bind (j_get ''table'' e) as_str)
       (\<lambda>t. map_option (Pair t) (Option.bind (j_get ''snapshotSplitColumn'' e) as_str))"

definition build_table_selector ::
    "regex_engine \<Rightarrow> (string \<Rightarrow> json list) \<Rightarrow> connector_config \<Rightarrow> string \<Rightarrow> string \<Rightarrow> table_selector option" where
  "build_table_selector rx parse_list config legacy_db legacy_table =
     (let dbs = option2 config ''database-names'' ''database_names'';
          db_pattern = option2 config ''database-pattern'' ''database_pattern'';
          tables = option2 config ''table-names'' ''table_names'';
          table_pattern = option2 config ''table-pattern'' ''table_pattern'';
          configs = option2 config ''table-names-config'' ''table_names_config'';
          official_dbs = (dbs \<noteq> [] \<or> db_pattern \<noteq> []);
          official_tables = (tables \<noteq> [] \<or> table_pattern \<noteq> [])
      in map_option (\<lambda>s0.
           let s1 = s0\<lparr>sel_databases := push_new (sel_databases s0) (split_list dbs)\<rparr>;
               s2 = (if db_pattern = [] then s1
                     else case compile_regex rx (''^(?:'' @ db_pattern @ '')$'') of
                            None \<Rightarrow> s1 | Some p \<Rightarrow> s1\<lparr>sel_database_pattern := Some p\<rparr>);
               s3 = s2\<lparr>sel_tables := sel_tables s2 @ List.map_filter (rsplit_once ''.'') (split_list tables)\<rparr>;
               s4 = (if table_pattern = [] then s3
                     else case compile_regex rx table_pattern of
                            None \<Rightarrow> s3 | Some p \<Rightarrow> s3\<lparr>sel_table_patterns := sel_table_patterns s3 @ [p]\<rparr>)
           in if configs = [] then s4
              else s4\<lparr>sel_split_columns :=
                foldl (\<lambda>m (t, c). hm_insert t c m) (sel_split_columns s4) (List.map_filter split_column_entry (parse_list configs))\<rparr>)
         (from_legacy rx (if official_dbs \<or> official_tables then [] else legacy_db) (if official_tables then [] else legacy_table)))"

section \<open>Differences of column lists\<close>

definition by_name :: "column_def list \<Rightarrow> string \<Rightarrow> column_def option" where
  "by_name cols = map_of (rev (map (\<lambda>c. (cd_name c, c)) cols))"

definition added_columns :: "column_def list \<Rightarrow> column_def list \<Rightarrow> column_def list" where
  "added_columns old new = filter (\<lambda>c. by_name old (cd_name c) = None) new"

definition dropped_columns :: "column_def list \<Rightarrow> column_def list \<Rightarrow> string list" where
  "dropped_columns old new = map cd_name (filter (\<lambda>c. by_name new (cd_name c) = None) old)"

definition same_definition :: "column_def \<Rightarrow> column_def \<Rightarrow> bool" where
  "same_definition a b \<longleftrightarrow> cd_type a = cd_type b \<and> cd_nullable a = cd_nullable b"

definition modified_columns :: "column_def list \<Rightarrow> column_def list \<Rightarrow> column_def list" where
  "modified_columns old new =
     filter (\<lambda>c. case by_name old (cd_name c) of None \<Rightarrow> False | Some prev \<Rightarrow> \<not> same_definition prev c) new"

definition position_of :: "column_def list \<Rightarrow> string \<Rightarrow> nat option" where
  "position_of cols name = position (\<lambda>c. cd_name c = name) cols"

definition diff_columns :: "string \<Rightarrow> column_def list \<Rightarrow> column_def list \<Rightarrow> schema_change_event list" where
  "diff_columns table old new =
     (let added = added_columns old new; dropped = dropped_columns old new; modified = modified_columns old new in
      if length added = 1 \<and> length dropped = 1 \<and> modified = [] \<and>
         (case by_name old (dropped ! 0) of None \<Rightarrow> False | Some prev \<Rightarrow> same_definition (added ! 0) prev)
      then [event_new table [RenameColumn (dropped ! 0) (cd_name (added ! 0)) None]]
      else
        let changes =
              map (\<lambda>c. AddColumn c (position_of new (cd_name c))) added @
              map (\<lambda>n. DropColumn n (position_of old n)) dropped @
              map (\<lambda>c. ModifyColumn c (position_of new (cd_name c))) modified
        in if changes = [] then [] else [event_new table changes])"

section \<open>ALTER TABLE statements\<close>

definition normalize_ws :: "string \<Rightarrow> string" where
  "normalize_ws s = join_with '' '' (split_whitespace s)"

definition starts_with :: "string \<Rightarrow> string \<Rightarrow> bool" where
  "starts_with p s \<longleftrightarrow> take (length p) s = p"

definition trim_matches :: "char \<Rightarrow> string \<Rightarrow> string" where
  "trim_matches c s = trim_end_char c (trim_start_char c s)"

definition tick_or_space :: "char \<Rightarrow> bool" where
  "tick_or_space c \<longleftrightarrow> is_space c \<or> c = backtick"

function skip_names :: "string \<Rightarrow> string" where
  "skip_names rest =
     (let r1 = dropWhile tick_or_space rest;
          r2 = dropWhile (\<lambda>c. \<not> (tick_or_space c \<or> c = CHR ''.'')) r1;
          r3 = dropWhile tick_or_space r2
      in if starts_with ''.'' r3 then skip_names (tl r3) else r3)"
  by auto
termination
proof (relation "measure length", goal_cases)
  case (2 rest r1 r2 r3)
  have "length r3 \<le> length rest"
    unfolding 2 by (meson length_dropWhile_le order_trans)
  moreover have "r3 \<noteq> []" using 2(4) by (auto simp: starts_with_def)
  ultimately show ?case by (cases r3) auto
qed simp

declare skip_names.simps [simp del]

definition skip_identifier :: "string \<Rightarrow> string" where
  "skip_identifier s = skip_names (dropWhile is_space s)"

definition strip_keyword :: "string \<Rightarrow> string \<Rightarrow> string" where
  "strip_keyword s keyword =
     (let n = length keyword in
      if n + 1 < length s \<and> map to_lower (take n s) = map to_lower keyword \<and> s ! n = CHR '' '' then drop (n + 1) s else s)"

fun split_actions_from :: "nat \<Rightarrow> string \<Rightarrow> string \<Rightarrow> string list" where
  "split_actions_from depth current [] = (if trim current = [] then [] else [current])"
| "split_actions_from depth current (c # cs) =
     (if c = CHR ''('' then split_actions_from (depth + 1) (current @ [c]) cs
      else if c = CHR '')'' then split_actions_from (depth - 1) (current @ [c]) cs
      else if c = CHR '','' \<and> depth = 0 then current # split_actions_from depth [] cs
      else split_actions_from depth (current @ [c]) cs)"

definition split_actions :: "string \<Rightarrow> string list" where
  "split_actions s = split_actions_from 0 [] s"

definition parse_u32 :: "string \<Rightarrow> nat option" where
  "parse_u32 s = (case parse_u64 s of Some n \<Rightarrow> if n < 2 ^ 32 then Some n else None | None \<Rightarrow> None)"

definition parse_type_spec :: "string \<Rightarrow> string \<times> nat option \<times> 8 word option" where
  "parse_type_spec ty =
     (case split_once ''('' ty of
        Some (base, rest) \<Rightarrow>
          let nums = split_on (CHR '','') (trim_end_char (CHR '')'') rest) in
          (trim base, parse_u32 (trim (nums ! 0)),
           if length nums < 2 then None else map_option word_of_int (parse_int 8 (trim (nums ! 1))))
      | None \<Rightarrow> (trim ty, None, None))"

fun paren_tokens :: "string \<Rightarrow> string list \<Rightarrow> string \<times> string list" where
  "paren_tokens ty [] = (ty, [])"
| "paren_tokens ty (t # ts) =
     (if strip_suffix '')'' (ty @ t) \<noteq> None then (ty @ t, ts) else paren_tokens (ty @ t) ts)"

definition parse_column_def :: "string \<Rightarrow> column_def option" where
  "parse_column_def s =
     (case split_whitespace (trim_matches backtick (trim s)) of
        [] \<Rightarrow> None
      | t # ts \<Rightarrow>
          if trim_matches backtick t = [] then None
          else case ts of
            [] \<Rightarrow> None
          | ty # rest \<Rightarrow>
              let (type_str, rest1) =
                    (if rest \<noteq> [] \<and> starts_with ''('' (hd rest) then paren_tokens (map to_lower ty) rest else (map to_lower ty, rest));
                  nullable = (split_once ''not null'' (map to_lower (join_with '' '' rest1)) = None);
                  (base, len, scale) = parse_type_spec type_str
              in Some ((column_def_new (trim_matches backtick t) (mysql_map_type base len scale))
                         \<lparr>cd_nullable := nullable, cd_source_type := Some type_str\<rparr>))"

definition ignored_actions :: "string list" where
  "ignored_actions =
     [''add index '', ''add key '', ''add constraint '', ''add primary '', ''add unique '', ''add foreign '', ''add fulltext '',
      ''add spatial '', ''add check '', ''drop index '', ''drop key '', ''drop primary '', ''drop foreign '', ''drop constraint '',
      ''drop check '']"

definition first_word :: "string \<Rightarrow> string" where
  "first_word s = (case split_whitespace s of [] \<Rightarrow> [] | t # _ \<Rightarrow> t)"

definition parsed_add :: "string \<Rightarrow> schema_change list" where
  "parsed_add s = (case parse_column_def s of None \<Rightarrow> [] | Some d \<Rightarrow> [AddColumn d None])"

definition add_action :: "string \<Rightarrow> schema_change list" where
  "add_action inner =
     (case Option.bind (strip_prefix ''('' inner) (strip_suffix '')'') of
        Some l \<Rightarrow> concat (map parsed_add (split_on (CHR '','') l))
      | None \<Rightarrow> parsed_add inner)"

definition change_action :: "string \<Rightarrow> schema_change list" where
  "change_action inner =
     (let old = trim_matches backtick (takeWhile (\<lambda>c. \<not> is_space c) inner) in
      case dropWhile (\<lambda>c. \<not> is_space c) inner of
        [] \<Rightarrow> []
      | _ # rest \<Rightarrow>
          (case parse_column_def rest of
             None \<Rightarrow> []
           | Some d \<Rightarrow> [RenameColumn old (cd_name d) None, ModifyColumn d None]))"

text \<open>\<open>None\<close>: a rename without \<open>TO\<close> gives up on the whole statement.\<close>

definition rename_action :: "string \<Rightarrow> schema_change list option" where
  "rename_action inner =
     (case split_once '' to '' (map to_lower inner) of
        None \<Rightarrow> None
      | Some (pre, _) \<Rightarrow>
          let old = trim_matches backtick (trim (take (length pre) inner));
              new = trim_matches backtick (first_word (drop (length pre + 4) inner))
          in Some (if old \<noteq> [] \<and> new \<noteq> [] then [RenameColumn old new None] else []))"

definition action_changes :: "string \<Rightarrow> schema_change list option" where
  "action_changes action =
     (let a = normalize_ws action; l = map to_lower a;
          inner = (\<lambda>keyword. strip_keyword (strip_keyword a keyword) ''column'')
      in if list_ex (\<lambda>p. starts_with p l) ignored_actions then Some []
         else if starts_with ''add '' l then Some (add_action (inner ''add''))
         else if starts_with ''drop '' l then
           (let name = trim_matches backtick (first_word (inner ''drop'')) in Some (if name = [] then [] else [DropColumn name None]))
         else if starts_with ''modify '' l then
           Some (case parse_column_def (inner ''modify'') of None \<Rightarrow> [] | Some d \<Rightarrow> [ModifyColumn d None])
         else if starts_with ''change '' l then Some (change_action (inner ''change''))
         else if starts_with ''rename column '' l then rename_action (inner ''rename'')
         else Some [])"

fun all_changes :: "string list \<Rightarrow> schema_change list option" where
  "all_changes [] = Some []"
| "all_changes (a # as) =
     (case action_changes a of
        None \<Rightarrow> None
      | Some cs \<Rightarrow> map_option ((@) cs) (all_changes as))"

definition parse_alter_table :: "string \<Rightarrow> schema_change list option" where
  "parse_alter_table ddl =
     (let normalized = normalize_ws ddl in
      case strip_prefix ''alter table '' (map to_lower normalized) of
        None \<Rightarrow> None
      | Some rest \<Rightarrow>
          all_changes (split_actions (drop (length normalized - length (skip_identifier rest)) normalized)))"

definition alter_table_target :: "string \<Rightarrow> string option" where
  "alter_table_target ddl =
     (case split_whitespace (normalize_ws ddl) of
        a # t # ident # _ \<Rightarrow>
          if map to_lower a = ''alter'' \<and> map to_lower t = ''table'' then
            let name = trim_matches backtick (last (split_on (CHR ''.'') ident)) in if name = [] then None else Some name
          else None
      | _ \<Rightarrow> None)"

section \<open>The schema watcher\<close>

record schema_evolution_config =
  sec_enabled :: bool
  sec_poll_interval_ms :: nat
  sec_include :: "string list"
  sec_exclude :: "string list"

definition schema_evolution_default :: schema_evolution_config where
  "schema_evolution_default = \<lparr>sec_enabled = False, sec_poll_interval_ms = 10000, sec_include = [], sec_exclude = []\<rparr>"

definition schema_evolution_from_config :: "connector_config \<Rightarrow> schema_evolution_config" where
  "schema_evolution_from_config config =
     \<lparr>sec_enabled = get_bool config ''schema-evolution.enabled'' (get_bool config ''schema_evolution.enabled'' False),
      sec_poll_interval_ms =
        nat (max 100 (get_int config ''schema-evolution.poll-interval-ms'' (get_int config ''schema_evolution.poll_interval_ms'' 10000))),
      sec_include = split_list (option2 config ''schema-evolution.include'' ''schema_changes.include''),
      sec_exclude = split_list (option2 config ''schema-evolution.exclude'' ''schema_changes.exclude'')\<rparr>"

definition accepts_column :: "schema_evolution_config \<Rightarrow> string \<Rightarrow> bool" where
  "accepts_column cfg column \<longleftrightarrow>
     (sec_include cfg = [] \<or> column \<in> set (sec_include cfg)) \<and> column \<notin> set (sec_exclude cfg)"

record schema_watcher =
  wt_table_id :: string
  wt_columns :: "column_def list"
  wt_config :: schema_evolution_config
  wt_last_check :: nat
  wt_pending :: "schema_change_event list"

definition watcher_new :: "nat \<Rightarrow> string \<Rightarrow> schema_evolution_config \<Rightarrow> schema_watcher" where
  "watcher_new now table_id cfg =
     \<lparr>wt_table_id = table_id, wt_columns = [], wt_config = cfg, wt_last_check = now, wt_pending = []\<rparr>"

definition prime :: "column_def list \<Rightarrow> schema_watcher \<Rightarrow> schema_watcher" where
  "prime columns w = w\<lparr>wt_columns := columns\<rparr>"

definition queue_initial :: "schema_watcher \<Rightarrow> schema_watcher" where
  "queue_initial w =
     (if wt_columns w = [] then w
      else w\<lparr>wt_pending := wt_pending w @ [initial_schema_event (table_schema_new (wt_table_id w) (wt_columns w))]\<rparr>)"

fun set_position :: "nat option \<Rightarrow> schema_change \<Rightarrow> schema_change" where
  "set_position pos (AddColumn c _) = AddColumn c pos"
| "set_position pos (DropColumn n _) = DropColumn n pos"
| "set_position pos (RenameColumn old new _) = RenameColumn old new pos"
| "set_position pos (ModifyColumn c _) = ModifyColumn c pos"

definition place_change :: "column_def list \<Rightarrow> schema_change \<Rightarrow> schema_change" where
  "place_change cols ch =
     (case ch of
        AddColumn _ _ \<Rightarrow> set_position (Some (length cols)) ch
      | _ \<Rightarrow> set_position (position_of cols (change_column ch)) ch)"

definition observe_ddl :: "string \<Rightarrow> schema_watcher \<Rightarrow> schema_watcher" where
  "observe_ddl ddl w =
     (if \<not> sec_enabled (wt_config w) then w
      else case parse_alter_table ddl of
        None \<Rightarrow> w
      | Some chs \<Rightarrow>
          let accepted = filter (\<lambda>ch. accepts_column (wt_config w) (change_column ch)) chs;
              placed = map (place_change (wt_columns w)) accepted;
              event = (event_new (wt_table_id w) placed)\<lparr>sce_statement := Some (trim ddl)\<rparr>
          in if accepted = [] then w
             else
               let w1 = (if wt_columns w = [] then w
                         else case apply_schema_changes placed (table_schema_new (wt_table_id w) (wt_columns w)) of
                                (Inr _, s) \<Rightarrow> w\<lparr>wt_columns := ts_columns s\<rparr>
                              | (Inl _, _) \<Rightarrow> w)
               in w1\<lparr>wt_pending := wt_pending w1 @ [event]\<rparr>)"

definition poll_events :: "schema_watcher \<Rightarrow> column_def list \<Rightarrow> schema_change_event list" where
  "poll_events w fresh =
     filter (\<lambda>e. sce_changes e \<noteq> [])
       (map (\<lambda>e. e\<lparr>sce_changes := filter (\<lambda>ch. accepts_column (wt_config w) (change_column ch)) (sce_changes e)\<rparr>)
         (diff_columns (wt_table_id w) (wt_columns w) fresh))"

definition watcher_poll :: "nat \<Rightarrow> string + column_def list \<Rightarrow> schema_watcher \<Rightarrow> (string + unit) \<times> schema_watcher" where
  "watcher_poll now fetch w =
     (if \<not> sec_enabled (wt_config w) \<or> wt_columns w = [] \<or> now - wt_last_check w < sec_poll_interval_ms (wt_config w)
      then (Inr (), w)
      else
        let w1 = w\<lparr>wt_last_check := now\<rparr> in
        case fetch of
          Inl e \<Rightarrow> (Inl e, w1)
        | Inr fresh \<Rightarrow>
            if fresh = [] then (Inr (), w1)
            else
              let events = poll_events w1 fresh in
              (Inr (), if events = [] then w1 else w1\<lparr>wt_columns := fresh, wt_pending := wt_pending w1 @ events\<rparr>))"

definition take_pending :: "schema_watcher \<Rightarrow> schema_change_event option \<times> schema_watcher" where
  "take_pending w =
     (case wt_pending w of [] \<Rightarrow> (None, w) | e # es \<Rightarrow> (Some e, w\<lparr>wt_pending := es\<rparr>))"

end
