(* ===== verification/Schema_Evolution.thy ===== *)
theory Schema_Evolution
  imports Cdc_Base
begin

text \<open>
  Schema changes through the pipeline: the event for a new column list takes a consumer's schema to that list, and the
  statements a sink runs for a change are read back as the same change by the reader of captured DDL.
\<close>

section \<open>Differences reach the new columns\<close>

text \<open>What positional consumers see of a column.\<close>

definition column_shape :: "column_def \<Rightarrow> string \<times> column_type \<times> bool" where
  "column_shape c = (cd_name c, cd_type c, cd_nullable c)"

definition retyped :: "column_def \<Rightarrow> column_def \<Rightarrow> column_def" where
  "retyped d c = c\<lparr>cd_type := cd_type d, cd_nullable := cd_nullable d,
     cd_source_type := (case cd_source_type d of None \<Rightarrow> cd_source_type c | Some t \<Rightarrow> Some t)\<rparr>"

lemma by_name_Some: "distinct (map cd_name cols) \<Longrightarrow> by_name cols n = Some c \<longleftrightarrow> c \<in> set cols \<and> cd_name c = n"
  unfolding by_name_def by (subst map_of_eq_Some_iff) (auto simp: rev_map [symmetric] comp_def)

lemma by_name_None: "by_name cols n = None \<longleftrightarrow> n \<notin> cd_name ` set cols"
  by (simp add: by_name_def map_of_eq_None_iff image_image)

lemma apply_adds:
  "distinct (field_names s @ map cd_name added) \<Longrightarrow>
   apply_schema_changes (map (\<lambda>c. AddColumn c (p c)) added @ rest) s =
     apply_schema_changes rest
       (s\<lparr>ts_columns := ts_columns s @ added, ts_primary_key := ts_primary_key s @ map cd_name (filter cd_primary_key added)\<rparr>)"
proof (induction added arbitrary: s)
  case (Cons c added)
  let ?s = "s\<lparr>ts_columns := ts_columns s @ [c], ts_primary_key := ts_primary_key s @ (if cd_primary_key c then [cd_name c] else [])\<rparr>"
  have "column_index (cd_name c) s = None" using Cons.prems by (auto simp: column_index_None)
  then have a: "apply_schema_change (AddColumn c q) s = (Inr (), ?s)" for q by (simp add: apply_schema_change_def)
  have "distinct (field_names ?s @ map cd_name added)" using Cons.prems by (auto simp: field_names_def)
  from Cons.IH [OF this] show ?case by (simp add: a)
qed simp

lemma apply_drops:
  "distinct (field_names s) \<Longrightarrow> distinct names \<Longrightarrow> set names \<subseteq> set (field_names s) \<Longrightarrow> set names \<inter> set (ts_primary_key s) = {} \<Longrightarrow>
   apply_schema_changes (map (\<lambda>n. DropColumn n (p n)) names @ rest) s =
     apply_schema_changes rest (s\<lparr>ts_columns := filter (\<lambda>c. cd_name c \<notin> set names) (ts_columns s)\<rparr>)"
proof (induction names arbitrary: s)
  case (Cons n names)
  obtain i where "column_index n s = Some i" using Cons.prems(3) by (auto simp: column_index_ex)
  then obtain a c b where c: "ts_columns s = a @ c # b" "i = length a" "cd_name c = n" "n \<notin> set (map cd_name a)"
    using column_index_split by blast
  let ?s = "s\<lparr>ts_columns := a @ b\<rparr>"
  have ap: "apply_schema_change (DropColumn n q) s = (Inr (), ?s)" for q
    using Cons.prems(4) \<open>column_index n s = Some i\<close> c by (simp add: apply_schema_change_def)
  have nb: "n \<notin> set (map cd_name b)" using Cons.prems(1) c by (auto simp: field_names_def)
  have "apply_schema_changes (map (\<lambda>n. DropColumn n (p n)) names @ rest) ?s =
      apply_schema_changes rest (?s\<lparr>ts_columns := filter (\<lambda>c. cd_name c \<notin> set names) (ts_columns ?s)\<rparr>)"
    using Cons.prems c by (intro Cons.IH) (auto simp: field_names_def)
  moreover have "filter (\<lambda>c. cd_name c \<notin> set names) (a @ b) = filter (\<lambda>c. cd_name c \<notin> set (n # names)) (ts_columns s)"
  proof -
    have "\<forall>x\<in>set a \<union> set b. cd_name x \<noteq> n" using c(4) nb by auto
    then show ?thesis using c(1,3) by (auto intro!: filter_cong arg_cong2 [where f = "(@)"])
  qed
  ultimately show ?case by (simp add: ap)
qed simp

lemma apply_modifies:
  "distinct (field_names s) \<Longrightarrow> distinct (map cd_name ms) \<Longrightarrow> cd_name ` set ms \<subseteq> set (field_names s) \<Longrightarrow>
   apply_schema_changes (map (\<lambda>c. ModifyColumn c (p c)) ms) s =
     (Inr (), s\<lparr>ts_columns := map (\<lambda>c. case by_name ms (cd_name c) of None \<Rightarrow> c | Some d \<Rightarrow> retyped d c) (ts_columns s)\<rparr>)"
proof (induction ms arbitrary: s)
  case Nil
  then show ?case by (simp add: by_name_def)
next
  case (Cons d ms)
  obtain i where i: "column_index (cd_name d) s = Some i" using Cons.prems(3) by (auto simp: column_index_ex)
  then obtain a c b where c: "ts_columns s = a @ c # b" "i = length a" "cd_name c = cd_name d" "cd_name d \<notin> set (map cd_name a)"
    using column_index_split by blast
  let ?s = "s\<lparr>ts_columns := a @ retyped d c # b\<rparr>"
  have ap: "apply_schema_change (ModifyColumn d q) s = (Inr (), ?s)" for q
    using i c by (simp add: apply_schema_change_def Let_def retyped_def)
  have fn: "field_names ?s = field_names s" using c by (simp add: field_names_def retyped_def)
  have nb: "cd_name d \<notin> set (map cd_name b)" using Cons.prems(1) c by (auto simp: field_names_def)
  have nm: "by_name ms (cd_name d) = None" using Cons.prems(2) by (auto simp: by_name_None)
  have dd: "by_name (d # ms) n = (if n = cd_name d then Some d else by_name ms n)" for n
    using Cons.prems(2) by (auto simp: by_name_def map_add_def image_iff split: option.splits dest: map_of_SomeD)
  have "apply_schema_changes (map (\<lambda>c. ModifyColumn c (p c)) ms) ?s =
     (Inr (), ?s\<lparr>ts_columns := map (\<lambda>c. case by_name ms (cd_name c) of None \<Rightarrow> c | Some d \<Rightarrow> retyped d c) (ts_columns ?s)\<rparr>)"
    using Cons.prems fn by (intro Cons.IH) auto
  moreover have "cd_name (retyped d c) = cd_name d" using c(3) by (simp add: retyped_def)
  moreover have "\<forall>x\<in>set a \<union> set b. cd_name x \<noteq> cd_name d" using c(4) nb by (metis UnE image_eqI set_map)
  ultimately show ?case using c(1,3) nm by (auto simp: ap dd)
qed

lemma shape_eq: "column_shape a = column_shape b \<longleftrightarrow> cd_name a = cd_name b \<and> same_definition a b"
  by (auto simp: column_shape_def same_definition_def)

lemma shape_retyped: "cd_name d = cd_name c \<Longrightarrow> column_shape (retyped d c) = column_shape d"
  by (simp add: column_shape_def retyped_def)

lemma name_unique: "distinct (map cd_name cols) \<Longrightarrow> a \<in> set cols \<Longrightarrow> b \<in> set cols \<Longrightarrow> cd_name a = cd_name b \<Longrightarrow> a = b"
  by (simp add: distinct_map inj_on_def)

text \<open>The kept columns, with what the modifications make of them.\<close>

definition kept :: "column_def list \<Rightarrow> column_def list \<Rightarrow> column_def list" where
  "kept old new = filter (\<lambda>c. cd_name c \<in> cd_name ` set new) old"

lemma kept_shapes:
  assumes "distinct (map cd_name old)" "distinct (map cd_name new)"
  shows "column_shape ` (\<lambda>c. case by_name (modified_columns old new) (cd_name c) of None \<Rightarrow> c | Some d \<Rightarrow> retyped d c) ` set (kept old new) =
    column_shape ` {c \<in> set new. cd_name c \<in> cd_name ` set old}" (is "column_shape ` ?f ` ?K = column_shape ` ?N")
proof -
  let ?m = "modified_columns old new"
  have dm: "distinct (map cd_name ?m)" using assms(2) by (simp add: modified_columns_def distinct_map_filter)
  have one: "column_shape (?f o') = column_shape n" if n: "n \<in> set new" and o: "o' \<in> set old" and eq: "cd_name o' = cd_name n" for n o'
  proof (cases "same_definition o' n")
    case True
    have "by_name ?m (cd_name o') = None"
    proof (rule ccontr)
      assume "by_name ?m (cd_name o') \<noteq> None"
      then obtain d where d: "d \<in> set ?m" "cd_name d = cd_name o'" using by_name_Some [OF dm] by auto
      then have "d = n" using name_unique [OF assms(2)] n eq by (auto simp: modified_columns_def)
      moreover have "by_name old (cd_name n) = Some o'" using by_name_Some [OF assms(1)] o eq by simp
      ultimately show False using d True by (simp add: modified_columns_def)
    qed
    then show ?thesis using True eq by (simp add: shape_eq)
  next
    case False
    have "by_name old (cd_name n) = Some o'" using by_name_Some [OF assms(1)] o eq by simp
    then have "n \<in> set ?m" using False n by (simp add: modified_columns_def)
    then have "by_name ?m (cd_name o') = Some n" using by_name_Some [OF dm] eq by simp
    then show ?thesis using eq by (simp add: shape_retyped)
  qed
  show ?thesis
  proof (intro equalityI subsetI)
    fix x assume "x \<in> column_shape ` ?f ` ?K"
    then obtain o' n where x: "x = column_shape (?f o')" and o: "o' \<in> set old" "n \<in> set new" "cd_name o' = cd_name n" by (auto simp: kept_def)
    have "x = column_shape n" unfolding x by (rule one [OF o(2,1,3)])
    moreover have "n \<in> ?N" using o by (metis (mono_tags, lifting) image_eqI mem_Collect_eq)
    ultimately show "x \<in> column_shape ` ?N" by blast
  next
    fix x assume "x \<in> column_shape ` ?N"
    then obtain n o' where x: "x = column_shape n" and o: "n \<in> set new" "o' \<in> set old" "cd_name o' = cd_name n" by auto
    have "x = column_shape (?f o')" unfolding x by (rule one [OF o, symmetric])
    moreover have "o' \<in> ?K" using o by (auto simp: kept_def)
    ultimately show "x \<in> column_shape ` ?f ` ?K" by blast
  qed
qed

lemma diff_rename:
  assumes "distinct (map cd_name old)" "distinct (map cd_name new)"
    and "added_columns old new = [a]" "dropped_columns old new = [n]" "modified_columns old new = []"
    and "by_name old n = Some prev" "same_definition a prev"
  shows "\<exists>s. apply_schema_changes [RenameColumn n (cd_name a) None] (table_schema_new t old) = (Inr (), s) \<and>
    column_shape ` set (ts_columns s) = column_shape ` set new"
proof -
  let ?s = "table_schema_new t old"
  have prev: "prev \<in> set old" "cd_name prev = n" using assms(6) by_name_Some [OF assms(1)] by auto
  obtain i where i: "column_index n ?s = Some i"
    using prev column_index_ex [of n ?s] by (auto simp: table_schema_new_def field_names_def)
  then obtain x c y where c: "old = x @ c # y" "i = length x" "cd_name c = n" "n \<notin> set (map cd_name x)"
    using column_index_split [OF i] by (auto simp: table_schema_new_def)
  have cp: "c = prev" using name_unique [OF assms(1)] prev c by auto
  have k: "kept old new = x @ y"
  proof -
    have dr: "filter (\<lambda>c. cd_name c \<notin> cd_name ` set new) old = [c]"
    proof -
      have "map cd_name (filter (\<lambda>c. cd_name c \<notin> cd_name ` set new) old) = [n]"
        using assms(4) by (simp add: dropped_columns_def by_name_None)
      then obtain z where z: "filter (\<lambda>c. cd_name c \<notin> cd_name ` set new) old = [z]" "cd_name z = n" by auto
      have "z \<in> set (filter (\<lambda>c. cd_name c \<notin> cd_name ` set new) old)" unfolding z(1) by simp
      then have "z \<in> set old" by simp
      then show ?thesis using z name_unique [OF assms(1)] c by auto
    qed
    have "set (filter (\<lambda>c. cd_name c \<notin> cd_name ` set new) old) = {c}" unfolding dr by simp
    then have only: "z \<in> set old \<and> cd_name z \<notin> cd_name ` set new \<longleftrightarrow> z = c" for z
      unfolding set_filter by blast
    have "c \<notin> set x \<union> set y" using assms(1) c by auto
    then have "\<forall>z\<in>set x \<union> set y. cd_name z \<in> cd_name ` set new" "cd_name c \<notin> cd_name ` set new"
      using only c(1) by (metis Un_iff in_set_conv_decomp list.set_intros set_append, metis)
    then show ?thesis using c(1) by (simp add: kept_def filter_id_conv)
  qed
  have "column_shape ` set (x @ c\<lparr>cd_name := cd_name a\<rparr> # y) = insert (column_shape a) (column_shape ` set (kept old new))"
    unfolding k using assms(7) cp by (auto simp: column_shape_def same_definition_def)
  also have "column_shape ` set (kept old new) = column_shape ` {c \<in> set new. cd_name c \<in> cd_name ` set old}"
    using kept_shapes [OF assms(1,2)] assms(5) by (simp add: by_name_def image_image)
  also have "insert (column_shape a) (column_shape ` {c \<in> set new. cd_name c \<in> cd_name ` set old}) = column_shape ` set new"
  proof -
    have "set (added_columns old new) = {c \<in> set new. cd_name c \<notin> cd_name ` set old}" by (auto simp: added_columns_def by_name_None)
    then have "{c \<in> set new. cd_name c \<notin> cd_name ` set old} = {a}" using assms(3) by simp
    then have "set new = insert a {c \<in> set new. cd_name c \<in> cd_name ` set old}" by blast
    then show ?thesis by (metis image_insert)
  qed
  finally have "column_shape ` set (x @ c\<lparr>cd_name := cd_name a\<rparr> # y) = column_shape ` set new" .
  then show ?thesis using i c by (auto simp: apply_schema_change_def table_schema_new_def)
qed

lemma diff_general:
  assumes "distinct (map cd_name old)" "distinct (map cd_name new)"
    and "\<forall>c\<in>set old. cd_primary_key c \<longrightarrow> cd_name c \<in> cd_name ` set new"
  shows "\<exists>s. apply_schema_changes
      (map (\<lambda>c. AddColumn c (p c)) (added_columns old new) @ map (\<lambda>n. DropColumn n (q n)) (dropped_columns old new) @
       map (\<lambda>c. ModifyColumn c (r c)) (modified_columns old new)) (table_schema_new t old) = (Inr (), s) \<and>
    column_shape ` set (ts_columns s) = column_shape ` set new"
proof -
  let ?s = "table_schema_new t old" and ?a = "added_columns old new" and ?d = "dropped_columns old new" and ?m = "modified_columns old new"
  have sa: "set ?a = {c \<in> set new. cd_name c \<notin> cd_name ` set old}" by (auto simp: added_columns_def by_name_None)
  have sd: "set ?d = cd_name ` set old - cd_name ` set new" by (auto simp: dropped_columns_def by_name_None)
  have sm: "cd_name ` set ?m \<subseteq> cd_name ` set new \<inter> cd_name ` set old"
  proof -
    have "d \<in> set new \<and> by_name old (cd_name d) \<noteq> None" if "d \<in> set ?m" for d
      using that by (auto simp: modified_columns_def split: option.splits)
    then have "cd_name d \<in> cd_name ` set new \<inter> cd_name ` set old" if "d \<in> set ?m" for d using by_name_None [of old] that by simp
    then show ?thesis by blast
  qed
  have da: "distinct (field_names ?s @ map cd_name ?a)"
  proof -
    have "\<forall>a\<in>set ?a. cd_name a \<notin> cd_name ` set old" unfolding sa by simp
    then have "cd_name a \<noteq> cd_name o'" if "a \<in> set ?a" "o' \<in> set old" for a o' using that by (simp add: image_iff)
    then have "cd_name ` set old \<inter> cd_name ` set ?a = {}" by fastforce
    then show ?thesis using assms(1,2) by (simp add: field_names_def table_schema_new_def) (simp add: added_columns_def distinct_map_filter)
  qed
  let ?s1 = "?s\<lparr>ts_columns := old @ ?a, ts_primary_key := ts_primary_key ?s @ map cd_name (filter cd_primary_key ?a)\<rparr>"
  have ap: "apply_schema_changes (map (\<lambda>c. AddColumn c (p c)) ?a @ rest) ?s = apply_schema_changes rest ?s1" for rest
    using apply_adds [OF da] by (simp add: table_schema_new_def)
  let ?cols = "kept old new @ ?a"
  have f1: "field_names ?s1 = map cd_name old @ map cd_name ?a" by (simp add: field_names_def)
  have "set (ts_primary_key ?s1) \<subseteq> cd_name ` set new"
    using assms(3) sa by (auto simp: table_schema_new_def)
  then have dr: "apply_schema_changes (map (\<lambda>n. DropColumn n (q n)) ?d @ map (\<lambda>c. ModifyColumn c (r c)) ?m) ?s1 =
      apply_schema_changes (map (\<lambda>c. ModifyColumn c (r c)) ?m)
        (?s1\<lparr>ts_columns := filter (\<lambda>c. cd_name c \<notin> set ?d) (ts_columns ?s1)\<rparr>)"
    using da f1 sd assms(1) by (intro apply_drops) (auto simp: field_names_def table_schema_new_def dropped_columns_def distinct_map_filter)
  have fc: "filter (\<lambda>c. cd_name c \<notin> set ?d) (old @ ?a) = ?cols"
    using sa sd by (auto simp: kept_def filter_id_conv intro!: filter_cong)
  let ?s2 = "?s1\<lparr>ts_columns := ?cols\<rparr>"
  have mo: "apply_schema_changes (map (\<lambda>c. ModifyColumn c (r c)) ?m) ?s2 =
     (Inr (), ?s2\<lparr>ts_columns := map (\<lambda>c. case by_name ?m (cd_name c) of None \<Rightarrow> c | Some d \<Rightarrow> retyped d c) (ts_columns ?s2)\<rparr>)"
  proof (rule apply_modifies)
    have "distinct (map cd_name (kept old new))" "set (map cd_name (kept old new)) \<subseteq> set (map cd_name old)"
      using assms(1) by (auto simp: kept_def distinct_map_filter)
    then show "distinct (field_names ?s2)" using da by (auto simp: field_names_def table_schema_new_def)
    show "distinct (map cd_name ?m)" using assms(2) by (simp add: modified_columns_def distinct_map_filter)
    have "n \<in> cd_name ` set (kept old new)" if n: "n \<in> cd_name ` set new" "n \<in> cd_name ` set old" for n
    proof -
      obtain c where "c \<in> set old" "n = cd_name c" using n(2) by blast
      with n(1) have "c \<in> set (kept old new)" by (simp add: kept_def)
      then show ?thesis using \<open>n = cd_name c\<close> by simp
    qed
    then have "cd_name ` set ?m \<subseteq> cd_name ` set (kept old new)" using sm by (meson IntD1 IntD2 subsetD subsetI)
    then show "cd_name ` set ?m \<subseteq> set (field_names ?s2)" by (simp add: field_names_def le_supI1)
  qed
  have "column_shape ` set (map (\<lambda>c. case by_name ?m (cd_name c) of None \<Rightarrow> c | Some d \<Rightarrow> retyped d c) ?cols) = column_shape ` set new"
  proof -
    have "(case by_name ?m (cd_name c) of None \<Rightarrow> c | Some d \<Rightarrow> retyped d c) = c" if "c \<in> set ?a" for c
    proof -
      have "cd_name c \<notin> cd_name ` set ?m" using that sa sm by blast
      then have "by_name ?m (cd_name c) = None" by (simp add: by_name_None)
      then show ?thesis by simp
    qed
    then have "column_shape ` set (map (\<lambda>c. case by_name ?m (cd_name c) of None \<Rightarrow> c | Some d \<Rightarrow> retyped d c) ?cols) =
        column_shape ` {c \<in> set new. cd_name c \<in> cd_name ` set old} \<union> column_shape ` set ?a"
      using kept_shapes [OF assms(1,2)] by (simp add: image_Un)
    also have "\<dots> = column_shape ` set new" unfolding sa by blast
    finally show ?thesis .
  qed
  then show ?thesis using ap dr fc mo by simp
qed

text \<open>
  C32. The event found between two column lists takes the old one to the new one: without an event the lists agree in the
  name, type and nullability of their columns, and otherwise there is one event, it applies to a schema with the old
  columns without an error, and the result agrees with the new list, renames guessed from one drop and one
  addition included. Names are distinct in each list, and no key column disappears.
\<close>

theorem diff_reaches_new:
  assumes "distinct (map cd_name old)" "distinct (map cd_name new)"
    and "\<forall>c\<in>set old. cd_primary_key c \<longrightarrow> cd_name c \<in> cd_name ` set new"
  shows "case diff_columns t old new of
      [] \<Rightarrow> column_shape ` set old = column_shape ` set new
    | [e] \<Rightarrow> \<exists>s. apply_schema_changes (sce_changes e) (table_schema_new t old) = (Inr (), s) \<and> column_shape ` set (ts_columns s) = column_shape ` set new
    | _ \<Rightarrow> False"
proof (cases "diff_columns t old new")
  case Nil
  then have "added_columns old new = []" "dropped_columns old new = []" "modified_columns old new = []"
    by (auto simp: diff_columns_def Let_def split: if_splits)
  then show ?thesis using Nil diff_general [OF assms, of "\<lambda>_. None" "\<lambda>_. None" "\<lambda>_. None" t] by (simp add: table_schema_new_def)
next
  case (Cons e es)
  let ?a = "added_columns old new" and ?d = "dropped_columns old new" and ?m = "modified_columns old new"
  show ?thesis
  proof (cases "length ?a = 1 \<and> length ?d = 1 \<and> ?m = [] \<and>
      (case by_name old (?d ! 0) of None \<Rightarrow> False | Some prev \<Rightarrow> same_definition (?a ! 0) prev)")
    case True
    then obtain a n prev where r: "?a = [a]" "?d = [n]" "?m = []" "by_name old n = Some prev" "same_definition a prev"
      by (auto simp: length_Suc_conv split: option.splits)
    then have "diff_columns t old new = [event_new t [RenameColumn n (cd_name a) None]]" by (simp add: diff_columns_def)
    then show ?thesis using diff_rename [OF assms(1,2) r, of t] by (simp add: event_new_def)
  next
    case False
    have "diff_columns t old new = [event_new t
        (map (\<lambda>c. AddColumn c (position_of new (cd_name c))) ?a @ map (\<lambda>n. DropColumn n (position_of old n)) ?d @
         map (\<lambda>c. ModifyColumn c (position_of new (cd_name c))) ?m)]"
      using False Cons unfolding diff_columns_def Let_def by (simp split: if_splits)
    then show ?thesis using diff_general [OF assms] by (simp add: event_new_def)
  qed
qed

theorem diff_reaches_new_witness:
  "\<exists>e s. diff_columns ''t'' [column_def_new ''id'' TInt64, column_def_new ''a'' TInt32]
       [column_def_new ''id'' TInt32, column_def_new ''b'' TString] = [e] \<and>
     apply_schema_changes (sce_changes e) (table_schema_new ''t'' [column_def_new ''id'' TInt64, column_def_new ''a'' TInt32]) = (Inr (), s) \<and>
     column_shape ` set (ts_columns s) = {(''id'', TInt32, True), (''b'', TString, True)}"
proof -
  let ?o = "[column_def_new ''id'' TInt64, column_def_new ''a'' TInt32]" and ?n = "[column_def_new ''id'' TInt32, column_def_new ''b'' TString]"
  have h: "distinct (map cd_name ?o)" "distinct (map cd_name ?n)" "\<forall>c\<in>set ?o. cd_primary_key c \<longrightarrow> cd_name c \<in> cd_name ` set ?n"
    by (simp_all add: column_def_new_def)
  obtain e where e: "diff_columns ''t'' ?o ?n = [e]"
    by (simp add: diff_columns_def added_columns_def dropped_columns_def modified_columns_def by_name_def column_def_new_def same_definition_def)
  have "column_shape ` set ?n = {(''id'', TInt32, True), (''b'', TString, True)}" by (auto simp: column_shape_def column_def_new_def)
  then show ?thesis using diff_reaches_new [OF h, of "''t''"] e by auto
qed

section \<open>Statements read back\<close>

text \<open>Names that need no escaping.\<close>

definition name_char :: "char \<Rightarrow> bool" where
  "name_char c \<longleftrightarrow> is_alphanumeric c \<or> c = CHR ''_''"

definition plain_name :: "string \<Rightarrow> bool" where
  "plain_name n \<longleftrightarrow> n \<noteq> [] \<and> list_all name_char n"

definition plain_table :: "string \<Rightarrow> bool" where
  "plain_table t \<longleftrightarrow> list_all plain_name (split_on (CHR ''.'') t)"

definition word_text :: "string \<Rightarrow> bool" where
  "word_text w \<longleftrightarrow> w \<noteq> [] \<and> list_all (\<lambda>c. \<not> is_space c) w"

lemma name_char_facts [simp]:
  "name_char c \<Longrightarrow> \<not> is_space c" "name_char c \<Longrightarrow> c \<noteq> backtick" "name_char c \<Longrightarrow> c \<noteq> CHR ''.''" "name_char c \<Longrightarrow> c \<noteq> CHR '',''"
  "name_char c \<Longrightarrow> c \<noteq> CHR ''(''" "name_char c \<Longrightarrow> c \<noteq> CHR '')''" "name_char c \<Longrightarrow> name_char (to_lower c)"
  by (auto simp: name_char_def is_alphanumeric_def is_space_def to_lower_def Let_def backtick_def)

lemma split_by_word: "list_all (\<lambda>c. \<not> P c) w \<Longrightarrow> split_by P w = [w]"
  by (induction w) auto

lemma split_by_cons: "list_all (\<lambda>c. \<not> P c) w \<Longrightarrow> P d \<Longrightarrow> split_by P (w @ d # rest) = w # split_by P rest"
  by (induction w) auto

lemma split_words: "list_all word_text ws \<Longrightarrow> split_whitespace (join_with '' '' ws) = ws"
proof (induction ws)
  case Nil
  then show ?case by (simp add: split_whitespace_def)
next
  case (Cons w ws)
  have sp: "is_space (CHR '' '')" by (simp add: is_space_def)
  show ?case
  proof (cases ws)
    case Nil
    then show ?thesis using Cons.prems by (simp add: split_whitespace_def word_text_def split_by_word)
  next
    case (Cons v vs)
    then show ?thesis using Cons.IH Cons.prems split_by_cons [of is_space w "CHR '' ''" "join_with '' '' ws"] sp
      by (simp add: split_whitespace_def word_text_def)
  qed
qed

lemma normalize_words: "list_all word_text ws \<Longrightarrow> normalize_ws (join_with '' '' ws) = join_with '' '' ws"
  by (simp add: normalize_ws_def split_words)

lemma plain_name_lower: "plain_name n \<Longrightarrow> plain_name (map to_lower n)"
  by (auto simp: plain_name_def list_all_iff)

lemma backtick_facts [simp]: "\<not> is_space backtick" "backtick \<noteq> CHR ''.''" "backtick \<noteq> CHR '',''" "backtick \<noteq> CHR ''(''" "backtick \<noteq> CHR '')''"
  "backtick \<noteq> CHR '' ''" "to_lower backtick = backtick"
  by (simp_all add: backtick_def is_space_def to_lower_def)

lemma quoted_word: "plain_name n \<Longrightarrow> word_text (quote_identifier MySql n)"
  by (auto simp: plain_name_def word_text_def quote_identifier_def list_all_iff)

lemma plain_no_tick: "plain_name n \<Longrightarrow> backtick \<notin> set n"
  using name_char_facts(2) [of backtick] by (auto simp: plain_name_def list_all_iff)

lemma trim_quoted:
  assumes "plain_name n"
  shows "trim_matches backtick (quote_identifier MySql n) = n"
proof -
  have no: "backtick \<notin> set n" by (rule plain_no_tick [OF assms])
  obtain c cs where "n = c # cs" using assms by (cases n) (auto simp: plain_name_def)
  then have "trim_start_char backtick (quote_identifier MySql n) = n @ [backtick]"
    using no by (auto simp: quote_identifier_def trim_start_char_def)
  moreover have "trim_end_char backtick (n @ [backtick]) = trim_end_char backtick n" by (simp add: trim_end_char_def)
  ultimately show ?thesis using trim_chars_id(2) [OF no] by (simp add: trim_matches_def)
qed

lemma skip_quoted:
  assumes "plain_name n"
  shows "skip_names (quote_identifier MySql n @ rest) =
    (let r = dropWhile tick_or_space rest in if starts_with ''.'' r then skip_names (tl r) else r)"
proof -
  have t: "\<not> tick_or_space c \<and> c \<noteq> CHR ''.''" if "c \<in> set n" for c
    using assms that by (auto simp: plain_name_def list_all_iff tick_or_space_def)
  have tt: "tick_or_space backtick" by (simp add: tick_or_space_def)
  obtain c cs where n: "n = c # cs" using assms by (cases n) (auto simp: plain_name_def)
  have "dropWhile tick_or_space (quote_identifier MySql n @ rest) = n @ backtick # rest"
    using t tt n by (simp add: quote_identifier_def)
  moreover have "dropWhile (\<lambda>c. \<not> (tick_or_space c \<or> c = CHR ''.'')) (n @ backtick # rest) = backtick # rest"
    using t tt by (simp add: dropWhile_append2)
  ultimately show ?thesis using tt by (simp add: skip_names.simps [of "quote_identifier MySql n @ rest"] Let_def)
qed

lemma skip_table:
  assumes "parts \<noteq> []" "list_all plain_name parts" "dropWhile tick_or_space rest = rest" "\<not> starts_with ''.'' rest"
  shows "skip_names (join_with ''.'' (map (quote_identifier MySql) parts) @ CHR '' '' # rest) = rest"
  using assms(1,2)
proof (induction parts)
  case (Cons p parts)
  have sp: "tick_or_space (CHR '' '')" "\<not> tick_or_space (CHR ''.'')" by (simp_all add: tick_or_space_def is_space_def backtick_def)
  show ?case
  proof (cases parts)
    case Nil
    then show ?thesis using Cons.prems assms(3,4) sp by (simp add: skip_quoted)
  next
    case (Cons q qs)
    have "starts_with ''.'' (CHR ''.'' # x)" for x by (simp add: starts_with_def)
    then show ?thesis using Cons Cons.IH Cons.prems sp by (simp add: skip_quoted)
  qed
qed simp

lemma split_actions_plain:
  "list_all (\<lambda>c. c \<notin> {CHR ''('', CHR '')'', CHR '',''}) p \<Longrightarrow>
   split_actions_from d cur (p @ rest) = split_actions_from d (cur @ p) rest"
  by (induction p arbitrary: cur) simp_all

lemma split_actions_inner:
  "list_all (\<lambda>c. c \<notin> {CHR ''('', CHR '')''}) p \<Longrightarrow>
   split_actions_from (Suc d) cur (p @ rest) = split_actions_from (Suc d) (cur @ p) rest"
  by (induction p arbitrary: cur) simp_all

lemma map_join: "map f (join_with sep ps) = join_with (map f sep) (map (map f) ps)"
  by (induction sep ps rule: join_with.induct) simp_all

lemma lower_quoted: "map to_lower (quote_identifier MySql n) = quote_identifier MySql (map to_lower n)"
  by (simp add: quote_identifier_def)

lemma join_cons: "ps \<noteq> [] \<Longrightarrow> join_with sep (p # ps) = p @ sep @ join_with sep ps"
  by (cases ps) simp_all

lemma dotted_word: "parts \<noteq> [] \<Longrightarrow> list_all plain_name parts \<Longrightarrow> word_text (join_with ''.'' (map (quote_identifier MySql) parts))"
proof (induction parts)
  case (Cons p parts)
  have "\<not> is_space (CHR ''.'')" by (simp add: is_space_def)
  then show ?case using Cons quoted_word [of p] by (cases parts) (auto simp: word_text_def)
qed simp

lemma split_on_nonempty: "split_on d s \<noteq> []"
  by (induction s) (auto split: list.splits)

lemma parse_alter_words:
  assumes "plain_table table" "ws \<noteq> []" "list_all word_text ws" "name_char (hd (hd ws))"
  shows "parse_alter_table (alter MySql table @ '' '' @ join_with '' '' ws) = all_changes (split_actions (join_with '' '' ws))"
proof -
  let ?parts = "split_on (CHR ''.'') table"
  let ?ddl = "alter MySql table @ '' '' @ join_with '' '' ws"
  have pl: "list_all plain_name ?parts" using assms(1) by (simp add: plain_table_def)
  have ddl: "?ddl = join_with '' '' (''ALTER'' # ''TABLE'' # quote_dotted MySql table # ws)"
    using assms(2) by (cases ws) (simp_all add: alter_def)
  have words: "list_all word_text (''ALTER'' # ''TABLE'' # quote_dotted MySql table # ws)"
    using assms(3) dotted_word [OF split_on_nonempty pl]
    by (simp add: quote_dotted_def) (simp add: word_text_def is_space_def)
  have norm: "normalize_ws ?ddl = ?ddl" unfolding ddl by (rule normalize_words [OF words])
  let ?act = "join_with '' '' ws"
  obtain c r where act: "?act = c # r" "name_char c"
  proof -
    obtain c cs ws' where w: "ws = (c # cs) # ws'" using assms(2,3) by (cases ws; cases "hd ws") (auto simp: word_text_def)
    then have "join_with '' '' ws = c # cs @ (if ws' = [] then [] else '' '' @ join_with '' '' ws')" by (cases ws') simp_all
    then show thesis using that assms(4) w by simp
  qed
  have low: "map to_lower ?ddl = ''alter table '' @ map to_lower (quote_dotted MySql table) @ CHR '' '' # map to_lower ?act"
  proof -
    have "map to_lower ''ALTER TABLE '' = ''alter table ''" "to_lower (CHR '' '') = CHR '' ''" by code_simp+
    then show ?thesis by (simp add: alter_def)
  qed
  have skip: "skip_identifier (map to_lower (quote_dotted MySql table) @ CHR '' '' # map to_lower ?act) = map to_lower ?act"
  proof -
    have lq: "map to_lower (quote_dotted MySql table) = join_with ''.'' (map (quote_identifier MySql) (map (map to_lower) ?parts))"
      by (simp add: quote_dotted_def map_join lower_quoted comp_def) (simp add: to_lower_def)
    have "list_all plain_name (map (map to_lower) ?parts)" using pl by (auto simp: list_all_iff plain_name_lower)
    moreover have "dropWhile tick_or_space (map to_lower ?act) = map to_lower ?act" "\<not> starts_with ''.'' (map to_lower ?act)"
      using act by (simp_all add: tick_or_space_def starts_with_def)
    moreover have "dropWhile is_space (map to_lower (quote_dotted MySql table) @ x) = map to_lower (quote_dotted MySql table) @ x" for x
      using dotted_word [of "map (map to_lower) ?parts"] calculation(1) split_on_nonempty
      unfolding lq by (cases "join_with ''.'' (map (quote_identifier MySql) (map (map to_lower) ?parts))") (auto simp: word_text_def)
    ultimately show ?thesis using skip_table [of "map (map to_lower) ?parts"] split_on_nonempty lq by (simp add: skip_identifier_def)
  qed
  have "drop (length ?ddl - length (map to_lower ?act)) ?ddl = ?act"
    using append_eq_conv_conj [of "alter MySql table @ '' ''" ?act ?ddl] by simp
  then show ?thesis unfolding parse_alter_table_def Let_def norm low strip_prefix_append option.case skip by simp
qed

definition spec_type :: "string \<Rightarrow> column_type" where
  "spec_type ty = (case parse_type_spec ty of (base, len, scale) \<Rightarrow> mysql_map_type base len scale)"

lemma trim_id: "s \<noteq> [] \<Longrightarrow> \<not> is_space (hd s) \<Longrightarrow> \<not> is_space (last s) \<Longrightarrow> trim s = s"
proof -
  assume s: "s \<noteq> []" "\<not> is_space (hd s)" "\<not> is_space (last s)"
  have "dropWhile is_space s = s" using s by (cases s) simp_all
  moreover have "dropWhile is_space (rev s) = rev s" using s by (cases s rule: rev_cases) simp_all
  ultimately show "trim s = s" by (simp add: trim_def)
qed

definition null_words :: "bool \<Rightarrow> string list" where
  "null_words nullable = (if nullable then [] else [''NOT'', ''NULL''])"

lemma parse_column_text:
  assumes "plain_name n" "word_text ty" "last ty \<noteq> backtick"
  shows "parse_column_def (join_with '' '' (quote_identifier MySql n # ty # null_words nullable)) =
    Some ((column_def_new n (spec_type (map to_lower ty)))\<lparr>cd_nullable := nullable, cd_source_type := Some (map to_lower ty)\<rparr>)"
proof -
  let ?w = "\<lambda>q. join_with '' '' (q # ty # null_words nullable)"
  let ?tail = "join_with '' '' (ty # null_words nullable)"
  have j: "?w q = q @ '' '' @ ?tail" for q by simp
  have tl: "?tail \<noteq> []" "\<not> is_space (last ?tail)" "last ?tail \<noteq> backtick"
    using assms(2,3) by (auto simp: null_words_def word_text_def is_space_def list_all_iff backtick_def)
  have nt: "backtick \<notin> set n" "n \<noteq> []" using plain_no_tick [OF assms(1)] assms(1) by (auto simp: plain_name_def)
  have "trim (?w (quote_identifier MySql n)) = ?w (quote_identifier MySql n)"
    using tl unfolding j by (intro trim_id) (auto simp: quote_identifier_def)
  moreover have "trim_matches backtick (?w (quote_identifier MySql n)) = ?w (n @ [backtick])"
  proof -
    obtain c cs where c: "n = c # cs" using nt by (cases n) auto
    then have "trim_start_char backtick (?w (quote_identifier MySql n)) = ?w (n @ [backtick])"
      unfolding j using nt by (auto simp: trim_start_char_def quote_identifier_def)
    moreover obtain x where "?w (n @ [backtick]) = x @ [last ?tail]" unfolding j using tl(1) by (metis append_assoc append_butlast_last_id)
    ultimately show ?thesis using tl(3) by (simp add: trim_matches_def trim_end_char_def del: join_with.simps)
  qed
  moreover have "split_whitespace (?w (n @ [backtick])) = (n @ [backtick]) # ty # null_words nullable"
  proof (rule split_words)
    have "word_text (n @ [backtick])" using assms(1) by (auto simp: plain_name_def word_text_def list_all_iff)
    then show "list_all word_text ((n @ [backtick]) # ty # null_words nullable)"
      using assms(2) by (auto simp: null_words_def word_text_def is_space_def)
  qed
  moreover have "trim_matches backtick (n @ [backtick]) = n"
    using nt trim_chars_id [OF nt(1)] by (cases n) (auto simp: trim_matches_def trim_start_char_def trim_end_char_def)
  moreover have "(split_once ''not null'' (map to_lower (join_with '' '' (null_words nullable))) = None) = nullable"
  proof (cases nullable)
    case False
    have "split_once ''not null'' (map to_lower ''NOT NULL'') \<noteq> None" by code_simp
    then show ?thesis using False by (simp add: null_words_def)
  qed (simp add: null_words_def)
  moreover have "null_words nullable \<noteq> [] \<longrightarrow> \<not> starts_with ''('' (hd (null_words nullable))"
    by (simp add: null_words_def starts_with_def)
  ultimately show ?thesis using nt(2)
    by (auto simp: parse_column_def_def spec_type_def Let_def split: prod.splits)
qed

text \<open>The column types that a MySQL column definition carries unchanged.\<close>

fun ddl_type :: "column_type \<Rightarrow> bool" where
  "ddl_type (TDecimal p s) \<longleftrightarrow> 1 \<le> unat p \<and> unat p \<le> 65 \<and> 0 \<le> sint s \<and> sint s \<le> 30"
| "ddl_type t \<longleftrightarrow> t \<in> {TBool, TInt8, TInt16, TInt32, TInt64, TFloat32, TFloat64, TString, TBytes, TDate, TTime, TDateTime, TTimestampTz}"

definition one_action :: "string \<Rightarrow> bool" where
  "one_action p \<longleftrightarrow> (\<forall>cur rest. split_actions_from 0 cur (p @ rest) = split_actions_from 0 (cur @ p) rest)"

lemma one_action_plain: "list_all (\<lambda>c. c \<notin> {CHR ''('', CHR '')'', CHR '',''}) p \<Longrightarrow> one_action p"
  by (simp add: one_action_def split_actions_plain)

lemma one_action_append: "one_action p \<Longrightarrow> one_action q \<Longrightarrow> one_action (p @ q)"
  by (simp add: one_action_def)

lemma one_action_paren:
  assumes "list_all (\<lambda>c. c \<notin> {CHR ''('', CHR '')''}) p"
  shows "one_action (CHR ''('' # p @ '')'')"
  using split_actions_inner [OF assms, of 0] by (simp add: one_action_def)

definition type_text :: "column_type \<Rightarrow> string \<Rightarrow> bool" where
  "type_text t ty \<longleftrightarrow> word_text ty \<and> last ty \<noteq> backtick \<and> one_action ty \<and> spec_type (map to_lower ty) = t"

lemma to_lower_digit: "is_digit c \<Longrightarrow> to_lower c = c"
  by (simp add: is_digit_def to_lower_def Let_def)

lemma lower_digits: "list_all is_digit s \<Longrightarrow> map to_lower s = s"
  by (induction s) (simp_all add: to_lower_digit)

lemma digit_facts: "is_digit c \<Longrightarrow> \<not> is_space c \<and> c \<noteq> CHR ''('' \<and> c \<noteq> CHR '')'' \<and> c \<noteq> CHR '','' \<and> c \<noteq> backtick"
  by (auto simp: is_digit_def is_space_def backtick_def)

lemma show_nat_all: "list_all is_digit (show_nat n)"
  by (simp add: list_all_iff show_nat_digits)

lemma trim_digits: "list_all is_digit s \<Longrightarrow> s \<noteq> [] \<Longrightarrow> trim s = s"
  using digit_facts by (intro trim_id) (auto simp: list_all_iff)

lemma trim_end_paren: "CHR '')'' \<notin> set i \<Longrightarrow> trim_end_char (CHR '')'') (i @ '')'') = i"
  using trim_chars_id(2) [of "CHR '')''" i] by (simp add: trim_end_char_def)

lemma digits_no_comma: "list_all (\<lambda>c. c \<noteq> CHR '','') (show_nat n)"
  using digit_facts show_nat_digits by (auto simp: list_all_iff)

lemma sized_spec:
  assumes "list_all (\<lambda>c. c \<noteq> CHR ''('') b" "n < 2 ^ 32"
  shows "parse_type_spec (b @ CHR ''('' # show_nat n @ '')'') = (trim b, Some n, None)"
proof -
  have "CHR '')'' \<notin> set (show_nat n)" using digit_facts show_nat_digits by blast
  then have te: "trim_end_char (CHR '')'') (show_nat n @ '')'') = show_nat n" by (rule trim_end_paren)
  have so: "split_on (CHR '','') (show_nat n) = [show_nat n]" by (rule split_on_safe [OF digits_no_comma])
  have pu: "parse_u32 (show_nat n) = Some n" using assms(2) by (simp add: parse_u32_def u64_max_def)
  show ?thesis unfolding parse_type_spec_def split_once_char [OF assms(1)] option.case prod.case Let_def te so
    using trim_digits [OF show_nat_all] pu by simp
qed

lemma decimal_text_reads:
  assumes "1 \<le> unat p" "unat p \<le> 65" "0 \<le> sint s" "sint s \<le> 30"
  shows "type_text (TDecimal p s) (decimal_text ''DECIMAL'' (unat p) (sint s))"
proof -
  let ?i = "show_nat (unat p) @ CHR '','' # show_nat (nat (sint s))"
  have t: "decimal_text ''DECIMAL'' (unat p) (sint s) = ''DECIMAL'' @ CHR ''('' # ?i @ '')''"
    using assms by (simp add: decimal_text_def show_int_def)
  have nd1: "\<not> is_space c \<and> c \<noteq> CHR ''('' \<and> c \<noteq> CHR '')''" if c: "c \<in> set ?i" for c
  proof -
    have "c \<in> set (show_nat (unat p)) \<or> c = CHR '','' \<or> c \<in> set (show_nat (nat (sint s)))" using c by auto
    then consider "is_digit c" | "c = CHR '',''" using show_nat_digits by metis
    then show ?thesis
    proof cases
      case 1
      then show ?thesis using digit_facts by blast
    qed (simp add: is_space_def)
  qed
  then have nd: "\<forall>c\<in>set ?i. \<not> is_space c \<and> c \<noteq> CHR ''('' \<and> c \<noteq> CHR '')''" by blast
  have low: "map to_lower (''DECIMAL'' @ CHR ''('' # ?i @ '')'') = ''decimal'' @ CHR ''('' # ?i @ '')''"
  proof -
    have "map to_lower ''DECIMAL'' = ''decimal''" "to_lower (CHR ''('') = CHR ''(''" "to_lower (CHR '')'') = CHR '')''" "to_lower (CHR '','') = CHR '',''"
      by code_simp+
    then show ?thesis by (simp add: lower_digits [OF show_nat_all])
  qed
  have sp: "split_once ''('' (''decimal'' @ CHR ''('' # ?i @ '')'') = Some (''decimal'', ?i @ '')'')"
    by (rule split_once_char) simp
  have te: "trim_end_char (CHR '')'') (?i @ '')'') = ?i"
    using nd by (intro trim_end_paren) blast
  have so: "split_on (CHR '','') ?i = [show_nat (unat p), show_nat (nat (sint s))]"
    using split_on_cons [OF digits_no_comma] split_on_safe [OF digits_no_comma] by simp
  have pi: "parse_int 8 (show_nat (nat (sint s))) = Some (sint s)"
    using parse_show_int [of 8 "sint s"] assms(3,4) by (simp add: show_int_def)
  have pu: "parse_u32 (show_nat (unat p)) = Some (unat p)" using assms(2) by (simp add: parse_u32_def u64_max_def)
  have tb: "trim ''decimal'' = ''decimal''" by code_simp
  have "parse_type_spec (''decimal'' @ CHR ''('' # ?i @ '')'') = (''decimal'', Some (unat p), Some s)"
    unfolding parse_type_spec_def sp option.case Let_def prod.case te so
    using trim_digits [OF show_nat_all] pi pu tb by simp
  moreover have "mysql_map_type ''decimal'' (Some (unat p)) (Some s) = TDecimal p s"
  proof -
    have l: "map to_lower ''decimal'' = ''decimal''" by code_simp
    show ?thesis unfolding mysql_map_type_def l using assms by (simp add: Let_def decimal_type_def clamp_nat_def clamp_int_def)
  qed
  ultimately have "spec_type (map to_lower (''DECIMAL'' @ CHR ''('' # ?i @ '')'')) = TDecimal p s" unfolding low by (simp add: spec_type_def)
  moreover have "one_action (''DECIMAL'' @ CHR ''('' # ?i @ '')'')"
  proof (rule one_action_append)
    show "one_action ''DECIMAL''" by (rule one_action_plain) simp
    have "list_all (\<lambda>c. c \<notin> {CHR ''('', CHR '')''}) ?i" unfolding list_all_iff empty_iff insert_iff using nd by blast
    then show "one_action (CHR ''('' # ?i @ '')'')" by (rule one_action_paren)
  qed
  moreover have "word_text (''DECIMAL'' @ CHR ''('' # ?i @ '')'')"
  proof -
    have "list_all (\<lambda>c. \<not> is_space c) ?i" using nd by (simp only: list_all_iff) blast
    then show ?thesis by (simp add: word_text_def is_space_def)
  qed
  ultimately show ?thesis unfolding t by (simp add: type_text_def backtick_def)
qed

lemma spec_simple:
  "spec_type (map to_lower ''TINYINT'') = TInt8" "spec_type (map to_lower ''SMALLINT'') = TInt16" "spec_type (map to_lower ''INT'') = TInt32"
  "spec_type (map to_lower ''BIGINT'') = TInt64" "spec_type (map to_lower ''FLOAT'') = TFloat32" "spec_type (map to_lower ''DOUBLE'') = TFloat64"
  "spec_type (map to_lower ''TEXT'') = TString" "spec_type (map to_lower ''BLOB'') = TBytes" "spec_type (map to_lower ''DATE'') = TDate"
  "spec_type (map to_lower ''TIME'') = TTime" "spec_type (map to_lower ''DATETIME'') = TDateTime" "spec_type (map to_lower ''TIMESTAMP'') = TTimestampTz"
  by code_simp+

lemma spec_sized: "spec_type (map to_lower ''TINYINT(1)'') = TBool" "spec_type (map to_lower ''VARCHAR(255)'') = TString"
proof -
  have t: "map to_lower ''TINYINT(1)'' = ''tinyint'' @ CHR ''('' # show_nat 1 @ '')''"
    "map to_lower ''VARCHAR(255)'' = ''varchar'' @ CHR ''('' # show_nat 255 @ '')''" by code_simp+
  have m: "mysql_map_type (trim ''tinyint'') (Some 1) None = TBool" "mysql_map_type (trim ''varchar'') (Some 255) None = TString"
    by code_simp+
  show "spec_type (map to_lower ''TINYINT(1)'') = TBool" unfolding t spec_type_def by (subst sized_spec) (use m in simp_all)
  show "spec_type (map to_lower ''VARCHAR(255)'') = TString" unfolding t spec_type_def by (subst sized_spec) (simp_all add: m)
qed

lemma sized_action: "one_action ''TINYINT(1)''" "one_action ''VARCHAR(255)''"
  using one_action_append [OF one_action_plain [of "''TINYINT''"] one_action_paren [of "''1''"]]
    one_action_append [OF one_action_plain [of "''VARCHAR''"] one_action_paren [of "''255''"]] by simp_all

lemma ddl_type_text: "ddl_type t \<Longrightarrow> type_text t (mysql_type pk t)"
proof (cases t)
  case (TDecimal p s)
  assume "ddl_type t"
  with TDecimal show ?thesis using decimal_text_reads [of p s] by (simp add: clamp_nat_def clamp_int_def)
qed (simp_all add: type_text_def spec_simple spec_sized sized_action one_action_plain word_text_def is_space_def backtick_def del: list.map)

lemma trim_nonempty: "c \<in> set s \<Longrightarrow> \<not> is_space c \<Longrightarrow> trim s \<noteq> []"
proof -
  assume c: "c \<in> set s" "\<not> is_space c"
  have k: "c \<in> set (dropWhile is_space x)" if "c \<in> set x" for x using c(2) that by (induction x) auto
  have "c \<in> set (dropWhile is_space (rev (dropWhile is_space s)))" using k c(1) by (metis set_rev)
  then have "dropWhile is_space (rev (dropWhile is_space s)) \<noteq> []" by (metis empty_iff list.set(1))
  then show "trim s \<noteq> []" by (simp add: trim_def del: dropWhile_eq_Nil_conv)
qed

lemma single_action:
  assumes "one_action s" "s \<noteq> []" "\<not> is_space (hd s)"
  shows "split_actions s = [s]"
proof -
  have "trim s \<noteq> []" using assms(2,3) by (intro trim_nonempty [of "hd s"]) auto
  moreover have "split_actions_from 0 [] (s @ []) = split_actions_from 0 ([] @ s) []" using assms(1) unfolding one_action_def by blast
  ultimately show ?thesis by (simp add: split_actions_def)
qed

lemma quoted_action: "plain_name n \<Longrightarrow> one_action (quote_identifier MySql n)"
  by (rule one_action_plain) (auto simp: plain_name_def quote_identifier_def list_all_iff)

lemma null_action: "one_action (if nullable then [] else '' NOT NULL'')"
  by (rule one_action_plain) simp

lemma keyword_strip:
  assumes "map to_lower kw = kw" "map to_lower up = kw" "rest \<noteq> []"
  shows "strip_keyword (up @ '' '' @ rest) kw = rest"
proof -
  have "length up = length kw" using arg_cong [where f = length, OF assms(2)] by simp
  then show ?thesis using assms by (simp add: strip_keyword_def Let_def nth_append)
qed

lemma keyword_column: "rest \<noteq> [] \<Longrightarrow> strip_keyword (''COLUMN '' @ rest) ''column'' = rest"
proof -
  have "map to_lower ''column'' = ''column''" "map to_lower ''COLUMN'' = ''column''" by code_simp+
  then show "rest \<noteq> [] \<Longrightarrow> strip_keyword (''COLUMN '' @ rest) ''column'' = rest" using keyword_strip [of "''column''" "''COLUMN''" rest] by simp
qed

text \<open>What a statement made from a change is read as: the position is lost, and the column definition keeps name, type and nullability.\<close>

definition reread_column :: "column_def \<Rightarrow> column_def" where
  "reread_column c =
     (column_def_new (cd_name c) (cd_type c))
       \<lparr>cd_nullable := cd_nullable c, cd_source_type := Some (map to_lower (sql_type_for MySql c))\<rparr>"

fun reread :: "schema_change \<Rightarrow> schema_change" where
  "reread (AddColumn c _) = AddColumn (reread_column c) None"
| "reread (DropColumn n _) = DropColumn n None"
| "reread (RenameColumn old new _) = RenameColumn old new None"
| "reread (ModifyColumn c _) = ModifyColumn (reread_column c) None"

fun plain_change :: "schema_change \<Rightarrow> bool" where
  "plain_change (AddColumn c _) \<longleftrightarrow> plain_name (cd_name c) \<and> ddl_type (cd_type c)"
| "plain_change (DropColumn n _) \<longleftrightarrow> plain_name n"
| "plain_change (RenameColumn old new _) \<longleftrightarrow> plain_name old \<and> plain_name new"
| "plain_change (ModifyColumn c _) \<longleftrightarrow> plain_name (cd_name c) \<and> ddl_type (cd_type c)"

lemma column_sql_words:
  "column_sql MySql c = join_with '' '' (quote_identifier MySql (cd_name c) # sql_type_for MySql c # null_words (cd_nullable c))"
  by (simp add: column_sql_def null_words_def)

lemma column_sql_reads:
  assumes "plain_name (cd_name c)" "ddl_type (cd_type c)"
  shows "parse_column_def (column_sql MySql c) = Some (reread_column c)"
    and "list_all word_text (quote_identifier MySql (cd_name c) # sql_type_for MySql c # null_words (cd_nullable c))"
    and "one_action (column_sql MySql c)" "column_sql MySql c = backtick # tl (column_sql MySql c)"
proof -
  have t: "type_text (cd_type c) (sql_type_for MySql c)" using ddl_type_text [OF assms(2)] by simp
  show "parse_column_def (column_sql MySql c) = Some (reread_column c)"
    unfolding column_sql_words using parse_column_text [OF assms(1)] t by (simp add: type_text_def reread_column_def)
  show "list_all word_text (quote_identifier MySql (cd_name c) # sql_type_for MySql c # null_words (cd_nullable c))"
    using quoted_word [OF assms(1)] t by (simp add: type_text_def null_words_def word_text_def is_space_def)
  have "one_action '' ''" by (rule one_action_plain) simp
  then show "one_action (column_sql MySql c)" unfolding column_sql_def
    using quoted_action [OF assms(1)] t null_action by (intro one_action_append) (simp_all add: type_text_def)
  show "column_sql MySql c = backtick # tl (column_sql MySql c)" by (simp add: column_sql_def quote_identifier_def)
qed

text \<open>No column action is taken for one of the ignored clauses.\<close>

lemma column_actions_kept:
  "\<not> list_ex (\<lambda>p. starts_with p (''add column '' @ r)) ignored_actions" "\<not> list_ex (\<lambda>p. starts_with p (''drop column '' @ r)) ignored_actions"
  "\<not> list_ex (\<lambda>p. starts_with p (''modify column '' @ r)) ignored_actions" "\<not> list_ex (\<lambda>p. starts_with p (''rename column '' @ r)) ignored_actions"
  by (simp_all add: ignored_actions_def starts_with_def)

lemma lower_keywords:
  "map to_lower (''ADD COLUMN '' @ r) = ''add column '' @ map to_lower r" "map to_lower (''DROP COLUMN '' @ r) = ''drop column '' @ map to_lower r"
  "map to_lower (''MODIFY COLUMN '' @ r) = ''modify column '' @ map to_lower r" "map to_lower (''RENAME COLUMN '' @ r) = ''rename column '' @ map to_lower r"
proof -
  have "map to_lower ''ADD COLUMN '' = ''add column ''" "map to_lower ''DROP COLUMN '' = ''drop column ''"
    "map to_lower ''MODIFY COLUMN '' = ''modify column ''" "map to_lower ''RENAME COLUMN '' = ''rename column ''" by code_simp+
  then show "map to_lower (''ADD COLUMN '' @ r) = ''add column '' @ map to_lower r" "map to_lower (''DROP COLUMN '' @ r) = ''drop column '' @ map to_lower r"
    "map to_lower (''MODIFY COLUMN '' @ r) = ''modify column '' @ map to_lower r" "map to_lower (''RENAME COLUMN '' @ r) = ''rename column '' @ map to_lower r"
    by (simp_all only: map_append)
qed

lemma inner_text:
  assumes "r \<noteq> []"
  shows "strip_keyword (strip_keyword (''ADD COLUMN '' @ r) ''add'') ''column'' = r"
    "strip_keyword (strip_keyword (''DROP COLUMN '' @ r) ''drop'') ''column'' = r"
    "strip_keyword (strip_keyword (''MODIFY COLUMN '' @ r) ''modify'') ''column'' = r"
    "strip_keyword (strip_keyword (''RENAME COLUMN '' @ r) ''rename'') ''column'' = r"
proof -
  have l: "map to_lower ''add'' = ''add''" "map to_lower ''ADD'' = ''add''" "map to_lower ''drop'' = ''drop''" "map to_lower ''DROP'' = ''drop''"
    "map to_lower ''modify'' = ''modify''" "map to_lower ''MODIFY'' = ''modify''" "map to_lower ''rename'' = ''rename''"
    "map to_lower ''RENAME'' = ''rename''" by code_simp+
  have ne: "''COLUMN '' @ r \<noteq> []" by simp
  show "strip_keyword (strip_keyword (''ADD COLUMN '' @ r) ''add'') ''column'' = r"
    "strip_keyword (strip_keyword (''DROP COLUMN '' @ r) ''drop'') ''column'' = r"
    "strip_keyword (strip_keyword (''MODIFY COLUMN '' @ r) ''modify'') ''column'' = r"
    "strip_keyword (strip_keyword (''RENAME COLUMN '' @ r) ''rename'') ''column'' = r"
    using keyword_strip [OF l(1,2) ne] keyword_strip [OF l(3,4) ne] keyword_strip [OF l(5,6) ne] keyword_strip [OF l(7,8) ne]
      keyword_column [OF assms] by simp_all
qed

lemma action_add:
  assumes "normalize_ws (''ADD COLUMN '' @ r) = ''ADD COLUMN '' @ r" "r = backtick # x"
  shows "action_changes (''ADD COLUMN '' @ r) = Some (case parse_column_def r of None \<Rightarrow> [] | Some d \<Rightarrow> [AddColumn d None])"
proof -
  have i: "strip_keyword (strip_keyword (''ADD COLUMN '' @ r) ''add'') ''column'' = r" using inner_text(1) [of r] assms(2) by blast
  have s: "starts_with ''add '' (''add column '' @ y)" for y by (simp add: starts_with_def)
  have "strip_prefix ''('' r = None" using assms(2) by (simp add: strip_prefix_def)
  then show ?thesis unfolding action_changes_def Let_def assms(1) lower_keywords i
    by (simp only: column_actions_kept s if_True if_False add_action_def parsed_add_def Option.bind.simps option.case)
qed

lemma action_modify:
  assumes "normalize_ws (''MODIFY COLUMN '' @ r) = ''MODIFY COLUMN '' @ r" "r \<noteq> []"
  shows "action_changes (''MODIFY COLUMN '' @ r) = Some (case parse_column_def r of None \<Rightarrow> [] | Some d \<Rightarrow> [ModifyColumn d None])"
proof -
  have s: "\<not> starts_with ''add '' (''modify column '' @ y)" "\<not> starts_with ''drop '' (''modify column '' @ y)"
    "starts_with ''modify '' (''modify column '' @ y)" for y by (simp_all add: starts_with_def)
  show ?thesis unfolding action_changes_def Let_def assms(1) lower_keywords inner_text(3) [OF assms(2)]
    by (simp only: column_actions_kept s if_True if_False)
qed

lemma action_drop:
  assumes "plain_name n"
  shows "action_changes (''DROP COLUMN '' @ quote_identifier MySql n) = Some [DropColumn n None]"
proof -
  let ?r = "quote_identifier MySql n"
  have ne: "?r \<noteq> []" by (simp add: quote_identifier_def)
  have w: "list_all word_text [''DROP'', ''COLUMN'', ?r]" using quoted_word [OF assms] by (simp add: word_text_def is_space_def)
  have norm: "normalize_ws (''DROP COLUMN '' @ ?r) = ''DROP COLUMN '' @ ?r" using normalize_words [OF w] by simp
  have s: "\<not> starts_with ''add '' (''drop column '' @ y)" "starts_with ''drop '' (''drop column '' @ y)" for y by (simp_all add: starts_with_def)
  have "first_word ?r = ?r" using split_words [of "[?r]"] w by (simp add: first_word_def)
  then have nm: "trim_matches backtick (first_word ?r) = n" by (simp add: trim_quoted [OF assms])
  have "n \<noteq> []" using assms by (simp add: plain_name_def)
  then show ?thesis unfolding action_changes_def Let_def norm lower_keywords inner_text(2) [OF ne] nm
    by (simp only: column_actions_kept s if_True if_False)
qed

lemma no_split_once: "list_all (\<lambda>c. c \<noteq> d) a \<Longrightarrow> split_once (d # sep) (a @ d # sep @ b) = Some (a, b)"
  by (induction a) (auto simp: strip_prefix_def)

lemma action_rename:
  assumes "plain_name old" "plain_name new"
  shows "action_changes (''RENAME COLUMN '' @ quote_identifier MySql old @ '' TO '' @ quote_identifier MySql new) =
    Some [RenameColumn old new None]"
proof -
  let ?o = "quote_identifier MySql old" and ?n = "quote_identifier MySql new"
  let ?r = "?o @ '' TO '' @ ?n"
  have wo: "word_text ?o" "word_text ?n" using quoted_word assms by auto
  have w: "list_all word_text [''RENAME'', ''COLUMN'', ?o, ''TO'', ?n]" using wo by (simp add: word_text_def is_space_def)
  have norm: "normalize_ws (''RENAME COLUMN '' @ ?r) = ''RENAME COLUMN '' @ ?r" using normalize_words [OF w] by simp
  have ne: "?r \<noteq> []" by (simp add: quote_identifier_def)
  have s: "\<not> starts_with ''add '' (''rename column '' @ y)" "\<not> starts_with ''drop '' (''rename column '' @ y)"
    "\<not> starts_with ''modify '' (''rename column '' @ y)" "\<not> starts_with ''change '' (''rename column '' @ y)"
    "starts_with ''rename column '' (''rename column '' @ y)" for y by (simp_all add: starts_with_def)
  have low: "map to_lower ?r = map to_lower ?o @ CHR '' '' # ''to '' @ map to_lower ?n"
  proof -
    have "map to_lower '' TO '' = '' to ''" by code_simp
    then show ?thesis by simp
  qed
  have "list_all (\<lambda>c. c \<noteq> CHR '' '') (map to_lower ?o)"
  proof -
    have "word_text (quote_identifier MySql (map to_lower old))" by (rule quoted_word [OF plain_name_lower [OF assms(1)]])
    then have "list_all (\<lambda>c. \<not> is_space c) (map to_lower ?o)" by (simp add: lower_quoted word_text_def)
    moreover have "is_space (CHR '' '')" by (simp add: is_space_def)
    ultimately show ?thesis by (auto simp: list_all_iff)
  qed
  then have so: "split_once '' to '' (map to_lower ?r) = Some (map to_lower ?o, map to_lower ?n)" unfolding low by (rule no_split_once)
  have o: "trim_matches backtick (trim (take (length (map to_lower ?o)) ?r)) = old"
  proof -
    have "trim ?o = ?o" using wo(1) by (intro trim_id) (auto simp: word_text_def list_all_iff)
    then show ?thesis by (simp add: trim_quoted [OF assms(1)])
  qed
  have n: "trim_matches backtick (first_word (drop (length (map to_lower ?o) + 4) ?r)) = new"
  proof -
    have "first_word ?n = ?n" using split_words [of "[?n]"] wo(2) by (simp add: first_word_def)
    then show ?thesis by (simp add: trim_quoted [OF assms(2)])
  qed
  have "old \<noteq> []" "new \<noteq> []" using assms by (auto simp: plain_name_def)
  then have "rename_action ?r = Some [RenameColumn old new None]"
    unfolding rename_action_def so option.case prod.case Let_def o n by simp
  then show ?thesis unfolding action_changes_def Let_def norm lower_keywords inner_text(4) [OF ne]
    by (simp only: column_actions_kept s if_True if_False)
qed

lemma action_column:
  assumes "plain_name (cd_name c)" "ddl_type (cd_type c)"
  shows "action_changes (''ADD COLUMN '' @ column_sql MySql c) = Some [AddColumn (reread_column c) None]"
    and "action_changes (''MODIFY COLUMN '' @ column_sql MySql c) = Some [ModifyColumn (reread_column c) None]"
proof -
  note r = column_sql_reads [OF assms]
  have n: "normalize_ws (kw @ '' COLUMN '' @ column_sql MySql c) = kw @ '' COLUMN '' @ column_sql MySql c" if "word_text kw" for kw
  proof -
    have "list_all word_text (kw # ''COLUMN'' # quote_identifier MySql (cd_name c) # sql_type_for MySql c # null_words (cd_nullable c))"
      using r(2) that by (simp add: word_text_def is_space_def)
    from normalize_words [OF this] show ?thesis unfolding column_sql_words by simp
  qed
  have "word_text ''ADD''" "word_text ''MODIFY''" by (simp_all add: word_text_def is_space_def)
  then have na: "normalize_ws (''ADD COLUMN '' @ column_sql MySql c) = ''ADD COLUMN '' @ column_sql MySql c"
    and nm: "normalize_ws (''MODIFY COLUMN '' @ column_sql MySql c) = ''MODIFY COLUMN '' @ column_sql MySql c"
    using n [of "''ADD''"] n [of "''MODIFY''"] by simp_all
  show "action_changes (''ADD COLUMN '' @ column_sql MySql c) = Some [AddColumn (reread_column c) None]"
    using action_add [OF na r(4)] r(1) by simp
  have "column_sql MySql c \<noteq> []" using r(4) by auto
  from action_modify [OF nm this] show "action_changes (''MODIFY COLUMN '' @ column_sql MySql c) = Some [ModifyColumn (reread_column c) None]"
    using r(1) by simp
qed

text \<open>A statement with one column action, whatever its keyword.\<close>

lemma column_statement:
  assumes "plain_table table" "kw \<in> {''ADD'', ''MODIFY'', ''DROP'', ''RENAME''}" "ws \<noteq> []" "list_all word_text ws"
    and "one_action (join_with '' '' ws)" "action_changes (kw @ '' COLUMN '' @ join_with '' '' ws) = Some [ch]"
  shows "parse_alter_table (alter MySql table @ '' '' @ kw @ '' COLUMN '' @ join_with '' '' ws) = Some [ch]"
proof -
  let ?ws = "kw # ''COLUMN'' # ws"
  have j: "join_with '' '' ?ws = kw @ '' COLUMN '' @ join_with '' '' ws" using assms(3) by (cases ws) simp_all
  have kw: "word_text kw" "name_char (hd kw)" "one_action kw" "kw \<noteq> []" "\<not> is_space (hd kw)"
    using assms(2) by (auto simp: word_text_def is_space_def name_char_def is_alphanumeric_def one_action_plain)
  have "one_action '' COLUMN ''" by (rule one_action_plain) simp
  then have "one_action (join_with '' '' ?ws)" unfolding j using kw(3) assms(5) by (intro one_action_append)
  then have "split_actions (join_with '' '' ?ws) = [join_with '' '' ?ws]" using kw(4,5) unfolding j by (intro single_action) simp_all
  moreover have "word_text ''COLUMN''" by (simp add: word_text_def is_space_def)
  ultimately have "parse_alter_table (alter MySql table @ '' '' @ join_with '' '' ?ws) = Some [ch]"
    using parse_alter_words [OF assms(1), of ?ws] kw(1,2) assms(4,6) unfolding j by simp
  then show ?thesis unfolding j .
qed



section \<open>Where the events mislead\<close>

text \<open>A column added in the middle is appended by the consumer, so later rows do not line up with its columns.\<close>

lemma middle_add_misplaced:
  "\<exists>e s. diff_columns ''t'' [column_def_new ''a'' TInt64, column_def_new ''b'' TInt64]
       [column_def_new ''a'' TInt64, column_def_new ''x'' TBool, column_def_new ''b'' TInt64] = [e] \<and>
     apply_schema_changes (sce_changes e) (table_schema_new ''t'' [column_def_new ''a'' TInt64, column_def_new ''b'' TInt64]) = (Inr (), s) \<and>
     field_names s = [''a'', ''b'', ''x'']"
  by (simp add: diff_columns_def added_columns_def dropped_columns_def modified_columns_def by_name_def column_def_new_def same_definition_def
      event_new_def apply_schema_change_def column_index_def table_schema_new_def field_names_def)

text \<open>Two columns added by one statement get one position, and a positional consumer refuses the second.\<close>

lemma two_adds_collide:
  assumes "positional_name (length cols) \<notin> set (field_names s)"
  shows "\<exists>s1. apply_schema_changes (map (\<lambda>ch. translate_positional (place_change cols ch)) [AddColumn a None, AddColumn b None]) s =
    (Inl (ColumnExists (positional_name (length cols))), s1)"
  using assms
  by (auto simp: place_change_def translate_positional_def positional_column_def column_def_new_def apply_schema_change_def column_index_None field_names_def)

text \<open>A statement that cannot be applied to the baseline is announced all the same.\<close>

lemma failed_ddl_announced:
  assumes "sec_enabled (wt_config w)" "sec_include (wt_config w) = []" "sec_exclude (wt_config w) = []" "wt_columns w \<noteq> []"
    and "parse_alter_table ddl = Some chs" "chs \<noteq> []"
    and "apply_schema_changes (map (place_change (wt_columns w)) chs) (table_schema_new (wt_table_id w) (wt_columns w)) = (Inl e, s)"
  shows "wt_columns (observe_ddl ddl w) = wt_columns w \<and>
    map sce_changes (wt_pending (observe_ddl ddl w)) = map sce_changes (wt_pending w) @ [map (place_change (wt_columns w)) chs]"
  using assms by (simp add: observe_ddl_def accepts_column_def Let_def event_new_def)

text \<open>A parenthesised list of columns is cut at every comma, also inside a type.\<close>

lemma add_list_cuts_types:
  "add_action ''(a int, b decimal(10,2))'' = parsed_add ''a int'' @ parsed_add '' b decimal(10'' @ parsed_add ''2)''"
  by (simp add: add_action_def strip_prefix_def strip_suffix_def)

text \<open>With databases chosen and no tables, the default table name turns the choice into one that matches nothing.\<close>

lemma database_names_select_nothing:
  assumes "names \<noteq> []" "table \<noteq> []" "strip_suffix ''%'' table = None" "database \<noteq> []"
    and "build_table_selector rx parse_list [(''database-names'', names)] legacy_db table = Some sel"
  shows "\<not> selects rx sel database t"
proof -
  have o: "option2 [(''database-names'', names)] a b = (if a = ''database-names'' \<or> b = ''database-names'' then names else [])" for a b
    by (simp add: option2_def get_string_def hm_get_def)
  have "sel_tables sel = [([], table)]" "sel_table_patterns sel = []"
    using assms by (auto simp: build_table_selector_def o from_legacy_def strip_suffix_def selector_default_def Let_def split_list_def
      List.map_filter_def trim_def)
  then show ?thesis using assms(4) by (simp add: selects_def has_exact_def)
qed

end
