(* ===== verification/Config_Parser.thy ===== *)
theory Config_Parser
  imports Rows Ordered_Map "HOL-Library.List_Lexorder" "HOL-Library.Char_ord"
begin

text \<open>
  Job configurations (\<open>seatunnel-config\<close>): the lexer and parser of HOCON text, the sections of a configuration, and the
  typed job configuration read from them. A \<open>serde_json\<close> map is a \<open>BTreeMap\<close>, listed in key order. The YAML and TOML
  readers are parameters. Text is ASCII. The lexer does not advance over a character it does not know, so it may run
  forever: it is a partial function, and \<open>None\<close> is a run without end.
\<close>

section \<open>Tokens\<close>

datatype token = Ident string | LBrace | RBrace | Equals | StringLit string | NumberLit string | BoolLit bool | Eof

definition hocon_space :: "char \<Rightarrow> bool" where
  "hocon_space c \<longleftrightarrow> c = CHR '' '' \<or> c = CHR 0x09 \<or> c = CHR 0x0D \<or> c = CHR 0x0A"

definition ident_char :: "char \<Rightarrow> bool" where
  "ident_char c \<longleftrightarrow> is_alphanumeric c \<or> c = CHR ''-''"

definition number_char :: "char \<Rightarrow> bool" where
  "number_char c \<longleftrightarrow> is_digit c \<or> c = CHR ''-''"

definition peek_matches :: "string \<Rightarrow> string \<Rightarrow> string option" where
  "peek_matches chars expected = strip_prefix expected chars"

text \<open>An identifier that starts with \<open>c\<close>, unless the rest of a boolean follows.\<close>

definition word_token :: "char \<Rightarrow> string \<Rightarrow> bool \<Rightarrow> string \<Rightarrow> token \<times> string" where
  "word_token c expected b rest =
     (case peek_matches rest expected of
        Some r \<Rightarrow> (BoolLit b, r)
      | None \<Rightarrow> (Ident (c # takeWhile ident_char rest), dropWhile ident_char rest))"

partial_function (option) lex :: "string \<Rightarrow> token list option" where
  "lex input =
     (case input of
        [] \<Rightarrow> Some [Eof]
      | c # rest \<Rightarrow>
          if hocon_space c then lex rest
          else if c = CHR ''#'' then lex (dropWhile (\<lambda>x. x \<noteq> CHR 0x0A) input)
          else if c = CHR ''{'' then Option.bind (lex rest) (\<lambda>ts. Some (LBrace # ts))
          else if c = CHR ''}'' then Option.bind (lex rest) (\<lambda>ts. Some (RBrace # ts))
          else if c = CHR ''='' then Option.bind (lex rest) (\<lambda>ts. Some (Equals # ts))
          else if c = CHR 0x22 then
            Option.bind (lex (tl (dropWhile (\<lambda>x. x \<noteq> CHR 0x22) rest)))
              (\<lambda>ts. Some (StringLit (takeWhile (\<lambda>x. x \<noteq> CHR 0x22) rest) # ts))
          else if c = CHR ''.'' then Option.bind (lex rest) (\<lambda>ts. Some (Ident ''.'' # ts))
          else if number_char c then
            Option.bind (lex (dropWhile number_char input)) (\<lambda>ts. Some (NumberLit (takeWhile number_char input) # ts))
          else if c = CHR ''t'' \<or> c = CHR ''T'' then
            Option.bind (lex (snd (word_token c ''rue'' True rest))) (\<lambda>ts. Some (fst (word_token c ''rue'' True rest) # ts))
          else if c = CHR ''f'' \<or> c = CHR ''F'' then
            Option.bind (lex (snd (word_token c ''alse'' False rest))) (\<lambda>ts. Some (fst (word_token c ''alse'' False rest) # ts))
          else if takeWhile ident_char input = [] then lex input
          else Option.bind (lex (dropWhile ident_char input)) (\<lambda>ts. Some (Ident (takeWhile ident_char input) # ts)))"

section \<open>Blocks\<close>

type_synonym json_map = "(string, json) btree"

fun parse_dot_key :: "token list \<Rightarrow> string list \<times> token list" where
  "parse_dot_key (Ident s # ts) =
     (case parse_dot_key ts of (ps, r) \<Rightarrow> (if s = [] \<or> s = ''.'' then ps else s # ps, r))"
| "parse_dot_key ts = ([], ts)"

fun set_dot_path :: "json_map \<Rightarrow> string list \<Rightarrow> json \<Rightarrow> json_map" where
  "set_dot_path m [] v = m"
| "set_dot_path m [k] v = bt_insert k v m"
| "set_dot_path m (k # ks) v =
     (case hm_get m k of
        None \<Rightarrow> bt_insert k (JObject (set_dot_path [] ks v)) m
      | Some (JObject sub) \<Rightarrow> bt_insert k (JObject (set_dot_path sub ks v)) m
      | Some _ \<Rightarrow> m)"

fun get_dot_path :: "json \<Rightarrow> string list \<Rightarrow> json option" where
  "get_dot_path v [] = Some v"
| "get_dot_path v (k # ks) = Option.bind (j_get k v) (\<lambda>w. get_dot_path w ks)"

definition token_value :: "token \<Rightarrow> json" where
  "token_value t =
     (case t of
        StringLit s \<Rightarrow> JString s
      | NumberLit n \<Rightarrow> (case parse_int 64 n of Some i \<Rightarrow> JInt i | None \<Rightarrow> JString n)
      | BoolLit b \<Rightarrow> JBool b
      | _ \<Rightarrow> JNull)"

lemma parse_dot_key_length: "length (snd (parse_dot_key ts)) \<le> length ts"
  by (induction ts rule: parse_dot_key.induct) (auto split: prod.splits)

lemma parse_dot_key_shorter: "fst (parse_dot_key (t # ts)) \<noteq> [] \<Longrightarrow> length (snd (parse_dot_key (t # ts))) \<le> length ts"
  using parse_dot_key_length [of ts] by (cases t) (auto split: prod.splits)

text \<open>
  The parser works on the tokens from its position on. A closing brace ends a block; an assignment takes the next
  token, whatever it is.
\<close>

definition is_ident :: "token \<Rightarrow> bool" where
  "is_ident t \<longleftrightarrow> (\<exists>s. t = Ident s)"

definition skip_brace :: "token list \<Rightarrow> token list" where
  "skip_brace ts = (case ts of RBrace # r \<Rightarrow> r | _ \<Rightarrow> ts)"

definition next_value :: "token list \<Rightarrow> json" where
  "next_value ts = (case ts of [] \<Rightarrow> JNull | v # _ \<Rightarrow> token_value v)"

lemma is_ident_code [code]: "is_ident t = (case t of Ident _ \<Rightarrow> True | _ \<Rightarrow> False)"
  by (auto simp: is_ident_def split: token.split)

lemma skip_brace_length: "length (skip_brace ts) \<le> length ts"
  by (auto simp: skip_brace_def split: list.split token.split)

function parse_block :: "token list \<Rightarrow> json_map \<Rightarrow> token list \<times> json_map" where
  "parse_block [] m = ([], m)"
| "parse_block (t # ts) m =
     (if t = RBrace \<or> t = Eof then (t # ts, m)
      else if \<not> is_ident t then parse_block ts m
      else
        let key_parts = fst (parse_dot_key (t # ts)); after = snd (parse_dot_key (t # ts)) in
        if key_parts = [] then parse_block ts m
        else if after = [] then (t # ts, m)
        else if hd after = LBrace then
          (case parse_block (tl after) [] of
             (rest, sub) \<Rightarrow> parse_block (skip_brace rest) (set_dot_path m key_parts (JObject sub)))
        else if hd after = Equals then parse_block (tl (tl after)) (set_dot_path m key_parts (next_value (tl after)))
        else parse_block after m)"
  by pat_completeness auto

lemma parse_block_length: "parse_block_dom (ts, m) \<Longrightarrow> length (fst (parse_block ts m)) \<le> length ts"
proof (induction ts m rule: parse_block.pinduct)
  case (2 t ts m)
  let ?k = "fst (parse_dot_key (t # ts))" and ?a = "snd (parse_dot_key (t # ts))"
  note ps = parse_block.psimps(2) [OF 2(1)]
  show ?case
  proof (cases "t = RBrace \<or> t = Eof \<or> \<not> is_ident t \<or> ?k = [] \<or> ?a = []")
    case True
    then show ?thesis using 2(2,3) ps by (auto simp: Let_def)
  next
    case False
    then have a: "length ?a \<le> length ts" "length (tl ?a) < length ts" using parse_dot_key_shorter [of t ts] by (cases ?a; simp)+
    have f: "t \<noteq> RBrace" "t \<noteq> Eof" "is_ident t" "?k \<noteq> []" "?a \<noteq> []" using False by auto
    show ?thesis
    proof (cases "hd ?a = LBrace")
      case True
      obtain rest sub where r: "parse_block (tl ?a) [] = (rest, sub)" by fastforce
      have "length rest \<le> length (tl ?a)" using 2(4) f True r by fastforce
      moreover have "length (fst (parse_block (skip_brace rest) (set_dot_path m ?k (JObject sub)))) \<le> length (skip_brace rest)"
        using 2(5) f True r by fastforce
      ultimately show ?thesis using ps f True r a skip_brace_length [of rest] by (simp add: Let_def)
    next
      case nb: False
      show ?thesis
      proof (cases "hd ?a = Equals")
        case True
        have "length (fst (parse_block (tl (tl ?a)) (set_dot_path m ?k (next_value (tl ?a))))) \<le> length (tl (tl ?a))"
          using 2(6) f nb True by fastforce
        then show ?thesis using ps f nb True a by (simp add: Let_def)
      next
        case False
        have "length (fst (parse_block ?a m)) \<le> length ?a" using 2(7) f nb False by fastforce
        then show ?thesis using ps f nb False a by (simp add: Let_def)
      qed
    qed
  qed
qed (simp add: parse_block.psimps)

termination parse_block
proof (relation "measure (\<lambda>(ts, m). length ts)", goal_cases)
  case (4 t ts m k a)
  then show ?case using parse_dot_key_shorter [of t ts] by (cases a) auto
next
  case (5 t ts m k a rest sub)
  have "parse_block_dom (tl a, [])" "parse_block (tl a) [] = (rest, sub)" using 5 by simp_all
  then have "length rest \<le> length (tl a)" using parse_block_length by fastforce
  moreover have "length a \<le> length ts" using 5 parse_dot_key_shorter [of t ts] by simp
  ultimately show ?case using skip_brace_length [of rest] by simp
next
  case (6 t ts m k a)
  then have "length a \<le> length ts" using parse_dot_key_shorter [of t ts] by simp
  then show ?case by simp
next
  case (7 t ts m k a)
  then show ?case using parse_dot_key_shorter [of t ts] by auto
qed auto

declare parse_block.simps(2) [simp del]

text \<open>\<open>None\<close>: the lexer does not return. The parser itself never fails.\<close>

definition parse_hocon :: "string \<Rightarrow> json option" where
  "parse_hocon content = map_option (\<lambda>tokens. JObject (snd (parse_block tokens []))) (lex content)"

section \<open>Sections\<close>

datatype config_format = YAML | TOML | HOCON

definition detect_format :: "string option \<Rightarrow> config_format" where
  "detect_format extension =
     (if extension = Some ''toml'' then TOML
      else if extension = Some ''conf'' \<or> extension = Some ''hocon'' then HOCON
      else YAML)"

record parsed_config =
  pc_env :: "json option"
  pc_sources :: "json list"
  pc_sinks :: "json list"
  pc_transforms :: "json list"

definition section_items :: "json option \<Rightarrow> json list" where
  "section_items v =
     (case v of
        Some (JArray arr) \<Rightarrow> arr
      | Some (JObject obj) \<Rightarrow> map (\<lambda>(k, w). JObject [(k, w)]) obj
      | Some w \<Rightarrow> [w]
      | None \<Rightarrow> [])"

definition extract_sections :: "json \<Rightarrow> string + parsed_config" where
  "extract_sections v =
     (case v of
        JObject obj \<Rightarrow>
          Inr \<lparr>pc_env = hm_get obj ''env'', pc_sources = section_items (hm_get obj ''source''),
               pc_sinks = section_items (hm_get obj ''sink''), pc_transforms = section_items (hm_get obj ''transform'')\<rparr>
      | _ \<Rightarrow> Inl ''Config must be an object'')"

text \<open>The third-party readers, with their errors.\<close>

record config_readers =
  cr_yaml :: "string \<Rightarrow> string + json"
  cr_toml :: "string \<Rightarrow> string + json"

definition parse_config_file :: "config_readers \<Rightarrow> string \<Rightarrow> config_format \<Rightarrow> (string + parsed_config) option" where
  "parse_config_file rd content fmt =
     (let sections = (\<lambda>r. case r of Inl e \<Rightarrow> Inl e | Inr v \<Rightarrow> extract_sections v) in
      case fmt of
        YAML \<Rightarrow> Some (sections (cr_yaml rd content))
      | TOML \<Rightarrow> Some (sections (cr_toml rd content))
      | HOCON \<Rightarrow> map_option extract_sections (parse_hocon content))"

section \<open>The job configuration\<close>

record schema_config =
  sc_fields :: "(string \<times> string) list"

definition schema_config_from :: "json \<Rightarrow> schema_config" where
  "schema_config_from v =
     \<lparr>sc_fields =
        (case Option.bind (j_get ''fields'' v) as_object of
           Some fs \<Rightarrow> map (\<lambda>(name, t). (name, unwrap_or ''string'' (as_str t))) fs
         | None \<Rightarrow> [])\<rparr>"

definition string_to_column_type :: "string \<Rightarrow> column_type" where
  "string_to_column_type s =
     (let t = map to_lower s in
      if t = ''bool'' \<or> t = ''boolean'' then TBool
      else if t = ''tinyint'' then TInt8
      else if t = ''smallint'' then TInt16
      else if t = ''int'' \<or> t = ''integer'' then TInt32
      else if t = ''bigint'' then TInt64
      else if t = ''float'' then TFloat32
      else if t = ''double'' then TFloat64
      else if t = ''string'' \<or> t = ''varchar'' \<or> t = ''text'' then TString
      else if t = ''bytes'' \<or> t = ''binary'' then TBytes
      else if t = ''json'' then TJson
      else if t = ''date'' then TDate
      else if t = ''time'' then TTime
      else if t = ''datetime'' then TDateTime
      else if t = ''timestamp'' then TTimestampTz
      else TString)"

definition to_table_schema :: "schema_config \<Rightarrow> string \<Rightarrow> table_schema" where
  "to_table_schema sc table_name =
     table_schema_new table_name (map (\<lambda>(name, t). column_def_new name (string_to_column_type t)) (sc_fields sc))"

record source_config =
  src_factory_identifier :: string
  src_options :: "(string, json) hashmap"
  src_parallelism :: nat
  src_plugin_output :: "string option"
  src_schema :: "schema_config option"

definition options_without :: "string list \<Rightarrow> (string \<times> json) list \<Rightarrow> (string, json) hashmap" where
  "options_without keys obj = fold (\<lambda>(k, v). hm_insert k v) (filter (\<lambda>(k, v). k \<notin> set keys) obj) hm_empty"

definition factory_of :: "(string \<times> json) list \<Rightarrow> string" where
  "factory_of obj = unwrap_or [] (Option.bind (hm_get obj ''plugin_name'') as_str)"

definition parallelism_of :: "(string \<times> json) list \<Rightarrow> nat" where
  "parallelism_of obj = unwrap_or 1 (Option.bind (hm_get obj ''parallelism'') as_u64)"

definition source_config_from :: "json \<Rightarrow> string + source_config" where
  "source_config_from v =
     (case as_object v of
        None \<Rightarrow> Inl ''Source must be an object''
      | Some obj \<Rightarrow>
          Inr \<lparr>src_factory_identifier = factory_of obj,
               src_options = options_without [''parallelism'', ''plugin_output'', ''schema'', ''plugin_name''] obj,
               src_parallelism = parallelism_of obj,
               src_plugin_output = Option.bind (hm_get obj ''plugin_output'') as_str,
               src_schema = map_option schema_config_from (hm_get obj ''schema'')\<rparr>)"

record sink_config =
  snk_factory_identifier :: string
  snk_options :: "(string, json) hashmap"
  snk_parallelism :: nat
  snk_plugin_input :: "string option"

definition sink_config_from :: "json \<Rightarrow> string + sink_config" where
  "sink_config_from v =
     (case as_object v of
        None \<Rightarrow> Inl ''Sink must be an object''
      | Some obj \<Rightarrow>
          Inr \<lparr>snk_factory_identifier = factory_of obj,
               snk_options = options_without [''parallelism'', ''plugin_input'', ''plugin_name''] obj,
               snk_parallelism = parallelism_of obj,
               snk_plugin_input = Option.bind (hm_get obj ''plugin_input'') as_str\<rparr>)"

record transform_config =
  tfc_factory_identifier :: string
  tfc_options :: "(string, json) hashmap"

definition transform_config_from :: "json \<Rightarrow> string + transform_config" where
  "transform_config_from v =
     (case as_object v of
        None \<Rightarrow> Inl ''Transform must be an object''
      | Some obj \<Rightarrow>
          Inr \<lparr>tfc_factory_identifier = factory_of obj, tfc_options = options_without [''plugin_name''] obj\<rparr>)"

fun collect_results :: "('a \<Rightarrow> string + 'b) \<Rightarrow> 'a list \<Rightarrow> string + 'b list" where
  "collect_results f [] = Inr []"
| "collect_results f (x # xs) =
     (case f x of
        Inl e \<Rightarrow> Inl e
      | Inr y \<Rightarrow> (case collect_results f xs of Inl e \<Rightarrow> Inl e | Inr ys \<Rightarrow> Inr (y # ys)))"

definition value_to_map :: "json option \<Rightarrow> string + (string, json) hashmap" where
  "value_to_map v =
     (case v of
        Some (JObject obj) \<Rightarrow> Inr (fold (\<lambda>(k, w). hm_insert k w) obj hm_empty)
      | Some _ \<Rightarrow> Inl ''env must be an object''
      | None \<Rightarrow> Inr hm_empty)"

datatype job_mode = Batch | Streaming

record job_config =
  jc_env :: "(string, json) hashmap"
  jc_sources :: "source_config list"
  jc_sinks :: "sink_config list"
  jc_transforms :: "transform_config list"

definition job_config_from :: "parsed_config \<Rightarrow> string + job_config" where
  "job_config_from p =
     (case value_to_map (pc_env p) of Inl e \<Rightarrow> Inl e | Inr env \<Rightarrow>
      case collect_results source_config_from (pc_sources p) of Inl e \<Rightarrow> Inl e | Inr sources \<Rightarrow>
      case collect_results sink_config_from (pc_sinks p) of Inl e \<Rightarrow> Inl e | Inr sinks \<Rightarrow>
      case collect_results transform_config_from (pc_transforms p) of Inl e \<Rightarrow> Inl e | Inr transforms \<Rightarrow>
        Inr \<lparr>jc_env = env, jc_sources = sources, jc_sinks = sinks, jc_transforms = transforms\<rparr>)"

definition job_parallelism :: "job_config \<Rightarrow> nat" where
  "job_parallelism jc = unwrap_or 1 (Option.bind (hm_get (jc_env jc) ''parallelism'') as_u64)"

definition job_mode_of :: "job_config \<Rightarrow> job_mode" where
  "job_mode_of jc =
     (case Option.bind (hm_get (jc_env jc) ''job_mode'') as_str of
        Some s \<Rightarrow> if s = ''STREAMING'' \<or> s = ''streaming'' then Streaming else Batch
      | None \<Rightarrow> Batch)"

definition checkpoint_interval :: "job_config \<Rightarrow> nat" where
  "checkpoint_interval jc = unwrap_or 60000 (Option.bind (hm_get (jc_env jc) ''checkpoint_interval'') as_u64)"

definition load_config_from_str :: "config_readers \<Rightarrow> string \<Rightarrow> config_format \<Rightarrow> (string + job_config) option" where
  "load_config_from_str rd content fmt =
     map_option (\<lambda>r. case r of Inl e \<Rightarrow> Inl e | Inr p \<Rightarrow> job_config_from p) (parse_config_file rd content fmt)"

end
