(* ===== verification/Config_Runs.thy ===== *)
theory Config_Runs
  imports Config_Parser
begin

text \<open>
  What the HOCON reader does: the texts on which its lexer returns, that a written configuration is read back, and that
  no HOCON text names a connector for the typed job configuration.
\<close>

section \<open>When the lexer returns\<close>

definition known_char :: "char \<Rightarrow> bool" where
  "known_char c \<longleftrightarrow> hocon_space c \<or> c \<in> {CHR ''#'', CHR ''{'', CHR ''}'', CHR ''='', CHR 0x22, CHR ''.''} \<or> ident_char c"

text \<open>The characters outside string literals and comments, with the marks that open them.\<close>

datatype place = Plain | Quoted | Comment

fun outside :: "place \<Rightarrow> string \<Rightarrow> string" where
  "outside p [] = []"
| "outside Plain (c # cs) = c # outside (if c = CHR 0x22 then Quoted else if c = CHR ''#'' then Comment else Plain) cs"
| "outside Quoted (c # cs) = outside (if c = CHR 0x22 then Plain else Quoted) cs"
| "outside Comment (c # cs) = (if c = CHR 0x0A then c # outside Plain cs else outside Comment cs)"

definition known_text :: "string \<Rightarrow> bool" where
  "known_text cs \<longleftrightarrow> list_all known_char (outside Plain cs)"

lemma outside_comment: "outside Comment cs = outside Plain (dropWhile (\<lambda>x. x \<noteq> CHR 0x0A) cs)"
  by (induction cs) auto

lemma outside_quoted: "outside Quoted cs = outside Plain (tl (dropWhile (\<lambda>x. x \<noteq> CHR 0x22) cs))"
  by (induction cs) auto

lemma ident_char_facts: "ident_char c \<Longrightarrow> known_char c \<and> c \<noteq> CHR 0x22 \<and> c \<noteq> CHR ''#''"
  by (auto simp: known_char_def ident_char_def is_alphanumeric_def)

lemma number_ident: "number_char c \<Longrightarrow> ident_char c"
  by (auto simp: number_char_def ident_char_def is_alphanumeric_def is_digit_def Let_def)

lemma known_word: "list_all ident_char w \<Longrightarrow> known_text (w @ rest) = known_text rest"
proof (induction w)
  case (Cons c w)
  then show ?case using ident_char_facts [of c] by (simp add: known_text_def)
qed simp

lemma known_run: "(\<And>c. P c \<Longrightarrow> ident_char c) \<Longrightarrow> known_text cs = known_text (dropWhile P cs)"
proof -
  assume p: "\<And>c. P c \<Longrightarrow> ident_char c"
  have "list_all ident_char (takeWhile P cs)" using p by (auto simp: list_all_iff dest: set_takeWhileD)
  from known_word [OF this, of "dropWhile P cs"] show ?thesis by simp
qed

lemma lex_unknown:
  assumes "\<not> known_char c"
  shows "lex (c # rest) = None"
proof -
  have "cs = [] \<or> known_char (hd cs)" if "lex cs = Some ts" for cs ts
  proof (rule lex.raw_induct [where P = "\<lambda>cs ts. cs = [] \<or> known_char (hd cs)", OF _ that], goal_cases)
    case (1 lex' cs ts)
    show ?case
    proof (rule ccontr)
      assume n: "\<not> (cs = [] \<or> known_char (hd cs))"
      then obtain c r where cs: "cs = c # r" "\<not> known_char c" by (cases cs) auto
      then have k: "\<not> hocon_space c" "c \<noteq> CHR ''#''" "c \<noteq> CHR ''{''" "c \<noteq> CHR ''}''" "c \<noteq> CHR ''=''" "c \<noteq> CHR 0x22" "c \<noteq> CHR ''.''" "\<not> ident_char c"
        by (auto simp: known_char_def)
      have "\<not> number_char c" using k(8) number_ident by blast
      moreover have "c \<noteq> CHR ''t''" "c \<noteq> CHR ''T''" "c \<noteq> CHR ''f''" "c \<noteq> CHR ''F''"
        using k(8) by (auto simp: ident_char_def is_alphanumeric_def)
      ultimately have "lex' cs = Some ts" using 1(2) cs k by simp
      then show False using 1(1) n by blast
    qed
  qed
  then show ?thesis using assms by (metis list.sel(1) list.simps(3) not_None_eq)
qed

lemma word_rest_known:
  assumes "list_all ident_char expected"
  shows "known_text (snd (word_token c expected b rest)) = known_text rest" "length (snd (word_token c expected b rest)) \<le> length rest"
  using known_word [OF assms] known_run [of ident_char rest]
  by (auto simp: word_token_def peek_matches_def strip_prefix_Some length_dropWhile_le split: option.split)

text \<open>The words of a text are made of letters, digits and hyphens.\<close>

definition plain_token :: "token \<Rightarrow> bool" where
  "plain_token t \<longleftrightarrow> (case t of Ident s \<Rightarrow> s = ''.'' \<or> list_all ident_char s | _ \<Rightarrow> True)"

lemma takeWhile_all: "list_all P (takeWhile P xs)"
  by (induction xs) simp_all

lemma word_plain: "ident_char c \<Longrightarrow> plain_token (fst (word_token c e b rest))"
  by (auto simp: word_token_def plain_token_def takeWhile_all split: option.split)

text \<open>A known character is read, with tokens for it, and lexing goes on with less text.\<close>

definition lex_reads :: "char \<Rightarrow> string \<Rightarrow> bool" where
  "lex_reads c rest \<longleftrightarrow>
     (\<exists>ts n. lex (c # rest) = map_option ((@) ts) (lex n) \<and> list_all plain_token ts \<and> length n \<le> length rest
        \<and> known_text (c # rest) = known_text n)"

lemma lex_readsI:
  assumes "lex (c # rest) = map_option ((@) ts) (lex n)" "list_all plain_token ts" "length n \<le> length rest"
    "known_text (c # rest) = known_text n"
  shows "lex_reads c rest"
  using assms by (auto simp: lex_reads_def)

lemma map_option_append_Nil: "map_option ((@) []) x = x"
  by (cases x) simp_all

lemma bind_token: "Option.bind x (\<lambda>ts. Some (t # ts)) = map_option ((@) [t]) x"
  by (cases x) simp_all

lemma known_Cons: "known_char c \<Longrightarrow> c \<noteq> CHR 0x22 \<Longrightarrow> c \<noteq> CHR ''#'' \<Longrightarrow> known_text (c # rest) = known_text rest"
  by (simp add: known_text_def)

lemma dropWhile_shorter: "P c \<Longrightarrow> length (dropWhile P (c # rest)) \<le> length rest"
  by (simp add: length_dropWhile_le)

lemma ident_not_mark:
  assumes "ident_char c"
  shows "\<not> hocon_space c" "c \<notin> {CHR ''#'', CHR ''{'', CHR ''}'', CHR ''='', CHR 0x22, CHR ''.''}"
  using assms by (auto simp: hocon_space_def ident_char_def is_alphanumeric_def)

lemma lex_word:
  assumes "ident_char c"
  shows "lex_reads c rest"
proof -
  note n = ident_not_mark [OF assms]
  have t: "lex_reads c rest" if "lex (c # rest) = map_option ((@) [fst w]) (lex (snd w))" "w = word_token c e b rest" "list_all ident_char e" for w e b
    using that word_rest_known [OF that(3), of c b rest] word_plain [OF assms, of e b rest] known_Cons [of c rest] ident_char_facts [OF assms]
    by (intro lex_readsI [OF that(1)]) simp_all
  consider "number_char c" | "\<not> number_char c" "c = CHR ''t'' \<or> c = CHR ''T''" | "\<not> number_char c" "c = CHR ''f'' \<or> c = CHR ''F''"
    | "\<not> number_char c" "c \<notin> {CHR ''t'', CHR ''T'', CHR ''f'', CHR ''F''}" by blast
  then show ?thesis
  proof cases
    case 1
    then have "lex (c # rest) = map_option ((@) [NumberLit (takeWhile number_char (c # rest))]) (lex (dropWhile number_char (c # rest)))"
      using n by (subst lex.simps) (simp add: bind_token)
    from lex_readsI [OF this] show ?thesis using dropWhile_shorter [of number_char, OF 1] known_run [of number_char "c # rest", OF number_ident]
      by (simp add: plain_token_def)
  next
    case 2
    then have "lex (c # rest) = map_option ((@) [fst (word_token c ''rue'' True rest)]) (lex (snd (word_token c ''rue'' True rest)))"
      using n by (subst lex.simps) (auto simp: bind_token)
    from t [OF this refl] show ?thesis by (simp add: ident_char_def is_alphanumeric_def)
  next
    case 3
    then have "lex (c # rest) = map_option ((@) [fst (word_token c ''alse'' False rest)]) (lex (snd (word_token c ''alse'' False rest)))"
      using n by (subst lex.simps) (auto simp: bind_token)
    from t [OF this refl] show ?thesis by (simp add: ident_char_def is_alphanumeric_def)
  next
    case 4
    then have "lex (c # rest) = map_option ((@) [Ident (takeWhile ident_char (c # rest))]) (lex (dropWhile ident_char (c # rest)))"
      using assms n by (subst lex.simps) (simp add: bind_token)
    from lex_readsI [OF this] show ?thesis using dropWhile_shorter [of ident_char, OF assms] known_run [of ident_char "c # rest"]
      by (simp add: plain_token_def assms takeWhile_all)
  qed
qed

lemma lex_known:
  assumes "known_char c"
  shows "lex_reads c rest"
proof -
  consider "hocon_space c" | "c = CHR ''#''" | "c \<in> {CHR ''{'', CHR ''}'', CHR ''='', CHR ''.''}" | "c = CHR 0x22" | "ident_char c"
    using assms by (auto simp: known_char_def)
  then show ?thesis
  proof cases
    case 1
    then have "c \<noteq> CHR 0x22" "c \<noteq> CHR ''#''" by (auto simp: hocon_space_def)
    then show ?thesis using 1 known_Cons [OF assms] by (intro lex_readsI [where ts = "[]" and n = rest]) (simp_all add: lex.simps [of "c # rest"] map_option_append_Nil)
  next
    case 2
    let ?n = "dropWhile (\<lambda>x. x \<noteq> CHR 0x0A) (c # rest)"
    have "\<not> hocon_space (CHR ''#'')" by (simp add: hocon_space_def)
    then have "lex (c # rest) = map_option ((@) []) (lex ?n)" unfolding map_option_append_Nil using 2 by (subst lex.simps) simp
    moreover have "length ?n \<le> length rest" using 2 by (intro dropWhile_shorter) simp
    moreover have "known_text (c # rest) = known_text ?n" using 2 assms by (simp add: known_text_def outside_comment)
    ultimately show ?thesis by (intro lex_readsI [where ts = "[]" and n = ?n]) simp_all
  next
    case 3
    then have n: "\<not> hocon_space c" "c \<noteq> CHR 0x22" "c \<noteq> CHR ''#''" by (auto simp: hocon_space_def)
    let ?t = "if c = CHR ''{'' then LBrace else if c = CHR ''}'' then RBrace else if c = CHR ''='' then Equals else Ident ''.''"
    have "lex (c # rest) = map_option ((@) [?t]) (lex rest)" using 3 n by (subst lex.simps) (auto simp: bind_token)
    from lex_readsI [OF this] show ?thesis using known_Cons [OF assms n(2,3)] by (simp add: plain_token_def)
  next
    case 4
    let ?n = "tl (dropWhile (\<lambda>x. x \<noteq> CHR 0x22) rest)"
    have "\<not> hocon_space (CHR 0x22)" by (simp add: hocon_space_def)
    then have "lex (c # rest) = map_option ((@) [StringLit (takeWhile (\<lambda>x. x \<noteq> CHR 0x22) rest)]) (lex ?n)"
      using 4 by (subst lex.simps) (simp add: bind_token)
    moreover have "length ?n \<le> length rest" using length_dropWhile_le [of "\<lambda>x. x \<noteq> CHR 0x22" rest] by simp
    moreover have "known_text (c # rest) = known_text ?n" using 4 assms by (simp add: known_text_def outside_quoted)
    ultimately show ?thesis by (intro lex_readsI [where ts = "[StringLit _]" and n = ?n]) (simp_all add: plain_token_def)
  qed (rule lex_word)
qed

text \<open>The lexer returns exactly when every character outside strings and comments is known, and then its words are plain.\<close>

lemma lex_outcome:
  "case lex cs of Some ts \<Rightarrow> known_text cs \<and> list_all plain_token ts | None \<Rightarrow> \<not> known_text cs"
proof (induction "length cs" arbitrary: cs rule: less_induct)
  case less
  show ?case
  proof (cases cs)
    case Nil
    then show ?thesis by (simp add: lex.simps known_text_def plain_token_def)
  next
    case (Cons c rest)
    show ?thesis
    proof (cases "known_char c")
      case True
      then obtain ts n where l: "lex cs = map_option ((@) ts) (lex n)" "list_all plain_token ts" "length n \<le> length rest" "known_text cs = known_text n"
        using lex_known [of c rest] Cons by (auto simp: lex_reads_def)
      then show ?thesis using less [of n] Cons by (cases "lex n") simp_all
    next
      case False
      then show ?thesis using lex_unknown [OF False, of rest] Cons by (simp add: known_text_def)
    qed
  qed
qed

text \<open>
  C36. The HOCON lexer returns on a text exactly when every character outside its strings and comments is white space, a
  letter, a digit, or one of the marks it knows. On any other text, for instance one with an underscore in a key, it
  never returns.
\<close>

theorem lex_returns_iff: "(\<exists>ts. lex cs = Some ts) \<longleftrightarrow> known_text cs"
  using lex_outcome [of cs] by (cases "lex cs") simp_all

lemma lex_plain: "lex cs = Some ts \<Longrightarrow> list_all plain_token ts"
  using lex_outcome [of cs] by simp

section \<open>The keys of a configuration\<close>

fun plain_keys :: "json \<Rightarrow> bool" where
  "plain_keys (JObject []) \<longleftrightarrow> True"
| "plain_keys (JObject ((k, v) # m)) \<longleftrightarrow> list_all ident_char k \<and> plain_keys v \<and> plain_keys (JObject m)"
| "plain_keys (JArray _) \<longleftrightarrow> False"
| "plain_keys _ \<longleftrightarrow> True"

lemma plain_keys_iff: "plain_keys (JObject m) \<longleftrightarrow> (\<forall>(k, v)\<in>set m. list_all ident_char k \<and> plain_keys v)"
  by (induction m) auto

lemma plain_keys_insert: "plain_keys (JObject m) \<Longrightarrow> list_all ident_char k \<Longrightarrow> plain_keys v \<Longrightarrow> plain_keys (JObject (bt_insert k v m))"
  by (auto simp: plain_keys_iff bt_insert_def)

lemma plain_keys_get: "plain_keys (JObject m) \<Longrightarrow> hm_get m k = Some v \<Longrightarrow> list_all ident_char k \<and> plain_keys v"
  unfolding plain_keys_iff hm_get_def by (auto dest: map_of_SomeD)

lemma plain_token_value: "plain_keys (token_value t)"
  by (auto simp: token_value_def split: token.split option.split)

lemma parse_dot_key_plain:
  "list_all plain_token ts \<Longrightarrow> list_all (list_all ident_char) (fst (parse_dot_key ts)) \<and> list_all plain_token (snd (parse_dot_key ts))"
  by (induction ts rule: parse_dot_key.induct) (auto simp: plain_token_def split: prod.splits)

lemma set_dot_path_plain:
  "plain_keys (JObject m) \<Longrightarrow> list_all (list_all ident_char) ks \<Longrightarrow> plain_keys v \<Longrightarrow> plain_keys (JObject (set_dot_path m ks v))"
proof (induction m ks v rule: set_dot_path.induct)
  case (3 m k k' ks v)
  then show ?case by (auto intro!: plain_keys_insert dest: plain_keys_get split: option.split json.split)
qed (simp_all add: plain_keys_insert)

lemma parse_block_plain:
  "list_all plain_token ts \<Longrightarrow> plain_keys (JObject m) \<Longrightarrow>
   list_all plain_token (fst (parse_block ts m)) \<and> plain_keys (JObject (snd (parse_block ts m)))"
proof (induction ts m rule: parse_block.induct)
  case (2 t ts m)
  let ?k = "fst (parse_dot_key (t # ts))" and ?a = "snd (parse_dot_key (t # ts))"
  have p: "list_all (list_all ident_char) ?k" "list_all plain_token ?a" using parse_dot_key_plain [OF 2(7)] by simp_all
  have tl: "list_all plain_token (tl xs)" if "list_all plain_token xs" for xs using that by (cases xs) simp_all
  show ?case
  proof (cases "t = RBrace \<or> t = Eof \<or> \<not> is_ident t \<or> ?k = [] \<or> ?a = []")
    case True
    then show ?thesis using 2(1,2,7,8) by (auto simp: parse_block.simps(2) Let_def)
  next
    case False
    then have f: "t \<noteq> RBrace" "t \<noteq> Eof" "is_ident t" "?k \<noteq> []" "?a \<noteq> []" by auto
    show ?thesis
    proof (cases "hd ?a = LBrace")
      case True
      obtain rest sub where r: "parse_block (tl ?a) [] = (rest, sub)" by fastforce
      have s: "list_all plain_token rest" "plain_keys (JObject sub)" using 2(3) f True r tl [OF p(2)] by fastforce+
      have "list_all plain_token (skip_brace rest)" using s(1) by (auto simp: skip_brace_def split: list.split token.split)
      then show ?thesis using 2(4) [of ?k ?a rest sub] f True r set_dot_path_plain [OF 2(8) p(1) s(2)] by (simp add: parse_block.simps(2) Let_def)
    next
      case nb: False
      show ?thesis
      proof (cases "hd ?a = Equals")
        case True
        have "plain_keys (next_value (tl ?a))" by (auto simp: next_value_def plain_token_value split: list.split)
        from 2(5) [of ?k ?a] set_dot_path_plain [OF 2(8) p(1) this] tl [OF tl [OF p(2)]] show ?thesis
          using f nb True by (simp add: parse_block.simps(2) Let_def)
      next
        case False
        then show ?thesis using 2 f nb p by (simp add: parse_block.simps(2) Let_def)
      qed
    qed
  qed
qed simp

lemma parse_hocon_plain:
  assumes "parse_hocon content = Some v"
  obtains m where "v = JObject m" "plain_keys (JObject m)"
  using assms lex_plain [of content] parse_block_plain [of _ "[]"] by (auto simp: parse_hocon_def)

section \<open>No HOCON configuration names a connector\<close>

lemma section_plain:
  assumes "plain_keys (JObject m)" "w \<in> set (section_items (hm_get m k))"
  shows "plain_keys w"
proof (cases "hm_get m k")
  case (Some v)
  then have "plain_keys v" using plain_keys_get [OF assms(1)] by blast
  then show ?thesis using assms(2) Some by (cases v) (auto simp: section_items_def plain_keys_iff)
qed (use assms(2) in \<open>simp add: section_items_def\<close>)

lemma factory_plain:
  assumes "plain_keys (JObject obj)"
  shows "factory_of obj = []"
proof -
  have "hm_get obj ''plugin_name'' = None"
    using plain_keys_get [OF assms, of "''plugin_name''"] by (cases "hm_get obj ''plugin_name''") (simp_all add: ident_char_def is_alphanumeric_def)
  then show ?thesis by (simp add: factory_of_def)
qed

lemma collect_results_set: "collect_results f xs = Inr ys \<Longrightarrow> y \<in> set ys \<Longrightarrow> \<exists>x\<in>set xs. f x = Inr y"
  by (induction xs arbitrary: ys) (auto split: sum.splits)

lemma hm_get_fold_absent: "k \<notin> fst ` set obj \<Longrightarrow> hm_get (fold (\<lambda>(k, w). hm_insert k w) obj m) k = hm_get m k"
  by (induction obj arbitrary: m) (auto simp: hm_simps)

lemma env_plain:
  assumes "plain_keys (JObject m)" "value_to_map (hm_get m s) = Inr env" "\<not> list_all ident_char k"
  shows "hm_get env k = None"
proof (cases "hm_get m s")
  case None
  then show ?thesis using assms(2) by (auto simp: value_to_map_def)
next
  case (Some v)
  then obtain obj where v: "v = JObject obj" "env = fold (\<lambda>(k, w). hm_insert k w) obj hm_empty"
    using assms(2) by (cases v) (auto simp: value_to_map_def)
  then have "k \<notin> fst ` set obj" using plain_keys_get [OF assms(1) Some] assms(3) by (auto simp: plain_keys_iff)
  then show ?thesis by (simp add: v hm_get_fold_absent)
qed

text \<open>
  No HOCON configuration names a connector: the keys \<open>plugin_name\<close>, \<open>job_mode\<close> and \<open>checkpoint_interval\<close> have an
  underscore, which no key of a HOCON text has.
\<close>

lemma hocon_names_no_connector:
  assumes "load_config_from_str rd content HOCON = Some (Inr jc)"
  shows "\<forall>s\<in>set (jc_sources jc). src_factory_identifier s = []" "\<forall>s\<in>set (jc_sinks jc). snk_factory_identifier s = []"
    "\<forall>t\<in>set (jc_transforms jc). tfc_factory_identifier t = []" "job_mode_of jc = Batch" "checkpoint_interval jc = 60000"
proof -
  obtain v where v: "parse_hocon content = Some v" "(case extract_sections v of Inl e \<Rightarrow> Inl e | Inr p \<Rightarrow> job_config_from p) = Inr jc"
    using assms by (auto simp: load_config_from_str_def parse_config_file_def)
  from parse_hocon_plain [OF v(1)] obtain m where m: "v = JObject m" "plain_keys (JObject m)" by blast
  define p where "p = \<lparr>pc_env = hm_get m ''env'', pc_sources = section_items (hm_get m ''source''),
    pc_sinks = section_items (hm_get m ''sink''), pc_transforms = section_items (hm_get m ''transform'')\<rparr>"
  have j: "job_config_from p = Inr jc" using v(2) m(1) by (simp add: extract_sections_def p_def)
  have pl: "\<forall>w\<in>set (pc_sources p) \<union> set (pc_sinks p) \<union> set (pc_transforms p). plain_keys w"
    using section_plain [OF m(2)] by (auto simp: p_def)
  have f: "as_object w = Some obj \<Longrightarrow> plain_keys w \<Longrightarrow> factory_of obj = []" for w obj
    using factory_plain by (auto simp: as_object_def split: json.splits)
  note jd = j [unfolded job_config_from_def]
  show "\<forall>s\<in>set (jc_sources jc). src_factory_identifier s = []"
    using jd pl by (auto simp: source_config_from_def f split: sum.splits option.splits dest!: collect_results_set)
  show "\<forall>s\<in>set (jc_sinks jc). snk_factory_identifier s = []"
    using jd pl by (auto simp: sink_config_from_def f split: sum.splits option.splits dest!: collect_results_set)
  show "\<forall>t\<in>set (jc_transforms jc). tfc_factory_identifier t = []"
    using jd pl by (auto simp: transform_config_from_def f split: sum.splits option.splits dest!: collect_results_set)
  have u: "\<not> list_all ident_char ''job_mode''" "\<not> list_all ident_char ''checkpoint_interval''"
    by (simp_all add: ident_char_def is_alphanumeric_def)
  have "value_to_map (hm_get m ''env'') = Inr (jc_env jc)" using jd by (auto simp: p_def split: sum.splits)
  note e = env_plain [OF m(2) this]
  show "job_mode_of jc = Batch" "checkpoint_interval jc = 60000"
    using e [OF u(1)] e [OF u(2)] by (simp_all add: job_mode_of_def checkpoint_interval_def)
qed

section \<open>What is written is read back\<close>

definition key_ok :: "string \<Rightarrow> bool" where
  "key_ok k \<longleftrightarrow> k \<noteq> [] \<and> list_all ident_char k \<and> \<not> number_char (hd k)
     \<and> (hd k \<in> {CHR ''t'', CHR ''T''} \<longrightarrow> peek_matches (tl k) ''rue'' = None)
     \<and> (hd k \<in> {CHR ''f'', CHR ''F''} \<longrightarrow> peek_matches (tl k) ''alse'' = None)"

definition scalar_ok :: "json \<Rightarrow> bool" where
  "scalar_ok v \<longleftrightarrow>
     (case v of
        JBool b \<Rightarrow> True
      | JInt i \<Rightarrow> - (2 ^ 63) \<le> i \<and> i < 2 ^ 63
      | JString s \<Rightarrow> CHR 0x22 \<notin> set s
      | _ \<Rightarrow> False)"

definition scalar_text :: "json \<Rightarrow> string" where
  "scalar_text v =
     (case v of
        JBool b \<Rightarrow> if b then ''true'' else ''false''
      | JInt i \<Rightarrow> show_int i
      | JString s \<Rightarrow> CHR 0x22 # s @ [CHR 0x22]
      | _ \<Rightarrow> [])"

definition scalar_token :: "json \<Rightarrow> token" where
  "scalar_token v =
     (case v of JBool b \<Rightarrow> BoolLit b | JInt i \<Rightarrow> NumberLit (show_int i) | JString s \<Rightarrow> StringLit s | _ \<Rightarrow> Eof)"

fun hocon_ok :: "json \<Rightarrow> bool" where
  "hocon_ok (JObject []) \<longleftrightarrow> True"
| "hocon_ok (JObject ((k, v) # m)) \<longleftrightarrow>
     key_ok k \<and> list_all (\<lambda>p. k < fst p) m \<and> (case v of JObject _ \<Rightarrow> hocon_ok v | _ \<Rightarrow> scalar_ok v) \<and> hocon_ok (JObject m)"
| "hocon_ok _ \<longleftrightarrow> False"

fun hocon_text :: "json \<Rightarrow> string" where
  "hocon_text (JObject ((k, v) # m)) =
     k @ (case v of JObject _ \<Rightarrow> '' { '' @ hocon_text v @ ''} '' | _ \<Rightarrow> '' = '' @ scalar_text v @ '' '') @ hocon_text (JObject m)"
| "hocon_text _ = []"

fun hocon_tokens :: "json \<Rightarrow> token list" where
  "hocon_tokens (JObject ((k, v) # m)) =
     Ident k # (case v of JObject _ \<Rightarrow> LBrace # hocon_tokens v @ [RBrace] | _ \<Rightarrow> [Equals, scalar_token v]) @ hocon_tokens (JObject m)"
| "hocon_tokens _ = []"

lemma lex_space: "lex (CHR '' '' # rest) = lex rest"
  by (subst lex.simps) (simp add: hocon_space_def)

lemma lex_mark:
  "lex (CHR ''{'' # rest) = map_option ((@) [LBrace]) (lex rest)"
  "lex (CHR ''}'' # rest) = map_option ((@) [RBrace]) (lex rest)"
  "lex (CHR ''='' # rest) = map_option ((@) [Equals]) (lex rest)"
  by (subst lex.simps, simp add: hocon_space_def bind_token)+

lemma peek_fails:
  assumes "peek_matches w e = None" "x \<notin> set e"
  shows "peek_matches (w @ x # rest) e = None"
proof (rule ccontr)
  assume "peek_matches (w @ x # rest) e \<noteq> None"
  then obtain r where r: "w @ x # rest = e @ r" by (auto simp: peek_matches_def strip_prefix_Some)
  then have "(\<exists>us. w = e @ us) \<or> x \<in> set e" by (auto simp: append_eq_append_conv2 append_eq_Cons_conv Cons_eq_append_conv)
  then show False using assms by (auto simp: peek_matches_def)
qed

lemma takeWhile_stop: "list_all P w \<Longrightarrow> \<not> P x \<Longrightarrow> takeWhile P (w @ x # rest) = w"
  "list_all P w \<Longrightarrow> \<not> P x \<Longrightarrow> dropWhile P (w @ x # rest) = x # rest"
  by (induction w) simp_all

lemma lex_key:
  assumes "key_ok k"
  shows "lex (k @ CHR '' '' # rest) = map_option ((@) [Ident k]) (lex rest)"
proof -
  obtain c w where k: "k = c # w" using assms by (cases k) (auto simp: key_ok_def)
  have c: "ident_char c" "\<not> number_char c" "list_all ident_char w"
    and b: "c \<in> {CHR ''t'', CHR ''T''} \<longrightarrow> peek_matches w ''rue'' = None" "c \<in> {CHR ''f'', CHR ''F''} \<longrightarrow> peek_matches w ''alse'' = None"
    using assms by (auto simp: key_ok_def k)
  have sp: "\<not> ident_char (CHR '' '')" by (simp add: ident_char_def is_alphanumeric_def)
  note st = takeWhile_stop [OF c(3) sp, of rest]
  have p: "c \<in> {CHR ''t'', CHR ''T''} \<longrightarrow> word_token c ''rue'' True (w @ CHR '' '' # rest) = (Ident k, CHR '' '' # rest)"
    "c \<in> {CHR ''f'', CHR ''F''} \<longrightarrow> word_token c ''alse'' False (w @ CHR '' '' # rest) = (Ident k, CHR '' '' # rest)"
    using b peek_fails [of w "''rue''" "CHR '' ''" rest] peek_fails [of w "''alse''" "CHR '' ''" rest] st
    by (simp_all add: word_token_def k)
  have "lex ((c # w) @ CHR '' '' # rest) = map_option ((@) [Ident k]) (lex (CHR '' '' # rest))"
    using ident_not_mark [OF c(1)] c(1,2) p st by (subst lex.simps) (simp add: bind_token k)
  then show ?thesis by (simp add: k lex_space)
qed

lemma show_int_number: "list_all number_char (show_int i)" "show_int i \<noteq> []"
  by (auto simp: show_int_def number_char_def list_all_iff dest: show_nat_digits)

lemma lex_scalar:
  assumes "scalar_ok v"
  shows "lex (scalar_text v @ CHR '' '' # rest) = map_option ((@) [scalar_token v]) (lex rest)"
proof (cases v)
  case (JBool b)
  have "lex (scalar_text v @ CHR '' '' # rest) = map_option ((@) [BoolLit b]) (lex (CHR '' '' # rest))"
    by (subst lex.simps)
      (auto simp: JBool scalar_text_def hocon_space_def number_char_def is_digit_def word_token_def peek_matches_def strip_prefix_def bind_token)
  then show ?thesis by (simp add: JBool scalar_token_def lex_space)
next
  case (JInt i)
  have sp: "\<not> number_char (CHR '' '')" by (simp add: number_char_def is_digit_def)
  obtain c w where s: "show_int i = c # w" using show_int_number(2) [of i] by (cases "show_int i") auto
  have c: "number_char c" using show_int_number(1) [of i] by (simp add: s)
  have "lex ((c # w) @ CHR '' '' # rest) = map_option ((@) [NumberLit (c # w)]) (lex (CHR '' '' # rest))"
    using ident_not_mark [OF number_ident [OF c]] c takeWhile_stop [OF show_int_number(1) [of i] sp, of rest]
    by (subst lex.simps) (simp add: s bind_token)
  then show ?thesis by (simp add: JInt scalar_token_def scalar_text_def s lex_space)
next
  case (JString t)
  have t: "list_all (\<lambda>x. x \<noteq> CHR 0x22) t" using assms by (auto simp: JString scalar_ok_def list_all_iff)
  note st = takeWhile_stop [OF t, of "CHR 0x22" "CHR '' '' # rest"]
  have "lex (CHR 0x22 # t @ CHR 0x22 # CHR '' '' # rest) = map_option ((@) [StringLit t]) (lex (CHR '' '' # rest))"
    using st by (subst lex.simps) (simp add: hocon_space_def bind_token)
  then show ?thesis by (simp add: JString scalar_token_def scalar_text_def lex_space)
qed (use assms in \<open>simp_all add: scalar_ok_def\<close>)

lemma lex_hocon_text: "hocon_ok v \<Longrightarrow> lex (hocon_text v @ rest) = map_option ((@) (hocon_tokens v)) (lex rest)"
proof (induction v arbitrary: rest rule: hocon_ok.induct)
  case (2 k v m)
  have comp: "map_option f (map_option g x) = map_option (\<lambda>y. f (g y)) x" for f g and x :: "token list option" by (cases x) simp_all
  show ?case
  proof (cases "\<exists>sub. v = JObject sub")
    case True
    then obtain sub where v: "v = JObject sub" by blast
    then show ?thesis using 2 by (simp add: lex_key lex_space lex_mark comp)
  next
    case False
    then have e: "hocon_text (JObject ((k, v) # m)) = k @ '' = '' @ scalar_text v @ '' '' @ hocon_text (JObject m)"
      "hocon_tokens (JObject ((k, v) # m)) = [Ident k, Equals, scalar_token v] @ hocon_tokens (JObject m)" "key_ok k" "scalar_ok v"
      "hocon_ok (JObject m)"
      using 2(3) by (auto split: json.splits)
    then show ?thesis using 2(2) lex_scalar [OF e(4)] by (simp add: lex_key lex_space lex_mark comp)
  qed
qed (simp_all add: map_option_append_Nil)

lemma parse_scalar: "scalar_ok v \<Longrightarrow> token_value (scalar_token v) = v"
  by (auto simp: scalar_ok_def token_value_def scalar_token_def parse_show_int split: json.splits)

lemma hocon_ok_wf: "hocon_ok v \<Longrightarrow> v = JObject m \<Longrightarrow> bt_wf m"
  by (induction v arbitrary: m rule: hocon_ok.induct) (auto simp: bt_wf_Cons list_all_iff)

lemma key_ok_dot: "key_ok k \<Longrightarrow> k \<noteq> [] \<and> k \<noteq> ''.''"
  by (auto simp: key_ok_def ident_char_def is_alphanumeric_def)

lemma parse_assign:
  assumes "key_ok k"
  shows "parse_block (Ident k # Equals # t # ts) m = parse_block ts (bt_insert k (token_value t) m)"
  using key_ok_dot [OF assms] by (simp add: parse_block.simps(2) is_ident_def next_value_def)

lemma parse_nested:
  assumes "key_ok k" "parse_block ts [] = (RBrace # rest, sub)"
  shows "parse_block (Ident k # LBrace # ts) m = parse_block rest (bt_insert k (JObject sub) m)"
  using key_ok_dot [OF assms(1)] assms(2) by (simp add: parse_block.simps(2) [of "Ident k"] is_ident_def skip_brace_def)

lemma parse_hocon_tokens:
  assumes "hocon_ok v" "v = JObject m" "t = RBrace \<or> t = Eof" "bt_wf (a @ m)"
  shows "parse_block (hocon_tokens v @ t # rest) a = (t # rest, a @ m)"
  using assms
proof (induction v arbitrary: a m t rest rule: hocon_ok.induct)
  case 1
  then show ?case by (auto simp: parse_block.simps(2))
next
  case (2 k v n)
  have m: "m = (k, v) # n" using 2(4) by simp
  have ins: "bt_insert k v a = a @ [(k, v)]" using 2(6) by (intro bt_insert_last) (auto simp: m bt_wf_append)
  have k: "key_ok k" "hocon_ok (JObject n)" using 2(3) by simp_all
  have rec: "parse_block (hocon_tokens (JObject n) @ t # rest) (a @ [(k, v)]) = (t # rest, a @ m)"
    using 2(2) [of n t "a @ [(k, v)]" rest] k 2(5,6) by (simp add: m)
  show ?case
  proof (cases "\<exists>sub. v = JObject sub")
    case True
    then obtain sub where v: "v = JObject sub" by blast
    have s: "hocon_ok v" using 2(3) v by simp
    have "parse_block (hocon_tokens v @ RBrace # hocon_tokens (JObject n) @ t # rest) [] = (RBrace # hocon_tokens (JObject n) @ t # rest, sub)"
      using 2(1) [OF v s v, of RBrace "[]" "hocon_tokens (JObject n) @ t # rest"] hocon_ok_wf [OF s v] by simp
    from parse_nested [OF k(1) this, of a] show ?thesis using rec ins by (simp add: v)
  next
    case False
    then have e: "hocon_tokens (JObject ((k, v) # n)) = [Ident k, Equals, scalar_token v] @ hocon_tokens (JObject n)" "scalar_ok v"
      using 2(3) by (auto split: json.splits)
    then show ?thesis using rec ins parse_scalar [OF e(2)] by (simp add: parse_assign [OF k(1)])
  qed
qed simp_all



text \<open>Texts on which the reader does not return, loses a block, or takes another value than the one written.\<close>

lemma underscore_never_returns: "parse_hocon ''job_mode = 1'' = None"
  using lex_outcome [of "''job_mode = 1''"]
  by (cases "lex ''job_mode = 1''") (simp_all add: parse_hocon_def known_text_def known_char_def hocon_space_def ident_char_def is_alphanumeric_def)

lemma later_block_replaces:
  assumes k: "key_ok k" and m: "hocon_ok (JObject m)" and n: "hocon_ok (JObject n)"
  shows "parse_hocon (k @ '' { '' @ hocon_text (JObject m) @ ''} '' @ k @ '' { '' @ hocon_text (JObject n) @ ''} '') =
    Some (JObject [(k, JObject n)])"
proof -
  let ?t = "\<lambda>m rest. Ident k # LBrace # hocon_tokens (JObject m) @ RBrace # rest"
  have comp: "map_option f (map_option g x) = map_option (\<lambda>y. f (g y)) x" for f g and x :: "token list option" by (cases x) simp_all
  have l: "lex (k @ '' { '' @ hocon_text (JObject m) @ ''} '' @ k @ '' { '' @ hocon_text (JObject n) @ ''} '') = Some (?t m (?t n [Eof]))"
    by (simp add: lex_key [OF k] lex_space lex_mark lex_hocon_text [OF m] lex_hocon_text [OF n] comp lex.simps [of "[]"])
  have p: "parse_block (?t j rest) a = parse_block rest (bt_insert k (JObject j) a)" if "hocon_ok (JObject j)" for j rest a
    using parse_hocon_tokens [OF that refl, of RBrace "[]" rest] hocon_ok_wf [OF that refl] by (intro parse_nested [OF k]) simp
  show ?thesis unfolding parse_hocon_def l by (simp add: p [OF m] p [OF n] parse_block.simps(2) [of Eof] bt_insert_def)
qed

lemmas lex_eval = lex.simps [of "[]"] lex.simps [of "c # r" for c r] hocon_space_def number_char_def is_digit_def ident_char_def
  is_alphanumeric_def word_token_def peek_matches_def strip_prefix_def

lemma value_forms:
  "parse_hocon ''a = 1.5'' = Some (JObject [(''a'', JInt 1)])"
  "parse_hocon ''a = b c = 2'' = Some (JObject [(''a'', JNull), (''c'', JInt 2)])"
  by (simp_all add: parse_hocon_def lex_eval parse_block.simps(2) is_ident_def next_value_def token_value_def parse_int_def bt_insert_def
      Cons_less_Cons less_char_def Let_def digit_val_def u64_max_def)

end
