(* ===== verification/Web_Jobs.thy ===== *)
theory Web_Jobs
  imports Config_Runs Job_Planner Transforms
begin

text \<open>
  Jobs submitted and edited through the web console (\<open>seatunnel-web/server/src/api/jobs.rs\<close>): the format of a text, the
  checks before a job reaches the master, the document the console builds for it, and the name it gives the job. The
  JSON reader (\<open>serde_json\<close>) and the master's answer to a status request are parameters; the document is
  handed to the master as the value it is. What the console sends is compared with what the planner makes of the
  configuration itself.
\<close>

section \<open>Requests\<close>

definition parse_format :: "string option \<Rightarrow> string + config_format" where
  "parse_format v =
     (case map_option (map to_lower) v of
        None \<Rightarrow> Inr YAML
      | Some f \<Rightarrow>
          if f = ''yaml'' \<or> f = ''yml'' then Inr YAML
          else if f = ''toml'' then Inr TOML
          else if f = ''hocon'' \<or> f = ''conf'' then Inr HOCON
          else Inl (''unsupported format '' @ f))"

definition validate_parsed :: "parsed_config \<Rightarrow> string + unit" where
  "validate_parsed p =
     (if pc_sources p = [] then Inl ''config has no source section''
      else if pc_sinks p = [] then Inl ''config has no sink section''
      else Inr ())"

definition canonical_doc :: "parsed_config \<Rightarrow> json" where
  "canonical_doc p =
     (let doc = (case pc_env p of None \<Rightarrow> [] | Some env \<Rightarrow> bt_insert ''env'' env []);
          doc = bt_insert ''source'' (JArray (pc_sources p)) doc;
          doc = bt_insert ''transform'' (JArray (pc_transforms p)) doc
      in JObject (bt_insert ''sink'' (JArray (pc_sinks p)) doc))"

definition usable_section :: "json option \<Rightarrow> bool" where
  "usable_section v =
     (case v of Some (JArray items) \<Rightarrow> items \<noteq> [] | Some (JObject m) \<Rightarrow> m \<noteq> [] | _ \<Rightarrow> False)"

definition validate_sections :: "json \<Rightarrow> string + unit" where
  "validate_sections config =
     (if j_get ''pipelines'' config \<noteq> None then Inr ()
      else if \<not> usable_section (j_get ''source'' config) then Inl ''config has no usable source section''
      else if \<not> usable_section (j_get ''sink'' config) then Inl ''config has no usable sink section''
      else Inr ())"

definition env_job_name :: "json \<Rightarrow> string option" where
  "env_job_name config =
     Option.bind (j_get ''env'' config) (\<lambda>env.
       let nested = Option.bind (Option.bind (j_get ''job'' env) (j_get ''name'')) as_str;
           flat = Option.bind (j_get ''job.name'' env) as_str
       in Option.bind (or_else nested flat) (\<lambda>n. if trim n = [] then None else Some (trim n)))"

text \<open>A text of a known format, checked and rebuilt; \<open>None\<close> when the reader does not return.\<close>

definition read_job :: "config_readers \<Rightarrow> (string \<Rightarrow> string) \<Rightarrow> string \<Rightarrow> config_format \<Rightarrow> (string + json) option" where
  "read_job rd context text fmt =
     map_option (\<lambda>r.
       case r of
         Inl e \<Rightarrow> Inl (context e)
       | Inr p \<Rightarrow> (case validate_parsed p of Inl e \<Rightarrow> Inl e | Inr _ \<Rightarrow> Inr (canonical_doc p)))
       (parse_config_file rd text fmt)"

definition checked_json :: "json \<Rightarrow> string + json" where
  "checked_json config = (case validate_sections config of Inl e \<Rightarrow> Inl e | Inr _ \<Rightarrow> Inr config)"

definition parse_edited_config ::
    "config_readers \<Rightarrow> (string \<Rightarrow> string + json) \<Rightarrow> string \<Rightarrow> string option \<Rightarrow> (string + json) option" where
  "parse_edited_config rd from_json text format =
     (let fmt = Option.bind (map_option trim format) (\<lambda>f. if f = [] then None else Some (map to_lower f)) in
      if fmt = None \<or> fmt = Some ''auto'' then
        (case from_json text of
           Inr config \<Rightarrow> Some (checked_json config)
         | Inl _ \<Rightarrow> read_job rd (\<lambda>e. ''config is neither valid JSON nor YAML (YAML error: '' @ e @ '')'') text YAML)
      else if fmt = Some ''json'' then
        Some (case from_json text of Inl e \<Rightarrow> Inl (''invalid JSON config: '' @ e) | Inr config \<Rightarrow> checked_json config)
      else
        (case parse_format fmt of
           Inl e \<Rightarrow> Some (Inl e)
         | Inr f \<Rightarrow> read_job rd (\<lambda>e. ''config parse error: '' @ e) text f))"

text \<open>What \<open>submit_job\<close> and \<open>update_job\<close> hand to the master: the document and the name of the job.\<close>

definition submit_job_request ::
    "config_readers \<Rightarrow> string \<Rightarrow> string option \<Rightarrow> string option \<Rightarrow> (string + json \<times> string option) option" where
  "submit_job_request rd text format job_name =
     (case parse_format format of
        Inl e \<Rightarrow> Some (Inl e)
      | Inr f \<Rightarrow>
          map_option (\<lambda>r.
            case r of
              Inl e \<Rightarrow> Inl e
            | Inr config \<Rightarrow> Inr (config, if job_name = None then env_job_name config else job_name))
            (read_job rd (\<lambda>e. ''config parse error: '' @ e) text f))"

definition update_job_request ::
    "config_readers \<Rightarrow> (string \<Rightarrow> string + json) \<Rightarrow> (string \<Rightarrow> string option) \<Rightarrow> string \<Rightarrow> string \<Rightarrow> string option \<Rightarrow>
     string option \<Rightarrow> (string + json \<times> string) option" where
  "update_job_request rd from_json status job config_text format job_name =
     (if trim config_text = [] then Some (Inl ''config_text must not be empty'')
      else
        map_option (\<lambda>r.
          case r of
            Inl e \<Rightarrow> Inl e
          | Inr config \<Rightarrow> Inr (config, unwrap_or job (or_else (or_else job_name (env_job_name config)) (status job))))
          (parse_edited_config rd from_json (trim config_text) format))"

section \<open>The document the console builds\<close>

lemma canonical_doc_eq:
  "canonical_doc p =
     JObject ((case pc_env p of None \<Rightarrow> [] | Some env \<Rightarrow> [(''env'', env)]) @
       [(''sink'', JArray (pc_sinks p)), (''source'', JArray (pc_sources p)), (''transform'', JArray (pc_transforms p))])"
  by (cases "pc_env p") (simp_all add: canonical_doc_def bt_insert_def Cons_less_Cons less_char_def)

lemma canonical_get:
  "j_get ''env'' (canonical_doc p) = pc_env p"
  "j_get ''source'' (canonical_doc p) = Some (JArray (pc_sources p))"
  "j_get ''sink'' (canonical_doc p) = Some (JArray (pc_sinks p))"
  "j_get ''transform'' (canonical_doc p) = Some (JArray (pc_transforms p))"
  "j_get ''pipelines'' (canonical_doc p) = None"
  by (cases "pc_env p"; simp add: canonical_doc_eq j_get_def)+

lemma section_first_block:
  "first_block (JArray (section_items (Some v))) = first_block v"
  by (cases v) (auto simp: section_items_def first_block_def as_object_def split: list.split)

lemma traverse_singletons:
  "traverse sink_block (map (\<lambda>(k, w). JObject [(k, w)]) m) = Inr (map (\<lambda>(k, w). [\<lparr>sd_plugin = k, sd_config = w\<rparr>]) m)"
  by (induction m) (auto simp: sink_block_def ok_or_def as_object_def)

lemma section_sinks:
  assumes "usable_section (Some v)"
  shows "parse_sink_declarations (JArray (section_items (Some v))) = parse_sink_declarations v"
proof (cases v)
  case (JObject m)
  have "concat (map (\<lambda>(k, w). [\<lparr>sd_plugin = k, sd_config = w\<rparr>]) m) = map (\<lambda>(k, w). \<lparr>sd_plugin = k, sd_config = w\<rparr>) m"
    by (induction m) auto
  then show ?thesis
    by (cases m) (auto simp: JObject parse_sink_declarations_def section_items_def traverse_singletons sink_block_def ok_or_def as_object_def)
qed (use assms in \<open>simp_all add: usable_section_def section_items_def\<close>)

text \<open>The transforms of a section in the form the planner passes on as it is.\<close>

definition listed_transforms :: "json option \<Rightarrow> bool" where
  "listed_transforms v \<longleftrightarrow> (case v of None \<Rightarrow> True | Some (JArray _) \<Rightarrow> True | _ \<Rightarrow> False)"

definition same_but_raw :: "string \<Rightarrow> (job_dto \<times> task_descriptor list) plan_result \<Rightarrow> (job_dto \<times> task_descriptor list) plan_result" where
  "same_but_raw raw r = (case r of Inl e \<Rightarrow> Inl e | Inr (d, ts) \<Rightarrow> Inr (d\<lparr>jd_raw_config := raw\<rparr>, ts))"

lemma sections_Inr:
  assumes "extract_sections config = Inr p"
  obtains obj where "config = JObject obj" "pc_env p = j_get ''env'' config" "pc_sources p = section_items (j_get ''source'' config)"
    "pc_sinks p = section_items (j_get ''sink'' config)" "pc_transforms p = section_items (j_get ''transform'' config)"
  using assms by (cases config) (auto simp: extract_sections_def j_get_def hm_get_def)

lemma canonical_pipelines:
  assumes p: "extract_sections config = Inr p" and v: "validate_parsed p = Inr ()"
    and s: "usable_section (j_get ''sink'' config)" and n: "Option.bind (j_get ''pipelines'' config) as_array = None"
  shows "extract_pipelines (canonical_doc p) d = extract_pipelines config d"
proof -
  from p obtain obj where o: "pc_env p = j_get ''env'' config" "pc_sources p = section_items (j_get ''source'' config)"
    "pc_sinks p = section_items (j_get ''sink'' config)" by (rule sections_Inr)
  obtain src where src: "j_get ''source'' config = Some src"
    using v o(2) by (cases "j_get ''source'' config") (auto simp: validate_parsed_def section_items_def)
  obtain snk where snk: "j_get ''sink'' config = Some snk" using s by (cases "j_get ''sink'' config") (auto simp: usable_section_def)
  show ?thesis
    using n s by (simp add: extract_pipelines_def canonical_get o src snk section_first_block section_sinks ok_or_def)
qed

text \<open>
  C35. A job submitted through the console is planned as its configuration says. When the text is a single pipeline (no
  \<open>pipelines\<close> list) with a usable sink section and its transforms, if any, in a list, the document the console builds
  compiles to the same plan, or the same error, as the configuration itself: the same tasks on the same workers, the same
  checkpoint interval, and the same job but for the text kept with it.
\<close>

theorem console_keeps_plan:
  assumes "extract_sections config = Inr p" and "validate_parsed p = Inr ()"
    and "usable_section (j_get ''sink'' config)" and "Option.bind (j_get ''pipelines'' config) as_array = None"
    and "listed_transforms (j_get ''transform'' config)"
  shows "compile_plan_inner ser now load job name (canonical_doc p) override workers =
    same_but_raw (unwrap_or [] (ser (canonical_doc p))) (compile_plan_inner ser now load job name config override workers)"
proof -
  from assms(1) obtain obj where o: "pc_env p = j_get ''env'' config" "pc_transforms p = section_items (j_get ''transform'' config)"
    by (rule sections_Inr)
  have e: "env_parallelism (canonical_doc p) = env_parallelism config" "env_checkpoint_interval (canonical_doc p) = env_checkpoint_interval config"
    by (simp_all add: env_parallelism_def env_checkpoint_interval_def canonical_get o)
  have t: "extract_transform_list (canonical_doc p) = extract_transform_list config"
    using assms(5) by (auto simp: extract_transform_list_def canonical_get o listed_transforms_def section_items_def split: option.splits json.splits)
  show ?thesis
    unfolding compile_plan_inner_def canonical_pipelines [OF assms(1-4)] e t
    by (auto simp: same_but_raw_def Let_def bindr_def split: sum.split)
qed

theorem console_keeps_plan_witness:
  "\<exists>p dto ts. extract_sections demo_config = Inr p \<and>
     compile_plan_inner (\<lambda>_. Some ''{}'') 17 hm_empty ''j'' ''demo'' (canonical_doc p) None demo_workers = Inr (dto\<lparr>jd_raw_config := ''{}''\<rparr>, ts) \<and>
     demo_plan = Inr (dto, ts)"
proof -
  obtain p where p: "extract_sections demo_config = Inr p" by (simp add: extract_sections_def demo_config_def)
  then have v: "validate_parsed p = Inr ()"
    by (auto simp: extract_sections_def demo_config_def validate_parsed_def section_items_def hm_get_def)
  obtain dto ts where d: "demo_plan = Inr (dto, ts)" using demo_plan_ok by blast
  have "usable_section (j_get ''sink'' demo_config)" "Option.bind (j_get ''pipelines'' demo_config) as_array = None"
    "listed_transforms (j_get ''transform'' demo_config)"
    by (simp_all add: demo_config_def j_get_def usable_section_def listed_transforms_def)
  from console_keeps_plan [OF p v this, of "\<lambda>_. Some ''{}''" 17 hm_empty "''j''" "''demo''" None demo_workers] d p show ?thesis
    by (auto simp: same_but_raw_def demo_plan_def)
qed

section \<open>Where the console and the planner differ\<close>

text \<open>
  Transforms given by name, which the planner accepts, reach the worker without their name: the console lists
  the blocks, and the planner names only the blocks of an object.
\<close>

lemma named_transforms_lost:
  assumes "extract_sections config = Inr p" "j_get ''transform'' config = Some (JObject ((k, cfg) # m))" "k \<noteq> ''plugin_name''" "k \<noteq> ''plugin''"
  shows "create_transforms fl (extract_transform_list (canonical_doc p)) = Inl ''unknown transform plugin ''"
proof -
  from assms(1) obtain obj where "pc_transforms p = section_items (j_get ''transform'' config)" by (rule sections_Inr)
  then have "extract_transform_list (canonical_doc p) = JObject [(k, cfg)] # map (\<lambda>(k, w). JObject [(k, w)]) m"
    using assms(2) by (simp add: extract_transform_list_def canonical_get section_items_def)
  then show ?thesis using assms(3,4) by (simp add: create_transform_def j_get_def or_else_def)
qed

lemma named_transforms_work:
  "create_transforms fl (extract_transform_list (JObject [(''transform'', JObject [(''filter'', JObject [(''field_index'', JInt 0)])])])) =
   Inr [Filter_By_Index 0 Op_NotNull None]"
  by (simp add: extract_transform_list_def create_transform_def transform_entry_def j_get_def or_else_def as_str_def as_u64_def u64_max_def
      parse_op_def to_lower_def)

text \<open>The list of pipelines of a configuration never reaches the master from a text the console reads.\<close>

lemma pipelines_dropped:
  assumes "extract_sections config = Inr p"
  shows "j_get ''source'' config = None \<Longrightarrow> validate_parsed p = Inl ''config has no source section''"
    and "j_get ''pipelines'' (canonical_doc p) = None"
  using assms by (auto simp: validate_parsed_def section_items_def canonical_get elim!: sections_Inr)

text \<open>A HOCON text with an unknown character keeps the console from answering.\<close>

lemma submit_never_answers: "submit_job_request rd ''source { my_db { } }'' (Some ''hocon'') n = None"
  using lex_outcome [of "''source { my_db { } }''"]
  by (cases "lex ''source { my_db { } }''")
    (simp_all add: submit_job_request_def parse_format_def to_lower_def read_job_def parse_config_file_def parse_hocon_def known_text_def
      known_char_def hocon_space_def ident_char_def is_alphanumeric_def)

text \<open>An edit whose name is empty, not absent, renames the job to the empty name.\<close>

lemma empty_name_taken:
  assumes "trim text \<noteq> []" "parse_edited_config rd from_json (trim text) format = Some (Inr config)"
  shows "update_job_request rd from_json status job text format (Some []) = Some (Inr (config, []))"
  using assms by (simp add: update_job_request_def or_else_def)

end
