(* ===== verification/Kafka_Source.thy ===== *)
theory Kafka_Source
  imports Message_Formats Cdc_Base
begin

text \<open>
  The Kafka source (\<open>seatunnel-connector-kafka/src/lib.rs\<close>): options, the start offset of a partition, decoding of
  messages, the reader with its checkpoints. The broker and the client library are parameters: metadata, offset
  lookups, the assignment, and what \<open>recv\<close> returns. Offsets are integers below the maximum of \<open>i64\<close>; the checkpoint state is the
  map that is written as JSON.
\<close>

section \<open>Splits and options\<close>

record kafka_split =
  ks_id :: string
  ks_topic :: string
  ks_partition :: int
  ks_start_offset :: "int option"

definition kafka_split_new :: "string \<Rightarrow> int \<Rightarrow> int option \<Rightarrow> kafka_split" where
  "kafka_split_new topic p start =
     \<lparr>ks_id = topic @ ''-p'' @ show_int p, ks_topic = topic, ks_partition = p, ks_start_offset = start\<rparr>"

datatype startup_mode = Earliest | Latest | Timestamp int | Group_Offset | Specific_Offsets "(int, int) hashmap"

record kafka_source_config =
  kc_bootstrap_servers :: string
  kc_topic :: string
  kc_group_id :: string
  kc_startup_mode :: startup_mode
  kc_format :: message_format
  kc_field_delimiter :: string
  kc_columns :: "string list"
  kc_subtask_index :: nat
  kc_subtask_count :: nat
  kc_poll_timeout_ms :: nat

definition offset_pair :: "string \<Rightarrow> (int \<times> int) option" where
  "offset_pair pair =
     Option.bind (split_once '':'' (trim pair)) (\<lambda>(p, o').
       case (parse_int 32 (trim p), parse_int 64 (trim o')) of (Some p, Some o') \<Rightarrow> Some (p, o') | _ \<Rightarrow> None)"

definition parse_specific_offsets :: "string \<Rightarrow> (int, int) hashmap" where
  "parse_specific_offsets s =
     fold (\<lambda>pair m. case offset_pair pair of Some (p, o') \<Rightarrow> hm_insert p o' m | None \<Rightarrow> m) (split_on (CHR '','') s) hm_empty"

definition startup_mode_of :: "connector_config \<Rightarrow> startup_mode" where
  "startup_mode_of config =
     (let mode = get_string config ''startup.mode'' ''earliest'' in
      if mode = ''latest'' then Latest
      else if mode = ''timestamp'' then Timestamp (get_int config ''startup.timestamp'' 0)
      else if mode \<in> {''group-offsets'', ''group_offsets'', ''groupoffsets''} then Group_Offset
      else if mode \<in> {''specific-offsets'', ''specific_offsets'', ''specificoffsets''} then
        Specific_Offsets (parse_specific_offsets (get_string config ''startup.specific-offsets'' []))
      else Earliest)"

definition source_from_config :: "connector_config \<Rightarrow> kafka_source_config" where
  "source_from_config config =
     \<lparr>kc_bootstrap_servers = get_string config ''bootstrap.servers'' ''localhost:9092'',
      kc_topic = get_string config ''topic'' ''seatunnel'',
      kc_group_id = get_string config ''group.id'' ''seatunnel-consumer'',
      kc_startup_mode = startup_mode_of config,
      kc_format = unwrap_or Fmt_Json (Option.bind (hm_get config ''format'') format_from_str),
      kc_field_delimiter = get_string config ''field.delimiter'' '','',
      kc_columns = split_list (get_string config ''columns'' []),
      kc_subtask_index = nat (max (get_int config ''subtask.index'' 0) 0),
      kc_subtask_count = nat (max (get_int config ''subtask.count'' 1) 1),
      kc_poll_timeout_ms = nat (max (get_int config ''poll.timeout.ms'' 250) 10)\<rparr>"

definition auto_offset_reset :: "kafka_source_config \<Rightarrow> string" where
  "auto_offset_reset c =
     (case kc_startup_mode c of Earliest \<Rightarrow> ''earliest'' | Latest \<Rightarrow> ''latest'' | _ \<Rightarrow> ''error'')"

definition enumerate_splits :: "kafka_source_config \<Rightarrow> nat \<Rightarrow> kafka_split list" where
  "enumerate_splits c parallelism = map (\<lambda>p. kafka_split_new (kc_topic c) (int p) None) [0..<max parallelism 1]"

section \<open>The reader\<close>

text \<open>Positions of a partition, as \<open>rdkafka\<close> names them.\<close>

datatype offset = Beginning | End_Of_Log | Invalid | At int

text \<open>
  What the reader asks the broker: the topics with their partitions, offsets by time, committed offsets, and whether an
  offset can be assigned. An error is a text.
\<close>

record kafka_broker =
  kb_create :: "string option"
  kb_metadata :: "string \<Rightarrow> string + (string \<times> int list) list"
  kb_times :: "string \<Rightarrow> int \<Rightarrow> int \<Rightarrow> string + (int \<times> offset) list"
  kb_committed :: "string \<Rightarrow> int \<Rightarrow> string + (int \<times> offset) list"
  kb_add :: "string \<Rightarrow> int \<Rightarrow> offset \<Rightarrow> string option"
  kb_assign :: "(int \<times> offset) list \<Rightarrow> string option"

record kafka_message =
  km_topic :: string
  km_partition :: int
  km_offset :: int
  km_payload :: "octets option"

datatype recv_result = Recv_Message kafka_message | Recv_Error string | Recv_Timeout

record kafka_reader =
  kr_config :: kafka_source_config
  kr_schema :: "table_schema option"
  kr_restore_offsets :: "(string, int) hashmap"
  kr_last_offsets :: "(string, int) hashmap"
  kr_checkpoint_offsets :: "(string, int) hashmap"
  kr_pending :: "row list"
  kr_consumer :: "(int \<times> offset) list option"
  kr_assigned :: "int list"

definition reader_new :: "kafka_source_config \<Rightarrow> table_schema option \<Rightarrow> kafka_reader" where
  "reader_new c schema =
     \<lparr>kr_config = c,
      kr_schema = or_else schema
        (if kc_columns c = [] then None
         else Some (table_schema_new (''kafka.'' @ kc_topic c) (map (\<lambda>n. column_def_new n TString) (kc_columns c)))),
      kr_restore_offsets = hm_empty, kr_last_offsets = hm_empty, kr_checkpoint_offsets = hm_empty, kr_pending = [],
      kr_consumer = None, kr_assigned = []\<rparr>"

definition reader_restore :: "(string, int) hashmap \<Rightarrow> kafka_reader \<Rightarrow> kafka_reader" where
  "reader_restore offsets r = r\<lparr>kr_restore_offsets := offsets\<rparr>"

definition found_offset :: "int \<Rightarrow> offset \<Rightarrow> string + (int \<times> offset) list \<Rightarrow> offset" where
  "found_offset p dflt r = (case r of Inl _ \<Rightarrow> dflt | Inr list \<Rightarrow> unwrap_or dflt (map_of list p))"

definition start_offset :: "kafka_broker \<Rightarrow> kafka_source_config \<Rightarrow> int \<Rightarrow> int option \<Rightarrow> offset" where
  "start_offset b c p restored =
     (case restored of
        Some n \<Rightarrow> At (n + 1)
      | None \<Rightarrow>
          (case kc_startup_mode c of
             Specific_Offsets offsets \<Rightarrow> (case hm_get offsets p of Some o' \<Rightarrow> At o' | None \<Rightarrow> Beginning)
           | Timestamp ts \<Rightarrow> found_offset p Beginning (kb_times b (kc_topic c) p ts)
           | Group_Offset \<Rightarrow> found_offset p Invalid (kb_committed b (kc_topic c) p)
           | Latest \<Rightarrow> End_Of_Log
           | Earliest \<Rightarrow> Beginning))"

definition kafka_field :: "format_env \<Rightarrow> json \<Rightarrow> field" where
  "kafka_field env v =
     (case v of
        JNull \<Rightarrow> FNull
      | JBool b \<Rightarrow> FBool b
      | JInt n \<Rightarrow> if - (2 ^ 63) \<le> n \<and> n < 2 ^ 63 then FInt64 (word_of_int n) else FFloat64 (num_float (fe_codec env) v)
      | JFloat _ \<Rightarrow> FFloat64 (num_float (fe_codec env) v)
      | JString s \<Rightarrow> FString s
      | _ \<Rightarrow> FString (tx_json (fe_texts env) v))"

definition inserted_row :: "field list \<Rightarrow> row" where
  "inserted_row fs = \<lparr>row_kind = Insert, row_fields = fs, row_origin = None\<rparr>"

definition decode_payload :: "format_env \<Rightarrow> kafka_reader \<Rightarrow> octets \<Rightarrow> row list" where
  "decode_payload env r payload =
     (case kr_schema r of
        Some schema \<Rightarrow>
          (case deserialize_all env (kc_format (kr_config r)) payload schema of Inr rows \<Rightarrow> rows | Inl _ \<Rightarrow> [])
      | None \<Rightarrow>
          let text = from_utf8_lossy (fe_bytes env) payload in
          if kc_format (kr_config r) = Fmt_Text then [inserted_row [FString text]]
          else
            (case from_slice (fe_codec env) (utf8 text) of
               Some (JObject m) \<Rightarrow> [inserted_row (map (\<lambda>(k, v). kafka_field env v) m)]
             | Some (JArray items) \<Rightarrow> [inserted_row (map (kafka_field env) items)]
             | _ \<Rightarrow> [inserted_row [FString text]]))"

definition partition_key :: "string \<Rightarrow> int \<Rightarrow> string" where
  "partition_key topic p = topic @ ''-'' @ show_int p"

definition own_partitions :: "kafka_source_config \<Rightarrow> (string \<times> int list) list \<Rightarrow> int list" where
  "own_partitions c topics =
     filter (\<lambda>p. nat (p mod 2 ^ 64) mod kc_subtask_count c = kc_subtask_index c) (unwrap_or [] (map_of topics (kc_topic c)))"

fun assign_all :: "kafka_broker \<Rightarrow> string \<Rightarrow> (int \<times> offset) list \<Rightarrow> string option" where
  "assign_all b topic [] = None"
| "assign_all b topic ((p, o') # rest) = (case kb_add b topic p o' of Some e \<Rightarrow> Some e | None \<Rightarrow> assign_all b topic rest)"

definition reader_open :: "kafka_broker \<Rightarrow> kafka_reader \<Rightarrow> string + kafka_reader" where
  "reader_open b r =
     (let c = kr_config r in
      case kb_create b of Some e \<Rightarrow> Inl (''Failed to create Kafka consumer: '' @ e) | None \<Rightarrow>
      case kb_metadata b (kc_topic c) of Inl e \<Rightarrow> Inl (''fetch_metadata failed: '' @ e) | Inr topics \<Rightarrow>
        let partitions = own_partitions c topics;
            tpl = map (\<lambda>p. (p, start_offset b c p (hm_get (kr_restore_offsets r) (partition_key (kc_topic c) p)))) partitions
        in case assign_all b (kc_topic c) tpl of Some e \<Rightarrow> Inl (''assign offset: '' @ e) | None \<Rightarrow>
           case kb_assign b tpl of Some e \<Rightarrow> Inl (''Failed to assign partitions: '' @ e) | None \<Rightarrow>
             Inr (r\<lparr>kr_assigned := partitions, kr_consumer := Some tpl\<rparr>))"

text \<open>One poll: a waiting row, or what \<open>recv\<close> returns before the timeout. \<open>None\<close> is \<open>PollResult::Empty\<close>.\<close>

definition needs_recv :: "kafka_reader \<Rightarrow> bool" where
  "needs_recv r \<longleftrightarrow> kr_pending r = [] \<and> kr_consumer r \<noteq> None"

definition pop_pending :: "kafka_reader \<Rightarrow> row option \<times> kafka_reader" where
  "pop_pending r = (case kr_pending r of [] \<Rightarrow> (None, r) | row # rest \<Rightarrow> (Some row, r\<lparr>kr_pending := rest\<rparr>))"

definition poll_next :: "format_env \<Rightarrow> recv_result \<Rightarrow> kafka_reader \<Rightarrow> row option \<times> kafka_reader" where
  "poll_next env recv r =
     (if kr_pending r \<noteq> [] then pop_pending r
      else if kr_consumer r = None then (None, r)
      else
        case recv of
          Recv_Message m \<Rightarrow>
            let r1 = r\<lparr>kr_last_offsets := hm_insert (partition_key (km_topic m) (km_partition m)) (km_offset m) (kr_last_offsets r)\<rparr>
            in pop_pending (r1\<lparr>kr_pending := (case km_payload m of None \<Rightarrow> [] | Some p \<Rightarrow> decode_payload env r p)\<rparr>)
        | _ \<Rightarrow> (None, r))"

section \<open>Checkpoints\<close>

text \<open>The list handed to \<open>consumer.commit\<close>; \<open>None\<close> when nothing is committed.\<close>

definition committed_entry :: "string \<times> int \<Rightarrow> (string \<times> int \<times> int) option" where
  "committed_entry = (\<lambda>(key, o').
     Option.bind (rsplit_once ''-'' key) (\<lambda>(topic, n).
       map_option (\<lambda>p. (topic, p, o' + 1)) (parse_int 32 n)))"

definition commit_specific_offsets :: "(string, int) hashmap \<Rightarrow> kafka_reader \<Rightarrow> (string \<times> int \<times> int) list option" where
  "commit_specific_offsets offsets r =
     (if kr_consumer r = None \<or> offsets = [] then None else Some (List.map_filter committed_entry offsets))"

definition reader_snapshot :: "kafka_reader \<Rightarrow> (string, int) hashmap \<times> kafka_reader" where
  "reader_snapshot r = (kr_last_offsets r, r\<lparr>kr_checkpoint_offsets := kr_last_offsets r\<rparr>)"

definition notify_checkpoint_complete :: "kafka_reader \<Rightarrow> (string \<times> int \<times> int) list option \<times> kafka_reader" where
  "notify_checkpoint_complete r =
     (if kr_checkpoint_offsets r = [] then (None, r)
      else (commit_specific_offsets (kr_checkpoint_offsets r) r, r\<lparr>kr_checkpoint_offsets := hm_empty\<rparr>))"

definition reader_close :: "kafka_reader \<Rightarrow> (string \<times> int \<times> int) list option \<times> kafka_reader" where
  "reader_close r = (commit_specific_offsets (kr_last_offsets r) r, r\<lparr>kr_consumer := None\<rparr>)"

end
