(* ===== verification/Kafka_Sink.thy ===== *)
theory Kafka_Sink
  imports Kafka_Source "HOL-Library.Product_Lexorder"
begin

text \<open>
  The Kafka sink (\<open>seatunnel-connector-kafka/src/lib.rs\<close>): options, the topics of a row, the queue of deliveries that wait
  for a report, and the writer with its checkpoints and transactions. The producer is a parameter: the report of
  the \<open>n\<close>th message, whether it has arrived at the \<open>k\<close>th look, and the answer to the \<open>n\<close>th transactional call. The messages
  handed to the producer and the calls made are kept in order. Regular expressions, the JSON printer and fresh ids are
  parameters, the clock is an argument; latencies are not modelled and error texts are abbreviated.
\<close>

section \<open>Topics\<close>

function replace_text :: "string \<Rightarrow> string \<Rightarrow> string \<Rightarrow> string" where
  "replace_text pat w [] = []"
| "replace_text pat w (c # cs) =
     (if pat = [] then c # cs
      else case strip_prefix pat (c # cs) of
             Some rest \<Rightarrow> w @ replace_text pat w rest
           | None \<Rightarrow> c # replace_text pat w cs)"
  by pat_completeness auto
termination replace_text
proof (relation "measure (\<lambda>(pat, w, s). length s)", goal_cases)
  case (3 pat w c cs rest)
  then have "c # cs = pat @ rest" by (simp add: strip_prefix_Some)
  then have "length (c # cs) = length pat + length rest" by simp
  then show ?case using 3(1) by (cases pat) auto
qed auto

definition contains_text :: "string \<Rightarrow> string \<Rightarrow> bool" where
  "contains_text pat s \<longleftrightarrow> split_once pat s \<noteq> None"

record topic_route =
  tr_pattern :: string
  tr_topic :: string

record topic_router =
  tp_routes :: "(string \<times> string) list"
  tp_default_topic :: string
  tp_cache :: "(string, string list) hashmap"

definition route_pattern :: "topic_route \<Rightarrow> string" where
  "route_pattern r = ''^(?s:'' @ tr_pattern r @ '')$''"

definition router_new :: "regex_engine \<Rightarrow> string \<Rightarrow> topic_route list \<Rightarrow> string + topic_router" where
  "router_new rx default_topic routes =
     (case List.find (\<lambda>r. compile_regex rx (route_pattern r) = None) routes of
        Some r \<Rightarrow> Inl (''topic-routes pattern is not a valid regex: '' @ tr_pattern r)
      | None \<Rightarrow>
          Inr \<lparr>tp_routes = map (\<lambda>r. (route_pattern r, tr_topic r)) routes, tp_default_topic = default_topic, tp_cache = hm_empty\<rparr>)"

definition topic_has_placeholders :: "string \<Rightarrow> bool" where
  "topic_has_placeholders topic \<longleftrightarrow> contains_text ''${table}'' topic \<or> contains_text ''${database}'' topic"

definition render_topic :: "string \<Rightarrow> string \<Rightarrow> string + string" where
  "render_topic topic identifier =
     (case (case rsplit_once ''.'' identifier of Some dt \<Rightarrow> dt | None \<Rightarrow> ([], identifier)) of (database, table) \<Rightarrow>
        if topic_has_placeholders topic \<and> (database = [] \<or> table = [])
        then Inl (''origin does not carry both parts: '' @ identifier)
        else Inr (replace_text ''${table}'' table (replace_text ''${database}'' database topic)))"

fun route_topics :: "regex_engine \<Rightarrow> string \<Rightarrow> (string \<times> string) list \<Rightarrow> string list \<Rightarrow> string + string list" where
  "route_topics rx identifier [] topics = Inr topics"
| "route_topics rx identifier ((regex, topic) # routes) topics =
     (if rx_match rx regex identifier then
        (case render_topic topic identifier of
           Inl e \<Rightarrow> Inl e
         | Inr t \<Rightarrow> route_topics rx identifier routes (if t \<in> set topics then topics else topics @ [t]))
      else route_topics rx identifier routes topics)"

definition default_topics :: "topic_router \<Rightarrow> string option \<Rightarrow> string + string list" where
  "default_topics tr origin =
     (if \<not> topic_has_placeholders (tp_default_topic tr) then Inr [tp_default_topic tr]
      else case origin of
             Some identifier \<Rightarrow> map_sum id (\<lambda>t. [t]) (render_topic (tp_default_topic tr) identifier)
           | None \<Rightarrow> Inl ''topic contains placeholders but the row has no origin table'')"

definition resolve_uncached :: "regex_engine \<Rightarrow> topic_router \<Rightarrow> string option \<Rightarrow> string + string list" where
  "resolve_uncached rx tr origin =
     (case origin of
        None \<Rightarrow> default_topics tr origin
      | Some identifier \<Rightarrow>
          (case route_topics rx identifier (tp_routes tr) [] of
             Inl e \<Rightarrow> Inl e
           | Inr topics \<Rightarrow> if topics \<noteq> [] then Inr topics else default_topics tr origin))"

definition resolve_all :: "regex_engine \<Rightarrow> string option \<Rightarrow> topic_router \<Rightarrow> (string + string list) \<times> topic_router" where
  "resolve_all rx origin tr =
     (case origin of
        None \<Rightarrow> (resolve_uncached rx tr origin, tr)
      | Some identifier \<Rightarrow>
          (case hm_get (tp_cache tr) identifier of
             Some cached \<Rightarrow> (Inr cached, tr)
           | None \<Rightarrow>
               (case resolve_uncached rx tr origin of
                  Inl e \<Rightarrow> (Inl e, tr)
                | Inr ts \<Rightarrow> (Inr ts, tr\<lparr>tp_cache := hm_insert identifier ts (tp_cache tr)\<rparr>))))"

section \<open>Keys and payloads\<close>

definition base64_table :: string where
  "base64_table = ''ABCDEFGHIJKLMNOPQRSTUVWXYZabcdefghijklmnopqrstuvwxyz0123456789+/''"

definition sextet :: "nat \<Rightarrow> nat \<Rightarrow> char" where
  "sextet triple shift = base64_table ! (triple div 2 ^ shift mod 64)"

fun base64_encode :: "8 word list \<Rightarrow> string" where
  "base64_encode [] = []"
| "base64_encode [a] = (let t = unat a * 65536 in [sextet t 18, sextet t 12, CHR ''='', CHR ''=''])"
| "base64_encode [a, b] = (let t = unat a * 65536 + unat b * 256 in [sextet t 18, sextet t 12, sextet t 6, CHR ''=''])"
| "base64_encode (a # b # c # rest) =
     (let t = unat a * 65536 + unat b * 256 + unat c in [sextet t 18, sextet t 12, sextet t 6, sextet t 0] @ base64_encode rest)"

fun field_to_json_value :: "format_env \<Rightarrow> field \<Rightarrow> json" where
  "field_to_json_value env FNull = JNull"
| "field_to_json_value env (FBool v) = JBool v"
| "field_to_json_value env (FInt8 v) = JInt (sint v)"
| "field_to_json_value env (FInt16 v) = JInt (sint v)"
| "field_to_json_value env (FInt32 v) = JInt (sint v)"
| "field_to_json_value env (FInt64 v) = JInt (sint v)"
| "field_to_json_value env (FUInt8 v) = JInt (uint v)"
| "field_to_json_value env (FUInt16 v) = JInt (uint v)"
| "field_to_json_value env (FUInt32 v) = JInt (uint v)"
| "field_to_json_value env (FUInt64 v) = JInt (uint v)"
| "field_to_json_value env (FFloat32 v) = unwrap_or (JInt 0) (float_num (fe_codec env) (ce_widen (fe_canal env) v))"
| "field_to_json_value env (FFloat64 v) = unwrap_or (JInt 0) (float_num (fe_codec env) v)"
| "field_to_json_value env (FString v) = JString v"
| "field_to_json_value env (FBytes v) = JString (base64_encode v)"
| "field_to_json_value env (FJson v) = v"
| "field_to_json_value env (FDuration v) = JInt (sint v)"
| "field_to_json_value env (FArray v) = JArray (map (field_to_json_value env) v)"
| "field_to_json_value env (FRow v) =
     JObject (fold (\<lambda>(i, j). bt_insert (show_nat i) j) (enumerate 0 (map (field_to_json_value env) v)) [])"
| "field_to_json_value env f = JString (display_field (fe_texts env) f)"

definition row_to_json_string :: "format_env \<Rightarrow> row \<Rightarrow> string" where
  "row_to_json_string env r = of_utf8 (to_vec (fe_codec env) (JArray (map (field_to_json_value env) (row_fields r))))"

definition kafka_encode_row :: "format_env \<Rightarrow> message_format \<Rightarrow> string \<Rightarrow> row \<Rightarrow> string" where
  "kafka_encode_row env fmt delimiter r =
     (if fmt = Fmt_Text then join_with delimiter (map (plain_text (fe_texts env)) (row_fields r))
      else row_to_json_string env r)"

definition key_part :: "format_env \<Rightarrow> row \<Rightarrow> string \<Rightarrow> string" where
  "key_part env r selector =
     (let ordinal = (case strip_prefix ''#'' selector of Some n \<Rightarrow> Some n | None \<Rightarrow> strip_prefix ''f'' selector);
          field = Option.bind (Option.bind ordinal parse_u64) (row_get r)
      in case field of None \<Rightarrow> [] | Some f \<Rightarrow> plain_text (fe_texts env) f)"

definition kafka_row_key :: "format_env \<Rightarrow> string list \<Rightarrow> row \<Rightarrow> string option" where
  "kafka_row_key env key_fields r =
     (if key_fields = [] then None else Some (join_with ''_'' (map (key_part env r) key_fields)))"

section \<open>Options\<close>

datatype kafka_semantics = Non | At_Least_Once | Exactly_Once

definition parse_semantics :: "string \<Rightarrow> kafka_semantics" where
  "parse_semantics s =
     (let t = filter (\<lambda>c. c \<noteq> CHR ''-'' \<and> c \<noteq> CHR ''_'') (map to_lower s) in
      if t = ''atleastonce'' \<or> t = ''atleasonce'' then At_Least_Once
      else if t = ''exactlyonce'' then Exactly_Once
      else Non)"

record kafka_sink_config =
  sk_bootstrap_servers :: string
  sk_topic :: string
  sk_format :: message_format
  sk_acks :: string
  sk_batch_size :: nat
  sk_batch_timeout_ms :: nat
  sk_transactions_enabled :: bool
  sk_transactional_id :: "string option"
  sk_context_pipeline :: string
  sk_context_subtask :: nat
  sk_message_timeout_ms :: nat
  sk_partition_key_fields :: "string list"
  sk_canal_client :: "canal_config option"
  sk_field_delimiter :: string
  sk_topic_routes :: "topic_route list"
  sk_producer_props :: "(string \<times> string) list"

text \<open>The JSON options, with the \<open>serde\<close> readers as parameters; unreadable routes are ignored.\<close>

record sink_readers =
  sr_tables :: "string \<Rightarrow> (string, table_fields) hashmap option"
  sr_routes :: "string \<Rightarrow> topic_route list option"

definition string2 :: "connector_config \<Rightarrow> string \<Rightarrow> string \<Rightarrow> string \<Rightarrow> string" where
  "string2 config key other dflt = get_string config key (get_string config other dflt)"

definition parse_topic_routes :: "sink_readers \<Rightarrow> connector_config \<Rightarrow> topic_route list" where
  "parse_topic_routes sr config =
     (let raw = string2 config ''topic-routes'' ''topic_routes'' [] in
      if trim raw = [] then [] else unwrap_or [] (sr_routes sr raw))"

definition canal_options :: "sink_readers \<Rightarrow> connector_config \<Rightarrow> canal_config" where
  "canal_options sr config =
     \<lparr>cf_database_name = string2 config ''canal-client.database-name'' ''database-name'' [],
      cf_table_name = string2 config ''canal-client.table-name'' ''table-name'' [],
      cf_columns = split_list (string2 config ''canal-client.columns'' ''columns'' []),
      cf_tables = unwrap_or hm_empty (sr_tables sr (string2 config ''canal-client.sub-table-fields'' ''canal-client.sub_table_fields'' ''{}'')),
      cf_server_time_zone = get_string config ''canal-client.server-time-zone'' (string2 config ''server-time-zone'' ''server_time_zone'' ''local''),
      cf_pairing_window_ms =
        nat (max (get_int config ''canal-client.pairing-window-ms'' (get_int config ''canal-client.pairing_window_ms'' 100)) 0)\<rparr>"

definition sink_from_config :: "sink_readers \<Rightarrow> connector_config \<Rightarrow> kafka_sink_config" where
  "sink_from_config sr config =
     (let tx_enabled = get_bool config ''transactions.enabled'' (parse_semantics (get_string config ''semantics'' []) = Exactly_Once) in
      \<lparr>sk_bootstrap_servers = get_string config ''bootstrap.servers'' ''localhost:9092'',
       sk_topic = get_string config ''topic'' ''seatunnel-sink'',
       sk_format = unwrap_or Fmt_Json (Option.bind (hm_get config ''format'') format_from_str),
       sk_acks = get_string config ''acks'' ''all'',
       sk_batch_size = nat (max (get_int config ''batch.size'' 1000) 1),
       sk_batch_timeout_ms = nat (max (get_int config ''batch.timeout.ms'' (get_int config ''linger.ms'' 100)) 0),
       sk_transactions_enabled = tx_enabled,
       sk_transactional_id = or_else (hm_get config ''transactional.id'')
         (if tx_enabled then Some (''seatunnel-'' @ get_string config ''job.id'' ''local'') else None),
       sk_context_pipeline = get_string config ''pipeline.name'' ''p0'',
       sk_context_subtask = nat (max (get_int config ''subtask.index'' 0) 0),
       sk_message_timeout_ms = nat (get_int config ''message.timeout.ms'' 30000 mod 2 ^ 64),
       sk_partition_key_fields = split_list (string2 config ''partition-key-fields'' ''partition_key_fields'' []),
       sk_canal_client = (if same_text (get_string config ''format'' []) ''canal_client_json'' then Some (canal_options sr config) else None),
       sk_field_delimiter = string2 config ''field.delimiter'' ''field_delimiter'' '','',
       sk_topic_routes = parse_topic_routes sr config,
       sk_producer_props = sort (List.map_filter (\<lambda>(k, v). map_option (\<lambda>n. (n, v)) (strip_prefix ''producer.'' k)) config)\<rparr>)"

section \<open>Deliveries\<close>

record delivery =
  dl_id :: nat
  dl_topic :: string
  dl_key :: string
  dl_payload :: string

datatype producer_call = Create | Init_Transactions | Begin_Transaction | Commit_Transaction | Abort_Transaction

record kafka_env =
  kv_formats :: format_env
  kv_regex :: regex_engine
  kv_outcome :: "nat \<Rightarrow> string + unit"
  kv_ready :: "nat \<Rightarrow> nat \<Rightarrow> bool"
  kv_call :: "nat \<Rightarrow> string option"
  kv_uuid :: "nat \<Rightarrow> string"

text \<open>The counters are totals; their sliding window is not modelled.\<close>

record kafka_metrics =
  mt_sent :: nat
  mt_delivered :: nat
  mt_failed :: nat
  mt_last_error :: "string option"

definition IN_FLIGHT_LIMIT :: nat where
  "IN_FLIGHT_LIMIT = 8192"

definition delivery_failed :: "kafka_env \<Rightarrow> delivery \<Rightarrow> bool" where
  "delivery_failed env d \<longleftrightarrow> kv_outcome env (dl_id d) \<noteq> Inr ()"

definition delivery_detail :: "kafka_env \<Rightarrow> delivery \<Rightarrow> string" where
  "delivery_detail env d =
     (case kv_outcome env (dl_id d) of Inl e \<Rightarrow> e @ '' (topic='' @ dl_topic d @ '', key='' @ dl_key d @ '')'' | Inr _ \<Rightarrow> [])"

definition record_deliveries :: "kafka_env \<Rightarrow> delivery list \<Rightarrow> kafka_metrics \<Rightarrow> kafka_metrics" where
  "record_deliveries env ds m =
     (let failures = filter (delivery_failed env) ds in
      m\<lparr>mt_delivered := mt_delivered m + (length ds - length failures), mt_failed := mt_failed m + length failures,
        mt_last_error := (case failures of [] \<Rightarrow> mt_last_error m | d # _ \<Rightarrow> Some (delivery_detail env d))\<rparr>)"

text \<open>Awaiting the oldest \<open>n\<close> deliveries: those that failed, the first three errors, and what is left.\<close>

definition reap :: "kafka_env \<Rightarrow> nat \<Rightarrow> delivery list \<Rightarrow> kafka_metrics \<Rightarrow> nat \<times> string list \<times> delivery list \<times> kafka_metrics" where
  "reap env n ds m =
     (let failures = filter (delivery_failed env) (take n ds) in
      (length failures, take 3 (map (delivery_detail env) failures), drop n ds, record_deliveries env (take n ds) m))"

definition reap_completed :: "kafka_env \<Rightarrow> nat \<Rightarrow> delivery list \<Rightarrow> kafka_metrics \<Rightarrow> delivery list \<times> kafka_metrics" where
  "reap_completed env look ds m =
     (filter (\<lambda>d. \<not> kv_ready env look (dl_id d)) ds, record_deliveries env (filter (\<lambda>d. kv_ready env look (dl_id d)) ds) m)"

definition failed_error :: "nat \<Rightarrow> string list \<Rightarrow> string" where
  "failed_error n errors = ''failed to deliver '' @ show_nat n @ '' record(s): '' @ join_with '' | '' errors"

definition reap_to_limit :: "kafka_env \<Rightarrow> delivery list \<Rightarrow> kafka_metrics \<Rightarrow> (string + unit) \<times> delivery list \<times> kafka_metrics" where
  "reap_to_limit env ds m =
     (if length ds < IN_FLIGHT_LIMIT then (Inr (), ds, m)
      else case reap env (length ds - IN_FLIGHT_LIMIT + 1) ds m of
             (n, errors, rest, m1) \<Rightarrow> (if n > 0 then Inl (failed_error n errors) else Inr (), rest, m1))"

definition drain :: "kafka_env \<Rightarrow> delivery list \<Rightarrow> kafka_metrics \<Rightarrow> (string + nat) \<times> delivery list \<times> kafka_metrics" where
  "drain env ds m =
     (if ds = [] then (Inr 0, [], m)
      else case reap env (length ds) ds m of
             (n, errors, rest, m1) \<Rightarrow> (if n > 0 then Inl (failed_error n errors) else Inr (length ds), rest, m1))"

section \<open>The writer\<close>

record kafka_writer =
  kw_config :: kafka_sink_config
  kw_batch :: "row list"
  kw_total_written :: nat
  kw_producer :: bool
  kw_last_flush :: nat
  kw_canal_encoder :: "canal_encoder option"
  kw_router :: topic_router
  kw_in_flight :: "delivery list"
  kw_metrics :: kafka_metrics
  kw_txn_base :: "string option"
  kw_txn_open :: bool
  kw_txn_messages :: nat
  kw_last_committed :: nat
  kw_sent :: "delivery list"
  kw_calls :: "producer_call list"
  kw_looks :: nat
  kw_uuids :: nat

definition writer_new :: "kafka_env \<Rightarrow> nat \<Rightarrow> kafka_sink_config \<Rightarrow> string + kafka_writer" where
  "writer_new env now c =
     (case router_new (kv_regex env) (sk_topic c) (sk_topic_routes c) of Inl e \<Rightarrow> Inl e | Inr router \<Rightarrow>
      case (case sk_canal_client c of
              None \<Rightarrow> Inr None
            | Some canal \<Rightarrow>
                if cf_columns canal \<noteq> [] then
                  (case encoder_new (fe_canal (kv_formats env)) canal of
                     Inl e \<Rightarrow> Inl (''canal-client format config: '' @ e) | Inr enc \<Rightarrow> Inr (Some enc))
                else Inr (Some (encoder_new_auto (fe_canal (kv_formats env)) canal))) of
        Inl e \<Rightarrow> Inl e
      | Inr encoder \<Rightarrow>
          Inr \<lparr>kw_config = c, kw_batch = [], kw_total_written = 0, kw_producer = False, kw_last_flush = now,
               kw_canal_encoder = encoder, kw_router = router, kw_in_flight = [],
               kw_metrics = \<lparr>mt_sent = 0, mt_delivered = 0, mt_failed = 0, mt_last_error = None\<rparr>,
               kw_txn_base =
                 (if sk_transactions_enabled c
                  then Some (unwrap_or ''seatunnel-local'' (sk_transactional_id c) @ ''-'' @ sk_context_pipeline c @ ''-''
                         @ show_nat (sk_context_subtask c))
                  else None),
               kw_txn_open = False, kw_txn_messages = 0, kw_last_committed = 0, kw_sent = [], kw_calls = [], kw_looks = 0, kw_uuids = 0\<rparr>)"

definition register_canal_schema :: "table_schema \<Rightarrow> kafka_writer \<Rightarrow> (string + unit) \<times> kafka_writer" where
  "register_canal_schema schema w =
     (case kw_canal_encoder w of
        None \<Rightarrow> (Inr (), w)
      | Some enc \<Rightarrow>
          if ec_explicit enc then (Inr (), w)
          else case register_schema schema enc of
                 (Inl e, enc1) \<Rightarrow> (Inl (''canal-client auto mapping: '' @ e), w\<lparr>kw_canal_encoder := Some enc1\<rparr>)
               | (Inr _, enc1) \<Rightarrow> (Inr (), w\<lparr>kw_canal_encoder := Some enc1\<rparr>))"

text \<open>A transactional call of the producer.\<close>

definition call_producer :: "kafka_env \<Rightarrow> producer_call \<Rightarrow> kafka_writer \<Rightarrow> string option \<times> kafka_writer" where
  "call_producer env c w = (kv_call env (length (kw_calls w)), w\<lparr>kw_calls := kw_calls w @ [c]\<rparr>)"

definition ensure_producer :: "kafka_env \<Rightarrow> kafka_writer \<Rightarrow> (string + unit) \<times> kafka_writer" where
  "ensure_producer env w =
     (if kw_producer w then (Inr (), w)
      else
        case call_producer env Create w of
          (Some e, w1) \<Rightarrow> (Inl (''Failed to create Kafka producer: '' @ e), w1)
        | (None, w1) \<Rightarrow>
            if kw_txn_base w = None then (Inr (), w1\<lparr>kw_producer := True\<rparr>)
            else case call_producer env Init_Transactions w1 of
                   (Some e, w2) \<Rightarrow> (Inl (''init_transactions failed: '' @ e), w2)
                 | (None, w2) \<Rightarrow> (Inr (), w2\<lparr>kw_producer := True\<rparr>))"

definition push_delivery :: "string \<Rightarrow> string \<Rightarrow> string \<Rightarrow> kafka_writer \<Rightarrow> kafka_writer" where
  "push_delivery key payload topic w =
     (let d = \<lparr>dl_id = length (kw_sent w), dl_topic = topic, dl_key = key, dl_payload = payload\<rparr> in
      w\<lparr>kw_in_flight := kw_in_flight w @ [d], kw_sent := kw_sent w @ [d]\<rparr>)"

definition fanout_delivery ::
    "kafka_env \<Rightarrow> string option \<Rightarrow> string \<Rightarrow> string \<Rightarrow> kafka_writer \<Rightarrow> (string + nat) \<times> kafka_writer" where
  "fanout_delivery env origin key payload w =
     (case resolve_all (kv_regex env) origin (kw_router w) of
        (Inl e, tr) \<Rightarrow> (Inl (''topic routing: '' @ e), w\<lparr>kw_router := tr\<rparr>)
      | (Inr topics, tr) \<Rightarrow> (Inr (length topics), fold (push_delivery key payload) topics (w\<lparr>kw_router := tr\<rparr>)))"

fun fanout_messages :: "kafka_env \<Rightarrow> (string option \<times> string \<times> string) list \<Rightarrow> nat \<Rightarrow> kafka_writer \<Rightarrow> (string + nat) \<times> kafka_writer" where
  "fanout_messages env [] sent w = (Inr sent, w)"
| "fanout_messages env ((origin, key, payload) # ms) sent w =
     (case fanout_delivery env origin key payload w of
        (Inl e, w1) \<Rightarrow> (Inl e, w1)
      | (Inr n, w1) \<Rightarrow> fanout_messages env ms (sent + n) w1)"

definition canal_text :: "kafka_env \<Rightarrow> canal_message \<Rightarrow> string option \<times> string \<times> string" where
  "canal_text env m = (Some (mg_table m), mg_key m, of_utf8 (to_vec (fe_codec (kv_formats env)) (mg_payload m)))"

definition row_text :: "kafka_env \<Rightarrow> kafka_sink_config \<Rightarrow> row \<Rightarrow> string option \<times> string \<times> string" where
  "row_text env c r =
     (row_origin r, unwrap_or [] (kafka_row_key (kv_formats env) (sk_partition_key_fields c) r),
      kafka_encode_row (kv_formats env) (sk_format c) (sk_field_delimiter c) r)"

text \<open>The rows of a batch through the pairing encoder, each row with its own id.\<close>

fun canal_records :: "kafka_env \<Rightarrow> nat \<Rightarrow> row list \<Rightarrow> nat \<Rightarrow> canal_encoder \<Rightarrow> kafka_writer \<Rightarrow> (string + nat) \<times> canal_encoder \<times> kafka_writer" where
  "canal_records env now [] sent enc w = (Inr sent, enc, w)"
| "canal_records env now (r # rs) sent enc w =
     (case encode_row (fe_canal (kv_formats env)) now (kv_uuid env (kw_uuids w)) r enc of
        (Inl e, enc1) \<Rightarrow> (Inl (''canal-client encode: '' @ e), enc1, w)
      | (Inr ms, enc1) \<Rightarrow>
          (case fanout_messages env (map (canal_text env) ms) sent (w\<lparr>kw_uuids := kw_uuids w + 1\<rparr>) of
             (Inl e, w1) \<Rightarrow> (Inl e, enc1, w1)
           | (Inr sent1, w1) \<Rightarrow> canal_records env now rs sent1 enc1 w1))"

definition after_flush :: "kafka_env \<Rightarrow> nat \<Rightarrow> kafka_writer \<Rightarrow> (string + nat) \<times> kafka_writer" where
  "after_flush env sent w =
     (let m0 = (kw_metrics w)\<lparr>mt_sent := mt_sent (kw_metrics w) + sent\<rparr> in
      case reap_completed env (kw_looks w) (kw_in_flight w) m0 of (ds, m) \<Rightarrow>
      case reap_to_limit env ds m of (res, ds1, m1) \<Rightarrow>
        (case res of Inl e \<Rightarrow> Inl e | Inr _ \<Rightarrow> Inr sent,
         w\<lparr>kw_total_written := kw_total_written w + sent, kw_txn_messages := kw_txn_messages w + sent, kw_in_flight := ds1,
           kw_metrics := m1, kw_looks := kw_looks w + 1\<rparr>))"

definition flush_canal :: "kafka_env \<Rightarrow> nat \<Rightarrow> row list \<Rightarrow> canal_encoder \<Rightarrow> kafka_writer \<Rightarrow> (string + nat) \<times> kafka_writer" where
  "flush_canal env now records enc w =
     (if ec_tables enc = [] \<and> records \<noteq> [] then (Inl ''canal-client automatic column mapping: rows arrived before any schema'', w)
      else
        case canal_records env now records 0 enc w of
          (Inl e, enc1, w1) \<Rightarrow> (Inl e, w1\<lparr>kw_canal_encoder := Some enc1\<rparr>)
        | (Inr sent, enc1, w1) \<Rightarrow>
            (case expire_pending now (\<lambda>i. kv_uuid env (kw_uuids w1 + i)) enc1 of (ms, enc2) \<Rightarrow>
             case fanout_messages env (map (canal_text env) ms) sent
                    (w1\<lparr>kw_canal_encoder := Some enc2, kw_uuids := kw_uuids w1 + length (ec_tables enc1)\<rparr>) of
               (Inl e, w2) \<Rightarrow> (Inl e, w2)
             | (Inr sent1, w2) \<Rightarrow> after_flush env sent1 w2))"

definition kafka_flush_batch :: "kafka_env \<Rightarrow> nat \<Rightarrow> kafka_writer \<Rightarrow> (string + nat) \<times> kafka_writer" where
  "kafka_flush_batch env now w =
     (case ensure_producer env (w\<lparr>kw_last_flush := now\<rparr>) of
        (Inl e, w1) \<Rightarrow> (Inl e, w1)
      | (Inr _, w1) \<Rightarrow>
          let records = kw_batch w1; w2 = w1\<lparr>kw_batch := []\<rparr> in
          case kw_canal_encoder w2 of
            Some enc \<Rightarrow> flush_canal env now records enc w2
          | None \<Rightarrow>
              if records = [] then (Inr 0, w2)
              else case fanout_messages env (map (row_text env (kw_config w2)) records) 0 w2 of
                     (Inl e, w3) \<Rightarrow> (Inl e, w3)
                   | (Inr sent, w3) \<Rightarrow> after_flush env sent w3)"

section \<open>The sink writer interface\<close>

definition kafka_open :: "kafka_env \<Rightarrow> kafka_writer \<Rightarrow> (string + unit) \<times> kafka_writer" where
  "kafka_open env w =
     (case ensure_producer env w of
        (Inl e, w1) \<Rightarrow> (Inl e, w1)
      | (Inr _, w1) \<Rightarrow>
          if kw_txn_base w1 = None then (Inr (), w1)
          else case call_producer env Begin_Transaction w1 of
                 (Some e, w2) \<Rightarrow> (Inl (''begin_transaction failed: '' @ e), w2)
               | (None, w2) \<Rightarrow> (Inr (), w2\<lparr>kw_txn_open := True\<rparr>))"

definition unit_result :: "(string + nat) \<times> kafka_writer \<Rightarrow> (string + unit) \<times> kafka_writer" where
  "unit_result r = (map_sum id (\<lambda>_. ()) (fst r), snd r)"

definition kafka_write :: "kafka_env \<Rightarrow> nat \<Rightarrow> row \<Rightarrow> kafka_writer \<Rightarrow> (string + unit) \<times> kafka_writer" where
  "kafka_write env now r w =
     (let w1 = w\<lparr>kw_batch := kw_batch w @ [r]\<rparr>;
          full = sk_batch_size (kw_config w) \<le> length (kw_batch w1);
          linger_due = sk_batch_timeout_ms (kw_config w) \<le> now - kw_last_flush w;
          pairing_wait = (case kw_canal_encoder w of None \<Rightarrow> False | Some enc \<Rightarrow> has_pending enc)
      in if full \<or> linger_due \<or> pairing_wait then unit_result (kafka_flush_batch env now w1) else (Inr (), w1))"

definition kafka_schema_change :: "schema_change_event \<Rightarrow> kafka_writer \<Rightarrow> (string + unit) \<times> kafka_writer" where
  "kafka_schema_change ev w =
     (if sk_canal_client (kw_config w) = None then (Inr (), w)
      else case sce_initial_schema ev of Some schema \<Rightarrow> register_canal_schema schema w | None \<Rightarrow> (Inr (), w))"

record kafka_commit_info =
  ki_transaction_id :: string
  ki_checkpoint_id :: nat
  ki_messages_count :: nat

definition commit_window :: "kafka_env \<Rightarrow> nat \<Rightarrow> kafka_commit_info \<Rightarrow> kafka_writer \<Rightarrow> (string + kafka_commit_info list) \<times> kafka_writer" where
  "commit_window env cp info w =
     (if \<not> kw_producer w then (Inl ''kafka producer unavailable'', w)
      else case call_producer env Commit_Transaction w of
             (Some e, w1) \<Rightarrow> (Inl (''commit_transaction failed: '' @ e), snd (call_producer env Abort_Transaction w1))
           | (None, w1) \<Rightarrow>
               (case call_producer env Begin_Transaction
                       (w1\<lparr>kw_txn_open := False, kw_txn_messages := 0, kw_last_committed := cp\<rparr>) of
                  (Some e, w2) \<Rightarrow> (Inl (''begin_transaction failed: '' @ e), w2)
                | (None, w2) \<Rightarrow> (Inr [info\<lparr>ki_messages_count := kw_txn_messages w1\<rparr>], w2\<lparr>kw_txn_open := True\<rparr>)))"

definition kafka_prepare_commit :: "kafka_env \<Rightarrow> nat \<Rightarrow> nat \<Rightarrow> kafka_writer \<Rightarrow> (string + kafka_commit_info list) \<times> kafka_writer" where
  "kafka_prepare_commit env now cp w =
     (case kafka_flush_batch env now w of
        (Inl e, w1) \<Rightarrow> (Inl e, w1)
      | (Inr delivered, w1) \<Rightarrow>
          (case drain env (kw_in_flight w1) (kw_metrics w1) of (res, ds, m) \<Rightarrow>
             let w2 = w1\<lparr>kw_in_flight := ds, kw_metrics := m\<rparr>;
                 info = \<lparr>ki_transaction_id = unwrap_or (''non-txn-'' @ sk_topic (kw_config w2)) (kw_txn_base w2),
                         ki_checkpoint_id = cp, ki_messages_count = delivered\<rparr>
             in case res of
                  Inl e \<Rightarrow> (Inl e, w2)
                | Inr _ \<Rightarrow> if kw_txn_base w2 = None then (Inr [info], w2) else commit_window env cp info w2))"

record kafka_writer_state =
  kws_total_written :: nat
  kws_pending :: nat
  kws_transactional_base :: "string option"
  kws_last_committed :: nat

definition kafka_snapshot_state :: "kafka_writer \<Rightarrow> kafka_writer_state" where
  "kafka_snapshot_state w =
     \<lparr>kws_total_written = kw_total_written w, kws_pending = length (kw_batch w), kws_transactional_base = kw_txn_base w,
      kws_last_committed = kw_last_committed w\<rparr>"

definition kafka_restore_state :: "kafka_writer_state \<Rightarrow> kafka_writer \<Rightarrow> kafka_writer" where
  "kafka_restore_state st w = w\<lparr>kw_total_written := kws_total_written st, kw_last_committed := kws_last_committed st\<rparr>"

definition kafka_poll_flush :: "kafka_env \<Rightarrow> nat \<Rightarrow> kafka_writer \<Rightarrow> (string + unit) \<times> kafka_writer" where
  "kafka_poll_flush env now w =
     (let linger_due = (kw_batch w \<noteq> [] \<and> sk_batch_timeout_ms (kw_config w) \<le> now - kw_last_flush w);
          pairing_due = (case kw_canal_encoder w of None \<Rightarrow> False | Some enc \<Rightarrow> has_expired_pending now enc)
      in if linger_due \<or> pairing_due then unit_result (kafka_flush_batch env now w) else (Inr (), w))"

text \<open>The messages of held rows are sent one by one; a routing error is logged and the next one is tried.\<close>

fun fanout_each :: "kafka_env \<Rightarrow> (string option \<times> string \<times> string) list \<Rightarrow> kafka_writer \<Rightarrow> kafka_writer" where
  "fanout_each env [] w = w"
| "fanout_each env ((origin, key, payload) # ms) w = fanout_each env ms (snd (fanout_delivery env origin key payload w))"

definition close_canal :: "kafka_env \<Rightarrow> kafka_writer \<Rightarrow> kafka_writer" where
  "close_canal env w =
     (case kw_canal_encoder w of
        None \<Rightarrow> w
      | Some enc \<Rightarrow>
          if \<not> kw_producer w then w
          else case encoder_flush (\<lambda>i. kv_uuid env (kw_uuids w + i)) enc of
                 (ms, enc1) \<Rightarrow> fanout_each env (map (canal_text env) ms)
                   (w\<lparr>kw_canal_encoder := Some enc1, kw_uuids := kw_uuids w + length (ec_tables enc)\<rparr>))"

definition close_window :: "kafka_env \<Rightarrow> kafka_writer \<Rightarrow> kafka_writer" where
  "close_window env w =
     (if \<not> kw_txn_open w \<or> \<not> kw_producer w then w
      else case call_producer env Commit_Transaction w of
             (None, w1) \<Rightarrow> w1\<lparr>kw_txn_open := False, kw_txn_messages := 0\<rparr>
           | (Some _, w1) \<Rightarrow> snd (call_producer env Abort_Transaction w1))"

definition kafka_close :: "kafka_env \<Rightarrow> nat \<Rightarrow> kafka_writer \<Rightarrow> (string + unit) \<times> kafka_writer" where
  "kafka_close env now w =
     (case (if kw_batch w = [] then (Inr (), w) else unit_result (kafka_flush_batch env now w)) of
        (Inl e, w1) \<Rightarrow> (Inl e, w1)
      | (Inr _, w1) \<Rightarrow>
          let w2 = close_canal env w1 in
          case drain env (kw_in_flight w2) (kw_metrics w2) of
            (_, ds, m) \<Rightarrow> (Inr (), close_window env (w2\<lparr>kw_in_flight := ds, kw_metrics := m\<rparr>)))"

section \<open>The committer\<close>

definition kafka_commit :: "kafka_commit_info list \<Rightarrow> kafka_commit_info list \<Rightarrow> (int \<times> nat) \<times> kafka_commit_info list" where
  "kafka_commit infos completed =
     ((if infos = [] then - 1 else u64_as_i64 (Max (set (map ki_checkpoint_id infos))), sum_list (map ki_messages_count infos)),
      completed @ infos)"

definition kafka_abort :: "kafka_commit_info list \<Rightarrow> kafka_commit_info list \<Rightarrow> kafka_commit_info list" where
  "kafka_abort infos completed = completed"

end
