(* ===== verification/Kafka_Runs.thy ===== *)
theory Kafka_Runs
  imports Kafka_Sink "HOL-Library.Sublist" "HOL-Library.Multiset"
begin

text \<open>
  What the Kafka connector guarantees: the source resumes where its checkpoint left off, and a successful checkpoint of
  the sink covers the rows written. Also what it does not: rows that wait in the reader, offsets of quiet partitions
  and refused messages are lost.
\<close>

section \<open>Runs of the reader\<close>

fun message_of :: "recv_result \<Rightarrow> kafka_message list" where
  "message_of (Recv_Message m) = [m]"
| "message_of _ = []"

definition message_rows :: "format_env \<Rightarrow> kafka_reader \<Rightarrow> kafka_message \<Rightarrow> row list" where
  "message_rows env r m = (case km_payload m of None \<Rightarrow> [] | Some p \<Rightarrow> decode_payload env r p)"

text \<open>A sequence of polls, each with what \<open>recv\<close> would return: the rows, the messages that were taken, the reader.\<close>

fun poll_run :: "format_env \<Rightarrow> recv_result list \<Rightarrow> kafka_reader \<Rightarrow> row list \<times> kafka_message list \<times> kafka_reader" where
  "poll_run env [] r = ([], [], r)"
| "poll_run env (x # xs) r =
     (case poll_next env x r of (row, r1) \<Rightarrow>
      case poll_run env xs r1 of (rows, ms, r2) \<Rightarrow>
        ((case row of None \<Rightarrow> rows | Some w \<Rightarrow> w # rows), (if needs_recv r then message_of x else []) @ ms, r2))"

lemma message_rows_cong:
  assumes "kr_schema r = kr_schema r'" "kr_config r = kr_config r'"
  shows "message_rows env r = message_rows env r'"
  unfolding message_rows_def decode_payload_def assms ..

lemma poll_next_frame:
  assumes "poll_next env x r = (row, r1)"
  shows "kr_schema r1 = kr_schema r" "kr_config r1 = kr_config r" "kr_consumer r1 = kr_consumer r"
  using assms by (auto simp: poll_next_def pop_pending_def Let_def split: if_splits recv_result.splits list.splits)

lemma poll_next_rows:
  assumes "poll_next env x r = (row, r1)"
  shows "kr_pending r @ concat (map (message_rows env r) (if needs_recv r then message_of x else [])) =
    (case row of None \<Rightarrow> [] | Some w \<Rightarrow> [w]) @ kr_pending r1"
  using assms
  by (auto simp: poll_next_def pop_pending_def needs_recv_def message_rows_def Let_def split: if_splits recv_result.splits list.splits)

text \<open>The rows given out, then the rows still waiting, are the rows of the messages in the order they came.\<close>

lemma poll_run_rows:
  "poll_run env xs r = (rows, ms, r') \<Longrightarrow> kr_pending r @ concat (map (message_rows env r) ms) = rows @ kr_pending r'"
proof (induction xs arbitrary: r rows ms)
  case (Cons x xs)
  obtain row r1 where p: "poll_next env x r = (row, r1)" by fastforce
  obtain rows1 ms1 where q: "poll_run env xs r1 = (rows1, ms1, r')" using Cons.prems p by (cases "poll_run env xs r1") auto
  have f: "message_rows env r1 = message_rows env r"
    using poll_next_frame [OF p] by (intro message_rows_cong) simp_all
  let ?c = "if needs_recv r then message_of x else []"
  have ms: "ms = ?c @ ms1" "rows = (case row of None \<Rightarrow> [] | Some w \<Rightarrow> [w]) @ rows1" using Cons.prems p q by (auto split: option.splits)
  have "kr_pending r @ concat (map (message_rows env r) ms) = (kr_pending r @ concat (map (message_rows env r) ?c)) @ concat (map (message_rows env r) ms1)"
    by (simp add: ms)
  also have "\<dots> = rows @ kr_pending r'" unfolding poll_next_rows [OF p] using Cons.IH [OF q] by (simp add: ms f)
  finally show ?case .
qed simp

lemma poll_next_offsets:
  assumes "poll_next env x r = (row, r1)"
  shows "hm_get (kr_last_offsets r1) k =
    (case filter (\<lambda>m. partition_key (km_topic m) (km_partition m) = k) (if needs_recv r then message_of x else []) of
       [] \<Rightarrow> hm_get (kr_last_offsets r) k | m # _ \<Rightarrow> Some (km_offset m))"
  using assms by (auto simp: poll_next_def pop_pending_def needs_recv_def hm_simps Let_def split: if_splits recv_result.splits list.splits)

lemma poll_run_offsets:
  "poll_run env xs r = (rows, ms, r') \<Longrightarrow>
   hm_get (kr_last_offsets r') k =
     (case filter (\<lambda>m. partition_key (km_topic m) (km_partition m) = k) ms of
        [] \<Rightarrow> hm_get (kr_last_offsets r) k | m # l \<Rightarrow> Some (km_offset (last (m # l))))"
proof (induction xs arbitrary: r rows ms)
  case (Cons x xs)
  obtain row r1 where p: "poll_next env x r = (row, r1)" by fastforce
  obtain rows1 ms1 where q: "poll_run env xs r1 = (rows1, ms1, r')" using Cons.prems p by (cases "poll_run env xs r1") auto
  have "length (if needs_recv r then message_of x else []) \<le> 1" by (cases x) auto
  then show ?case using Cons.IH [OF q] poll_next_offsets [OF p, of k] Cons.prems p q
    by (cases "if needs_recv r then message_of x else []") (auto split: list.splits if_splits)
qed simp

section \<open>What a broker delivers\<close>

definition from_offset :: "offset \<Rightarrow> kafka_message \<Rightarrow> bool" where
  "from_offset s m = (case s of At n \<Rightarrow> n \<le> km_offset m | _ \<Rightarrow> True)"

definition log_ok :: "string \<Rightarrow> (int \<Rightarrow> kafka_message list) \<Rightarrow> bool" where
  "log_ok topic log \<longleftrightarrow>
     (\<forall>p. sorted_wrt (<) (map km_offset (log p)) \<and> list_all (\<lambda>m. km_topic m = topic \<and> km_partition m = p) (log p))"

text \<open>
  An assigned partition is delivered in order, without gaps, from its start offset; only assigned partitions are
  delivered. Nothing is asked of a start at the end of the log or at an offset only the broker knows.
\<close>

definition known_start :: "offset \<Rightarrow> bool" where
  "known_start s \<longleftrightarrow> s \<noteq> End_Of_Log \<and> s \<noteq> Invalid"

definition of_partition :: "int \<Rightarrow> kafka_message list \<Rightarrow> kafka_message list" where
  "of_partition p ms = filter (\<lambda>m. km_partition m = p) ms"

definition delivers :: "string \<Rightarrow> (int \<Rightarrow> kafka_message list) \<Rightarrow> (int \<times> offset) list \<Rightarrow> kafka_message list \<Rightarrow> bool" where
  "delivers topic log tpl ms \<longleftrightarrow>
     list_all (\<lambda>m. km_topic m = topic \<and> km_partition m \<in> fst ` set tpl) ms \<and>
     list_all (\<lambda>(p, s). known_start s \<longrightarrow> prefix (of_partition p ms) (filter (from_offset s) (log p))) tpl"

lemma show_int_inj: "show_int m = show_int n \<longleftrightarrow> m = n"
proof -
  have neg: "show_int i = CHR ''-'' # show_nat j \<Longrightarrow> i < 0" for i j
    using show_nat_digits [of "CHR ''-''" "nat i"] by (auto simp: show_int_def split: if_splits)
  show ?thesis using neg [of m "nat (- n)"] neg [of n "nat (- m)"] by (auto simp: show_int_def split: if_splits)
qed

lemma partition_key_inj: "partition_key t p = partition_key t q \<longleftrightarrow> p = q"
  by (simp add: partition_key_def show_int_inj)

text \<open>Reading on after the last message of a prefix gives the rest of the log.\<close>

lemma prefix_resumes:
  assumes s: "sorted_wrt (<) (map km_offset l)" and p: "prefix (us @ [m]) (filter (from_offset s0) l)" and
    q: "prefix vs (filter (from_offset (At (km_offset m + 1))) l)"
  shows "prefix (us @ m # vs) (filter (from_offset s0) l)"
proof -
  let ?f = "filter (from_offset s0) l"
  obtain zs where z: "?f = us @ m # zs" using p by (auto simp: prefix_def)
  have so: "sorted_wrt (<) (map km_offset ?f)" using s sorted_wrt_filter [of "(<)"] by (simp add: sorted_wrt_map sorted_wrt_filter)
  have "filter (from_offset (At (km_offset m + 1))) ?f = zs"
  proof -
    have "\<forall>u\<in>set us. km_offset u < km_offset m" "\<forall>y\<in>set zs. km_offset m < km_offset y"
      using so by (auto simp: z sorted_wrt_append)
    then have "filter (from_offset (At (km_offset m + 1))) us = []" "filter (from_offset (At (km_offset m + 1))) zs = zs"
      by (auto simp: from_offset_def filter_empty_conv filter_id_conv)
    then show ?thesis by (simp add: z) (simp add: from_offset_def)
  qed
  moreover have "filter (from_offset (At (km_offset m + 1))) ?f = filter (from_offset (At (km_offset m + 1))) l"
  proof -
    have m: "from_offset s0 m" using arg_cong [OF z, of set] by (auto simp: set_eq_iff)
    show ?thesis using m by (auto simp: from_offset_def intro!: filter_cong split: offset.splits)
  qed
  ultimately have "prefix vs zs" using q by simp
  then show ?thesis by (simp add: z)
qed

lemma reader_open_fields:
  assumes "reader_open b r = Inr r1"
  obtains parts where "r1 = r\<lparr>kr_assigned := parts, kr_consumer :=
    Some (map (\<lambda>p. (p, start_offset b (kr_config r) p (hm_get (kr_restore_offsets r) (partition_key (kc_topic (kr_config r)) p)))) parts)\<rparr>"
  using assms by (auto simp: reader_open_def Let_def split: option.splits sum.splits)

definition first_open :: "kafka_broker \<Rightarrow> kafka_source_config \<Rightarrow> table_schema option \<Rightarrow> (string, int) hashmap \<Rightarrow> string + kafka_reader" where
  "first_open b c schema state = reader_open b (reader_restore state (reader_new c schema))"

lemma first_open_fields:
  assumes "first_open b c schema state = Inr r1"
  shows "kr_pending r1 = []" "kr_last_offsets r1 = []" "kr_config r1 = c" "kr_schema r1 = kr_schema (reader_new c schema)"
    "\<exists>parts. kr_consumer r1 = Some (map (\<lambda>p. (p, start_offset b c p (hm_get state (partition_key (kc_topic c) p)))) parts)"
  using assms unfolding first_open_def
  by (elim reader_open_fields; auto simp: reader_restore_def reader_new_def hm_empty_def)+

lemma delivered_partition:
  assumes "delivers topic log tpl ms" "(p, s) \<in> set tpl" "known_start s"
  shows "prefix (of_partition p ms) (filter (from_offset s) (log p))"
  using assms by (auto simp: delivers_def list_all_iff)

lemma of_partition_key:
  assumes "delivers topic log tpl ms"
  shows "filter (\<lambda>m. partition_key (km_topic m) (km_partition m) = partition_key topic p) ms = of_partition p ms"
  using assms by (auto simp: delivers_def list_all_iff of_partition_def partition_key_inj intro!: filter_cong)

lemma of_partition_append: "of_partition p (ms @ ns) = of_partition p ms @ of_partition p ns"
  by (simp add: of_partition_def)


section \<open>What a restart loses\<close>

text \<open>A checkpoint taken while rows of a message wait counts the message as read: the waiting rows are given out by no later reader.\<close>

lemma waiting_rows_lost:
  assumes "kr_pending r = []" "kr_consumer r \<noteq> None" "km_payload m = Some bs" "decode_payload env r bs = row # rest"
  shows "\<exists>r1. poll_next env (Recv_Message m) r = (Some row, r1) \<and> kr_pending r1 = rest \<and>
    start_offset b c (km_partition m) (hm_get (fst (reader_snapshot r1)) (partition_key (km_topic m) (km_partition m))) = At (km_offset m + 1)"
  using assms by (simp add: poll_next_def pop_pending_def reader_snapshot_def start_offset_def hm_simps Let_def)

text \<open>A restored reader that is checkpointed before a partition gives a message forgets the offset it was restored from.\<close>

lemma restored_offset_forgotten:
  assumes "first_open b c schema state = Inr r"
  shows "fst (reader_snapshot r) = []"
    and "start_offset b' c p (hm_get (fst (reader_snapshot r)) k) = start_offset b' c p None"
  using first_open_fields(2) [OF assms] by (simp_all add: reader_snapshot_def)

section \<open>An example of the source\<close>

definition demo_kafka_config :: kafka_source_config where
  "demo_kafka_config = (source_from_config hm_empty)\<lparr>kc_topic := ''t'', kc_format := Fmt_Text\<rparr>"

definition demo_broker :: kafka_broker where
  "demo_broker =
     \<lparr>kb_create = None, kb_metadata = (\<lambda>t. Inr [(t, [0])]), kb_times = (\<lambda>t p ts. Inr []), kb_committed = (\<lambda>t p. Inr []),
      kb_add = (\<lambda>t p s. None), kb_assign = (\<lambda>tpl. None)\<rparr>"

definition demo_message :: "int \<Rightarrow> string \<Rightarrow> kafka_message" where
  "demo_message n s = \<lparr>km_topic = ''t'', km_partition = 0, km_offset = n, km_payload = Some (utf8 s)\<rparr>"

definition demo_log :: "int \<Rightarrow> kafka_message list" where
  "demo_log p = (if p = 0 then [demo_message 5 ''a'', demo_message 7 ''b''] else [])"

definition demo_kafka_reader :: "(string, int) hashmap \<Rightarrow> offset \<Rightarrow> kafka_reader" where
  "demo_kafka_reader state s = (reader_restore state (reader_new demo_kafka_config None))\<lparr>kr_assigned := [0], kr_consumer := Some [(0, s)]\<rparr>"

lemma demo_kafka_fields:
  "kc_topic demo_kafka_config = ''t''" "kc_startup_mode demo_kafka_config = Earliest" "kc_subtask_index demo_kafka_config = 0"
  "kc_subtask_count demo_kafka_config = 1" "kc_columns demo_kafka_config = []" "kc_format demo_kafka_config = Fmt_Text"
  by (simp_all add: demo_kafka_config_def source_from_config_def startup_mode_of_def get_string_def get_int_def split_list_def trim_def)

lemma demo_key: "partition_key ''t'' 0 = ''t-0''"
  by code_simp

lemma demo_opened:
  "first_open demo_broker demo_kafka_config None state = Inr (demo_kafka_reader state (start_offset demo_broker demo_kafka_config 0 (hm_get state ''t-0'')))"
  by (simp add: first_open_def reader_open_def demo_broker_def own_partitions_def demo_kafka_fields reader_restore_def reader_new_def
      demo_kafka_reader_def demo_key Let_def)

lemma demo_polled:
  "poll_run plain_formats [Recv_Message (demo_message n t)] (demo_kafka_reader state s) =
   ([inserted_row [FString t]], [demo_message n t], (demo_kafka_reader state s)\<lparr>kr_last_offsets := [(''t-0'', n)]\<rparr>)"
  by (simp add: poll_next_def pop_pending_def needs_recv_def demo_kafka_reader_def reader_restore_def reader_new_def demo_kafka_fields
      demo_message_def demo_key decode_payload_def from_utf8_lossy_def hm_insert_def hm_empty_def plain_formats_def)


section \<open>Deliveries are accounted for\<close>

text \<open>Every message handed to the producer is in flight or was counted, as delivered or as failed.\<close>

definition accounts :: "kafka_env \<Rightarrow> delivery list \<Rightarrow> delivery list \<Rightarrow> kafka_metrics \<Rightarrow> bool" where
  "accounts env sent ds m \<longleftrightarrow>
     (\<exists>seen. mset sent = mset ds + mset seen \<and> mt_delivered m + mt_failed m = length seen \<and>
        mt_failed m = length (filter (delivery_failed env) seen))"

lemma accounts_move:
  assumes "accounts env sent ds m" "mset ds = mset rest + mset gone"
  shows "accounts env sent rest (record_deliveries env gone m)"
proof -
  obtain seen where s: "mset sent = mset ds + mset seen" "mt_delivered m + mt_failed m = length seen"
    "mt_failed m = length (filter (delivery_failed env) seen)" using assms(1) by (auto simp: accounts_def)
  have le: "length (filter (delivery_failed env) gone) \<le> length gone" by simp
  have "mset sent = mset rest + mset (gone @ seen)" using s(1) assms(2) by simp
  moreover have "mt_delivered (record_deliveries env gone m) + mt_failed (record_deliveries env gone m) = length (gone @ seen)"
    using s(2) le unfolding record_deliveries_def Let_def by (simp del: length_filter_le)
  moreover have "mt_failed (record_deliveries env gone m) = length (filter (delivery_failed env) (gone @ seen))"
    using s(3) by (simp add: record_deliveries_def Let_def)
  ultimately show ?thesis unfolding accounts_def by blast
qed

lemma accounts_push: "accounts env sent ds m \<Longrightarrow> accounts env (sent @ [d]) (ds @ [d]) m"
  by (auto simp: accounts_def)

lemma accounts_sent: "accounts env sent ds (m\<lparr>mt_sent := n\<rparr>) = accounts env sent ds m"
  by (simp add: accounts_def)

lemma reap_completed_accounts:
  assumes "accounts env sent ds m" "reap_completed env k ds m = (ds1, m1)"
  shows "accounts env sent ds1 m1"
proof -
  have "mset ds = mset (filter (\<lambda>d. \<not> kv_ready env k (dl_id d)) ds) + mset (filter (\<lambda>d. kv_ready env k (dl_id d)) ds)"
    using multiset_partition [of "mset ds" "\<lambda>d. kv_ready env k (dl_id d)"] by (simp add: add.commute)
  from accounts_move [OF assms(1) this] assms(2) show ?thesis by (auto simp: reap_completed_def)
qed

lemma take_drop_mset: "mset ds = mset (drop n ds) + mset (take n ds)"
  by (metis append_take_drop_id mset_append union_commute)

lemma reap_to_limit_accounts:
  assumes "accounts env sent ds m" "reap_to_limit env ds m = (res, ds1, m1)"
  shows "accounts env sent ds1 m1"
  using assms accounts_move [OF assms(1) take_drop_mset]
  by (auto simp: reap_to_limit_def reap_def Let_def split: if_splits)

lemma drain_accounts:
  assumes "accounts env sent ds m" "drain env ds m = (res, ds1, m1)"
  shows "accounts env sent ds1 m1" "ds1 = []"
  using assms accounts_move [OF assms(1) take_drop_mset, of "length ds"]
  by (auto simp: drain_def reap_def Let_def split: if_splits)

lemma after_flush_accounts:
  assumes "accounts env (kw_sent w) (kw_in_flight w) (kw_metrics w)" "after_flush env n w = (res, w1)"
  shows "accounts env (kw_sent w1) (kw_in_flight w1) (kw_metrics w1)"
proof -
  obtain ds m where c: "reap_completed env (kw_looks w) (kw_in_flight w) ((kw_metrics w)\<lparr>mt_sent := mt_sent (kw_metrics w) + n\<rparr>) = (ds, m)"
    by fastforce
  obtain res' ds1 m1 where l: "reap_to_limit env ds m = (res', ds1, m1)" by (cases "reap_to_limit env ds m") auto
  have "accounts env (kw_sent w) ds1 m1"
    using reap_to_limit_accounts [OF reap_completed_accounts [OF _ c] l] assms(1) by (simp add: accounts_sent)
  then show ?thesis using assms(2) c l by (auto simp: after_flush_def)
qed

section \<open>The messages of a row\<close>

definition text_of :: "delivery \<Rightarrow> string \<times> string \<times> string" where
  "text_of d = (dl_topic d, dl_key d, dl_payload d)"

definition cache_ok :: "kafka_env \<Rightarrow> topic_router \<Rightarrow> bool" where
  "cache_ok env tr \<longleftrightarrow> (\<forall>i ts. hm_get (tp_cache tr) i = Some ts \<longrightarrow> resolve_uncached (kv_regex env) tr (Some i) = Inr ts)"

definition same_routes :: "topic_router \<Rightarrow> topic_router \<Rightarrow> bool" where
  "same_routes tr tr' \<longleftrightarrow> tp_routes tr = tp_routes tr' \<and> tp_default_topic tr = tp_default_topic tr'"

lemma resolve_uncached_cong: "same_routes tr tr' \<Longrightarrow> resolve_uncached rx tr origin = resolve_uncached rx tr' origin"
proof -
  assume "same_routes tr tr'"
  then have e: "tp_routes tr = tp_routes tr'" "tp_default_topic tr = tp_default_topic tr'" by (simp_all add: same_routes_def)
  show ?thesis unfolding resolve_uncached_def default_topics_def e ..
qed

lemma resolve_all_correct:
  assumes "cache_ok env tr" "resolve_all (kv_regex env) origin tr = (res, tr1)"
  shows "res = resolve_uncached (kv_regex env) tr origin" "cache_ok env tr1" "same_routes tr1 tr"
proof -
  have upd: "same_routes (tr\<lparr>tp_cache := m\<rparr>) tr" for m by (simp add: same_routes_def)
  show "same_routes tr1 tr" "res = resolve_uncached (kv_regex env) tr origin"
    using assms upd by (auto simp: resolve_all_def cache_ok_def same_routes_def split: option.splits sum.splits)
  show "cache_ok env tr1"
    using assms resolve_uncached_cong [OF upd]
    by (auto simp: resolve_all_def cache_ok_def hm_simps split: option.splits sum.splits if_splits)
qed

definition row_messages :: "kafka_env \<Rightarrow> kafka_sink_config \<Rightarrow> topic_router \<Rightarrow> row \<Rightarrow> (string \<times> string \<times> string) list" where
  "row_messages env c tr r =
     (case row_text env c r of (origin, key, payload) \<Rightarrow>
        (case resolve_uncached (kv_regex env) tr origin of Inr topics \<Rightarrow> map (\<lambda>t. (t, key, payload)) topics | Inl _ \<Rightarrow> []))"

lemma row_messages_cong: "same_routes tr tr' \<Longrightarrow> row_messages env c tr = row_messages env c tr'"
  by (intro ext) (simp add: row_messages_def resolve_uncached_cong [of tr tr'])

definition deliveries :: "nat \<Rightarrow> string \<Rightarrow> string \<Rightarrow> string list \<Rightarrow> delivery list" where
  "deliveries n key payload topics = map (\<lambda>(i, t). \<lparr>dl_id = i, dl_topic = t, dl_key = key, dl_payload = payload\<rparr>) (enumerate n topics)"

lemma push_all:
  "fold (push_delivery key payload) topics w =
     w\<lparr>kw_in_flight := kw_in_flight w @ deliveries (length (kw_sent w)) key payload topics,
       kw_sent := kw_sent w @ deliveries (length (kw_sent w)) key payload topics\<rparr>"
  by (induction topics arbitrary: w) (simp_all add: deliveries_def push_delivery_def Let_def)

lemma deliveries_texts: "map text_of (deliveries n key payload topics) = map (\<lambda>t. (t, key, payload)) topics"
  by (induction topics arbitrary: n) (simp_all add: deliveries_def text_of_def)

lemma accounts_append: "accounts env sent ds m \<Longrightarrow> accounts env (sent @ xs) (ds @ xs) m"
  by (auto simp: accounts_def)

text \<open>What a step that does not fail keeps: the accounts, the cache of topics, and the messages of the rows sent so far.\<close>

definition sink_ok :: "kafka_env \<Rightarrow> kafka_sink_config \<Rightarrow> topic_router \<Rightarrow> row list \<Rightarrow> kafka_writer \<Rightarrow> bool" where
  "sink_ok env c tr flushed w \<longleftrightarrow>
     accounts env (kw_sent w) (kw_in_flight w) (kw_metrics w) \<and> cache_ok env (kw_router w) \<and> same_routes (kw_router w) tr \<and>
     map text_of (kw_sent w) = concat (map (row_messages env c tr) flushed) \<and> kw_config w = c \<and> kw_canal_encoder w = None"

lemma fanout_ok:
  assumes "sink_ok env c tr flushed w" "row_text env c r = (origin, key, payload)" "fanout_delivery env origin key payload w = (Inr n, w1)"
  shows "sink_ok env c tr (flushed @ [r]) w1" "kw_batch w1 = kw_batch w"
proof -
  obtain res tr1 where r: "resolve_all (kv_regex env) origin (kw_router w) = (res, tr1)" by fastforce
  have k: "cache_ok env (kw_router w)" "same_routes (kw_router w) tr" using assms(1) by (simp_all add: sink_ok_def)
  note c = resolve_all_correct [OF k(1) r]
  obtain topics where t: "res = Inr topics" "w1 = fold (push_delivery key payload) topics (w\<lparr>kw_router := tr1\<rparr>)"
    using assms(3) r by (auto simp: fanout_delivery_def split: sum.splits)
  have "row_messages env c tr r = map (\<lambda>t. (t, key, payload)) topics"
    using c(1) [symmetric] t(1) resolve_uncached_cong [OF k(2), of "kv_regex env" origin] by (simp add: row_messages_def assms(2))
  then show "sink_ok env c tr (flushed @ [r]) w1" "kw_batch w1 = kw_batch w"
    using assms(1) c(2,3) k(2) by (auto simp: t(2) push_all sink_ok_def deliveries_texts accounts_append same_routes_def)
qed

lemma fanout_rows_ok:
  "fanout_messages env (map (row_text env c) rs) sent w = (Inr n, w1) \<Longrightarrow> sink_ok env c tr flushed w \<Longrightarrow>
   sink_ok env c tr (flushed @ rs) w1 \<and> kw_batch w1 = kw_batch w"
proof (induction rs arbitrary: sent w flushed)
  case (Cons r rs)
  obtain origin key payload where t: "row_text env c r = (origin, key, payload)" by (cases "row_text env c r") auto
  obtain k w2 where f: "fanout_delivery env origin key payload w = (Inr k, w2)" "fanout_messages env (map (row_text env c) rs) (sent + k) w2 = (Inr n, w1)"
    using Cons.prems(1) by (auto simp: t split: prod.splits sum.splits)
  from Cons.IH [OF f(2) fanout_ok(1) [OF Cons.prems(2) t f(1)]] fanout_ok(2) [OF Cons.prems(2) t f(1)] show ?case by simp
qed simp

lemma after_flush_ok:
  assumes "sink_ok env c tr flushed w" "after_flush env n w = (res, w1)"
  shows "sink_ok env c tr flushed w1" "kw_batch w1 = kw_batch w"
proof -
  have f: "kw_sent w1 = kw_sent w" "kw_router w1 = kw_router w" "kw_config w1 = kw_config w" "kw_canal_encoder w1 = kw_canal_encoder w" "kw_batch w1 = kw_batch w"
    using assms(2) by (auto simp: after_flush_def Let_def split: prod.splits)
  show "sink_ok env c tr flushed w1" "kw_batch w1 = kw_batch w"
    using assms(1) after_flush_accounts [OF _ assms(2)] f by (auto simp: sink_ok_def)
qed

lemma ensure_producer_ok:
  assumes "sink_ok env c tr flushed w" "ensure_producer env w = (res, w1)"
  shows "sink_ok env c tr flushed w1" "kw_batch w1 = kw_batch w" "res = Inr () \<Longrightarrow> kw_producer w1"
  using assms by (auto simp: ensure_producer_def call_producer_def sink_ok_def split: if_splits option.splits)

lemma flush_ok:
  assumes "sink_ok env c tr flushed w" "kafka_flush_batch env now w = (Inr n, w1)"
  shows "sink_ok env c tr (flushed @ kw_batch w) w1" "kw_batch w1 = []"
proof -
  have s: "sink_ok env c tr flushed (w\<lparr>kw_last_flush := now\<rparr>)" using assms(1) by (simp add: sink_ok_def)
  obtain w2 where e: "ensure_producer env (w\<lparr>kw_last_flush := now\<rparr>) = (Inr (), w2)"
    using assms(2) by (auto simp: kafka_flush_batch_def split: prod.splits sum.splits)
  have k: "sink_ok env c tr flushed (w2\<lparr>kw_batch := []\<rparr>)" "kw_batch w2 = kw_batch w" "kw_canal_encoder w2 = None" "kw_config w2 = c"
    using ensure_producer_ok [OF s e] by (simp_all add: sink_ok_def)
  have "sink_ok env c tr (flushed @ kw_batch w) w1 \<and> kw_batch w1 = []"
  proof (cases "kw_batch w = []")
    case True
    then show ?thesis using assms(2) e k by (auto simp: kafka_flush_batch_def)
  next
    case False
    then obtain j w3 where f: "fanout_messages env (map (row_text env c) (kw_batch w)) 0 (w2\<lparr>kw_batch := []\<rparr>) = (Inr j, w3)"
      "after_flush env j w3 = (Inr n, w1)"
      using assms(2) e k by (auto simp: kafka_flush_batch_def split: prod.splits sum.splits)
    from fanout_rows_ok [OF f(1) k(1)] after_flush_ok [OF _ f(2)] show ?thesis by auto
  qed
  then show "sink_ok env c tr (flushed @ kw_batch w) w1" "kw_batch w1 = []" by simp_all
qed

lemma commit_window_ok:
  assumes "sink_ok env c tr flushed w" "commit_window env cp info w = (res, w1)"
  shows "sink_ok env c tr flushed w1 \<and> kw_batch w1 = kw_batch w \<and> kw_in_flight w1 = kw_in_flight w"
  using assms by (auto simp: commit_window_def call_producer_def sink_ok_def split: if_splits option.splits)

lemma prepare_ok:
  assumes "sink_ok env c tr flushed w" "kafka_prepare_commit env now cp w = (Inr infos, w1)"
  shows "sink_ok env c tr (flushed @ kw_batch w) w1" "kw_batch w1 = []" "kw_in_flight w1 = []"
proof -
  obtain n w2 where f: "kafka_flush_batch env now w = (Inr n, w2)"
    using assms(2) by (auto simp: kafka_prepare_commit_def split: prod.splits sum.splits)
  obtain res ds m where d: "drain env (kw_in_flight w2) (kw_metrics w2) = (res, ds, m)" by (cases "drain env (kw_in_flight w2) (kw_metrics w2)") auto
  note k = flush_ok [OF assms(1) f]
  have a: "accounts env (kw_sent w2) (kw_in_flight w2) (kw_metrics w2)" using k(1) by (simp add: sink_ok_def)
  have "accounts env (kw_sent w2) ds m" "ds = []" using drain_accounts [OF a d] by simp_all
  then have s: "sink_ok env c tr (flushed @ kw_batch w) (w2\<lparr>kw_in_flight := [], kw_metrics := m\<rparr>)" "ds = []" using k(1) by (simp_all add: sink_ok_def)
  have "sink_ok env c tr (flushed @ kw_batch w) w1 \<and> kw_batch w1 = [] \<and> kw_in_flight w1 = []"
    using assms(2) f d s k(2) commit_window_ok [OF s(1)]
    by (auto simp: kafka_prepare_commit_def Let_def split: sum.splits if_splits)
  then show "sink_ok env c tr (flushed @ kw_batch w) w1" "kw_batch w1 = []" "kw_in_flight w1 = []" by simp_all
qed

section \<open>Runs of the writer\<close>

datatype kafka_op = K_Write nat row | K_Poll nat | K_Checkpoint nat nat

definition kafka_step :: "kafka_env \<Rightarrow> kafka_op \<Rightarrow> kafka_writer \<Rightarrow> (string + unit) \<times> kafka_writer" where
  "kafka_step env op w =
     (case op of
        K_Write now r \<Rightarrow> kafka_write env now r w
      | K_Poll now \<Rightarrow> kafka_poll_flush env now w
      | K_Checkpoint now cp \<Rightarrow> (case kafka_prepare_commit env now cp w of (res, w1) \<Rightarrow> (map_sum id (\<lambda>_. ()) res, w1)))"

text \<open>A run ends at the first error, which fails the task.\<close>

fun kafka_run :: "kafka_env \<Rightarrow> kafka_op list \<Rightarrow> kafka_writer \<Rightarrow> string + kafka_writer" where
  "kafka_run env [] w = Inr w"
| "kafka_run env (op # ops) w = (case kafka_step env op w of (Inl e, w1) \<Rightarrow> Inl e | (Inr _, w1) \<Rightarrow> kafka_run env ops w1)"

fun written_rows :: "kafka_op list \<Rightarrow> row list" where
  "written_rows [] = []"
| "written_rows (K_Write now r # ops) = r # written_rows ops"
| "written_rows (_ # ops) = written_rows ops"

definition holds_rows :: "kafka_env \<Rightarrow> kafka_sink_config \<Rightarrow> topic_router \<Rightarrow> row list \<Rightarrow> kafka_writer \<Rightarrow> bool" where
  "holds_rows env c tr rows w \<longleftrightarrow> (\<exists>flushed. rows = flushed @ kw_batch w \<and> sink_ok env c tr flushed w)"

lemma flush_holds:
  assumes "holds_rows env c tr rows w" "kafka_flush_batch env now w = (Inr n, w1)"
  shows "holds_rows env c tr rows w1"
  using assms flush_ok [of env c tr _ w now n w1] by (fastforce simp: holds_rows_def)

lemma unit_flush_holds:
  assumes "holds_rows env c tr rows w" "unit_result (kafka_flush_batch env now w) = (Inr (), w1)"
  shows "holds_rows env c tr rows w1"
proof -
  obtain res w2 where f: "kafka_flush_batch env now w = (res, w2)" by fastforce
  then show ?thesis using assms flush_holds [OF assms(1), of now] by (cases res) (auto simp: unit_result_def)
qed

lemma step_holds:
  assumes "holds_rows env c tr rows w" "kafka_step env op w = (Inr (), w1)"
  shows "holds_rows env c tr (rows @ written_rows [op]) w1"
proof (cases op)
  case (K_Write now r)
  have b: "holds_rows env c tr (rows @ [r]) (w\<lparr>kw_batch := kw_batch w @ [r]\<rparr>)"
    using assms(1) by (auto simp: holds_rows_def sink_ok_def)
  from K_Write assms(2) unit_flush_holds [OF b] b show ?thesis
    by (auto simp: kafka_step_def kafka_write_def Let_def split: if_splits)
next
  case (K_Poll now)
  from K_Poll assms unit_flush_holds [OF assms(1), of now] show ?thesis
    by (auto simp: kafka_step_def kafka_poll_flush_def Let_def split: if_splits)
next
  case (K_Checkpoint now cp)
  then obtain infos where p: "kafka_prepare_commit env now cp w = (Inr infos, w1)"
    using assms(2) by (cases "fst (kafka_prepare_commit env now cp w)") (auto simp: kafka_step_def split: prod.splits)
  from assms(1) obtain flushed where f: "rows = flushed @ kw_batch w" "sink_ok env c tr flushed w" by (auto simp: holds_rows_def)
  from prepare_ok [OF f(2) p] show ?thesis by (auto simp: holds_rows_def f(1) K_Checkpoint)
qed

lemma written_rows_Cons: "written_rows (op # ops) = written_rows [op] @ written_rows ops"
  by (cases op) simp_all

lemma run_holds:
  "kafka_run env ops w = Inr w1 \<Longrightarrow> holds_rows env c tr rows w \<Longrightarrow> holds_rows env c tr (rows @ written_rows ops) w1"
proof (induction ops arbitrary: w rows)
  case (Cons op ops)
  then obtain w2 where s: "kafka_step env op w = (Inr (), w2)" "kafka_run env ops w2 = Inr w1"
    by (auto split: prod.splits sum.splits)
  from Cons.IH [OF s(2) step_holds [OF Cons.prems(2) s(1)]] show ?case by (subst written_rows_Cons) simp
qed simp

lemma opened_holds:
  assumes "writer_new env t c = Inr w0" "sk_canal_client c = None" "kafka_open env w0 = (Inr (), w1)"
  shows "holds_rows env c (kw_router w0) [] w1"
proof -
  have n: "sink_ok env c (kw_router w0) [] w0" "kw_batch w0 = []"
    using assms(1,2)
    by (auto simp: writer_new_def router_new_def sink_ok_def accounts_def cache_ok_def same_routes_def split: sum.splits option.splits)
  obtain w2 where e: "ensure_producer env w0 = (Inr (), w2)" using assms(3) by (auto simp: kafka_open_def split: prod.splits sum.splits)
  note k = ensure_producer_ok [OF n(1) e]
  have "sink_ok env c (kw_router w0) [] w1" "kw_batch w1 = kw_batch w2"
    using assms(3) e k(1) by (auto simp: kafka_open_def call_producer_def sink_ok_def split: if_splits option.splits)
  then show ?thesis using k(2) n(2) by (simp add: holds_rows_def)
qed


section \<open>What a checkpoint hides\<close>

text \<open>
  A failed delivery whose report has arrived when a batch is flushed is counted and dropped from the queue, so that the
  checkpoint that follows succeeds whatever the broker answered.
\<close>

lemma fanout_frame:
  "fanout_messages env ms sent w = (res, w1) \<Longrightarrow> kw_looks w1 = kw_looks w \<and> kw_txn_base w1 = kw_txn_base w"
proof (induction env ms sent w rule: fanout_messages.induct)
  case (2 env origin key payload ms sent w)
  obtain r w2 where f: "fanout_delivery env origin key payload w = (r, w2)" by fastforce
  then have "kw_looks w2 = kw_looks w \<and> kw_txn_base w2 = kw_txn_base w" by (auto simp: fanout_delivery_def push_all split: prod.splits sum.splits)
  then show ?case using 2 f by (cases r) auto
qed simp

lemma failed_deliveries_hidden:
  assumes "kw_producer w" "kw_canal_encoder w = None" "kw_txn_base w = None" "kw_batch w \<noteq> []"
    and "\<forall>n. kv_ready env (kw_looks w) n"
    and "fanout_messages env (map (row_text env (kw_config w)) (kw_batch w)) 0 (w\<lparr>kw_last_flush := now, kw_batch := []\<rparr>) = (Inr n, w1)"
  shows "\<exists>infos w2. kafka_prepare_commit env now cp w = (Inr infos, w2)"
proof -
  have f: "kw_looks w1 = kw_looks w" "kw_txn_base w1 = None" using fanout_frame [OF assms(6)] assms(3) by simp_all
  have r: "reap_completed env (kw_looks w1) (kw_in_flight w1) m = ([], record_deliveries env (kw_in_flight w1) m)" for m
    using assms(5) f(1) by (simp add: reap_completed_def)
  have e: "ensure_producer env (w\<lparr>kw_last_flush := now\<rparr>) = (Inr (), w\<lparr>kw_last_flush := now\<rparr>)" using assms(1) by (simp add: ensure_producer_def)
  have "\<exists>w2. kafka_flush_batch env now w = (Inr n, w2) \<and> kw_in_flight w2 = [] \<and> kw_txn_base w2 = None"
    using assms(2,4,6) f(2) e r by (simp add: kafka_flush_batch_def after_flush_def reap_to_limit_def IN_FLIGHT_LIMIT_def Let_def)
  then show ?thesis by (auto simp: kafka_prepare_commit_def drain_def)
qed

section \<open>An example of the sink\<close>

definition demo_kafka_env :: "(string + unit) \<Rightarrow> kafka_env" where
  "demo_kafka_env outcome =
     \<lparr>kv_formats = plain_formats, kv_regex = \<lparr>rx_ok = (\<lambda>p. True), rx_match = (\<lambda>p s. False), rx_escape = (\<lambda>p. p)\<rparr>,
      kv_outcome = (\<lambda>n. outcome), kv_ready = (\<lambda>k n. True), kv_call = (\<lambda>n. None), kv_uuid = (\<lambda>n. [])\<rparr>"

definition demo_sink_config :: kafka_sink_config where
  "demo_sink_config =
     (sink_from_config \<lparr>sr_tables = (\<lambda>s. None), sr_routes = (\<lambda>s. None)\<rparr> hm_empty)\<lparr>sk_topic := ''t'', sk_format := Fmt_Text\<rparr>"

definition demo_kafka_writer :: "row list \<Rightarrow> kafka_writer" where
  "demo_kafka_writer batch =
     \<lparr>kw_config = demo_sink_config, kw_batch = batch, kw_total_written = 0, kw_producer = batch \<noteq> [], kw_last_flush = 0,
      kw_canal_encoder = None, kw_router = \<lparr>tp_routes = [], tp_default_topic = ''t'', tp_cache = hm_empty\<rparr>, kw_in_flight = [],
      kw_metrics = \<lparr>mt_sent = 0, mt_delivered = 0, mt_failed = 0, mt_last_error = None\<rparr>, kw_txn_base = None, kw_txn_open = False,
      kw_txn_messages = 0, kw_last_committed = 0, kw_sent = [], kw_calls = (if batch = [] then [] else [Create]), kw_looks = 0, kw_uuids = 0\<rparr>"

definition demo_sent :: delivery where
  "demo_sent = \<lparr>dl_id = 0, dl_topic = ''t'', dl_key = [], dl_payload = ''a''\<rparr>"

lemma demo_sink_fields:
  "sk_topic demo_sink_config = ''t''" "sk_format demo_sink_config = Fmt_Text" "sk_canal_client demo_sink_config = None"
  "sk_topic_routes demo_sink_config = []" "sk_transactions_enabled demo_sink_config = False" "sk_batch_size demo_sink_config = 1000"
  "sk_batch_timeout_ms demo_sink_config = 100" "sk_partition_key_fields demo_sink_config = []"
  by (simp_all add: demo_sink_config_def sink_from_config_def Let_def get_string_def get_int_def get_bool_def string2_def split_list_def trim_def
      parse_topic_routes_def parse_semantics_def same_text_def)

lemma demo_new: "writer_new (demo_kafka_env out) 0 demo_sink_config = Inr (demo_kafka_writer [])"
  by (simp add: writer_new_def router_new_def demo_sink_fields demo_kafka_writer_def)

lemma demo_prepared:
  "kafka_prepare_commit (demo_kafka_env out) 0 1 (demo_kafka_writer [inserted_row [FString ''a'']]) =
   (Inr [\<lparr>ki_transaction_id = ''non-txn-t'', ki_checkpoint_id = 1, ki_messages_count = 1\<rparr>],
    (demo_kafka_writer [inserted_row [FString ''a'']])\<lparr>kw_batch := [], kw_total_written := 1, kw_txn_messages := 1, kw_looks := 1, kw_sent := [demo_sent],
       kw_metrics := record_deliveries (demo_kafka_env out) [demo_sent] \<lparr>mt_sent = 1, mt_delivered = 0, mt_failed = 0, mt_last_error = None\<rparr>\<rparr>)"
  by (simp add: kafka_prepare_commit_def kafka_flush_batch_def ensure_producer_def demo_kafka_writer_def row_text_def inserted_row_def kafka_row_key_def
      kafka_encode_row_def plain_text_def demo_sink_fields fanout_delivery_def resolve_all_def resolve_uncached_def default_topics_def
      topic_has_placeholders_def contains_text_def strip_prefix_def push_delivery_def after_flush_def reap_completed_def reap_to_limit_def
      IN_FLIGHT_LIMIT_def drain_def demo_sent_def Let_def demo_kafka_env_def)


text \<open>A message the broker refused, and a checkpoint that succeeds.\<close>

lemma refused_message_checkpointed:
  "\<exists>infos w3. kafka_prepare_commit (demo_kafka_env (Inl ''broker down'')) 0 1 (demo_kafka_writer [inserted_row [FString ''a'']]) = (Inr infos, w3) \<and>
     kw_in_flight w3 = [] \<and> kw_sent w3 = [demo_sent] \<and> mt_failed (kw_metrics w3) = 1"
  unfolding demo_prepared by (simp add: demo_kafka_writer_def record_deliveries_def delivery_failed_def demo_kafka_env_def)

text \<open>
  After a checkpoint fails because deliveries failed, closing the writer commits the open transaction, so that a part of a
  window that is replayed becomes visible.
\<close>

lemma close_commits_partial_window:
  assumes "kw_batch w = []" "kw_canal_encoder w = None" "kw_txn_open w" "kw_producer w"
  shows "\<exists>w1. kafka_close env now w = (Inr (), w1) \<and> Commit_Transaction \<in> set (kw_calls w1)"
proof -
  obtain res ds m where "drain env (kw_in_flight w) (kw_metrics w) = (res, ds, m)" by (cases "drain env (kw_in_flight w) (kw_metrics w)") auto
  then show ?thesis using assms
    by (auto simp: kafka_close_def close_canal_def close_window_def call_producer_def Let_def split: option.split)
qed

end
