(* ===== verification/Spec2Isabelle.thy ===== *)
theory Spec2Isabelle
  imports Raft_Log Task_Group_Runs State_Store Fanout Task_Log Recovery Transforms Message_Formats Xa_Runs Schema_Evolution Web_Jobs Kafka_Runs
begin

text \<open>
  A verification development for the execution engine of seatunnel-rs: a data-integration engine that
  reads rows from a source, passes them through transforms and writes them to a sink, with coordinated
  checkpoints, either inside one process (the local runner) or on a cluster of a master and workers.

  \<^bold>\<open>The program.\<close> A job is compiled into pipelines of parallel subtasks. Each subtask is a task group
  (\<open>engine-core/src/task_group.rs\<close>): a loop that polls, transforms, writes, and cuts checkpoint barriers
  between polls. In local mode a checkpoint driver (\<open>local_checkpoint.rs\<close>) triggers barriers through a
  gate per task, collects the reports, persists one envelope per checkpoint in a directory of files,
  and broadcasts the outcome, upon which the tasks run phase 2 of their two-phase commits. On a cluster
  the job coordinator (\<open>engine-server/src/job_coordinator.rs\<close>) keeps the jobs, hands tasks to workers
  that claim them by heartbeat, follows their reports, fences duplicate runners, coordinates checkpoints
  per stage, and is replicated as a state machine over a command log with snapshots; checkpoint payloads
  are kept in the master checkpoint store (\<open>checkpoint_store.rs\<close>).

  \<^bold>\<open>Theories and sources.\<close>
  \<^item> \<open>Prelude\<close>: hash maps as association lists with distinct keys (interface \<open>dict\<close>), saturating and
    casting \<open>u64\<close>/\<open>i64\<close> arithmetic, decimal text. \<open>Json\<close>: the JSON values the planner and the snapshots
    read.
  \<^item> \<open>Retention\<close>: the interface \<open>snapshot_store\<close> of a store that keeps the newest snapshots of a key,
    with what a client may conclude from it; interpreted on the local store and on the master store.
  \<^item> \<open>File_System\<close>: files, \<open>create_dir_all\<close>, \<open>write\<close>, \<open>rename\<close>, directory listing, and the states a
    crash can leave in the middle of a sequence of operations.
  \<^item> \<open>Local_Store\<close>: \<open>LocalCheckpointStore\<close>: naming of directories and files, \<open>save\<close> (temporary file,
    then rename), \<open>load_latest\<close>, \<open>load_all\<close>, \<open>prune\<close>, \<open>drop_job\<close>.
  \<^item> \<open>Checkpoint_Gate\<close>: \<open>GateShared\<close>, \<open>GateControl\<close>, \<open>CheckpointHandle\<close>.
  \<^item> \<open>Local_Driver\<close>: \<open>LocalCheckpointPlan\<close> and \<open>LocalCheckpointDriver\<close>: building and restoring, trigger,
    report handling, completion, abort, exit states, final checkpoint, and the \<open>select!\<close> loop as an
    iteration function, a step relation and a timed step relation.
  \<^item> \<open>Barrier\<close>: \<open>BarrierTracker\<close>. \<open>Task_Group\<close>: \<open>TaskContext\<close>, \<open>TaskGroup\<close> and its \<open>run\<close> loop as a
    small-step machine whose steps interleave with the driver's writes to the gate.
    \<open>Task_Group_Runs\<close>: the lemmas about complete runs.
  \<^item> \<open>Master_Store\<close>: \<open>MemoryCheckpointStore\<close> with retention, import and export.
  \<^item> \<open>Job_State\<close>: \<open>JobState\<close>, its wire and proto forms, the DTO records. \<open>Job_Planner\<close>:
    \<open>extract_pipelines\<close> and \<open>compile_plan_inner\<close>: from a configuration to placed task descriptors.
  \<^item> \<open>Coordinator\<close>: \<open>JobCoordinator\<close>, every operation that changes its state, up to \<open>apply_command\<close>,
    \<open>export_state\<close>, \<open>import_state\<close> and \<open>replace_state\<close>. Lemmas: \<open>Coordinator_Jobs\<close> (job lifecycle,
    fencing term), \<open>Coordinator_Ownership\<close> (dispatch, claims, fencing, failover, the registry
    invariant), \<open>Coordinator_Checkpoints\<close> (collection and resolution of cluster checkpoints),
    \<open>Coordinator_Replication\<close> (snapshots and replay).
  \<^item> \<open>Raft_Machine\<close>, \<open>Raft_Log\<close>: the replicated state machine with its snapshots on disk
    (\<open>raft/state_machine.rs\<close>) and the log store, a file of lines (\<open>raft/log_store.rs\<close>). \<open>Ordered_Map\<close>: \<open>BTreeMap\<close>.
    \<open>Sample_Codecs\<close>: concrete encodings that satisfy the laws asked of the encoders.
  \<^item> \<open>State_Store\<close>: the worker's directory of task states (\<open>state_store.rs\<close>). \<open>Task_Log\<close>: the ring of log
    lines and its shipping. \<open>Recovery\<close>: \<open>RecoveryManager\<close>. \<open>Fanout\<close>: one writer per target behind queues, and its
    committer (\<open>fanout.rs\<close>).
  \<^item> \<open>Rows\<close>: column types, fields, rows, table schemas and schema changes (\<open>seatunnel-api\<close>). \<open>Transforms\<close>: the
    transforms and their chains (\<open>seatunnel-transforms\<close>).
  \<^item> \<open>Formats\<close>, \<open>Binary_Formats\<close>, \<open>Message_Formats\<close>: readers and writers of the message formats
    (\<open>seatunnel-formats\<close>). \<open>Canal_Client\<close>: the stateful encoder that pairs update images.
  \<^item> \<open>Sql_Dialects\<close>: types, DDL and statements of the SQL dialects and JDBC urls. \<open>Xa_Sink\<close>: the exactly-once
    sink of the JDBC connector. \<open>Xa_Runs\<close>: its runs with crashes and restarts.
  \<^item> \<open>Cdc_Base\<close>: what the CDC connectors share (\<open>connector-cdc-base\<close>): watermarks, splits, the table selector,
    differences of column lists, the reader of \<open>ALTER TABLE\<close> statements, the schema watcher.
    \<open>Schema_Evolution\<close>: that the differences lead to the new schema and that generated statements are read back.
  \<^item> \<open>Kafka_Source\<close>, \<open>Kafka_Sink\<close>: the reader, the writer and the committer of the Kafka connector
    (\<open>seatunnel-connector-kafka\<close>). \<open>Kafka_Runs\<close>: restarts of the reader and checkpoints of the writer.
  \<^item> \<open>Config_Parser\<close>: the HOCON reader and the job configuration (\<open>seatunnel-config\<close>). \<open>Config_Runs\<close>: when the
    reader returns and what it gives. \<open>Web_Jobs\<close>: job submission through the web console
    (\<open>seatunnel-web/server/src/api/jobs.rs\<close>), compared with the planner.

  \<^bold>\<open>What is shown.\<close> Stores: a crash never exposes a torn checkpoint; pruning is exactly the retention
  rule; the newest save is what a restore reads; the Raft log and the state machine reopen to what was appended,
  truncated, purged and snapshotted. Driver: a completion is announced only for a durable
  checkpoint, ids increase across restarts. Task groups: every reported checkpoint is a consistent cut
  of the rows polled and written, for all connectors and interleavings; a finished run counts exactly the
  rows written; a cancelled run ends. Fan-out: every target receives every row, commits are routed to the
  target that prepared them. Planner: plans are complete, balanced, with unambiguous ids.
  Coordinator: jobs only move forward, running tasks are not stolen, claims obey admission, duplicates
  are fenced, failover and restart give lost tasks back, checkpoint decisions are all-or-nothing,
  snapshots round-trip, replay agrees up to end times. Rows: schema changes and transforms keep rows
  of the declared types; every format reads back what it writes, within the limits its statement
  names; the messages of the pairing encoder replay to the table. XA sink: after any run with crashes and lost
  answers, a restart leaves every row before the restored position in exactly one committed transaction. Kafka: a restored
  reader goes on after the last message of its checkpoint, and a checkpoint of the writer covers every row written. Schema
  evolution: the changes found between two column lists turn the old schema into the new one, and the statements the
  dialect writes are read back as the changes they came from. Configurations: the lexer returns exactly on texts of
  known characters, written configurations are read back, and a job submitted through the console gets the plan of its
  configuration. The
  development also proves where the code falls
  short of its documentation: exit states are not persisted, a failed final checkpoint is committed, the
  checkpoint timeout does not fire, phase 2 can commit the infos of a later checkpoint, the exit
  barrier's infos are never resolved, a RUNNING report can take over a deploying task, a restart rewinds
  checkpoint ids, a snapshot install keeps stale payloads, end times are not replicated, some formats
  misread the changes they write, an aborted checkpoint loses a window of the XA sink, the Kafka
  connector loses refused messages, waiting rows and the offsets of quiet partitions, a HOCON text with an
  underscore keeps the parser busy forever, the console loses the names of transforms.

  \<^bold>\<open>Modelling choices.\<close> Mutexes make the operations of the coordinator, the gate and the stores atomic;
  interleavings are explicit sequences of operations. A \<open>HashMap\<close> is iterated in the order of its
  association list. Clocks are arguments. Text is ASCII where the code classifies characters, so \<open>char::is_alphanumeric\<close> is
  the ASCII test.
  Counters that only grow by one per event (\<open>records_processed\<close>, \<open>checkpoints_completed\<close>) are natural
  numbers; ids that the code saturates or casts are bounded explicitly. The loops run over lists of
  inputs (what \<open>select!\<close> picked, what the clock read), so a statement about every list covers every
  length of run, and loops that drain queues are total functions. Two loops take fuel: the protobuf reader gets
  the number of bytes, and is shown never to use it up; chunks of a batch get the number of rows, one
  chunk taking at least one. The HOCON lexer may run forever and is a partial function. Encoders are
  parameters with a round-trip law, discharged for a concrete codec in the witnesses; the database server of the XA sink is a
  parameter with the documented behaviour of XA statements as its law, and the Kafka client one whose reports and answers are
  arbitrary, with ordered delivery of a partition as a law of its logs; other connectors are
  parameters without any law. Log lines, tracing and timing statistics are not modelled.

  \<^bold>\<open>Not modelled.\<close> The gRPC services, the worker process, the Raft network, the S3 variant
  of the checkpoint store, the other connectors, the SQL transform, the command line
  and the rest of the web console: input and output around the state changes above, or code that enters as a
  parameter.
\<close>

end
